(* ===== verification/KPrelude.thy ===== *)
theory KPrelude
  imports Main "HOL-Library.Word" "HOL-Library.Monad_Syntax"
begin

text \<open>
  Shared vocabulary of the development: the machine types of \<open>ktypes.h\<close>, memory accesses
  that can leave their object, counted loops, and the lemmas on them that every component
  uses.

  Results are of type \<open>'a option\<close>: \<open>None\<close> stands for undefined behaviour of
  the C++ code (an access outside its array, a null or dangling pointer). The runtime is
  compiled with \<open>NDEBUG\<close> (\<open>kremlin.h\<close> defines it), so an \<open>assert\<close> is no branch of the
  code and does not appear in the model; where an assertion guards an access, the access
  itself yields \<open>None\<close>.
\<close>

section \<open>Machine types (runtime/src/ktypes.h)\<close>

type_synonym UInt8 = "8 word"
type_synonym UInt16 = "16 word"
type_synonym UInt32 = "32 word"
type_synonym UInt = "32 word"
type_synonym UInt64 = "64 word"
type_synonym Addr = "64 word"
type_synonym Time = "64 word"
type_synonym Timestamp = "64 word"
type_synonym Version = "64 word"
type_synonym Level = "32 word"
type_synonym Index = "32 word"
type_synonym Reg = "32 word"
type_synonym SID = "64 word"
type_synonym CID = "64 word"

datatype RegionType = RegionFunc | RegionLoop | RegionLoopBody

section \<open>Fact collections\<close>

named_theorems access_simps \<open>when an access is defined and what it returns\<close>
named_theorems frame_simps \<open>what an operation leaves unchanged\<close>
named_theorems prof_defs \<open>definitions of the profiler's small operations\<close>
named_theorems inv_intros \<open>operations that keep an invariant\<close>

section \<open>Array accesses\<close>

text \<open>An array is a list; an index outside it is undefined behaviour.\<close>

definition rd :: "'a list \<Rightarrow> int \<Rightarrow> 'a option" where
  "rd xs i = (if 0 \<le> i \<and> i < int (length xs) then Some (xs ! nat i) else None)"

definition wr :: "'a list \<Rightarrow> int \<Rightarrow> 'a \<Rightarrow> 'a list option" where
  "wr xs i v = (if 0 \<le> i \<and> i < int (length xs) then Some (xs[nat i := v]) else None)"

text \<open>\<open>memcpy(dst + d, src + s, n)\<close> counted in elements.\<close>

definition memcpy :: "'a list \<Rightarrow> int \<Rightarrow> 'a list \<Rightarrow> int \<Rightarrow> nat \<Rightarrow> 'a list option" where
  "memcpy dst d src s n =
     (if 0 \<le> d \<and> d + int n \<le> int (length dst) \<and> 0 \<le> s \<and> s + int n \<le> int (length src)
      then Some (take (nat d) dst @ take n (drop (nat s) src) @ drop (nat d + n) dst)
      else None)"

text \<open>\<open>memset(dst + d, 0, n)\<close> (or \<open>bzero\<close>) counted in elements.\<close>

definition memzero :: "'a::zero list \<Rightarrow> int \<Rightarrow> nat \<Rightarrow> 'a list option" where
  "memzero dst d n = memcpy dst d (replicate n 0) 0 n"

lemma rd_eq_Some [access_simps]:
  "rd xs i = Some v \<longleftrightarrow> 0 \<le> i \<and> i < int (length xs) \<and> v = xs ! nat i"
  by (auto simp: rd_def)

lemma rd_in [access_simps]: "0 \<le> i \<Longrightarrow> i < int (length xs) \<Longrightarrow> rd xs i = Some (xs ! nat i)"
  by (simp add: rd_def)

lemma rd_int [access_simps]: "n < length xs \<Longrightarrow> rd xs (int n) = Some (xs ! n)"
  by (simp add: rd_def)

lemma rd_out: "i < 0 \<or> int (length xs) \<le> i \<Longrightarrow> rd xs i = None"
  by (auto simp: rd_def)

lemma wr_eq_Some [access_simps]:
  "wr xs i v = Some ys \<longleftrightarrow> 0 \<le> i \<and> i < int (length xs) \<and> ys = xs[nat i := v]"
  by (auto simp: wr_def)

lemma wr_in [access_simps]: "0 \<le> i \<Longrightarrow> i < int (length xs) \<Longrightarrow> wr xs i v = Some (xs[nat i := v])"
  by (simp add: wr_def)

lemma wr_int [access_simps]: "n < length xs \<Longrightarrow> wr xs (int n) v = Some (xs[n := v])"
  by (simp add: wr_def)

lemma wr_length: "wr xs i v = Some ys \<Longrightarrow> length ys = length xs"
  by (auto simp: wr_def split: if_splits)

lemma memcpy_in:
  "0 \<le> d \<Longrightarrow> d + int n \<le> int (length dst) \<Longrightarrow> 0 \<le> s \<Longrightarrow> s + int n \<le> int (length src) \<Longrightarrow>
   memcpy dst d src s n = Some (take (nat d) dst @ take n (drop (nat s) src) @ drop (nat d + n) dst)"
  by (simp add: memcpy_def)

lemma memcpy_length: "memcpy dst d src s n = Some ys \<Longrightarrow> length ys = length dst"
  by (auto simp: memcpy_def split: if_splits)

lemma memcpy_nth:
  assumes "memcpy dst d src s n = Some ys" "k < length dst"
  shows "ys ! k = (if nat d \<le> k \<and> k < nat d + n then src ! (nat s + (k - nat d)) else dst ! k)"
proof -
  from assms(1) have b: "0 \<le> d" "d + int n \<le> int (length dst)" "0 \<le> s" "s + int n \<le> int (length src)"
    and ys: "ys = take (nat d) dst @ take n (drop (nat s) src) @ drop (nat d + n) dst"
    by (auto simp: memcpy_def split: if_splits)
  have l1: "length (take (nat d) dst) = nat d" using b by simp
  have l2: "length (take n (drop (nat s) src)) = n" using b by simp
  have "nat s + n \<le> length src" "nat d + n \<le> length dst" using b by linarith+
  then show ?thesis
    using assms(2) l1 l2 by (auto simp: ys nth_append)
qed

lemma memzero_length: "memzero dst d n = Some ys \<Longrightarrow> length ys = length dst"
  by (auto simp: memzero_def dest: memcpy_length)

lemma memzero_in: "0 \<le> d \<Longrightarrow> d + int n \<le> int (length dst) \<Longrightarrow> \<exists>ys. memzero dst d n = Some ys"
  by (simp add: memzero_def memcpy_def)

lemma memzero_nth:
  assumes "memzero dst d n = Some ys" "k < length dst"
  shows "ys ! k = (if nat d \<le> k \<and> k < nat d + n then 0 else dst ! k)"
  using memcpy_nth [OF assms(1) [unfolded memzero_def] assms(2)] by (auto split: if_splits)

section \<open>Row-major indexing\<close>

lemma row_major_range:
  fixes r c rows cols :: int
  assumes "0 \<le> r" "r < rows" "0 \<le> c" "c < cols"
  shows "0 \<le> cols * r + c" "cols * r + c < rows * cols"
proof -
  from assms show "0 \<le> cols * r + c" by simp
  have "cols * r + c < cols * r + cols" using assms by simp
  also have "\<dots> = cols * (r + 1)" by (simp add: algebra_simps)
  also have "\<dots> \<le> cols * rows" using assms by (intro mult_left_mono) auto
  finally show "cols * r + c < rows * cols" by (simp add: mult.commute)
qed

lemma row_major_inj:
  fixes r c r' c' cols :: int
  assumes "0 \<le> c" "c < cols" "0 \<le> c'" "c' < cols"
  shows "cols * r + c = cols * r' + c' \<longleftrightarrow> r = r' \<and> c = c'"
proof
  assume eq: "cols * r + c = cols * r' + c'"
  have "(cols * r + c) div cols = r" "(cols * r' + c') div cols = r'"
    using assms by simp_all
  with eq have "r = r'" by simp
  with eq show "r = r' \<and> c = c'" by simp
qed simp

section \<open>Counted loops\<close>

text \<open>\<open>for (i = a; i < a + k; ++i) body\<close> over a state, stopping at undefined behaviour.\<close>

fun for_range :: "nat \<Rightarrow> nat \<Rightarrow> (nat \<Rightarrow> 's \<Rightarrow> 's option) \<Rightarrow> 's \<Rightarrow> 's option" where
  "for_range i 0 body s = Some s"
| "for_range i (Suc k) body s = body i s \<bind> for_range (Suc i) k body"

text \<open>Total correctness of a counted loop from an invariant indexed by the counter.\<close>

lemma for_range_rule:
  assumes "I i s"
    and "\<And>j s. i \<le> j \<Longrightarrow> j < i + k \<Longrightarrow> I j s \<Longrightarrow> \<exists>s'. body j s = Some s' \<and> I (Suc j) s'"
  shows "\<exists>s'. for_range i k body s = Some s' \<and> I (i + k) s'"
  using assms
proof (induction k arbitrary: i s)
  case 0
  then show ?case by simp
next
  case (Suc k)
  from Suc.prems(2) [of i s] Suc.prems(1) obtain s1 where s1: "body i s = Some s1" "I (Suc i) s1"
    by auto
  have "\<exists>s'. for_range (Suc i) k body s1 = Some s' \<and> I (Suc i + k) s'"
    by (rule Suc.IH [where i = "Suc i", OF s1(2)]) (use Suc.prems(2) in auto)
  with s1 show ?case by simp
qed

text \<open>Partial correctness: whatever the loop returns satisfies the invariant.\<close>

lemma for_range_inv:
  assumes "for_range i k body s = Some s'" "I i s"
    and "\<And>j s s'. i \<le> j \<Longrightarrow> j < i + k \<Longrightarrow> I j s \<Longrightarrow> body j s = Some s' \<Longrightarrow> I (Suc j) s'"
  shows "I (i + k) s'"
  using assms
proof (induction k arbitrary: i s)
  case 0
  then show ?case by simp
next
  case (Suc k)
  from Suc.prems(1) obtain s1 where s1: "body i s = Some s1" "for_range (Suc i) k body s1 = Some s'"
    by (auto simp: Option.bind_eq_Some_conv)
  have "I (Suc i) s1" using Suc.prems(2,3) s1(1) by auto
  then have "I (Suc i + k) s'"
    by (rule Suc.IH [OF s1(2)]) (use Suc.prems(3) in auto)
  then show ?case by simp
qed

lemma for_range_cong:
  assumes "\<And>j s. i \<le> j \<Longrightarrow> j < i + k \<Longrightarrow> f j s = g j s"
  shows "for_range i k f s = for_range i k g s"
  using assms
proof (induction k arbitrary: i s)
  case 0
  then show ?case by simp
next
  case (Suc k)
  have "for_range (Suc i) k f t = for_range (Suc i) k g t" for t
    by (rule Suc.IH) (use Suc.prems in auto)
  moreover have "f i s = g i s" using Suc.prems by auto
  ultimately show ?case by (cases "g i s") auto
qed

text \<open>A loop whose body writes element \<open>j\<close> with a function of the element read there.\<close>

lemma for_range_append:
  "for_range i (k + l) body s = for_range i k body s \<bind> for_range (i + k) l body"
proof (induction k arbitrary: i s)
  case 0
  then show ?case by simp
next
  case (Suc k)
  show ?case by (cases "body i s") (auto simp: Suc.IH)
qed

lemma for_range_Suc_last:
  "for_range i (Suc k) body s = for_range i k body s \<bind> body (i + k)"
proof -
  have "for_range i (k + 1) body s = for_range i k body s \<bind> for_range (i + k) 1 body"
    by (rule for_range_append)
  then show ?thesis by (cases "for_range i k body s") (auto split: Option.bind_splits)
qed

section \<open>Words\<close>

text \<open>The C conversions of an unsigned value to \<open>int\<close> and back.\<close>

abbreviation to_int :: "UInt32 \<Rightarrow> int" where
  "to_int w \<equiv> sint w"

lemma to_int_small:
  assumes "unat (w :: UInt32) < 2 ^ 31"
  shows "to_int w = int (unat w)"
proof -
  have u: "uint w = int (unat w)" by simp
  from assms have "int (unat w) < int (2 ^ 31)" by (simp only: of_nat_less_iff)
  with u have "uint w < 2 ^ 31" by simp
  then have "signed_take_bit 31 (uint w) = uint w"
    by (intro signed_take_bit_int_eq_self) (simp_all add: order_trans [OF _ uint_ge_0])
  with u show ?thesis by (simp add: sint_uint)
qed

lemma unat_of_nat32: "n < 2 ^ 32 \<Longrightarrow> unat (of_nat n :: UInt32) = n"
  by (simp add: unat_of_nat take_bit_nat_eq_self)

lemma unat_add_of_nat32:
  "unat (w :: UInt32) + n < 2 ^ 32 \<Longrightarrow> unat (w + of_nat n) = unat w + n"
  by (simp add: unat_word_ariths unat_of_nat take_bit_nat_eq_self)

end
