(* ===== verification/KTable.thy ===== *)
theory KTable
  imports KPrelude
begin

text \<open>
  The two-dimensional time table of \<open>runtime/src/Table.h\<close>: shadow register files, the control
  dependence table and the cache's value table are such tables. The data is one flat array in
  row-major order, so a column index past the row's end reaches the next row, as in the code.
\<close>

record Table =
  row :: int
  col :: int
  array :: "Time list"

text \<open>
  The constructor: \<open>calloc(row * col, sizeof(Time))\<close>, all zero. The product is computed in
  \<open>int\<close>, whose overflow is undefined; a negative product makes \<open>calloc\<close> fail, and the null
  array is the empty one.
\<close>

definition Table_new :: "int \<Rightarrow> int \<Rightarrow> Table option" where
  "Table_new r c =
     (if - (2 ^ 31) \<le> r * c \<and> r * c < 2 ^ 31
      then Some \<lparr>row = r, col = c, array = replicate (nat (r * c)) 0\<rparr>
      else None)"

definition getOffset :: "Table \<Rightarrow> int \<Rightarrow> int \<Rightarrow> int" where
  "getOffset t r c = col t * r + c"

text \<open>The address of an element is its offset in the table's array.\<close>

definition getElementAddr :: "Table \<Rightarrow> int \<Rightarrow> int \<Rightarrow> int" where
  "getElementAddr t r c = getOffset t r c"

definition getValue :: "Table \<Rightarrow> int \<Rightarrow> int \<Rightarrow> Time option" where
  "getValue t r c = rd (array t) (getOffset t r c)"

definition setValue :: "Table \<Rightarrow> Time \<Rightarrow> int \<Rightarrow> int \<Rightarrow> Table option" where
  "setValue t time r c = do {
     a \<leftarrow> wr (array t) (getOffset t r c) time;
     Some (t\<lparr>array := a\<rparr>) }"

text \<open>
  \<open>src.copyToDest(dest, dest_reg, src_reg, start, size)\<close>; the register numbers and the start
  column are unsigned and become \<open>int\<close> in the calls of \<open>getElementAddr\<close>.
\<close>

definition copyToDest :: "Table \<Rightarrow> Table \<Rightarrow> Reg \<Rightarrow> Reg \<Rightarrow> UInt32 \<Rightarrow> UInt32 \<Rightarrow> Table option" where
  "copyToDest src dest dest_reg src_reg start n =
     (if n = 0 then Some dest
      else do {
        a \<leftarrow> memcpy (array dest) (getElementAddr dest (to_int dest_reg) (to_int start))
                    (array src) (getElementAddr src (to_int src_reg) (to_int start)) (unat n);
        Some (dest\<lparr>array := a\<rparr>) })"

section \<open>Well-formed tables\<close>

definition table_ok :: "Table \<Rightarrow> bool" where
  "table_ok t \<longleftrightarrow> 0 \<le> row t \<and> 0 \<le> col t \<and> row t * col t < 2 ^ 31
     \<and> length (array t) = nat (row t * col t)"

text \<open>The element at a position inside the table.\<close>

definition cell :: "Table \<Rightarrow> int \<Rightarrow> int \<Rightarrow> Time" where
  "cell t r c = array t ! nat (col t * r + c)"

definition in_table :: "Table \<Rightarrow> int \<Rightarrow> int \<Rightarrow> bool" where
  "in_table t r c \<longleftrightarrow> 0 \<le> r \<and> r < row t \<and> 0 \<le> c \<and> c < col t"

lemma in_table_offset:
  assumes "table_ok t" "in_table t r c"
  shows "0 \<le> col t * r + c" "col t * r + c < int (length (array t))"
  using assms row_major_range [of r "row t" c "col t"] by (auto simp: table_ok_def in_table_def)

lemma table_ok_new: "0 \<le> r \<Longrightarrow> 0 \<le> c \<Longrightarrow> r * c < 2 ^ 31 \<Longrightarrow>
   \<exists>t. Table_new r c = Some t \<and> table_ok t \<and> row t = r \<and> col t = c"
  by (auto simp: Table_new_def table_ok_def intro: order_trans [OF _ mult_nonneg_nonneg])

lemma cell_new: "Table_new r c = Some t \<Longrightarrow> table_ok t \<Longrightarrow> in_table t i j \<Longrightarrow> cell t i j = 0"
  using in_table_offset [of t i j] by (auto simp: Table_new_def cell_def split: if_splits)

lemma getValue_in [access_simps]:
  "table_ok t \<Longrightarrow> in_table t r c \<Longrightarrow> getValue t r c = Some (cell t r c)"
  using in_table_offset [of t r c] by (simp add: getValue_def getOffset_def cell_def rd_in)

lemma setValue_in [access_simps]:
  "table_ok t \<Longrightarrow> in_table t r c \<Longrightarrow>
   setValue t v r c = Some (t\<lparr>array := (array t)[nat (col t * r + c) := v]\<rparr>)"
  using in_table_offset [of t r c] by (simp add: setValue_def getOffset_def wr_in)

lemma setValue_ok:
  "setValue t v r c = Some t' \<Longrightarrow> table_ok t' = table_ok t \<and> row t' = row t \<and> col t' = col t"
  by (auto simp: setValue_def table_ok_def access_simps split: Option.bind_splits)

lemma in_table_setValue:
  "setValue t v r c = Some t' \<Longrightarrow> in_table t' i j = in_table t i j"
  by (auto dest: setValue_ok simp: in_table_def)

lemma cell_setValue:
  assumes "table_ok t" "in_table t r c" "in_table t i j" "setValue t v r c = Some t'"
  shows "cell t' i j = (if i = r \<and> j = c then v else cell t i j)"
proof -
  from assms have t': "t' = t\<lparr>array := (array t)[nat (col t * r + c) := v]\<rparr>"
    by (simp add: setValue_in)
  note rc = in_table_offset [OF assms(1,2)] and ij = in_table_offset [OF assms(1,3)]
  have inj: "nat (col t * r + c) = nat (col t * i + j) \<longleftrightarrow> i = r \<and> j = c"
    using row_major_inj [of c "col t" j r i] rc ij assms(2,3)
    by (auto simp: in_table_def nat_eq_iff)
  from inj ij show ?thesis
    by (auto simp: t' cell_def nth_list_update)
qed

section \<open>Copying a register row\<close>

lemma copyToDest_ok:
  "copyToDest src dest dr sr start n = Some t \<Longrightarrow>
   table_ok t = table_ok dest \<and> row t = row dest \<and> col t = col dest"
  by (auto simp: copyToDest_def table_ok_def dest: memcpy_length
      split: if_splits Option.bind_splits)

lemma copy_range:
  assumes "table_ok t" "0 \<le> r" "r < row t" "int n \<le> col t"
  shows "0 \<le> col t * r" "col t * r + int n \<le> int (length (array t))"
proof -
  from assms show "0 \<le> col t * r" by (simp add: table_ok_def)
  have "col t * r + int n \<le> col t * (r + 1)" using assms by (simp add: algebra_simps)
  also have "\<dots> \<le> col t * row t" using assms by (intro mult_left_mono) (auto simp: table_ok_def)
  finally show "col t * r + int n \<le> int (length (array t))"
    using assms by (simp add: table_ok_def mult.commute)
qed

text \<open>
  A copy of the first \<open>n\<close> columns of a row that exists in both tables succeeds, replaces
  exactly those columns of the destination row and nothing else.
\<close>

lemma copyToDest_cells:
  assumes ok: "table_ok src" "table_ok dest"
    and rows: "0 \<le> to_int sr" "to_int sr < row src" "0 \<le> to_int dr" "to_int dr < row dest"
    and cols: "int (unat n) \<le> col src" "int (unat n) \<le> col dest"
  shows "\<exists>t. copyToDest src dest dr sr 0 n = Some t \<and>
           (\<forall>i j. in_table dest i j \<longrightarrow>
              cell t i j = (if i = to_int dr \<and> j < int (unat n) then cell src (to_int sr) j
                            else cell dest i j))"
proof (cases "n = 0")
  case True
  then show ?thesis by (auto simp: copyToDest_def in_table_def)
next
  case False
  let ?d = "col dest * to_int dr" and ?s = "col src * to_int sr" and ?n = "unat n"
  note rs = copy_range [OF ok(1) rows(1,2) cols(1)] and rd = copy_range [OF ok(2) rows(3,4) cols(2)]
  obtain a where a: "memcpy (array dest) ?d (array src) ?s ?n = Some a"
    using rs rd by (simp add: memcpy_def)
  have eq: "copyToDest src dest dr sr 0 n = Some (dest\<lparr>array := a\<rparr>)"
    using False a by (simp add: copyToDest_def getElementAddr_def getOffset_def)
  have "cell (dest\<lparr>array := a\<rparr>) i j =
      (if i = to_int dr \<and> j < int ?n then cell src (to_int sr) j else cell dest i j)"
    if ij: "in_table dest i j" for i j
  proof -
    note o = in_table_offset [OF ok(2) ij]
    have k: "nat (col dest * i + j) < length (array dest)" using o by linarith
    have b: "0 \<le> j" "j < col dest" using ij by (auto simp: in_table_def)
    have iff: "nat ?d \<le> nat (col dest * i + j) \<and> nat (col dest * i + j) < nat ?d + ?n
        \<longleftrightarrow> i = to_int dr \<and> j < int ?n"
    proof
      assume "nat ?d \<le> nat (col dest * i + j) \<and> nat (col dest * i + j) < nat ?d + ?n"
      then have "?d \<le> col dest * i + j" "col dest * i + j < ?d + int ?n"
        using o rd(1) by linarith+
      then have "col dest * i + j = col dest * to_int dr + (col dest * i + j - ?d)"
        "0 \<le> col dest * i + j - ?d" "col dest * i + j - ?d < col dest"
        using cols(2) by auto
      then have "i = to_int dr" and "j = col dest * i + j - ?d"
        using row_major_inj [OF b] by blast+
      then show "i = to_int dr \<and> j < int ?n" using \<open>col dest * i + j < ?d + int ?n\<close> by simp
    next
      assume "i = to_int dr \<and> j < int ?n"
      then show "nat ?d \<le> nat (col dest * i + j) \<and> nat (col dest * i + j) < nat ?d + ?n"
        using b rd(1) by (simp add: nat_add_distrib nat_less_iff)
    qed
    show ?thesis
    proof (cases "i = to_int dr \<and> j < int ?n")
      case True
      have "nat ?s + (nat (col dest * i + j) - nat ?d) = nat (?s + j)"
        using True b rd(1) rs(1) by (simp add: nat_add_distrib)
      then show ?thesis
        using memcpy_nth [OF a k] iff True by (simp add: cell_def)
    next
      case False
      then show ?thesis using memcpy_nth [OF a k] iff by (auto simp: cell_def)
    qed
  qed
  with eq show ?thesis by auto
qed

section \<open>Reading after writing\<close>

text \<open>
  A table keeps what is written: after \<open>setValue\<close> at a position of the table, \<open>getValue\<close> returns
  the new time there and the old time at every other position; nothing outside the array is touched.
\<close>

theorem table_get_after_set:
  assumes "table_ok t" "in_table t r c"
  shows "\<exists>t'. setValue t v r c = Some t' \<and> table_ok t' \<and> row t' = row t \<and> col t' = col t
     \<and> (\<forall>i j. in_table t i j \<longrightarrow> getValue t' i j = (if i = r \<and> j = c then Some v else getValue t i j))"
proof -
  obtain t' where t': "setValue t v r c = Some t'" using setValue_in [OF assms] by blast
  have "getValue t' i j = (if i = r \<and> j = c then Some v else getValue t i j)" if "in_table t i j" for i j
    using cell_setValue [OF assms that t'] setValue_ok [OF t'] in_table_setValue [OF t'] assms that
    by (simp add: getValue_in)
  with t' setValue_ok [OF t'] assms(1) show ?thesis by blast
qed

definition sample_table :: Table where
  "sample_table = \<lparr>row = 2, col = 3, array = [1, 2, 3, 4, 5, 6]\<rparr>"

lemma sample_table_ok: "table_ok sample_table" "in_table sample_table 1 0" "in_table sample_table 0 2"
  by (simp_all add: sample_table_def table_ok_def in_table_def)

theorem table_get_after_set_witness:
  "\<exists>t'. setValue sample_table 9 1 0 = Some t' \<and> getValue t' 1 0 = Some 9 \<and> getValue t' 0 2 = Some 3"
proof -
  from table_get_after_set [OF sample_table_ok(1,2), of 9] obtain t' where
    t': "setValue sample_table 9 1 0 = Some t'"
    "\<forall>i j. in_table sample_table i j \<longrightarrow>
       getValue t' i j = (if i = 1 \<and> j = 0 then Some 9 else getValue sample_table i j)" by blast
  have "getValue sample_table 0 2 = Some 3"
    by (simp add: sample_table_def getValue_def getOffset_def rd_def numeral_2_eq_2)
  with t' sample_table_ok show ?thesis by auto
qed

text \<open>
  Copying a register between tables of any two sizes moves exactly the first \<open>n\<close> levels of the
  source register into the destination register and changes no other register and no other level.
\<close>

theorem table_copy_moves_row:
  assumes "table_ok src" "table_ok dest"
    and "0 \<le> to_int sr" "to_int sr < row src" "0 \<le> to_int dr" "to_int dr < row dest"
    and "int (unat n) \<le> col src" "int (unat n) \<le> col dest"
  shows "\<exists>t. copyToDest src dest dr sr 0 n = Some t \<and> table_ok t \<and>
           (\<forall>i j. in_table dest i j \<longrightarrow>
              getValue t i j = (if i = to_int dr \<and> j < int (unat n) then getValue src (to_int sr) j
                                else getValue dest i j))"
proof -
  from copyToDest_cells [OF assms] obtain t where t: "copyToDest src dest dr sr 0 n = Some t"
    "\<And>i j. in_table dest i j \<Longrightarrow> cell t i j = (if i = to_int dr \<and> j < int (unat n)
       then cell src (to_int sr) j else cell dest i j)" by blast
  note ok = copyToDest_ok [OF t(1)]
  have "getValue t i j = (if i = to_int dr \<and> j < int (unat n) then getValue src (to_int sr) j
      else getValue dest i j)" if ij: "in_table dest i j" for i j
  proof -
    have "in_table t i j" using ij ok by (simp add: in_table_def)
    moreover have "in_table src (to_int sr) j" if "j < int (unat n)"
      using that ij assms by (simp add: in_table_def)
    ultimately show ?thesis using t(2) [OF ij] ok assms(1,2) ij by (simp add: getValue_in)
  qed
  with t(1) ok assms(2) show ?thesis by blast
qed

theorem table_copy_moves_row_witness:
  "\<exists>t. copyToDest sample_table (sample_table\<lparr>array := replicate 6 0\<rparr>) 0 1 0 2 = Some t
     \<and> getValue t 0 1 = Some 5 \<and> getValue t 0 2 = Some 0"
proof -
  let ?d = "sample_table\<lparr>array := replicate 6 0\<rparr>"
  have ok: "table_ok ?d" by (simp add: sample_table_def table_ok_def)
  obtain t where t: "copyToDest sample_table ?d 0 1 0 2 = Some t"
    "\<forall>i j. in_table ?d i j \<longrightarrow> getValue t i j = (if i = 0 \<and> j < 2 then getValue sample_table 1 j
       else getValue ?d i j)"
    using table_copy_moves_row [OF sample_table_ok(1) ok, of 1 0 2] by (auto simp: sample_table_def)
  have "getValue sample_table 1 1 = Some 5" "getValue ?d 0 2 = Some 0"
    "in_table ?d 0 1" "in_table ?d 0 2"
    by (simp_all add: sample_table_def getValue_def getOffset_def rd_def in_table_def
        eval_nat_numeral)
  with t show ?thesis by auto
qed

end
