(* ===== verification/KFloat.thy ===== *)
theory KFloat
  imports KPrelude Complex_Main
begin

text \<open>
  The \<open>double\<close> arithmetic that the self-parallelism metric uses (\<open>Handlers.cpp\<close>,
  \<open>ProfileNode.cpp\<close>, \<open>CRegion.cpp\<close>): conversion of a \<open>UInt64\<close>, division, multiplication,
  comparison and conversion back. A finite double is the rational it denotes; every
  operation rounds its exact result to 53 significant bits, ties to even. The magnitudes
  that occur lie between \<open>2^-64\<close> and \<open>2^135\<close>, so neither the exponent range nor subnormal
  numbers play a part, and zero is never negative.

  Converting a double outside the range of \<open>UInt64\<close> (or a NaN) back to an integer is
  undefined in C++; what the target machine delivers is the parameter \<open>oor\<close>.
\<close>

datatype double = NaN | Inf bool | Fin rat

fun blen :: "nat \<Rightarrow> nat" where
  "blen n = (if n = 0 then 0 else Suc (blen (n div 2)))"

declare blen.simps [simp del]

definition pow2 :: "int \<Rightarrow> rat" where
  "pow2 e = (if 0 \<le> e then 2 ^ nat e else 1 / 2 ^ nat (- e))"

text \<open>The exponent of the leading bit of a positive rational.\<close>

definition lead_exp :: "rat \<Rightarrow> int" where
  "lead_exp q = (case quotient_of q of (n, d) \<Rightarrow>
     let k = int (blen (nat n)) - int (blen (nat d))
     in if q < pow2 k then k - 1 else k)"

definition round_half_even :: "rat \<Rightarrow> int" where
  "round_half_even q = (let m = \<lfloor>q\<rfloor>; f = q - of_int m
     in if f < 1 / 2 \<or> (f = 1 / 2 \<and> even m) then m else m + 1)"

definition round_pos :: "rat \<Rightarrow> rat" where
  "round_pos q = (let e = lead_exp q - 52 in of_int (round_half_even (q / pow2 e)) * pow2 e)"

definition dround :: "rat \<Rightarrow> rat" where
  "dround q = (if q = 0 then 0 else if 0 < q then round_pos q else - round_pos (- q))"

definition of_u64 :: "UInt64 \<Rightarrow> double" where
  "of_u64 w = Fin (dround (of_int (uint w)))"

fun ddiv :: "double \<Rightarrow> double \<Rightarrow> double" where
  "ddiv (Fin a) (Fin b) =
     (if b = 0 then (if a = 0 then NaN else Inf (a < 0)) else Fin (dround (a / b)))"
| "ddiv (Fin a) (Inf s) = Fin 0"
| "ddiv (Inf s) (Fin b) = Inf (s \<noteq> (b < 0))"
| "ddiv _ _ = NaN"

fun dmul :: "double \<Rightarrow> double \<Rightarrow> double" where
  "dmul (Fin a) (Fin b) = Fin (dround (a * b))"
| "dmul (Inf s) (Fin b) = (if b = 0 then NaN else Inf (s \<noteq> (b < 0)))"
| "dmul (Fin a) (Inf s) = (if a = 0 then NaN else Inf (s \<noteq> (a < 0)))"
| "dmul (Inf s) (Inf t) = Inf (s \<noteq> t)"
| "dmul _ _ = NaN"

text \<open>The comparison \<open>x < y\<close>, false as soon as one side is a NaN.\<close>

fun dless :: "double \<Rightarrow> double \<Rightarrow> bool" where
  "dless (Fin a) (Fin b) = (a < b)"
| "dless (Fin a) (Inf s) = (\<not> s)"
| "dless (Inf s) (Fin b) = s"
| "dless (Inf s) (Inf t) = (s \<and> \<not> t)"
| "dless _ _ = False"

text \<open>The cast \<open>(UInt64)d\<close>: truncation, with \<open>oor\<close> for the values C++ leaves undefined.\<close>

fun to_u64 :: "(double \<Rightarrow> UInt64) \<Rightarrow> double \<Rightarrow> UInt64" where
  "to_u64 oor (Fin a) = (if - 1 < a \<and> a < 2 ^ 64 then of_int (if a < 0 then 0 else \<lfloor>a\<rfloor>)
                          else oor (Fin a))"
| "to_u64 oor d = oor d"

section \<open>Rounding is exact on small integers\<close>

lemma blen_bounds: "0 < n \<Longrightarrow> 2 ^ (blen n - 1) \<le> n \<and> n < 2 ^ blen n"
proof (induction n rule: blen.induct)
  case (1 n)
  show ?case
  proof (cases "n div 2 = 0")
    case True
    with "1.prems" have "n = 1" by simp
    then show ?thesis by (simp add: blen.simps)
  next
    case False
    then have IH: "2 ^ (blen (n div 2) - 1) \<le> n div 2 \<and> n div 2 < 2 ^ blen (n div 2)"
      using 1 by simp
    have pos: "0 < blen (n div 2)" using False by (simp add: blen.simps [of "n div 2"])
    have eq: "blen n = Suc (blen (n div 2))" using "1.prems" by (simp add: blen.simps [of n])
    have "(2::nat) ^ blen (n div 2) = 2 * 2 ^ (blen (n div 2) - 1)"
      using pos by (cases "blen (n div 2)") auto
    moreover have "\<And>x. x \<le> n div 2 \<Longrightarrow> 2 * x \<le> n" "\<And>x. n div 2 < x \<Longrightarrow> n < 2 * x"
      by linarith+
    ultimately show ?thesis using IH eq by (metis diff_Suc_1 power_Suc)
  qed
qed

lemma pow2_pos [simp]: "0 < pow2 e"
  by (simp add: pow2_def)

lemma pow2_nat: "pow2 (int n) = 2 ^ n"
  by (simp add: pow2_def)

lemma lead_exp_nat:
  assumes "0 < n"
  shows "lead_exp (rat_of_nat n) = int (blen n) - 1"
proof -
  have q: "quotient_of (rat_of_nat n) = (int n, 1)"
    by (simp add: of_nat_rat quotient_of_Fract Rat.normalize_def)
  have b1: "blen (Suc 0) = Suc 0" by (simp add: blen.simps)
  have p: "0 < blen n" using assms by (simp add: blen.simps [of n])
  have lo: "rat_of_nat n \<ge> 2 ^ (blen n - 1)"
    using blen_bounds [OF assms] by (metis of_nat_le_iff of_nat_numeral of_nat_power)
  have k: "int (blen n) - 1 = int (blen n - 1)" using p by simp
  have "\<not> rat_of_nat n < pow2 (int (blen n) - 1)"
    using lo unfolding k pow2_nat by simp
  then show ?thesis by (simp add: lead_exp_def q b1 Let_def)
qed

lemma round_half_even_int [simp]: "round_half_even (of_int m) = m"
  by (simp add: round_half_even_def)

lemma dround_0 [simp]: "dround 0 = 0"
  by (simp add: dround_def)

lemma dround_nat:
  assumes "n < 2 ^ 53"
  shows "dround (rat_of_nat n) = rat_of_nat n"
proof (cases "n = 0")
  case True
  then show ?thesis by simp
next
  case False
  then have pos: "0 < n" by simp
  have "blen n \<le> 53"
  proof (rule ccontr)
    assume "\<not> blen n \<le> 53"
    then have "(2::nat) ^ 53 \<le> 2 ^ (blen n - 1)" by (intro power_increasing) auto
    with blen_bounds [OF pos] assms show False by linarith
  qed
  then have e: "lead_exp (rat_of_nat n) - 52 = - int (53 - blen n)"
    using lead_exp_nat [OF pos] by simp
  have p: "pow2 (- int (53 - blen n)) = 1 / 2 ^ (53 - blen n)"
    by (auto simp: pow2_def)
  have i: "rat_of_nat n / pow2 (- int (53 - blen n)) = of_int (int n * 2 ^ (53 - blen n))"
    by (simp add: p)
  have "round_pos (rat_of_nat n) = rat_of_nat n"
    unfolding round_pos_def Let_def e i round_half_even_int by (simp add: p)
  then show ?thesis using pos by (simp add: dround_def)
qed

lemma of_u64_small:
  assumes "unat w < 2 ^ 53"
  shows "of_u64 w = Fin (rat_of_nat (unat w))"
proof -
  have "rat_of_int (uint w) = rat_of_nat (unat w)" by (metis of_int_of_nat_eq uint_nat)
  then show ?thesis using dround_nat [OF assms] by (simp add: of_u64_def)
qed

lemma to_u64_nat: "n < 2 ^ 64 \<Longrightarrow> to_u64 oor (Fin (rat_of_nat n)) = of_nat n"
proof -
  assume n: "n < 2 ^ 64"
  have "rat_of_nat n < 2 ^ 64"
    by (metis n of_nat_less_iff of_nat_numeral of_nat_power)
  then show ?thesis by (simp add: order_less_le_trans [of "-1" 0])
qed

lemma ddiv_self: "0 < n \<Longrightarrow> ddiv (Fin (rat_of_nat n)) (Fin (rat_of_nat n)) = Fin 1"
  using dround_nat [of 1] by simp

lemma ddiv_one: "n < 2 ^ 53 \<Longrightarrow> ddiv (Fin (rat_of_nat n)) (Fin 1) = Fin (rat_of_nat n)"
  using dround_nat [of n] by simp

end
