(* ===== verification/ProfileTree.thy ===== *)
theory ProfileTree
  imports KFloat
begin

text \<open>
  The nodes of the profiled region tree: \<open>ProfileNode\<close> and \<open>ProfileNodeStats\<close>
  (runtime/src/ProfileNode.hpp, .cpp, ProfileNodeStats.hpp) and the statistics record of
  \<open>CRegion.h\<close>. Nodes refer to each other by pointer (parent, children, recursion target), so
  they live in a heap: a pointer is the number of an allocation, and a dereference of a null
  or unknown pointer is \<open>None\<close>. The three file-level variables of \<open>CRegion.cpp\<close> (the region
  stack, the root and the current node) are fields of the same state.
\<close>

section \<open>Data\<close>

record RegionStats =
  rs_work :: UInt64
  rs_cp :: UInt64
  rs_callSite :: UInt64
  rs_spWork :: UInt64
  rs_is_doall :: UInt64
  rs_childCnt :: UInt64

record ProfileNodeStats =
  total_work :: UInt64
  min_self_par :: double
  max_self_par :: double
  self_par_per_work :: UInt64
  total_par_per_work :: UInt64
  num_dynamic_child_regions :: UInt64
  min_dynamic_child_regions :: UInt64
  max_dynamic_child_regions :: UInt64
  st_num_instances :: UInt64

text \<open>\<open>min_self_par\<close> starts at \<open>-1\<close>, \<open>min_dynamic_child_regions\<close> at \<open>(UInt64)-1\<close>.\<close>

definition ProfileNodeStats_new :: ProfileNodeStats where
  "ProfileNodeStats_new =
     \<lparr>total_work = 0, min_self_par = Fin (- 1), max_self_par = Fin 0,
      self_par_per_work = 0, total_par_per_work = 0,
      num_dynamic_child_regions = 0, min_dynamic_child_regions = - 1,
      max_dynamic_child_regions = 0, st_num_instances = 0\<rparr>"

datatype ProfileNodeType = NORMAL | R_INIT | R_SINK

type_synonym node_ptr = nat

record ProfileNode =
  pn_region_type :: RegionType
  pn_id :: UInt64
  pn_static_id :: UInt64
  pn_callsite_id :: UInt64
  pn_num_instances :: UInt64
  pn_is_doall :: UInt64
  pn_node_type :: ProfileNodeType
  pn_recursion :: "node_ptr option"
  pn_stats :: "ProfileNodeStats list"
  pn_curr_stat_index :: int
  pn_parent :: "node_ptr option"
  pn_children :: "node_ptr list"

record RegionTree =
  rt_nodes :: "node_ptr \<rightharpoonup> ProfileNode"
  rt_next :: nat
  rt_lastId :: UInt64
  rt_stack :: "node_ptr list"
  rt_root :: "node_ptr option"
  rt_curr :: "node_ptr option"

text \<open>The order of the node types, which the file format uses as numbers.\<close>

instantiation ProfileNodeType :: linorder
begin

definition node_type_code :: "ProfileNodeType \<Rightarrow> nat" where
  "node_type_code t = (case t of NORMAL \<Rightarrow> 0 | R_INIT \<Rightarrow> 1 | R_SINK \<Rightarrow> 2)"

definition less_eq_ProfileNodeType :: "ProfileNodeType \<Rightarrow> ProfileNodeType \<Rightarrow> bool" where
  "less_eq_ProfileNodeType s t \<longleftrightarrow> node_type_code s \<le> node_type_code t"

definition less_ProfileNodeType :: "ProfileNodeType \<Rightarrow> ProfileNodeType \<Rightarrow> bool" where
  "less_ProfileNodeType s t \<longleftrightarrow> node_type_code s < node_type_code t"

instance
  by standard
    (auto simp: less_eq_ProfileNodeType_def less_ProfileNodeType_def node_type_code_def
      split: ProfileNodeType.splits)

end

section \<open>The heap of nodes\<close>

definition upd_node :: "node_ptr \<Rightarrow> (ProfileNode \<Rightarrow> ProfileNode) \<Rightarrow> RegionTree \<Rightarrow> RegionTree option" where
  "upd_node p f s = do {
     n \<leftarrow> rt_nodes s p;
     Some (s\<lparr>rt_nodes := (rt_nodes s)(p \<mapsto> f n)\<rparr>) }"

definition allocId :: "RegionTree \<Rightarrow> UInt64 \<times> RegionTree" where
  "allocId s = (rt_lastId s + 1, s\<lparr>rt_lastId := rt_lastId s + 1\<rparr>)"

definition ProfileNode_new :: "SID \<Rightarrow> CID \<Rightarrow> RegionType \<Rightarrow> RegionTree \<Rightarrow> node_ptr \<times> RegionTree" where
  "ProfileNode_new sid cid rtype s =
     (let (i, s) = allocId s; p = rt_next s;
          n = \<lparr>pn_region_type = rtype, pn_id = i, pn_static_id = sid, pn_callsite_id = cid,
               pn_num_instances = 0, pn_is_doall = 1, pn_node_type = NORMAL,
               pn_recursion = None, pn_stats = [], pn_curr_stat_index = - 1,
               pn_parent = None, pn_children = []\<rparr>
      in (p, s\<lparr>rt_nodes := (rt_nodes s)(p \<mapsto> n), rt_next := Suc p\<rparr>))"

text \<open>The destructor deletes the children first; its recursion is bounded by the fuel.\<close>

fun delete_node :: "nat \<Rightarrow> node_ptr \<Rightarrow> (node_ptr \<rightharpoonup> ProfileNode) \<Rightarrow> (node_ptr \<rightharpoonup> ProfileNode) option" where
  "delete_node 0 p h = None"
| "delete_node (Suc fuel) p h = do {
     n \<leftarrow> h p;
     h' \<leftarrow> fold (\<lambda>c acc. acc \<bind> delete_node fuel c) (pn_children n) (Some h);
     Some (h'(p := None)) }"

section \<open>Children\<close>

fun find_child :: "(node_ptr \<rightharpoonup> ProfileNode) \<Rightarrow> SID \<Rightarrow> CID \<Rightarrow> node_ptr list \<Rightarrow> node_ptr option option" where
  "find_child h sid cid [] = Some None"
| "find_child h sid cid (c # cs) = do {
     n \<leftarrow> h c;
     if pn_static_id n = sid \<and> (pn_region_type n \<noteq> RegionFunc \<or> pn_callsite_id n = cid)
     then Some (Some c)
     else find_child h sid cid cs }"

definition getChild :: "RegionTree \<Rightarrow> node_ptr \<Rightarrow> SID \<Rightarrow> CID \<Rightarrow> node_ptr option option" where
  "getChild s p sid cid = do {
     n \<leftarrow> rt_nodes s p;
     find_child (rt_nodes s) sid cid (pn_children n) }"

definition addChild :: "node_ptr \<Rightarrow> node_ptr \<Rightarrow> RegionTree \<Rightarrow> RegionTree option" where
  "addChild p c s = do {
     s \<leftarrow> upd_node p (\<lambda>n. n\<lparr>pn_children := pn_children n @ [c]\<rparr>) s;
     upd_node c (\<lambda>n. n\<lparr>pn_parent := Some p\<rparr>) s }"

section \<open>Statistics\<close>

text \<open>The update of one \<open>ProfileNodeStats\<close> by the statistics of one region instance.\<close>

definition stats_add :: "RegionStats \<Rightarrow> ProfileNodeStats \<Rightarrow> ProfileNodeStats" where
  "stats_add ns st =
     (let new_self_par = ddiv (of_u64 (rs_work ns)) (of_u64 (rs_spWork ns))
      in st\<lparr>st_num_instances := st_num_instances st + 1,
            min_self_par := (if dless new_self_par (min_self_par st) then new_self_par else min_self_par st),
            max_self_par := (if dless (max_self_par st) new_self_par then new_self_par else max_self_par st),
            total_work := total_work st + rs_work ns,
            total_par_per_work := total_par_per_work st + rs_cp ns,
            self_par_per_work := self_par_per_work st + rs_spWork ns,
            num_dynamic_child_regions := num_dynamic_child_regions st + rs_childCnt ns,
            min_dynamic_child_regions :=
              (if rs_childCnt ns < min_dynamic_child_regions st then rs_childCnt ns
               else min_dynamic_child_regions st),
            max_dynamic_child_regions :=
              (if max_dynamic_child_regions st < rs_childCnt ns then rs_childCnt ns
               else max_dynamic_child_regions st)\<rparr>)"

definition updateCurrentStats :: "RegionStats \<Rightarrow> ProfileNode \<Rightarrow> ProfileNode option" where
  "updateCurrentStats ns n = do {
     st \<leftarrow> rd (pn_stats n) (pn_curr_stat_index n);
     sts \<leftarrow> wr (pn_stats n) (pn_curr_stat_index n) (stats_add ns st);
     Some (n\<lparr>pn_stats := sts\<rparr>) }"

definition addStats :: "RegionStats \<Rightarrow> node_ptr \<Rightarrow> RegionTree \<Rightarrow> RegionTree option" where
  "addStats ns p s = do {
     n \<leftarrow> rt_nodes s p;
     let n = (if rs_is_doall ns = 0 then n\<lparr>pn_is_doall := 0\<rparr> else n);
     let n = n\<lparr>pn_num_instances := pn_num_instances n + 1\<rparr>;
     n \<leftarrow> updateCurrentStats ns n;
     Some (s\<lparr>rt_nodes := (rt_nodes s)(p \<mapsto> n)\<rparr>) }"

text \<open>
  \<open>stat_index >= stats.size()\<close> compares as unsigned, so a negative index counts as past the end.
\<close>

definition next_stats :: "ProfileNode \<Rightarrow> ProfileNode" where
  "next_stats n =
     (let i = pn_curr_stat_index n + 1; n = n\<lparr>pn_curr_stat_index := i\<rparr>
      in if i < 0 \<or> int (length (pn_stats n)) \<le> i
         then n\<lparr>pn_stats := pn_stats n @ [ProfileNodeStats_new]\<rparr> else n)"

definition moveToNextStats :: "node_ptr \<Rightarrow> RegionTree \<Rightarrow> RegionTree option" where
  "moveToNextStats p s = upd_node p next_stats s"

definition moveToPrevStats :: "node_ptr \<Rightarrow> RegionTree \<Rightarrow> RegionTree option" where
  "moveToPrevStats p s = upd_node p (\<lambda>n. n\<lparr>pn_curr_stat_index := pn_curr_stat_index n - 1\<rparr>) s"

section \<open>Recursion\<close>

text \<open>
  The search for the closest ancestor with the same static ID follows parent pointers; on a
  cyclic heap it would not return, and the result is then \<open>None\<close>.
\<close>

partial_function (option) find_ancestor ::
    "(node_ptr \<rightharpoonup> ProfileNode) \<Rightarrow> SID \<Rightarrow> node_ptr option \<Rightarrow> node_ptr option option" where
  "find_ancestor h sid a = (case a of
     None \<Rightarrow> Some None
   | Some q \<Rightarrow> do {
       n \<leftarrow> h q;
       if pn_static_id n = sid then Some (Some q) else find_ancestor h sid (pn_parent n) })"

definition getAncestorWithSameStaticID :: "RegionTree \<Rightarrow> node_ptr \<Rightarrow> node_ptr option option" where
  "getAncestorWithSameStaticID s p = do {
     n \<leftarrow> rt_nodes s p;
     find_ancestor (rt_nodes s) (pn_static_id n) (pn_parent n) }"

definition handleRecursion :: "node_ptr \<Rightarrow> RegionTree \<Rightarrow> RegionTree option" where
  "handleRecursion p s = do {
     a \<leftarrow> getAncestorWithSameStaticID s p;
     case a of
       None \<Rightarrow> Some s
     | Some q \<Rightarrow> do {
         s \<leftarrow> upd_node q (\<lambda>n. n\<lparr>pn_node_type := R_INIT\<rparr>) s;
         upd_node p (\<lambda>n. n\<lparr>pn_node_type := R_SINK, pn_recursion := Some q\<rparr>) s } }"

section \<open>Facts about single operations\<close>

lemma upd_node_Some [access_simps]:
  "upd_node p f s = Some s' \<longleftrightarrow>
   (\<exists>n. rt_nodes s p = Some n \<and> s' = s\<lparr>rt_nodes := (rt_nodes s)(p \<mapsto> f n)\<rparr>)"
  by (auto simp: upd_node_def Option.bind_eq_Some_conv)

lemma upd_node_in: "rt_nodes s p = Some n \<Longrightarrow>
   upd_node p f s = Some (s\<lparr>rt_nodes := (rt_nodes s)(p \<mapsto> f n)\<rparr>)"
  by (simp add: upd_node_def)

lemma addStats_eq:
  assumes "rt_nodes s p = Some n"
  shows "addStats ns p s =
    (if 0 \<le> pn_curr_stat_index n \<and> pn_curr_stat_index n < int (length (pn_stats n))
     then Some (s\<lparr>rt_nodes := (rt_nodes s)(p \<mapsto> n\<lparr>
        pn_is_doall := (if rs_is_doall ns = 0 then 0 else pn_is_doall n),
        pn_num_instances := pn_num_instances n + 1,
        pn_stats := (pn_stats n)[nat (pn_curr_stat_index n) :=
          stats_add ns (pn_stats n ! nat (pn_curr_stat_index n))]\<rparr>)\<rparr>)
     else None)"
  using assms by (cases "rs_is_doall ns = 0") (auto simp: addStats_def updateCurrentStats_def rd_def wr_def Let_def)

lemma find_child_total:
  "\<forall>c \<in> set cs. h c \<noteq> None \<Longrightarrow> \<exists>r. find_child h sid cid cs = Some r \<and> (\<forall>c. r = Some c \<longrightarrow> c \<in> set cs)"
  by (induction cs) auto

lemma find_child_matches:
  "find_child h sid cid cs = Some (Some c) \<Longrightarrow>
   c \<in> set cs \<and> (\<exists>n. h c = Some n \<and> pn_static_id n = sid
     \<and> (pn_region_type n = RegionFunc \<longrightarrow> pn_callsite_id n = cid))"
  by (induction cs) (auto simp: Option.bind_eq_Some_conv split: if_splits)

lemma find_child_None:
  "find_child h sid cid cs = Some None \<Longrightarrow> c \<in> set cs \<Longrightarrow> h c = Some n \<Longrightarrow>
   pn_static_id n \<noteq> sid \<or> pn_region_type n = RegionFunc \<and> pn_callsite_id n \<noteq> cid"
  by (induction cs) (auto simp: Option.bind_eq_Some_conv split: if_splits)

text \<open>With parents allocated before their children the ancestor search ends.\<close>

lemma find_ancestor_total:
  assumes "\<And>p n q. h p = Some n \<Longrightarrow> pn_parent n = Some q \<Longrightarrow> q < p \<and> h q \<noteq> None"
    and "\<And>q. a = Some q \<Longrightarrow> h q \<noteq> None"
  shows "\<exists>r. find_ancestor h sid a = Some r \<and>
     (\<forall>q. r = Some q \<longrightarrow> (\<exists>q0 n. a = Some q0 \<and> q \<le> q0 \<and> h q = Some n \<and> pn_static_id n = sid
        \<and> (q = q0 \<or> (\<exists>c m. h c = Some m \<and> pn_parent m = Some q))))"
proof (cases a)
  case None
  then show ?thesis by (simp add: find_ancestor.simps)
next
  case (Some q0)
  have "\<exists>r. find_ancestor h sid (Some q0) = Some r \<and>
     (\<forall>q. r = Some q \<longrightarrow> (\<exists>n. q \<le> q0 \<and> h q = Some n \<and> pn_static_id n = sid
        \<and> (q = q0 \<or> (\<exists>c m. h c = Some m \<and> pn_parent m = Some q))))"
    if "h q0 \<noteq> None" for q0
    using that
  proof (induction q0 rule: less_induct)
    case (less q0)
    then obtain n where n: "h q0 = Some n" by auto
    show ?case
    proof (cases "pn_static_id n = sid \<or> pn_parent n = None")
      case True
      then show ?thesis using n by (auto simp: find_ancestor.simps [of h sid "Some q0"] find_ancestor.simps [of h sid None])
    next
      case False
      then obtain q1 where q1: "pn_parent n = Some q1" by auto
      from assms(1) [OF n q1] have lt: "q1 < q0" "h q1 \<noteq> None" by auto
      from less.IH [OF lt] obtain r where r: "find_ancestor h sid (Some q1) = Some r"
        "\<forall>q. r = Some q \<longrightarrow> (\<exists>n. q \<le> q1 \<and> h q = Some n \<and> pn_static_id n = sid
           \<and> (q = q1 \<or> (\<exists>c m. h c = Some m \<and> pn_parent m = Some q)))"
        by auto
      have "find_ancestor h sid (Some q0) = Some r"
        using False n q1 r(1) by (simp add: find_ancestor.simps [of h sid "Some q0"])
      moreover have "\<exists>n. q \<le> q0 \<and> h q = Some n \<and> pn_static_id n = sid
           \<and> (q = q0 \<or> (\<exists>c m. h c = Some m \<and> pn_parent m = Some q))" if "r = Some q" for q
      proof -
        from r(2) that obtain m where "q \<le> q1" "h q = Some m" "pn_static_id m = sid"
          "q = q1 \<or> (\<exists>c m. h c = Some m \<and> pn_parent m = Some q)" by auto
        then show ?thesis using lt(1) n q1 by auto
      qed
      ultimately show ?thesis by auto
    qed
  qed
  from this [of q0] assms(2) Some show ?thesis by auto
qed

end
