(* ===== verification/RegionContext.thy ===== *)
theory RegionContext
  imports ProfileTree
begin

text \<open>
  The region tree interface of \<open>runtime/src/CRegion.cpp\<close>: initialisation, entering a region
  (\<open>openRegionContext\<close>) and leaving it (\<open>closeRegionContext\<close>), with the invariant that ties the
  region stack, the current node, the recursion links and the statistics indices together.
\<close>

section \<open>Operations\<close>

definition RegionTree_zero :: RegionTree where
  "RegionTree_zero =
     \<lparr>rt_nodes = Map.empty, rt_next = 0, rt_lastId = 0, rt_stack = [], rt_root = None, rt_curr = None\<rparr>"

definition initRegionTree :: "RegionTree \<Rightarrow> RegionTree" where
  "initRegionTree s =
     (let (p, s) = ProfileNode_new 0 0 RegionFunc s
      in s\<lparr>rt_root := Some p, rt_curr := Some p\<rparr>)"

definition deinitRegionTree :: "RegionTree \<Rightarrow> RegionTree option" where
  "deinitRegionTree s = do {
     r \<leftarrow> rt_root s;
     h \<leftarrow> delete_node (Suc (rt_next s)) r (rt_nodes s);
     Some (s\<lparr>rt_nodes := h, rt_root := None, rt_curr := None\<rparr>) }"

definition pushOnRegionStack :: "node_ptr \<Rightarrow> RegionTree \<Rightarrow> RegionTree" where
  "pushOnRegionStack p s = s\<lparr>rt_stack := p # rt_stack s\<rparr>"

definition popFromRegionStack :: "RegionTree \<Rightarrow> (node_ptr \<times> RegionTree) option" where
  "popFromRegionStack s =
     (case rt_stack s of [] \<Rightarrow> None | p # ps \<Rightarrow> Some (p, s\<lparr>rt_stack := ps\<rparr>))"

text \<open>The child that is entered: an existing one with the same IDs, or a new one.\<close>

definition findOrCreateChild ::
    "bool \<Rightarrow> SID \<Rightarrow> CID \<Rightarrow> RegionType \<Rightarrow> node_ptr \<Rightarrow> RegionTree \<Rightarrow> (node_ptr \<times> RegionTree) option" where
  "findOrCreateChild summarize sid cid rtype parent s = do {
     found \<leftarrow> getChild s parent sid cid;
     case found of
       Some c \<Rightarrow> Some (c, s)
     | None \<Rightarrow> do {
         let (c, s) = ProfileNode_new sid cid rtype s;
         s \<leftarrow> addChild parent c s;
         s \<leftarrow> (if summarize then handleRecursion c s else Some s);
         Some (c, s) } }"

text \<open>The switch on the child's type that sets the current node.\<close>

definition enterChild :: "node_ptr \<Rightarrow> RegionTree \<Rightarrow> RegionTree option" where
  "enterChild child s = do {
     n \<leftarrow> rt_nodes s child;
     case pn_node_type n of
       R_INIT \<Rightarrow> Some (s\<lparr>rt_curr := Some child\<rparr>)
     | R_SINK \<Rightarrow> do {
         r \<leftarrow> pn_recursion n;
         moveToNextStats r (s\<lparr>rt_curr := Some r\<rparr>) }
     | NORMAL \<Rightarrow> Some (s\<lparr>rt_curr := Some child\<rparr>) }"

definition openRegionContext ::
    "bool \<Rightarrow> SID \<Rightarrow> CID \<Rightarrow> RegionType \<Rightarrow> RegionTree \<Rightarrow> RegionTree option" where
  "openRegionContext summarize sid cid rtype s = do {
     parent \<leftarrow> rt_curr s;
     (child, s) \<leftarrow> findOrCreateChild summarize sid cid rtype parent s;
     s \<leftarrow> moveToNextStats child s;
     s \<leftarrow> enterChild child s;
     Some (pushOnRegionStack child s) }"

definition closeRegionContext :: "RegionStats \<Rightarrow> RegionTree \<Rightarrow> RegionTree option" where
  "closeRegionContext ns s = do {
     cur \<leftarrow> rt_curr s;
     s \<leftarrow> addStats ns cur s;
     s \<leftarrow> moveToPrevStats cur s;
     (exited, s) \<leftarrow> popFromRegionStack s;
     cn \<leftarrow> rt_nodes s cur;
     en \<leftarrow> rt_nodes s exited;
     let s = (if pn_node_type cn = R_INIT then s\<lparr>rt_curr := pn_parent en\<rparr>
              else s\<lparr>rt_curr := pn_parent cn\<rparr>);
     if pn_node_type en = R_SINK
     then do { s \<leftarrow> addStats ns exited s; moveToPrevStats exited s }
     else Some s }"

section \<open>The invariant\<close>

text \<open>The links of a node: everything of it but the IDs and the statistics.\<close>

record link =
  lk_parent :: "node_ptr option"
  lk_children :: "node_ptr list"
  lk_type :: ProfileNodeType
  lk_recursion :: "node_ptr option"

type_synonym links = "node_ptr \<rightharpoonup> link"

definition link_of :: "ProfileNode \<Rightarrow> link" where
  "link_of n = \<lparr>lk_parent = pn_parent n, lk_children = pn_children n,
                lk_type = pn_node_type n, lk_recursion = pn_recursion n\<rparr>"

definition links :: "RegionTree \<Rightarrow> links" where
  "links s = (\<lambda>p. map_option link_of (rt_nodes s p))"

text \<open>Where the current node goes when a region with links \<open>l\<close> at \<open>c\<close> is entered.\<close>

definition target :: "node_ptr \<Rightarrow> link \<Rightarrow> node_ptr option" where
  "target c l = (if lk_type l = R_SINK then lk_recursion l else Some c)"

text \<open>The stack, innermost region first: each frame's parent is the target of the frame below.\<close>

fun stack_ok :: "links \<Rightarrow> node_ptr option \<Rightarrow> node_ptr list \<Rightarrow> node_ptr option \<Rightarrow> bool" where
  "stack_ok h r [] cur \<longleftrightarrow> cur = r"
| "stack_ok h r (c # cs) cur \<longleftrightarrow>
     (\<exists>l. h c = Some l \<and> cur = target c l \<and> lk_parent l \<noteq> None \<and> stack_ok h r cs (lk_parent l))"

text \<open>The frames that keep a set of statistics of \<open>p\<close> in use.\<close>

definition uses :: "links \<Rightarrow> node_ptr \<Rightarrow> node_ptr \<Rightarrow> bool" where
  "uses h p c \<longleftrightarrow> c = p \<or> (\<exists>l. h c = Some l \<and> lk_type l = R_SINK \<and> lk_recursion l = Some p)"

definition active :: "links \<Rightarrow> node_ptr list \<Rightarrow> node_ptr \<Rightarrow> int" where
  "active h cs p = int (length (filter (uses h p) cs))"

text \<open>
  Parents are older than their children and are never recursion sinks; a sink, and only a sink,
  has a recursion target, which is an older \<open>R_INIT\<close> node; only the root has no parent.
\<close>

definition link_ok :: "links \<Rightarrow> nat \<Rightarrow> node_ptr option \<Rightarrow> node_ptr \<Rightarrow> link \<Rightarrow> bool" where
  "link_ok h nx r p l \<longleftrightarrow>
     p < nx
     \<and> (lk_parent l = None \<longleftrightarrow> r = Some p)
     \<and> (\<forall>q. lk_parent l = Some q \<longrightarrow> q < p \<and> (\<exists>m. h q = Some m \<and> lk_type m \<noteq> R_SINK))
     \<and> (\<forall>c \<in> set (lk_children l). \<exists>m. h c = Some m \<and> lk_parent m = Some p)
     \<and> (lk_type l = R_SINK \<longleftrightarrow> lk_recursion l \<noteq> None)
     \<and> (\<forall>q. lk_recursion l = Some q \<longrightarrow> q < p \<and> (\<exists>m. h q = Some m \<and> lk_type m = R_INIT))"

definition links_ok :: "links \<Rightarrow> nat \<Rightarrow> node_ptr option \<Rightarrow> bool" where
  "links_ok h nx r \<longleftrightarrow>
     (\<exists>q l. r = Some q \<and> h q = Some l \<and> lk_type l \<noteq> R_SINK)
     \<and> (\<forall>p l. h p = Some l \<longrightarrow> link_ok h nx r p l)"

text \<open>The index of the statistics in use is one less than the number of active instances.\<close>

definition stats_ok :: "(node_ptr \<rightharpoonup> ProfileNode) \<Rightarrow> (node_ptr \<Rightarrow> int) \<Rightarrow> bool" where
  "stats_ok h act \<longleftrightarrow> (\<forall>p n. h p = Some n \<longrightarrow>
     pn_curr_stat_index n = act p - 1 \<and> 0 \<le> act p \<and> act p \<le> int (length (pn_stats n)))"

definition tree_ok :: "RegionTree \<Rightarrow> bool" where
  "tree_ok s \<longleftrightarrow>
     links_ok (links s) (rt_next s) (rt_root s)
     \<and> stack_ok (links s) (rt_root s) (rt_stack s) (rt_curr s)
     \<and> stats_ok (rt_nodes s) (active (links s) (rt_stack s))"

section \<open>Changes that keep the links of existing nodes\<close>

definition same_links :: "links \<Rightarrow> links \<Rightarrow> bool" where
  "same_links h h' \<longleftrightarrow> (\<forall>p l. h p = Some l \<longrightarrow> (\<exists>l'. h' p = Some l'
     \<and> lk_parent l' = lk_parent l \<and> lk_recursion l' = lk_recursion l
     \<and> (lk_type l' = R_SINK \<longleftrightarrow> lk_type l = R_SINK)))"

lemma same_links_refl [simp]: "same_links h h"
  by (simp add: same_links_def)

lemma same_links_trans: "same_links h1 h2 \<Longrightarrow> same_links h2 h3 \<Longrightarrow> same_links h1 h3"
  unfolding same_links_def by (metis (no_types, lifting))

lemma same_linksD: "same_links h h' \<Longrightarrow> h p = Some l \<Longrightarrow>
   \<exists>l'. h' p = Some l' \<and> lk_parent l' = lk_parent l \<and> lk_recursion l' = lk_recursion l
     \<and> (lk_type l' = R_SINK \<longleftrightarrow> lk_type l = R_SINK)"
  by (simp add: same_links_def)

lemma same_links_update:
  assumes "h p = None \<or> (\<exists>l. h p = Some l \<and> lk_parent l' = lk_parent l
     \<and> lk_recursion l' = lk_recursion l \<and> (lk_type l' = R_SINK \<longleftrightarrow> lk_type l = R_SINK))"
  shows "same_links h (h(p \<mapsto> l'))"
  using assms by (auto simp: same_links_def)

lemma stack_ok_links: "same_links h h' \<Longrightarrow> stack_ok h r cs cur \<Longrightarrow> stack_ok h' r cs cur"
  by (induction cs arbitrary: cur) (auto simp: target_def dest!: same_linksD)

lemma stack_ok_in_heap: "stack_ok h r cs cur \<Longrightarrow> c \<in> set cs \<Longrightarrow> h c \<noteq> None"
  by (induction cs arbitrary: cur) auto

lemma uses_links: "same_links h h' \<Longrightarrow> h c \<noteq> None \<Longrightarrow> uses h' p c = uses h p c"
  by (auto simp: uses_def dest!: same_linksD)

lemma active_links:
  assumes "same_links h h'" "stack_ok h r cs cur"
  shows "active h' cs = active h cs"
proof
  fix p
  have "filter (uses h' p) cs = filter (uses h p) cs"
    using uses_links [OF assms(1)] stack_ok_in_heap [OF assms(2)] by (auto intro!: filter_cong)
  then show "active h' cs p = active h cs p" by (simp add: active_def)
qed

lemma active_Cons: "active h (c # cs) p = (if uses h p c then 1 else 0) + active h cs p"
  by (simp add: active_def)

lemma active_nonneg [simp]: "0 \<le> active h cs p"
  by (simp add: active_def)

text \<open>The stack determines the current node.\<close>

lemma stack_ok_cur_unique: "stack_ok h r cs cur \<Longrightarrow> stack_ok h r cs cur' \<Longrightarrow> cur = cur'"
  by (cases cs) auto

lemma links_upd: "links (s\<lparr>rt_nodes := (rt_nodes s)(p \<mapsto> n)\<rparr>) = (links s)(p \<mapsto> link_of n)"
  by (auto simp: links_def)

lemma links_Some: "links s p = Some l \<longleftrightarrow> (\<exists>n. rt_nodes s p = Some n \<and> l = link_of n)"
  by (auto simp: links_def)

lemma links_same: "rt_nodes s p = Some n \<Longrightarrow> link_of n' = link_of n \<Longrightarrow>
   links (s\<lparr>rt_nodes := (rt_nodes s)(p \<mapsto> n')\<rparr>) = links s"
  by (auto simp: links_def)

lemma links_frame [simp]:
  "links (s\<lparr>rt_curr := c\<rparr>) = links s" "links (s\<lparr>rt_stack := st\<rparr>) = links s"
  "links (s\<lparr>rt_root := r\<rparr>) = links s"
  by (simp_all add: links_def)

lemma link_of_simps [simp]:
  "lk_parent (link_of n) = pn_parent n" "lk_children (link_of n) = pn_children n"
  "lk_type (link_of n) = pn_node_type n" "lk_recursion (link_of n) = pn_recursion n"
  by (simp_all add: link_of_def)

text \<open>The statistics of existing nodes are kept, new nodes have none.\<close>

definition keeps_stats :: "RegionTree \<Rightarrow> RegionTree \<Rightarrow> bool" where
  "keeps_stats s s' \<longleftrightarrow> rt_next s \<le> rt_next s' \<and>
     (\<forall>p. case rt_nodes s p of
        Some n \<Rightarrow> (\<exists>n'. rt_nodes s' p = Some n' \<and> pn_stats n' = pn_stats n)
      | None \<Rightarrow> (\<forall>n'. rt_nodes s' p = Some n' \<longrightarrow> pn_stats n' = []))"

lemma keeps_stats_refl [simp]: "keeps_stats s s"
  by (simp add: keeps_stats_def split: option.splits)

lemma keeps_stats_None: "keeps_stats s s' \<Longrightarrow> rt_nodes s p = None \<Longrightarrow>
   \<forall>n'. rt_nodes s' p = Some n' \<longrightarrow> pn_stats n' = []"
  unfolding keeps_stats_def by (elim conjE allE [where x = p]) simp

lemma keeps_stats_Some: "keeps_stats s s' \<Longrightarrow> rt_nodes s p = Some n \<Longrightarrow>
   \<exists>n'. rt_nodes s' p = Some n' \<and> pn_stats n' = pn_stats n"
  unfolding keeps_stats_def by (elim conjE allE [where x = p]) simp

lemma keeps_stats_trans: "keeps_stats s t \<Longrightarrow> keeps_stats t u \<Longrightarrow> keeps_stats s u"
  unfolding keeps_stats_def
proof (elim conjE, intro conjI allI)
  fix p
  assume st: "\<forall>p. case rt_nodes s p of
        Some n \<Rightarrow> (\<exists>n'. rt_nodes t p = Some n' \<and> pn_stats n' = pn_stats n)
      | None \<Rightarrow> (\<forall>n'. rt_nodes t p = Some n' \<longrightarrow> pn_stats n' = [])"
    and tu: "\<forall>p. case rt_nodes t p of
        Some n \<Rightarrow> (\<exists>n'. rt_nodes u p = Some n' \<and> pn_stats n' = pn_stats n)
      | None \<Rightarrow> (\<forall>n'. rt_nodes u p = Some n' \<longrightarrow> pn_stats n' = [])"
  from st [rule_format, of p] tu [rule_format, of p]
  show "case rt_nodes s p of
        Some n \<Rightarrow> (\<exists>n'. rt_nodes u p = Some n' \<and> pn_stats n' = pn_stats n)
      | None \<Rightarrow> (\<forall>n'. rt_nodes u p = Some n' \<longrightarrow> pn_stats n' = [])"
    by (cases "rt_nodes s p"; cases "rt_nodes t p") auto
qed simp

section \<open>The statistics operations\<close>

text \<open>What the statistics operations leave unchanged.\<close>

definition frame_eq :: "RegionTree \<Rightarrow> RegionTree \<Rightarrow> bool" where
  "frame_eq s s' \<longleftrightarrow> links s' = links s \<and> rt_next s' = rt_next s \<and> rt_root s' = rt_root s
     \<and> rt_stack s' = rt_stack s \<and> rt_curr s' = rt_curr s \<and> rt_lastId s' = rt_lastId s"

lemma stats_ok_update:
  assumes "h p = Some n" "pn_curr_stat_index n' = pn_curr_stat_index n" "pn_stats n' = pn_stats n"
  shows "stats_ok (h(p \<mapsto> n')) act = stats_ok h act"
  unfolding stats_ok_def using assms by (metis fun_upd_other fun_upd_same option.inject)

lemma moveToNextStats_ok:
  assumes "stats_ok (rt_nodes s) act" "links s p \<noteq> None"
  shows "\<exists>s'. moveToNextStats p s = Some s' \<and> frame_eq s s'
     \<and> stats_ok (rt_nodes s') (act(p := act p + 1))"
proof -
  from assms(2) obtain n where n: "rt_nodes s p = Some n" by (auto simp: links_def)
  let ?s = "s\<lparr>rt_nodes := (rt_nodes s)(p \<mapsto> next_stats n)\<rparr>"
  have "moveToNextStats p s = Some ?s" using n by (simp add: moveToNextStats_def upd_node_in)
  moreover have "frame_eq s ?s"
    using links_same [OF n, of "next_stats n"]
    by (simp add: frame_eq_def next_stats_def link_of_def Let_def)
  moreover have "stats_ok (rt_nodes ?s) (act(p := act p + 1))"
    using assms(1) n by (auto simp: stats_ok_def next_stats_def Let_def)
  ultimately show ?thesis by blast
qed

lemma moveToPrevStats_ok:
  assumes "stats_ok (rt_nodes s) act" "links s p \<noteq> None" "1 \<le> act p"
  shows "\<exists>s'. moveToPrevStats p s = Some s' \<and> frame_eq s s'
     \<and> stats_ok (rt_nodes s') (act(p := act p - 1))"
proof -
  from assms(2) obtain n where n: "rt_nodes s p = Some n" by (auto simp: links_def)
  let ?n = "n\<lparr>pn_curr_stat_index := pn_curr_stat_index n - 1\<rparr>"
  let ?s = "s\<lparr>rt_nodes := (rt_nodes s)(p \<mapsto> ?n)\<rparr>"
  have "moveToPrevStats p s = Some ?s" using n by (simp add: moveToPrevStats_def upd_node_in)
  moreover have "frame_eq s ?s"
    using links_same [OF n, of ?n] by (simp add: frame_eq_def link_of_def)
  moreover have "act p \<le> int (length (pn_stats n))"
    using assms(1) n unfolding stats_ok_def by blast
  then have le: "act p - 1 \<le> int (length (pn_stats n))" by linarith
  have "stats_ok (rt_nodes ?s) (act(p := act p - 1))"
    using assms n le by (simp add: stats_ok_def)
  ultimately show ?thesis by blast
qed

lemma addStats_ok:
  assumes "stats_ok (rt_nodes s) act" "links s p \<noteq> None" "1 \<le> act p"
  shows "\<exists>s'. addStats ns p s = Some s' \<and> frame_eq s s' \<and> stats_ok (rt_nodes s') act"
proof -
  from assms(2) obtain n where n: "rt_nodes s p = Some n" by (auto simp: links_def)
  from assms(1) n have "pn_curr_stat_index n = act p - 1" "act p \<le> int (length (pn_stats n))"
    unfolding stats_ok_def by blast+
  with assms(3) have i: "0 \<le> pn_curr_stat_index n" "pn_curr_stat_index n < int (length (pn_stats n))"
    by simp_all
  let ?n = "n\<lparr>pn_is_doall := (if rs_is_doall ns = 0 then 0 else pn_is_doall n),
      pn_num_instances := pn_num_instances n + 1,
      pn_stats := (pn_stats n)[nat (pn_curr_stat_index n) :=
        stats_add ns (pn_stats n ! nat (pn_curr_stat_index n))]\<rparr>"
  let ?s = "s\<lparr>rt_nodes := (rt_nodes s)(p \<mapsto> ?n)\<rparr>"
  have "addStats ns p s = Some ?s"
    using n i by (simp add: addStats_def updateCurrentStats_def rd_in wr_in)
  moreover have "frame_eq s ?s"
    using links_same [OF n, of ?n] by (simp add: frame_eq_def link_of_def)
  moreover have "stats_ok (rt_nodes ?s) act"
    using assms(1) n by (auto simp: stats_ok_def)
  ultimately show ?thesis by blast
qed

section \<open>Entering a region\<close>

lemma links_okD: "links_ok h nx r \<Longrightarrow> h p = Some l \<Longrightarrow> link_ok h nx r p l"
  by (simp add: links_ok_def)

lemma links_ok_fresh: "links_ok h nx r \<Longrightarrow> nx \<le> p \<Longrightarrow> h p = None"
  by (cases "h p") (auto simp: link_ok_def dest: links_okD)

lemma links_ok_new_child:
  assumes ok: "links_ok h nx r" and cur: "h cur = Some lc" "lk_type lc \<noteq> R_SINK"
  shows "links_ok (h(cur \<mapsto> lc\<lparr>lk_children := lk_children lc @ [nx]\<rparr>,
      nx \<mapsto> \<lparr>lk_parent = Some cur, lk_children = [], lk_type = NORMAL, lk_recursion = None\<rparr>)) (Suc nx) r"
    (is "links_ok ?h _ _")
proof -
  have new: "h nx = None" using ok by (simp add: links_ok_fresh)
  with cur have neq: "cur \<noteq> nx" by auto
  have lt: "cur < nx" using links_okD [OF ok cur(1)] by (simp add: link_ok_def)
  from ok obtain q l where q: "r = Some q" "h q = Some l" "lk_type l \<noteq> R_SINK"
    by (auto simp: links_ok_def)
  with new have qn: "q \<noteq> nx" by auto
  have up: "\<exists>m'. ?h p = Some m' \<and> lk_type m' = lk_type m \<and> lk_parent m' = lk_parent m"
    if "h p = Some m" for p m
    using that new cur by auto
  have root: "\<exists>q l. r = Some q \<and> ?h q = Some l \<and> lk_type l \<noteq> R_SINK"
    using up [OF q(2)] q by auto
  have "link_ok ?h (Suc nx) r p l" if pl: "?h p = Some l" for p l
  proof (cases "p = nx")
    case True
    with pl have l: "l = \<lparr>lk_parent = Some cur, lk_children = [], lk_type = NORMAL, lk_recursion = None\<rparr>"
      by simp
    show ?thesis using True neq lt cur q qn by (auto simp: l link_ok_def)
  next
    case False
    obtain m where m: "h p = Some m" "lk_parent l = lk_parent m" "lk_type l = lk_type m"
      "lk_recursion l = lk_recursion m"
      "set (lk_children l) \<subseteq> set (lk_children m) \<union> (if p = cur then {nx} else {})"
      using pl False cur by (auto split: if_splits)
    from links_okD [OF ok m(1)] have mo: "link_ok h nx r p m" .
    have "\<exists>m. ?h c = Some m \<and> lk_parent m = Some p" if "c \<in> set (lk_children l)" for c
    proof (cases "c \<in> set (lk_children m)")
      case True
      then show ?thesis using mo up by (fastforce simp: link_ok_def)
    next
      case False
      then show ?thesis using that m(5) by (auto split: if_splits)
    qed
    moreover have "\<exists>k. ?h t = Some k \<and> lk_type k \<noteq> R_SINK" if "lk_parent m = Some t" for t
      using mo that up by (fastforce simp: link_ok_def)
    moreover have "\<exists>k. ?h t = Some k \<and> lk_type k = R_INIT" if "lk_recursion m = Some t" for t
      using mo that up by (fastforce simp: link_ok_def)
    ultimately show ?thesis using mo m by (auto simp: link_ok_def)
  qed
  with root show ?thesis by (auto simp: links_ok_def)
qed

lemma links_ok_recursion:
  assumes ok: "links_ok h (Suc p) r" and q: "h q = Some lq" "lk_type lq \<noteq> R_SINK" "q < p"
    and p: "h p = Some lp" "lk_type lp = NORMAL" "lk_parent lp \<noteq> None"
  shows "links_ok (h(q \<mapsto> lq\<lparr>lk_type := R_INIT\<rparr>,
      p \<mapsto> lp\<lparr>lk_type := R_SINK, lk_recursion := Some q\<rparr>)) (Suc p) r"
    (is "links_ok ?h _ _")
proof -
  from links_okD [OF ok p(1)] p have pr: "r \<noteq> Some p" "lk_recursion lp = None"
    by (auto simp: link_ok_def)
  have no_child: "lk_parent m \<noteq> Some p \<and> lk_recursion m \<noteq> Some p" if "h t = Some m" for t m
    using links_okD [OF ok that] by (auto simp: link_ok_def)
  have up: "\<exists>m'. ?h t = Some m' \<and> lk_parent m' = lk_parent m
      \<and> (t \<noteq> p \<longrightarrow> lk_type m \<noteq> R_SINK \<longrightarrow> lk_type m' \<noteq> R_SINK)
      \<and> (t \<noteq> p \<longrightarrow> lk_type m = R_INIT \<longrightarrow> lk_type m' = R_INIT)"
    if "h t = Some m" for t m
    using that q p by auto
  from ok obtain k l where k: "r = Some k" "h k = Some l" "lk_type l \<noteq> R_SINK"
    by (auto simp: links_ok_def)
  have root: "\<exists>q l. r = Some q \<and> ?h q = Some l \<and> lk_type l \<noteq> R_SINK"
    using up [OF k(2)] k pr by auto
  have "link_ok ?h (Suc p) r t l" if tl: "?h t = Some l" for t l
  proof -
    obtain m where m: "h t = Some m" "lk_parent l = lk_parent m" "lk_children l = lk_children m"
      "t \<noteq> p \<Longrightarrow> lk_recursion l = lk_recursion m \<and> (lk_type l = R_SINK \<longleftrightarrow> lk_type m = R_SINK)"
      "t = p \<Longrightarrow> lk_type l = R_SINK \<and> lk_recursion l = Some q"
      using tl q p by (auto split: if_splits)
    from links_okD [OF ok m(1)] have mo: "link_ok h (Suc p) r t m" .
    have "\<exists>k. ?h c = Some k \<and> lk_parent k = Some t" if "c \<in> set (lk_children m)" for c
      using mo that up by (fastforce simp: link_ok_def)
    moreover have "\<exists>k. ?h u = Some k \<and> lk_type k \<noteq> R_SINK" if "lk_parent m = Some u" for u
    proof -
      from mo that obtain k where "h u = Some k" "lk_type k \<noteq> R_SINK" by (auto simp: link_ok_def)
      then show ?thesis using up [of u k] no_child [OF m(1)] that by auto
    qed
    moreover have "\<exists>k. ?h u = Some k \<and> lk_type k = R_INIT" if "lk_recursion m = Some u" for u
    proof -
      from mo that obtain k where "h u = Some k" "lk_type k = R_INIT" by (auto simp: link_ok_def)
      then show ?thesis using up [of u k] no_child [OF m(1)] that by auto
    qed
    moreover have "?h q = Some (lq\<lparr>lk_type := R_INIT\<rparr>)" using q by auto
    ultimately show ?thesis using mo m q(3) by (cases "t = p") (auto simp: link_ok_def)
  qed
  with root show ?thesis by (auto simp: links_ok_def)
qed

lemma tree_ok_cur:
  assumes "tree_ok s"
  shows "\<exists>c l. rt_curr s = Some c \<and> links s c = Some l \<and> lk_type l \<noteq> R_SINK"
proof (cases "rt_stack s")
  case Nil
  with assms show ?thesis by (auto simp: tree_ok_def links_ok_def)
next
  case (Cons c cs)
  with assms obtain l where l: "links s c = Some l" "rt_curr s = target c l"
    by (auto simp: tree_ok_def)
  from assms l(1) have "link_ok (links s) (rt_next s) (rt_root s) c l"
    by (auto simp: tree_ok_def dest: links_okD)
  with l show ?thesis by (auto simp: target_def link_ok_def)
qed

lemma handleRecursion_ok:
  assumes ok: "links_ok (links s) (rt_next s) (rt_root s)" "rt_next s = Suc p"
    and p: "links s p = Some lp" "lk_type lp = NORMAL" "lk_parent lp = Some cur"
  shows "\<exists>s'. handleRecursion p s = Some s' \<and> links_ok (links s') (rt_next s') (rt_root s')
     \<and> (\<exists>l. links s' p = Some l \<and> lk_parent l = Some cur)
     \<and> (\<forall>c. c \<noteq> p \<longrightarrow> (\<forall>l. links s c = Some l \<longrightarrow> (\<exists>l'. links s' c = Some l' \<and> lk_parent l' = lk_parent l
          \<and> lk_recursion l' = lk_recursion l \<and> (lk_type l' = R_SINK \<longleftrightarrow> lk_type l = R_SINK))))
     \<and> s' = s\<lparr>rt_nodes := rt_nodes s'\<rparr> \<and> keeps_stats s s' \<and> (\<forall>act. stats_ok (rt_nodes s') act = stats_ok (rt_nodes s) act)"
proof -
  from p(1) obtain n where n: "rt_nodes s p = Some n" "lp = link_of n" by (auto simp: links_Some)
  have par: "q < t \<and> rt_nodes s q \<noteq> None" if "rt_nodes s t = Some m" "pn_parent m = Some q" for t m q
  proof -
    have "links s t = Some (link_of m)" using that(1) by (simp add: links_def)
    from links_okD [OF ok(1) this] that(2) show ?thesis by (auto simp: link_ok_def links_Some)
  qed
  have cur: "cur < p" "rt_nodes s cur \<noteq> None" using par [OF n(1), of cur] p(3) n(2) by auto
  from find_ancestor_total [where a = "Some cur" and sid = "pn_static_id n", OF par] cur(2)
  obtain r where r: "find_ancestor (rt_nodes s) (pn_static_id n) (Some cur) = Some r"
    and rq: "\<And>q. r = Some q \<Longrightarrow> \<exists>m. q \<le> cur \<and> rt_nodes s q = Some m
       \<and> (q = cur \<or> (\<exists>c m. rt_nodes s c = Some m \<and> pn_parent m = Some q))"
    by fastforce
  have a: "getAncestorWithSameStaticID s p = Some r"
    using n p(3) r by (simp add: getAncestorWithSameStaticID_def)
  show ?thesis
  proof (cases r)
    case None
    with a ok p show ?thesis by (auto simp: handleRecursion_def)
  next
    case (Some q)
    from rq [OF Some] obtain m where m: "q \<le> cur" "rt_nodes s q = Some m"
      "q = cur \<or> (\<exists>c m. rt_nodes s c = Some m \<and> pn_parent m = Some q)" by auto
    have nonsink: "pn_node_type m \<noteq> R_SINK"
    proof -
      obtain c k where "rt_nodes s c = Some k" "pn_parent k = Some q"
        using m(3) n p(3) by auto
      then have "links s c = Some (link_of k)" by (simp add: links_def)
      from links_okD [OF ok(1) this] \<open>pn_parent k = Some q\<close> m(2) show ?thesis
        by (auto simp: link_ok_def links_Some)
    qed
    have neq: "q \<noteq> p" "q < p" using m(1) cur(1) by auto
    let ?m = "m\<lparr>pn_node_type := R_INIT\<rparr>" and ?n = "n\<lparr>pn_node_type := R_SINK, pn_recursion := Some q\<rparr>"
    let ?s = "s\<lparr>rt_nodes := (rt_nodes s)(q \<mapsto> ?m, p \<mapsto> ?n)\<rparr>"
    have eq: "handleRecursion p s = Some ?s"
      using a Some m(2) n(1) neq by (simp add: handleRecursion_def upd_node_def)
    have L: "links ?s = (links s)(q \<mapsto> (link_of m)\<lparr>lk_type := R_INIT\<rparr>,
        p \<mapsto> lp\<lparr>lk_type := R_SINK, lk_recursion := Some q\<rparr>)"
      using n(2) by (auto simp: links_def link_of_def)
    have "links_ok (links ?s) (rt_next s) (rt_root s)"
      unfolding L ok(2)
      by (rule links_ok_recursion) (use ok p m nonsink neq in \<open>auto simp: links_def\<close>)
    moreover have "\<exists>l. links ?s p = Some l \<and> lk_parent l = Some cur"
      using p(3) n by (simp add: links_def)
    moreover have "stats_ok (rt_nodes ?s) act = stats_ok (rt_nodes s) act" for act
      using m(2) n(1) neq(1) by (simp add: stats_ok_update)
    moreover have "\<forall>c. c \<noteq> p \<longrightarrow> (\<forall>l. links s c = Some l \<longrightarrow> (\<exists>l'. links ?s c = Some l'
        \<and> lk_parent l' = lk_parent l \<and> lk_recursion l' = lk_recursion l
        \<and> (lk_type l' = R_SINK \<longleftrightarrow> lk_type l = R_SINK)))"
      using m(2) nonsink unfolding L by (auto simp: links_def)
    moreover have "keeps_stats s ?s"
      using m(2) n(1) by (auto simp: keeps_stats_def split: option.splits)
    ultimately show ?thesis using eq by auto
  qed
qed

lemma findOrCreateChild_ok:
  assumes ok: "tree_ok s" and cur: "rt_curr s = Some cur"
  shows "\<exists>c s'. findOrCreateChild summ sid cid rt cur s = Some (c, s')
     \<and> links_ok (links s') (rt_next s') (rt_root s') \<and> same_links (links s) (links s')
     \<and> keeps_stats s s'
     \<and> rt_root s' = rt_root s \<and> rt_stack s' = rt_stack s \<and> rt_curr s' = rt_curr s
     \<and> (\<exists>l. links s' c = Some l \<and> lk_parent l = Some cur)
     \<and> stats_ok (rt_nodes s') (active (links s) (rt_stack s))"
proof -
  let ?act = "active (links s) (rt_stack s)"
  from ok have lok: "links_ok (links s) (rt_next s) (rt_root s)"
    and sok: "stack_ok (links s) (rt_root s) (rt_stack s) (rt_curr s)"
    and stok: "stats_ok (rt_nodes s) ?act" by (auto simp: tree_ok_def)
  from tree_ok_cur [OF ok] cur obtain n where n: "rt_nodes s cur = Some n" "pn_node_type n \<noteq> R_SINK"
    by (auto simp: links_Some)
  from links_okD [OF lok, of cur "link_of n"] n
  have kids: "\<forall>c \<in> set (pn_children n). \<exists>m. links s c = Some m \<and> lk_parent m = Some cur"
    by (auto simp: link_ok_def links_def)
  then obtain r where r: "getChild s cur sid cid = Some r" "\<forall>c. r = Some c \<longrightarrow> c \<in> set (pn_children n)"
    using find_child_total [of "pn_children n" "rt_nodes s" sid cid] n
    by (fastforce simp: getChild_def links_Some)
  show ?thesis
  proof (cases r)
    case (Some c)
    with r kids lok stok show ?thesis by (auto simp: findOrCreateChild_def)
  next
    case None
    let ?p = "rt_next s"
    let ?n0 = "\<lparr>pn_region_type = rt, pn_id = rt_lastId s + 1, pn_static_id = sid, pn_callsite_id = cid,
               pn_num_instances = 0, pn_is_doall = 1, pn_node_type = NORMAL,
               pn_recursion = None, pn_stats = [], pn_curr_stat_index = - 1,
               pn_parent = Some cur, pn_children = []\<rparr>"
    let ?s2 = "s\<lparr>rt_lastId := rt_lastId s + 1, rt_next := Suc ?p, rt_nodes := (rt_nodes s)
        (cur \<mapsto> n\<lparr>pn_children := pn_children n @ [?p]\<rparr>, ?p \<mapsto> ?n0)\<rparr>"
    have new: "links s ?p = None" using lok by (simp add: links_ok_fresh)
    then have newh: "rt_nodes s ?p = None" by (simp add: links_def)
    with n have neq: "cur \<noteq> ?p" by auto
    have create: "findOrCreateChild summ sid cid rt cur s =
        (if summ then handleRecursion ?p ?s2 else Some ?s2) \<bind> (\<lambda>s. Some (?p, s))"
      using r None n neq
      by (simp add: findOrCreateChild_def ProfileNode_new_def allocId_def addChild_def upd_node_def
          Let_def fun_upd_twist)
    have L2: "links ?s2 = (links s)(cur \<mapsto> (link_of n)\<lparr>lk_children := lk_children (link_of n) @ [?p]\<rparr>,
        ?p \<mapsto> \<lparr>lk_parent = Some cur, lk_children = [], lk_type = NORMAL, lk_recursion = None\<rparr>)"
      by (auto simp: links_def link_of_def)
    have lok2: "links_ok (links ?s2) (rt_next ?s2) (rt_root ?s2)"
      unfolding L2 using links_ok_new_child [OF lok, of cur "link_of n"] n by (simp add: links_def)
    have same2: "same_links (links s) (links ?s2)"
      unfolding L2 using new n by (auto simp: same_links_def links_def)
    have keep2: "keeps_stats s ?s2"
      using n newh by (auto simp: keeps_stats_def split: option.splits)
    have "?act ?p = 0"
    proof -
      have "\<not> uses (links s) ?p c" if c: "c \<in> set (rt_stack s)" for c
      proof -
        from stack_ok_in_heap [OF sok c] obtain l where l: "links s c = Some l" by auto
        with links_okD [OF lok l] new show ?thesis by (auto simp: uses_def link_ok_def)
      qed
      then show ?thesis by (simp add: active_def filter_empty_conv)
    qed
    then have stok2: "stats_ok (rt_nodes ?s2) ?act"
      using stok n neq by (auto simp: stats_ok_def)
    show ?thesis
    proof (cases summ)
      case False
      with create lok2 same2 stok2 keep2 show ?thesis by (auto simp: L2)
    next
      case True
      from handleRecursion_ok [OF lok2, of ?p] L2 obtain s' where s': "handleRecursion ?p ?s2 = Some s'"
        "links_ok (links s') (rt_next s') (rt_root s')" "\<exists>l. links s' ?p = Some l \<and> lk_parent l = Some cur"
        "\<forall>c. c \<noteq> ?p \<longrightarrow> (\<forall>l. links ?s2 c = Some l \<longrightarrow> (\<exists>l'. links s' c = Some l' \<and> lk_parent l' = lk_parent l
          \<and> lk_recursion l' = lk_recursion l \<and> (lk_type l' = R_SINK \<longleftrightarrow> lk_type l = R_SINK)))"
        "s' = ?s2\<lparr>rt_nodes := rt_nodes s'\<rparr>" "keeps_stats ?s2 s'" "stats_ok (rt_nodes s') ?act = stats_ok (rt_nodes ?s2) ?act"
        by fastforce
      have "same_links (links s) (links s')"
        unfolding same_links_def
      proof (intro allI impI)
        fix t l assume t: "links s t = Some l"
        with new have "t \<noteq> ?p" by auto
        from same_linksD [OF same2 t] s'(4) this
        show "\<exists>l'. links s' t = Some l' \<and> lk_parent l' = lk_parent l \<and> lk_recursion l' = lk_recursion l
            \<and> (lk_type l' = R_SINK \<longleftrightarrow> lk_type l = R_SINK)" by (metis (no_types, lifting))
      qed
      moreover have "rt_root s' = rt_root s" "rt_stack s' = rt_stack s" "rt_curr s' = rt_curr s"
        by (subst s'(5), simp)+
      moreover have "keeps_stats s s'" using keep2 s'(6) by (rule keeps_stats_trans)
      ultimately show ?thesis using True create s' stok2 by auto
    qed
  qed
qed

lemma openRegionContext_ok:
  assumes ok: "tree_ok s"
  shows "\<exists>s' c. openRegionContext summ sid cid rt s = Some s' \<and> tree_ok s'
     \<and> rt_stack s' = c # rt_stack s \<and> rt_root s' = rt_root s \<and> same_links (links s) (links s')"
proof -
  let ?act = "active (links s) (rt_stack s)"
  from tree_ok_cur [OF ok] obtain cur where cur: "rt_curr s = Some cur" by auto
  from findOrCreateChild_ok [OF ok cur] obtain c s1 l where s1:
    "findOrCreateChild summ sid cid rt cur s = Some (c, s1)"
    "links_ok (links s1) (rt_next s1) (rt_root s1)" "same_links (links s) (links s1)"
    "rt_root s1 = rt_root s" "rt_stack s1 = rt_stack s"
    "links s1 c = Some l" "lk_parent l = Some cur" "stats_ok (rt_nodes s1) ?act"
    by blast
  from ok have sok: "stack_ok (links s) (rt_root s) (rt_stack s) (rt_curr s)" by (simp add: tree_ok_def)
  have act1: "active (links s1) (rt_stack s) = ?act" by (rule active_links [OF s1(3) sok])
  from moveToNextStats_ok [OF s1(8), of c] s1(6) obtain s2 where s2: "moveToNextStats c s1 = Some s2"
    "frame_eq s1 s2" "stats_ok (rt_nodes s2) (?act(c := ?act c + 1))" by auto
  from s2(2) s1(6) have "links s2 c = Some l" by (simp add: frame_eq_def)
  then obtain n where n: "rt_nodes s2 c = Some n" "l = link_of n" by (auto simp: links_Some)
  from links_okD [OF s1(2) s1(6)] have lo: "link_ok (links s1) (rt_next s1) (rt_root s1) c l" .
  obtain s3 where s3: "enterChild c s2 = Some s3" "links s3 = links s1" "rt_next s3 = rt_next s1"
    "rt_root s3 = rt_root s1" "rt_stack s3 = rt_stack s1" "rt_curr s3 = target c l"
    "stats_ok (rt_nodes s3) (active (links s1) (c # rt_stack s))"
  proof (cases "lk_type l = R_SINK")
    case False
    then have eq: "enterChild c s2 = Some (s2\<lparr>rt_curr := Some c\<rparr>)"
      using n by (cases "pn_node_type n") (auto simp: enterChild_def)
    have "active (links s1) (c # rt_stack s) = ?act(c := ?act c + 1)"
      using False s1(6) by (auto simp: active_Cons act1 uses_def)
    with that [OF eq] s2 False show thesis by (auto simp: frame_eq_def target_def)
  next
    case True
    with lo obtain r where r: "lk_recursion l = Some r" "r < c" "links s1 r \<noteq> None"
      by (auto simp: link_ok_def)
    let ?s = "s2\<lparr>rt_curr := Some r\<rparr>"
    from moveToNextStats_ok [of ?s "?act(c := ?act c + 1)" r] s2 r obtain s3 where s3:
      "moveToNextStats r ?s = Some s3" "frame_eq ?s s3"
      "stats_ok (rt_nodes s3) (?act(c := ?act c + 1, r := ?act r + 1))"
      by (auto simp: frame_eq_def)
    have eq: "enterChild c s2 = Some s3" using True n r s3(1) by (simp add: enterChild_def)
    have "active (links s1) (c # rt_stack s) = ?act(c := ?act c + 1, r := ?act r + 1)"
      using True s1(6) r by (auto simp: active_Cons act1 uses_def fun_eq_iff)
    with that [OF eq] s3 s2 True r show thesis by (auto simp: frame_eq_def target_def)
  qed
  let ?s' = "pushOnRegionStack c s3"
  have eq: "openRegionContext summ sid cid rt s = Some ?s'"
    using cur s1(1) s2(1) s3(1) by (simp add: openRegionContext_def)
  have "stack_ok (links s1) (rt_root s) (rt_stack s) (Some cur)"
    using stack_ok_links [OF s1(3) sok] cur by simp
  then have "tree_ok ?s'"
    using s3 s1 by (simp add: tree_ok_def pushOnRegionStack_def)
  with eq s1 s3 show ?thesis by (auto simp: pushOnRegionStack_def)
qed

section \<open>Leaving a region\<close>

lemma closeRegionContext_ok:
  assumes ok: "tree_ok s" and st: "rt_stack s = c # cs"
  shows "\<exists>s'. closeRegionContext ns s = Some s' \<and> tree_ok s' \<and> rt_stack s' = cs
     \<and> links s' = links s \<and> rt_root s' = rt_root s"
proof -
  let ?L = "links s"
  let ?act = "active ?L (c # cs)"
  from ok st obtain l where l: "?L c = Some l" "rt_curr s = target c l" "lk_parent l \<noteq> None"
    "stack_ok ?L (rt_root s) cs (lk_parent l)" by (auto simp: tree_ok_def)
  from ok st have lok: "links_ok ?L (rt_next s) (rt_root s)" and stok: "stats_ok (rt_nodes s) ?act"
    by (auto simp: tree_ok_def)
  from links_okD [OF lok l(1)] have lo: "link_ok ?L (rt_next s) (rt_root s) c l" .
  from tree_ok_cur [OF ok] obtain cur lc where cur: "rt_curr s = Some cur" "?L cur = Some lc" by auto
  have a1: "1 \<le> ?act cur" using l(1,2) cur(1)
    by (auto simp: active_Cons uses_def target_def split: if_splits)
  from addStats_ok [OF stok, of cur ns] cur a1 obtain s1 where s1: "addStats ns cur s = Some s1"
    "frame_eq s s1" "stats_ok (rt_nodes s1) ?act" by auto
  from moveToPrevStats_ok [OF s1(3), of cur] s1(2) cur a1 obtain s2 where s2:
    "moveToPrevStats cur s1 = Some s2" "frame_eq s1 s2" "stats_ok (rt_nodes s2) (?act(cur := ?act cur - 1))"
    by (auto simp: frame_eq_def)
  let ?s3 = "s2\<lparr>rt_stack := cs\<rparr>"
  have fr: "links s2 = ?L" "rt_next s2 = rt_next s" "rt_root s2 = rt_root s" "rt_stack s2 = c # cs"
    using s1(2) s2(2) st by (auto simp: frame_eq_def)
  obtain cn where cn: "rt_nodes s2 cur = Some cn" "lc = link_of cn"
    using fr(1) cur(2) by (metis links_Some)
  obtain en where en: "rt_nodes s2 c = Some en" "l = link_of en"
    using fr(1) l(1) by (metis links_Some)
  have cur': "(if pn_node_type cn = R_INIT then pn_parent en else pn_parent cn) = lk_parent l"
  proof (cases "lk_type l = R_SINK")
    case True
    with lo l(2) cur cn show ?thesis by (auto simp: target_def link_ok_def en(2))
  next
    case False
    with l(2) cur(1) have "cur = c" by (simp add: target_def)
    with cn en show ?thesis by simp
  qed
  let ?s4 = "?s3\<lparr>rt_curr := lk_parent l\<rparr>"
  have close: "closeRegionContext ns s = (if lk_type l = R_SINK
      then addStats ns c ?s4 \<bind> moveToPrevStats c else Some ?s4)"
    using cur(1) s1(1) s2(1) fr(4) cn(1) en cur'
    by (auto simp: closeRegionContext_def popFromRegionStack_def)
  have goal: "tree_ok s'" if "links s' = ?L" "rt_next s' = rt_next s" "rt_root s' = rt_root s"
    "rt_stack s' = cs" "rt_curr s' = lk_parent l" "stats_ok (rt_nodes s') (active ?L cs)" for s'
    using that lok l(4) by (simp add: tree_ok_def)
  show ?thesis
  proof (cases "lk_type l = R_SINK")
    case False
    with l(1,2) cur(1) have "?act(cur := ?act cur - 1) = active ?L cs"
      by (auto simp: active_Cons uses_def target_def)
    with s2(3) have "tree_ok ?s4" by (intro goal) (use fr in auto)
    with False close fr show ?thesis by simp
  next
    case True
    with lo l(2) cur(1) have rec: "lk_recursion l = Some cur" "cur < c"
      by (auto simp: target_def link_ok_def)
    let ?act2 = "?act(cur := ?act cur - 1)"
    have a2: "1 \<le> ?act2 c" using rec(2) by (simp add: active_Cons uses_def)
    from addStats_ok [of ?s4 ?act2 c ns] s2(3) fr(1) l(1) a2 obtain s5 where s5:
      "addStats ns c ?s4 = Some s5" "frame_eq ?s4 s5" "stats_ok (rt_nodes s5) ?act2" by auto
    from moveToPrevStats_ok [OF s5(3), of c] s5(2) fr(1) l(1) a2 obtain s6 where s6:
      "moveToPrevStats c s5 = Some s6" "frame_eq s5 s6" "stats_ok (rt_nodes s6) (?act2(c := ?act2 c - 1))"
      by (auto simp: frame_eq_def)
    have "?act2(c := ?act2 c - 1) = active ?L cs"
      using True rec l(1) by (auto simp: active_Cons uses_def fun_eq_iff)
    with s6(3) have "tree_ok s6" by (intro goal) (use fr s5(2) s6(2) in \<open>auto simp: frame_eq_def\<close>)
    with True close fr s5 s6 show ?thesis by (auto simp: frame_eq_def)
  qed
qed

end
