(* ===== verification/RegionRuns.thy ===== *)
theory RegionRuns
  imports RegionContext
begin

text \<open>
  Sequences of region entries and exits on the region tree of \<open>CRegion.cpp\<close>: balanced
  sequences give the tree back with the same stack and current node, and no work is lost or
  counted twice by the merging of regions and the summarising of recursion.
\<close>

datatype region_event = OpenRegion SID CID RegionType | CloseRegion RegionStats

fun region_step :: "bool \<Rightarrow> region_event \<Rightarrow> RegionTree \<Rightarrow> RegionTree option" where
  "region_step summ (OpenRegion sid cid rt) s = openRegionContext summ sid cid rt s"
| "region_step summ (CloseRegion ns) s = closeRegionContext ns s"

fun region_run :: "bool \<Rightarrow> region_event list \<Rightarrow> RegionTree \<Rightarrow> RegionTree option" where
  "region_run summ [] s = Some s"
| "region_run summ (e # es) s = region_step summ e s \<bind> region_run summ es"

inductive balanced :: "region_event list \<Rightarrow> bool" where
  balanced_Nil: "balanced []"
| balanced_nest: "balanced xs \<Longrightarrow> balanced ys \<Longrightarrow>
    balanced (OpenRegion sid cid rt # xs @ CloseRegion ns # ys)"

lemma region_run_append:
  "region_run summ (xs @ ys) s = region_run summ xs s \<bind> region_run summ ys"
proof (induction xs arbitrary: s)
  case (Cons e es)
  then show ?case by (cases "region_step summ e s") auto
qed simp

lemma tree_ok_init: "tree_ok (initRegionTree RegionTree_zero)"
  by (auto simp: initRegionTree_def RegionTree_zero_def ProfileNode_new_def allocId_def tree_ok_def
      links_ok_def link_ok_def links_def link_of_def stats_ok_def active_def)

lemma tree_ok_curr_eq:
  assumes "tree_ok s" "tree_ok s'" "rt_stack s' = rt_stack s" "rt_root s' = rt_root s"
    "same_links (links s) (links s')"
  shows "rt_curr s' = rt_curr s"
proof -
  have "stack_ok (links s') (rt_root s) (rt_stack s) (rt_curr s)"
    using stack_ok_links [OF assms(5)] assms(1) by (simp add: tree_ok_def)
  moreover have "stack_ok (links s') (rt_root s) (rt_stack s) (rt_curr s')"
    using assms by (simp add: tree_ok_def)
  ultimately show ?thesis by (rule stack_ok_cur_unique [symmetric])
qed

lemma balanced_run_ok:
  assumes "balanced es" "tree_ok s"
  shows "\<exists>s'. region_run summ es s = Some s' \<and> tree_ok s' \<and> rt_stack s' = rt_stack s
     \<and> rt_root s' = rt_root s \<and> same_links (links s) (links s')"
  using assms
proof (induction arbitrary: s rule: balanced.induct)
  case balanced_Nil
  then show ?case by simp
next
  case (balanced_nest xs ys sid cid rt ns)
  from openRegionContext_ok [OF balanced_nest.prems] obtain s1 c where s1:
    "openRegionContext summ sid cid rt s = Some s1" "tree_ok s1" "rt_stack s1 = c # rt_stack s"
    "rt_root s1 = rt_root s" "same_links (links s) (links s1)" by blast
  from balanced_nest.IH(1) [OF s1(2)] obtain s2 where s2: "region_run summ xs s1 = Some s2"
    "tree_ok s2" "rt_stack s2 = c # rt_stack s" "rt_root s2 = rt_root s" "same_links (links s1) (links s2)"
    using s1 by auto
  from closeRegionContext_ok [OF s2(2,3), of ns] obtain s3 where s3: "closeRegionContext ns s2 = Some s3"
    "tree_ok s3" "rt_stack s3 = rt_stack s" "links s3 = links s2" "rt_root s3 = rt_root s"
    using s2(4) by auto
  from balanced_nest.IH(2) [OF s3(2)] obtain s4 where s4: "region_run summ ys s3 = Some s4"
    "tree_ok s4" "rt_stack s4 = rt_stack s" "rt_root s4 = rt_root s" "same_links (links s3) (links s4)"
    using s3 by auto
  have "same_links (links s) (links s4)"
    using s1(5) s2(5) s3(4) s4(5) by (metis same_links_trans)
  then show ?case using s1 s2 s3 s4 by (simp add: region_run_append)
qed

section \<open>Conservation of work\<close>

text \<open>
  The work recorded in a node is the sum over its statistics; a recursion sink only repeats
  what its recursion target records, so it does not count. Sums are those of the machine,
  modulo \<open>2^64\<close>.
\<close>

definition node_work :: "ProfileNode \<Rightarrow> UInt64" where
  "node_work n = (if pn_node_type n = R_SINK then 0 else sum_list (map total_work (pn_stats n)))"

definition recorded_work :: "RegionTree \<Rightarrow> UInt64" where
  "recorded_work s = (\<Sum>p<rt_next s. case rt_nodes s p of None \<Rightarrow> 0 | Some n \<Rightarrow> node_work n)"

fun closed_work :: "region_event list \<Rightarrow> UInt64" where
  "closed_work [] = 0"
| "closed_work (OpenRegion sid cid rt # es) = closed_work es"
| "closed_work (CloseRegion ns # es) = rs_work ns + closed_work es"

lemma sum_list_upd:
  fixes xs :: "'a::ab_group_add list"
  shows "i < length xs \<Longrightarrow> sum_list (xs[i := x]) = sum_list xs - xs ! i + x"
proof (induction xs arbitrary: i)
  case (Cons a xs)
  then show ?case by (cases i) (auto simp: algebra_simps)
qed simp

lemma recorded_upd:
  assumes "rt_nodes s p = Some n" "p < rt_next s"
  shows "recorded_work (s\<lparr>rt_nodes := (rt_nodes s)(p \<mapsto> n')\<rparr>)
       = recorded_work s - node_work n + node_work n'"
proof -
  let ?f = "\<lambda>q. case rt_nodes s q of None \<Rightarrow> 0 | Some n \<Rightarrow> node_work n"
  let ?g = "\<lambda>q. case ((rt_nodes s)(p \<mapsto> n')) q of None \<Rightarrow> 0 | Some n \<Rightarrow> node_work n"
  have "sum ?f {..<rt_next s} = node_work n + sum ?f ({..<rt_next s} - {p})"
    using assms by (subst sum.remove [of _ p]) auto
  moreover have "sum ?g {..<rt_next s} = node_work n' + sum ?g ({..<rt_next s} - {p})"
    using assms by (subst sum.remove [of _ p]) auto
  moreover have "sum ?g ({..<rt_next s} - {p}) = sum ?f ({..<rt_next s} - {p})"
    by (rule sum.cong) auto
  ultimately show ?thesis by (simp add: recorded_work_def)
qed

lemma recorded_frame [simp]:
  "recorded_work (s\<lparr>rt_curr := c\<rparr>) = recorded_work s"
  "recorded_work (s\<lparr>rt_stack := st\<rparr>) = recorded_work s"
  by (simp_all add: recorded_work_def)

text \<open>Every node lies below the allocation counter; the invariant provides it.\<close>

definition bounded :: "RegionTree \<Rightarrow> bool" where
  "bounded s \<longleftrightarrow> (\<forall>p n. rt_nodes s p = Some n \<longrightarrow> p < rt_next s)"

lemma tree_ok_bounded: "tree_ok s \<Longrightarrow> bounded s"
  unfolding bounded_def
proof (intro allI impI)
  fix p n assume "tree_ok s" "rt_nodes s p = Some n"
  then have "links s p = Some (link_of n)" "links_ok (links s) (rt_next s) (rt_root s)"
    by (auto simp: links_def tree_ok_def)
  then show "p < rt_next s" by (auto simp: link_ok_def dest: links_okD)
qed

lemma bounded_upd [simp]:
  "rt_nodes s p = Some n \<Longrightarrow> bounded (s\<lparr>rt_nodes := (rt_nodes s)(p \<mapsto> n')\<rparr>) = bounded s"
  by (auto simp: bounded_def)

lemma bounded_frame [simp]:
  "bounded (s\<lparr>rt_curr := c\<rparr>) = bounded s" "bounded (s\<lparr>rt_stack := st\<rparr>) = bounded s"
  by (simp_all add: bounded_def)

text \<open>An update of one node that keeps its recorded work.\<close>

lemma upd_node_work:
  assumes "upd_node p f s = Some s'" "bounded s" "\<And>n. rt_nodes s p = Some n \<Longrightarrow> node_work (f n) = node_work n"
  shows "bounded s' \<and> recorded_work s' = recorded_work s"
  using assms by (auto simp: upd_node_Some recorded_upd bounded_def split: if_splits)

lemma moveToNextStats_work:
  "moveToNextStats p s = Some s' \<Longrightarrow> bounded s \<Longrightarrow> bounded s' \<and> recorded_work s' = recorded_work s"
  unfolding moveToNextStats_def
  by (erule upd_node_work) (auto simp: node_work_def next_stats_def ProfileNodeStats_new_def Let_def)

lemma moveToPrevStats_work:
  "moveToPrevStats p s = Some s' \<Longrightarrow> bounded s \<Longrightarrow> bounded s' \<and> recorded_work s' = recorded_work s"
  unfolding moveToPrevStats_def by (erule upd_node_work) (auto simp: node_work_def)

lemma stats_add_work: "total_work (stats_add ns st) = total_work st + rs_work ns"
  by (simp add: stats_add_def Let_def)

lemma addStats_work:
  assumes "addStats ns p s = Some s'" "bounded s" "rt_nodes s p = Some n"
  shows "bounded s' \<and> recorded_work s' =
    recorded_work s + (if pn_node_type n = R_SINK then 0 else rs_work ns)"
proof -
  let ?i = "nat (pn_curr_stat_index n)"
  have c: "0 \<le> pn_curr_stat_index n \<and> pn_curr_stat_index n < int (length (pn_stats n))"
    using assms(1) by (simp only: addStats_eq [OF assms(3)] option.distinct split: if_split_asm)
  then have i: "?i < length (pn_stats n)" by linarith
  note eq = trans [OF addStats_eq [OF assms(3), of ns] if_P [OF c]]
  from assms(1) have s': "s' = s\<lparr>rt_nodes := (rt_nodes s)(p \<mapsto> n\<lparr>
        pn_is_doall := (if rs_is_doall ns = 0 then 0 else pn_is_doall n),
        pn_num_instances := pn_num_instances n + 1,
        pn_stats := (pn_stats n)[?i := stats_add ns (pn_stats n ! ?i)]\<rparr>)\<rparr>"
    unfolding eq by (simp only: option.inject)
  have "sum_list (map total_work ((pn_stats n)[?i := stats_add ns (pn_stats n ! ?i)]))
      = sum_list (map total_work (pn_stats n)) + rs_work ns"
    using i sum_list_upd [of ?i "map total_work (pn_stats n)" "total_work (pn_stats n ! ?i) + rs_work ns"]
    by (simp add: map_update stats_add_work)
  with assms(2,3) show ?thesis
    by (auto simp: s' recorded_upd bounded_def node_work_def)
qed

lemma keeps_stats_work:
  assumes "keeps_stats s s'" "same_links (links s) (links s')" "bounded s"
  shows "recorded_work s' = recorded_work s"
proof -
  let ?f = "\<lambda>s p. case rt_nodes s p of None \<Rightarrow> 0 | Some n \<Rightarrow> node_work n"
  have eq: "?f s' p = ?f s p" for p
  proof (cases "rt_nodes s p")
    case None
    with assms(1) have "\<forall>n'. rt_nodes s' p = Some n' \<longrightarrow> pn_stats n' = []"
      by (rule keeps_stats_None)
    with None show ?thesis by (auto simp: node_work_def split: option.splits)
  next
    case (Some n)
    with assms(1) obtain n' where n': "rt_nodes s' p = Some n'" "pn_stats n' = pn_stats n"
      by (blast dest: keeps_stats_Some)
    from assms(2) Some have "\<exists>l'. links s' p = Some l' \<and> (lk_type l' = R_SINK \<longleftrightarrow> pn_node_type n = R_SINK)"
      using same_linksD [of "links s" "links s'" p "link_of n"] by (fastforce simp: links_Some)
    with n' Some show ?thesis by (auto simp: node_work_def links_Some)
  qed
  have "sum (?f s) {..<rt_next s'} = sum (?f s) {..<rt_next s}"
  proof (rule sum.mono_neutral_right)
    show "{..<rt_next s} \<subseteq> {..<rt_next s'}" using assms(1) by (simp add: keeps_stats_def)
    show "\<forall>p \<in> {..<rt_next s'} - {..<rt_next s}. ?f s p = 0"
      using assms(3) by (auto simp: bounded_def split: option.splits)
  qed simp
  with eq show ?thesis by (simp add: recorded_work_def)
qed

lemma open_work:
  assumes ok: "tree_ok s" and op: "openRegionContext summ sid cid rt s = Some s'"
  shows "recorded_work s' = recorded_work s"
proof -
  from tree_ok_cur [OF ok] obtain cur where cur: "rt_curr s = Some cur" by auto
  from findOrCreateChild_ok [OF ok cur] obtain c s1 where s1:
    "findOrCreateChild summ sid cid rt cur s = Some (c, s1)"
    "links_ok (links s1) (rt_next s1) (rt_root s1)"
    "same_links (links s) (links s1)" "keeps_stats s s1" by blast
  from s1(2) have b1: "bounded s1"
    by (auto simp: bounded_def links_def link_ok_def dest!: links_okD [where l = "link_of _"])
  from op cur s1(1) obtain s2 s3 where s2: "moveToNextStats c s1 = Some s2"
    "enterChild c s2 = Some s3" "s' = pushOnRegionStack c s3"
    by (auto simp: openRegionContext_def Option.bind_eq_Some_conv)
  from moveToNextStats_work [OF s2(1) b1] have w2: "bounded s2" "recorded_work s2 = recorded_work s1"
    by auto
  from s2(2) obtain n where n: "rt_nodes s2 c = Some n"
    by (auto simp: enterChild_def Option.bind_eq_Some_conv)
  have "recorded_work s3 = recorded_work s2"
    using s2(2) n moveToNextStats_work [of _ "s2\<lparr>rt_curr := _\<rparr>" s3] w2(1)
    by (cases "pn_node_type n") (auto simp: enterChild_def Option.bind_eq_Some_conv)
  moreover have "recorded_work s1 = recorded_work s"
    using keeps_stats_work [OF s1(4,3) tree_ok_bounded [OF ok]] .
  ultimately show ?thesis using w2 s2(3) by (simp add: pushOnRegionStack_def)
qed

lemma close_work:
  assumes ok: "tree_ok s" and cl: "closeRegionContext ns s = Some s'"
  shows "recorded_work s' = recorded_work s + rs_work ns"
proof -
  from tree_ok_cur [OF ok] obtain cur lc where cur: "rt_curr s = Some cur" "links s cur = Some lc"
    "lk_type lc \<noteq> R_SINK" by auto
  then obtain n where n: "rt_nodes s cur = Some n" "pn_node_type n \<noteq> R_SINK" by (auto simp: links_Some)
  from cl cur(1) obtain s1 s2 ex s3 cn en where st: "addStats ns cur s = Some s1"
    "moveToPrevStats cur s1 = Some s2" "popFromRegionStack s2 = Some (ex, s3)"
    "rt_nodes s3 cur = Some cn" "rt_nodes s3 ex = Some en"
    and last: "(if pn_node_type en = R_SINK
       then addStats ns ex (s3\<lparr>rt_curr := if pn_node_type cn = R_INIT then pn_parent en else pn_parent cn\<rparr>)
              \<bind> moveToPrevStats ex
       else Some (s3\<lparr>rt_curr := if pn_node_type cn = R_INIT then pn_parent en else pn_parent cn\<rparr>)) = Some s'"
    by (auto simp: closeRegionContext_def Option.bind_eq_Some_conv Let_def split: if_splits)
  from addStats_work [OF st(1) tree_ok_bounded [OF ok] n(1)] n(2)
  have w1: "bounded s1" "recorded_work s1 = recorded_work s + rs_work ns" by auto
  from moveToPrevStats_work [OF st(2) w1(1)] w1
  have w2: "bounded s2" "recorded_work s2 = recorded_work s + rs_work ns" by auto
  from st(3) obtain ps where s3: "s3 = s2\<lparr>rt_stack := ps\<rparr>"
    by (auto simp: popFromRegionStack_def split: list.splits)
  let ?s4 = "s3\<lparr>rt_curr := if pn_node_type cn = R_INIT then pn_parent en else pn_parent cn\<rparr>"
  have w4: "bounded ?s4" "recorded_work ?s4 = recorded_work s + rs_work ns" using w2 s3 by simp_all
  show ?thesis
  proof (cases "pn_node_type en = R_SINK")
    case False
    with last w4 show ?thesis by auto
  next
    case True
    with last obtain s5 where s5: "addStats ns ex ?s4 = Some s5" "moveToPrevStats ex s5 = Some s'"
      by (auto simp: Option.bind_eq_Some_conv)
    from addStats_work [OF s5(1) w4(1), of en] st(5) True w4
    have "bounded s5" "recorded_work s5 = recorded_work s + rs_work ns" by auto
    with moveToPrevStats_work [OF s5(2)] show ?thesis by simp
  qed
qed

lemma region_step_ok:
  assumes ok: "tree_ok s" and st: "region_step summ e s = Some s'"
  shows "tree_ok s' \<and> recorded_work s' = recorded_work s + closed_work [e]"
proof (cases e)
  case (OpenRegion sid cid rt)
  with st have "openRegionContext summ sid cid rt s = Some s'" by simp
  with openRegionContext_ok [OF ok, of summ sid cid rt] open_work [OF ok this] OpenRegion
  show ?thesis by auto
next
  case (CloseRegion ns)
  with st have cl: "closeRegionContext ns s = Some s'" by simp
  then obtain c cs where "rt_stack s = c # cs"
  proof (cases "rt_stack s")
    case Nil
    from cl obtain cur s1 s2 where c: "rt_curr s = Some cur" "addStats ns cur s = Some s1"
      "moveToPrevStats cur s1 = Some s2" "popFromRegionStack s2 \<noteq> None"
      by (auto simp: closeRegionContext_def Option.bind_eq_Some_conv)
    have "rt_stack s2 = rt_stack s"
      using c(2,3) by (auto simp: addStats_def moveToPrevStats_def upd_node_Some Let_def Option.bind_eq_Some_conv
          split: if_splits)
    with c(4) Nil have False by (simp add: popFromRegionStack_def)
    then show thesis ..
  qed auto
  from closeRegionContext_ok [OF ok this, of ns] cl close_work [OF ok cl] CloseRegion
  show ?thesis by auto
qed

lemma closed_work_Cons: "closed_work (e # es) = closed_work [e] + closed_work es"
  by (cases e) simp_all

text \<open>
  C32. A balanced sequence of region entries and exits always runs to its end; it leaves the region
  stack and the current node as they were, keeps the tree invariant, and leaves every node that
  existed with the same statistics index, whatever recursion was found and summarised. Entering a recursive
  region makes a node of type \<open>R_SINK\<close> the current one, which the assertion at \<open>CRegion.cpp:123\<close> excludes; it is
  compiled out (\<open>NDEBUG\<close>), and the property holds for such entries too.
\<close>

theorem balanced_run_restores:
  assumes "balanced es" "tree_ok s"
  shows "\<exists>s'. region_run summ es s = Some s' \<and> tree_ok s' \<and> rt_stack s' = rt_stack s
     \<and> rt_curr s' = rt_curr s
     \<and> (\<forall>p n. rt_nodes s p = Some n \<longrightarrow>
          (\<exists>n'. rt_nodes s' p = Some n' \<and> pn_curr_stat_index n' = pn_curr_stat_index n))"
proof -
  from balanced_run_ok [OF assms] obtain s' where s': "region_run summ es s = Some s'" "tree_ok s'"
    "rt_stack s' = rt_stack s" "rt_root s' = rt_root s" "same_links (links s) (links s')" by blast
  have "active (links s') (rt_stack s) = active (links s) (rt_stack s)"
    using assms(2) by (intro active_links [OF s'(5), of "rt_root s" "rt_stack s" "rt_curr s"]) (simp add: tree_ok_def)
  then have st: "stats_ok (rt_nodes s) (active (links s) (rt_stack s))"
    "stats_ok (rt_nodes s') (active (links s) (rt_stack s))"
    using assms(2) s'(2,3) by (simp_all add: tree_ok_def)
  have "\<exists>n'. rt_nodes s' p = Some n' \<and> pn_curr_stat_index n' = pn_curr_stat_index n"
    if n: "rt_nodes s p = Some n" for p n
  proof -
    from same_linksD [OF s'(5), of p "link_of n"] n obtain n' where "rt_nodes s' p = Some n'"
      by (auto simp: links_Some)
    with n st show ?thesis unfolding stats_ok_def by fastforce
  qed
  with s' tree_ok_curr_eq [OF assms(2) s'(2,3,4,5)] show ?thesis by auto
qed

text \<open>
  C33. No work is lost or counted twice: however regions nest, repeat and recurse, the work recorded
  in the tree grows by exactly the work of the regions that were closed.
\<close>

theorem run_conserves_work:
  assumes "tree_ok s" "region_run summ es s = Some s'"
  shows "recorded_work s' = recorded_work s + closed_work es"
  using assms
proof (induction es arbitrary: s)
  case Nil
  then show ?case by simp
next
  case (Cons e es)
  from Cons.prems(2) obtain s1 where s1: "region_step summ e s = Some s1" "region_run summ es s1 = Some s'"
    by (auto simp: Option.bind_eq_Some_conv)
  with region_step_ok [OF Cons.prems(1) s1(1)] Cons.IH [of s1]
  show ?case by (subst closed_work_Cons) simp
qed

text \<open>
  A region that is closed right after it was entered, at any nesting depth and whether or not it
  is a recursive call, succeeds and returns to the node it was entered from.
\<close>

theorem open_close_returns:
  assumes "tree_ok s"
  shows "\<exists>s1 s2. openRegionContext summ sid cid rt s = Some s1
     \<and> (\<exists>cur n. rt_curr s1 = Some cur \<and> rt_nodes s1 cur = Some n \<and> pn_node_type n \<noteq> R_SINK)
     \<and> closeRegionContext ns s1 = Some s2 \<and> rt_curr s2 = rt_curr s \<and> rt_stack s2 = rt_stack s"
proof -
  from openRegionContext_ok [OF assms] obtain s1 c where s1:
    "openRegionContext summ sid cid rt s = Some s1" "tree_ok s1" "rt_stack s1 = c # rt_stack s"
    "rt_root s1 = rt_root s" "same_links (links s) (links s1)" by blast
  from closeRegionContext_ok [OF s1(2,3), of ns] obtain s2 where s2: "closeRegionContext ns s1 = Some s2"
    "tree_ok s2" "rt_stack s2 = rt_stack s" "links s2 = links s1" "rt_root s2 = rt_root s1" by auto
  have "rt_curr s2 = rt_curr s"
    by (rule tree_ok_curr_eq [OF assms s2(2,3)]) (use s1 s2 in simp_all)
  with s1 s2 tree_ok_cur [OF s1(2)] show ?thesis by (auto simp: links_Some)
qed

text \<open>A concrete recursion: \<open>f\<close> calls itself; the inner call is a sink for the outer node.\<close>

definition sample_stats :: "UInt64 \<Rightarrow> RegionStats" where
  "sample_stats w = \<lparr>rs_work = w, rs_cp = 1, rs_callSite = 0, rs_spWork = 1, rs_is_doall = 0, rs_childCnt = 0\<rparr>"

definition sample_events :: "region_event list" where
  "sample_events = [OpenRegion 7 1 RegionFunc, OpenRegion 7 2 RegionFunc,
     CloseRegion (sample_stats 3), CloseRegion (sample_stats 10)]"

lemma balanced_sample: "balanced sample_events"
  unfolding sample_events_def
  using balanced_nest [OF balanced_nest [OF balanced_Nil balanced_Nil] balanced_Nil] by simp

theorem balanced_run_restores_witness:
  "\<exists>s'. region_run True sample_events (initRegionTree RegionTree_zero) = Some s' \<and> rt_stack s' = []"
  using balanced_run_restores [OF balanced_sample tree_ok_init, of True]
  by (auto simp: initRegionTree_def RegionTree_zero_def ProfileNode_new_def allocId_def)

theorem open_close_returns_witness:
  "\<exists>s1 s2. openRegionContext True 7 1 RegionFunc (initRegionTree RegionTree_zero) = Some s1
     \<and> closeRegionContext (sample_stats 3) s1 = Some s2 \<and> rt_curr s2 = Some 0"
  using open_close_returns [OF tree_ok_init, of True 7 1 RegionFunc "sample_stats 3"]
  by (auto simp: initRegionTree_def RegionTree_zero_def ProfileNode_new_def allocId_def)

lemma sample_run_defined: "\<exists>s'. region_run True sample_events (initRegionTree RegionTree_zero) = Some s'"
  using balanced_run_ok [OF balanced_sample tree_ok_init] by blast

theorem run_conserves_work_witness:
  "\<exists>s'. region_run True sample_events (initRegionTree RegionTree_zero) = Some s'
     \<and> recorded_work s' = 13"
proof -
  from sample_run_defined obtain s' where
    s': "region_run True sample_events (initRegionTree RegionTree_zero) = Some s'" by blast
  have "recorded_work (initRegionTree RegionTree_zero) = 0"
    by (simp add: recorded_work_def node_work_def initRegionTree_def RegionTree_zero_def
        ProfileNode_new_def allocId_def)
  with run_conserves_work [OF tree_ok_init s'] s' show ?thesis
    by (auto simp: sample_events_def sample_stats_def)
qed

end
