(* ===== verification/KConfig.thy ===== *)
theory KConfig
  imports KPrelude "HOL-Library.Char_ord"
begin

text \<open>
  The run's configuration (\<open>runtime/src/config.h\<close>) and the handling of the command line
  (\<open>runtime/src/arg.cpp\<close>). \<open>getopt_long\<close> belongs to the C library: what it returns, call after
  call, is the list of \<open>opt_result\<close>s the option loop runs over; after the loop the arguments
  from \<open>optind\<close> on are native ones.
\<close>

section \<open>The configuration\<close>

datatype ShadowMemoryType = ShadowMemoryBase | ShadowMemorySTV | ShadowMemorySkadu | ShadowMemoryDummy

record KremlinConfiguration =
  min_profiled_level :: Level
  max_profiled_level :: Level
  shadow_mem_type :: ShadowMemoryType
  shadow_mem_cache_size_in_mb :: UInt32
  garbage_collection_period :: UInt32
  compress_shadow_mem :: bool
  num_compression_buffer_entries :: UInt32
  summarize_recursive_regions :: bool
  profile_output_filename :: string
  debug_output_filename :: string

definition KremlinConfiguration_new :: KremlinConfiguration where
  "KremlinConfiguration_new =
     \<lparr>min_profiled_level = 0, max_profiled_level = 32, shadow_mem_type = ShadowMemorySkadu,
      shadow_mem_cache_size_in_mb = 4, garbage_collection_period = 1024,
      compress_shadow_mem = False, num_compression_buffer_entries = 4096,
      summarize_recursive_regions = True, profile_output_filename = ''kremlin.bin'',
      debug_output_filename = ''kremlin.debug.log''\<rparr>"

definition getNumProfiledLevels :: "KremlinConfiguration \<Rightarrow> Level" where
  "getNumProfiledLevels c = max_profiled_level c - min_profiled_level c + 1"

section \<open>Numbers on the command line\<close>

text \<open>\<open>atoi\<close>: white space, a sign, digits; a value outside \<open>int\<close> is undefined.\<close>

definition is_space :: "char \<Rightarrow> bool" where
  "is_space c \<longleftrightarrow> of_char c = (32::nat) \<or> (9::nat) \<le> of_char c \<and> of_char c \<le> (13::nat)"

definition is_digit :: "char \<Rightarrow> bool" where
  "is_digit c \<longleftrightarrow> (48::nat) \<le> of_char c \<and> of_char c \<le> (57::nat)"

definition digit_value :: "char \<Rightarrow> int" where
  "digit_value c = int (of_char c) - 48"

definition digits_value :: "string \<Rightarrow> int" where
  "digits_value ds = foldl (\<lambda>v c. 10 * v + digit_value c) 0 ds"

definition atoi :: "string \<Rightarrow> int option" where
  "atoi s =
     (let t = dropWhile is_space s;
          neg = (t \<noteq> [] \<and> hd t = CHR ''-'');
          u = (if t \<noteq> [] \<and> (hd t = CHR ''-'' \<or> hd t = CHR ''+'') then tl t else t);
          m = digits_value (takeWhile is_digit u);
          v = (if neg then - m else m)
      in if - (2 ^ 31) \<le> v \<and> v < 2 ^ 31 then Some v else None)"

section \<open>The option loop\<close>

text \<open>
  One return of \<open>getopt_long\<close>: a long option that sets the flag \<open>disable_rs\<close> or
  \<open>enable_sm_compress\<close> (the return value is 0), an option character with its argument (absent for
  the short options \<open>-a\<close> and \<open>-b\<close>, which the short option string declares without one), or
  \<open>'?'\<close> with \<open>optopt\<close> and the argument at \<open>currind\<close>.
\<close>

datatype opt_flag = Flag_disable_rs | Flag_compress

datatype opt_result =
    OptFlag opt_flag
  | OptArg char "string option"
  | OptUnknown char string

record parse_state =
  ps_config :: KremlinConfiguration
  ps_native :: "string list"
  ps_disable_rs :: bool
  ps_compress :: bool

text \<open>The two ways the parser ends the process, and its result; \<open>None\<close> is a null \<open>optarg\<close>.\<close>

datatype parse_exit = InvalidShadowMemory | Abort

definition set_shadow_mem_type :: "string \<Rightarrow> KremlinConfiguration \<Rightarrow> parse_exit + KremlinConfiguration" where
  "set_shadow_mem_type a c =
     (if a = ''base'' then Inr (c\<lparr>shadow_mem_type := ShadowMemoryBase\<rparr>)
      else if a = ''stv'' then Inr (c\<lparr>shadow_mem_type := ShadowMemorySTV\<rparr>)
      else if a = ''skadu'' then Inr (c\<lparr>shadow_mem_type := ShadowMemorySkadu\<rparr>)
      else if a = ''dummy'' then Inr (c\<lparr>shadow_mem_type := ShadowMemoryDummy\<rparr>)
      else Inl InvalidShadowMemory)"

definition opt_config :: "char \<Rightarrow> string \<Rightarrow> KremlinConfiguration \<Rightarrow> (parse_exit + KremlinConfiguration) option" where
  "opt_config ch a c =
     (if ch = CHR ''a'' then Some (Inr (c\<lparr>profile_output_filename := a\<rparr>))
      else if ch = CHR ''b'' then Some (Inr (c\<lparr>debug_output_filename := a\<rparr>))
      else if ch = CHR ''c'' then Some (set_shadow_mem_type a c)
      else if ch = CHR ''d'' then map_option (\<lambda>v. Inr (c\<lparr>shadow_mem_cache_size_in_mb := word_of_int v\<rparr>)) (atoi a)
      else if ch = CHR ''e'' then map_option (\<lambda>v. Inr (c\<lparr>garbage_collection_period := word_of_int v\<rparr>)) (atoi a)
      else if ch = CHR ''f'' then map_option (\<lambda>v. Inr (c\<lparr>num_compression_buffer_entries := word_of_int v\<rparr>)) (atoi a)
      else if ch = CHR ''g'' then map_option (\<lambda>v. Inr (c\<lparr>min_profiled_level := word_of_int v\<rparr>)) (atoi a)
      else if ch = CHR ''h'' then map_option (\<lambda>v. Inr (c\<lparr>max_profiled_level := word_of_int v\<rparr>)) (atoi a)
      else Some (Inl Abort))"

text \<open>
  An unknown short option is kept as the string of the returned character \<open>'?'\<close>, not as the
  argument that was given; an unknown long option is kept as it is.
\<close>

fun parse_step :: "opt_result \<Rightarrow> parse_state \<Rightarrow> (parse_exit + parse_state) option" where
  "parse_step (OptFlag Flag_disable_rs) s = Some (Inr (s\<lparr>ps_disable_rs := True\<rparr>))"
| "parse_step (OptFlag Flag_compress) s = Some (Inr (s\<lparr>ps_compress := True\<rparr>))"
| "parse_step (OptArg ch None) s = None"
| "parse_step (OptArg ch (Some a)) s = do {
     r \<leftarrow> opt_config ch a (ps_config s);
     Some (map_sum id (\<lambda>c. s\<lparr>ps_config := c\<rparr>) r) }"
| "parse_step (OptUnknown optopt arg) s =
     Some (Inr (s\<lparr>ps_native := ps_native s @ [if optopt \<noteq> CHR 0x00 then ''?'' else arg]\<rparr>))"

fun parse_loop :: "opt_result list \<Rightarrow> parse_state \<Rightarrow> (parse_exit + parse_state) option" where
  "parse_loop [] s = Some (Inr s)"
| "parse_loop (r # rs) s = do {
     x \<leftarrow> parse_step r s;
     case x of Inl e \<Rightarrow> Some (Inl e) | Inr s' \<Rightarrow> parse_loop rs s' }"

definition parseKremlinOptions ::
    "KremlinConfiguration \<Rightarrow> string \<Rightarrow> opt_result list \<Rightarrow> string list
     \<Rightarrow> (parse_exit + KremlinConfiguration \<times> string list) option" where
  "parseKremlinOptions config argv0 results rest = do {
     x \<leftarrow> parse_loop results \<lparr>ps_config = config, ps_native = [argv0],
                              ps_disable_rs = False, ps_compress = False\<rparr>;
     Some (map_sum id (\<lambda>s.
       let c = ps_config s;
           c = (if ps_compress s then c\<lparr>compress_shadow_mem := True\<rparr> else c);
           c = (if ps_disable_rs s then c\<lparr>summarize_recursive_regions := False\<rparr> else c)
       in (c, ps_native s @ rest)) x) }"

section \<open>Decimal numerals\<close>

definition digit_char :: "nat \<Rightarrow> char" where
  "digit_char d = char_of (48 + d)"

fun show_nat :: "nat \<Rightarrow> string" where
  "show_nat n = (if n < 10 then [digit_char n] else show_nat (n div 10) @ [digit_char (n mod 10)])"

declare show_nat.simps [simp del]

lemma digit_char_props:
  assumes "d < 10"
  shows "is_digit (digit_char d)" "digit_value (digit_char d) = int d"
    "\<not> is_space (digit_char d)" "digit_char d \<noteq> CHR ''-''" "digit_char d \<noteq> CHR ''+''"
proof -
  have n: "of_char (digit_char d) = (48 + d :: nat)"
    using assms by (simp add: digit_char_def of_char_of)
  then show "is_digit (digit_char d)" "\<not> is_space (digit_char d)"
    using assms by (simp_all add: is_digit_def is_space_def)
  show "digit_value (digit_char d) = int d" by (simp add: digit_value_def n)
  have "of_char (CHR ''-'') = (45::nat)" "of_char (CHR ''+'') = (43::nat)" by simp_all
  with n show "digit_char d \<noteq> CHR ''-''" "digit_char d \<noteq> CHR ''+''" by auto
qed

lemma show_nat_digits: "\<forall>c \<in> set (show_nat n). is_digit c"
proof (induction n rule: show_nat.induct)
  case (1 n)
  then show ?case by (subst show_nat.simps) (auto simp: digit_char_props(1))
qed

lemma show_nat_value: "digits_value (show_nat n) = int n"
proof (induction n rule: show_nat.induct)
  case (1 n)
  have "10 * (n div 10) + n mod 10 = n" by simp
  then have "int (10 * (n div 10) + n mod 10) = int n" by (simp only:)
  then have "10 * int (n div 10) + int (n mod 10) = int n"
    by (simp only: of_nat_add of_nat_mult of_nat_numeral)
  with 1 show ?case
    by (subst show_nat.simps) (auto simp: digits_value_def digit_char_props(2))
qed

lemma show_nat_head: "\<exists>c cs. show_nat n = c # cs \<and> is_digit c \<and> \<not> is_space c
   \<and> c \<noteq> CHR ''-'' \<and> c \<noteq> CHR ''+''"
proof (induction n rule: show_nat.induct)
  case (1 n)
  show ?case
  proof (cases "n < 10")
    case True
    then have "show_nat n = [digit_char n]" by (simp add: show_nat.simps [of n])
    with digit_char_props [OF True] show ?thesis by simp
  next
    case False
    then have eq: "show_nat n = show_nat (n div 10) @ [digit_char (n mod 10)]"
      by (simp add: show_nat.simps [of n])
    show ?thesis unfolding eq using "1.IH" [OF False] by (elim exE conjE) simp
  qed
qed

lemma atoi_show_nat: "int n < 2 ^ 31 \<Longrightarrow> atoi (show_nat n) = Some (int n)"
proof -
  assume b: "int n < 2 ^ 31"
  obtain c cs where c: "show_nat n = c # cs" "\<not> is_space c" "c \<noteq> CHR ''-''" "c \<noteq> CHR ''+''"
    using show_nat_head by blast
  have "takeWhile is_digit (show_nat n) = show_nat n"
    using show_nat_digits by (simp add: takeWhile_eq_all_conv)
  moreover have "digits_value (show_nat n) = int n" by (rule show_nat_value)
  ultimately show ?thesis using c(2-4) b unfolding atoi_def c(1) by (simp add: Let_def)
qed

section \<open>What the parser does\<close>

lemma map_sum_Inr: "map_sum f g x = Inr y \<longleftrightarrow> (\<exists>z. x = Inr z \<and> y = g z)"
  by (cases x) auto

lemma parse_loop_append:
  "parse_loop (rs @ rs') s =
   parse_loop rs s \<bind> (\<lambda>x. case x of Inl e \<Rightarrow> Some (Inl e) | Inr s' \<Rightarrow> parse_loop rs' s')"
proof (induction rs arbitrary: s)
  case (Cons r rs)
  show ?case by (cases "parse_step r s") (auto simp: Cons.IH split: sum.splits)
qed simp

text \<open>The option settings that are numbers, and what each of them changes.\<close>

definition numeric_option :: "char \<Rightarrow> UInt32 \<Rightarrow> KremlinConfiguration \<Rightarrow> KremlinConfiguration" where
  "numeric_option ch v c =
     (if ch = CHR ''d'' then c\<lparr>shadow_mem_cache_size_in_mb := v\<rparr>
      else if ch = CHR ''e'' then c\<lparr>garbage_collection_period := v\<rparr>
      else if ch = CHR ''f'' then c\<lparr>num_compression_buffer_entries := v\<rparr>
      else if ch = CHR ''g'' then c\<lparr>min_profiled_level := v\<rparr>
      else c\<lparr>max_profiled_level := v\<rparr>)"

text \<open>
  A numeric option set on the command line, and not set again afterwards, is in effect: with
  \<open>--kremlin-...=n\<close> as the last option the configuration is the one before it with that field \<open>n\<close>.
\<close>

theorem numeric_option_in_effect:
  assumes "ch \<in> set ''defgh''" "int n < 2 ^ 31"
    and "parseKremlinOptions config argv0 rs rest = Some (Inr (c, native))"
  shows "parseKremlinOptions config argv0 (rs @ [OptArg ch (Some (show_nat n))]) rest
     = Some (Inr (numeric_option ch (of_nat n) c, native))"
proof -
  from assms(3) obtain s where s: "parse_loop rs \<lparr>ps_config = config, ps_native = [argv0],
      ps_disable_rs = False, ps_compress = False\<rparr> = Some (Inr s)"
    "(let c = ps_config s;
           c = (if ps_compress s then c\<lparr>compress_shadow_mem := True\<rparr> else c);
           c = (if ps_disable_rs s then c\<lparr>summarize_recursive_regions := False\<rparr> else c)
       in (c, ps_native s @ rest)) = (c, native)"
    by (auto simp: parseKremlinOptions_def Option.bind_eq_Some_conv map_sum_Inr)
  have "opt_config ch (show_nat n) (ps_config s) = Some (Inr (numeric_option ch (of_nat n) (ps_config s)))"
    using assms(1) by (auto simp: opt_config_def numeric_option_def atoi_show_nat [OF assms(2)])
  with s assms(1) show ?thesis
    by (auto simp: parseKremlinOptions_def parse_loop_append numeric_option_def Let_def)
qed

theorem numeric_option_in_effect_witness:
  "parseKremlinOptions KremlinConfiguration_new ''prog'' [OptUnknown (CHR 0x00) ''--x'', OptArg (CHR ''h'') (Some (show_nat 21))] [''in'']
     = Some (Inr (KremlinConfiguration_new\<lparr>max_profiled_level := 21\<rparr>, [''prog'', ''--x'', ''in'']))"
proof -
  have "parseKremlinOptions KremlinConfiguration_new ''prog'' [OptUnknown (CHR 0x00) ''--x''] [''in'']
     = Some (Inr (KremlinConfiguration_new, [''prog'', ''--x'', ''in'']))"
    by (simp add: parseKremlinOptions_def)
  from numeric_option_in_effect [OF _ _ this, of "CHR ''h''" 21] show ?thesis
    by (simp add: numeric_option_def)
qed

end
