(* ===== verification/RegionFile.thy ===== *)
theory RegionFile
  imports RegionRuns KConfig
begin

text \<open>
  The profile file: the emitting half of \<open>runtime/src/CRegion.cpp\<close> (\<open>printProfiledData\<close> and what
  it calls), and the loop of \<open>planner/src/kremlin/TraceReader.java\<close> that reads the file back. All
  numbers in the file are little-endian 64-bit words, so the file is the list of these words.
\<close>

section \<open>Writing\<close>

text \<open>The stream and the three counters, of type \<open>int\<close>, that the final message reports.\<close>

record EmitState =
  es_out :: "UInt64 list"
  numEntries :: "32 word"
  numEntriesLeaf :: "32 word"
  numCreated :: "32 word"

definition fwrite :: "UInt64 list \<Rightarrow> EmitState \<Rightarrow> EmitState" where
  "fwrite ws e = e\<lparr>es_out := es_out e @ ws\<rparr>"

definition isEmittable :: "KremlinConfiguration \<Rightarrow> Level \<Rightarrow> bool" where
  "isEmittable cfg level \<longleftrightarrow> min_profiled_level cfg \<le> level \<and> level < max_profiled_level cfg"

definition node_type_word :: "ProfileNodeType \<Rightarrow> UInt64" where
  "node_type_word t = of_nat (node_type_code t)"

text \<open>The turns of a loop \<open>for (int i = n - 1; i >= 0; --i)\<close> whose \<open>n\<close> has 64 bits: the index is cut to 32.\<close>

definition down_count :: "nat \<Rightarrow> nat" where
  "down_count n = nat (sint (ucast (of_nat n - 1 :: UInt64) :: 32 word) + 1)"

text \<open>The loop over the children, from index \<open>i - 1\<close> down.\<close>

fun child_ids :: "(node_ptr \<rightharpoonup> ProfileNode) \<Rightarrow> node_ptr list \<Rightarrow> nat \<Rightarrow> UInt64 list option" where
  "child_ids h cs 0 = Some []"
| "child_ids h cs (Suc i) = do { c \<leftarrow> rd cs (int i); n \<leftarrow> h c; is \<leftarrow> child_ids h cs i; Some (pn_id n # is) }"

definition writeNodeStats :: "RegionTree \<Rightarrow> ProfileNode \<Rightarrow> EmitState \<Rightarrow> EmitState option" where
  "writeNodeStats s n e = do {
     let e = fwrite [pn_id n, pn_static_id n, pn_callsite_id n, node_type_word (pn_node_type n)] e;
     target_id \<leftarrow> (case pn_recursion n of None \<Rightarrow> Some 0
                    | Some q \<Rightarrow> map_option pn_id (rt_nodes s q));
     let e = fwrite [target_id, pn_num_instances n, pn_is_doall n,
                     of_nat (length (pn_children n))] e;
     ids \<leftarrow> child_ids (rt_nodes s) (pn_children n) (down_count (length (pn_children n)));
     let e = fwrite ids e;
     Some (e\<lparr>numCreated := numCreated e + 1\<rparr>) }"

definition emitStat :: "(double \<Rightarrow> UInt64) \<Rightarrow> ProfileNodeStats \<Rightarrow> EmitState \<Rightarrow> EmitState" where
  "emitStat oor st e =
     (let e = fwrite [st_num_instances st, total_work st, total_par_per_work st, self_par_per_work st] e;
          minSPInt = to_u64 oor (dmul (min_self_par st) (Fin 100));
          maxSPInt = to_u64 oor (dmul (max_self_par st) (Fin 100));
          e = fwrite [minSPInt, maxSPInt] e
      in fwrite [num_dynamic_child_regions st, min_dynamic_child_regions st,
                 max_dynamic_child_regions st] e)"

text \<open>
  The recursion goes from parents to younger children; the fuel bounds its depth. \<open>getStatSize\<close> returns 32
  bits, and the index of the loop over the children is an \<open>int\<close>.
\<close>

definition getStatSize :: "ProfileNode \<Rightarrow> 32 word" where
  "getStatSize n = of_nat (length (pn_stats n))"

fun writeRegionStats :: "(double \<Rightarrow> UInt64) \<Rightarrow> KremlinConfiguration \<Rightarrow> RegionTree \<Rightarrow> nat
    \<Rightarrow> node_ptr \<Rightarrow> Level \<Rightarrow> EmitState \<Rightarrow> EmitState option" where
  "writeRegionStats oor cfg s 0 p level e = None"
| "writeRegionStats oor cfg s (Suc fuel) p level e = do {
     n \<leftarrow> rt_nodes s p;
     e \<leftarrow> (if isEmittable cfg level
           then do {
             let e = e\<lparr>numEntries := numEntries e + 1\<rparr>;
             let e = (if pn_children n = [] then e\<lparr>numEntriesLeaf := numEntriesLeaf e + 1\<rparr> else e);
             e \<leftarrow> writeNodeStats s n e;
             let e = fwrite [ucast (getStatSize n)] e;
             Some (fold (emitStat oor) (take (unat (getStatSize n)) (pn_stats n)) e) }
           else Some e);
     fold (\<lambda>c acc. acc \<bind> writeRegionStats oor cfg s fuel c (level + 1))
       (rev (take (down_count (length (pn_children n))) (pn_children n))) (Some e) }"

text \<open>When the file cannot be opened the process exits with status 1.\<close>

datatype write_result = CannotOpen | Written EmitState

definition writeProgramStats ::
    "(double \<Rightarrow> UInt64) \<Rightarrow> KremlinConfiguration \<Rightarrow> bool \<Rightarrow> RegionTree \<Rightarrow> EmitState \<Rightarrow> write_result option" where
  "writeProgramStats oor cfg fopen_ok s e =
     (if \<not> fopen_ok then Some CannotOpen
      else do {
        r \<leftarrow> rt_root s;
        n \<leftarrow> rt_nodes s r;
        c \<leftarrow> rd (pn_children n) 0;
        e \<leftarrow> writeRegionStats oor cfg s (rt_next s) c 0 e;
        Some (Written e) })"

definition EmitState_zero :: EmitState where
  "EmitState_zero = \<lparr>es_out = [], numEntries = 0, numEntriesLeaf = 0, numCreated = 0\<rparr>"

definition printProfiledData ::
    "(double \<Rightarrow> UInt64) \<Rightarrow> KremlinConfiguration \<Rightarrow> bool \<Rightarrow> RegionTree \<Rightarrow> write_result option" where
  "printProfiledData oor cfg fopen_ok s = writeProgramStats oor cfg fopen_ok s EmitState_zero"

section \<open>Reading (planner/src/kremlin/TraceReader.java)\<close>

record CRegionStat =
  cs_nInstance :: UInt64
  cs_work :: UInt64
  cs_tpWork :: UInt64
  cs_spWork :: UInt64
  cs_minSP :: double
  cs_maxSP :: double
  cs_totalIter :: UInt64
  cs_minIter :: UInt64
  cs_maxIter :: UInt64

record TraceEntry =
  te_uid :: UInt64
  te_sid :: UInt64
  te_callsite :: UInt64
  te_type :: UInt64
  te_recursionTarget :: UInt64
  te_cnt :: UInt64
  te_pbit :: bool
  te_children :: "UInt64 set"
  te_stats :: "CRegionStat list"

text \<open>A \<open>long\<close> divided by \<open>100.0\<close>.\<close>

definition sp_of_long :: "UInt64 \<Rightarrow> double" where
  "sp_of_long w = ddiv (Fin (dround (of_int (sint w)))) (Fin 100)"

text \<open>\<open>readLong\<close>, \<open>None\<close> being the end-of-file exception.\<close>

definition readLong :: "UInt64 list \<Rightarrow> (UInt64 \<times> UInt64 list) option" where
  "readLong ws = (case ws of [] \<Rightarrow> None | w # r \<Rightarrow> Some (w, r))"

definition readStat :: "UInt64 list \<Rightarrow> (CRegionStat \<times> UInt64 list) option" where
  "readStat ws = do {
     (nInstance, ws) \<leftarrow> readLong ws;
     (work, ws) \<leftarrow> readLong ws;
     (tpWork, ws) \<leftarrow> readLong ws;
     (spWork, ws) \<leftarrow> readLong ws;
     (minSP, ws) \<leftarrow> readLong ws;
     (maxSP, ws) \<leftarrow> readLong ws;
     (totalIter, ws) \<leftarrow> readLong ws;
     (minIter, ws) \<leftarrow> readLong ws;
     (maxIter, ws) \<leftarrow> readLong ws;
     Some (\<lparr>cs_nInstance = nInstance, cs_work = work, cs_tpWork = tpWork, cs_spWork = spWork,
            cs_minSP = sp_of_long minSP, cs_maxSP = sp_of_long maxSP,
            cs_totalIter = totalIter, cs_minIter = minIter, cs_maxIter = maxIter\<rparr>, ws) }"

fun read_n :: "('w \<Rightarrow> ('a \<times> 'w) option) \<Rightarrow> nat \<Rightarrow> 'w \<Rightarrow> ('a list \<times> 'w) option" where
  "read_n rdr 0 ws = Some ([], ws)"
| "read_n rdr (Suc k) ws = do { (x, ws) \<leftarrow> rdr ws; (xs, ws) \<leftarrow> read_n rdr k ws; Some (x # xs, ws) }"

text \<open>
  \<open>for (int i = 0; i < n; i++)\<close> with a \<open>long n\<close>: from \<open>2 ^ 31\<close> on \<open>i\<close> wraps around before it gets to \<open>n\<close>, so the
  loop reads until the file ends.
\<close>

definition read_counted :: "('w \<Rightarrow> ('a \<times> 'w) option) \<Rightarrow> UInt64 \<Rightarrow> 'w \<Rightarrow> ('a list \<times> 'w) option" where
  "read_counted rdr n ws = (if 2 ^ 31 \<le> sint n then None else read_n rdr (nat (sint n)) ws)"

definition readEntry :: "UInt64 list \<Rightarrow> (TraceEntry \<times> UInt64 list) option" where
  "readEntry ws = do {
     (uid, ws) \<leftarrow> readLong ws;
     (sid, ws) \<leftarrow> readLong ws;
     (callsiteID, ws) \<leftarrow> readLong ws;
     (typ, ws) \<leftarrow> readLong ws;
     (recurse, ws) \<leftarrow> readLong ws;
     (cnt, ws) \<leftarrow> readLong ws;
     (pbit, ws) \<leftarrow> readLong ws;
     (nChildren, ws) \<leftarrow> readLong ws;
     (children, ws) \<leftarrow> read_counted readLong nChildren ws;
     (nStats, ws) \<leftarrow> readLong ws;
     (stats, ws) \<leftarrow> read_counted readStat nStats ws;
     Some (\<lparr>te_uid = uid, te_sid = sid, te_callsite = callsiteID, te_type = typ,
            te_recursionTarget = (if recurse \<noteq> 0 then recurse else 0),
            te_cnt = cnt, te_pbit = (pbit \<noteq> 0), te_children = set children, te_stats = stats\<rparr>, ws) }"

text \<open>
  The endless loop ends with the end-of-file exception; each turn consumes at least one word, so
  the length of the file is fuel enough.
\<close>

fun readEntries :: "nat \<Rightarrow> UInt64 list \<Rightarrow> TraceEntry list" where
  "readEntries 0 ws = []"
| "readEntries (Suc fuel) ws =
     (case readEntry ws of None \<Rightarrow> [] | Some (e, ws) \<Rightarrow> e # readEntries fuel ws)"

definition readTrace :: "UInt64 list \<Rightarrow> TraceEntry list" where
  "readTrace ws = readEntries (Suc (length ws)) ws"


section \<open>The contents of the file\<close>

text \<open>The regions of the tree in the order of the file, each with its depth.\<close>

fun preorder :: "nat \<Rightarrow> (node_ptr \<rightharpoonup> ProfileNode) \<Rightarrow> node_ptr \<Rightarrow> Level \<Rightarrow> (node_ptr \<times> Level) list" where
  "preorder 0 h p l = []"
| "preorder (Suc fuel) h p l =
     (p, l) # concat (map (\<lambda>c. preorder fuel h c (l + 1)) (rev (pn_children (the (h p)))))"

definition emitted :: "KremlinConfiguration \<Rightarrow> (node_ptr \<times> Level) list \<Rightarrow> node_ptr list" where
  "emitted cfg ps = map fst (filter (\<lambda>(p, l). isEmittable cfg l) ps)"

definition recursion_id :: "(node_ptr \<rightharpoonup> ProfileNode) \<Rightarrow> ProfileNode \<Rightarrow> UInt64" where
  "recursion_id h n = (case pn_recursion n of None \<Rightarrow> 0 | Some q \<Rightarrow> pn_id (the (h q)))"

definition stat_words :: "(double \<Rightarrow> UInt64) \<Rightarrow> ProfileNodeStats \<Rightarrow> UInt64 list" where
  "stat_words oor st =
     [st_num_instances st, total_work st, total_par_per_work st, self_par_per_work st,
      to_u64 oor (dmul (min_self_par st) (Fin 100)), to_u64 oor (dmul (max_self_par st) (Fin 100)),
      num_dynamic_child_regions st, min_dynamic_child_regions st, max_dynamic_child_regions st]"

definition node_words :: "(double \<Rightarrow> UInt64) \<Rightarrow> (node_ptr \<rightharpoonup> ProfileNode) \<Rightarrow> node_ptr \<Rightarrow> UInt64 list" where
  "node_words oor h p = (let n = the (h p) in
     [pn_id n, pn_static_id n, pn_callsite_id n, node_type_word (pn_node_type n),
      recursion_id h n, pn_num_instances n, pn_is_doall n, of_nat (length (pn_children n))]
     @ map (\<lambda>c. pn_id (the (h c))) (rev (pn_children n))
     @ [of_nat (length (pn_stats n))] @ concat (map (stat_words oor) (pn_stats n)))"

text \<open>What the planner knows of a region.\<close>

definition trace_stat :: "(double \<Rightarrow> UInt64) \<Rightarrow> ProfileNodeStats \<Rightarrow> CRegionStat" where
  "trace_stat oor st =
     \<lparr>cs_nInstance = st_num_instances st, cs_work = total_work st,
      cs_tpWork = total_par_per_work st, cs_spWork = self_par_per_work st,
      cs_minSP = sp_of_long (to_u64 oor (dmul (min_self_par st) (Fin 100))),
      cs_maxSP = sp_of_long (to_u64 oor (dmul (max_self_par st) (Fin 100))),
      cs_totalIter = num_dynamic_child_regions st, cs_minIter = min_dynamic_child_regions st,
      cs_maxIter = max_dynamic_child_regions st\<rparr>"

definition trace_entry :: "(double \<Rightarrow> UInt64) \<Rightarrow> (node_ptr \<rightharpoonup> ProfileNode) \<Rightarrow> node_ptr \<Rightarrow> TraceEntry" where
  "trace_entry oor h p = (let n = the (h p) in
     \<lparr>te_uid = pn_id n, te_sid = pn_static_id n, te_callsite = pn_callsite_id n,
      te_type = node_type_word (pn_node_type n), te_recursionTarget = recursion_id h n,
      te_cnt = pn_num_instances n, te_pbit = (pn_is_doall n \<noteq> 0),
      te_children = (\<lambda>c. pn_id (the (h c))) ` set (pn_children n),
      te_stats = map (trace_stat oor) (pn_stats n)\<rparr>)"

section \<open>Writing succeeds and writes these words\<close>

lemma fold_emitStat: "fold (emitStat oor) sts e = fwrite (concat (map (stat_words oor) sts)) e"
  by (induction sts arbitrary: e) (simp_all add: emitStat_def stat_words_def fwrite_def Let_def)

lemma child_ids_eq:
  "\<forall>c \<in> set cs. h c \<noteq> None \<Longrightarrow> i \<le> length cs \<Longrightarrow> child_ids h cs i = Some (map (\<lambda>c. pn_id (the (h c))) (rev (take i cs)))"
proof (induction i)
  case (Suc i)
  then have "rd cs (int i) = Some (cs ! i)" "cs ! i \<in> set cs" by (simp_all add: rd_int)
  moreover from this obtain n where "h (cs ! i) = Some n" using Suc.prems(1) by blast
  ultimately show ?case using Suc by (simp add: take_Suc_conv_app_nth)
qed simp

text \<open>Below \<open>2 ^ 31\<close> the indices are those of the lists.\<close>

lemma small_count:
  assumes "k < 2 ^ 31"
  shows "down_count k = k" "unat (of_nat k :: 32 word) = k" "ucast (of_nat k :: 32 word) = (of_nat k :: UInt64)"
proof -
  show u: "unat (of_nat k :: 32 word) = k" using assms by (simp add: unat_of_nat take_bit_nat_eq_self)
  have "ucast (of_nat k :: 32 word) = (of_nat (unat (of_nat k :: 32 word)) :: UInt64)" by (rule of_nat_unat [symmetric])
  then show "ucast (of_nat k :: 32 word) = (of_nat k :: UInt64)" unfolding u .
  show "down_count k = k"
  proof (cases k)
    case 0
    have "(ucast (- 1 :: UInt64) :: 32 word) = - 1" by (rule bit_word_eqI) (simp add: bit_simps)
    then show ?thesis using 0 by (simp add: down_count_def)
  next
    case (Suc j)
    then have j: "j < 2 ^ 31" using assms by simp
    have e: "(of_nat k - 1 :: UInt64) = of_nat j" using Suc by simp
    have u: "unat (of_nat j :: UInt64) = j" using j by (simp add: unat_of_nat take_bit_nat_eq_self)
    have "ucast (of_nat j :: UInt64) = (of_nat (unat (of_nat j :: UInt64)) :: 32 word)" by (rule of_nat_unat [symmetric])
    then have "ucast (of_nat j :: UInt64) = (of_nat j :: 32 word)" unfolding u .
    moreover have "uint (of_nat j :: 32 word) = int j" using j by (simp add: uint_nat unat_of_nat take_bit_nat_eq_self)
    moreover have "signed_take_bit 31 (int j) = int j" using j by (intro signed_take_bit_int_eq_self) simp_all
    ultimately have "sint (ucast (of_nat j :: UInt64) :: 32 word) = int j" by (simp add: sint_uint)
    then show ?thesis using Suc by (simp only: down_count_def e) simp
  qed
qed

definition counts_small :: "ProfileNode \<Rightarrow> bool" where
  "counts_small n \<longleftrightarrow> length (pn_children n) < 2 ^ 31 \<and> length (pn_stats n) < 2 ^ 31"

lemma writeNodeStats_eq:
  assumes "rt_nodes s p = Some n" "\<forall>c \<in> set (pn_children n). rt_nodes s c \<noteq> None"
    and "\<forall>q. pn_recursion n = Some q \<longrightarrow> rt_nodes s q \<noteq> None" and "counts_small n"
  shows "\<exists>e'. writeNodeStats s n e = Some e' \<and> numEntries e' = numEntries e
     \<and> numEntriesLeaf e' = numEntriesLeaf e \<and> numCreated e' = numCreated e + 1
     \<and> es_out e' @ of_nat (length (pn_stats n)) # concat (map (stat_words oor) (pn_stats n))
        = es_out e @ node_words oor (rt_nodes s) p"
proof -
  have d: "down_count (length (pn_children n)) = length (pn_children n)" using assms(4) by (simp add: counts_small_def small_count)
  have "child_ids (rt_nodes s) (pn_children n) (length (pn_children n))
      = Some (map (\<lambda>c. pn_id (the (rt_nodes s c))) (rev (pn_children n)))"
    using child_ids_eq [of "pn_children n" "rt_nodes s" "length (pn_children n)"] assms(2) by simp
  moreover have "(case pn_recursion n of None \<Rightarrow> Some 0 | Some q \<Rightarrow> map_option pn_id (rt_nodes s q))
      = Some (recursion_id (rt_nodes s) n)"
    using assms(3) by (auto simp: recursion_id_def split: option.splits)
  ultimately show ?thesis
    by (simp add: writeNodeStats_def fwrite_def node_words_def assms(1) Let_def d)
qed

text \<open>A loop over the children whose body appends, and counts what it appends.\<close>

lemma fold_writes:
  assumes "\<And>c e. c \<in> set cs \<Longrightarrow> \<exists>e'. f c e = Some e' \<and> es_out e' = es_out e @ W c
     \<and> numCreated e' = numCreated e + of_nat (N c)"
  shows "\<exists>e'. fold (\<lambda>c acc. acc \<bind> f c) cs (Some e) = Some e'
     \<and> es_out e' = es_out e @ concat (map W cs) \<and> numCreated e' = numCreated e + of_nat (sum_list (map N cs))"
  using assms
proof (induction cs arbitrary: e)
  case Nil
  then show ?case by simp
next
  case (Cons c cs)
  from Cons.prems [of c e] obtain e1 where e1: "f c e = Some e1" "es_out e1 = es_out e @ W c"
    "numCreated e1 = numCreated e + of_nat (N c)" by auto
  from Cons.IH [of e1] Cons.prems obtain e2 where
    "fold (\<lambda>c acc. acc \<bind> f c) cs (Some e1) = Some e2"
    "es_out e2 = es_out e1 @ concat (map W cs)" "numCreated e2 = numCreated e1 + of_nat (sum_list (map N cs))"
    by auto
  with e1 show ?case by simp
qed

lemma emitted_Cons: "emitted cfg ((p, l) # ps) = (if isEmittable cfg l then [p] else []) @ emitted cfg ps"
  by (simp add: emitted_def)

lemma emitted_concat: "emitted cfg (concat pss) = concat (map (emitted cfg) pss)"
  by (induction pss) (simp_all add: emitted_def)

lemma child_in_heap:
  assumes "links_ok (links s) (rt_next s) (rt_root s)" "rt_nodes s p = Some n" "c \<in> set (pn_children n)"
  shows "rt_nodes s c \<noteq> None"
  using links_okD [OF assms(1), of p "link_of n"] assms(2,3) by (auto simp: links_Some link_ok_def)

lemma preorder_in_heap:
  assumes ok: "links_ok (links s) (rt_next s) (rt_root s)"
  shows "rt_nodes s p \<noteq> None \<Longrightarrow> (q, m) \<in> set (preorder fuel (rt_nodes s) p l) \<Longrightarrow> rt_nodes s q \<noteq> None"
proof (induction fuel arbitrary: p l)
  case (Suc fuel)
  then show ?case using child_in_heap [OF ok] by fastforce
qed simp

lemma writeRegionStats_total:
  assumes ok: "links_ok (links s) (rt_next s) (rt_root s)" and small: "\<And>p n. rt_nodes s p = Some n \<Longrightarrow> counts_small n"
  shows "rt_nodes s p \<noteq> None \<Longrightarrow> rt_next s - p \<le> fuel \<Longrightarrow>
    \<exists>e'. writeRegionStats oor cfg s fuel p l e = Some e'
      \<and> es_out e' = es_out e @ concat (map (node_words oor (rt_nodes s)) (emitted cfg (preorder fuel (rt_nodes s) p l)))
      \<and> numCreated e' = numCreated e + of_nat (length (emitted cfg (preorder fuel (rt_nodes s) p l)))"
proof (induction fuel arbitrary: p l e)
  case 0
  then obtain n where "links s p = Some (link_of n)" by (auto simp: links_Some)
  from links_okD [OF ok this] 0 show ?case by (simp add: link_ok_def)
next
  case (Suc fuel)
  let ?h = "rt_nodes s"
  let ?E = "\<lambda>c. emitted cfg (preorder fuel ?h c (l + 1))"
  from Suc.prems obtain n where n: "?h p = Some n" by auto
  from links_okD [OF ok, of p "link_of n"] n
  have lk: "link_ok (links s) (rt_next s) (rt_root s) p (link_of n)" by (auto simp: links_Some)
  have ch: "\<forall>c \<in> set (pn_children n). ?h c \<noteq> None \<and> rt_next s - c \<le> fuel"
  proof
    fix c
    assume "c \<in> set (pn_children n)"
    with lk obtain m where m: "?h c = Some m" "pn_parent m = Some p"
      by (auto simp: link_ok_def links_Some)
    from links_okD [OF ok, of c "link_of m"] m have "p < c" by (auto simp: links_Some link_ok_def)
    with m Suc.prems(2) show "?h c \<noteq> None \<and> rt_next s - c \<le> fuel" by auto
  qed
  have sm: "counts_small n" by (rule small [OF n])
  then have d: "down_count (length (pn_children n)) = length (pn_children n)"
    and st: "unat (getStatSize n) = length (pn_stats n)" "ucast (getStatSize n) = (of_nat (length (pn_stats n)) :: UInt64)"
    by (simp_all add: counts_small_def getStatSize_def small_count)
  have rec: "\<forall>q. pn_recursion n = Some q \<longrightarrow> ?h q \<noteq> None"
    using lk by (auto simp: link_ok_def links_Some)
  have kids: "\<exists>e'. fold (\<lambda>c acc. acc \<bind> writeRegionStats oor cfg s fuel c (l + 1)) (rev (pn_children n)) (Some e1) = Some e'
     \<and> es_out e' = es_out e1 @ concat (map (\<lambda>c. concat (map (node_words oor ?h) (?E c))) (rev (pn_children n)))
     \<and> numCreated e' = numCreated e1 + of_nat (sum_list (map (\<lambda>c. length (?E c)) (rev (pn_children n))))" for e1
    by (rule fold_writes) (rule Suc.IH, use ch in auto)
  have E: "emitted cfg (preorder (Suc fuel) ?h p l)
      = (if isEmittable cfg l then [p] else []) @ concat (map ?E (rev (pn_children n)))"
    by (simp add: emitted_Cons emitted_concat n o_def)
  have len: "length (concat (map ?E cs)) = sum_list (map (\<lambda>c. length (?E c)) cs)" for cs
    by (simp add: length_concat o_def)
  have words: "concat (map W (concat (map ?E cs))) = concat (map (\<lambda>c. concat (map W (?E c))) cs)"
    for cs and W :: "node_ptr \<Rightarrow> UInt64 list"
    by (induction cs) simp_all
  show ?case
  proof (cases "isEmittable cfg l")
    case False
    from kids [of e] obtain e' where e':
      "fold (\<lambda>c acc. acc \<bind> writeRegionStats oor cfg s fuel c (l + 1)) (rev (pn_children n)) (Some e) = Some e'"
      "es_out e' = es_out e @ concat (map (\<lambda>c. concat (map (node_words oor ?h) (?E c))) (rev (pn_children n)))"
      "numCreated e' = numCreated e + of_nat (sum_list (map (\<lambda>c. length (?E c)) (rev (pn_children n))))"
      by blast
    have "writeRegionStats oor cfg s (Suc fuel) p l e = Some e'"
      using e'(1) False by (simp add: n d)
    moreover have "es_out e' = es_out e @ concat (map (node_words oor ?h) (emitted cfg (preorder (Suc fuel) ?h p l)))"
      by (simp only: e'(2) E False if_False append_Nil words)
    moreover have "numCreated e' = numCreated e + of_nat (length (emitted cfg (preorder (Suc fuel) ?h p l)))"
      by (simp only: e'(3) E False if_False append_Nil len)
    ultimately show ?thesis by blast
  next
    case True
    let ?e0 = "e\<lparr>numEntries := numEntries e + 1\<rparr>"
    let ?e1 = "if pn_children n = [] then ?e0\<lparr>numEntriesLeaf := numEntriesLeaf ?e0 + 1\<rparr> else ?e0"
    from writeNodeStats_eq [OF n _ rec sm, of ?e1 oor] ch obtain e2 where
      e2: "writeNodeStats s n ?e1 = Some e2" "numCreated e2 = numCreated e + 1"
        "es_out e2 @ of_nat (length (pn_stats n)) # concat (map (stat_words oor) (pn_stats n))
          = es_out e @ node_words oor ?h p"
      by (auto split: if_splits)
    let ?e3 = "fwrite (concat (map (stat_words oor) (pn_stats n))) (fwrite [of_nat (length (pn_stats n))] e2)"
    have e3: "es_out ?e3 = es_out e @ node_words oor ?h p" "numCreated ?e3 = numCreated e + 1"
      using e2(2,3) by (simp_all add: fwrite_def)
    from kids [of ?e3] obtain e4 where e4:
      "fold (\<lambda>c acc. acc \<bind> writeRegionStats oor cfg s fuel c (l + 1)) (rev (pn_children n)) (Some ?e3) = Some e4"
      "es_out e4 = es_out ?e3 @ concat (map (\<lambda>c. concat (map (node_words oor ?h) (?E c))) (rev (pn_children n)))"
      "numCreated e4 = numCreated ?e3 + of_nat (sum_list (map (\<lambda>c. length (?E c)) (rev (pn_children n))))"
      by blast
    have "writeRegionStats oor cfg s (Suc fuel) p l e = Some e4"
      using e2(1) e4(1) True by (simp add: n d st Let_def fold_emitStat)
    moreover have "es_out e4 = es_out e @ concat (map (node_words oor ?h) (emitted cfg (preorder (Suc fuel) ?h p l)))"
      by (simp only: e4(2) e3(1) E True if_True map_append concat_append words) simp
    moreover have "numCreated e4 = numCreated e + of_nat (length (emitted cfg (preorder (Suc fuel) ?h p l)))"
      by (simp only: e4(3) e3(2) E True if_True length_append len) simp
    ultimately show ?thesis by blast
  qed
qed


section \<open>Reading what was written\<close>

lemma readLong_Cons [simp]: "readLong (w # ws) = Some (w, ws)"
  by (simp add: readLong_def)

lemma nat_sint_of_nat:
  assumes "k < 2 ^ 63"
  shows "nat (sint (of_nat k :: UInt64)) = k"
proof -
  have "uint (of_nat k :: UInt64) = int k"
    using assms by (simp add: uint_nat unat_of_nat take_bit_nat_eq_self)
  moreover have "signed_take_bit 63 (int k) = int k"
    using assms by (intro signed_take_bit_int_eq_self) simp_all
  ultimately show ?thesis by (simp add: sint_uint)
qed

lemma read_n_longs: "read_n readLong (length ws) (ws @ rest) = Some (ws, rest)"
  by (induction ws) simp_all

lemma readStat_words: "readStat (stat_words oor st @ rest) = Some (trace_stat oor st, rest)"
  by (simp add: readStat_def stat_words_def trace_stat_def)

lemma read_n_stats:
  "read_n readStat (length sts) (concat (map (stat_words oor) sts) @ rest) = Some (map (trace_stat oor) sts, rest)"
  by (induction sts) (simp_all add: readStat_words)

lemma read_counted_small:
  assumes "k < 2 ^ 31"
  shows "read_counted rdr (of_nat k) = read_n rdr k"
proof -
  have k: "nat (sint (of_nat k :: UInt64)) = k" by (rule nat_sint_of_nat) (use assms in simp)
  have "sint (of_nat k :: UInt64) \<le> int (nat (sint (of_nat k :: UInt64)))" by simp
  moreover have "int k < 2 ^ 31" using assms by simp
  ultimately have "sint (of_nat k :: UInt64) < 2 ^ 31" unfolding k by linarith
  then show ?thesis by (simp add: read_counted_def fun_eq_iff k)
qed

lemma readEntry_words:
  assumes "counts_small (the (h p))"
  shows "readEntry (node_words oor h p @ rest) = Some (trace_entry oor h p, rest)"
proof -
  let ?n = "the (h p)"
  let ?ids = "map (\<lambda>c. pn_id (the (h c))) (rev (pn_children ?n))"
  have c: "read_n readLong (length (pn_children ?n)) (?ids @ r) = Some (?ids, r)" for r
    using read_n_longs [of ?ids r] by simp
  show ?thesis
    using assms by (simp add: readEntry_def node_words_def trace_entry_def Let_def counts_small_def
        read_counted_small c read_n_stats image_image)
qed

lemma node_words_length: "0 < length (node_words oor h p)"
  by (simp add: node_words_def Let_def)

lemma readEntry_Nil: "readEntry [] = None"
  by (simp add: readEntry_def readLong_def)

lemma readEntries_words:
  assumes "\<forall>p \<in> set ps. counts_small (the (h p))"
    and "length (concat (map (node_words oor h) ps)) < fuel"
  shows "readEntries fuel (concat (map (node_words oor h) ps)) = map (trace_entry oor h) ps"
  using assms
proof (induction ps arbitrary: fuel)
  case Nil
  then show ?case by (cases fuel) (simp_all add: readEntry_Nil)
next
  case (Cons p ps)
  then obtain f where f: "fuel = Suc f" by (cases fuel) auto
  obtain w ws where "node_words oor h p = w # ws"
    using node_words_length [of oor h p] by (cases "node_words oor h p") auto
  then have "readEntries f (concat (map (node_words oor h) ps)) = map (trace_entry oor h) ps"
    using Cons f by (intro Cons.IH) auto
  with Cons.prems(1) f show ?case by (simp add: readEntry_words)
qed

text \<open>
  C34. On a well-formed tree whose root has a child, with less than \<open>2 ^ 31\<close> children and statistics at every
  node (beyond that the indices of the writer and the reader overflow), the profile is always written, and the
  planner's reader gets back exactly the regions within the profiled depth range, each with the IDs, the
  recursion target, the child set and every statistics record that the tree holds.
\<close>

theorem profile_write_read_roundtrip:
  assumes "tree_ok s" "rt_root s = Some r" "rt_nodes s r = Some topn" "pn_children topn = c # cs"
    and "\<forall>p n. rt_nodes s p = Some n \<longrightarrow> counts_small n"
  shows "\<exists>e. printProfiledData oor cfg True s = Some (Written e)
     \<and> readTrace (es_out e) = map (trace_entry oor (rt_nodes s)) (emitted cfg (preorder (rt_next s) (rt_nodes s) c 0))
     \<and> numCreated e = of_nat (length (readTrace (es_out e)))"
proof -
  let ?ps = "emitted cfg (preorder (rt_next s) (rt_nodes s) c 0)"
  have lok: "links_ok (links s) (rt_next s) (rt_root s)" using assms(1) by (simp add: tree_ok_def)
  from links_okD [OF lok, of r "link_of topn"] assms(3,4) have c: "rt_nodes s c \<noteq> None"
    by (auto simp: links_Some link_ok_def)
  from writeRegionStats_total [OF lok _ c, of "rt_next s" oor cfg 0 EmitState_zero] obtain e where
    e: "writeRegionStats oor cfg s (rt_next s) c 0 EmitState_zero = Some e"
      "es_out e = concat (map (node_words oor (rt_nodes s)) ?ps)" "numCreated e = of_nat (length ?ps)"
    using assms(5) by (auto simp: EmitState_zero_def)
  have dom: "rt_nodes s p \<noteq> None" if "p \<in> set ?ps" for p
    using preorder_in_heap [OF lok c] that by (auto simp: emitted_def)
  have "readTrace (es_out e) = map (trace_entry oor (rt_nodes s)) ?ps"
    unfolding readTrace_def e(2) by (rule readEntries_words) (use assms(5) dom in fastforce)+
  with e assms show ?thesis by (simp add: printProfiledData_def writeProgramStats_def rd_def)
qed


definition sample_node :: "UInt64 \<Rightarrow> SID \<Rightarrow> CID \<Rightarrow> ProfileNodeStats list \<Rightarrow> int \<Rightarrow> node_ptr option
    \<Rightarrow> node_ptr list \<Rightarrow> ProfileNode" where
  "sample_node i sid cid sts k par cs =
     \<lparr>pn_region_type = RegionFunc, pn_id = i, pn_static_id = sid, pn_callsite_id = cid,
      pn_num_instances = 0, pn_is_doall = 1, pn_node_type = NORMAL, pn_recursion = None,
      pn_stats = sts, pn_curr_stat_index = k, pn_parent = par, pn_children = cs\<rparr>"

definition sample_tree :: RegionTree where
  "sample_tree = the (openRegionContext True 7 1 RegionFunc (initRegionTree RegionTree_zero))"

lemma sample_tree_eq:
  "openRegionContext True 7 1 RegionFunc (initRegionTree RegionTree_zero) = Some sample_tree \<and>
   sample_tree = RegionTree_zero\<lparr>rt_nodes := [0 \<mapsto> sample_node 1 0 0 [] (- 1) None [Suc 0],
       Suc 0 \<mapsto> sample_node 2 7 1 [ProfileNodeStats_new] 0 (Some 0) []],
     rt_next := 2, rt_lastId := 2, rt_stack := [Suc 0], rt_root := Some 0, rt_curr := Some (Suc 0)\<rparr>"
  unfolding sample_tree_def
  by (simp add: openRegionContext_def initRegionTree_def RegionTree_zero_def ProfileNode_new_def
      allocId_def findOrCreateChild_def getChild_def addChild_def upd_node_def handleRecursion_def
      getAncestorWithSameStaticID_def find_ancestor.simps moveToNextStats_def next_stats_def
      enterChild_def pushOnRegionStack_def Let_def fun_upd_twist sample_node_def)

lemma sample_tree_nodes:
  "openRegionContext True 7 1 RegionFunc (initRegionTree RegionTree_zero) = Some sample_tree"
  "rt_root sample_tree = Some 0" "rt_next sample_tree = 2"
  "\<exists>n0 n1. rt_nodes sample_tree = [0 \<mapsto> n0, Suc 0 \<mapsto> n1] \<and> pn_children n0 = [Suc 0] \<and> pn_children n1 = []
     \<and> length (pn_stats n0) = 0 \<and> length (pn_stats n1) = 1 \<and> pn_id n1 = 2"
proof -
  note eq = sample_tree_eq [THEN conjunct2]
  show "openRegionContext True 7 1 RegionFunc (initRegionTree RegionTree_zero) = Some sample_tree"
    using sample_tree_eq by blast
  show "rt_root sample_tree = Some 0" "rt_next sample_tree = 2"
    by (simp_all add: eq RegionTree_zero_def)
  show "\<exists>n0 n1. rt_nodes sample_tree = [0 \<mapsto> n0, Suc 0 \<mapsto> n1] \<and> pn_children n0 = [Suc 0] \<and> pn_children n1 = []
     \<and> length (pn_stats n0) = 0 \<and> length (pn_stats n1) = 1 \<and> pn_id n1 = 2"
    by (rule exI [where x = "sample_node 1 0 0 [] (- 1) None [Suc 0]"],
        rule exI [where x = "sample_node 2 7 1 [ProfileNodeStats_new] 0 (Some 0) []"])
      (simp add: eq sample_node_def)
qed

theorem profile_write_read_roundtrip_witness:
  "\<exists>e. printProfiledData (\<lambda>_. 0) KremlinConfiguration_new True sample_tree = Some (Written e)
     \<and> map te_uid (readTrace (es_out e)) = [2]"
proof -
  obtain n0 n1 where n: "rt_nodes sample_tree = [0 \<mapsto> n0, Suc 0 \<mapsto> n1]" "pn_children n0 = [Suc 0]"
    "pn_children n1 = []" "length (pn_stats n0) = 0" "length (pn_stats n1) = 1" "pn_id n1 = 2"
    using sample_tree_nodes(4) by blast
  have ok: "tree_ok sample_tree"
    using openRegionContext_ok [OF tree_ok_init, of True 7 1 RegionFunc] sample_tree_nodes(1) by auto
  have sizes: "\<forall>p m. rt_nodes sample_tree p = Some m \<longrightarrow>
      counts_small m"
    unfolding counts_small_def using n by (auto split: if_splits)
  have top: "rt_nodes sample_tree 0 = Some n0" using n(1) by simp
  from profile_write_read_roundtrip [OF ok sample_tree_nodes(2) top n(2) sizes,
      of "\<lambda>_. 0" KremlinConfiguration_new] sample_tree_nodes(3)
  obtain e where e: "printProfiledData (\<lambda>_. 0) KremlinConfiguration_new True sample_tree = Some (Written e)"
    "readTrace (es_out e) = map (trace_entry (\<lambda>_. 0) (rt_nodes sample_tree))
       (emitted KremlinConfiguration_new (preorder 2 (rt_nodes sample_tree) (Suc 0) 0))" by auto
  have "preorder 2 (rt_nodes sample_tree) (Suc 0) 0 = [(Suc 0, 0)]"
    using n by (simp add: numeral_2_eq_2)
  with e n(1,6) show ?thesis
    by (simp add: emitted_def isEmittable_def KremlinConfiguration_new_def trace_entry_def Let_def)
qed

end
