(* ===== verification/ShadowInterface.thy ===== *)
theory ShadowInterface
  imports KPrelude
begin

text \<open>
  The interface \<open>MShadow\<close> (\<open>runtime/src/MShadow.h\<close>): what the profiler calls of a shadow memory.
  A virtual table is a record of the two operations on a state of any type; the version array is
  passed from the first profiled level on, and \<open>get\<close> returns the array of times its result points
  to.
\<close>

record 'm MShadow =
  mem_get :: "Addr \<Rightarrow> Index \<Rightarrow> Version list \<Rightarrow> UInt32 \<Rightarrow> 'm \<Rightarrow> (Time list \<times> 'm) option"
  mem_set :: "Addr \<Rightarrow> Index \<Rightarrow> Version list \<Rightarrow> Time list \<Rightarrow> UInt32 \<Rightarrow> 'm \<Rightarrow> 'm option"

text \<open>
  The contract. A shadow memory holds, for an access (address and width), a level and a version of
  that level, the time last stored under that version, or 0. Calls with \<open>n\<close> levels and versions
  \<open>vs\<close> keep what is stored under these versions; what was stored under other versions, or at deeper
  levels, belongs to regions that have ended, and may be dropped at any call. A memory may restrict
  the times it can hold (\<open>vals_ok\<close>).
\<close>

text \<open>
  A program of loads and stores with one array of versions, and what it loads: from the operations,
  and from an abstract memory that maps each slot to the times of the levels.
\<close>

datatype mem_op = Load Addr UInt32 | Store Addr UInt32 "Time list"

fun run_ops :: "'m MShadow \<Rightarrow> Index \<Rightarrow> Version list \<Rightarrow> mem_op list \<Rightarrow> 'm \<Rightarrow> (Time list list \<times> 'm) option" where
  "run_ops ms n vs [] m = Some ([], m)"
| "run_ops ms n vs (Load a sz # ops) m = do {
     (ts, m) \<leftarrow> mem_get ms a n vs sz m;
     (tss, m) \<leftarrow> run_ops ms n vs ops m;
     Some (take (unat n) ts # tss, m) }"
| "run_ops ms n vs (Store a sz ts # ops) m = do {
     m \<leftarrow> mem_set ms a n vs ts sz m;
     run_ops ms n vs ops m }"

fun spec_ops :: "(Addr \<Rightarrow> UInt32 \<Rightarrow> 'k) \<Rightarrow> nat \<Rightarrow> mem_op list \<Rightarrow> ('k \<Rightarrow> Time list) \<Rightarrow> Time list list" where
  "spec_ops slot n [] f = []"
| "spec_ops slot n (Load a sz # ops) f = f (slot a sz) # spec_ops slot n ops f"
| "spec_ops slot n (Store a sz ts # ops) f = spec_ops slot n ops (f(slot a sz := take n ts))"

fun op_ok ::
  "(Addr \<Rightarrow> Index \<Rightarrow> Version list \<Rightarrow> UInt32 \<Rightarrow> bool) \<Rightarrow> (Time list \<Rightarrow> bool) \<Rightarrow> Index \<Rightarrow> Version list \<Rightarrow> mem_op \<Rightarrow> bool"
where
  "op_ok args_ok vals_ok n vs (Load a sz) = args_ok a n vs sz"
| "op_ok args_ok vals_ok n vs (Store a sz ts) =
     (args_ok a n vs sz \<and> unat n \<le> length ts \<and> vals_ok (take (unat n) ts))"

definition levels_of :: "('m \<Rightarrow> 'k \<Rightarrow> nat \<Rightarrow> Version \<Rightarrow> Time) \<Rightarrow> 'm \<Rightarrow> Index \<Rightarrow> Version list \<Rightarrow> 'k \<Rightarrow> Time list" where
  "levels_of view m n vs k = map (\<lambda>i. view m k i (vs ! i)) [0..<unat n]"

locale shadow_memory =
  fixes get :: "Addr \<Rightarrow> Index \<Rightarrow> Version list \<Rightarrow> UInt32 \<Rightarrow> 'm \<Rightarrow> (Time list \<times> 'm) option"
    and set :: "Addr \<Rightarrow> Index \<Rightarrow> Version list \<Rightarrow> Time list \<Rightarrow> UInt32 \<Rightarrow> 'm \<Rightarrow> 'm option"
    and inv :: "'m \<Rightarrow> bool"
    and args_ok :: "Addr \<Rightarrow> Index \<Rightarrow> Version list \<Rightarrow> UInt32 \<Rightarrow> bool"
    and vals_ok :: "Time list \<Rightarrow> bool"
    and slot :: "Addr \<Rightarrow> UInt32 \<Rightarrow> 'k"
    and view :: "'m \<Rightarrow> 'k \<Rightarrow> nat \<Rightarrow> Version \<Rightarrow> Time"
  assumes get_ok: "inv m \<Longrightarrow> args_ok a n vs sz \<Longrightarrow>
      \<exists>ts m'. get a n vs sz m = Some (ts, m') \<and> inv m' \<and> unat n \<le> length ts
        \<and> (\<forall>i < unat n. ts ! i = view m (slot a sz) i (vs ! i))
        \<and> (\<forall>k i. i < unat n \<longrightarrow> view m' k i (vs ! i) = view m k i (vs ! i))"
    and set_ok: "inv m \<Longrightarrow> args_ok a n vs sz \<Longrightarrow> unat n \<le> length ts \<Longrightarrow> vals_ok (take (unat n) ts) \<Longrightarrow>
      \<exists>m'. set a n vs ts sz m = Some m' \<and> inv m'
        \<and> (\<forall>i < unat n. view m' (slot a sz) i (vs ! i) = ts ! i)
        \<and> (\<forall>k i. k \<noteq> slot a sz \<longrightarrow> i < unat n \<longrightarrow> view m' k i (vs ! i) = view m k i (vs ! i))"
begin

text \<open>What was stored is what is loaded under the same versions.\<close>

lemma get_after_set:
  assumes "inv m" "args_ok a n vs sz" "unat n \<le> length ts" "vals_ok (take (unat n) ts)"
  shows "\<exists>m1 ts' m2. set a n vs ts sz m = Some m1 \<and> get a n vs sz m1 = Some (ts', m2) \<and> inv m2
     \<and> unat n \<le> length ts' \<and> (\<forall>i < unat n. ts' ! i = ts ! i)"
proof -
  from set_ok [OF assms] obtain m1 where m1: "set a n vs ts sz m = Some m1" "inv m1"
    "\<forall>i < unat n. view m1 (slot a sz) i (vs ! i) = ts ! i" by blast
  from get_ok [OF m1(2) assms(2)] m1 show ?thesis by fastforce
qed

text \<open>Any program of loads and stores loads what the abstract memory says.\<close>

lemma levels_of_take:
  assumes "unat n \<le> length ts" "\<And>i. i < unat n \<Longrightarrow> ts ! i = view m k i (vs ! i)"
  shows "levels_of view m n vs k = take (unat n) ts"
  unfolding levels_of_def by (rule nth_equalityI) (use assms in auto)

lemma run_refines:
  assumes "inv m" "list_all (op_ok args_ok vals_ok n vs) ops"
  shows "\<exists>m'. run_ops \<lparr>mem_get = get, mem_set = set\<rparr> n vs ops m = Some (spec_ops slot (unat n) ops (levels_of view m n vs), m')
    \<and> inv m'"
  using assms
proof (induction ops arbitrary: m)
  case (Cons x ops)
  have rest: "list_all (op_ok args_ok vals_ok n vs) ops" using Cons.prems(2) by simp
  show ?case
  proof (cases x)
    case (Load a sz)
    then have "args_ok a n vs sz" using Cons.prems(2) by simp
    from get_ok [OF Cons.prems(1) this] obtain ts m1 where g: "get a n vs sz m = Some (ts, m1)" "inv m1"
      "unat n \<le> length ts" "\<forall>i < unat n. ts ! i = view m (slot a sz) i (vs ! i)"
      "\<forall>k i. i < unat n \<longrightarrow> view m1 k i (vs ! i) = view m k i (vs ! i)" by blast
    have same: "levels_of view m1 n vs = levels_of view m n vs" using g(5) by (auto simp: levels_of_def)
    have "levels_of view m n vs (slot a sz) = take (unat n) ts" by (rule levels_of_take) (use g(3,4) in auto)
    then show ?thesis using Cons.IH [OF g(2) rest] g(1) Load same by auto
  next
    case (Store a sz ts)
    then have ok: "args_ok a n vs sz" "unat n \<le> length ts" "vals_ok (take (unat n) ts)" using Cons.prems(2) by simp_all
    from set_ok [OF Cons.prems(1) ok] obtain m1 where s: "set a n vs ts sz m = Some m1" "inv m1"
      "\<forall>i < unat n. view m1 (slot a sz) i (vs ! i) = ts ! i"
      "\<forall>k i. k \<noteq> slot a sz \<longrightarrow> i < unat n \<longrightarrow> view m1 k i (vs ! i) = view m k i (vs ! i)" by blast
    have "levels_of view m1 n vs (slot a sz) = take (unat n) ts" by (rule levels_of_take) (use ok s(3) in auto)
    moreover have "levels_of view m1 n vs k = levels_of view m n vs k" if "k \<noteq> slot a sz" for k
      using s(4) that by (simp add: levels_of_def)
    ultimately have "levels_of view m1 n vs = (levels_of view m n vs)(slot a sz := take (unat n) ts)" by auto
    then show ?thesis using Cons.IH [OF s(2) rest] s(1) Store by (auto simp: fun_upd_def)
  qed
qed simp

text \<open>An access to another slot in between does not change it.\<close>

lemma get_after_set_other:
  assumes "inv m" "args_ok a n vs sz" "args_ok b n vs sz'" "slot b sz' \<noteq> slot a sz"
    and "unat n \<le> length ts" "unat n \<le> length us" "vals_ok (take (unat n) ts)" "vals_ok (take (unat n) us)"
  shows "\<exists>m1 m2 ts' m3. set a n vs ts sz m = Some m1 \<and> set b n vs us sz' m1 = Some m2
     \<and> get a n vs sz m2 = Some (ts', m3) \<and> (\<forall>i < unat n. ts' ! i = ts ! i)"
proof -
  from set_ok [OF assms(1,2,5,7)] obtain m1 where m1: "set a n vs ts sz m = Some m1" "inv m1"
    "\<forall>i < unat n. view m1 (slot a sz) i (vs ! i) = ts ! i" by blast
  from set_ok [OF m1(2) assms(3,6,8)] obtain m2 where m2: "set b n vs us sz' m1 = Some m2" "inv m2"
    "\<forall>k i. k \<noteq> slot b sz' \<longrightarrow> i < unat n \<longrightarrow> view m2 k i (vs ! i) = view m1 k i (vs ! i)" by blast
  from get_ok [OF m2(2) assms(2)] m1 m2 assms(4) show ?thesis by fastforce
qed

end

end
