(* ===== verification/Profiler.thy ===== *)
theory Profiler
  imports KTable RegionFile ShadowInterface
begin

text \<open>
  The state of \<open>KremlinProfiler\<close> and its small operations (\<open>KremlinProfiler.hpp\<close>,
  \<open>ProgramRegion.hpp\<close>, \<open>FunctionRegion.hpp\<close>, and the accessors in \<open>Handlers.cpp\<close> and
  \<open>kremlin.cpp\<close>). Tables are shared between a function region and \<open>shadow_reg_file\<close>, so they live
  in a heap and are referred to by number; \<open>cdt_current_base\<close> is an offset into the control
  dependence table's array. The call stack's head is its \<open>back()\<close>. The region tree and the
  configuration are globals of the program.
\<close>

section \<open>Program and function regions\<close>

record ProgramRegion =
  pr_version :: Version
  pr_regionId :: SID
  pr_regionType :: RegionType
  pr_start :: Time
  pr_cp :: Time
  pr_childrenWork :: Time
  pr_childrenCP :: Time
  pr_childMaxCP :: Time
  pr_childCount :: UInt64

definition ProgramRegion_new :: ProgramRegion where
  "ProgramRegion_new = \<lparr>pr_version = 0, pr_regionId = 0, pr_regionType = RegionFunc, pr_start = 0,
     pr_cp = 0, pr_childrenWork = 0, pr_childrenCP = 0, pr_childMaxCP = 0, pr_childCount = 0\<rparr>"

definition ProgramRegion_init :: "SID \<Rightarrow> RegionType \<Rightarrow> Level \<Rightarrow> Time \<Rightarrow> ProgramRegion \<Rightarrow> ProgramRegion" where
  "ProgramRegion_init sid rtype level start_time r =
     r\<lparr>pr_regionId := sid, pr_start := start_time, pr_cp := 0, pr_childrenWork := 0,
       pr_childrenCP := 0, pr_childMaxCP := 0, pr_childCount := 0, pr_regionType := rtype\<rparr>"

definition updateCriticalPathLength :: "Timestamp \<Rightarrow> ProgramRegion \<Rightarrow> ProgramRegion" where
  "updateCriticalPathLength value r = r\<lparr>pr_cp := (if value > pr_cp r then value else pr_cp r)\<rparr>"

type_synonym table_ptr = nat

record FunctionRegion =
  fr_return_register :: Reg
  fr_call_site_id :: CID
  fr_error_checking_code :: UInt32
  fr_table :: "table_ptr option"

definition FunctionRegion_new :: "CID \<Rightarrow> FunctionRegion" where
  "FunctionRegion_new callsite_id =
     \<lparr>fr_return_register = - 1, fr_call_site_id = callsite_id,
      fr_error_checking_code = 0xDEADBEEF, fr_table = None\<rparr>"

section \<open>The profiler\<close>

record 'm KremlinProfiler =
  enabled :: bool
  initialized :: bool
  curr_time :: Time
  curr_level :: Level
  min_level :: Level
  max_level :: Level
  max_active_level :: Level
  curr_num_instrumented_levels :: Index
  instrument_curr_level :: bool
  program_regions :: "ProgramRegion list"
  level_versions :: "Version list"
  level_times :: "Time list"
  nextVersion :: Version
  callstack :: "FunctionRegion list"
  last_callsite_id :: CID
  function_arg_queue :: "Reg list"
  arg_queue_read_index :: UInt32
  arg_queue_write_index :: UInt32
  waiting_for_register_table_init :: bool
  control_dependence_table :: "Table option"
  cdt_read_ptr :: int
  cdt_current_base :: "int option"
  doall_threshold :: UInt32
  tables :: "table_ptr \<rightharpoonup> Table"
  next_table :: table_ptr
  shadow_reg_file :: "table_ptr option"
  shadow_mem :: "'m option"
  region_tree :: RegionTree

definition LOAD_COST :: Time where "LOAD_COST = 4"

definition STORE_COST :: Time where "STORE_COST = 1"

definition arraySize :: nat where "arraySize = 512"

definition FUNC_ARG_QUEUE_SIZE :: nat where "FUNC_ARG_QUEUE_SIZE = 64"

definition CDEP_ROW :: int where "CDEP_ROW = 256"

definition CDEP_COL :: int where "CDEP_COL = 64"

definition INIT_NUM_REGIONS :: nat where "INIT_NUM_REGIONS = 64"

text \<open>
  The constructor leaves \<open>nextVersion\<close>, \<open>last_callsite_id\<close> and the indices of the argument queue
  uninitialised: their values are parameters. The arrays are allocated by \<open>init\<close>.
\<close>

definition KremlinProfiler_new ::
    "Version \<Rightarrow> CID \<Rightarrow> UInt32 \<Rightarrow> UInt32 \<Rightarrow> Level \<Rightarrow> Level \<Rightarrow> 'm KremlinProfiler" where
  "KremlinProfiler_new nv cid rdi wri mn mx =
     \<lparr>enabled = False, initialized = False, curr_time = 0, curr_level = - 1, min_level = mn,
      max_level = mx, max_active_level = 0, curr_num_instrumented_levels = 0,
      instrument_curr_level = False, program_regions = [], level_versions = [], level_times = [],
      nextVersion = nv, callstack = [], last_callsite_id = cid, function_arg_queue = [],
      arg_queue_read_index = rdi, arg_queue_write_index = wri,
      waiting_for_register_table_init = False, control_dependence_table = None,
      cdt_read_ptr = 0, cdt_current_base = None, doall_threshold = 5, tables = Map.empty,
      next_table = 0, shadow_reg_file = None, shadow_mem = None, region_tree = RegionTree_zero\<rparr>"

section \<open>Levels and program regions\<close>

definition getRegionAtLevel :: "Level \<Rightarrow> 'm KremlinProfiler \<Rightarrow> ProgramRegion option" where
  "getRegionAtLevel l p = rd (program_regions p) (int (unat l))"

definition setRegionAtLevel :: "Level \<Rightarrow> ProgramRegion \<Rightarrow> 'm KremlinProfiler \<Rightarrow> 'm KremlinProfiler option" where
  "setRegionAtLevel l r p = do {
     rs \<leftarrow> wr (program_regions p) (int (unat l)) r;
     Some (p\<lparr>program_regions := rs\<rparr>) }"

definition increaseNumRegions :: "nat \<Rightarrow> 'm KremlinProfiler \<Rightarrow> 'm KremlinProfiler" where
  "increaseNumRegions num_new p = p\<lparr>program_regions := program_regions p @ replicate num_new ProgramRegion_new\<rparr>"

definition doubleNumRegions :: "'m KremlinProfiler \<Rightarrow> 'm KremlinProfiler" where
  "doubleNumRegions p = increaseNumRegions (length (program_regions p)) p"

definition initVersionArray :: "'m KremlinProfiler \<Rightarrow> 'm KremlinProfiler" where
  "initVersionArray p = p\<lparr>level_versions := replicate arraySize 0\<rparr>"

definition initTimeArray :: "'m KremlinProfiler \<Rightarrow> 'm KremlinProfiler" where
  "initTimeArray p = p\<lparr>level_times := replicate arraySize 0\<rparr>"

definition initProgramRegions :: "nat \<Rightarrow> 'm KremlinProfiler \<Rightarrow> 'm KremlinProfiler" where
  "initProgramRegions n p = initTimeArray (initVersionArray (increaseNumRegions n p))"

definition deinitProgramRegions :: "'m KremlinProfiler \<Rightarrow> 'm KremlinProfiler" where
  "deinitProgramRegions p = p\<lparr>program_regions := []\<rparr>"

definition issueVersionToLevel :: "Level \<Rightarrow> 'm KremlinProfiler \<Rightarrow> 'm KremlinProfiler option" where
  "issueVersionToLevel level p = do {
     vs \<leftarrow> wr (level_versions p) (int (unat level)) (nextVersion p);
     Some (p\<lparr>level_versions := vs, nextVersion := nextVersion p + 1\<rparr>) }"

text \<open>A pointer into the version array stands for the rest of the array from there.\<close>

definition getVersionAtLevel :: "Level \<Rightarrow> 'm KremlinProfiler \<Rightarrow> Version list" where
  "getVersionAtLevel level p = drop (unat level) (level_versions p)"

definition getCurrentLevelIndex :: "'m KremlinProfiler \<Rightarrow> Level" where
  "getCurrentLevelIndex p = curr_level p - min_level p"

definition getLevelForIndex :: "Index \<Rightarrow> 'm KremlinProfiler \<Rightarrow> Level" where
  "getLevelForIndex index p = min_level p + index"

definition updateCurrLevelInstrumentableStatus :: "'m KremlinProfiler \<Rightarrow> 'm KremlinProfiler" where
  "updateCurrLevelInstrumentableStatus p =
     p\<lparr>instrument_curr_level := (curr_level p \<ge> min_level p \<and> curr_level p \<le> max_level p)\<rparr>"

definition updateCurrNumInstrumentedLevels :: "'m KremlinProfiler \<Rightarrow> 'm KremlinProfiler" where
  "updateCurrNumInstrumentedLevels p =
     p\<lparr>curr_num_instrumented_levels :=
        (if curr_level p < min_level p then 0
         else (if max_level p < curr_level p then max_level p else curr_level p) - min_level p + 1)\<rparr>"

definition incrementLevel :: "'m KremlinProfiler \<Rightarrow> 'm KremlinProfiler" where
  "incrementLevel p =
     (let p = p\<lparr>curr_level := curr_level p + 1\<rparr>;
          p = updateCurrLevelInstrumentableStatus p;
          p = updateCurrNumInstrumentedLevels p
      in if curr_level p > max_active_level p then p\<lparr>max_active_level := curr_level p\<rparr> else p)"

definition decrementLevel :: "'m KremlinProfiler \<Rightarrow> 'm KremlinProfiler" where
  "decrementLevel p =
     (let p = p\<lparr>curr_level := curr_level p - 1\<rparr>;
          p = updateCurrLevelInstrumentableStatus p
      in updateCurrNumInstrumentedLevels p)"

definition increaseTime :: "UInt32 \<Rightarrow> 'm KremlinProfiler \<Rightarrow> 'm KremlinProfiler" where
  "increaseTime amount p = p\<lparr>curr_time := curr_time p + ucast amount\<rparr>"

section \<open>The table heap and the shadow register file\<close>

definition new_table :: "int \<Rightarrow> int \<Rightarrow> 'm KremlinProfiler \<Rightarrow> (table_ptr \<times> 'm KremlinProfiler) option" where
  "new_table r c p = do {
     t \<leftarrow> Table_new r c;
     let a = next_table p;
     Some (a, p\<lparr>tables := (tables p)(a \<mapsto> t), next_table := Suc a\<rparr>) }"

definition get_table :: "table_ptr option \<Rightarrow> 'm KremlinProfiler \<Rightarrow> Table option" where
  "get_table a p = do { a \<leftarrow> a; tables p a }"

definition put_table :: "table_ptr option \<Rightarrow> Table \<Rightarrow> 'm KremlinProfiler \<Rightarrow> 'm KremlinProfiler option" where
  "put_table a t p = do {
     a \<leftarrow> a;
     _ \<leftarrow> tables p a;
     Some (p\<lparr>tables := (tables p)(a \<mapsto> t)\<rparr>) }"

definition getRegisterTimeAtIndex :: "Reg \<Rightarrow> Index \<Rightarrow> 'm KremlinProfiler \<Rightarrow> Time option" where
  "getRegisterTimeAtIndex reg index p = do {
     t \<leftarrow> get_table (shadow_reg_file p) p;
     getValue t (to_int reg) (to_int index) }"

definition setRegisterTimeAtIndex :: "Time \<Rightarrow> Reg \<Rightarrow> Index \<Rightarrow> 'm KremlinProfiler \<Rightarrow> 'm KremlinProfiler option" where
  "setRegisterTimeAtIndex time reg index p = do {
     t \<leftarrow> get_table (shadow_reg_file p) p;
     t \<leftarrow> setValue t time (to_int reg) (to_int index);
     put_table (shadow_reg_file p) t p }"

definition getCurrNumShadowRegisters :: "'m KremlinProfiler \<Rightarrow> UInt32 option" where
  "getCurrNumShadowRegisters p = do {
     t \<leftarrow> get_table (shadow_reg_file p) p;
     Some (word_of_int (row t)) }"

definition zeroRegistersAtIndex :: "Index \<Rightarrow> 'm KremlinProfiler \<Rightarrow> 'm KremlinProfiler option" where
  "zeroRegistersAtIndex index p = do {
     n \<leftarrow> getCurrNumShadowRegisters p;
     for_range 0 (unat n) (\<lambda>i. setRegisterTimeAtIndex 0 (of_nat i) index) p }"

section \<open>The call stack\<close>

definition addFunctionToStack :: "CID \<Rightarrow> 'm KremlinProfiler \<Rightarrow> 'm KremlinProfiler" where
  "addFunctionToStack callsite_id p = p\<lparr>callstack := FunctionRegion_new callsite_id # callstack p\<rparr>"

text \<open>The destructor of the popped function region deletes its table.\<close>

definition callstackPop :: "'m KremlinProfiler \<Rightarrow> 'm KremlinProfiler option" where
  "callstackPop p = (case callstack p of
     [] \<Rightarrow> None
   | f # fs \<Rightarrow> Some (p\<lparr>callstack := fs,
        tables := (case fr_table f of None \<Rightarrow> tables p | Some a \<Rightarrow> (tables p)(a := None))\<rparr>))"

definition getCurrentFunction :: "'m KremlinProfiler \<Rightarrow> FunctionRegion option" where
  "getCurrentFunction p = (case callstack p of [] \<Rightarrow> None | f # fs \<Rightarrow> Some f)"

text \<open>
  The caller, a null pointer (\<open>Some None\<close>) for the root function; with an empty call stack the
  index \<open>size() - 2\<close> is out of bounds.
\<close>

definition getCallingFunction :: "'m KremlinProfiler \<Rightarrow> FunctionRegion option option" where
  "getCallingFunction p = (case callstack p of
     [] \<Rightarrow> None | [f] \<Rightarrow> Some None | f # g # fs \<Rightarrow> Some (Some g))"

section \<open>The argument queue\<close>

definition clearFunctionArgQueue :: "'m KremlinProfiler \<Rightarrow> 'm KremlinProfiler" where
  "clearFunctionArgQueue p = p\<lparr>arg_queue_read_index := 0, arg_queue_write_index := 0\<rparr>"

definition initFunctionArgQueue :: "'m KremlinProfiler \<Rightarrow> 'm KremlinProfiler" where
  "initFunctionArgQueue p =
     (let q = function_arg_queue p
      in clearFunctionArgQueue (p\<lparr>function_arg_queue :=
           take FUNC_ARG_QUEUE_SIZE q @ replicate (FUNC_ARG_QUEUE_SIZE - length q) (- 1)\<rparr>))"

definition functionArgQueuePushBack :: "Reg \<Rightarrow> 'm KremlinProfiler \<Rightarrow> 'm KremlinProfiler option" where
  "functionArgQueuePushBack src p = do {
     q \<leftarrow> wr (function_arg_queue p) (int (unat (arg_queue_write_index p))) src;
     Some (p\<lparr>function_arg_queue := q, arg_queue_write_index := arg_queue_write_index p + 1\<rparr>) }"

definition functionArgQueuePopFront :: "'m KremlinProfiler \<Rightarrow> (Reg \<times> 'm KremlinProfiler) option" where
  "functionArgQueuePopFront p = do {
     r \<leftarrow> rd (function_arg_queue p) (int (unat (arg_queue_read_index p)));
     Some (r, p\<lparr>arg_queue_read_index := arg_queue_read_index p + 1\<rparr>) }"

section \<open>Control dependences\<close>

definition initControlDependences :: "'m KremlinProfiler \<Rightarrow> 'm KremlinProfiler option" where
  "initControlDependences p = do {
     t \<leftarrow> Table_new CDEP_ROW CDEP_COL;
     Some (p\<lparr>cdt_read_ptr := 0, control_dependence_table := Some t\<rparr>) }"

definition deinitControlDependences :: "'m KremlinProfiler \<Rightarrow> 'm KremlinProfiler" where
  "deinitControlDependences p = p\<lparr>control_dependence_table := None\<rparr>"

definition getControlDependenceAtIndex :: "Index \<Rightarrow> 'm KremlinProfiler \<Rightarrow> Time option" where
  "getControlDependenceAtIndex index p = do {
     t \<leftarrow> control_dependence_table p;
     b \<leftarrow> cdt_current_base p;
     rd (array t) (b + int (unat index)) }"

definition initRegionControlDependences :: "Index \<Rightarrow> 'm KremlinProfiler \<Rightarrow> 'm KremlinProfiler option" where
  "initRegionControlDependences index p = do {
     t \<leftarrow> control_dependence_table p;
     t \<leftarrow> setValue t 0 (cdt_read_ptr p) (to_int index);
     Some (p\<lparr>control_dependence_table := Some t,
             cdt_current_base := Some (getElementAddr t (cdt_read_ptr p) 0)\<rparr>) }"

end
