(* ===== verification/TimestampUpdate.thy ===== *)
theory TimestampUpdate
  imports Profiler
begin

text \<open>
  The timestamp updates of \<open>runtime/src/Handlers.cpp\<close>: \<open>timestampUpdater\<close>,
  \<open>handleVariableNumArgs\<close> and \<open>timestampUpdaterStore\<close>, whose template parameters are arguments
  here, and the instruction handlers that instantiate them. A variable argument list is the list
  of the values passed; reading past its end is undefined.
\<close>

section \<open>timestampUpdater\<close>

definition calcMaxTime ::
    "nat \<Rightarrow> nat \<Rightarrow> bool \<Rightarrow> Time \<Rightarrow> UInt32 \<Rightarrow> UInt32 \<Rightarrow> Level \<Rightarrow> 'm KremlinProfiler \<Rightarrow> Time option" where
  "calcMaxTime num_data_deps data_dep ignore_offset cur reg offset l p =
     (if num_data_deps > data_dep
      then do {
        dep_time \<leftarrow> getRegisterTimeAtIndex reg l p;
        let dep_time = (if ignore_offset then dep_time else dep_time + ucast offset);
        Some (if cur > dep_time then cur else dep_time) }
      else Some cur)"

text \<open>The source registers with their offsets; an omitted argument has the default value 0.\<close>

type_synonym srcs = "(UInt32 \<times> UInt32) list"

definition src_arg :: "srcs \<Rightarrow> nat \<Rightarrow> UInt32 \<times> UInt32" where
  "src_arg srcs k = (if k < length srcs then srcs ! k else (0, 0))"

definition timestampUpdater_step ::
    "bool \<Rightarrow> bool \<Rightarrow> nat \<Rightarrow> bool \<Rightarrow> UInt32 \<Rightarrow> srcs \<Rightarrow> Time list \<Rightarrow> nat \<Rightarrow> 'm KremlinProfiler
     \<Rightarrow> 'm KremlinProfiler option" where
  "timestampUpdater_step use_ctrl update_cp nd use_mem dest_reg srcs src_addr_times k p = do {
     let index = of_nat k;
     let i = getLevelForIndex index p;
     region \<leftarrow> getRegionAtLevel i p;
     dest_time \<leftarrow> (if use_ctrl then getControlDependenceAtIndex index p else Some 0);
     dest_time \<leftarrow> (if use_mem
        then do { t \<leftarrow> rd src_addr_times (int k); Some (if dest_time > t then dest_time else t) }
        else Some dest_time);
     dest_time \<leftarrow> calcMaxTime nd 0 use_mem dest_time (fst (src_arg srcs 0)) (snd (src_arg srcs 0)) index p;
     dest_time \<leftarrow> calcMaxTime nd 1 use_mem dest_time (fst (src_arg srcs 1)) (snd (src_arg srcs 1)) index p;
     dest_time \<leftarrow> calcMaxTime nd 2 use_mem dest_time (fst (src_arg srcs 2)) (snd (src_arg srcs 2)) index p;
     dest_time \<leftarrow> calcMaxTime nd 3 use_mem dest_time (fst (src_arg srcs 3)) (snd (src_arg srcs 3)) index p;
     dest_time \<leftarrow> calcMaxTime nd 4 use_mem dest_time (fst (src_arg srcs 4)) (snd (src_arg srcs 4)) index p;
     let dest_time = (if use_mem then dest_time + LOAD_COST else dest_time);
     p \<leftarrow> setRegisterTimeAtIndex dest_time dest_reg index p;
     (if update_cp then setRegionAtLevel i (updateCriticalPathLength dest_time region) p else Some p) }"

definition timestampUpdater ::
    "'m MShadow \<Rightarrow> bool \<Rightarrow> bool \<Rightarrow> nat \<Rightarrow> bool \<Rightarrow> UInt32 \<Rightarrow> srcs \<Rightarrow> Addr \<Rightarrow> UInt32
     \<Rightarrow> 'm KremlinProfiler \<Rightarrow> 'm KremlinProfiler option" where
  "timestampUpdater ms use_ctrl update_cp nd use_mem dest_reg srcs src_addr mem_access_size p = do {
     let end_index = curr_num_instrumented_levels p;
     (src_addr_times, p) \<leftarrow>
       (if use_mem
        then do {
          m \<leftarrow> shadow_mem p;
          (ts, m) \<leftarrow> mem_get ms src_addr end_index
             (getVersionAtLevel (getLevelForIndex 0 p) p) mem_access_size m;
          Some (ts, p\<lparr>shadow_mem := Some m\<rparr>) }
        else Some ([], p));
     for_range 0 (unat end_index)
       (timestampUpdater_step use_ctrl update_cp nd use_mem dest_reg srcs src_addr_times) p }"

section \<open>handleVariableNumArgs\<close>

text \<open>
  The two local arrays of five registers and offsets; an element that was not assigned is
  uninitialised (\<open>None\<close>), and passing it to \<open>timestampUpdater\<close> is undefined.
\<close>

record VarArgs =
  va_regs :: "UInt32 option list"
  va_offsets :: "UInt32 option list"

definition va_srcs :: "VarArgs \<Rightarrow> srcs option" where
  "va_srcs v = do {
     rs \<leftarrow> those (va_regs v);
     os \<leftarrow> those (va_offsets v);
     Some (zip rs os) }"

definition va_init :: "bool \<Rightarrow> bool \<Rightarrow> nat \<Rightarrow> VarArgs" where
  "va_init use_src_reg use_offsets num_var_args =
     \<lparr>va_regs = replicate 5 (if use_src_reg \<and> num_var_args = 0 then Some 0 else None),
      va_offsets = replicate 5 (if use_offsets then None else Some 0)\<rparr>"

text \<open>One turn of the loop over the variable arguments, after the argument has been read.\<close>

definition va_put :: "bool \<Rightarrow> nat \<Rightarrow> UInt32 \<Rightarrow> UInt32 \<Rightarrow> VarArgs \<Rightarrow> VarArgs" where
  "va_put use_offsets index reg offset v =
     (let v = v\<lparr>va_regs := (va_regs v)[index := Some reg]\<rparr>;
          v = (if use_offsets then v\<lparr>va_offsets := (va_offsets v)[index := Some offset]\<rparr> else v)
      in if index = 0
         then (let v = v\<lparr>va_regs := replicate 5 (Some reg)\<rparr>
               in if use_offsets then v\<lparr>va_offsets := replicate 5 (Some offset)\<rparr> else v)
         else v)"

fun va_loop ::
    "(srcs \<Rightarrow> 'm KremlinProfiler \<Rightarrow> 'm KremlinProfiler option) \<Rightarrow> bool \<Rightarrow> nat \<Rightarrow> nat \<Rightarrow> UInt32 list
     \<Rightarrow> VarArgs \<Rightarrow> 'm KremlinProfiler \<Rightarrow> (VarArgs \<times> 'm KremlinProfiler) option" where
  "va_loop upd use_offsets arg_idx 0 args v p = Some (v, p)"
| "va_loop upd use_offsets arg_idx (Suc k) args v p = (
     let index = arg_idx mod 5
     in case (use_offsets, args) of
          (False, r # args') \<Rightarrow> do {
            let v = va_put False index r 0 v;
            p \<leftarrow> (if index = 4 then va_srcs v \<bind> (\<lambda>s. upd s p) else Some p);
            va_loop upd use_offsets (Suc arg_idx) k args' v p }
        | (True, r # off # args') \<Rightarrow> do {
            let v = va_put True index r off v;
            p \<leftarrow> (if index = 4 then va_srcs v \<bind> (\<lambda>s. upd s p) else Some p);
            va_loop upd use_offsets (Suc arg_idx) k args' v p }
        | _ \<Rightarrow> None)"

definition handleVariableNumArgs ::
    "'m MShadow \<Rightarrow> bool \<Rightarrow> bool \<Rightarrow> bool \<Rightarrow> bool \<Rightarrow> bool \<Rightarrow> UInt32 \<Rightarrow> UInt32 \<Rightarrow> Addr \<Rightarrow> UInt32 \<Rightarrow> UInt32
     \<Rightarrow> UInt32 list \<Rightarrow> 'm KremlinProfiler \<Rightarrow> 'm KremlinProfiler option" where
  "handleVariableNumArgs ms use_ctrl update_cp use_src_reg use_offsets use_mem dest_reg src_reg
       mem_dependency_addr mem_access_size num_var_args arg_list p = do {
     let upd = (\<lambda>srcs. timestampUpdater ms use_ctrl update_cp 5 use_mem dest_reg srcs
                         mem_dependency_addr mem_access_size);
     let n = unat num_var_args;
     (v, p) \<leftarrow> va_loop upd use_offsets 0 n arg_list (va_init use_src_reg use_offsets n) p;
     let v = (if use_src_reg then v\<lparr>va_regs := (va_regs v)[n mod 5 := Some src_reg]\<rparr> else v);
     (if n mod 5 \<noteq> 0 \<or> use_src_reg then va_srcs v \<bind> (\<lambda>s. upd s p) else Some p) }"

section \<open>timestampUpdaterStore\<close>

definition timestampUpdaterStore_step ::
    "bool \<Rightarrow> Reg \<Rightarrow> nat \<Rightarrow> 'm KremlinProfiler \<Rightarrow> 'm KremlinProfiler option" where
  "timestampUpdaterStore_step store_const src_reg k p = do {
     let index = of_nat k;
     let i = getLevelForIndex index p;
     region \<leftarrow> getRegionAtLevel i p;
     control_dep_time \<leftarrow> getControlDependenceAtIndex index p;
     dest_time \<leftarrow> (if store_const then Some (control_dep_time + STORE_COST)
        else do {
          src_time \<leftarrow> getRegisterTimeAtIndex src_reg index p;
          Some ((if control_dep_time > src_time then control_dep_time else src_time) + STORE_COST) });
     lt \<leftarrow> wr (level_times p) (int k) dest_time;
     let p = p\<lparr>level_times := lt\<rparr>;
     setRegionAtLevel i (updateCriticalPathLength dest_time region) p }"

definition timestampUpdaterStore ::
    "'m MShadow \<Rightarrow> bool \<Rightarrow> Addr \<Rightarrow> UInt32 \<Rightarrow> Reg \<Rightarrow> 'm KremlinProfiler \<Rightarrow> 'm KremlinProfiler option" where
  "timestampUpdaterStore ms store_const dest_addr mem_access_size src_reg p = do {
     let end_index = curr_num_instrumented_levels p;
     p \<leftarrow> for_range 0 (unat end_index) (timestampUpdaterStore_step store_const src_reg) p;
     m \<leftarrow> shadow_mem p;
     m \<leftarrow> mem_set ms dest_addr end_index (getVersionAtLevel (getLevelForIndex 0 p) p)
            (level_times p) mem_access_size m;
     Some (p\<lparr>shadow_mem := Some m\<rparr>) }"

section \<open>The instruction handlers\<close>

text \<open>Every handler does nothing while the profiler is disabled.\<close>

definition when_enabled ::
    "('m KremlinProfiler \<Rightarrow> 'm KremlinProfiler option) \<Rightarrow> 'm KremlinProfiler \<Rightarrow> 'm KremlinProfiler option" where
  "when_enabled f p = (if enabled p then f p else Some p)"

definition handleAssignConst :: "'m MShadow \<Rightarrow> UInt \<Rightarrow> 'm KremlinProfiler \<Rightarrow> 'm KremlinProfiler option" where
  "handleAssignConst ms dest_reg =
     when_enabled (timestampUpdater ms True True 0 False dest_reg [] 0 0)"

definition handleInduction :: "'m MShadow \<Rightarrow> UInt \<Rightarrow> 'm KremlinProfiler \<Rightarrow> 'm KremlinProfiler option" where
  "handleInduction ms dest_reg =
     when_enabled (timestampUpdater ms True True 0 False dest_reg [] 0 0)"

definition handleReduction :: "UInt \<Rightarrow> Reg \<Rightarrow> 'm KremlinProfiler \<Rightarrow> 'm KremlinProfiler option" where
  "handleReduction op_cost dest_reg p =
     (if \<not> enabled p \<or> \<not> instrument_curr_level p then Some p else Some p)"

definition handleTimestamp ::
    "'m MShadow \<Rightarrow> UInt32 \<Rightarrow> UInt32 \<Rightarrow> UInt32 list \<Rightarrow> 'm KremlinProfiler \<Rightarrow> 'm KremlinProfiler option" where
  "handleTimestamp ms dest_reg num_srcs args =
     when_enabled (handleVariableNumArgs ms True True False True False dest_reg 0 0 0 num_srcs args)"

definition handleTimestamp0 :: "'m MShadow \<Rightarrow> UInt32 \<Rightarrow> 'm KremlinProfiler \<Rightarrow> 'm KremlinProfiler option" where
  "handleTimestamp0 ms dest_reg =
     when_enabled (timestampUpdater ms True True 0 False dest_reg [] 0 0)"

definition handleTimestamp1 ::
    "'m MShadow \<Rightarrow> UInt32 \<Rightarrow> UInt32 \<times> UInt32 \<Rightarrow> 'm KremlinProfiler \<Rightarrow> 'm KremlinProfiler option" where
  "handleTimestamp1 ms dest_reg s1 =
     when_enabled (timestampUpdater ms True True 1 False dest_reg [s1] 0 0)"

definition handleTimestamp2 ::
    "'m MShadow \<Rightarrow> UInt32 \<Rightarrow> UInt32 \<times> UInt32 \<Rightarrow> UInt32 \<times> UInt32 \<Rightarrow> 'm KremlinProfiler
     \<Rightarrow> 'm KremlinProfiler option" where
  "handleTimestamp2 ms dest_reg s1 s2 =
     when_enabled (timestampUpdater ms True True 2 False dest_reg [s1, s2] 0 0)"

definition handleTimestamp3 ::
    "'m MShadow \<Rightarrow> UInt32 \<Rightarrow> UInt32 \<times> UInt32 \<Rightarrow> UInt32 \<times> UInt32 \<Rightarrow> UInt32 \<times> UInt32 \<Rightarrow> 'm KremlinProfiler
     \<Rightarrow> 'm KremlinProfiler option" where
  "handleTimestamp3 ms dest_reg s1 s2 s3 =
     when_enabled (timestampUpdater ms True True 3 False dest_reg [s1, s2, s3] 0 0)"

definition handleTimestamp4 ::
    "'m MShadow \<Rightarrow> UInt32 \<Rightarrow> UInt32 \<times> UInt32 \<Rightarrow> UInt32 \<times> UInt32 \<Rightarrow> UInt32 \<times> UInt32 \<Rightarrow> UInt32 \<times> UInt32
     \<Rightarrow> 'm KremlinProfiler \<Rightarrow> 'm KremlinProfiler option" where
  "handleTimestamp4 ms dest_reg s1 s2 s3 s4 =
     when_enabled (timestampUpdater ms True True 4 False dest_reg [s1, s2, s3, s4] 0 0)"

definition handleTimestamp5 ::
    "'m MShadow \<Rightarrow> UInt32 \<Rightarrow> UInt32 \<times> UInt32 \<Rightarrow> UInt32 \<times> UInt32 \<Rightarrow> UInt32 \<times> UInt32 \<Rightarrow> UInt32 \<times> UInt32
     \<Rightarrow> UInt32 \<times> UInt32 \<Rightarrow> 'm KremlinProfiler \<Rightarrow> 'm KremlinProfiler option" where
  "handleTimestamp5 ms dest_reg s1 s2 s3 s4 s5 =
     when_enabled (timestampUpdater ms True True 5 False dest_reg [s1, s2, s3, s4, s5] 0 0)"

definition handleTimestamp6 ::
    "'m MShadow \<Rightarrow> UInt32 \<Rightarrow> UInt32 \<times> UInt32 \<Rightarrow> UInt32 \<times> UInt32 \<Rightarrow> UInt32 \<times> UInt32 \<Rightarrow> UInt32 \<times> UInt32
     \<Rightarrow> UInt32 \<times> UInt32 \<Rightarrow> UInt32 \<times> UInt32 \<Rightarrow> 'm KremlinProfiler \<Rightarrow> 'm KremlinProfiler option" where
  "handleTimestamp6 ms dest_reg s1 s2 s3 s4 s5 s6 = when_enabled (\<lambda>p. do {
     p \<leftarrow> timestampUpdater ms True False 5 False dest_reg [s1, s2, s3, s4, s5] 0 0 p;
     timestampUpdater ms False True 2 False dest_reg [(dest_reg, 0), s6] 0 0 p })"

definition handleTimestamp7 ::
    "'m MShadow \<Rightarrow> UInt32 \<Rightarrow> UInt32 \<times> UInt32 \<Rightarrow> UInt32 \<times> UInt32 \<Rightarrow> UInt32 \<times> UInt32 \<Rightarrow> UInt32 \<times> UInt32
     \<Rightarrow> UInt32 \<times> UInt32 \<Rightarrow> UInt32 \<times> UInt32 \<Rightarrow> UInt32 \<times> UInt32 \<Rightarrow> 'm KremlinProfiler \<Rightarrow> 'm KremlinProfiler option" where
  "handleTimestamp7 ms dest_reg s1 s2 s3 s4 s5 s6 s7 = when_enabled (\<lambda>p. do {
     p \<leftarrow> timestampUpdater ms True False 5 False dest_reg [s1, s2, s3, s4, s5] 0 0 p;
     timestampUpdater ms False True 3 False dest_reg [(dest_reg, 0), s6, s7] 0 0 p })"

definition handleLoad ::
    "'m MShadow \<Rightarrow> Addr \<Rightarrow> Reg \<Rightarrow> UInt32 \<Rightarrow> UInt32 \<Rightarrow> UInt32 list \<Rightarrow> 'm KremlinProfiler
     \<Rightarrow> 'm KremlinProfiler option" where
  "handleLoad ms src_addr dest_reg mem_access_size num_srcs args =
     when_enabled (handleVariableNumArgs ms True True False False True dest_reg 0 src_addr
                     mem_access_size num_srcs args)"

definition handleLoad0 ::
    "'m MShadow \<Rightarrow> Addr \<Rightarrow> Reg \<Rightarrow> UInt32 \<Rightarrow> 'm KremlinProfiler \<Rightarrow> 'm KremlinProfiler option" where
  "handleLoad0 ms src_addr dest_reg mem_access_size =
     when_enabled (timestampUpdater ms True True 0 True dest_reg [] src_addr mem_access_size)"

definition handleLoad1 ::
    "'m MShadow \<Rightarrow> Addr \<Rightarrow> Reg \<Rightarrow> Reg \<Rightarrow> UInt32 \<Rightarrow> 'm KremlinProfiler \<Rightarrow> 'm KremlinProfiler option" where
  "handleLoad1 ms src_addr dest_reg src_reg mem_access_size =
     when_enabled (timestampUpdater ms True True 1 True dest_reg [(src_reg, 0)] src_addr mem_access_size)"

definition handleStore ::
    "'m MShadow \<Rightarrow> Reg \<Rightarrow> Addr \<Rightarrow> UInt32 \<Rightarrow> 'm KremlinProfiler \<Rightarrow> 'm KremlinProfiler option" where
  "handleStore ms src_reg dest_addr mem_access_size =
     when_enabled (timestampUpdaterStore ms False dest_addr mem_access_size src_reg)"

definition handleStoreConst ::
    "'m MShadow \<Rightarrow> Addr \<Rightarrow> UInt32 \<Rightarrow> 'm KremlinProfiler \<Rightarrow> 'm KremlinProfiler option" where
  "handleStoreConst ms dest_addr mem_access_size =
     when_enabled (timestampUpdaterStore ms True dest_addr mem_access_size 0)"

definition handlePhi ::
    "'m MShadow \<Rightarrow> Reg \<Rightarrow> Reg \<Rightarrow> UInt32 \<Rightarrow> UInt32 list \<Rightarrow> 'm KremlinProfiler \<Rightarrow> 'm KremlinProfiler option" where
  "handlePhi ms dest_reg src_reg num_ctrls args = when_enabled
     (if num_ctrls > 0
      then handleVariableNumArgs ms False False True False False dest_reg src_reg 0 0 num_ctrls args
      else timestampUpdater ms True True 1 False dest_reg [(src_reg, 0)] 0 0)"

definition handlePhi1To1 ::
    "'m MShadow \<Rightarrow> Reg \<Rightarrow> Reg \<Rightarrow> Reg \<Rightarrow> 'm KremlinProfiler \<Rightarrow> 'm KremlinProfiler option" where
  "handlePhi1To1 ms dest_reg src_reg ctrl = when_enabled
     (timestampUpdater ms False False 2 False dest_reg [(src_reg, 0), (ctrl, 0)] 0 0)"

definition handlePhi2To1 ::
    "'m MShadow \<Rightarrow> Reg \<Rightarrow> Reg \<Rightarrow> Reg \<Rightarrow> Reg \<Rightarrow> 'm KremlinProfiler \<Rightarrow> 'm KremlinProfiler option" where
  "handlePhi2To1 ms dest_reg src_reg ctrl1 ctrl2 = when_enabled
     (timestampUpdater ms False False 3 False dest_reg [(src_reg, 0), (ctrl1, 0), (ctrl2, 0)] 0 0)"

definition handlePhi3To1 ::
    "'m MShadow \<Rightarrow> Reg \<Rightarrow> Reg \<Rightarrow> Reg \<Rightarrow> Reg \<Rightarrow> Reg \<Rightarrow> 'm KremlinProfiler \<Rightarrow> 'm KremlinProfiler option" where
  "handlePhi3To1 ms dest_reg src_reg ctrl1 ctrl2 ctrl3 = when_enabled
     (timestampUpdater ms False False 4 False dest_reg
        [(src_reg, 0), (ctrl1, 0), (ctrl2, 0), (ctrl3, 0)] 0 0)"

definition handlePhi4To1 ::
    "'m MShadow \<Rightarrow> Reg \<Rightarrow> Reg \<Rightarrow> Reg \<Rightarrow> Reg \<Rightarrow> Reg \<Rightarrow> Reg \<Rightarrow> 'm KremlinProfiler \<Rightarrow> 'm KremlinProfiler option" where
  "handlePhi4To1 ms dest_reg src_reg ctrl1 ctrl2 ctrl3 ctrl4 = when_enabled
     (timestampUpdater ms False False 5 False dest_reg
        [(src_reg, 0), (ctrl1, 0), (ctrl2, 0), (ctrl3, 0), (ctrl4, 0)] 0 0)"

definition handlePhiCond4To1 ::
    "'m MShadow \<Rightarrow> Reg \<Rightarrow> Reg \<Rightarrow> Reg \<Rightarrow> Reg \<Rightarrow> Reg \<Rightarrow> 'm KremlinProfiler \<Rightarrow> 'm KremlinProfiler option" where
  "handlePhiCond4To1 ms dest_reg ctrl1 ctrl2 ctrl3 ctrl4 = when_enabled
     (timestampUpdater ms False False 5 False dest_reg
        [(dest_reg, 0), (ctrl1, 0), (ctrl2, 0), (ctrl3, 0), (ctrl4, 0)] 0 0)"

definition handlePhiAddCond ::
    "'m MShadow \<Rightarrow> Reg \<Rightarrow> Reg \<Rightarrow> 'm KremlinProfiler \<Rightarrow> 'm KremlinProfiler option" where
  "handlePhiAddCond ms dest_reg src_reg = when_enabled
     (timestampUpdater ms False True 2 False dest_reg [(dest_reg, 0), (src_reg, 0)] 0 0)"


section \<open>When the updates are defined\<close>

text \<open>
  The state in which instructions are instrumented: the current function has its register table,
  the control dependence stack points into its table, and the instrumented levels fit the
  arrays.
\<close>

definition ctrl_ready :: "'m KremlinProfiler \<Rightarrow> nat \<Rightarrow> bool" where
  "ctrl_ready p n \<longleftrightarrow> (\<exists>c. control_dependence_table p = Some c \<and> table_ok c \<and> int n \<le> col c
     \<and> 0 \<le> cdt_read_ptr p \<and> cdt_read_ptr p < row c
     \<and> cdt_current_base p = Some (getElementAddr c (cdt_read_ptr p) 0))"

definition levels_ready :: "'m KremlinProfiler \<Rightarrow> nat \<Rightarrow> bool" where
  "levels_ready p n \<longleftrightarrow> unat (min_level p) + n \<le> length (program_regions p)
     \<and> unat (min_level p) + n < 2 ^ 32 \<and> n \<le> length (level_times p)"

definition regs_ready :: "'m KremlinProfiler \<Rightarrow> nat \<Rightarrow> table_ptr \<Rightarrow> Table \<Rightarrow> bool" where
  "regs_ready p n a t \<longleftrightarrow> shadow_reg_file p = Some a \<and> tables p a = Some t \<and> table_ok t \<and> int n \<le> col t"

text \<open>Number of instrumented levels.\<close>

abbreviation depth :: "'m KremlinProfiler \<Rightarrow> nat" where
  "depth p \<equiv> unat (curr_num_instrumented_levels p)"

definition ready :: "'m KremlinProfiler \<Rightarrow> table_ptr \<Rightarrow> Table \<Rightarrow> bool" where
  "ready p a t \<longleftrightarrow> ctrl_ready p (depth p) \<and> levels_ready p (depth p) \<and> regs_ready p (depth p) a t"

definition reg_ok :: "Table \<Rightarrow> Reg \<Rightarrow> bool" where
  "reg_ok t r \<longleftrightarrow> 0 \<le> to_int r \<and> to_int r < row t"

text \<open>The current control dependence's time at a level, and the time of a register.\<close>

definition ctrl_time :: "'m KremlinProfiler \<Rightarrow> nat \<Rightarrow> Time" where
  "ctrl_time p k = cell (the (control_dependence_table p)) (cdt_read_ptr p) (int k)"

abbreviation reg_time :: "Table \<Rightarrow> Reg \<Rightarrow> nat \<Rightarrow> Time" where
  "reg_time t r k \<equiv> cell t (to_int r) (int k)"

lemma gt_max [simp]: "(if a > b then a else b) = max a (b :: 'a::linorder)"
  by (auto simp: max_def)

lemma to_int_of_nat: "k < 2 ^ 31 \<Longrightarrow> to_int (of_nat k) = int k"
  by (simp add: to_int_small unat_of_nat32)

lemma ctrl_ready_small: "ctrl_ready p n \<Longrightarrow> n < 2 ^ 31"
proof -
  assume "ctrl_ready p n"
  then obtain c where c: "table_ok c" "int n \<le> col c" "0 \<le> cdt_read_ptr p" "cdt_read_ptr p < row c"
    by (auto simp: ctrl_ready_def)
  then have "1 * col c \<le> row c * col c" by (intro mult_right_mono) auto
  with c have "int n < 2 ^ 31" by (simp add: table_ok_def)
  then show ?thesis by simp
qed

lemma getControlDependenceAtIndex_ready:
  assumes "ctrl_ready p n" "k < n"
  shows "getControlDependenceAtIndex (of_nat k) p = Some (ctrl_time p k)"
proof -
  from assms obtain c where c: "control_dependence_table p = Some c" "table_ok c" "int n \<le> col c"
    "0 \<le> cdt_read_ptr p" "cdt_read_ptr p < row c"
    "cdt_current_base p = Some (getElementAddr c (cdt_read_ptr p) 0)" by (auto simp: ctrl_ready_def)
  have "k < 2 ^ 32" using ctrl_ready_small [OF assms(1)] assms(2) by simp
  then have u: "unat (of_nat k :: Index) = k" by (rule unat_of_nat32)
  have it: "in_table c (cdt_read_ptr p) (int k)" using c assms(2) by (simp add: in_table_def)
  from in_table_offset [OF c(2) it] c show ?thesis
    by (simp add: getControlDependenceAtIndex_def getElementAddr_def getOffset_def u ctrl_time_def
        cell_def rd_in)
qed

lemma getRegisterTimeAtIndex_ready:
  assumes "regs_ready p n a t" "reg_ok t r" "k < n" "k < 2 ^ 31"
  shows "getRegisterTimeAtIndex r (of_nat k) p = Some (reg_time t r k)"
  using assms by (simp add: regs_ready_def reg_ok_def getRegisterTimeAtIndex_def get_table_def
      to_int_of_nat getValue_in in_table_def)

lemma setRegisterTimeAtIndex_ready:
  assumes "regs_ready p n a t" "reg_ok t r" "k < n" "k < 2 ^ 31"
  shows "\<exists>t'. setRegisterTimeAtIndex v r (of_nat k) p = Some (p\<lparr>tables := (tables p)(a \<mapsto> t')\<rparr>)
     \<and> table_ok t' \<and> row t' = row t \<and> col t' = col t
     \<and> (\<forall>i j. in_table t i j \<longrightarrow> cell t' i j = (if i = to_int r \<and> j = int k then v else cell t i j))"
proof -
  have it: "table_ok t" "in_table t (to_int r) (int k)"
    using assms by (simp_all add: regs_ready_def reg_ok_def in_table_def)
  obtain t' where t': "setValue t v (to_int r) (int k) = Some t'" using setValue_in [OF it] by blast
  have "setRegisterTimeAtIndex v r (of_nat k) p = Some (p\<lparr>tables := (tables p)(a \<mapsto> t')\<rparr>)"
    using assms t' by (simp add: setRegisterTimeAtIndex_def regs_ready_def get_table_def put_table_def
        to_int_of_nat)
  with t' cell_setValue [OF it _ t'] setValue_ok [OF t'] it(1) show ?thesis by blast
qed

lemma getLevelForIndex_ready:
  "levels_ready p n \<Longrightarrow> k < n \<Longrightarrow> unat (getLevelForIndex (of_nat k) p) = unat (min_level p) + k"
  by (simp add: getLevelForIndex_def levels_ready_def unat_add_of_nat32)

section \<open>What timestampUpdater computes\<close>

text \<open>The new time of the destination at a level: the latest of all dependences.\<close>

definition dep_times :: "Table \<Rightarrow> bool \<Rightarrow> nat \<Rightarrow> srcs \<Rightarrow> nat \<Rightarrow> Time list" where
  "dep_times t use_mem nd srcs k =
     map (\<lambda>j. reg_time t (fst (src_arg srcs j)) k
                + (if use_mem then 0 else ucast (snd (src_arg srcs j)))) [0..<nd]"

definition new_time ::
    "'m KremlinProfiler \<Rightarrow> Table \<Rightarrow> bool \<Rightarrow> nat \<Rightarrow> bool \<Rightarrow> srcs \<Rightarrow> Time list \<Rightarrow> nat \<Rightarrow> Time" where
  "new_time p t use_ctrl nd use_mem srcs mts k =
     (let base = (if use_ctrl then ctrl_time p k else 0);
          base = (if use_mem then max base (mts ! k) else base);
          m = foldl max base (dep_times t use_mem nd srcs k)
      in if use_mem then m + LOAD_COST else m)"

text \<open>The state after the levels below \<open>k\<close> have been updated.\<close>

definition dest_updated :: "Table \<Rightarrow> Table \<Rightarrow> Reg \<Rightarrow> (nat \<Rightarrow> Time) \<Rightarrow> nat \<Rightarrow> bool" where
  "dest_updated t t' dest f k \<longleftrightarrow> table_ok t' \<and> row t' = row t \<and> col t' = col t
     \<and> (\<forall>i j. in_table t i j \<longrightarrow>
          cell t' i j = (if i = to_int dest \<and> j < int k then f (nat j) else cell t i j))"

definition cp_updated ::
    "ProgramRegion list \<Rightarrow> ProgramRegion list \<Rightarrow> bool \<Rightarrow> nat \<Rightarrow> (nat \<Rightarrow> Time) \<Rightarrow> nat \<Rightarrow> bool" where
  "cp_updated rs rs' update_cp mn f k \<longleftrightarrow> length rs' = length rs
     \<and> (\<forall>j < length rs. rs' ! j =
          (if update_cp \<and> mn \<le> j \<and> j < mn + k then updateCriticalPathLength (f (j - mn)) (rs ! j)
           else rs ! j))"

lemma calcMaxTime_ready:
  assumes "regs_ready p n a t" "k < n" "k < 2 ^ 31" "d < nd \<Longrightarrow> reg_ok t r"
  shows "calcMaxTime nd d ign cur r off (of_nat k) p =
     Some (if d < nd then max cur (reg_time t r k + (if ign then 0 else ucast off)) else cur)"
  using assms by (simp add: calcMaxTime_def getRegisterTimeAtIndex_ready [OF assms(1)])

lemma foldl_dep_times:
  assumes "nd \<le> 5"
  shows "foldl max c (dep_times t um nd srcs k) =
     (let f = (\<lambda>d c. if d < nd then max c (reg_time t (fst (src_arg srcs d)) k
                  + (if um then 0 else ucast (snd (src_arg srcs d)))) else c)
      in f 4 (f 3 (f 2 (f 1 (f 0 c)))))"
proof -
  have u: "[0..<0] = ([] :: nat list)" "[0..<1] = [0::nat]" "[0..<2] = [0::nat, 1]" "[0..<3] = [0::nat, 1, 2]"
    "[0..<Suc 0] = [0::nat]" "[0..<4] = [0::nat, 1, 2, 3]" "[0..<5] = [0::nat, 1, 2, 3, 4]"
    by code_simp+
  from assms consider "nd = 0" | "nd = 1" | "nd = 2" | "nd = 3" | "nd = 4" | "nd = 5" by linarith
  then show ?thesis by cases (simp_all add: dep_times_def Let_def u del: upt_Suc)
qed


definition at_level :: "'m KremlinProfiler \<Rightarrow> table_ptr \<Rightarrow> Table \<Rightarrow> ProgramRegion list \<Rightarrow> 'm KremlinProfiler" where
  "at_level p a t rs = p\<lparr>tables := (tables p)(a \<mapsto> t), program_regions := rs\<rparr>"

lemma at_level_ready:
  assumes "ready p a t" "table_ok t'" "row t' = row t" "col t' = col t" "length rs = length (program_regions p)"
  shows "ctrl_ready (at_level p a t' rs) (depth p)" "levels_ready (at_level p a t' rs) (depth p)"
    "regs_ready (at_level p a t' rs) (depth p) a t'" "ctrl_time (at_level p a t' rs) k = ctrl_time p k"
    "getLevelForIndex i (at_level p a t' rs) = getLevelForIndex i p"
  using assms by (auto simp: ready_def at_level_def ctrl_ready_def levels_ready_def regs_ready_def
      ctrl_time_def getLevelForIndex_def)

lemma dest_updated_Suc:
  assumes "dest_updated t tk dest f k" "reg_ok t dest" "table_ok t'" "row t' = row t" "col t' = col t"
    and "\<forall>i j. in_table t i j \<longrightarrow> cell t' i j = (if i = to_int dest \<and> j = int k then f k else cell tk i j)"
  shows "dest_updated t t' dest f (Suc k)"
  using assms by (auto simp: dest_updated_def)

lemma cp_updated_Suc:
  assumes "cp_updated rs rsk up mn f k" "mn + k < length rs"
  shows "cp_updated rs (if up then rsk[mn + k := updateCriticalPathLength (f k) (rsk ! (mn + k))] else rsk) up mn f (Suc k)"
  using assms by (auto simp: cp_updated_def nth_list_update)

text \<open>One turn of the loop of \<open>timestampUpdater\<close>.\<close>

lemma timestampUpdater_step_ready:
  assumes rdy: "ready p a t" and dest: "reg_ok t dest" and nd: "nd \<le> 5"
    and srcs: "\<And>j. j < nd \<Longrightarrow> reg_ok t (fst (src_arg srcs j))"
    and k: "k < depth p" and mts: "use_mem \<Longrightarrow> depth p \<le> length mts"
    and tk: "dest_updated t tk dest (new_time p t use_ctrl nd use_mem srcs mts) k"
    and rsk: "cp_updated (program_regions p) rsk up (unat (min_level p)) (new_time p t use_ctrl nd use_mem srcs mts) k"
  shows "\<exists>tk' rsk'. timestampUpdater_step use_ctrl up nd use_mem dest srcs mts k (at_level p a tk rsk)
       = Some (at_level p a tk' rsk')
     \<and> dest_updated t tk' dest (new_time p t use_ctrl nd use_mem srcs mts) (Suc k)
     \<and> cp_updated (program_regions p) rsk' up (unat (min_level p)) (new_time p t use_ctrl nd use_mem srcs mts) (Suc k)"
proof -
  let ?f = "new_time p t use_ctrl nd use_mem srcs mts"
  let ?q = "at_level p a tk rsk"
  let ?mn = "unat (min_level p)"
  from tk have tko: "table_ok tk" "row tk = row t" "col tk = col t" by (simp_all add: dest_updated_def)
  have len: "length rsk = length (program_regions p)" using rsk by (simp add: cp_updated_def)
  note q = at_level_ready [OF rdy tko len]
  have small: "k < 2 ^ 31" using ctrl_ready_small [OF q(1)] k by simp
  have lk: "unat (getLevelForIndex (of_nat k) p) = ?mn + k" "?mn + k < length rsk"
    using getLevelForIndex_ready [of p "depth p" k] rdy k len by (auto simp: ready_def levels_ready_def)
  have reg: "getRegionAtLevel (getLevelForIndex (of_nat k) p) ?q = Some (rsk ! (?mn + k))"
    using rd_int [OF lk(2)] by (simp only: getRegionAtLevel_def lk(1)) (simp add: at_level_def)
  have ctrl: "getControlDependenceAtIndex (of_nat k) ?q = Some (ctrl_time p k)"
    using getControlDependenceAtIndex_ready [OF q(1) k] q(4) by simp
  have ro: "reg_ok tk r = reg_ok t r" for r using tko by (simp add: reg_ok_def)
  have "int (depth p) \<le> col t" using q(3) tko(3) by (simp only: regs_ready_def)
  with k have kc: "int k < col t" by linarith
  have same: "reg_time tk r k = reg_time t r k" if "reg_ok t r" for r
    using tk that kc by (auto simp: dest_updated_def in_table_def reg_ok_def)
  have cm: "calcMaxTime nd d use_mem cur (fst (src_arg srcs d)) (snd (src_arg srcs d)) (of_nat k) ?q =
      Some (if d < nd then max cur (reg_time t (fst (src_arg srcs d)) k
        + (if use_mem then 0 else ucast (snd (src_arg srcs d)))) else cur)" for d cur
    using calcMaxTime_ready [OF q(3) k small, of d nd "fst (src_arg srcs d)" use_mem cur "snd (src_arg srcs d)"]
      srcs [of d] ro same [of "fst (src_arg srcs d)"] by (auto split: if_splits)
  obtain t' where t': "setRegisterTimeAtIndex (?f k) dest (of_nat k) ?q = Some (?q\<lparr>tables := (tables ?q)(a \<mapsto> t')\<rparr>)"
    "table_ok t'" "row t' = row tk" "col t' = col tk"
    "\<forall>i j. in_table tk i j \<longrightarrow> cell t' i j = (if i = to_int dest \<and> j = int k then ?f k else cell tk i j)"
    using setRegisterTimeAtIndex_ready [OF q(3) _ k small, of dest "?f k"] dest ro by auto
  have q': "?q\<lparr>tables := (tables ?q)(a \<mapsto> t')\<rparr> = at_level p a t' rsk" by (simp add: at_level_def)
  have mem: "use_mem \<Longrightarrow> rd mts (int k) = Some (mts ! k)" using mts k by (simp add: rd_def)
  have base: "(if use_ctrl then getControlDependenceAtIndex (of_nat k) ?q else Some 0)
      = Some (if use_ctrl then ctrl_time p k else 0)" using ctrl by simp
  have base2: "(if use_mem then do { tm \<leftarrow> rd mts (int k); Some (if c > tm then c else tm) } else Some c)
      = Some (if use_mem then max c (mts ! k) else c)" for c using mem by simp
  let ?c = "\<lambda>d c. if d < nd then max c (reg_time t (fst (src_arg srcs d)) k
                  + (if use_mem then 0 else ucast (snd (src_arg srcs d)))) else c"
  let ?b = "if use_mem then max (if use_ctrl then ctrl_time p k else 0) (mts ! k)
            else (if use_ctrl then ctrl_time p k else 0)"
  let ?m = "?c 4 (?c 3 (?c 2 (?c 1 (?c 0 ?b))))"
  let ?v = "if use_mem then ?m + LOAD_COST else ?m"
  have v: "?v = ?f k"
    unfolding new_time_def foldl_dep_times [OF nd] Let_def by (rule refl)
  have set: "setRegionAtLevel (getLevelForIndex (of_nat k) p) r (at_level p a t' rsk)
      = Some (at_level p a t' (rsk[?mn + k := r]))" for r
    using wr_int [OF lk(2)] by (simp only: setRegionAtLevel_def lk(1)) (simp add: at_level_def)
  let ?rs' = "if up then rsk[?mn + k := updateCriticalPathLength (?f k) (rsk ! (?mn + k))] else rsk"
  have "timestampUpdater_step use_ctrl up nd use_mem dest srcs mts k ?q = Some (at_level p a t' ?rs')"
  proof -
    have "timestampUpdater_step use_ctrl up nd use_mem dest srcs mts k ?q =
        setRegisterTimeAtIndex ?v dest (of_nat k) ?q \<bind> (\<lambda>s.
          if up then setRegionAtLevel (getLevelForIndex (of_nat k) p)
            (updateCriticalPathLength ?v (rsk ! (?mn + k))) s else Some s)"
      by (simp only: timestampUpdater_step_def Let_def q(5) reg bind.bind_lunit base base2 cm)
    also have "\<dots> = Some (at_level p a t' ?rs')"
      unfolding v t'(1) bind.bind_lunit q' set by (cases up) simp_all
    finally show ?thesis .
  qed
  moreover have "dest_updated t t' dest ?f (Suc k)"
    using t' tko by (intro dest_updated_Suc [OF tk dest]) (auto simp: in_table_def)
  moreover have "cp_updated (program_regions p) ?rs' up ?mn ?f (Suc k)"
    using lk len by (intro cp_updated_Suc [OF rsk]) simp
  ultimately show ?thesis by blast
qed


lemma at_level_self: "ready p a t \<Longrightarrow> at_level p a t (program_regions p) = p"
  by (simp add: at_level_def ready_def regs_ready_def fun_upd_idem)

lemma timestampUpdater_loop:
  assumes rdy: "ready p a t" and dest: "reg_ok t dest" and nd: "nd \<le> 5"
    and srcs: "\<And>j. j < nd \<Longrightarrow> reg_ok t (fst (src_arg srcs j))"
    and mts: "use_mem \<Longrightarrow> depth p \<le> length mts"
  shows "\<exists>t' rs'. for_range 0 (depth p) (timestampUpdater_step use_ctrl up nd use_mem dest srcs mts) p
       = Some (at_level p a t' rs')
     \<and> dest_updated t t' dest (new_time p t use_ctrl nd use_mem srcs mts) (depth p)
     \<and> cp_updated (program_regions p) rs' up (unat (min_level p)) (new_time p t use_ctrl nd use_mem srcs mts) (depth p)"
proof -
  let ?f = "new_time p t use_ctrl nd use_mem srcs mts"
  let ?I = "\<lambda>k s. \<exists>tk rsk. s = at_level p a tk rsk \<and> dest_updated t tk dest ?f k
     \<and> cp_updated (program_regions p) rsk up (unat (min_level p)) ?f k"
  have start: "?I 0 p"
    using rdy at_level_self [OF rdy, symmetric]
    by (intro exI [of _ t] exI [of _ "program_regions p"])
      (auto simp: dest_updated_def cp_updated_def ready_def regs_ready_def in_table_def)
  have step: "\<exists>s'. timestampUpdater_step use_ctrl up nd use_mem dest srcs mts j s = Some s' \<and> ?I (Suc j) s'"
    if j: "0 \<le> j" "j < 0 + depth p" and I: "?I j s" for j s
  proof -
    from I obtain tk rsk where s: "s = at_level p a tk rsk" "dest_updated t tk dest ?f j"
      "cp_updated (program_regions p) rsk up (unat (min_level p)) ?f j" by blast
    have "j < depth p" using j by simp
    from timestampUpdater_step_ready [OF rdy dest nd srcs this mts s(2,3)] s(1) show ?thesis by blast
  qed
  from for_range_rule [where I = ?I and i = 0 and k = "depth p" and
      body = "timestampUpdater_step use_ctrl up nd use_mem dest srcs mts", OF start step] show ?thesis by auto
qed

lemma ready_shadow_mem [simp]:
  "ready (p\<lparr>shadow_mem := m\<rparr>) a t = ready p a t"
  "new_time (p\<lparr>shadow_mem := m\<rparr>) t uc nd um ss mts = new_time p t uc nd um ss mts"
  by (simp_all add: fun_eq_iff ready_def ctrl_ready_def levels_ready_def regs_ready_def new_time_def ctrl_time_def)

text \<open>Register dependences only.\<close>

lemma timestampUpdater_regs:
  assumes rdy: "ready p a t" and dest: "reg_ok t dest" and nd: "nd \<le> 5"
    and srcs: "\<And>j. j < nd \<Longrightarrow> reg_ok t (fst (src_arg srcs j))"
  shows "\<exists>t' rs'. timestampUpdater ms use_ctrl up nd False dest srcs addr sz p = Some (at_level p a t' rs')
     \<and> dest_updated t t' dest (new_time p t use_ctrl nd False srcs []) (depth p)
     \<and> cp_updated (program_regions p) rs' up (unat (min_level p)) (new_time p t use_ctrl nd False srcs []) (depth p)"
  using timestampUpdater_loop [OF rdy dest nd srcs, of False "[]" use_ctrl up]
  by (simp add: timestampUpdater_def)

text \<open>With a shadow memory dependence whose \<open>get\<close> returned the times \<open>mts\<close>.\<close>

lemma timestampUpdater_mem:
  assumes rdy: "ready p a t" and dest: "reg_ok t dest" and nd: "nd \<le> 5"
    and srcs: "\<And>j. j < nd \<Longrightarrow> reg_ok t (fst (src_arg srcs j))"
    and mem: "shadow_mem p = Some m"
      "mem_get ms addr (curr_num_instrumented_levels p) (drop (unat (min_level p)) (level_versions p)) sz m = Some (mts, m')"
    and mts: "depth p \<le> length mts"
  shows "\<exists>t' rs'. timestampUpdater ms use_ctrl up nd True dest srcs addr sz p
       = Some (at_level (p\<lparr>shadow_mem := Some m'\<rparr>) a t' rs')
     \<and> dest_updated t t' dest (new_time p t use_ctrl nd True srcs mts) (depth p)
     \<and> cp_updated (program_regions p) rs' up (unat (min_level p)) (new_time p t use_ctrl nd True srcs mts) (depth p)"
proof -
  let ?p = "p\<lparr>shadow_mem := Some m'\<rparr>"
  have "ready ?p a t" using rdy by simp
  from timestampUpdater_loop [OF this dest nd srcs, of True mts use_ctrl up] mts mem show ?thesis
    by (simp add: timestampUpdater_def getVersionAtLevel_def getLevelForIndex_def)
qed

end
