(* ===== verification/ProfilerRegions.thy ===== *)
theory ProfilerRegions
  imports TimestampUpdate
begin

text \<open>
  The handlers of \<open>runtime/src/Handlers.cpp\<close> that change the structure of the state: entering and
  leaving regions, landing pads, control dependences, calls, arguments and returns, and the
  profiler's initialisation and clean-up.
\<close>

section \<open>Entering a region\<close>

text \<open>The level's region exists: the vector of regions doubles when the level is its size.\<close>

definition ensureRegion :: "Level \<Rightarrow> 'm KremlinProfiler \<Rightarrow> 'm KremlinProfiler" where
  "ensureRegion level p =
     (if unat level = length (program_regions p) then doubleNumRegions p else p)"

text \<open>
  A function region pushes a function whose register table is still missing; any other region
  clears the registers at its level.
\<close>

definition startRegisters :: "RegionType \<Rightarrow> 'm KremlinProfiler \<Rightarrow> 'm KremlinProfiler option" where
  "startRegisters regionType p =
     (if regionType = RegionFunc
      then Some ((addFunctionToStack (last_callsite_id p) p)\<lparr>waiting_for_register_table_init := True\<rparr>)
      else if instrument_curr_level p then zeroRegistersAtIndex (getCurrentLevelIndex p) p
      else Some p)"

definition startControlDependence :: "'m KremlinProfiler \<Rightarrow> 'm KremlinProfiler option" where
  "startControlDependence p =
     (if instrument_curr_level p then initRegionControlDependences (getCurrentLevelIndex p) p
      else Some p)"

definition handleRegionEntry ::
    "KremlinConfiguration \<Rightarrow> SID \<Rightarrow> RegionType \<Rightarrow> 'm KremlinProfiler \<Rightarrow> 'm KremlinProfiler option" where
  "handleRegionEntry cfg regionId regionType = when_enabled (\<lambda>p. do {
     let p = incrementLevel p;
     let level = curr_level p;
     let p = ensureRegion level p;
     region \<leftarrow> getRegionAtLevel level p;
     p \<leftarrow> issueVersionToLevel level p;
     p \<leftarrow> setRegionAtLevel level (ProgramRegion_init regionId regionType level (curr_time p) region) p;
     p \<leftarrow> startRegisters regionType p;
     let callSiteId = (case getCurrentFunction p of None \<Rightarrow> 0 | Some f \<Rightarrow> fr_call_site_id f);
     tree \<leftarrow> openRegionContext (summarize_recursive_regions cfg) regionId callSiteId regionType (region_tree p);
     startControlDependence (p\<lparr>region_tree := tree\<rparr>) })"

section \<open>Leaving a region\<close>

definition fillRegionStats ::
    "UInt64 \<Rightarrow> UInt64 \<Rightarrow> CID \<Rightarrow> UInt64 \<Rightarrow> UInt64 \<Rightarrow> ProgramRegion \<Rightarrow> RegionStats" where
  "fillRegionStats work cp callSiteId spWork is_doall region_info =
     \<lparr>rs_work = work, rs_cp = cp, rs_callSite = callSiteId, rs_spWork = spWork,
      rs_is_doall = is_doall, rs_childCnt = pr_childCount region_info\<rparr>"

definition handleFunctionExit :: "'m KremlinProfiler \<Rightarrow> 'm KremlinProfiler option" where
  "handleFunctionExit p = do {
     p \<leftarrow> callstackPop p;
     (case getCurrentFunction p of
        None \<Rightarrow> Some p
      | Some funcHead \<Rightarrow> Some (p\<lparr>shadow_reg_file := fr_table funcHead\<rparr>)) }"

text \<open>The parent's record of a finished child.\<close>

definition add_child :: "UInt64 \<Rightarrow> UInt64 \<Rightarrow> ProgramRegion \<Rightarrow> ProgramRegion" where
  "add_child work cp parent =
     parent\<lparr>pr_childrenWork := pr_childrenWork parent + work,
            pr_childrenCP := pr_childrenCP parent + cp,
            pr_childCount := pr_childCount parent + 1,
            pr_childMaxCP := (if pr_childMaxCP parent < cp then cp else pr_childMaxCP parent)\<rparr>"

text \<open>The difference wraps around when a child's critical path is longer than the loop's.\<close>

definition is_doall_region :: "UInt32 \<Rightarrow> RegionType \<Rightarrow> ProgramRegion \<Rightarrow> UInt64" where
  "is_doall_region threshold rtype region =
     (if rtype \<noteq> RegionLoop then 0
      else if pr_cp region - pr_childMaxCP region < ucast threshold then 1 else 0)"

text \<open>Self-parallelism, and the work divided by it, never more than the work.\<close>

definition self_parallelism :: "UInt64 \<Rightarrow> ProgramRegion \<Rightarrow> double" where
  "self_parallelism work region =
     (let spTemp = ddiv (of_u64 (work - pr_childrenWork region + pr_childrenCP region)) (of_u64 (pr_cp region))
      in if work > 0 then spTemp else Fin 1)"

definition sp_work :: "(double \<Rightarrow> UInt64) \<Rightarrow> UInt64 \<Rightarrow> ProgramRegion \<Rightarrow> UInt64" where
  "sp_work oor work region =
     (let spWork = to_u64 oor (ddiv (of_u64 work) (self_parallelism work region))
      in if spWork > work then work else spWork)"

text \<open>The body of \<open>handleRegionExit\<close>.\<close>

definition exitRegion ::
    "(double \<Rightarrow> UInt64) \<Rightarrow> RegionType \<Rightarrow> 'm KremlinProfiler \<Rightarrow> 'm KremlinProfiler option" where
  "exitRegion oor regionType p = do {
     let level = curr_level p;
     region \<leftarrow> getRegionAtLevel level p;
     let work = curr_time p - pr_start region;
     let cp = pr_cp region;
     let is_doall = is_doall_region (doall_threshold p) regionType region;
     p \<leftarrow> (if level > min_level p
           then do {
             parentRegion \<leftarrow> getRegionAtLevel (level - 1) p;
             setRegionAtLevel (level - 1) (add_child work cp parentRegion) p }
           else Some p);
     f \<leftarrow> getCurrentFunction p;
     let stats = fillRegionStats work cp (fr_call_site_id f) (sp_work oor work region) is_doall region;
     tree \<leftarrow> closeRegionContext stats (region_tree p);
     let p = p\<lparr>region_tree := tree\<rparr>;
     p \<leftarrow> (if regionType = RegionFunc then handleFunctionExit p else Some p);
     Some (decrementLevel p) }"

definition handleRegionExit ::
    "(double \<Rightarrow> UInt64) \<Rightarrow> SID \<Rightarrow> RegionType \<Rightarrow> 'm KremlinProfiler \<Rightarrow> 'm KremlinProfiler option" where
  "handleRegionExit oor regionId regionType = when_enabled (exitRegion oor regionType)"

section \<open>Landing pads\<close>

text \<open>
  The search for the deepest level of the region; its counter is unsigned and \<open>i >= 0\<close> always
  holds, so without a match it goes on from 0 to the largest index, which is out of bounds.
\<close>

fun find_end_level :: "nat \<Rightarrow> SID \<Rightarrow> 'm KremlinProfiler \<Rightarrow> Level option" where
  "find_end_level i regionId p = do {
     r \<leftarrow> getRegionAtLevel (of_nat i) p;
     if pr_regionId r = regionId then Some (of_nat i)
     else (case i of 0 \<Rightarrow> None | Suc j \<Rightarrow> find_end_level j regionId p) }"

declare find_end_level.simps [simp del]

text \<open>
  One turn of the loop: the code has the body of \<open>handleRegionExit\<close> a second time, with the type of the region
  in place of the argument.
\<close>

definition landing_turn :: "(double \<Rightarrow> UInt64) \<Rightarrow> 'm KremlinProfiler \<Rightarrow> 'm KremlinProfiler option" where
  "landing_turn oor p = do {
     let level = curr_level p;
     region \<leftarrow> getRegionAtLevel level p;
     let work = curr_time p - pr_start region;
     let cp = pr_cp region;
     let is_doall = (if cp - pr_childMaxCP region < ucast (doall_threshold p) then 1 else 0);
     let is_doall = (if pr_regionType region \<noteq> RegionLoop then 0 else is_doall);
     p \<leftarrow> (if level > min_level p
           then do {
             parent \<leftarrow> getRegionAtLevel (level - 1) p;
             let parent = parent\<lparr>pr_childrenWork := pr_childrenWork parent + work\<rparr>;
             let parent = parent\<lparr>pr_childrenCP := pr_childrenCP parent + cp\<rparr>;
             let parent = parent\<lparr>pr_childCount := pr_childCount parent + 1\<rparr>;
             let parent = (if pr_childMaxCP parent < cp then parent\<lparr>pr_childMaxCP := cp\<rparr> else parent);
             setRegionAtLevel (level - 1) parent p }
           else Some p);
     let spTemp = ddiv (of_u64 (work - pr_childrenWork region + pr_childrenCP region)) (of_u64 cp);
     let sp = (if work > 0 then spTemp else Fin 1);
     let spWork = to_u64 oor (ddiv (of_u64 work) sp);
     let spWork = (if spWork > work then work else spWork);
     f \<leftarrow> getCurrentFunction p;
     let stats = fillRegionStats work cp (fr_call_site_id f) spWork is_doall region;
     tree \<leftarrow> closeRegionContext stats (region_tree p);
     let p = p\<lparr>region_tree := tree\<rparr>;
     p \<leftarrow> (if pr_regionType region = RegionFunc then handleFunctionExit p else Some p);
     Some (decrementLevel p) }"

fun landing_loop :: "(double \<Rightarrow> UInt64) \<Rightarrow> nat \<Rightarrow> Level \<Rightarrow> 'm KremlinProfiler \<Rightarrow> 'm KremlinProfiler option" where
  "landing_loop oor fuel end_level p =
     (if curr_level p > end_level
      then (case fuel of 0 \<Rightarrow> None | Suc fuel \<Rightarrow> do {
        p \<leftarrow> landing_turn oor p;
        landing_loop oor fuel end_level p })
      else Some p)"

declare landing_loop.simps [simp del]

text \<open>Every turn leaves one level, so the current level is fuel enough.\<close>

definition handleLandingPad ::
    "(double \<Rightarrow> UInt64) \<Rightarrow> SID \<Rightarrow> RegionType \<Rightarrow> 'm KremlinProfiler \<Rightarrow> 'm KremlinProfiler option" where
  "handleLandingPad oor regionId regionType = when_enabled (\<lambda>p. do {
     end_level \<leftarrow> find_end_level (unat (curr_level p)) regionId p;
     landing_loop oor (unat (curr_level p)) end_level p })"

section \<open>Control dependences\<close>

text \<open>
  When the table is full the code only prints a message (the assertion is compiled out), and the
  copy runs past the table.
\<close>

definition handlePushCDep :: "Reg \<Rightarrow> 'm KremlinProfiler \<Rightarrow> 'm KremlinProfiler option" where
  "handlePushCDep cond = when_enabled (\<lambda>p. do {
     let p = p\<lparr>cdt_read_ptr := cdt_read_ptr p + 1\<rparr>;
     c \<leftarrow> control_dependence_table p;
     lTable \<leftarrow> get_table (shadow_reg_file p) p;
     c \<leftarrow> copyToDest lTable c (word_of_int (cdt_read_ptr p)) cond 0 (curr_num_instrumented_levels p);
     Some (p\<lparr>control_dependence_table := Some c,
             cdt_current_base := Some (getElementAddr c (cdt_read_ptr p) 0)\<rparr>) })"

definition handlePopCDep :: "'m KremlinProfiler \<Rightarrow> 'm KremlinProfiler option" where
  "handlePopCDep = when_enabled (\<lambda>p. do {
     let p = p\<lparr>cdt_read_ptr := cdt_read_ptr p - 1\<rparr>;
     c \<leftarrow> control_dependence_table p;
     Some (p\<lparr>cdt_current_base := Some (getElementAddr c (cdt_read_ptr p) 0)\<rparr>) })"

section \<open>Calls, arguments and returns\<close>

definition handlePrepCall :: "CID \<Rightarrow> UInt64 \<Rightarrow> 'm KremlinProfiler \<Rightarrow> 'm KremlinProfiler option" where
  "handlePrepCall callSiteId calledRegionId = when_enabled (\<lambda>p.
     Some ((clearFunctionArgQueue p)\<lparr>last_callsite_id := callSiteId\<rparr>))"

definition DUMMY_ARG :: Reg where "DUMMY_ARG = - 1"

definition handleEnqueueArgument :: "Reg \<Rightarrow> 'm KremlinProfiler \<Rightarrow> 'm KremlinProfiler option" where
  "handleEnqueueArgument arg = when_enabled (functionArgQueuePushBack arg)"

definition handleEnqueueConstArgument :: "'m KremlinProfiler \<Rightarrow> 'm KremlinProfiler option" where
  "handleEnqueueConstArgument = when_enabled (functionArgQueuePushBack DUMMY_ARG)"

definition handleDequeueArgument :: "Reg \<Rightarrow> 'm KremlinProfiler \<Rightarrow> 'm KremlinProfiler option" where
  "handleDequeueArgument dest = when_enabled (\<lambda>p. do {
     (src, p) \<leftarrow> functionArgQueuePopFront p;
     if src \<noteq> DUMMY_ARG \<and> curr_num_instrumented_levels p > 0
     then do {
       caller \<leftarrow> getCallingFunction p;
       caller \<leftarrow> caller;
       callee \<leftarrow> getCurrentFunction p;
       callerT \<leftarrow> get_table (fr_table caller) p;
       calleeT \<leftarrow> get_table (fr_table callee) p;
       calleeT \<leftarrow> copyToDest callerT calleeT dest src 0 (curr_num_instrumented_levels p - 1);
       put_table (fr_table callee) calleeT p }
     else Some p })"

definition set_current_table :: "table_ptr \<Rightarrow> 'm KremlinProfiler \<Rightarrow> 'm KremlinProfiler option" where
  "set_current_table a p = (case callstack p of
     [] \<Rightarrow> None | f # fs \<Rightarrow> Some (p\<lparr>callstack := f\<lparr>fr_table := Some a\<rparr> # fs\<rparr>))"

definition handlePrepRTable :: "UInt \<Rightarrow> UInt \<Rightarrow> 'm KremlinProfiler \<Rightarrow> 'm KremlinProfiler option" where
  "handlePrepRTable num_virt_regs nested_depth = when_enabled (\<lambda>p. do {
     let tableHeight = to_int num_virt_regs;
     let tableWidth = to_int (curr_level p + nested_depth + 1);
     (table, p) \<leftarrow> new_table tableHeight tableWidth p;
     p \<leftarrow> set_current_table table p;
     Some (p\<lparr>shadow_reg_file := Some table, waiting_for_register_table_init := False\<rparr>) })"

definition handleLinkReturn :: "Reg \<Rightarrow> 'm KremlinProfiler \<Rightarrow> 'm KremlinProfiler option" where
  "handleLinkReturn dest = when_enabled (\<lambda>p. case callstack p of
     [] \<Rightarrow> None
   | f # fs \<Rightarrow> Some (p\<lparr>callstack := f\<lparr>fr_return_register := dest\<rparr> # fs\<rparr>))"

text \<open>\<open>indexSize\<close> is an \<open>int\<close> here: with no instrumented level it is -1 and nothing is copied.\<close>

definition handleReturn :: "Reg \<Rightarrow> 'm KremlinProfiler \<Rightarrow> 'm KremlinProfiler option" where
  "handleReturn src = when_enabled (\<lambda>p. do {
     let callee = getCurrentFunction p;
     caller \<leftarrow> getCallingFunction p;
     (case caller of
        None \<Rightarrow> Some p
      | Some caller \<Rightarrow>
          let indexSize = to_int (curr_num_instrumented_levels p - 1)
          in if indexSize > 0
             then do {
               callee \<leftarrow> callee;
               calleeT \<leftarrow> get_table (fr_table callee) p;
               callerT \<leftarrow> get_table (fr_table caller) p;
               callerT \<leftarrow> copyToDest calleeT callerT (fr_return_register caller) src 0 (word_of_int indexSize);
               put_table (fr_table caller) callerT p }
             else Some p) })"

definition handleReturnConst :: "'m KremlinProfiler \<Rightarrow> 'm KremlinProfiler option" where
  "handleReturnConst = when_enabled (\<lambda>p. do {
     caller \<leftarrow> getCallingFunction p;
     (case caller of
        None \<Rightarrow> Some p
      | Some caller \<Rightarrow> do {
          t \<leftarrow> get_table (fr_table caller) p;
          for_range 0 (unat (word_of_int (col t) :: UInt32)) (\<lambda>index p. do {
            cdt \<leftarrow> getControlDependenceAtIndex (of_nat index) p;
            t \<leftarrow> get_table (fr_table caller) p;
            t \<leftarrow> setValue t cdt (to_int (fr_return_register caller)) (to_int (of_nat index));
            put_table (fr_table caller) t p }) p }) })"

section \<open>Initialisation and clean-up\<close>

text \<open>The shadow memory that \<open>initShadowMemory\<close> creates is an argument.\<close>

definition profiler_init :: "'m \<Rightarrow> 'm KremlinProfiler \<Rightarrow> 'm KremlinProfiler option" where
  "profiler_init new_mem p =
     (if initialized p then Some p
      else do {
        let p = p\<lparr>initialized := True\<rparr>;
        let p = initFunctionArgQueue p;
        p \<leftarrow> initControlDependences p;
        let p = p\<lparr>region_tree := initRegionTree (region_tree p)\<rparr>;
        let p = p\<lparr>shadow_mem := Some new_mem\<rparr>;
        Some (initProgramRegions INIT_NUM_REGIONS p) })"

fun cleanup_from :: "(double \<Rightarrow> UInt64) \<Rightarrow> nat \<Rightarrow> 'm KremlinProfiler \<Rightarrow> 'm KremlinProfiler option" where
  "cleanup_from oor 0 p = Some p"
| "cleanup_from oor (Suc i) p = do {
     region \<leftarrow> getRegionAtLevel (of_nat i) p;
     p \<leftarrow> handleRegionExit oor (pr_regionId region) (pr_regionType region) p;
     cleanup_from oor i p }"

text \<open>\<open>for (int i = level; i >= 0; --i)\<close>: no turn when no region is active (level -1).\<close>

definition cleanup :: "(double \<Rightarrow> UInt64) \<Rightarrow> 'm KremlinProfiler \<Rightarrow> 'm KremlinProfiler option" where
  "cleanup oor p = cleanup_from oor (nat (to_int (curr_level p) + 1)) p"

definition profiler_deinit ::
    "(double \<Rightarrow> UInt64) \<Rightarrow> KremlinConfiguration \<Rightarrow> bool \<Rightarrow> 'm KremlinProfiler
     \<Rightarrow> ('m KremlinProfiler \<times> write_result option) option" where
  "profiler_deinit oor cfg fopen_ok p = do {
     p \<leftarrow> cleanup oor p;
     if \<not> initialized p then Some (p, None)
     else do {
       let p = p\<lparr>initialized := False, enabled := False\<rparr>;
       w \<leftarrow> printProfiledData oor cfg fopen_ok (region_tree p);
       (case w of
          CannotOpen \<Rightarrow> Some (p, Some w)
        | Written e \<Rightarrow> do {
            tree \<leftarrow> deinitRegionTree (region_tree p);
            let p = p\<lparr>region_tree := tree\<rparr>;
            _ \<leftarrow> shadow_mem p;
            let p = p\<lparr>shadow_mem := None\<rparr>;
            let p = deinitControlDependences p;
            Some (deinitProgramRegions p, Some w) }) } }"

end
