(* ===== verification/ProfilerSpec.thy ===== *)
theory ProfilerSpec
  imports ProfilerRegions
begin

text \<open>
  The profiler's structural invariant: the current level, the active program regions, the region
  tree's stack and the call stack always describe the same nesting. Entering and leaving regions
  keep it, and are defined whenever it holds.
\<close>

section \<open>The invariant\<close>

text \<open>The number of active regions: the current level plus one.\<close>

definition active_regions :: "'m KremlinProfiler \<Rightarrow> nat" where
  "active_regions p = unat (curr_level p + 1)"

definition func_count :: "ProgramRegion list \<Rightarrow> nat" where
  "func_count rs = length (filter (\<lambda>r. pr_regionType r = RegionFunc) rs)"

definition arrays_ok :: "'m KremlinProfiler \<Rightarrow> bool" where
  "arrays_ok p \<longleftrightarrow> program_regions p \<noteq> [] \<and> length (program_regions p) < 2 ^ 31
     \<and> length (level_versions p) = arraySize \<and> length (level_times p) = arraySize"

definition cdt_ok :: "'m KremlinProfiler \<Rightarrow> bool" where
  "cdt_ok p \<longleftrightarrow> (\<exists>c. control_dependence_table p = Some c \<and> table_ok c
     \<and> row c = CDEP_ROW \<and> col c = CDEP_COL \<and> 0 \<le> cdt_read_ptr p \<and> cdt_read_ptr p < CDEP_ROW)"

definition nesting_ok :: "'m KremlinProfiler \<Rightarrow> bool" where
  "nesting_ok p \<longleftrightarrow> active_regions p \<le> length (program_regions p) \<and> active_regions p \<le> arraySize
     \<and> length (rt_stack (region_tree p)) = active_regions p
     \<and> length (callstack p) = func_count (take (active_regions p) (program_regions p))
     \<and> (0 < active_regions p \<longrightarrow> pr_regionType (program_regions p ! 0) = RegionFunc)"

definition prof_ok :: "'m KremlinProfiler \<Rightarrow> bool" where
  "prof_ok p \<longleftrightarrow> arrays_ok p \<and> cdt_ok p \<and> nesting_ok p \<and> tree_ok (region_tree p)"

lemma func_count_append [simp]: "func_count (xs @ ys) = func_count xs + func_count ys"
  by (simp add: func_count_def)

lemma func_count_single [simp]: "func_count [r] = (if pr_regionType r = RegionFunc then 1 else 0)"
  by (simp add: func_count_def)

lemma func_count_take_Suc:
  "d < length rs \<Longrightarrow> func_count (take (Suc d) rs) = func_count (take d rs)
     + (if pr_regionType (rs ! d) = RegionFunc then 1 else 0)"
  by (simp add: take_Suc_conv_app_nth)

lemma func_count_update:
  "pr_regionType r = pr_regionType (rs ! i) \<Longrightarrow> func_count (take d (rs[i := r])) = func_count (take d rs)"
proof (induction d arbitrary: rs i)
  case (Suc d)
  show ?case
  proof (cases rs)
    case (Cons x xs)
    show ?thesis
    proof (cases i)
      case 0
      then show ?thesis using Cons Suc.prems by (simp add: func_count_def)
    next
      case (Suc j)
      have "func_count (take d (xs[j := r])) = func_count (take d xs)"
        using Suc.prems Cons Suc by (intro Suc.IH) simp
      then show ?thesis using Cons Suc by (simp add: func_count_def)
    qed
  qed simp
qed simp

section \<open>Levels\<close>

lemma level_word:
  assumes "active_regions p = Suc d"
  shows "curr_level p = of_nat d" "unat (curr_level p) = d" "d < 2 ^ 32"
proof -
  have "of_nat (unat (curr_level p + 1)) = (of_nat (Suc d) :: Level)"
    using assms by (simp only: active_regions_def)
  then have "curr_level p + 1 = of_nat (Suc d)" by simp
  then show l: "curr_level p = of_nat d" by simp
  have "unat (curr_level p + 1) < 2 ^ 32" by (rule order.strict_trans2 [OF unsigned_less]) simp
  then show s: "d < 2 ^ 32" using assms by (simp add: active_regions_def)
  then show "unat (curr_level p) = d" unfolding l by (rule unat_of_nat32)
qed

lemma incrementLevel_simps [simp]:
  "curr_level (incrementLevel p) = curr_level p + 1"
  "program_regions (incrementLevel p) = program_regions p"
  "level_versions (incrementLevel p) = level_versions p" "level_times (incrementLevel p) = level_times p"
  "region_tree (incrementLevel p) = region_tree p" "callstack (incrementLevel p) = callstack p"
  "control_dependence_table (incrementLevel p) = control_dependence_table p"
  "cdt_read_ptr (incrementLevel p) = cdt_read_ptr p" "tables (incrementLevel p) = tables p"
  "shadow_reg_file (incrementLevel p) = shadow_reg_file p" "curr_time (incrementLevel p) = curr_time p"
  "min_level (incrementLevel p) = min_level p" "max_level (incrementLevel p) = max_level p"
  "enabled (incrementLevel p) = enabled p" "nextVersion (incrementLevel p) = nextVersion p"
  "last_callsite_id (incrementLevel p) = last_callsite_id p"
  by (simp_all add: incrementLevel_def updateCurrLevelInstrumentableStatus_def
      updateCurrNumInstrumentedLevels_def Let_def)

lemma decrementLevel_simps [simp]:
  "curr_level (decrementLevel p) = curr_level p - 1"
  "program_regions (decrementLevel p) = program_regions p"
  "level_versions (decrementLevel p) = level_versions p" "level_times (decrementLevel p) = level_times p"
  "region_tree (decrementLevel p) = region_tree p" "callstack (decrementLevel p) = callstack p"
  "control_dependence_table (decrementLevel p) = control_dependence_table p"
  "cdt_read_ptr (decrementLevel p) = cdt_read_ptr p" "tables (decrementLevel p) = tables p"
  "shadow_reg_file (decrementLevel p) = shadow_reg_file p" "curr_time (decrementLevel p) = curr_time p"
  "min_level (decrementLevel p) = min_level p" "max_level (decrementLevel p) = max_level p"
  "enabled (decrementLevel p) = enabled p"
  by (simp_all add: decrementLevel_def updateCurrLevelInstrumentableStatus_def
      updateCurrNumInstrumentedLevels_def Let_def)

lemma instrument_incrementLevel:
  "instrument_curr_level (incrementLevel p) \<longleftrightarrow> min_level p \<le> curr_level p + 1 \<and> curr_level p + 1 \<le> max_level p"
  by (simp add: incrementLevel_def updateCurrLevelInstrumentableStatus_def
      updateCurrNumInstrumentedLevels_def Let_def)


section \<open>Leaving a region\<close>

lemma getRegionAtLevel_ok:
  "unat l < length (program_regions p) \<Longrightarrow> getRegionAtLevel l p = Some (program_regions p ! unat l)"
  using rd_int [of "unat l" "program_regions p"] by (simp only: getRegionAtLevel_def)

lemma setRegionAtLevel_ok:
  "unat l < length (program_regions p) \<Longrightarrow>
   setRegionAtLevel l r p = Some (p\<lparr>program_regions := (program_regions p)[unat l := r]\<rparr>)"
  using wr_int [of "unat l" "program_regions p" r] by (simp only: setRegionAtLevel_def bind.bind_lunit)

text \<open>The regions after the innermost one, at level \<open>d\<close>, has been left.\<close>

definition regions_after_exit :: "'m KremlinProfiler \<Rightarrow> nat \<Rightarrow> ProgramRegion list" where
  "regions_after_exit p d =
     (let rs = program_regions p; r = rs ! d
      in if unat (min_level p) < d
         then rs[d - 1 := add_child (curr_time p - pr_start r) (pr_cp r) (rs ! (d - 1))]
         else rs)"

definition exit_stats :: "(double \<Rightarrow> UInt64) \<Rightarrow> RegionType \<Rightarrow> 'm KremlinProfiler \<Rightarrow> nat \<Rightarrow> RegionStats" where
  "exit_stats oor rtype p d =
     (let r = program_regions p ! d; work = curr_time p - pr_start r
      in fillRegionStats work (pr_cp r) (fr_call_site_id (hd (callstack p))) (sp_work oor work r)
           (is_doall_region (doall_threshold p) rtype r) r)"

definition pop_function :: "RegionType \<Rightarrow> 'm KremlinProfiler \<Rightarrow> 'm KremlinProfiler" where
  "pop_function rtype p =
     (if rtype = RegionFunc
      then p\<lparr>callstack := tl (callstack p),
             tables := (case fr_table (hd (callstack p)) of None \<Rightarrow> tables p | Some a \<Rightarrow> (tables p)(a := None)),
             shadow_reg_file := (case tl (callstack p) of [] \<Rightarrow> shadow_reg_file p | f # fs \<Rightarrow> fr_table f)\<rparr>
      else p)"

lemma handleFunctionExit_ok:
  "callstack p \<noteq> [] \<Longrightarrow> handleFunctionExit p = Some (pop_function RegionFunc p)"
  by (cases "callstack p")
    (auto simp: handleFunctionExit_def callstackPop_def getCurrentFunction_def pop_function_def
      split: list.split)

text \<open>The whole effect of an exit, up to the region tree.\<close>

lemma exitRegion_eq:
  assumes "active_regions p = Suc d" "d < length (program_regions p)" "callstack p \<noteq> []"
    and "closeRegionContext (exit_stats oor rtype p d) (region_tree p) = Some tree"
  shows "exitRegion oor rtype p = Some (decrementLevel (pop_function rtype
     (p\<lparr>program_regions := regions_after_exit p d, region_tree := tree\<rparr>)))"
proof -
  note l = level_word [OF assms(1)]
  let ?r = "program_regions p ! d"
  let ?p = "p\<lparr>program_regions := regions_after_exit p d\<rparr>"
  have r: "getRegionAtLevel (curr_level p) p = Some ?r"
    using getRegionAtLevel_ok [of "curr_level p" p] assms(2) by (simp add: l(2))
  have gt: "min_level p < curr_level p \<longleftrightarrow> unat (min_level p) < d"
    by (simp add: word_less_nat_alt l(2))
  have lm: "unat (curr_level p - 1) = d - 1" if "unat (min_level p) < d"
  proof -
    have "curr_level p \<noteq> 0" using that l(2) by auto
    then have "unat (curr_level p - 1) = unat (curr_level p) - 1" by (simp add: unat_minus_one)
    then show ?thesis by (simp add: l(2))
  qed
  have par: "(if min_level p < curr_level p
       then do {
             parentRegion \<leftarrow> getRegionAtLevel (curr_level p - 1) p;
             setRegionAtLevel (curr_level p - 1) (add_child (curr_time p - pr_start ?r) (pr_cp ?r) parentRegion) p }
       else Some p) = Some ?p"
  proof (cases "unat (min_level p) < d")
    case True
    have "unat (curr_level p - 1) < length (program_regions p)" using assms(2) lm [OF True] by simp
    then show ?thesis
      using True gt lm [OF True] by (simp add: getRegionAtLevel_ok setRegionAtLevel_ok regions_after_exit_def Let_def)
  next
    case False
    then show ?thesis using gt by (simp add: regions_after_exit_def Let_def)
  qed
  have f: "getCurrentFunction ?p = Some (hd (callstack p))"
    using assms(3) by (cases "callstack p") (simp_all add: getCurrentFunction_def)
  have st: "fillRegionStats (curr_time p - pr_start ?r) (pr_cp ?r) (fr_call_site_id (hd (callstack p)))
      (sp_work oor (curr_time p - pr_start ?r) ?r) (is_doall_region (doall_threshold p) rtype ?r) ?r
      = exit_stats oor rtype p d" by (simp add: exit_stats_def Let_def)
  have "exitRegion oor rtype p = (do {
      q \<leftarrow> (if rtype = RegionFunc then handleFunctionExit (?p\<lparr>region_tree := tree\<rparr>) else Some (?p\<lparr>region_tree := tree\<rparr>));
      Some (decrementLevel q) })"
    unfolding exitRegion_def Let_def r bind.bind_lunit par f st using assms(4) by simp
  then show ?thesis using handleFunctionExit_ok [of "?p\<lparr>region_tree := tree\<rparr>"] assms(3)
    by (simp add: pop_function_def)
qed


lemma nth_update_type:
  "pr_regionType r = pr_regionType (rs ! i) \<Longrightarrow> pr_regionType (rs[i := r] ! j) = pr_regionType (rs ! j)"
  by (cases "i < length rs"; cases "i = j") (simp_all add: list_update_beyond)

lemma regions_after_exit_props:
  "length (regions_after_exit p d) = length (program_regions p)"
  "func_count (take n (regions_after_exit p d)) = func_count (take n (program_regions p))"
  "pr_regionType (regions_after_exit p d ! i) = pr_regionType (program_regions p ! i)"
  "regions_after_exit p d = [] \<longleftrightarrow> program_regions p = []"
  by (simp_all add: regions_after_exit_def Let_def func_count_update nth_update_type add_child_def)

lemma pop_function_simps [simp]:
  "curr_level (pop_function t p) = curr_level p" "program_regions (pop_function t p) = program_regions p"
  "level_versions (pop_function t p) = level_versions p" "level_times (pop_function t p) = level_times p"
  "region_tree (pop_function t p) = region_tree p" "min_level (pop_function t p) = min_level p"
  "control_dependence_table (pop_function t p) = control_dependence_table p"
  "cdt_read_ptr (pop_function t p) = cdt_read_ptr p" "enabled (pop_function t p) = enabled p"
  "curr_time (pop_function t p) = curr_time p" "max_level (pop_function t p) = max_level p"
  "callstack (pop_function t p) = (if t = RegionFunc then tl (callstack p) else callstack p)"
  by (simp_all add: pop_function_def)

lemma callstack_nonempty:
  assumes "prof_ok p" "active_regions p = Suc d"
  shows "callstack p \<noteq> []" "d < length (program_regions p)"
proof -
  from assms have le: "Suc d \<le> length (program_regions p)"
    and len: "length (callstack p) = func_count (take (Suc d) (program_regions p))"
    and t0: "pr_regionType (program_regions p ! 0) = RegionFunc" by (simp_all add: prof_ok_def nesting_ok_def)
  from le show "d < length (program_regions p)" by simp
  from le obtain r rs where rs: "program_regions p = r # rs" by (cases "program_regions p") auto
  with t0 have "0 < func_count (take (Suc d) (program_regions p))" by (simp add: func_count_def)
  with len show "callstack p \<noteq> []" by auto
qed

lemma region_exit_ok_lemma:
  assumes "prof_ok p" "enabled p" "active_regions p = Suc d"
    and "rtype = pr_regionType (program_regions p ! d)"
  shows "\<exists>p'. handleRegionExit oor sid rtype p = Some p' \<and> prof_ok p' \<and> enabled p'
     \<and> active_regions p' = d
     \<and> callstack p' = (if rtype = RegionFunc then tl (callstack p) else callstack p)
     \<and> program_regions p' = regions_after_exit p d \<and> curr_time p' = curr_time p \<and> min_level p' = min_level p"
proof -
  note ne = callstack_nonempty [OF assms(1,3)] and l = level_word [OF assms(3)]
  from assms(1,3) have tok: "tree_ok (region_tree p)" and slen: "length (rt_stack (region_tree p)) = Suc d"
    by (simp_all add: prof_ok_def nesting_ok_def)
  from slen obtain c cs where st: "rt_stack (region_tree p) = c # cs" by (cases "rt_stack (region_tree p)") auto
  from closeRegionContext_ok [OF tok st, of "exit_stats oor rtype p d"] obtain tree where
    tree: "closeRegionContext (exit_stats oor rtype p d) (region_tree p) = Some tree" "tree_ok tree"
      "rt_stack tree = cs" by auto
  let ?p' = "decrementLevel (pop_function rtype
     (p\<lparr>program_regions := regions_after_exit p d, region_tree := tree\<rparr>))"
  have eq: "handleRegionExit oor sid rtype p = Some ?p'"
    using exitRegion_eq [OF assms(3) ne(2,1) tree(1)] assms(2) by (simp add: handleRegionExit_def when_enabled_def)
  have act: "active_regions ?p' = d" using l by (simp add: active_regions_def)
  have fc: "func_count (take (Suc d) (program_regions p)) = func_count (take d (program_regions p))
      + (if rtype = RegionFunc then 1 else 0)" using func_count_take_Suc [OF ne(2)] assms(4) by simp
  have "nesting_ok ?p'"
    unfolding nesting_ok_def act
    using assms(1,3) slen st tree(3) fc regions_after_exit_props(1) [of p d]
      regions_after_exit_props(2) [of d p d] regions_after_exit_props(3) [of p d 0]
    by (auto simp: prof_ok_def nesting_ok_def)
  moreover have "arrays_ok ?p'" "cdt_ok ?p'"
    using assms(1) regions_after_exit_props(1,4) [of p d]
    by (simp_all add: prof_ok_def arrays_ok_def cdt_ok_def)
  ultimately have "prof_ok ?p'" using tree(2) by (simp add: prof_ok_def)
  with eq act assms(2) show ?thesis by simp
qed


text \<open>
  C16. Whenever the structural invariant holds, leaving the innermost region is defined, keeps the
  invariant, and leaves one region less: the level, the region tree's stack and the call stack
  stay in step, whichever levels are profiled.
\<close>

theorem region_exit_ok:
  assumes "prof_ok p" "enabled p" "active_regions p = Suc d"
    and "rtype = pr_regionType (program_regions p ! d)"
  shows "\<exists>p'. handleRegionExit oor sid rtype p = Some p' \<and> prof_ok p' \<and> enabled p'
     \<and> active_regions p' = d
     \<and> callstack p' = (if rtype = RegionFunc then tl (callstack p) else callstack p)"
  using region_exit_ok_lemma [OF assms, of oor sid] by blast

section \<open>Entering a region\<close>

lemma table_row_small: "table_ok t \<Longrightarrow> 0 < col t \<Longrightarrow> row t < 2 ^ 31"
proof -
  assume "table_ok t" "0 < col t"
  then have "row t * 1 \<le> row t * col t" "row t * col t < 2 ^ 31"
    using mult_left_mono [of 1 "col t" "row t"] by (simp_all add: table_ok_def)
  then show "row t < 2 ^ 31" by simp
qed

lemma zeroRegistersAtIndex_ok:
  assumes p: "shadow_reg_file p = Some a" "tables p a = Some t" "table_ok t"
    and idx: "0 \<le> to_int index" "to_int index < col t"
  shows "\<exists>t'. zeroRegistersAtIndex index p = Some (p\<lparr>tables := (tables p)(a \<mapsto> t')\<rparr>)
     \<and> table_ok t' \<and> row t' = row t \<and> col t' = col t
     \<and> (\<forall>i j. in_table t i j \<longrightarrow> cell t' i j = (if j = to_int index then 0 else cell t i j))"
proof -
  let ?I = "\<lambda>k s. \<exists>t'. s = p\<lparr>tables := (tables p)(a \<mapsto> t')\<rparr> \<and> table_ok t' \<and> row t' = row t \<and> col t' = col t
     \<and> (\<forall>i j. in_table t i j \<longrightarrow> cell t' i j = (if j = to_int index \<and> i < int k then 0 else cell t i j))"
  have r31: "row t < 2 ^ 31" "0 \<le> row t" using table_row_small [OF p(3)] idx p(3) by (auto simp: table_ok_def)
  have "unat (word_of_int (int (nat (row t))) :: UInt32) = nat (row t)"
    using r31 by (simp only: of_int_of_nat_eq) (rule unat_of_nat32, simp)
  then have rows: "unat (word_of_int (row t) :: UInt32) = nat (row t)" using r31(2) by simp
  have start: "?I 0 p"
    using p by (intro exI [of _ t]) (auto simp: in_table_def fun_upd_idem)
  have step: "\<exists>s'. setRegisterTimeAtIndex 0 (of_nat k) index s = Some s' \<and> ?I (Suc k) s'"
    if k: "0 \<le> k" "k < 0 + nat (row t)" and I: "?I k s" for k s
  proof -
    from I obtain t1 where t1: "s = p\<lparr>tables := (tables p)(a \<mapsto> t1)\<rparr>" "table_ok t1" "row t1 = row t"
      "col t1 = col t"
      "\<forall>i j. in_table t i j \<longrightarrow> cell t1 i j = (if j = to_int index \<and> i < int k then 0 else cell t i j)"
      by blast
    have ki: "int k < row t" using k by linarith
    then have "k < 2 ^ 31" using r31 by simp
    then have ti: "to_int (of_nat k) = int k" by (rule to_int_of_nat)
    have it: "in_table t1 (int k) (to_int index)" using ki idx t1 by (simp add: in_table_def)
    obtain t2 where t2: "setValue t1 0 (int k) (to_int index) = Some t2" using setValue_in [OF t1(2) it] by blast
    have "setRegisterTimeAtIndex 0 (of_nat k) index s = Some (p\<lparr>tables := (tables p)(a \<mapsto> t2)\<rparr>)"
      using p t1(1) t2 ti by (simp add: setRegisterTimeAtIndex_def get_table_def put_table_def)
    moreover have "cell t2 i j = (if j = to_int index \<and> i < int (Suc k) then 0 else cell t i j)"
      if "in_table t i j" for i j
      using cell_setValue [OF t1(2) it _ t2, of i j] t1(3,4,5) that by (auto simp: in_table_def)
    ultimately show ?thesis using setValue_ok [OF t2] t1(2-4) by auto
  qed
  from for_range_rule [where I = ?I and i = 0 and k = "nat (row t)" and
      body = "\<lambda>i. setRegisterTimeAtIndex 0 (of_nat i) index", OF start step]
  obtain s' where s': "for_range 0 (nat (row t)) (\<lambda>i. setRegisterTimeAtIndex 0 (of_nat i) index) p = Some s'"
    "?I (nat (row t)) s'" by auto
  have "zeroRegistersAtIndex index p = Some s'"
    using s'(1) p rows by (simp add: zeroRegistersAtIndex_def getCurrNumShadowRegisters_def get_table_def)
  with s'(2) r31(2) show ?thesis by (auto simp: in_table_def)
qed

lemma initRegionControlDependences_ok:
  assumes "cdt_ok p" "0 \<le> to_int index" "to_int index < CDEP_COL"
  shows "\<exists>c'. initRegionControlDependences index p = Some (p\<lparr>control_dependence_table := Some c',
       cdt_current_base := Some (getElementAddr c' (cdt_read_ptr p) 0)\<rparr>)
     \<and> table_ok c' \<and> row c' = CDEP_ROW \<and> col c' = CDEP_COL
     \<and> cell c' (cdt_read_ptr p) (to_int index) = 0"
proof -
  from assms(1) obtain c where c: "control_dependence_table p = Some c" "table_ok c" "row c = CDEP_ROW"
    "col c = CDEP_COL" "0 \<le> cdt_read_ptr p" "cdt_read_ptr p < CDEP_ROW" by (auto simp: cdt_ok_def)
  have it: "in_table c (cdt_read_ptr p) (to_int index)" using c assms by (simp add: in_table_def)
  obtain c' where c': "setValue c 0 (cdt_read_ptr p) (to_int index) = Some c'"
    using setValue_in [OF c(2) it] by blast
  from cell_setValue [OF c(2) it it c'] setValue_ok [OF c'] c c' show ?thesis
    by (intro exI [of _ c']) (simp add: initRegionControlDependences_def)
qed


text \<open>The regions when a region at level \<open>d\<close> has been entered.\<close>

definition grown :: "'m KremlinProfiler \<Rightarrow> nat \<Rightarrow> ProgramRegion list" where
  "grown p d = (if d = length (program_regions p)
     then program_regions p @ replicate (length (program_regions p)) ProgramRegion_new else program_regions p)"

definition regions_after_entry :: "SID \<Rightarrow> RegionType \<Rightarrow> 'm KremlinProfiler \<Rightarrow> nat \<Rightarrow> ProgramRegion list" where
  "regions_after_entry sid rtype p d =
     (grown p d)[d := ProgramRegion_init sid rtype (of_nat d) (curr_time p) (grown p d ! d)]"

lemma grown_props:
  assumes "program_regions p \<noteq> []" "d \<le> length (program_regions p)" "length (program_regions p) < 2 ^ 30"
  shows "d < length (grown p d)" "take d (grown p d) = take d (program_regions p)"
    "length (grown p d) < 2 ^ 31" "grown p d \<noteq> []"
  using assms by (auto simp: grown_def)

lemma regions_after_entry_props:
  assumes "program_regions p \<noteq> []" "d \<le> length (program_regions p)" "length (program_regions p) < 2 ^ 30"
  shows "length (regions_after_entry sid rt p d) = length (grown p d)"
    "take d (regions_after_entry sid rt p d) = take d (program_regions p)"
    "regions_after_entry sid rt p d ! d = ProgramRegion_init sid rt (of_nat d) (curr_time p) (grown p d ! d)"
    "func_count (take (Suc d) (regions_after_entry sid rt p d)) =
       func_count (take d (program_regions p)) + (if rt = RegionFunc then 1 else 0)"
proof -
  note g = grown_props [OF assms]
  show l: "length (regions_after_entry sid rt p d) = length (grown p d)"
    and t: "take d (regions_after_entry sid rt p d) = take d (program_regions p)"
    and n: "regions_after_entry sid rt p d ! d = ProgramRegion_init sid rt (of_nat d) (curr_time p) (grown p d ! d)"
    using g by (simp_all add: regions_after_entry_def)
  show "func_count (take (Suc d) (regions_after_entry sid rt p d)) =
       func_count (take d (program_regions p)) + (if rt = RegionFunc then 1 else 0)"
    using func_count_take_Suc [of d "regions_after_entry sid rt p d"] g(1) l t n
    by (simp add: ProgramRegion_init_def)
qed

text \<open>What an entry needs of the state: room for the level, and the current function's registers.\<close>

definition can_enter :: "'m KremlinProfiler \<Rightarrow> RegionType \<Rightarrow> nat \<Rightarrow> bool" where
  "can_enter p rtype d \<longleftrightarrow> d < arraySize \<and> length (program_regions p) < 2 ^ 30
     \<and> unat (max_level p) < unat (min_level p) + 64
     \<and> (d = 0 \<longrightarrow> rtype = RegionFunc)
     \<and> (rtype \<noteq> RegionFunc \<longrightarrow> unat (min_level p) \<le> d \<longrightarrow> d \<le> unat (max_level p) \<longrightarrow>
          (\<exists>a t. shadow_reg_file p = Some a \<and> tables p a = Some t \<and> table_ok t
             \<and> int (d - unat (min_level p)) < col t))"

lemma level_index:
  assumes "unat (l :: Level) = d" "unat mn \<le> d" "d < 2 ^ 31"
  shows "to_int (l - mn) = int (d - unat mn)"
proof -
  have "unat (l - mn) = d - unat mn" using assms by (simp add: unat_sub word_le_nat_alt)
  then show ?thesis using assms(3) by (simp add: to_int_small)
qed

lemma region_entry_ok_lemma:
  assumes "prof_ok p" "enabled p" "active_regions p = d" "can_enter p rtype d"
  shows "\<exists>p'. handleRegionEntry cfg sid rtype p = Some p' \<and> prof_ok p' \<and> enabled p'
     \<and> active_regions p' = Suc d
     \<and> take d (program_regions p') = take d (program_regions p)
     \<and> pr_regionId (program_regions p' ! d) = sid \<and> pr_regionType (program_regions p' ! d) = rtype
     \<and> pr_start (program_regions p' ! d) = curr_time p
     \<and> level_versions p' = (level_versions p)[d := nextVersion p] \<and> nextVersion p' = nextVersion p + 1
     \<and> callstack p' = (if rtype = RegionFunc then FunctionRegion_new (last_callsite_id p) # callstack p
                       else callstack p)
     \<and> program_regions p' = regions_after_entry sid rtype p d \<and> curr_time p' = curr_time p \<and> min_level p' = min_level p
     \<and> max_level p' = max_level p"
proof -
  from assms(1) have arr: "program_regions p \<noteq> []" "length (level_versions p) = arraySize"
    "length (level_times p) = arraySize"
    and nest: "d \<le> length (program_regions p)" "length (rt_stack (region_tree p)) = d"
      "length (callstack p) = func_count (take d (program_regions p))"
      "0 < d \<longrightarrow> pr_regionType (program_regions p ! 0) = RegionFunc"
    and tok: "tree_ok (region_tree p)" and cdt: "cdt_ok p"
    using assms(3) by (simp_all add: prof_ok_def arrays_ok_def nesting_ok_def)
  from assms(4) have small: "length (program_regions p) < 2 ^ 30" and d512: "d < arraySize"
    by (simp_all add: can_enter_def)
  note g = grown_props [OF arr(1) nest(1) small] and ra = regions_after_entry_props [OF arr(1) nest(1) small]
  let ?p1 = "incrementLevel p"
  let ?l = "curr_level p + 1"
  have l: "unat ?l = d" using assms(3) by (simp add: active_regions_def)
  then have "of_nat (unat ?l) = (of_nat d :: Level)" by (simp only:)
  then have l': "?l = of_nat d" by simp
  have d31: "d < 2 ^ 31" using d512 by (simp add: arraySize_def)
  let ?p2 = "?p1\<lparr>program_regions := grown p d\<rparr>"
  have p2: "ensureRegion ?l ?p1 = ?p2"
    by (simp add: ensureRegion_def l doubleNumRegions_def increaseNumRegions_def grown_def)
  have reg: "getRegionAtLevel ?l ?p2 = Some (grown p d ! d)"
    using getRegionAtLevel_ok [of ?l ?p2] g(1) by (simp add: l)
  let ?vs = "(level_versions p)[d := nextVersion p]"
  let ?p3 = "?p2\<lparr>level_versions := ?vs, nextVersion := nextVersion p + 1\<rparr>"
  have ver: "issueVersionToLevel ?l ?p2 = Some ?p3"
    using wr_int [of d "level_versions p"] arr(2) d512 by (simp add: issueVersionToLevel_def l del: of_nat_unat)
  let ?rs = "regions_after_entry sid rtype p d"
  let ?p4 = "?p3\<lparr>program_regions := ?rs\<rparr>"
  have setr: "setRegionAtLevel ?l (ProgramRegion_init sid rtype ?l (curr_time p) (grown p d ! d)) ?p3 = Some ?p4"
    using setRegionAtLevel_ok [of ?l ?p3] g(1) by (simp add: l regions_after_entry_def flip: l')
  have idx: "to_int (?l - min_level p) = int (d - unat (min_level p))" if "unat (min_level p) \<le> d"
    by (rule level_index [OF l that d31])
  have ins: "instrument_curr_level ?p4 \<longleftrightarrow> unat (min_level p) \<le> d \<and> d \<le> unat (max_level p)"
    using instrument_incrementLevel [of p] by (simp add: word_le_nat_alt l)
  have ix: "getCurrentLevelIndex q = ?l - min_level p"
    if "curr_level q = curr_level ?p4" "min_level q = min_level ?p4" for q
    using that by (simp add: getCurrentLevelIndex_def)
  obtain p5 where p5: "startRegisters rtype ?p4 = Some p5"
    and same: "curr_level p5 = ?l" "min_level p5 = min_level p" "instrument_curr_level p5 = instrument_curr_level ?p4"
      "program_regions p5 = ?rs" "level_versions p5 = ?vs" "level_times p5 = level_times p"
      "nextVersion p5 = nextVersion p + 1" "region_tree p5 = region_tree p" "cdt_ok p5 = cdt_ok p"
      "enabled p5 = enabled p" "cdt_read_ptr p5 = cdt_read_ptr p" "curr_time p5 = curr_time p"
      "callstack p5 = (if rtype = RegionFunc then FunctionRegion_new (last_callsite_id p) # callstack p else callstack p)"
      "max_level p5 = max_level p"
  proof (cases "rtype \<noteq> RegionFunc \<and> instrument_curr_level ?p4")
    case True
    then obtain a t where t: "shadow_reg_file p = Some a" "tables p a = Some t" "table_ok t"
      "int (d - unat (min_level p)) < col t"
      using assms(4) ins by (auto simp: can_enter_def)
    have um: "unat (min_level p) \<le> d" using True ins by blast
    have i: "0 \<le> to_int (getCurrentLevelIndex ?p4)" "to_int (getCurrentLevelIndex ?p4) < col t"
      unfolding ix [OF refl refl] idx [OF um] by (rule of_nat_0_le_iff, rule t(4))
    have "shadow_reg_file ?p4 = Some a" "tables ?p4 a = Some t" using t by simp_all
    from zeroRegistersAtIndex_ok [OF this t(3) i] obtain t' where
      "zeroRegistersAtIndex (getCurrentLevelIndex ?p4) ?p4 = Some (?p4\<lparr>tables := (tables ?p4)(a \<mapsto> t')\<rparr>)" by blast
    with True show thesis
      by (intro that [of "?p4\<lparr>tables := (tables ?p4)(a \<mapsto> t')\<rparr>"]) (simp_all add: cdt_ok_def startRegisters_def)
  next
    case False
    then show thesis
      by (intro that [of "if rtype = RegionFunc
            then (addFunctionToStack (last_callsite_id ?p4) ?p4)\<lparr>waiting_for_register_table_init := True\<rparr>
            else ?p4"]) (auto simp: cdt_ok_def addFunctionToStack_def startRegisters_def)
  qed
  obtain tree c where tree: "openRegionContext (summarize_recursive_regions cfg) sid
      (case getCurrentFunction p5 of None \<Rightarrow> 0 | Some f \<Rightarrow> fr_call_site_id f) rtype (region_tree p) = Some tree"
    "tree_ok tree" "rt_stack tree = c # rt_stack (region_tree p)"
    using openRegionContext_ok [OF tok] by blast
  let ?p6 = "p5\<lparr>region_tree := tree\<rparr>"
  obtain p7 where p7: "startControlDependence ?p6 = Some p7"
    and same7: "curr_level p7 = ?l" "program_regions p7 = ?rs" "level_versions p7 = ?vs"
      "level_times p7 = level_times p" "nextVersion p7 = nextVersion p + 1" "region_tree p7 = tree"
      "cdt_ok p7" "enabled p7 = enabled p" "callstack p7 = callstack p5" "curr_time p7 = curr_time p"
      "min_level p7 = min_level p" "max_level p7 = max_level p"
  proof (cases "instrument_curr_level ?p6")
    case True
    have mx: "unat (max_level p) < unat (min_level p) + 64" using assms(4) by (simp add: can_enter_def)
    have um: "unat (min_level p) \<le> d" "d \<le> unat (max_level p)" using True ins same(3) by simp_all
    have "d - unat (min_level p) < 64" using um mx by linarith
    then have "int (d - unat (min_level p)) < int 64" by (simp only: of_nat_less_iff)
    then have i64: "int (d - unat (min_level p)) < 64" by (simp only: of_nat_numeral)
    have gi: "getCurrentLevelIndex ?p6 = ?l - min_level p" using same(1,2) by (simp add: getCurrentLevelIndex_def)
    have i: "0 \<le> to_int (getCurrentLevelIndex ?p6)" "to_int (getCurrentLevelIndex ?p6) < CDEP_COL"
      unfolding gi idx [OF um(1)] CDEP_COL_def by (rule of_nat_0_le_iff, rule i64)
    have "cdt_ok ?p6" using same(9) cdt by (simp add: cdt_ok_def)
    from initRegionControlDependences_ok [OF this i] obtain c' where c':
      "initRegionControlDependences (getCurrentLevelIndex ?p6) ?p6 = Some (?p6\<lparr>control_dependence_table := Some c',
       cdt_current_base := Some (getElementAddr c' (cdt_read_ptr ?p6) 0)\<rparr>)"
      "table_ok c'" "row c' = CDEP_ROW" "col c' = CDEP_COL" by blast
    have "0 \<le> cdt_read_ptr p" "cdt_read_ptr p < CDEP_ROW" using cdt by (auto simp: cdt_ok_def)
    with c' True same show thesis
      by (intro that [of "?p6\<lparr>control_dependence_table := Some c',
            cdt_current_base := Some (getElementAddr c' (cdt_read_ptr ?p6) 0)\<rparr>"]) (simp_all add: cdt_ok_def startControlDependence_def)
  next
    case False
    then show thesis using same cdt by (intro that [of ?p6]) (simp_all add: cdt_ok_def startControlDependence_def)
  qed
  have eq: "handleRegionEntry cfg sid rtype p = Some p7"
    using assms(2) ver setr p5 tree(1) p7 same(8)
    by (simp add: handleRegionEntry_def when_enabled_def Let_def p2 reg)
  have act: "active_regions p7 = Suc d"
  proof -
    have "curr_level p7 + 1 = of_nat (Suc d)" using same7(1) l' by simp
    moreover have "unat (of_nat (Suc d) :: Level) = Suc d" using d31 by (intro unat_of_nat32) simp
    ultimately show ?thesis by (simp only: active_regions_def)
  qed
  have head: "pr_regionType (?rs ! 0) = RegionFunc"
  proof (cases "d = 0")
    case True
    with assms(4) ra(3) show ?thesis by (simp add: can_enter_def ProgramRegion_init_def)
  next
    case False
    then have "?rs ! 0 = program_regions p ! 0" using nth_take [of 0 d] ra(2) by (metis neq0_conv)
    with nest(4) False show ?thesis by simp
  qed
  have "nesting_ok p7"
    unfolding nesting_ok_def act same7 tree(3) ra(1,4) using g(1) d512 nest(2,3) same(13) head by simp
  moreover have "arrays_ok p7" using arr g ra(1) same7 by (auto simp: arrays_ok_def simp flip: length_greater_0_conv)
  ultimately have "prof_ok p7" using same7 tree(2) by (simp add: prof_ok_def)
  with eq act same7 same(13) ra(2,3) assms(2) show ?thesis by (simp add: ProgramRegion_init_def)
qed


text \<open>The number of instrumented levels is the number of active levels between the two bounds.\<close>

lemma setRegister_levels:
  "setRegisterTimeAtIndex t r i p = Some p' \<Longrightarrow> curr_num_instrumented_levels p' = curr_num_instrumented_levels p"
  by (auto simp: setRegisterTimeAtIndex_def put_table_def bind_eq_Some_conv)

lemma zeroRegisters_levels:
  assumes "zeroRegistersAtIndex index p = Some p'"
  shows "curr_num_instrumented_levels p' = curr_num_instrumented_levels p"
proof -
  obtain k where "for_range 0 k (\<lambda>i. setRegisterTimeAtIndex 0 (of_nat i) index) p = Some p'"
    using assms by (auto simp: zeroRegistersAtIndex_def bind_eq_Some_conv)
  then show ?thesis
    by (rule for_range_inv [where I = "\<lambda>i q. curr_num_instrumented_levels q = curr_num_instrumented_levels p"])
      (simp_all add: setRegister_levels)
qed

lemma entry_step_levels:
  "curr_num_instrumented_levels (ensureRegion l p) = curr_num_instrumented_levels p"
  "issueVersionToLevel l p = Some p' \<Longrightarrow> curr_num_instrumented_levels p' = curr_num_instrumented_levels p"
  "setRegionAtLevel l r p = Some p' \<Longrightarrow> curr_num_instrumented_levels p' = curr_num_instrumented_levels p"
  "startRegisters rtype p = Some p' \<Longrightarrow> curr_num_instrumented_levels p' = curr_num_instrumented_levels p"
  "startControlDependence p = Some p' \<Longrightarrow> curr_num_instrumented_levels p' = curr_num_instrumented_levels p"
  by (auto simp: ensureRegion_def doubleNumRegions_def increaseNumRegions_def issueVersionToLevel_def setRegionAtLevel_def
      startRegisters_def addFunctionToStack_def startControlDependence_def
      initRegionControlDependences_def Let_def bind_eq_Some_conv split: if_splits dest: zeroRegisters_levels)

lemma entry_levels:
  assumes "handleRegionEntry cfg sid rtype p = Some p'" "enabled p"
  shows "curr_num_instrumented_levels p' = curr_num_instrumented_levels (incrementLevel p)"
  using assms
  by (auto simp: handleRegionEntry_def when_enabled_def Let_def bind_eq_Some_conv entry_step_levels(1) dest!: entry_step_levels(2-5))

lemma incrementLevel_count:
  assumes "active_regions p = d" "d < arraySize" "unat (min_level p) \<le> unat (max_level p)"
  shows "unat (curr_num_instrumented_levels (incrementLevel p)) = card {unat (min_level p)..min d (unat (max_level p))}"
proof -
  let ?l = "curr_level p + 1"
  have l: "unat ?l = d" using assms(1) by (simp add: active_regions_def)
  have sub: "unat (x - min_level p + 1) = Suc (unat x) - unat (min_level p)"
    if "min_level p \<le> x" "unat x < 2 ^ 31" for x :: Level
  proof -
    have "unat (x - min_level p) = unat x - unat (min_level p)" using that(1) by (rule unat_sub)
    moreover have "unat (y + 1) = Suc (unat y)" if "unat y < 2 ^ 31" for y :: Level
      using that unat_add_lem [of y 1] by simp
    ultimately show ?thesis using that by (simp add: word_le_nat_alt Suc_diff_le)
  qed
  have count: "curr_num_instrumented_levels (incrementLevel p)
      = (if ?l < min_level p then 0 else (if max_level p < ?l then max_level p else ?l) - min_level p + 1)"
    by (simp add: incrementLevel_def updateCurrLevelInstrumentableStatus_def updateCurrNumInstrumentedLevels_def Let_def)
  show ?thesis
  proof (cases "?l < min_level p")
    case True
    then have "d < unat (min_level p)" by (simp add: word_less_nat_alt l)
    then show ?thesis using True by (simp add: count)
  next
    case False
    let ?x = "if max_level p < ?l then max_level p else ?l"
    have x: "unat ?x = min d (unat (max_level p))" using l by (auto simp: word_less_nat_alt min_def)
    have "min_level p \<le> ?x" using False assms(3) by (auto simp: word_le_nat_alt word_less_nat_alt)
    moreover have "unat ?x < 2 ^ 31" using assms(2) unfolding x by (simp add: arraySize_def)
    ultimately have "unat (?x - min_level p + 1) = Suc (unat ?x) - unat (min_level p)" by (rule sub)
    then show ?thesis using False unfolding count x by simp
  qed
qed

text \<open>
  C15. Under the structural invariant, entering a region is defined and keeps the invariant: the new
  innermost region has the given ID and type and starts now, its level gets the next version and
  no other level's version changes, and a function region is pushed with the last call site. The number of instrumented levels is
  the number of active levels between the two bounds of the configuration.
\<close>

theorem region_entry_ok:
  assumes "prof_ok p" "enabled p" "active_regions p = d" "can_enter p rtype d"
  shows "\<exists>p'. handleRegionEntry cfg sid rtype p = Some p' \<and> prof_ok p' \<and> enabled p'
     \<and> active_regions p' = Suc d
     \<and> take d (program_regions p') = take d (program_regions p)
     \<and> pr_regionId (program_regions p' ! d) = sid \<and> pr_regionType (program_regions p' ! d) = rtype
     \<and> pr_start (program_regions p' ! d) = curr_time p
     \<and> level_versions p' = (level_versions p)[d := nextVersion p] \<and> nextVersion p' = nextVersion p + 1
     \<and> callstack p' = (if rtype = RegionFunc then FunctionRegion_new (last_callsite_id p) # callstack p
                       else callstack p)
     \<and> (unat (min_level p) \<le> unat (max_level p) \<longrightarrow>
          unat (curr_num_instrumented_levels p') = card {unat (min_level p)..min d (unat (max_level p))})"
proof -
  obtain p' where p': "handleRegionEntry cfg sid rtype p = Some p'" "prof_ok p'" "enabled p'" "active_regions p' = Suc d"
    "take d (program_regions p') = take d (program_regions p)"
    "pr_regionId (program_regions p' ! d) = sid" "pr_regionType (program_regions p' ! d) = rtype"
    "pr_start (program_regions p' ! d) = curr_time p"
    "level_versions p' = (level_versions p)[d := nextVersion p]" "nextVersion p' = nextVersion p + 1"
    "callstack p' = (if rtype = RegionFunc then FunctionRegion_new (last_callsite_id p) # callstack p else callstack p)"
    using region_entry_ok_lemma [OF assms, of cfg sid] by blast
  have "d < arraySize" using assms(4) by (simp add: can_enter_def)
  from incrementLevel_count [OF assms(3) this] show ?thesis
    using p' entry_levels [OF p'(1) assms(2)] by (intro exI [of _ p'] conjI) simp_all
qed

section \<open>Landing pads and clean-up are iterated exits\<close>

definition exit_innermost :: "(double \<Rightarrow> UInt64) \<Rightarrow> 'm KremlinProfiler \<Rightarrow> 'm KremlinProfiler option" where
  "exit_innermost oor p = do {
     r \<leftarrow> getRegionAtLevel (curr_level p) p;
     handleRegionExit oor (pr_regionId r) (pr_regionType r) p }"

fun exits :: "(double \<Rightarrow> UInt64) \<Rightarrow> nat \<Rightarrow> 'm KremlinProfiler \<Rightarrow> 'm KremlinProfiler option" where
  "exits oor 0 p = Some p"
| "exits oor (Suc n) p = exit_innermost oor p \<bind> exits oor n"

text \<open>An exit changes no active region but the parent's account of its children.\<close>

definition same_below :: "nat \<Rightarrow> 'm KremlinProfiler \<Rightarrow> 'm KremlinProfiler \<Rightarrow> bool" where
  "same_below d p p' \<longleftrightarrow> (\<forall>i < d. pr_regionId (program_regions p' ! i) = pr_regionId (program_regions p ! i)
     \<and> pr_regionType (program_regions p' ! i) = pr_regionType (program_regions p ! i))"

lemma region_current:
  assumes "prof_ok p" "active_regions p = Suc d"
  shows "getRegionAtLevel (curr_level p) p = Some (program_regions p ! d)"
  using getRegionAtLevel_ok [of "curr_level p" p] level_word [OF assms(2)] callstack_nonempty [OF assms]
  by simp

lemma exit_innermost_ok:
  assumes "prof_ok p" "enabled p" "active_regions p = Suc d"
  shows "\<exists>p'. exit_innermost oor p = Some p' \<and> prof_ok p' \<and> enabled p' \<and> active_regions p' = d"
  using region_current [OF assms(1,3)] region_exit_ok_lemma [OF assms refl, of oor "pr_regionId (program_regions p ! d)"]
  by (auto simp: exit_innermost_def)

lemma exits_ok:
  "prof_ok p \<Longrightarrow> enabled p \<Longrightarrow> n \<le> active_regions p \<Longrightarrow>
   \<exists>p'. exits oor n p = Some p' \<and> prof_ok p' \<and> enabled p' \<and> active_regions p' = active_regions p - n"
proof (induction n arbitrary: p)
  case (Suc n)
  then obtain d where d: "active_regions p = Suc d" by (cases "active_regions p") auto
  from exit_innermost_ok [OF Suc.prems(1,2) d, of oor] obtain p1 where
    p1: "exit_innermost oor p = Some p1" "prof_ok p1" "enabled p1" "active_regions p1 = d" by blast
  from Suc.IH [OF p1(2,3)] Suc.prems(3) d p1 show ?case by auto
qed simp

lemma exitRegion_enabled:
  "enabled p \<Longrightarrow> handleRegionExit oor sid rtype p = exitRegion oor rtype p"
  by (simp add: handleRegionExit_def when_enabled_def)

lemma find_end_level_ok:
  assumes "i < length (program_regions p)" "i < 2 ^ 32" "j \<le> i" "pr_regionId (program_regions p ! j) = sid"
    and "\<forall>k. j < k \<longrightarrow> k \<le> i \<longrightarrow> pr_regionId (program_regions p ! k) \<noteq> sid"
  shows "find_end_level i sid p = Some (of_nat j)"
  using assms
proof (induction i)
  case 0
  then show ?case using getRegionAtLevel_ok [of 0 p] by (simp add: find_end_level.simps)
next
  case (Suc i)
  have "unat (of_nat (Suc i) :: Level) = Suc i" using Suc.prems(2) by (rule unat_of_nat32)
  then have r: "getRegionAtLevel (of_nat (Suc i)) p = Some (program_regions p ! Suc i)"
    using getRegionAtLevel_ok [of "of_nat (Suc i)" p] Suc.prems(1) by simp
  show ?case
  proof (cases "j = Suc i")
    case True
    then show ?thesis using r Suc.prems(4) by (simp add: find_end_level.simps [of "Suc i"])
  next
    case False
    then have "find_end_level i sid p = Some (of_nat j)" using Suc by auto
    moreover have "pr_regionId (program_regions p ! Suc i) \<noteq> sid" using False Suc.prems(3,5) by auto
    ultimately show ?thesis using r by (simp add: find_end_level.simps [of "Suc i"])
  qed
qed

text \<open>The two copies of the body do the same.\<close>

lemma landing_turn_eq:
  assumes "getRegionAtLevel (curr_level p) p = Some r"
  shows "landing_turn oor p = exitRegion oor (pr_regionType r) p"
proof -
  have parent: "(if pr_childMaxCP parent < cp then
         parent\<lparr>pr_childrenWork := w, pr_childrenCP := c, pr_childCount := k, pr_childMaxCP := cp\<rparr>
       else parent\<lparr>pr_childrenWork := w, pr_childrenCP := c, pr_childCount := k\<rparr>)
     = parent\<lparr>pr_childrenWork := w, pr_childrenCP := c, pr_childCount := k,
         pr_childMaxCP := (if pr_childMaxCP parent < cp then cp else pr_childMaxCP parent)\<rparr>" for parent :: ProgramRegion and cp w c k
    by simp
  show ?thesis
    by (simp add: landing_turn_def exitRegion_def assms is_doall_region_def sp_work_def self_parallelism_def add_child_def
        parent Let_def)
qed

lemma landing_loop_exits:
  "prof_ok p \<Longrightarrow> enabled p \<Longrightarrow> active_regions p = Suc (j + n) \<Longrightarrow> n \<le> fuel \<Longrightarrow>
   landing_loop oor fuel (of_nat j) p = exits oor n p"
proof (induction n arbitrary: p fuel)
  case 0
  then have "curr_level p = of_nat j" using level_word(1) [of p j] by simp
  then show ?case by (simp add: landing_loop.simps)
next
  case (Suc n)
  note l = level_word [OF Suc.prems(3)]
  have "unat (of_nat j :: Level) = j" using l(3) by (intro unat_of_nat32) simp
  then have gt: "of_nat j < curr_level p" by (simp add: word_less_nat_alt l(2))
  from Suc.prems(4) obtain f where f: "fuel = Suc f" "n \<le> f" by (cases fuel) auto
  from exit_innermost_ok [OF Suc.prems(1,2,3), of oor] obtain p1 where
    p1: "exit_innermost oor p = Some p1" "prof_ok p1" "enabled p1" "active_regions p1 = Suc (j + n)" by auto
  have "landing_loop oor fuel (of_nat j) p = exit_innermost oor p \<bind> landing_loop oor f (of_nat j)"
    using gt region_current [OF Suc.prems(1,3)] Suc.prems(2)
    by (simp add: landing_loop.simps [of oor "Suc f"] f(1) exit_innermost_def exitRegion_enabled landing_turn_eq)
  with p1 Suc.IH [OF p1(2,3,4) f(2)] show ?case by simp
qed

text \<open>
  C14. A landing pad leaves exactly the regions inside the innermost region with the given ID, one
  after the other, as ordinary region exits would: an exception that unwinds several regions
  produces the same tree and the same statistics as leaving them normally, although the code does not call
  \<open>handleRegionExit\<close> but repeats its body.
\<close>

theorem landing_pad_is_exits:
  assumes "prof_ok p" "enabled p" "active_regions p = Suc d" "j \<le> d"
    and "pr_regionId (program_regions p ! j) = sid"
    and "\<forall>k. j < k \<longrightarrow> k \<le> d \<longrightarrow> pr_regionId (program_regions p ! k) \<noteq> sid"
  shows "handleLandingPad oor sid rtype p = exits oor (d - j) p
     \<and> (\<exists>p'. exits oor (d - j) p = Some p' \<and> prof_ok p' \<and> active_regions p' = Suc j)"
proof -
  note l = level_word [OF assms(3)]
  have "find_end_level (unat (curr_level p)) sid p = Some (of_nat j)"
    unfolding l(2) by (rule find_end_level_ok [OF callstack_nonempty(2) [OF assms(1,3)] l(3) assms(4-6)])
  moreover have "landing_loop oor (unat (curr_level p)) (of_nat j) p = exits oor (d - j) p"
    unfolding l(2) by (rule landing_loop_exits) (use assms in simp_all)
  ultimately have "handleLandingPad oor sid rtype p = exits oor (d - j) p"
    using assms(2) by (simp add: handleLandingPad_def when_enabled_def)
  moreover have "\<exists>p'. exits oor (d - j) p = Some p' \<and> prof_ok p' \<and> active_regions p' = Suc j"
  proof -
    have "d - j \<le> active_regions p" using assms(3) by simp
    from exits_ok [OF assms(1,2) this, of oor] assms(3,4) show ?thesis by auto
  qed
  ultimately show ?thesis by blast
qed


lemma cleanup_from_exits:
  "prof_ok p \<Longrightarrow> enabled p \<Longrightarrow> active_regions p = n \<Longrightarrow> cleanup_from oor n p = exits oor n p"
proof (induction n arbitrary: p)
  case (Suc n)
  from exit_innermost_ok [OF Suc.prems, of oor] obtain p1 where
    p1: "exit_innermost oor p = Some p1" "prof_ok p1" "enabled p1" "active_regions p1 = n" by auto
  have "cleanup_from oor (Suc n) p = exit_innermost oor p \<bind> cleanup_from oor n"
    using region_current [OF Suc.prems(1,3)] level_word(1) [OF Suc.prems(3)]
    by (simp add: exit_innermost_def)
  with p1 Suc.IH [OF p1(2,3,4)] show ?case by simp
qed simp

text \<open>
  C17. When the program leaves from inside nested regions, the clean-up closes every active region and
  ends with no region, no function and an empty region stack.
\<close>

theorem cleanup_closes_all:
  assumes "prof_ok p" "enabled p"
  shows "\<exists>p'. cleanup oor p = Some p' \<and> prof_ok p' \<and> active_regions p' = 0
     \<and> callstack p' = [] \<and> rt_stack (region_tree p') = []"
proof -
  let ?n = "active_regions p"
  have "nat (to_int (curr_level p) + 1) = ?n"
  proof (cases ?n)
    case 0
    then have "of_nat (unat (curr_level p + 1)) = (of_nat 0 :: Level)" by (simp only: active_regions_def)
    then have "curr_level p = - 1" by (simp add: eq_neg_iff_add_eq_0)
    then show ?thesis using 0 by simp
  next
    case (Suc d)
    have "Suc d \<le> arraySize" using assms(1) Suc by (simp add: prof_ok_def nesting_ok_def)
    then have "d < 2 ^ 31" by (simp add: arraySize_def)
    then have "to_int (curr_level p) = int d" using level_word(1) [OF Suc] to_int_of_nat by simp
    then show ?thesis using Suc by simp
  qed
  then have eq: "cleanup oor p = exits oor ?n p"
    using cleanup_from_exits [OF assms refl] by (simp add: cleanup_def)
  from exits_ok [OF assms order_refl, of oor] obtain p' where
    p': "exits oor ?n p = Some p'" "prof_ok p'" "active_regions p' = 0" by auto
  then have "callstack p' = []" "rt_stack (region_tree p') = []"
    by (simp_all add: prof_ok_def nesting_ok_def func_count_def)
  with eq p' show ?thesis by simp
qed

section \<open>The argument queue\<close>

fun push_args :: "Reg list \<Rightarrow> 'm KremlinProfiler \<Rightarrow> 'm KremlinProfiler option" where
  "push_args [] p = Some p"
| "push_args (a # as) p = handleEnqueueArgument a p \<bind> push_args as"

fun pop_args :: "nat \<Rightarrow> 'm KremlinProfiler \<Rightarrow> (Reg list \<times> 'm KremlinProfiler) option" where
  "pop_args 0 p = Some ([], p)"
| "pop_args (Suc n) p = do {
     (a, p) \<leftarrow> functionArgQueuePopFront p;
     (as, p) \<leftarrow> pop_args n p;
     Some (a # as, p) }"

lemma push_args_ok:
  assumes "enabled p" "unat (arg_queue_write_index p) + length as \<le> length (function_arg_queue p)"
    "length (function_arg_queue p) < 2 ^ 32"
  shows "\<exists>q. push_args as p = Some (p\<lparr>function_arg_queue := q,
       arg_queue_write_index := arg_queue_write_index p + of_nat (length as)\<rparr>)
     \<and> length q = length (function_arg_queue p)
     \<and> (\<forall>i < length q. q ! i = (if unat (arg_queue_write_index p) \<le> i \<and> i < unat (arg_queue_write_index p) + length as
          then as ! (i - unat (arg_queue_write_index p)) else function_arg_queue p ! i))"
  using assms
proof (induction as arbitrary: p)
  case Nil
  then show ?case by (intro exI [of _ "function_arg_queue p"]) auto
next
  case (Cons a as)
  let ?w = "unat (arg_queue_write_index p)"
  let ?p1 = "p\<lparr>function_arg_queue := (function_arg_queue p)[?w := a], arg_queue_write_index := arg_queue_write_index p + 1\<rparr>"
  have w: "?w < length (function_arg_queue p)" using Cons.prems(2) by simp
  have h: "handleEnqueueArgument a p = Some ?p1"
    using wr_int [OF w, of a] Cons.prems(1)
    by (simp only: handleEnqueueArgument_def when_enabled_def functionArgQueuePushBack_def if_True bind.bind_lunit)
  have w1: "unat (arg_queue_write_index p + 1) = Suc ?w"
    using unat_add_of_nat32 [of "arg_queue_write_index p" 1] w Cons.prems(3) by simp
  have "enabled ?p1" "unat (arg_queue_write_index ?p1) + length as \<le> length (function_arg_queue ?p1)"
    "length (function_arg_queue ?p1) < 2 ^ 32" using Cons.prems w1 by simp_all
  from Cons.IH [OF this] obtain q where q:
    "push_args as ?p1 = Some (?p1\<lparr>function_arg_queue := q,
       arg_queue_write_index := arg_queue_write_index ?p1 + of_nat (length as)\<rparr>)"
    "length q = length (function_arg_queue ?p1)"
    "\<forall>i < length q. q ! i = (if Suc ?w \<le> i \<and> i < Suc ?w + length as then as ! (i - Suc ?w)
       else function_arg_queue ?p1 ! i)" using w1 by auto
  have "q ! i = (if ?w \<le> i \<and> i < ?w + length (a # as) then (a # as) ! (i - ?w) else function_arg_queue p ! i)"
    if "i < length q" for i
    using q(2,3) that w by (auto simp: nth_list_update nth_Cons' Suc_diff_Suc not_less_eq_eq)
  with q h show ?case by (intro exI [of _ q]) (simp add: add.assoc add.commute)
qed

lemma pop_args_ok:
  assumes "unat (arg_queue_read_index p) + n \<le> length (function_arg_queue p)"
    "length (function_arg_queue p) < 2 ^ 32"
  shows "pop_args n p = Some (take n (drop (unat (arg_queue_read_index p)) (function_arg_queue p)),
     p\<lparr>arg_queue_read_index := arg_queue_read_index p + of_nat n\<rparr>)"
  using assms
proof (induction n arbitrary: p)
  case (Suc n)
  let ?r = "unat (arg_queue_read_index p)"
  let ?p1 = "p\<lparr>arg_queue_read_index := arg_queue_read_index p + 1\<rparr>"
  have r: "?r < length (function_arg_queue p)" using Suc.prems(1) by simp
  have h: "functionArgQueuePopFront p = Some (function_arg_queue p ! ?r, ?p1)"
    using rd_int [OF r] by (simp only: functionArgQueuePopFront_def bind.bind_lunit)
  have r1: "unat (arg_queue_read_index p + 1) = Suc ?r"
    using unat_add_of_nat32 [of "arg_queue_read_index p" 1] r Suc.prems(2) by simp
  have "pop_args n ?p1 = Some (take n (drop (Suc ?r) (function_arg_queue p)),
     ?p1\<lparr>arg_queue_read_index := arg_queue_read_index ?p1 + of_nat n\<rparr>)"
    using Suc.IH [of ?p1] Suc.prems r1 by simp
  with h show ?case by (simp add: Cons_nth_drop_Suc [OF r, symmetric] add.assoc)
qed simp

text \<open>
  Arguments are handed over in order: after \<open>handlePrepCall\<close> has reset the queue, up to 64
  arguments (the assertion in the queue allows 63) enqueued by the caller are dequeued by the callee in the order in which they were
  enqueued, whatever earlier calls to library functions left in the queue.
\<close>

theorem argument_queue_fifo:
  assumes "enabled p" "length (function_arg_queue p) = FUNC_ARG_QUEUE_SIZE" "length as \<le> FUNC_ARG_QUEUE_SIZE"
  shows "\<exists>p1 p2 p3. handlePrepCall cs callee p = Some p1 \<and> push_args as p1 = Some p2
     \<and> pop_args (length as) p2 = Some (as, p3) \<and> last_callsite_id p3 = cs
     \<and> unat (arg_queue_write_index p2) = length as \<and> length (function_arg_queue p2) = FUNC_ARG_QUEUE_SIZE"
proof -
  let ?p1 = "(clearFunctionArgQueue p)\<lparr>last_callsite_id := cs\<rparr>"
  have h: "handlePrepCall cs callee p = Some ?p1" using assms(1) by (simp add: handlePrepCall_def when_enabled_def)
  have c: "enabled ?p1" "arg_queue_write_index ?p1 = 0" "arg_queue_read_index ?p1 = 0"
    "function_arg_queue ?p1 = function_arg_queue p" "last_callsite_id ?p1 = cs"
    using assms(1) by (simp_all add: clearFunctionArgQueue_def)
  have le: "unat (arg_queue_write_index ?p1) + length as \<le> length (function_arg_queue ?p1)"
    "length (function_arg_queue ?p1) < 2 ^ 32" using assms(2,3) c by (simp_all add: FUNC_ARG_QUEUE_SIZE_def)
  from push_args_ok [OF c(1) le] c obtain q where q:
    "push_args as ?p1 = Some (?p1\<lparr>function_arg_queue := q, arg_queue_write_index := of_nat (length as)\<rparr>)"
    "length q = length (function_arg_queue p)"
    "\<forall>i < length q. q ! i = (if i < length as then as ! i else function_arg_queue p ! i)" by auto
  let ?p2 = "?p1\<lparr>function_arg_queue := q, arg_queue_write_index := of_nat (length as)\<rparr>"
  have "take (length as) q = as"
    using q(2,3) assms(2,3) by (intro nth_equalityI) simp_all
  moreover have "pop_args (length as) ?p2 = Some (take (length as) (drop (unat (arg_queue_read_index ?p2)) (function_arg_queue ?p2)),
     ?p2\<lparr>arg_queue_read_index := arg_queue_read_index ?p2 + of_nat (length as)\<rparr>)"
    using q(2) assms(2,3) c by (intro pop_args_ok) (simp_all add: FUNC_ARG_QUEUE_SIZE_def)
  moreover have "unat (of_nat (length as) :: UInt32) = length as"
    using assms(3) by (simp add: FUNC_ARG_QUEUE_SIZE_def unat_of_nat take_bit_nat_eq_self)
  ultimately show ?thesis using h q(1,2) c assms(2) by simp
qed

end
