(* ===== verification/ProfilerRuns.thy ===== *)
theory ProfilerRuns
  imports ProfilerSpec
begin

text \<open>
  The initial state, and the account of the work of a region's children, which entries, exits and the passing
  of time keep: it never exceeds the region's own.
\<close>

section \<open>Initialisation\<close>

lemma profiler_init_ok:
  "\<exists>p. profiler_init m (KremlinProfiler_new nv cid rdi wri mn mx) = Some p \<and> prof_ok p
     \<and> active_regions p = 0 \<and> \<not> enabled p \<and> min_level p = mn \<and> max_level p = mx
     \<and> length (function_arg_queue p) = FUNC_ARG_QUEUE_SIZE \<and> shadow_mem p = Some m
     \<and> length (program_regions p) = INIT_NUM_REGIONS"
proof -
  obtain c where c: "Table_new CDEP_ROW CDEP_COL = Some c" "table_ok c" "row c = CDEP_ROW" "col c = CDEP_COL"
    using table_ok_new [of CDEP_ROW CDEP_COL] by (auto simp: CDEP_ROW_def CDEP_COL_def)
  let ?start = "KremlinProfiler_new nv cid rdi wri mn mx"
  let ?p = "?start\<lparr>initialized := True, function_arg_queue := replicate FUNC_ARG_QUEUE_SIZE (- 1),
     arg_queue_read_index := 0, arg_queue_write_index := 0, cdt_read_ptr := 0,
     control_dependence_table := Some c, region_tree := initRegionTree RegionTree_zero, shadow_mem := Some m,
     program_regions := replicate INIT_NUM_REGIONS ProgramRegion_new,
     level_versions := replicate arraySize 0, level_times := replicate arraySize 0\<rparr>"
  have eq: "profiler_init m ?start = Some ?p"
    using c(1) by (simp add: profiler_init_def KremlinProfiler_new_def Let_def initFunctionArgQueue_def
        clearFunctionArgQueue_def initControlDependences_def initProgramRegions_def increaseNumRegions_def
        initVersionArray_def initTimeArray_def)
  have act: "active_regions ?p = 0" by (simp add: active_regions_def KremlinProfiler_new_def)
  have st: "rt_stack (initRegionTree RegionTree_zero) = []"
    by (simp add: initRegionTree_def RegionTree_zero_def ProfileNode_new_def allocId_def)
  have ok: "prof_ok ?p"
    unfolding prof_ok_def nesting_ok_def act
    using c tree_ok_init st by (simp add: arrays_ok_def cdt_ok_def KremlinProfiler_new_def func_count_def
        INIT_NUM_REGIONS_def CDEP_ROW_def)
  have "\<not> enabled ?p" "min_level ?p = mn" "max_level ?p = mx"
    "length (function_arg_queue ?p) = FUNC_ARG_QUEUE_SIZE" "shadow_mem ?p = Some m"
    "length (program_regions ?p) = INIT_NUM_REGIONS"
    by (simp_all add: KremlinProfiler_new_def)
  with eq ok act show ?thesis by blast
qed

section \<open>Setting up a register table\<close>

lemma handlePrepRTable_frame:
  assumes "handlePrepRTable n k p = Some p'"
  shows "prof_ok p \<Longrightarrow> prof_ok p'" "active_regions p' = active_regions p" "enabled p' = enabled p"
    "program_regions p' = program_regions p" "curr_time p' = curr_time p" "min_level p' = min_level p"
proof -
  have *: "p' = p \<or> (\<exists>t a f fs. callstack p = f # fs \<and> p' = p\<lparr>tables := t, next_table := a,
      callstack := f\<lparr>fr_table := Some (next_table p)\<rparr> # fs, shadow_reg_file := Some (next_table p),
      waiting_for_register_table_init := False\<rparr>)"
    using assms by (cases "callstack p")
      (auto simp: handlePrepRTable_def when_enabled_def new_table_def set_current_table_def
        Let_def Option.bind_eq_Some_conv split: if_splits)
  then show "prof_ok p \<Longrightarrow> prof_ok p'" "active_regions p' = active_regions p" "enabled p' = enabled p"
    "program_regions p' = program_regions p" "curr_time p' = curr_time p" "min_level p' = min_level p"
    by (auto simp: prof_ok_def arrays_ok_def cdt_ok_def nesting_ok_def active_regions_def)
qed

section \<open>Work accounting\<close>

text \<open>The time at which the region at level \<open>i\<close> was last left for its child, or now.\<close>

definition next_start :: "'m KremlinProfiler \<Rightarrow> nat \<Rightarrow> nat" where
  "next_start p i = (if Suc i < active_regions p then unat (pr_start (program_regions p ! Suc i))
                     else unat (curr_time p))"

text \<open>The children of a region have run one after the other since its start.\<close>

definition work_ok :: "'m KremlinProfiler \<Rightarrow> bool" where
  "work_ok p \<longleftrightarrow> (\<forall>i < active_regions p.
     unat (pr_start (program_regions p ! i)) + unat (pr_childrenWork (program_regions p ! i)) \<le> next_start p i)"

lemma work_ok_entry:
  assumes "work_ok p" "active_regions p = d" "active_regions p' = Suc d" "curr_time p' = curr_time p"
    and "take d (program_regions p') = take d (program_regions p)"
    and "pr_start (program_regions p' ! d) = curr_time p" "pr_childrenWork (program_regions p' ! d) = 0"
  shows "work_ok p'"
proof -
  have same: "program_regions p' ! i = program_regions p ! i" if "i < d" for i
    using assms(5) that by (metis nth_take)
  show ?thesis unfolding work_ok_def assms(3)
  proof (intro allI impI)
    fix i
    assume i: "i < Suc d"
    show "unat (pr_start (program_regions p' ! i)) + unat (pr_childrenWork (program_regions p' ! i)) \<le> next_start p' i"
    proof (cases "i = d")
      case True
      then show ?thesis using assms by (simp add: next_start_def)
    next
      case False
      with i have id: "i < d" by simp
      have "next_start p' i = next_start p i"
      proof (cases "Suc i = d")
        case True
        then show ?thesis using assms by (simp add: next_start_def)
      next
        case False
        with id have "Suc i < d" by simp
        then show ?thesis using same [of "Suc i"] assms(2,3) by (simp add: next_start_def)
      qed
      then show ?thesis
        using assms(1) [unfolded work_ok_def, rule_format, of i] assms(2) id same [OF id] by simp
    qed
  qed
qed

lemma unat_add_le: "unat (a :: UInt64) + unat b \<le> unat (c :: UInt64) \<Longrightarrow> unat (a + b) = unat a + unat b"
proof -
  assume "unat a + unat b \<le> unat c"
  also have "\<dots> < 2 ^ LENGTH(64)" by (rule unsigned_less)
  finally show ?thesis by (simp add: unat_word_ariths take_bit_nat_eq_self)
qed

lemma work_ok_exit:
  assumes "work_ok p" "active_regions p = Suc d" "active_regions p' = d" "curr_time p' = curr_time p"
    and "d < length (program_regions p)" "program_regions p' = regions_after_exit p d"
  shows "work_ok p'"
proof -
  let ?rs = "program_regions p"
  have top: "unat (pr_start (?rs ! d)) + unat (pr_childrenWork (?rs ! d)) \<le> unat (curr_time p)"
    using assms(1) [unfolded work_ok_def, rule_format, of d] assms(2) by (simp add: next_start_def)
  then have le: "pr_start (?rs ! d) \<le> curr_time p" by (simp add: word_le_nat_alt)
  then have work: "unat (curr_time p - pr_start (?rs ! d)) = unat (curr_time p) - unat (pr_start (?rs ! d))"
    by (rule unat_sub)
  show ?thesis unfolding work_ok_def assms(3)
  proof (intro allI impI)
    fix i
    assume i: "i < d"
    have old: "unat (pr_start (?rs ! i)) + unat (pr_childrenWork (?rs ! i)) \<le> unat (pr_start (?rs ! Suc i))"
      using assms(1) [unfolded work_ok_def, rule_format, of i] assms(2) i by (simp add: next_start_def)
    show "unat (pr_start (program_regions p' ! i)) + unat (pr_childrenWork (program_regions p' ! i)) \<le> next_start p' i"
    proof (cases "Suc i = d")
      case False
      with i have lt: "Suc i < d" by simp
      then have "program_regions p' ! i = ?rs ! i" "pr_start (program_regions p' ! Suc i) = pr_start (?rs ! Suc i)"
        using assms(5,6) by (auto simp: regions_after_exit_def Let_def nth_list_update add_child_def)
      then show ?thesis using old lt assms(3) by (simp add: next_start_def)
    next
      case True
      have ns: "next_start p' i = unat (curr_time p)" using True assms(3,4) by (simp add: next_start_def)
      have st: "pr_start (program_regions p' ! i) = pr_start (?rs ! i)"
        using True assms(5,6) by (auto simp: regions_after_exit_def Let_def nth_list_update add_child_def)
      have cw: "pr_childrenWork (program_regions p' ! i) = pr_childrenWork (?rs ! i)
          \<or> pr_childrenWork (program_regions p' ! i) = pr_childrenWork (?rs ! i) + (curr_time p - pr_start (?rs ! d))"
        using True assms(5,6) by (auto simp: regions_after_exit_def Let_def nth_list_update add_child_def)
      have "unat (pr_childrenWork (?rs ! i)) + unat (curr_time p - pr_start (?rs ! d)) \<le> unat (curr_time p)"
        using old top True work by simp
      from unat_add_le [OF this] cw old top True work show ?thesis
        unfolding ns st by auto
    qed
  qed
qed

lemma work_ok_time:
  assumes "work_ok p" "unat (curr_time p) + unat n < 2 ^ 64"
  shows "work_ok (increaseTime n p)"
proof -
  have "unat (ucast n :: Time) = unat n" by (simp add: unsigned_ucast_eq take_bit_nat_eq_self order.strict_trans2 [OF unsigned_less])
  then have "unat (curr_time p + ucast n) = unat (curr_time p) + unat n"
    using assms(2) by (simp add: unat_word_ariths take_bit_nat_eq_self)
  then show ?thesis using assms(1)
    by (auto simp: work_ok_def next_start_def increaseTime_def active_regions_def intro: le_trans split: if_splits)
qed

lemma prof_ok_increaseTime: "prof_ok (increaseTime n p) = prof_ok p" "enabled (increaseTime n p) = enabled p"
  by (simp_all add: increaseTime_def prof_ok_def arrays_ok_def cdt_ok_def nesting_ok_def active_regions_def)

section \<open>A concrete run\<close>

text \<open>The profiler of the default configuration, switched on.\<close>

abbreviation default_cfg :: KremlinConfiguration where
  "default_cfg \<equiv> KremlinConfiguration_new"

lemma started:
  "\<exists>p :: unit KremlinProfiler. profiler_init () (KremlinProfiler_new nv cid rdi wri
       (min_profiled_level default_cfg) (max_profiled_level default_cfg)) = Some p
     \<and> prof_ok (p\<lparr>enabled := True\<rparr>) \<and> active_regions (p\<lparr>enabled := True\<rparr>) = 0
     \<and> length (function_arg_queue p) = FUNC_ARG_QUEUE_SIZE \<and> can_enter (p\<lparr>enabled := True\<rparr>) RegionFunc 0 \<and> min_level p = 0"
proof -
  let ?mn = "min_profiled_level default_cfg" and ?mx = "max_profiled_level default_cfg"
  obtain p :: "unit KremlinProfiler" where
    p: "profiler_init () (KremlinProfiler_new nv cid rdi wri ?mn ?mx) = Some p" "prof_ok p" "active_regions p = 0"
      "min_level p = ?mn" "max_level p = ?mx" "length (function_arg_queue p) = FUNC_ARG_QUEUE_SIZE"
      "length (program_regions p) = INIT_NUM_REGIONS"
    using profiler_init_ok [of "()" nv cid rdi wri ?mn ?mx] by blast
  let ?p = "p\<lparr>enabled := True\<rparr>"
  have "prof_ok ?p" using p(2) by (simp add: prof_ok_def arrays_ok_def cdt_ok_def nesting_ok_def active_regions_def)
  moreover have "active_regions ?p = 0" using p(3) by (simp add: active_regions_def)
  moreover have "can_enter ?p RegionFunc 0"
    using p(4,5,7) by (simp add: can_enter_def KremlinConfiguration_new_def arraySize_def INIT_NUM_REGIONS_def)
  moreover have "min_level p = 0" using p(4) by (simp add: KremlinConfiguration_new_def)
  ultimately show ?thesis using p(1,6) by (intro exI [of _ p] conjI)
qed

lemma sample_started:
  "\<exists>p :: unit KremlinProfiler. prof_ok p \<and> enabled p \<and> active_regions p = 0
     \<and> length (function_arg_queue p) = FUNC_ARG_QUEUE_SIZE \<and> can_enter p RegionFunc 0"
proof -
  obtain p :: "unit KremlinProfiler" where "prof_ok (p\<lparr>enabled := True\<rparr>)" "active_regions (p\<lparr>enabled := True\<rparr>) = 0"
    "length (function_arg_queue p) = FUNC_ARG_QUEUE_SIZE" "can_enter (p\<lparr>enabled := True\<rparr>) RegionFunc 0"
    using started [of 1 0 0 0] by blast
  then show ?thesis by (intro exI [of _ "p\<lparr>enabled := True\<rparr>"]) simp
qed

lemma entry_facts:
  assumes "prof_ok p" "enabled p" "active_regions p = d" "can_enter p rtype d"
    and H: "handleRegionEntry cfg sid rtype p = Some p'"
  shows "prof_ok p'" "enabled p'" "active_regions p' = Suc d" "take d (program_regions p') = take d (program_regions p)"
    "pr_regionId (program_regions p' ! d) = sid" "pr_regionType (program_regions p' ! d) = rtype"
    "min_level p' = min_level p" "max_level p' = max_level p" "program_regions p' = regions_after_entry sid rtype p d"
    "curr_time p' = curr_time p"
  using region_entry_ok_lemma [OF assms(1-4), of cfg sid] unfolding H by auto

lemma entry_exists:
  assumes "prof_ok p" "enabled p" "active_regions p = d" "can_enter p rtype d"
  obtains p' where "handleRegionEntry cfg sid rtype p = Some p'"
  using region_entry_ok_lemma [OF assms, of cfg sid] by blast

text \<open>Inside \<open>main\<close> there is room for another function.\<close>

lemma can_enter_callee:
  assumes "prof_ok p" "enabled p" "active_regions p = 0" "can_enter p RegionFunc 0"
    and "handleRegionEntry cfg sid RegionFunc p = Some p'"
  shows "can_enter p' RegionFunc 1"
proof -
  note e = entry_facts [OF assms]
  have "program_regions p \<noteq> []" using assms(1) by (simp add: prof_ok_def arrays_ok_def)
  then have "length (program_regions p') = length (program_regions p)"
    unfolding e(9) by (simp add: regions_after_entry_def grown_def)
  then show ?thesis using assms(4) e(7,8) by (simp add: can_enter_def arraySize_def)
qed

lemma sample_in_main:
  "\<exists>p :: unit KremlinProfiler. prof_ok p \<and> enabled p \<and> active_regions p = 1
     \<and> pr_regionId (program_regions p ! 0) = 7 \<and> pr_regionType (program_regions p ! 0) = RegionFunc
     \<and> can_enter p RegionFunc 1"
proof -
  obtain p :: "unit KremlinProfiler" where p: "prof_ok p" "enabled p"
    "active_regions p = 0" "can_enter p RegionFunc 0" using sample_started by blast
  obtain p' where p': "handleRegionEntry default_cfg 7 RegionFunc p = Some p'" by (rule entry_exists [OF p])
  note e = entry_facts [OF p p']
  show ?thesis using e(1-3,5,6) can_enter_callee [OF p p'] by (intro exI [of _ p'] conjI) simp_all
qed

lemma sample_in_callee:
  "\<exists>p :: unit KremlinProfiler. prof_ok p \<and> enabled p \<and> active_regions p = Suc 1
     \<and> pr_regionId (program_regions p ! 0) = 7 \<and> pr_regionId (program_regions p ! 1) = 9"
proof -
  obtain p :: "unit KremlinProfiler" where p: "prof_ok p" "enabled p" "active_regions p = 1" "can_enter p RegionFunc 1"
    and seven: "pr_regionId (program_regions p ! 0) = 7" using sample_in_main by blast
  obtain p' where p': "handleRegionEntry default_cfg 9 RegionFunc p = Some p'" by (rule entry_exists [OF p])
  note e = entry_facts [OF p p']
  have "program_regions p' ! 0 = program_regions p ! 0" using e(4) nth_take [of 0 1] by (metis less_one)
  then show ?thesis using e(1-3,5) seven by (intro exI [of _ p'] conjI) simp_all
qed

theorem region_entry_ok_witness:
  "\<exists>(p :: unit KremlinProfiler) p'. active_regions p = 0 \<and> handleRegionEntry default_cfg 7 RegionFunc p = Some p'
     \<and> prof_ok p' \<and> active_regions p' = 1"
proof -
  obtain p :: "unit KremlinProfiler" where p: "prof_ok p" "enabled p" "active_regions p = 0"
    "can_enter p RegionFunc 0" using sample_started by blast
  from region_entry_ok [OF p(1-4), of default_cfg 7] p(3) show ?thesis by auto
qed

theorem region_exit_ok_witness:
  "\<exists>(p :: unit KremlinProfiler) p'. active_regions p = 1 \<and> handleRegionExit (\<lambda>_. 0) 7 RegionFunc p = Some p'
     \<and> prof_ok p' \<and> active_regions p' = 0"
proof -
  obtain p :: "unit KremlinProfiler" where p: "prof_ok p" "enabled p" "active_regions p = Suc 0"
    "RegionFunc = pr_regionType (program_regions p ! 0)" using sample_in_main by fastforce
  from region_exit_ok [OF p, of "\<lambda>_. 0" 7] p(3) show ?thesis by auto
qed

theorem landing_pad_is_exits_witness:
  "\<exists>(p :: unit KremlinProfiler) p'. active_regions p = 2 \<and> handleLandingPad (\<lambda>_. 0) 7 RegionFunc p = Some p'
     \<and> exit_innermost (\<lambda>_. 0) p = Some p' \<and> active_regions p' = 1"
proof -
  obtain p :: "unit KremlinProfiler" where p: "prof_ok p" "enabled p" "active_regions p = Suc 1"
    "pr_regionId (program_regions p ! 0) = 7" "pr_regionId (program_regions p ! 1) = 9" using sample_in_callee by blast
  have "\<forall>k. 0 < k \<longrightarrow> k \<le> 1 \<longrightarrow> pr_regionId (program_regions p ! k) \<noteq> 7" using p(5) by (auto simp: le_Suc_eq)
  from landing_pad_is_exits [OF p(1-3) _ p(4) this, of "\<lambda>_. 0" RegionFunc] p(3) show ?thesis
    by (cases "exit_innermost (\<lambda>_. 0) p") (auto simp: numeral_2_eq_2)
qed

theorem cleanup_closes_all_witness:
  "\<exists>(p :: unit KremlinProfiler) p'. active_regions p = 1 \<and> cleanup (\<lambda>_. 0) p = Some p' \<and> active_regions p' = 0"
proof -
  obtain p :: "unit KremlinProfiler" where p: "prof_ok p" "enabled p" "active_regions p = 1"
    using sample_in_main by blast
  from cleanup_closes_all [OF p(1,2), of "\<lambda>_. 0"] p(3) show ?thesis by auto
qed

theorem argument_queue_fifo_witness:
  "\<exists>(p :: unit KremlinProfiler) p1 p2 p3. handlePrepCall 9 0 p = Some p1 \<and> push_args [4, - 1, 6] p1 = Some p2
     \<and> pop_args 3 p2 = Some ([4, - 1, 6], p3)"
proof -
  obtain p :: "unit KremlinProfiler" where p: "enabled p" "length (function_arg_queue p) = FUNC_ARG_QUEUE_SIZE"
    using sample_started by blast
  from argument_queue_fifo [OF p, of "[4, - 1, 6]" 9 0] show ?thesis
    by (auto simp: FUNC_ARG_QUEUE_SIZE_def eval_nat_numeral)
qed

end
