(* ===== verification/TimestampSpec.thy ===== *)
theory TimestampSpec
  imports TimestampUpdate
begin

text \<open>
  What the instruction handlers compute: the destination register gets, at every instrumented
  level, the latest time of its dependences, the critical path of each active region follows, and
  nothing else changes.
\<close>

section \<open>Several updates of one destination\<close>

lemma at_level_at_level: "at_level (at_level p a t rs) a t' rs' = at_level p a t' rs'"
  by (simp add: at_level_def)

lemma ready_at_level:
  assumes "ready p a t" "table_ok t'" "row t' = row t" "col t' = col t" "length rs = length (program_regions p)"
  shows "ready (at_level p a t' rs) a t'"
proof -
  have "depth (at_level p a t' rs) = depth p" by (simp add: at_level_def)
  with at_level_ready(1-3) [OF assms] show ?thesis
    unfolding ready_def by simp
qed

lemma dest_updated_trans:
  "dest_updated t t1 d f n \<Longrightarrow> dest_updated t1 t2 d g n \<Longrightarrow> dest_updated t t2 d g n"
  by (auto simp: dest_updated_def in_table_def)

lemma cp_updated_same: "cp_updated rs rs1 False mn f n \<Longrightarrow> rs1 = rs"
  by (auto simp: cp_updated_def intro: nth_equalityI)

lemma dest_updated_cong: "(\<And>k. k < n \<Longrightarrow> f k = g k) \<Longrightarrow> dest_updated t t' d f n = dest_updated t t' d g n"
proof -
  assume *: "\<And>k. k < n \<Longrightarrow> f k = g k"
  have "f (nat j) = g (nat j)" if "0 \<le> j" "j < int n" for j using * that by simp
  then show ?thesis by (auto simp: dest_updated_def in_table_def)
qed

lemma cp_updated_cong: "(\<And>k. k < n \<Longrightarrow> f k = g k) \<Longrightarrow> cp_updated rs rs' u mn f n = cp_updated rs rs' u mn g n"
proof -
  assume *: "\<And>k. k < n \<Longrightarrow> f k = g k"
  have "f (j - mn) = g (j - mn)" if "mn \<le> j" "j < mn + n" for j using * that by simp
  then show ?thesis by (auto simp: cp_updated_def)
qed

text \<open>The outcome of an instruction: the destination's times and the regions' critical paths.\<close>

definition updated_to ::
    "'m KremlinProfiler \<Rightarrow> table_ptr \<Rightarrow> Table \<Rightarrow> Reg \<Rightarrow> bool \<Rightarrow> (nat \<Rightarrow> Time) \<Rightarrow> 'm KremlinProfiler option \<Rightarrow> bool" where
  "updated_to p a t dest update_cp f res \<longleftrightarrow> (\<exists>t' rs'. res = Some (at_level p a t' rs')
     \<and> dest_updated t t' dest f (depth p)
     \<and> cp_updated (program_regions p) rs' update_cp (unat (min_level p)) f (depth p))"

lemma updated_to_cong:
  "(\<And>k. k < depth p \<Longrightarrow> f k = g k) \<Longrightarrow> updated_to p a t d u f res = updated_to p a t d u g res"
  unfolding updated_to_def using dest_updated_cong [of "depth p" f g] cp_updated_cong [of "depth p" f g] by simp

lemma timestampUpdater_updated_to:
  assumes "ready p a t" "reg_ok t dest" "nd \<le> 5" "\<And>j. j < nd \<Longrightarrow> reg_ok t (fst (src_arg srcs j))"
  shows "updated_to p a t dest up (new_time p t use_ctrl nd False srcs [])
     (timestampUpdater ms use_ctrl up nd False dest srcs addr sz p)"
  unfolding updated_to_def by (rule timestampUpdater_regs [OF assms])

text \<open>The latest time of a list of sources with offsets.\<close>

definition latest :: "'m KremlinProfiler \<Rightarrow> Table \<Rightarrow> bool \<Rightarrow> srcs \<Rightarrow> nat \<Rightarrow> Time" where
  "latest p t use_ctrl srcs k =
     foldl max (if use_ctrl then ctrl_time p k else 0)
       (map (\<lambda>(r, off). reg_time t r k + ucast off) srcs)"

lemma new_time_latest:
  assumes "nd = length srcs"
  shows "new_time p t use_ctrl nd False srcs [] k = latest p t use_ctrl srcs k"
proof -
  have "dep_times t False nd srcs k = map (\<lambda>(r, off). reg_time t r k + ucast off) srcs"
    by (rule nth_equalityI) (simp_all add: dep_times_def src_arg_def assms case_prod_unfold)
  then show ?thesis by (simp add: new_time_def latest_def)
qed

lemma timestampUpdater_latest:
  assumes "ready p a t" "reg_ok t dest" "length srcs \<le> 5" "\<forall>(r, off) \<in> set srcs. reg_ok t r" "nd = length srcs"
  shows "updated_to p a t dest up (latest p t use_ctrl srcs)
     (timestampUpdater ms use_ctrl up nd False dest srcs addr sz p)"
proof -
  have "reg_ok t (fst (src_arg srcs j))" if "j < nd" for j
    using assms(4,5) that nth_mem [of j srcs] by (auto simp: src_arg_def case_prod_unfold)
  from timestampUpdater_updated_to [OF assms(1,2) _ this, where up = up and use_ctrl = use_ctrl and ms = ms and addr = addr and sz = sz and nd = nd] assms(3,5)
  show ?thesis using updated_to_cong [of p "new_time p t use_ctrl nd False srcs []" "latest p t use_ctrl srcs"]
    new_time_latest [OF assms(5), of p t use_ctrl] by simp
qed

lemma latest_append: "latest p t uc (xs @ ys) k =
   foldl max (latest p t uc xs k) (map (\<lambda>(r, off). reg_time t r k + ucast off) ys)"
  by (simp add: latest_def)

text \<open>
  Two updates in a row, the second one starting from the first one's result: together they are an
  update from all the sources.
\<close>

lemma two_updates:
  assumes rdy: "ready p a t" and dest: "reg_ok t dest"
    and n1: "length s1 \<le> 5" "\<forall>(r, off) \<in> set s1. reg_ok t r"
    and n2: "length s2 \<le> 4" "\<forall>(r, off) \<in> set s2. reg_ok t r \<and> to_int r \<noteq> to_int dest"
    and nd: "nd1 = length s1" "nd2 = Suc (length s2)"
  shows "updated_to p a t dest True (latest p t True (s1 @ s2))
     (do { p \<leftarrow> timestampUpdater ms True False nd1 False dest s1 addr sz p;
           timestampUpdater ms False True nd2 False dest ((dest, 0) # s2) addr sz p })"
proof -
  from timestampUpdater_latest [OF rdy dest n1 nd(1), where up = False and use_ctrl = True and ms = ms and addr = addr and sz = sz] obtain t1 rs1 where
    u1: "timestampUpdater ms True False nd1 False dest s1 addr sz p = Some (at_level p a t1 rs1)"
      "dest_updated t t1 dest (latest p t True s1) (depth p)"
      "cp_updated (program_regions p) rs1 False (unat (min_level p)) (latest p t True s1) (depth p)"
    by (auto simp: updated_to_def)
  let ?p1 = "at_level p a t1 rs1"
  have rs1: "rs1 = program_regions p" by (rule cp_updated_same [OF u1(3)])
  have t1: "table_ok t1" "row t1 = row t" "col t1 = col t" using u1(2) by (simp_all add: dest_updated_def)
  have rdy1: "ready ?p1 a t1" using ready_at_level [OF rdy t1, of rs1] rs1 by simp
  have ro: "reg_ok t1 r = reg_ok t r" for r using t1 by (simp add: reg_ok_def)
  have "\<forall>(r, off) \<in> set ((dest, 0) # s2). reg_ok t1 r" using n2(2) dest ro by auto
  from timestampUpdater_latest [OF rdy1 _ _ this, where dest = dest and nd = nd2 and up = True and use_ctrl = False and ms = ms and addr = addr and sz = sz] dest ro n2(1) nd(2)
  have u2: "updated_to ?p1 a t1 dest True (latest ?p1 t1 False ((dest, 0) # s2))
     (timestampUpdater ms False True nd2 False dest ((dest, 0) # s2) addr sz ?p1)" by simp
  have eq: "latest ?p1 t1 False ((dest, 0) # s2) k = latest p t True (s1 @ s2) k" if k: "k < depth p" for k
  proof -
    have "int (depth p) \<le> col t" using rdy by (simp only: ready_def regs_ready_def)
    with k have kc: "int k < col t" by linarith
    from k have "int k < int (depth p)" by (simp only: of_nat_less_iff)
    then have kd: "int k < uint (curr_num_instrumented_levels p)" by simp
    have d: "reg_time t1 dest k = latest p t True s1 k"
      using u1(2) dest kd kc by (simp add: dest_updated_def reg_ok_def in_table_def)
    have o: "reg_time t1 r k = reg_time t r k" if "reg_ok t r" "to_int r \<noteq> to_int dest" for r
      using u1(2) that kc by (simp add: dest_updated_def reg_ok_def in_table_def)
    have m: "map (\<lambda>(r, off). reg_time t1 r k + ucast off) s2 = map (\<lambda>(r, off). reg_time t r k + ucast off) s2"
      using n2(2) o by (auto intro!: map_cong)
    show ?thesis unfolding latest_append d [symmetric] m [symmetric] by (simp add: latest_def)
  qed
  have dep: "depth ?p1 = depth p" "min_level ?p1 = min_level p" "program_regions ?p1 = program_regions p"
    by (simp_all add: at_level_def rs1)
  from u2 obtain t2 rs2 where
    u2': "timestampUpdater ms False True nd2 False dest ((dest, 0) # s2) addr sz ?p1 = Some (at_level p a t2 rs2)"
      "dest_updated t1 t2 dest (latest ?p1 t1 False ((dest, 0) # s2)) (depth p)"
      "cp_updated (program_regions p) rs2 True (unat (min_level p)) (latest ?p1 t1 False ((dest, 0) # s2)) (depth p)"
    by (auto simp: updated_to_def at_level_at_level dep)
  show ?thesis unfolding updated_to_def u1(1) bind.bind_lunit u2'(1)
    using dest_updated_trans [OF u1(2) u2'(2)] u2'(3) dest_updated_cong [OF eq, of "depth p"]
      cp_updated_cong [OF eq, of "depth p"] by auto
qed


section \<open>The timestamp and phi instructions\<close>

text \<open>
  C1. The seven-source timestamp, computed in two passes over the destination, equals the latest of
  the control dependence and the seven sources with their latencies, at every instrumented level;
  the critical paths follow that final value and nothing else of the state changes.
\<close>

theorem handleTimestamp7_latest:
  assumes "enabled p" "ready p a t" "reg_ok t dest"
    and "\<forall>(r, off) \<in> set [s1, s2, s3, s4, s5, s6, s7]. reg_ok t r"
    and "\<forall>(r, off) \<in> set [s6, s7]. to_int r \<noteq> to_int dest"
  shows "updated_to p a t dest True (latest p t True [s1, s2, s3, s4, s5, s6, s7])
     (handleTimestamp7 ms dest s1 s2 s3 s4 s5 s6 s7 p)"
  using two_updates [OF assms(2,3), of "[s1, s2, s3, s4, s5]" "[s6, s7]" 5 3 ms 0 0] assms(1,4,5)
  by (auto simp: handleTimestamp7_def when_enabled_def)

text \<open>
  C19. A phi takes the latest time of the incoming value and its four control conditions; it neither
  uses the current control dependence nor extends a critical path.
\<close>

theorem handlePhi4To1_latest:
  assumes "enabled p" "ready p a t" "reg_ok t dest"
    and "\<forall>r \<in> set [src, c1, c2, c3, c4]. reg_ok t r"
  shows "updated_to p a t dest False (latest p t False [(src, 0), (c1, 0), (c2, 0), (c3, 0), (c4, 0)])
     (handlePhi4To1 ms dest src c1 c2 c3 c4 p)"
  using timestampUpdater_latest [OF assms(2,3), of "[(src, 0), (c1, 0), (c2, 0), (c3, 0), (c4, 0)]" 5
      False False ms 0 0] assms(1,4)
  by (auto simp: handlePhi4To1_def when_enabled_def)

section \<open>Variable numbers of arguments\<close>

lemma those_5 [simp]: "those [Some a, Some b, Some c, Some d, Some e] = Some [a, b, c, d, e]"
  by simp

text \<open>Up to five sources fill the arrays with the first one and then overwrite it in turn.\<close>

fun flat_args :: "srcs \<Rightarrow> UInt32 list" where
  "flat_args [] = []"
| "flat_args ((r, off) # ss) = r # off # flat_args ss"

definition padded :: "srcs \<Rightarrow> srcs" where
  "padded ss = (if ss = [] then [] else ss @ replicate (5 - length ss) (hd ss))"

lemma list_upto5:
  assumes "xs \<noteq> []" "length xs \<le> 5"
  obtains a where "xs = [a]" | a b where "xs = [a, b]" | a b c where "xs = [a, b, c]"
    | a b c d where "xs = [a, b, c, d]" | a b c d e where "xs = [a, b, c, d, e]"
proof -
  have "length xs \<noteq> 0" using assms(1) by simp
  with assms(2) consider "length xs = 1" | "length xs = 2" | "length xs = 3" | "length xs = 4" | "length xs = 5"
    by linarith
  then show thesis
    by cases (use that in \<open>auto simp: eval_nat_numeral length_Suc_conv\<close>)
qed

lemma foldl_max_ge: "(b :: 'a::linorder) \<le> foldl max b xs \<and> (x \<in> set xs \<longrightarrow> x \<le> foldl max b xs)"
proof (induction xs arbitrary: b)
  case (Cons y ys)
  from Cons.IH [of "max b y"] show ?case by auto
qed simp

lemma foldl_max_replicate: "x \<le> (b :: 'a::linorder) \<Longrightarrow> foldl max b (replicate n x) = b"
  by (induction n) (simp_all add: max_absorb1)

lemma latest_padded:
  assumes "ss \<noteq> []"
  shows "latest p t uc (padded ss) k = latest p t uc ss k"
proof -
  let ?f = "\<lambda>(r, off). reg_time t r k + ucast off"
  have "?f (hd ss) \<in> set (map ?f ss)" using assms by simp
  then have "?f (hd ss) \<le> latest p t uc ss k" using foldl_max_ge by (metis latest_def)
  then show ?thesis using assms foldl_max_replicate [of "?f (hd ss)" "latest p t uc ss k" "5 - length ss"]
    by (simp add: padded_def latest_append)
qed

lemma padded_length: "ss \<noteq> [] \<Longrightarrow> length ss \<le> 5 \<Longrightarrow> length (padded ss) = 5"
  by (simp add: padded_def)

lemma padded_set: "set (padded ss) = set ss"
  by (auto simp: padded_def)

lemma flat_args_Cons: "flat_args (a # ss) = fst a # snd a # flat_args ss"
  by (cases a) simp

lemma va_put_first:
  "va_put True 0 r off v = \<lparr>va_regs = replicate 5 (Some r), va_offsets = replicate 5 (Some off)\<rparr>"
  "va_put False 0 r off v = v\<lparr>va_regs := replicate 5 (Some r)\<rparr>"
  by (simp_all add: va_put_def Let_def)

lemma va_put_next:
  "i \<noteq> 0 \<Longrightarrow> va_put True i r off \<lparr>va_regs = rs, va_offsets = os\<rparr> = \<lparr>va_regs = rs[i := Some r], va_offsets = os[i := Some off]\<rparr>"
  "i \<noteq> 0 \<Longrightarrow> va_put False i r off \<lparr>va_regs = rs, va_offsets = os\<rparr> = \<lparr>va_regs = rs[i := Some r], va_offsets = os\<rparr>"
  by (simp_all add: va_put_def Let_def)

lemma va_loop_step:
  "va_loop upd True i (Suc k) (r # off # args) v p =
     (if i mod 5 = 4 then va_srcs (va_put True (i mod 5) r off v) \<bind> (\<lambda>s. upd s p) else Some p)
     \<bind> va_loop upd True (Suc i) k args (va_put True (i mod 5) r off v)"
  "va_loop upd False i (Suc k) (r # args) v p =
     (if i mod 5 = 4 then va_srcs (va_put False (i mod 5) r 0 v) \<bind> (\<lambda>s. upd s p) else Some p)
     \<bind> va_loop upd False (Suc i) k args (va_put False (i mod 5) r 0 v)"
  by (simp_all add: Let_def)

declare va_loop.simps(2) [simp del]

lemmas va_loop_numeral = va_loop_step [where k = "pred_numeral k" for k, folded numeral_eq_Suc]

lemmas va_eval = handleVariableNumArgs_def va_init_def va_srcs_def va_put_first va_put_next
  va_loop_step flat_args_Cons va_loop_numeral unat_of_nat

text \<open>One batch of at most five sources, whatever the arrays held before.\<close>

definition va_full :: "srcs \<Rightarrow> VarArgs" where
  "va_full ss = \<lparr>va_regs = map (\<lambda>s. Some (fst s)) ss, va_offsets = map (\<lambda>s. Some (snd s)) ss\<rparr>"

lemma those_map_Some: "those (map (\<lambda>x. Some (f x)) xs) = Some (map f xs)"
  by (induction xs) simp_all

lemma va_srcs_full: "va_srcs (va_full ss) = Some ss"
  by (simp add: va_srcs_def va_full_def those_map_Some zip_map_fst_snd)

lemma va_loop_0: "va_loop upd uo i 0 args v = (\<lambda>p. Some (v, p))"
  by (rule ext) simp

lemma va_batch:
  assumes "ss \<noteq> []" "length ss \<le> 5"
  shows "va_loop upd True 0 (length ss) (flat_args ss @ args) v p =
     (if length ss = 5 then upd ss p else Some p) \<bind> (\<lambda>p. Some (va_full (padded ss), p))"
proof -
  have r: "replicate 5 x = [x, x, x, x, x]" "replicate 4 x = [x, x, x, x]" "replicate 3 x = [x, x, x]"
    "replicate 2 x = [x, x]" for x :: 'x
    by (simp_all add: eval_nat_numeral)
  show ?thesis
    by (rule list_upto5 [OF assms]) (simp_all add: va_eval va_loop_0 padded_def r va_full_def)
qed

lemma va_loop_mod: "va_loop upd uo (i + 5) k args v p = va_loop upd uo i k args v p"
proof (induction k arbitrary: i args v p)
  case (Suc k)
  have "va_loop upd uo (Suc i + 5) k = va_loop upd uo (Suc i) k" by (intro ext) (rule Suc.IH)
  then have "va_loop upd uo (6 + i) k = va_loop upd uo (Suc i) k" by simp
  then show ?case
    by (cases uo) (simp_all add: va_loop.simps(2) Let_def split: list.split)
qed simp

lemma va_loop_append:
  "va_loop upd True i (k + l) (flat_args xs @ args) v p =
     va_loop upd True i k (flat_args xs) v p \<bind> (\<lambda>(v, p). va_loop upd True (i + k) l args v p)"
  if "k = length xs"
  using that
proof (induction xs arbitrary: i k v p)
  case (Cons x xs)
  then obtain k' where k': "k = Suc k'" "k' = length xs" by auto
  let ?v = "va_put True (i mod 5) (fst x) (snd x) v"
  let ?q = "if i mod 5 = 4 then va_srcs ?v \<bind> (\<lambda>s. upd s p) else Some p"
  show ?case
    unfolding k'(1) flat_args_Cons append_Cons add_Suc va_loop_step
    by (cases ?q) (simp_all only: bind.bind_lzero bind.bind_lunit Cons.IH [OF k'(2)] add_Suc add_Suc_right)
qed simp

lemma flat_args_append: "flat_args (xs @ ys) = flat_args xs @ flat_args ys"
  by (induction xs rule: flat_args.induct) simp_all

lemma padded_5: "length ss = 5 \<Longrightarrow> padded ss = ss"
  by (auto simp: padded_def)

text \<open>A batch of at most five sources is one update from these sources.\<close>

lemma handleVariableNumArgs_batch:
  assumes "ss \<noteq> []" "length ss \<le> 5"
  shows "handleVariableNumArgs ms uc up False True um dest 0 addr sz (of_nat (length ss)) (flat_args ss) p
     = timestampUpdater ms uc up 5 um dest (padded ss) addr sz p"
proof -
  have "unat (of_nat (length ss) :: UInt32) = length ss" using assms(2) by (intro unat_of_nat32) simp
  moreover have "length ss mod 5 \<noteq> 0 \<longleftrightarrow> length ss \<noteq> 5"
  proof -
    from assms have "length ss \<in> {1, 2, 3, 4, 5}" by (auto simp: le_Suc_eq eval_nat_numeral)
    then show ?thesis by auto
  qed
  ultimately show ?thesis
    using va_batch [OF assms, of "\<lambda>s. timestampUpdater ms uc up 5 um dest s addr sz" "[]"
        "va_init False True (length ss)" p] padded_5 [of ss]
    by (auto simp: handleVariableNumArgs_def Let_def va_srcs_full)
qed

lemma handleVariableNumArgs_two_batches:
  assumes "length xs = 5" "ys \<noteq> []" "length ys \<le> 5"
  shows "handleVariableNumArgs ms uc up False True um dest 0 addr sz (of_nat (length (xs @ ys))) (flat_args (xs @ ys)) p
     = do { p \<leftarrow> timestampUpdater ms uc up 5 um dest xs addr sz p;
            timestampUpdater ms uc up 5 um dest (padded ys) addr sz p }"
proof -
  let ?u = "\<lambda>s. timestampUpdater ms uc up 5 um dest s addr sz"
  have len: "unat (of_nat (length (xs @ ys)) :: UInt32) = length xs + length ys"
    using assms by (subst unat_of_nat32) simp_all
  have mod: "(length xs + length ys) mod 5 = length ys mod 5" using assms(1) by simp
  have nz: "length ys mod 5 \<noteq> 0 \<longleftrightarrow> length ys \<noteq> 5"
  proof -
    from assms have "length ys \<in> {1, 2, 3, 4, 5}" by (auto simp: le_Suc_eq eval_nat_numeral)
    then show ?thesis by auto
  qed
  have l1: "va_loop ?u True 0 (length xs) (flat_args xs) v p = ?u xs p \<bind> (\<lambda>p. Some (va_full xs, p))" for v p
    using va_batch [of xs ?u "[]" v p] assms(1) padded_5 [of xs] by (cases xs) auto
  have l2: "va_loop ?u True (length xs) (length ys) (flat_args ys) v p =
      (if length ys = 5 then ?u ys p else Some p) \<bind> (\<lambda>p. Some (va_full (padded ys), p))" for v p
    using va_batch [OF assms(2,3), of ?u "[]" v p] va_loop_mod [of ?u True 0] assms(1) by simp
  have l: "va_loop ?u True 0 (length xs + length ys) (flat_args (xs @ ys)) v p =
      ?u xs p \<bind> (\<lambda>p. (if length ys = 5 then ?u ys p else Some p) \<bind> (\<lambda>p. Some (va_full (padded ys), p)))" for v p
    unfolding flat_args_append va_loop_append [OF refl] l1
    by (cases "?u xs p") (simp_all add: l2)
  show ?thesis
    unfolding handleVariableNumArgs_def Let_def len l mod nz
    using padded_5 [of ys] by (cases "?u xs p") (auto simp: va_srcs_full split: Option.bind_splits)
qed

lemma timestampUpdater_padded:
  assumes "ready p a t" "reg_ok t dest" "ys \<noteq> []" "length ys \<le> 5" "\<forall>(r, off) \<in> set ys. reg_ok t r"
  shows "updated_to p a t dest up (latest p t uc ys)
     (timestampUpdater ms uc up 5 False dest (padded ys) addr sz p)"
proof -
  have l: "length (padded ys) \<le> 5" "5 = length (padded ys)"
    using padded_length [OF assms(3,4)] by simp_all
  have s: "\<forall>(r, off) \<in> set (padded ys). reg_ok t r" using assms(5) by (simp only: padded_set)
  have "updated_to p a t dest up (latest p t uc (padded ys))
     (timestampUpdater ms uc up 5 False dest (padded ys) addr sz p)"
    by (rule timestampUpdater_latest [OF assms(1,2) l(1) s l(2)])
  moreover have "updated_to p a t dest up (latest p t uc (padded ys)) r =
      updated_to p a t dest up (latest p t uc ys) r" for r
    by (rule updated_to_cong) (rule latest_padded [OF assms(3)])
  ultimately show ?thesis by simp
qed

text \<open>
  C18. The variadic timestamp with one to five sources is the latest of the control dependence and
  all the sources with their latencies.
\<close>

theorem handleTimestamp_upto5:
  assumes "enabled p" "ready p a t" "reg_ok t dest" "ss \<noteq> []" "length ss \<le> 5"
    and "\<forall>(r, off) \<in> set ss. reg_ok t r"
  shows "updated_to p a t dest True (latest p t True ss)
     (handleTimestamp ms dest (of_nat (length ss)) (flat_args ss) p)"
  using timestampUpdater_padded [OF assms(2-6), of True True ms 0 0] assms(1)
  by (simp add: handleTimestamp_def when_enabled_def handleVariableNumArgs_batch [OF assms(4,5)])

text \<open>
  With six to ten sources the destination ends with the latest of the control dependence and the
  second batch alone: the second call of the updater overwrites the register without reading it,
  so the first five sources only reach the critical path.
\<close>

theorem handleTimestamp_beyond5:
  assumes "enabled p" "ready p a t" "reg_ok t dest" "length xs = 5" "ys \<noteq> []" "length ys \<le> 5"
    and "\<forall>(r, off) \<in> set xs. reg_ok t r"
    and "\<forall>(r, off) \<in> set ys. reg_ok t r \<and> to_int r \<noteq> to_int dest"
  shows "\<exists>p' t'. handleTimestamp ms dest (of_nat (length (xs @ ys))) (flat_args (xs @ ys)) p = Some p'
     \<and> tables p' a = Some t' \<and> dest_updated t t' dest (latest p t True ys) (depth p)"
proof -
  have "length xs \<le> 5" "5 = length xs" using assms(4) by simp_all
  from timestampUpdater_latest [OF assms(2,3) this(1) assms(7) this(2), of True True ms 0 0] obtain t1 rs1 where
    u1: "timestampUpdater ms True True 5 False dest xs 0 0 p = Some (at_level p a t1 rs1)"
      "dest_updated t t1 dest (latest p t True xs) (depth p)"
      "cp_updated (program_regions p) rs1 True (unat (min_level p)) (latest p t True xs) (depth p)"
    unfolding updated_to_def by blast
  let ?p1 = "at_level p a t1 rs1"
  have t1: "table_ok t1" "row t1 = row t" "col t1 = col t" using u1(2) by (simp_all add: dest_updated_def)
  have len: "length rs1 = length (program_regions p)" using u1(3) by (simp add: cp_updated_def)
  have rdy1: "ready ?p1 a t1" by (rule ready_at_level [OF assms(2) t1 len])
  have ro: "reg_ok t1 r = reg_ok t r" for r using t1 by (simp add: reg_ok_def)
  have "\<forall>(r, off) \<in> set ys. reg_ok t1 r" using assms(8) ro by auto
  from timestampUpdater_padded [OF rdy1 _ assms(5,6) this, of dest True True ms 0 0] assms(3) ro
  have "updated_to ?p1 a t1 dest True (latest ?p1 t1 True ys)
      (timestampUpdater ms True True 5 False dest (padded ys) 0 0 ?p1)" by simp
  moreover have "depth ?p1 = depth p" by (simp add: at_level_def)
  ultimately obtain t2 rs2 where
    u2: "timestampUpdater ms True True 5 False dest (padded ys) 0 0 ?p1 = Some (at_level ?p1 a t2 rs2)"
      "dest_updated t1 t2 dest (latest ?p1 t1 True ys) (depth p)"
    unfolding updated_to_def by auto
  have eq: "latest ?p1 t1 True ys k = latest p t True ys k" if k: "k < depth p" for k
  proof -
    have "int (depth p) \<le> col t" using assms(2) by (simp only: ready_def regs_ready_def)
    with k have kc: "int k < col t" by linarith
    have "reg_time t1 r k = reg_time t r k" if "reg_ok t r" "to_int r \<noteq> to_int dest" for r
      using u1(2) that kc by (simp add: dest_updated_def reg_ok_def in_table_def)
    then have m: "map (\<lambda>(r, off). reg_time t1 r k + ucast off) ys = map (\<lambda>(r, off). reg_time t r k + ucast off) ys"
      using assms(8) by (auto intro!: map_cong)
    show ?thesis unfolding latest_def m by (simp add: ctrl_time_def at_level_def)
  qed
  have "dest_updated t t2 dest (latest p t True ys) (depth p)"
    using dest_updated_trans [OF u1(2) u2(2)] dest_updated_cong [OF eq, of "depth p"] by simp
  moreover have "handleTimestamp ms dest (of_nat (length (xs @ ys))) (flat_args (xs @ ys)) p
      = Some (at_level ?p1 a t2 rs2)"
    unfolding handleTimestamp_def when_enabled_def handleVariableNumArgs_two_batches [OF assms(4-6)]
    using assms(1) u1(1) u2(1) by simp
  ultimately show ?thesis by (auto simp: at_level_def)
qed


section \<open>A concrete state\<close>

text \<open>What a register holds after an instruction.\<close>

lemma updated_to_get:
  assumes "updated_to p a t d up f res" "ready p a t" "reg_ok t d" "k < depth p"
  shows "\<exists>p'. res = Some p' \<and> getRegisterTimeAtIndex d (of_nat k) p' = Some (f k)"
proof -
  from assms(1) obtain t' rs' where u: "res = Some (at_level p a t' rs')"
    "dest_updated t t' d f (depth p)" "cp_updated (program_regions p) rs' up (unat (min_level p)) f (depth p)"
    by (auto simp: updated_to_def)
  have t': "table_ok t'" "row t' = row t" "col t' = col t" using u(2) by (simp_all add: dest_updated_def)
  have len: "length rs' = length (program_regions p)" using u(3) by (simp add: cp_updated_def)
  have rdy: "regs_ready (at_level p a t' rs') (depth p) a t'" by (rule at_level_ready(3) [OF assms(2) t' len])
  have small: "k < 2 ^ 31" using assms(2,4) ctrl_ready_small [of p "depth p"] by (simp add: ready_def)
  have "int (depth p) \<le> col t" using assms(2) by (simp only: ready_def regs_ready_def)
  with assms(4) have kc: "int k < col t" "int k < int (depth p)" by linarith+
  have "reg_ok t' d" using assms(3) t' by (simp add: reg_ok_def)
  from getRegisterTimeAtIndex_ready [OF rdy this assms(4) small]
  have "getRegisterTimeAtIndex d (of_nat k) (at_level p a t' rs') = Some (reg_time t' d k)" .
  moreover have "reg_time t' d k = f k"
    using u(2) kc assms(3) unfolding dest_updated_def in_table_def reg_ok_def by auto
  ultimately show ?thesis using u(1) by simp
qed

definition sample_regs :: Table where
  "sample_regs = \<lparr>row = 10, col = 1, array = [0, 1, 2, 3, 4, 5, 6, 7, 8, 9]\<rparr>"

definition sample_prof :: "unit KremlinProfiler" where
  "sample_prof = (KremlinProfiler_new 1 0 0 0 0 31)
     \<lparr>enabled := True, curr_level := 0, curr_num_instrumented_levels := 1,
      program_regions := [ProgramRegion_new, ProgramRegion_new], level_versions := [0, 0],
      level_times := [0, 0],
      control_dependence_table := Some \<lparr>row = 2, col = 2, array = [3, 0, 0, 0]\<rparr>,
      cdt_read_ptr := 0, cdt_current_base := Some 0, tables := [0 \<mapsto> sample_regs],
      next_table := 1, shadow_reg_file := Some 0, shadow_mem := Some ()\<rparr>"

definition sample_ms :: "unit MShadow" where
  "sample_ms = \<lparr>mem_get = (\<lambda>a n vs sz m. Some (replicate (unat n) 0, m)), mem_set = (\<lambda>a n vs ts sz m. Some m)\<rparr>"

lemma sample_ready:
  "enabled sample_prof" "ready sample_prof 0 sample_regs" "depth sample_prof = 1"
  "reg_ok sample_regs r \<longleftrightarrow> 0 \<le> to_int r \<and> to_int r < 10"
  by (simp_all add: sample_prof_def sample_regs_def ready_def ctrl_ready_def levels_ready_def
      regs_ready_def table_ok_def KremlinProfiler_new_def getElementAddr_def getOffset_def reg_ok_def)

lemma sample_latest:
  "latest sample_prof sample_regs uc ss 0 =
     foldl max (if uc then 3 else 0) (map (\<lambda>(r, off). [0, 1, 2, 3, 4, 5, 6, 7, 8, 9] ! nat (to_int r) + ucast off) ss)"
  by (simp add: latest_def ctrl_time_def cell_def sample_prof_def sample_regs_def KremlinProfiler_new_def)

lemma sample_values:
  "latest sample_prof sample_regs True [(1, 1), (2, 0), (3, 9), (4, 0), (5, 2), (6, 0), (7, 4)] 0 = 12"
  "latest sample_prof sample_regs False [(1, 0), (9, 0), (2, 0), (8, 0), (3, 0)] 0 = 9"
  "latest sample_prof sample_regs True [(5, 1), (4, 7)] 0 = 11"
  "latest sample_prof sample_regs True [(1, 0)] 0 = 3"
  by (simp_all add: sample_latest)

theorem handleTimestamp7_latest_witness:
  "\<exists>p'. handleTimestamp7 sample_ms 0 (1, 1) (2, 0) (3, 9) (4, 0) (5, 2) (6, 0) (7, 4) sample_prof = Some p'
     \<and> getRegisterTimeAtIndex 0 0 p' = Some 12"
proof -
  have "updated_to sample_prof 0 sample_regs 0 True
      (latest sample_prof sample_regs True [(1, 1), (2, 0), (3, 9), (4, 0), (5, 2), (6, 0), (7, 4)])
      (handleTimestamp7 sample_ms 0 (1, 1) (2, 0) (3, 9) (4, 0) (5, 2) (6, 0) (7, 4) sample_prof)"
    by (rule handleTimestamp7_latest) (simp_all add: sample_ready)
  from updated_to_get [OF this sample_ready(2), of 0] show ?thesis
    by (simp add: sample_ready sample_values)
qed

theorem handlePhi4To1_latest_witness:
  "\<exists>p'. handlePhi4To1 sample_ms 0 1 9 2 8 3 sample_prof = Some p' \<and> getRegisterTimeAtIndex 0 0 p' = Some 9"
proof -
  have "updated_to sample_prof 0 sample_regs 0 False
      (latest sample_prof sample_regs False [(1, 0), (9, 0), (2, 0), (8, 0), (3, 0)])
      (handlePhi4To1 sample_ms 0 1 9 2 8 3 sample_prof)"
    by (rule handlePhi4To1_latest) (simp_all add: sample_ready)
  from updated_to_get [OF this sample_ready(2), of 0] show ?thesis
    by (simp add: sample_ready sample_values)
qed

theorem handleTimestamp_upto5_witness:
  "\<exists>p'. handleTimestamp sample_ms 0 2 [5, 1, 4, 7] sample_prof = Some p' \<and> getRegisterTimeAtIndex 0 0 p' = Some 11"
proof -
  have "updated_to sample_prof 0 sample_regs 0 True (latest sample_prof sample_regs True [(5, 1), (4, 7)])
      (handleTimestamp sample_ms 0 (of_nat (length ([(5, 1), (4, 7)] :: srcs))) (flat_args [(5, 1), (4, 7)]) sample_prof)"
    by (rule handleTimestamp_upto5) (simp_all add: sample_ready)
  from updated_to_get [OF this sample_ready(2), of 0] show ?thesis
    by (simp add: sample_ready sample_values)
qed

theorem handleTimestamp_beyond5_witness:
  "\<exists>p' t'. handleTimestamp sample_ms 0 6 [9, 0, 9, 0, 9, 0, 9, 0, 9, 0, 1, 0] sample_prof = Some p'
     \<and> tables p' 0 = Some t' \<and> reg_time t' 0 0 = 3"
proof -
  have "\<exists>p' t'. handleTimestamp sample_ms 0 (of_nat (length (replicate 5 (9, 0) @ [(1, 0)] :: srcs)))
        (flat_args (replicate 5 (9, 0) @ [(1, 0)])) sample_prof = Some p'
     \<and> tables p' 0 = Some t' \<and> dest_updated sample_regs t' 0 (latest sample_prof sample_regs True [(1, 0)]) (depth sample_prof)"
    by (rule handleTimestamp_beyond5) (simp_all add: sample_ready)
  moreover have "flat_args (replicate 5 (9, 0) @ [(1, 0)]) = [9, 0, 9, 0, 9, 0, 9, 0, 9, 0, 1, 0]"
    by (simp add: eval_nat_numeral)
  moreover have "reg_time t' 0 0 = 3"
    if "dest_updated sample_regs t' 0 (latest sample_prof sample_regs True [(1, 0)]) (depth sample_prof)" for t'
  proof -
    have "in_table sample_regs 0 0" by (simp add: in_table_def sample_regs_def)
    then show ?thesis using that sample_values(4) by (simp add: dest_updated_def sample_ready)
  qed
  ultimately show ?thesis by auto
qed

end
