(* ===== verification/KremlinApi.thy ===== *)
theory KremlinApi
  imports ProfilerRuns TimestampSpec
begin

text \<open>
  The calls that instrumented code makes (\<open>runtime/src/kremlin.cpp\<close>, \<open>interface.h\<close>) and \<open>main\<close>.
  A call is an event; the program that is profiled is the list of the calls it makes. The global
  \<open>profiler\<close> is \<open>None\<close> before the first region entry. The shadow memory that a configuration
  selects, and the values the profiler's constructor leaves uninitialised, are arguments.
\<close>

section \<open>Events\<close>

datatype cdep_event = KPushCDep Reg | KPopCDep

datatype call_event =
    KPrepCall CID UInt64
  | KEnqArg Reg
  | KEnqArgConst
  | KDeqArg Reg
  | KPrepRTable UInt UInt
  | KLinkReturn Reg
  | KReturn Reg
  | KReturnConst

datatype control_event =
    KTurnOn
  | KTurnOff
  | KWork UInt32

datatype region_api_event =
    KEnterRegion SID RegionType
  | KExitRegion SID RegionType
  | KLandingPad SID RegionType

type_synonym src = "UInt32 \<times> UInt32"

datatype timestamp_event =
    KAssignConst UInt
  | KInduction UInt
  | KReduction UInt Reg
  | KTimestamp UInt32 UInt32 "UInt32 list"
  | KTimestamp0 UInt32
  | KTimestamp1 UInt32 src
  | KTimestamp2 UInt32 src src
  | KTimestamp3 UInt32 src src src
  | KTimestamp4 UInt32 src src src src
  | KTimestamp5 UInt32 src src src src src
  | KTimestamp6 UInt32 src src src src src src
  | KTimestamp7 UInt32 src src src src src src src

datatype memory_event =
    KLoad Addr Reg UInt32 UInt32 "UInt32 list"
  | KLoad0 Addr Reg UInt32
  | KLoad1 Addr Reg Reg UInt32
  | KLoad2 Addr Reg Reg Reg UInt32
  | KLoad3 Addr Reg Reg Reg Reg UInt32
  | KLoad4 Addr Reg Reg Reg Reg Reg UInt32
  | KStore Reg Addr UInt32
  | KStoreConst Addr UInt32

datatype phi_event =
    KPhi Reg Reg UInt32 "UInt32 list"
  | KPhi1To1 Reg Reg Reg
  | KPhi2To1 Reg Reg Reg Reg
  | KPhi3To1 Reg Reg Reg Reg Reg
  | KPhi4To1 Reg Reg Reg Reg Reg Reg
  | KPhiCond4To1 Reg Reg Reg Reg Reg
  | KPhiAddCond Reg Reg

text \<open>\<open>_KInit\<close>, \<open>_KDeinit\<close>, \<open>_KCallLib\<close>, \<open>_KMalloc\<close>, \<open>_KFree\<close> and \<open>_KRealloc\<close> have empty bodies.\<close>

datatype noop_event = KInit | KDeinit | KCallLib UInt UInt | KMalloc Addr UInt64 UInt | KFree Addr
  | KRealloc Addr Addr UInt64 UInt

datatype api_event =
    CDep cdep_event
  | Call call_event
  | Control control_event
  | Region region_api_event
  | Stamp timestamp_event
  | Mem memory_event
  | Phi phi_event
  | Noop noop_event

section \<open>Dispatch\<close>

fun api_cdep :: "cdep_event \<Rightarrow> 'm KremlinProfiler \<Rightarrow> 'm KremlinProfiler option" where
  "api_cdep (KPushCDep cond) = handlePushCDep cond"
| "api_cdep KPopCDep = handlePopCDep"

fun api_call :: "call_event \<Rightarrow> 'm KremlinProfiler \<Rightarrow> 'm KremlinProfiler option" where
  "api_call (KPrepCall callSiteId calledRegionId) = handlePrepCall callSiteId calledRegionId"
| "api_call (KEnqArg s) = handleEnqueueArgument s"
| "api_call KEnqArgConst = handleEnqueueConstArgument"
| "api_call (KDeqArg dest) = handleDequeueArgument dest"
| "api_call (KPrepRTable maxVregNum maxNestLevel) = handlePrepRTable maxVregNum maxNestLevel"
| "api_call (KLinkReturn dest) = handleLinkReturn dest"
| "api_call (KReturn s) = handleReturn s"
| "api_call KReturnConst = handleReturnConst"

fun api_control :: "control_event \<Rightarrow> 'm KremlinProfiler \<Rightarrow> 'm KremlinProfiler option" where
  "api_control KTurnOn p = Some (p\<lparr>enabled := True\<rparr>)"
| "api_control KTurnOff p = Some (p\<lparr>enabled := False\<rparr>)"
| "api_control (KWork work) p = Some (increaseTime work p)"

fun api_stamp :: "'m MShadow \<Rightarrow> timestamp_event \<Rightarrow> 'm KremlinProfiler \<Rightarrow> 'm KremlinProfiler option" where
  "api_stamp ms (KAssignConst d) = handleAssignConst ms d"
| "api_stamp ms (KInduction d) = handleInduction ms d"
| "api_stamp ms (KReduction op_cost d) = handleReduction op_cost d"
| "api_stamp ms (KTimestamp d num_srcs args) = handleTimestamp ms d num_srcs args"
| "api_stamp ms (KTimestamp0 d) = handleTimestamp0 ms d"
| "api_stamp ms (KTimestamp1 d s1) = handleTimestamp1 ms d s1"
| "api_stamp ms (KTimestamp2 d s1 s2) = handleTimestamp2 ms d s1 s2"
| "api_stamp ms (KTimestamp3 d s1 s2 s3) = handleTimestamp3 ms d s1 s2 s3"
| "api_stamp ms (KTimestamp4 d s1 s2 s3 s4) = handleTimestamp4 ms d s1 s2 s3 s4"
| "api_stamp ms (KTimestamp5 d s1 s2 s3 s4 s5) = handleTimestamp5 ms d s1 s2 s3 s4 s5"
| "api_stamp ms (KTimestamp6 d s1 s2 s3 s4 s5 s6) = handleTimestamp6 ms d s1 s2 s3 s4 s5 s6"
| "api_stamp ms (KTimestamp7 d s1 s2 s3 s4 s5 s6 s7) = handleTimestamp7 ms d s1 s2 s3 s4 s5 s6 s7"

text \<open>\<open>_KLoad2\<close>, \<open>_KLoad3\<close> and \<open>_KLoad4\<close> drop their source registers.\<close>

fun api_mem :: "'m MShadow \<Rightarrow> memory_event \<Rightarrow> 'm KremlinProfiler \<Rightarrow> 'm KremlinProfiler option" where
  "api_mem ms (KLoad a d sz num_srcs args) = handleLoad ms a d sz num_srcs args"
| "api_mem ms (KLoad0 a d sz) = handleLoad0 ms a d sz"
| "api_mem ms (KLoad1 a d s sz) = handleLoad1 ms a d s sz"
| "api_mem ms (KLoad2 a d s1 s2 sz) = handleLoad0 ms a d sz"
| "api_mem ms (KLoad3 a d s1 s2 s3 sz) = handleLoad0 ms a d sz"
| "api_mem ms (KLoad4 a d s1 s2 s3 s4 sz) = handleLoad0 ms a d sz"
| "api_mem ms (KStore s a sz) = handleStore ms s a sz"
| "api_mem ms (KStoreConst a sz) = handleStoreConst ms a sz"

fun api_phi :: "'m MShadow \<Rightarrow> phi_event \<Rightarrow> 'm KremlinProfiler \<Rightarrow> 'm KremlinProfiler option" where
  "api_phi ms (KPhi d s num_ctrls args) = handlePhi ms d s num_ctrls args"
| "api_phi ms (KPhi1To1 d s c1) = handlePhi1To1 ms d s c1"
| "api_phi ms (KPhi2To1 d s c1 c2) = handlePhi2To1 ms d s c1 c2"
| "api_phi ms (KPhi3To1 d s c1 c2 c3) = handlePhi3To1 ms d s c1 c2 c3"
| "api_phi ms (KPhi4To1 d s c1 c2 c3 c4) = handlePhi4To1 ms d s c1 c2 c3 c4"
| "api_phi ms (KPhiCond4To1 d c1 c2 c3 c4) = handlePhiCond4To1 ms d c1 c2 c3 c4"
| "api_phi ms (KPhiAddCond d s) = handlePhiAddCond ms d s"

text \<open>What the constructor of the profiler finds in memory.\<close>

record uninit =
  un_nextVersion :: Version
  un_last_callsite :: CID
  un_read :: UInt32
  un_write :: UInt32

definition initProfiler :: "'m \<Rightarrow> uninit \<Rightarrow> KremlinConfiguration \<Rightarrow> 'm KremlinProfiler option" where
  "initProfiler new_mem u cfg =
     profiler_init new_mem (KremlinProfiler_new (un_nextVersion u) (un_last_callsite u) (un_read u) (un_write u)
       (min_profiled_level cfg) (max_profiled_level cfg))"

text \<open>Only a region entry may come before the profiler exists, and it creates it.\<close>

fun api_region :: "KremlinConfiguration \<Rightarrow> (double \<Rightarrow> UInt64) \<Rightarrow> 'm \<Rightarrow> uninit \<Rightarrow> region_api_event
    \<Rightarrow> 'm KremlinProfiler option \<Rightarrow> 'm KremlinProfiler option" where
  "api_region cfg oor new_mem u (KEnterRegion regionId regionType) pr = do {
     p \<leftarrow> (case pr of None \<Rightarrow> initProfiler new_mem u cfg | Some p \<Rightarrow> Some p);
     handleRegionEntry cfg regionId regionType p }"
| "api_region cfg oor new_mem u (KExitRegion regionId regionType) pr =
     pr \<bind> handleRegionExit oor regionId regionType"
| "api_region cfg oor new_mem u (KLandingPad regionId regionType) pr =
     pr \<bind> handleLandingPad oor regionId regionType"

fun api_step :: "KremlinConfiguration \<Rightarrow> (double \<Rightarrow> UInt64) \<Rightarrow> 'm MShadow \<Rightarrow> 'm \<Rightarrow> uninit \<Rightarrow> api_event
    \<Rightarrow> 'm KremlinProfiler option \<Rightarrow> 'm KremlinProfiler option option" where
  "api_step cfg oor ms new_mem u (CDep e) pr = map_option Some (pr \<bind> api_cdep e)"
| "api_step cfg oor ms new_mem u (Call e) pr = map_option Some (pr \<bind> api_call e)"
| "api_step cfg oor ms new_mem u (Control e) pr = map_option Some (pr \<bind> api_control e)"
| "api_step cfg oor ms new_mem u (Region e) pr = map_option Some (api_region cfg oor new_mem u e pr)"
| "api_step cfg oor ms new_mem u (Stamp e) pr = map_option Some (pr \<bind> api_stamp ms e)"
| "api_step cfg oor ms new_mem u (Mem e) pr = map_option Some (pr \<bind> api_mem ms e)"
| "api_step cfg oor ms new_mem u (Phi e) pr = map_option Some (pr \<bind> api_phi ms e)"
| "api_step cfg oor ms new_mem u (Noop e) pr = Some pr"

fun api_run :: "KremlinConfiguration \<Rightarrow> (double \<Rightarrow> UInt64) \<Rightarrow> 'm MShadow \<Rightarrow> 'm \<Rightarrow> uninit \<Rightarrow> api_event list
    \<Rightarrow> 'm KremlinProfiler option \<Rightarrow> 'm KremlinProfiler option option" where
  "api_run cfg oor ms new_mem u [] pr = Some pr"
| "api_run cfg oor ms new_mem u (e # es) pr =
     api_step cfg oor ms new_mem u e pr \<bind> api_run cfg oor ms new_mem u es"

section \<open>main\<close>

text \<open>
  The outcome of the process: the option parser's exit, or the profile and the arguments that the
  program's own \<open>main\<close> got. The constructors of the program run before \<open>main\<close> and make the calls
  \<open>pre\<close>; the calls of \<open>__main\<close> depend on its arguments.
\<close>

datatype outcome = ParseExit parse_exit | Finished "string list" "write_result option"

definition kremlin_main ::
    "(double \<Rightarrow> UInt64) \<Rightarrow> 'm MShadow \<Rightarrow> (KremlinConfiguration \<Rightarrow> 'm) \<Rightarrow> uninit \<Rightarrow> bool \<Rightarrow> api_event list
     \<Rightarrow> string \<Rightarrow> opt_result list \<Rightarrow> string list \<Rightarrow> (string list \<Rightarrow> api_event list) \<Rightarrow> outcome option" where
  "kremlin_main oor ms new_mem u fopen_ok pre argv0 results rest calls = do {
     let cfg0 = KremlinConfiguration_new;
     pr \<leftarrow> api_run cfg0 oor ms (new_mem cfg0) u pre None;
     parsed \<leftarrow> parseKremlinOptions cfg0 argv0 results rest;
     (case parsed of
        Inl e \<Rightarrow> Some (ParseExit e)
      | Inr (cfg, program_args) \<Rightarrow> do {
          p \<leftarrow> (case pr of None \<Rightarrow> initProfiler (new_mem cfg) u cfg | Some p \<Rightarrow> Some p);
          let p = p\<lparr>enabled := True\<rparr>;
          pr \<leftarrow> api_run cfg oor ms (new_mem cfg) u (calls program_args) (Some p);
          p \<leftarrow> pr;
          (p, w) \<leftarrow> profiler_deinit oor cfg fopen_ok p;
          Some (Finished program_args w) }) }"

section \<open>A disabled profiler ignores the program\<close>

text \<open>The work that a list of calls reports; only \<open>_KWork\<close> reports any.\<close>

fun reported_work :: "api_event list \<Rightarrow> Time" where
  "reported_work [] = 0"
| "reported_work (Control (KWork work) # es) = ucast work + reported_work es"
| "reported_work (e # es) = reported_work es"

lemma disabled_region:
  assumes "\<not> enabled p"
  shows "api_region cfg oor m u e (Some p) = Some p"
  using assms by (cases e) (simp_all add: handleRegionEntry_def handleRegionExit_def handleLandingPad_def when_enabled_def)

lemma disabled_cdep: "\<not> enabled p \<Longrightarrow> api_cdep e p = Some p"
  by (cases e) (simp_all add: handlePushCDep_def handlePopCDep_def when_enabled_def)

lemma disabled_call: "\<not> enabled p \<Longrightarrow> api_call e p = Some p"
  by (cases e) (simp_all add: handlePrepCall_def handleEnqueueArgument_def handleEnqueueConstArgument_def
      handleDequeueArgument_def handlePrepRTable_def handleLinkReturn_def handleReturn_def
      handleReturnConst_def when_enabled_def)

lemma disabled_stamp: "\<not> enabled p \<Longrightarrow> api_stamp ms e p = Some p"
  by (cases e) (simp_all add: handleAssignConst_def handleInduction_def handleReduction_def
      handleTimestamp_def handleTimestamp0_def handleTimestamp1_def handleTimestamp2_def
      handleTimestamp3_def handleTimestamp4_def handleTimestamp5_def handleTimestamp6_def
      handleTimestamp7_def when_enabled_def)

lemma disabled_mem: "\<not> enabled p \<Longrightarrow> api_mem ms e p = Some p"
  by (cases e) (simp_all add: handleLoad_def handleLoad0_def handleLoad1_def handleStore_def
      handleStoreConst_def when_enabled_def)

lemma disabled_phi: "\<not> enabled p \<Longrightarrow> api_phi ms e p = Some p"
  by (cases e) (simp_all add: handlePhi_def handlePhi1To1_def handlePhi2To1_def handlePhi3To1_def
      handlePhi4To1_def handlePhiCond4To1_def handlePhiAddCond_def when_enabled_def)

lemma disabled_control:
  assumes "\<not> enabled p" "e \<noteq> KTurnOn"
  shows "api_control e p = Some (p\<lparr>curr_time := curr_time p + reported_work [Control e]\<rparr>)"
  using assms by (cases e; cases p) (simp_all add: increaseTime_def)

lemma disabled_step:
  assumes "\<not> enabled p" "e \<noteq> Control KTurnOn"
  shows "api_step cfg oor ms m u e (Some p) = Some (Some (p\<lparr>curr_time := curr_time p + reported_work [e]\<rparr>))"
  using assms by (cases e) (simp_all add: disabled_region disabled_cdep disabled_call disabled_stamp
      disabled_mem disabled_phi disabled_control)

lemma reported_work_Cons: "reported_work (e # es) = reported_work [e] + reported_work es"
  by (cases "(e # es)" rule: reported_work.cases) simp_all

text \<open>
  C20. From any state in which profiling is off, every sequence of instrumentation calls that does
  not turn it on runs to its end and changes the time only: regions, registers, shadow memory, call
  stack, control dependences and statistics stay as they are (what the program's constructors do
  before \<open>main\<close>, or code after \<open>_KTurnOff\<close>). The time does not stop: \<open>_KWork\<close> tests no flag, so
  the work of the whole sequence is added to it.
\<close>

theorem disabled_profiler_unchanged:
  assumes "\<not> enabled p" "Control KTurnOn \<notin> set es"
  shows "api_run cfg oor ms m u es (Some p) = Some (Some (p\<lparr>curr_time := curr_time p + reported_work es\<rparr>))"
  using assms
proof (induction es arbitrary: p)
  case (Cons e es)
  let ?q = "p\<lparr>curr_time := curr_time p + reported_work [e]\<rparr>"
  have "api_run cfg oor ms m u (e # es) (Some p) = api_run cfg oor ms m u es (Some ?q)"
    using disabled_step [of p e cfg oor ms m u] Cons.prems by auto
  also have "\<dots> = Some (Some (?q\<lparr>curr_time := curr_time ?q + reported_work es\<rparr>))"
    using Cons.prems by (intro Cons.IH) auto
  also have "?q\<lparr>curr_time := curr_time ?q + reported_work es\<rparr> = p\<lparr>curr_time := curr_time p + reported_work (e # es)\<rparr>"
    by (simp add: reported_work_Cons [of e es] add.assoc)
  finally show ?case .
qed simp

theorem disabled_profiler_unchanged_witness:
  "api_run default_cfg (\<lambda>_. 0) sample_ms () \<lparr>un_nextVersion = 0, un_last_callsite = 0, un_read = 0, un_write = 0\<rparr>
     [Region (KEnterRegion 3 RegionFunc), Call (KPrepRTable 4 1), Stamp (KAssignConst 2), Control (KWork 5),
      Mem (KStore 2 64 8), Control KTurnOff, Region (KExitRegion 3 RegionFunc)] (Some (sample_prof\<lparr>enabled := False\<rparr>))
   = Some (Some (sample_prof\<lparr>enabled := False, curr_time := curr_time sample_prof + 5\<rparr>))"
  using disabled_profiler_unchanged [where p = "sample_prof\<lparr>enabled := False\<rparr>" and cfg = default_cfg
      and oor = "\<lambda>_. 0" and ms = sample_ms and m = "()"
      and u = "\<lparr>un_nextVersion = 0, un_last_callsite = 0, un_read = 0, un_write = 0\<rparr>"
      and es = "[Region (KEnterRegion 3 RegionFunc), Call (KPrepRTable 4 1), Stamp (KAssignConst 2), Control (KWork 5),
        Mem (KStore 2 64 8), Control KTurnOff, Region (KExitRegion 3 RegionFunc)]"] by simp

end
