(* ===== verification/ShadowStat.thy ===== *)
theory ShadowStat
  imports KPrelude
begin

text \<open>
  The event counters of the shadow memory (\<open>runtime/src/MShadowStat.h\<close>): allocation counters
  \<open>AStat\<close>, per level \<open>LStat\<close>, the global \<open>_stat\<close> and the cache counters \<open>_cacheStat\<close>. The counters
  are printed, but one of them also steers the program: the number of active time tables decides
  when the garbage collector runs. An array indexed by the enumeration \<open>TableType\<close> is a function
  from it.
\<close>

section \<open>Counters\<close>

datatype TableType = TYPE_64BIT | TYPE_32BIT

record AStat =
  nAlloc :: UInt64
  nDealloc :: UInt64
  nConvertIn :: UInt64
  nConvertOut :: UInt64
  nActive :: UInt64
  nActiveMax :: UInt64

definition AStat_zero :: AStat where
  "AStat_zero = \<lparr>nAlloc = 0, nDealloc = 0, nConvertIn = 0, nConvertOut = 0, nActive = 0, nActiveMax = 0\<rparr>"

definition AStatAlloc :: "AStat \<Rightarrow> AStat" where
  "AStatAlloc s = (let s = s\<lparr>nAlloc := nAlloc s + 1, nActive := nActive s + 1\<rparr>
     in if nActiveMax s < nActive s then s\<lparr>nActiveMax := nActive s\<rparr> else s)"

definition AStatDealloc :: "AStat \<Rightarrow> AStat" where
  "AStatDealloc s = s\<lparr>nDealloc := nDealloc s + 1, nActive := nActive s - 1\<rparr>"

definition AStatConvertIn :: "AStat \<Rightarrow> AStat" where
  "AStatConvertIn s = (let s = s\<lparr>nConvertIn := nConvertIn s + 1, nActive := nActive s + 1\<rparr>
     in if nActiveMax s < nActive s then s\<lparr>nActiveMax := nActive s\<rparr> else s)"

definition AStatConvertOut :: "AStat \<Rightarrow> AStat" where
  "AStatConvertOut s = s\<lparr>nConvertOut := nConvertOut s + 1, nActive := nActive s - 1\<rparr>"

record LStat =
  ls_segTable :: AStat
  ls_tTable :: "TableType \<Rightarrow> AStat"
  nTimeTableRealoc :: UInt64
  nLevelWrite :: UInt64

record MemStat =
  levels :: "LStat list"
  segTable :: AStat
  tTable :: "TableType \<Rightarrow> AStat"
  lTable :: AStat
  nGC :: UInt64
  timeTableOverhead :: UInt64
  timeTableOverheadMax :: UInt64

record L1Stat =
  nRead :: UInt64
  nReadHit :: UInt64
  nReadEvict :: UInt64
  nWrite :: UInt64
  nWriteHit :: UInt64
  nWriteEvict :: UInt64
  nEvictLevel :: "UInt64 list"
  nEvictTotal :: UInt64
  nCacheEvictLevelTotal :: UInt64
  nCacheEvictLevelEffective :: UInt64
  nCacheEvict :: UInt64

text \<open>Both are globals, zero at the start.\<close>

definition LStat_zero :: LStat where
  "LStat_zero = \<lparr>ls_segTable = AStat_zero, ls_tTable = (\<lambda>_. AStat_zero), nTimeTableRealoc = 0, nLevelWrite = 0\<rparr>"

definition MemStat_zero :: MemStat where
  "MemStat_zero = \<lparr>levels = replicate 128 LStat_zero, segTable = AStat_zero, tTable = (\<lambda>_. AStat_zero),
     lTable = AStat_zero, nGC = 0, timeTableOverhead = 0, timeTableOverheadMax = 0\<rparr>"

definition L1Stat_zero :: L1Stat where
  "L1Stat_zero = \<lparr>nRead = 0, nReadHit = 0, nReadEvict = 0, nWrite = 0, nWriteHit = 0, nWriteEvict = 0,
     nEvictLevel = replicate 128 0, nEvictTotal = 0, nCacheEvictLevelTotal = 0,
     nCacheEvictLevelEffective = 0, nCacheEvict = 0\<rparr>"

section \<open>Events of the tables\<close>

definition eventLevelTableAlloc :: "MemStat \<Rightarrow> MemStat" where
  "eventLevelTableAlloc st = st\<lparr>lTable := AStatAlloc (lTable st)\<rparr>"

definition eventTimeTableNewAlloc :: "int \<Rightarrow> TableType \<Rightarrow> MemStat \<Rightarrow> MemStat option" where
  "eventTimeTableNewAlloc level type st = do {
     l \<leftarrow> rd (levels st) level;
     ls \<leftarrow> wr (levels st) level (l\<lparr>ls_tTable := (ls_tTable l)(type := AStatAlloc (ls_tTable l type))\<rparr>);
     Some (st\<lparr>levels := ls\<rparr>) }"

definition eventLevelWrite :: "int \<Rightarrow> MemStat \<Rightarrow> MemStat option" where
  "eventLevelWrite level st = do {
     l \<leftarrow> rd (levels st) level;
     ls \<leftarrow> wr (levels st) level (l\<lparr>nLevelWrite := nLevelWrite l + 1\<rparr>);
     Some (st\<lparr>levels := ls\<rparr>) }"

definition eventTimeTableConvertTo32 :: "MemStat \<Rightarrow> MemStat" where
  "eventTimeTableConvertTo32 st =
     (let t = (tTable st)(TYPE_64BIT := AStatConvertOut (tTable st TYPE_64BIT))
      in st\<lparr>tTable := t(TYPE_32BIT := AStatConvertIn (t TYPE_32BIT))\<rparr>)"

text \<open>The sizes are of type \<open>int\<close>: they are sign-extended when added to the 64-bit counters.\<close>

definition increaseTimeTableMemSize :: "UInt32 \<Rightarrow> MemStat \<Rightarrow> MemStat" where
  "increaseTimeTableMemSize sz st =
     (let st = st\<lparr>timeTableOverhead := timeTableOverhead st + scast sz\<rparr>
      in if timeTableOverhead st > timeTableOverheadMax st
         then st\<lparr>timeTableOverheadMax := timeTableOverhead st\<rparr> else st)"

definition decreaseTimeTableMemSize :: "UInt32 \<Rightarrow> MemStat \<Rightarrow> MemStat" where
  "decreaseTimeTableMemSize sz st = st\<lparr>timeTableOverhead := timeTableOverhead st - scast sz\<rparr>"

definition eventCompression :: "UInt32 \<Rightarrow> MemStat \<Rightarrow> MemStat" where
  "eventCompression gain st = decreaseTimeTableMemSize gain st"

definition eventTimeTableAlloc :: "TableType \<Rightarrow> UInt32 \<Rightarrow> MemStat \<Rightarrow> MemStat" where
  "eventTimeTableAlloc type sz st =
     increaseTimeTableMemSize sz (st\<lparr>tTable := (tTable st)(type := AStatAlloc (tTable st type))\<rparr>)"

definition eventTimeTableFree :: "TableType \<Rightarrow> UInt32 \<Rightarrow> MemStat \<Rightarrow> MemStat" where
  "eventTimeTableFree type sz st =
     decreaseTimeTableMemSize sz (st\<lparr>tTable := (tTable st)(type := AStatDealloc (tTable st type))\<rparr>)"

definition eventSegTableAlloc :: "MemStat \<Rightarrow> MemStat" where
  "eventSegTableAlloc st = st\<lparr>segTable := AStatAlloc (segTable st)\<rparr>"

definition eventSegTableFree :: "MemStat \<Rightarrow> MemStat" where
  "eventSegTableFree st = st\<lparr>segTable := AStatDealloc (segTable st)\<rparr>"

definition eventGC :: "MemStat \<Rightarrow> MemStat" where
  "eventGC st = st\<lparr>nGC := nGC st + 1\<rparr>"

definition getActiveTimeTableSize :: "MemStat \<Rightarrow> UInt64" where
  "getActiveTimeTableSize st = nActive (tTable st TYPE_64BIT) + nActive (tTable st TYPE_32BIT)"

section \<open>Events of the cache\<close>

definition eventRead :: "L1Stat \<Rightarrow> L1Stat" where
  "eventRead st = st\<lparr>nRead := nRead st + 1\<rparr>"

definition eventReadHit :: "L1Stat \<Rightarrow> L1Stat" where
  "eventReadHit st = st\<lparr>nReadHit := nReadHit st + 1\<rparr>"

definition eventReadEvict :: "L1Stat \<Rightarrow> L1Stat" where
  "eventReadEvict st = st\<lparr>nReadEvict := nReadEvict st + 1\<rparr>"

definition eventWrite :: "L1Stat \<Rightarrow> L1Stat" where
  "eventWrite st = st\<lparr>nWrite := nWrite st + 1\<rparr>"

definition eventWriteHit :: "L1Stat \<Rightarrow> L1Stat" where
  "eventWriteHit st = st\<lparr>nWriteHit := nWriteHit st + 1\<rparr>"

definition eventWriteEvict :: "L1Stat \<Rightarrow> L1Stat" where
  "eventWriteEvict st = st\<lparr>nWriteEvict := nWriteEvict st + 1\<rparr>"

definition eventCacheEvict :: "UInt32 \<Rightarrow> UInt32 \<Rightarrow> L1Stat \<Rightarrow> L1Stat" where
  "eventCacheEvict all_levels effective st =
     st\<lparr>nCacheEvictLevelTotal := nCacheEvictLevelTotal st + scast all_levels,
        nCacheEvictLevelEffective := nCacheEvictLevelEffective st + scast effective,
        nCacheEvict := nCacheEvict st + 1\<rparr>"

definition eventEvict :: "int \<Rightarrow> L1Stat \<Rightarrow> L1Stat option" where
  "eventEvict level st = do {
     n \<leftarrow> rd (nEvictLevel st) level;
     ns \<leftarrow> wr (nEvictLevel st) level (n + 1);
     Some (st\<lparr>nEvictLevel := ns, nEvictTotal := nEvictTotal st + 1\<rparr>) }"

section \<open>What the events keep\<close>

text \<open>The per-level array keeps its 128 entries, so an event of a level below 128 is in bounds.\<close>

definition stat_ok :: "MemStat \<Rightarrow> bool" where
  "stat_ok st \<longleftrightarrow> length (levels st) = 128"

lemma stat_ok_zero [simp]: "stat_ok MemStat_zero"
  by (simp add: stat_ok_def MemStat_zero_def)

lemma stat_ok_events [simp]:
  "stat_ok (eventLevelTableAlloc st) = stat_ok st"
  "stat_ok (eventTimeTableConvertTo32 st) = stat_ok st"
  "stat_ok (eventCompression g st) = stat_ok st"
  "stat_ok (eventTimeTableAlloc ty sz st) = stat_ok st"
  "stat_ok (eventTimeTableFree ty sz st) = stat_ok st"
  "stat_ok (eventSegTableAlloc st) = stat_ok st"
  "stat_ok (eventSegTableFree st) = stat_ok st"
  "stat_ok (eventGC st) = stat_ok st"
  by (simp_all add: stat_ok_def eventLevelTableAlloc_def eventTimeTableConvertTo32_def
      eventCompression_def eventTimeTableAlloc_def eventTimeTableFree_def eventSegTableAlloc_def
      eventSegTableFree_def eventGC_def decreaseTimeTableMemSize_def increaseTimeTableMemSize_def Let_def)

lemma eventLevelWrite_ok:
  "stat_ok st \<Longrightarrow> n < 128 \<Longrightarrow> \<exists>st'. eventLevelWrite (int n) st = Some st' \<and> stat_ok st'"
  by (simp add: eventLevelWrite_def stat_ok_def rd_int wr_int)

lemma eventTimeTableNewAlloc_ok:
  "stat_ok st \<Longrightarrow> n < 128 \<Longrightarrow> \<exists>st'. eventTimeTableNewAlloc (int n) ty st = Some st' \<and> stat_ok st'"
  by (simp add: eventTimeTableNewAlloc_def stat_ok_def rd_int wr_int)

text \<open>Every table allocated and freed is counted once.\<close>

lemma active_alloc_free [simp]:
  "getActiveTimeTableSize (eventTimeTableAlloc ty sz st) = getActiveTimeTableSize st + 1"
  "getActiveTimeTableSize (eventTimeTableFree ty sz st) = getActiveTimeTableSize st - 1"
  by (cases ty; simp add: getActiveTimeTableSize_def eventTimeTableAlloc_def eventTimeTableFree_def
      increaseTimeTableMemSize_def decreaseTimeTableMemSize_def AStatAlloc_def AStatDealloc_def Let_def)+

end
