(* ===== verification/LevelTables.thy ===== *)
theory LevelTables
  imports ShadowStat
begin

unbundle bit_operations_syntax

text \<open>
  Time tables and level tables (\<open>runtime/src/TimeTable.hpp\<close>, \<open>TimeTable.cpp\<close>, \<open>LevelTable.hpp\<close>,
  \<open>LevelTable.cpp\<close>): the storage behind the shadow memory. A time table holds the times of one
  4 KB page of the program at one region level; a level table holds up to 64 of them, each with
  the version (the instance of the region) it belongs to. This theory has the accesses and the
  garbage collection, with their laws; \<open>TableCompression\<close> adds the compression.
\<close>

section \<open>TimeTable\<close>

text \<open>
  The \<open>array\<close> of a table points to a chunk of the memory pool with uncompressed times, or, once
  the table is compressed, to bytes. The chunk size is what \<open>MemPoolInit\<close> was called with, here
  counted in times. Reading times through a pointer to bytes is \<open>None\<close>.
\<close>

datatype Block = Times "Time list" | Bytes "UInt8 list"

record TimeTable =
  type :: TableType
  tt_size :: UInt32
  tt_array :: Block

definition TIMETABLE_MASK :: UInt64 where
  "TIMETABLE_MASK = 0x3ff"

definition TIMETABLE_SIZE :: nat where
  "TIMETABLE_SIZE = 0x400"

definition GetNumEntries :: "TableType \<Rightarrow> nat" where
  "GetNumEntries ty = (if ty = TYPE_64BIT then drop_bit 1 TIMETABLE_SIZE else TIMETABLE_SIZE)"

text \<open>\<open>MemPoolAlloc\<close> returns a chunk whose contents the callers overwrite.\<close>

definition MemPoolAlloc :: "nat \<Rightarrow> Time list" where
  "MemPoolAlloc chunk = replicate chunk 0"

definition TimeTable_new :: "nat \<Rightarrow> TableType \<Rightarrow> MemStat \<Rightarrow> (TimeTable \<times> MemStat) option" where
  "TimeTable_new chunk size_type st = do {
     a \<leftarrow> memzero (MemPoolAlloc chunk) 0 (GetNumEntries size_type);
     let sz = of_nat (8 * TIMETABLE_SIZE div 2);
     Some (\<lparr>type = size_type, tt_size = sz, tt_array = Times a\<rparr>, eventTimeTableAlloc size_type sz st) }"

definition TimeTable_delete :: "TimeTable \<Rightarrow> MemStat \<Rightarrow> MemStat" where
  "TimeTable_delete t st = eventTimeTableFree (type t) (tt_size t) st"

fun times_of :: "Block \<Rightarrow> Time list option" where
  "times_of (Times a) = Some a"
| "times_of (Bytes b) = None"

definition clean :: "TimeTable \<Rightarrow> TimeTable option" where
  "clean t = do {
     a \<leftarrow> times_of (tt_array t);
     a \<leftarrow> memzero a 0 (GetNumEntries (type t));
     Some (t\<lparr>tt_array := Times a\<rparr>) }"

definition getIndex :: "TimeTable \<Rightarrow> Addr \<Rightarrow> nat" where
  "getIndex t addr =
     (let ret = drop_bit 2 addr AND TIMETABLE_MASK
      in unat (if type t = TYPE_64BIT then drop_bit 1 ret else ret))"

definition getTimeAtAddr :: "TimeTable \<Rightarrow> Addr \<Rightarrow> Time option" where
  "getTimeAtAddr t addr = do { a \<leftarrow> times_of (tt_array t); rd a (int (getIndex t addr)) }"

definition setTimeAtAddr :: "TimeTable \<Rightarrow> Addr \<Rightarrow> Time \<Rightarrow> TableType \<Rightarrow> TimeTable option" where
  "setTimeAtAddr t addr time access_type = do {
     a \<leftarrow> times_of (tt_array t);
     let index = getIndex t addr;
     a \<leftarrow> wr a (int index) time;
     a \<leftarrow> (if type t = TYPE_32BIT \<and> access_type = TYPE_64BIT then wr a (int (index + 1)) time else Some a);
     Some (t\<lparr>tt_array := Times a\<rparr>) }"

definition clone_step :: "Time list \<Rightarrow> nat \<Rightarrow> Time list \<Rightarrow> Time list option" where
  "clone_step src i ret = do {
     v \<leftarrow> rd src (int i);
     ret \<leftarrow> wr ret (int (i * 2)) v;
     wr ret (int (i * 2 + 1)) v }"

definition create32BitClone :: "nat \<Rightarrow> TimeTable \<Rightarrow> MemStat \<Rightarrow> (TimeTable \<times> MemStat) option" where
  "create32BitClone chunk t st = do {
     (ret, st) \<leftarrow> TimeTable_new chunk TYPE_32BIT st;
     src \<leftarrow> times_of (tt_array t);
     a \<leftarrow> times_of (tt_array ret);
     a \<leftarrow> for_range 0 (TIMETABLE_SIZE div 2) (clone_step src) a;
     Some (ret\<lparr>tt_array := Times a\<rparr>, st) }"

section \<open>LevelTable\<close>

text \<open>A pointer to a time table: null, to a table, or to one that has been deleted.\<close>

datatype TimeTable_ptr = NULL | Freed | Tab TimeTable

record LevelTable =
  versions :: "Version list"
  time_tables :: "TimeTable_ptr list"
  compressed :: bool
  code :: UInt32

definition MAX_LEVEL :: nat where
  "MAX_LEVEL = 64"

text \<open>The constructor leaves \<open>compressed\<close> as the memory of the object has it.\<close>

definition LevelTable_new :: "bool \<Rightarrow> LevelTable" where
  "LevelTable_new mem = \<lparr>versions = replicate MAX_LEVEL 0, time_tables = replicate MAX_LEVEL NULL,
     compressed = mem, code = 0xDEADBEEF\<rparr>"

definition getVersionAtLevel_lt :: "int \<Rightarrow> LevelTable \<Rightarrow> Version option" where
  "getVersionAtLevel_lt level l = rd (versions l) level"

definition setVersionAtLevel :: "int \<Rightarrow> Version \<Rightarrow> LevelTable \<Rightarrow> LevelTable option" where
  "setVersionAtLevel level ver l = do {
     vs \<leftarrow> wr (versions l) level ver; Some (l\<lparr>versions := vs\<rparr>) }"

definition getTimeTableAtLevel :: "int \<Rightarrow> LevelTable \<Rightarrow> TimeTable_ptr option" where
  "getTimeTableAtLevel level l = rd (time_tables l) level"

definition setTimeTableAtLevel :: "int \<Rightarrow> TimeTable_ptr \<Rightarrow> LevelTable \<Rightarrow> LevelTable option" where
  "setTimeTableAtLevel level t l = do {
     ts \<leftarrow> wr (time_tables l) level t; Some (l\<lparr>time_tables := ts\<rparr>) }"

fun deref :: "TimeTable_ptr \<Rightarrow> TimeTable option" where
  "deref (Tab t) = Some t"
| "deref NULL = None"
| "deref Freed = None"

definition getTimeForAddrAtLevel :: "int \<Rightarrow> Addr \<Rightarrow> Version \<Rightarrow> LevelTable \<Rightarrow> Time option" where
  "getTimeForAddrAtLevel level addr curr_ver l = do {
     table \<leftarrow> getTimeTableAtLevel level l;
     stored_ver \<leftarrow> rd (versions l) level;
     if table \<noteq> NULL \<and> stored_ver = curr_ver
     then do { t \<leftarrow> deref table; getTimeAtAddr t addr }
     else Some 0 }"

text \<open>
  The two cases of \<open>setTimeForAddrAtLevel\<close>. In the second, a table converted to 32 bits is only
  held by the local variable: the level table keeps the pointer to the deleted one.
\<close>

definition write_new_table ::
  "nat \<Rightarrow> int \<Rightarrow> Addr \<Rightarrow> Time \<Rightarrow> TableType \<Rightarrow> LevelTable \<times> MemStat \<Rightarrow> (LevelTable \<times> MemStat) option" where
  "write_new_table chunk level addr val ty = (\<lambda>(l, st). do {
     (t, st) \<leftarrow> TimeTable_new chunk ty st;
     t \<leftarrow> setTimeAtAddr t addr val ty;
     l \<leftarrow> setTimeTableAtLevel level (Tab t) l;
     st \<leftarrow> eventTimeTableNewAlloc level ty st;
     Some (l, st) })"

definition write_converted_table ::
  "nat \<Rightarrow> int \<Rightarrow> Addr \<Rightarrow> bool \<Rightarrow> Time \<Rightarrow> TableType \<Rightarrow> TimeTable \<Rightarrow>
   LevelTable \<times> MemStat \<Rightarrow> (LevelTable \<times> MemStat) option" where
  "write_converted_table chunk level addr is_current val ty old = (\<lambda>(l, st). do {
     (t, st) \<leftarrow> create32BitClone chunk old st;
     let st = TimeTable_delete old (eventTimeTableConvertTo32 st);
     l \<leftarrow> setTimeTableAtLevel level Freed l;
     t \<leftarrow> (if is_current then Some t else clean t);
     t \<leftarrow> setTimeAtAddr t addr val ty;
     Some (l, st) })"

definition write_in_place ::
  "int \<Rightarrow> Addr \<Rightarrow> bool \<Rightarrow> Time \<Rightarrow> TableType \<Rightarrow> TimeTable \<Rightarrow> LevelTable \<Rightarrow> LevelTable option" where
  "write_in_place level addr is_current val ty t l = do {
     t \<leftarrow> (if is_current then Some t else clean t);
     t \<leftarrow> setTimeAtAddr t addr val ty;
     setTimeTableAtLevel level (Tab t) l }"

definition setTimeForAddrAtLevel ::
  "nat \<Rightarrow> int \<Rightarrow> Addr \<Rightarrow> Version \<Rightarrow> Time \<Rightarrow> TableType \<Rightarrow> LevelTable \<times> MemStat \<Rightarrow> (LevelTable \<times> MemStat) option" where
  "setTimeForAddrAtLevel chunk level addr curr_ver val ty = (\<lambda>(l, st). do {
     table \<leftarrow> getTimeTableAtLevel level l;
     stored_ver \<leftarrow> getVersionAtLevel_lt level l;
     st \<leftarrow> eventLevelWrite level st;
     (l, st) \<leftarrow>
       (if table = NULL then write_new_table chunk level addr val ty (l, st)
        else do {
          t \<leftarrow> deref table;
          if ty = TYPE_32BIT \<and> type t = TYPE_64BIT
          then write_converted_table chunk level addr (stored_ver = curr_ver) val ty t (l, st)
          else do { l \<leftarrow> write_in_place level addr (stored_ver = curr_ver) val ty t l; Some (l, st) } });
     l \<leftarrow> setVersionAtLevel level curr_ver l;
     Some (l, st) })"

text \<open>The loop of \<open>findLowestInvalidIndex\<close>, with the number of levels that are left.\<close>

fun lowest_invalid_from :: "LevelTable \<Rightarrow> Version list \<Rightarrow> nat \<Rightarrow> nat \<Rightarrow> nat option" where
  "lowest_invalid_from l curr_versions i 0 = Some i"
| "lowest_invalid_from l curr_versions i (Suc k) = do {
     t \<leftarrow> rd (time_tables l) (int i);
     if t = NULL then Some i
     else do {
       v \<leftarrow> rd (versions l) (int i);
       c \<leftarrow> rd curr_versions (int i);
       if v \<ge> c then lowest_invalid_from l curr_versions (Suc i) k else Some i } }"

definition findLowestInvalidIndex :: "LevelTable \<Rightarrow> Version list \<Rightarrow> nat option" where
  "findLowestInvalidIndex l curr_versions = lowest_invalid_from l curr_versions 0 MAX_LEVEL"

text \<open>\<open>delete\<close> of the table at a level; deleting it a second time is undefined.\<close>

definition drop_table :: "nat \<Rightarrow> LevelTable \<times> MemStat \<Rightarrow> (LevelTable \<times> MemStat) option" where
  "drop_table i = (\<lambda>(l, st). do {
     p \<leftarrow> rd (time_tables l) (int i);
     if p = NULL then Some (l, st)
     else do {
       t \<leftarrow> deref p;
       ts \<leftarrow> wr (time_tables l) (int i) NULL;
       Some (l\<lparr>time_tables := ts\<rparr>, TimeTable_delete t st) } })"

definition cleanTimeTablesFromLevel :: "nat \<Rightarrow> LevelTable \<times> MemStat \<Rightarrow> (LevelTable \<times> MemStat) option" where
  "cleanTimeTablesFromLevel start_level = for_range start_level (MAX_LEVEL - start_level) drop_table"

definition collect_level ::
  "Version list \<Rightarrow> nat \<Rightarrow> LevelTable \<times> MemStat \<Rightarrow> (LevelTable \<times> MemStat) option" where
  "collect_level curr_versions i = (\<lambda>(l, st). do {
     p \<leftarrow> rd (time_tables l) (int i);
     if p = NULL then Some (l, st)
     else do {
       ver \<leftarrow> rd (versions l) (int i);
       c \<leftarrow> rd curr_versions (int i);
       if ver < c then drop_table i (l, st) else Some (l, st) } })"

definition collectGarbageWithinBounds ::
  "Version list \<Rightarrow> nat \<Rightarrow> LevelTable \<times> MemStat \<Rightarrow> (LevelTable \<times> MemStat) option" where
  "collectGarbageWithinBounds curr_versions end_index s =
     for_range 0 end_index (collect_level curr_versions) s \<bind> cleanTimeTablesFromLevel end_index"

definition collectGarbageUnbounded ::
  "Version list \<Rightarrow> LevelTable \<times> MemStat \<Rightarrow> (LevelTable \<times> MemStat) option" where
  "collectGarbageUnbounded curr_versions = (\<lambda>(l, st). do {
     lii \<leftarrow> findLowestInvalidIndex l curr_versions;
     cleanTimeTablesFromLevel lii (l, st) })"

text \<open>The destructor frees the time tables.\<close>

definition delete_level :: "LevelTable \<Rightarrow> nat \<Rightarrow> MemStat \<Rightarrow> MemStat option" where
  "delete_level l i st = do {
     p \<leftarrow> rd (time_tables l) (int i);
     if p = NULL then Some st else do { t \<leftarrow> deref p; Some (TimeTable_delete t st) } }"

definition LevelTable_delete :: "LevelTable \<Rightarrow> MemStat \<Rightarrow> MemStat option" where
  "LevelTable_delete l = for_range 0 MAX_LEVEL (delete_level l)"

fun depth_from :: "LevelTable \<Rightarrow> nat \<Rightarrow> nat \<Rightarrow> UInt32" where
  "depth_from l i 0 = - 1"
| "depth_from l i (Suc k) = (if time_tables l ! i = NULL then of_nat i else depth_from l (Suc i) k)"

definition getDepth :: "LevelTable \<Rightarrow> UInt32" where
  "getDepth l = depth_from l 0 MAX_LEVEL"

section \<open>Laws of a time table\<close>

text \<open>
  A table in use: it has at least as many entries as its type addresses.
\<close>

definition timetable_ok :: "TimeTable \<Rightarrow> bool" where
  "timetable_ok t \<longleftrightarrow> (\<exists>a. tt_array t = Times a \<and> GetNumEntries (type t) \<le> length a)"

lemma GetNumEntries_simps [simp]:
  "GetNumEntries TYPE_64BIT = 512" "GetNumEntries TYPE_32BIT = 1024"
  by (simp_all add: GetNumEntries_def TIMETABLE_SIZE_def drop_bit_nat_def)

lemma and_mask_10: "unat (w AND TIMETABLE_MASK) = unat w mod 1024"
proof -
  have "TIMETABLE_MASK = mask 10" by (simp add: TIMETABLE_MASK_def mask_eq_exp_minus_1)
  then have "w AND TIMETABLE_MASK = take_bit 10 w" by (simp add: take_bit_eq_mask)
  then show ?thesis by (simp add: take_bit_eq_mod unat_mod)
qed

lemma getIndex_64: "type t = TYPE_64BIT \<Longrightarrow> getIndex t addr = (unat addr div 4) mod 1024 div 2"
  by (simp add: getIndex_def Let_def unat_div and_mask_10 drop_bit_eq_div)

lemma getIndex_32: "type t = TYPE_32BIT \<Longrightarrow> getIndex t addr = (unat addr div 4) mod 1024"
  by (simp add: getIndex_def Let_def unat_div and_mask_10 drop_bit_eq_div)

lemma getIndex_bound: "getIndex t addr < GetNumEntries (type t)"
proof (cases "type t")
  case TYPE_64BIT
  have "(unat addr div 4) mod 1024 < 1024" by simp
  then show ?thesis using TYPE_64BIT by (simp add: getIndex_64)
next
  case TYPE_32BIT
  then show ?thesis by (simp add: getIndex_32)
qed

text \<open>The constructor with a pool chunk that is large enough, and with one that is not.\<close>

lemma memzero_MemPoolAlloc: "n \<le> chunk \<Longrightarrow> memzero (MemPoolAlloc chunk) 0 n = Some (replicate chunk 0)"
  by (simp add: memzero_def memcpy_def MemPoolAlloc_def flip: replicate_add)

lemma TimeTable_new_ok:
  assumes "GetNumEntries ty \<le> chunk"
  shows "\<exists>t st'. TimeTable_new chunk ty st = Some (t, st') \<and> timetable_ok t \<and> type t = ty
    \<and> tt_array t = Times (replicate chunk 0) \<and> stat_ok st' = stat_ok st
    \<and> getActiveTimeTableSize st' = getActiveTimeTableSize st + 1"
  using assms by (simp add: TimeTable_new_def memzero_MemPoolAlloc Let_def timetable_ok_def)

lemma TimeTable_new_overflow: "chunk < GetNumEntries ty \<Longrightarrow> TimeTable_new chunk ty st = None"
  by (simp add: TimeTable_new_def memzero_def memcpy_def MemPoolAlloc_def)

lemma getTimeAtAddr_ok: "timetable_ok t \<Longrightarrow> tt_array t = Times a \<Longrightarrow> getTimeAtAddr t addr = Some (a ! getIndex t addr)"
  using getIndex_bound [of t addr] by (auto simp: timetable_ok_def getTimeAtAddr_def rd_int)

lemma getIndex_cong: "type t = type u \<Longrightarrow> getIndex t addr = getIndex u addr"
  by (simp add: getIndex_def)

lemma setTimeAtAddr_64:
  assumes "timetable_ok t" "type t = TYPE_64BIT"
  shows "\<exists>t'. setTimeAtAddr t addr v ty = Some t' \<and> timetable_ok t' \<and> type t' = TYPE_64BIT
    \<and> getTimeAtAddr t' b = (if getIndex t b = getIndex t addr then Some v else getTimeAtAddr t b)"
proof -
  from assms(1) obtain a where a: "tt_array t = Times a" "GetNumEntries (type t) \<le> length a"
    by (auto simp: timetable_ok_def)
  have ix: "getIndex t c < length a" for c by (rule less_le_trans [OF getIndex_bound a(2)])
  define t' where "t' = t\<lparr>tt_array := Times (a[getIndex t addr := v])\<rparr>"
  have "setTimeAtAddr t addr v ty = Some t'"
    using a assms(2) ix by (simp add: setTimeAtAddr_def wr_int Let_def t'_def)
  moreover have "timetable_ok t'" using a by (simp add: timetable_ok_def t'_def)
  moreover have "getIndex t' b = getIndex t b" by (rule getIndex_cong) (simp add: t'_def)
  ultimately show ?thesis
    using a assms ix by (auto simp: getTimeAtAddr_def rd_int t'_def)
qed

lemma clean_ok:
  assumes "timetable_ok t"
  shows "\<exists>t'. clean t = Some t' \<and> timetable_ok t' \<and> type t' = type t \<and> getTimeAtAddr t' b = Some 0"
proof -
  from assms obtain a where a: "tt_array t = Times a" "GetNumEntries (type t) \<le> length a"
    by (auto simp: timetable_ok_def)
  then obtain a' where a': "memzero a 0 (GetNumEntries (type t)) = Some a'"
    using memzero_in [of 0 "GetNumEntries (type t)" a] by auto
  have l: "length a' = length a" using memzero_length [OF a'] .
  define t' where "t' = t\<lparr>tt_array := Times a'\<rparr>"
  have c: "clean t = Some t'" using a a' by (simp add: clean_def t'_def)
  have ok: "timetable_ok t'" using a l by (simp add: timetable_ok_def t'_def)
  have ix: "getIndex t' b < GetNumEntries (type t)" using getIndex_bound [of t' b] by (simp add: t'_def)
  have "a' ! getIndex t' b = 0" using memzero_nth [OF a', of "getIndex t' b"] ix a by simp
  with c ok show ?thesis using getTimeAtAddr_ok [OF ok, of a' b] by (simp add: t'_def)
qed

section \<open>The 32-bit clone\<close>

lemma clone_loop:
  assumes "512 \<le> length src" "1024 \<le> length dst"
  shows "\<exists>dst'. for_range 0 512 (clone_step src) dst = Some dst' \<and> length dst' = length dst
    \<and> (\<forall>k < 1024. dst' ! k = src ! (k div 2))"
proof -
  let ?I = "\<lambda>j d. length d = length dst \<and> (\<forall>k < 2 * j. d ! k = src ! (k div 2))"
  have "\<exists>d'. for_range 0 512 (clone_step src) dst = Some d' \<and> ?I (0 + 512) d'"
  proof (rule for_range_rule)
    show "?I 0 dst" by simp
  next
    fix j d
    assume j: "j < 0 + (512 :: nat)" and I: "?I j d"
    have b: "j < length src" "j * 2 < length d" "j * 2 + 1 < length d" using j I assms by auto
    let ?d = "d[j * 2 := src ! j, j * 2 + 1 := src ! j]"
    have "clone_step src j d = Some ?d"
      unfolding clone_step_def using b by (simp only: rd_int wr_int length_list_update bind.bind_lunit)
    moreover have "?I (Suc j) ?d"
    proof (intro conjI allI impI)
      fix k assume "k < 2 * Suc j"
      then have "k < 2 * j \<or> k = j * 2 \<or> k = j * 2 + 1" by presburger
      then consider "k < 2 * j" | "k = j * 2" | "k = j * 2 + 1" by blast
      then show "?d ! k = src ! (k div 2)" using I b by cases auto
    qed (use I in simp)
    ultimately show "\<exists>s'. clone_step src j d = Some s' \<and> ?I (Suc j) s'" by blast
  qed
  then show ?thesis by simp
qed

lemma create32BitClone_ok:
  assumes "timetable_ok t" "type t = TYPE_64BIT" "1024 \<le> chunk"
  shows "\<exists>t' st'. create32BitClone chunk t st = Some (t', st') \<and> timetable_ok t' \<and> type t' = TYPE_32BIT
    \<and> (\<forall>addr. getTimeAtAddr t' addr = getTimeAtAddr t addr)"
proof -
  from assms obtain a where a: "tt_array t = Times a" "512 \<le> length a" by (auto simp: timetable_ok_def)
  from TimeTable_new_ok [of TYPE_32BIT chunk st] assms(3) obtain r st' where r:
    "TimeTable_new chunk TYPE_32BIT st = Some (r, st')" "type r = TYPE_32BIT"
    "tt_array r = Times (replicate chunk 0)" by auto
  from clone_loop [OF a(2), of "replicate chunk 0"] assms(3) obtain d where d:
    "for_range 0 512 (clone_step a) (replicate chunk 0) = Some d" "length d = chunk"
    "\<forall>k < 1024. d ! k = a ! (k div 2)" by auto
  let ?t = "r\<lparr>tt_array := Times d\<rparr>"
  have "create32BitClone chunk t st = Some (?t, st')"
    using r d(1) a by (simp add: create32BitClone_def TIMETABLE_SIZE_def)
  moreover have ok: "timetable_ok ?t" using r d assms(3) by (simp add: timetable_ok_def)
  moreover have "getTimeAtAddr ?t addr = getTimeAtAddr t addr" for addr
    using getTimeAtAddr_ok [OF ok, of d addr] getTimeAtAddr_ok [OF assms(1) a(1), of addr]
      d(3) r(2) assms(2) by (simp add: getIndex_64 getIndex_32)
  ultimately show ?thesis using r by auto
qed

text \<open>
  With a pool chunk of 1024 times or more, the 32-bit clone of a 64-bit time table holds, at every
  address, the time the table holds there.
\<close>

theorem clone_keeps_times:
  assumes "tt_array t = Times a" "512 \<le> length a" "type t = TYPE_64BIT" "1024 \<le> chunk"
  shows "\<exists>t' st'. create32BitClone chunk t st = Some (t', st') \<and> type t' = TYPE_32BIT
    \<and> (\<forall>addr. \<exists>v. getTimeAtAddr t addr = Some v \<and> getTimeAtAddr t' addr = Some v)"
proof -
  have ok: "timetable_ok t" using assms by (simp add: timetable_ok_def)
  from create32BitClone_ok [OF ok assms(3,4), of st] getTimeAtAddr_ok [OF ok assms(1)]
  show ?thesis by auto
qed

theorem clone_keeps_times_witness:
  "\<exists>t' st'. create32BitClone 1024 \<lparr>type = TYPE_64BIT, tt_size = 4096, tt_array = Times (replicate 512 7)\<rparr> MemStat_zero
      = Some (t', st') \<and> type t' = TYPE_32BIT
    \<and> (\<forall>addr. \<exists>v. getTimeAtAddr \<lparr>type = TYPE_64BIT, tt_size = 4096, tt_array = Times (replicate 512 7)\<rparr> addr = Some v
        \<and> getTimeAtAddr t' addr = Some v)"
  by (rule clone_keeps_times [where a = "replicate 512 7"]) simp_all

text \<open>
  With the chunks \<open>MShadowSkadu::init\<close> asks for (512 times), a 32-bit table cannot be built, and
  so a 64-bit table cannot be converted: the constructor clears 1024 times in a chunk of 512.
\<close>

theorem table32_overflows_chunk:
  "TimeTable_new (GetNumEntries TYPE_64BIT) TYPE_32BIT st = None
   \<and> create32BitClone (GetNumEntries TYPE_64BIT) t st = None"
  by (simp add: create32BitClone_def TimeTable_new_overflow)

end
