(* ===== verification/LevelTableSpec.thy ===== *)
theory LevelTableSpec
  imports LevelTables
begin

text \<open>
  What a level table stores, seen from outside: for every level, offset in the page and version a
  time (\<open>level_time\<close>), 0 where nothing is stored. Reading gives this time; writing and the garbage
  collection act on it as specified here.
\<close>

section \<open>The abstract contents\<close>

fun slot_ok :: "TimeTable_ptr \<Rightarrow> bool" where
  "slot_ok NULL = True"
| "slot_ok Freed = False"
| "slot_ok (Tab t) = (timetable_ok t \<and> type t = TYPE_64BIT)"

definition level_table_ok :: "LevelTable \<Rightarrow> bool" where
  "level_table_ok l \<longleftrightarrow> length (versions l) = 64 \<and> length (time_tables l) = 64
     \<and> (\<forall>i < 64. slot_ok (time_tables l ! i))"

definition page_offset :: "Addr \<Rightarrow> nat" where
  "page_offset addr = (unat addr div 4) mod 1024 div 2"

fun slot_time :: "TimeTable_ptr \<Rightarrow> Addr \<Rightarrow> Time" where
  "slot_time (Tab t) addr = the (getTimeAtAddr t addr)"
| "slot_time _ addr = 0"

definition level_time :: "LevelTable \<Rightarrow> nat \<Rightarrow> Addr \<Rightarrow> Version \<Rightarrow> Time" where
  "level_time l i addr ver = (if versions l ! i = ver then slot_time (time_tables l ! i) addr else 0)"

lemma level_table_ok_new [simp]: "level_table_ok (LevelTable_new c)"
  by (simp add: level_table_ok_def LevelTable_new_def MAX_LEVEL_def)

lemma level_time_new [simp]: "i < 64 \<Longrightarrow> level_time (LevelTable_new c) i addr ver = 0"
  by (simp add: level_time_def LevelTable_new_def MAX_LEVEL_def)

lemma level_table_slot:
  assumes "level_table_ok l" "i < 64"
  obtains (null) "time_tables l ! i = NULL"
  | (tab) t where "time_tables l ! i = Tab t" "timetable_ok t" "type t = TYPE_64BIT"
  using assms by (cases "time_tables l ! i") (auto simp: level_table_ok_def dest: spec [where x = i])

lemma timetable_ok_time: "timetable_ok t \<Longrightarrow> getTimeAtAddr t addr = Some (slot_time (Tab t) addr)"
  using getTimeAtAddr_ok [of t _ addr] by (auto simp: timetable_ok_def)

lemma getTimeForAddrAtLevel_ok:
  assumes "level_table_ok l" "i < 64"
  shows "getTimeForAddrAtLevel (int i) addr ver l = Some (level_time l i addr ver)"
proof -
  have b: "i < length (versions l)" "i < length (time_tables l)"
    using assms by (auto simp: level_table_ok_def)
  from assms show ?thesis
  proof (cases rule: level_table_slot)
    case null
    then show ?thesis using b by (simp add: getTimeForAddrAtLevel_def getTimeTableAtLevel_def rd_int level_time_def)
  next
    case (tab t)
    then show ?thesis using b timetable_ok_time [OF tab(2)]
      by (simp add: getTimeForAddrAtLevel_def getTimeTableAtLevel_def rd_int level_time_def del: slot_time.simps)
  qed
qed

lemma getIndex_page: "type t = TYPE_64BIT \<Longrightarrow> getIndex t addr = page_offset addr"
  by (simp add: getIndex_64 page_offset_def)

section \<open>Writing\<close>

text \<open>The table of a level, after a write to it.\<close>

definition written :: "TimeTable_ptr \<Rightarrow> TimeTable_ptr \<Rightarrow> bool \<Rightarrow> Addr \<Rightarrow> Time \<Rightarrow> bool" where
  "written old new is_current addr v \<longleftrightarrow> slot_ok new \<and>
     (\<forall>b. slot_time new b = (if page_offset b = page_offset addr then v
                              else if is_current then slot_time old b else 0))"

lemma written_new:
  assumes "512 \<le> chunk"
  shows "\<exists>t st1 t'. TimeTable_new chunk TYPE_64BIT st = Some (t, st1) \<and> setTimeAtAddr t addr v ty = Some t'
    \<and> stat_ok st1 = stat_ok st \<and> written NULL (Tab t') c addr v"
proof -
  from TimeTable_new_ok [of TYPE_64BIT chunk st] assms obtain t st1 where t:
    "TimeTable_new chunk TYPE_64BIT st = Some (t, st1)" "timetable_ok t" "type t = TYPE_64BIT"
    "tt_array t = Times (replicate chunk 0)" "stat_ok st1 = stat_ok st" by auto
  have z: "getTimeAtAddr t b = Some 0" for b
    using getTimeAtAddr_ok [OF t(2,4), of b] getIndex_bound [of t b] t(3) assms by simp
  obtain t' where t': "setTimeAtAddr t addr v ty = Some t'" "timetable_ok t'" "type t' = TYPE_64BIT"
    using setTimeAtAddr_64 [OF t(2,3)] by blast
  have "getTimeAtAddr t' b = (if page_offset b = page_offset addr then Some v else Some 0)" for b
    using setTimeAtAddr_64 [OF t(2,3), of addr v ty b] t'(1) z [of b] by (simp add: getIndex_page t(3))
  then have "written NULL (Tab t') c addr v" using t' by (simp add: written_def)
  with t t' show ?thesis by blast
qed

lemma written_in_place:
  assumes "timetable_ok t" "type t = TYPE_64BIT"
  shows "\<exists>t1 t'. (if c then Some t else clean t) = Some t1 \<and> setTimeAtAddr t1 addr v ty = Some t'
    \<and> written (Tab t) (Tab t') c addr v"
proof -
  obtain t1 where t1: "(if c then Some t else clean t) = Some t1" "timetable_ok t1" "type t1 = TYPE_64BIT"
    using clean_ok [OF assms(1)] assms by (cases c) auto
  have z: "getTimeAtAddr t1 b = Some (if c then slot_time (Tab t) b else 0)" for b
  proof (cases c)
    case True
    then show ?thesis using t1(1) timetable_ok_time [OF assms(1)] by simp
  next
    case False
    then show ?thesis using t1(1) clean_ok [OF assms(1), of b] by auto
  qed
  obtain t' where t': "setTimeAtAddr t1 addr v ty = Some t'" "timetable_ok t'" "type t' = TYPE_64BIT"
    using setTimeAtAddr_64 [OF t1(2,3)] by blast
  have "getTimeAtAddr t' b = (if page_offset b = page_offset addr then Some v
      else Some (if c then slot_time (Tab t) b else 0))" for b
    using setTimeAtAddr_64 [OF t1(2,3), of addr v ty b] t'(1) z [of b] by (simp add: getIndex_page t1(3))
  then have "written (Tab t) (Tab t') c addr v" using t' by (simp add: written_def)
  with t1 t' show ?thesis by blast
qed

lemma setTimeForAddrAtLevel_written:
  assumes "level_table_ok l" "stat_ok st" "i < 64" "512 \<le> chunk"
  shows "\<exists>p st'. setTimeForAddrAtLevel chunk (int i) addr ver v TYPE_64BIT (l, st)
       = Some (l\<lparr>versions := (versions l)[i := ver], time_tables := (time_tables l)[i := p]\<rparr>, st')
    \<and> stat_ok st' \<and> written (time_tables l ! i) p (versions l ! i = ver) addr v"
proof -
  have b: "i < length (versions l)" "i < length (time_tables l)" "i < 128"
    using assms by (auto simp: level_table_ok_def)
  obtain st1 where st1: "eventLevelWrite (int i) st = Some st1" "stat_ok st1"
    using eventLevelWrite_ok [OF assms(2) b(3)] by blast
  note defs = setTimeForAddrAtLevel_def getTimeTableAtLevel_def getVersionAtLevel_lt_def setVersionAtLevel_def
    setTimeTableAtLevel_def rd_int wr_int
  from assms(1,3) show ?thesis
  proof (cases rule: level_table_slot)
    case null
    obtain t st2 t' where t: "TimeTable_new chunk TYPE_64BIT st1 = Some (t, st2)"
      "setTimeAtAddr t addr v TYPE_64BIT = Some t'" "stat_ok st2"
      "written NULL (Tab t') (versions l ! i = ver) addr v"
      using written_new [OF assms(4), of st1 addr v TYPE_64BIT] st1(2) by blast
    obtain st3 where st3: "eventTimeTableNewAlloc (int i) TYPE_64BIT st2 = Some st3" "stat_ok st3"
      using eventTimeTableNewAlloc_ok [OF t(3) b(3)] by blast
    show ?thesis
      by (rule exI [where x = "Tab t'"], rule exI [where x = st3])
        (use null t st1 st3 b in \<open>simp add: defs write_new_table_def\<close>)
  next
    case (tab t)
    obtain t1 t' where t': "(if versions l ! i = ver then Some t else clean t) = Some t1"
      "setTimeAtAddr t1 addr v TYPE_64BIT = Some t'" "written (Tab t) (Tab t') (versions l ! i = ver) addr v"
      using written_in_place [OF tab(2,3)] by blast
    have "write_in_place (int i) addr (versions l ! i = ver) v TYPE_64BIT t l
        = Some (l\<lparr>time_tables := (time_tables l)[i := Tab t']\<rparr>)"
      unfolding write_in_place_def t'(1) using t'(2) b by (simp add: setTimeTableAtLevel_def wr_int)
    with t'(3) tab st1 b show ?thesis
      by (intro exI [where x = "Tab t'"] exI [where x = st1]) (simp add: defs)
  qed
qed

text \<open>The abstract effect of such an update of the record.\<close>

definition upd_level :: "LevelTable \<Rightarrow> nat \<Rightarrow> Version \<Rightarrow> TimeTable_ptr \<Rightarrow> LevelTable" where
  "upd_level l i ver p = l\<lparr>versions := (versions l)[i := ver], time_tables := (time_tables l)[i := p]\<rparr>"

lemma upd_level_ok: "level_table_ok l \<Longrightarrow> slot_ok p \<Longrightarrow> level_table_ok (upd_level l i ver p)"
  by (cases "i < 64") (auto simp: level_table_ok_def upd_level_def nth_list_update list_update_beyond)

lemma upd_level_other: "j \<noteq> i \<Longrightarrow> level_time (upd_level l i ver p) j b w = level_time l j b w"
  by (simp add: level_time_def upd_level_def)

lemma upd_level_same:
  assumes "level_table_ok l" "i < 64"
  shows "level_time (upd_level l i ver p) i b w = (if ver = w then slot_time p b else 0)"
  using assms by (simp add: level_time_def upd_level_def level_table_ok_def)

lemma level_write_refines_lemma:
  assumes "level_table_ok l" "stat_ok st" "i < 64" "512 \<le> chunk"
  shows "\<exists>l' st'. setTimeForAddrAtLevel chunk (int i) addr ver v TYPE_64BIT (l, st) = Some (l', st')
    \<and> level_table_ok l' \<and> stat_ok st' \<and> compressed l' = compressed l
    \<and> (\<forall>j b w. level_time l' j b w =
          (if j \<noteq> i then level_time l j b w
           else if w \<noteq> ver then 0
           else if page_offset b = page_offset addr then v
           else level_time l i b ver))"
proof -
  obtain p st' where r: "setTimeForAddrAtLevel chunk (int i) addr ver v TYPE_64BIT (l, st)
       = Some (upd_level l i ver p, st')"
    "stat_ok st'" "written (time_tables l ! i) p (versions l ! i = ver) addr v"
    using setTimeForAddrAtLevel_written [OF assms] unfolding upd_level_def by blast
  have ok: "level_table_ok (upd_level l i ver p)"
    using r(3) upd_level_ok [OF assms(1)] by (simp add: written_def)
  have c: "compressed (upd_level l i ver p) = compressed l" by (simp add: upd_level_def)
  have "level_time (upd_level l i ver p) j b w =
          (if j \<noteq> i then level_time l j b w else if w \<noteq> ver then 0
           else if page_offset b = page_offset addr then v else level_time l i b ver)" for j b w
  proof (cases "j = i \<and> w = ver")
    case True
    then show ?thesis using r(3) upd_level_same [OF assms(1,3), of ver p b ver]
      by (simp add: written_def level_time_def)
  next
    case False
    then show ?thesis using upd_level_same [OF assms(1,3), of ver p b w] by (auto simp: upd_level_other)
  qed
  with r(1,2) ok c show ?thesis by blast
qed

text \<open>
  C28. Storing a time for an address at a level changes exactly the abstract contents of that level:
  afterwards the address has the time under the given version, the other addresses of the page keep
  the time they had under this version, nothing is stored under any other version, and every other
  level is unchanged.
\<close>

theorem level_write_refines:
  assumes "level_table_ok l" "stat_ok st" "i < 64" "512 \<le> chunk"
  shows "\<exists>l' st'. setTimeForAddrAtLevel chunk (int i) addr ver v TYPE_64BIT (l, st) = Some (l', st')
    \<and> level_table_ok l' \<and> stat_ok st' \<and> compressed l' = compressed l
    \<and> (\<forall>j b w. level_time l' j b w =
          (if j \<noteq> i then level_time l j b w
           else if w \<noteq> ver then 0
           else if page_offset b = page_offset addr then v
           else level_time l i b ver))"
  by (rule level_write_refines_lemma [OF assms])

text \<open>Two addresses of a page, written one after the other at level 0 of a fresh table.\<close>

theorem level_write_refines_witness:
  "\<exists>l' st'. setTimeForAddrAtLevel 512 (int 0) 64 5 7 TYPE_64BIT (LevelTable_new False, MemStat_zero) = Some (l', st')
    \<and> level_time l' 0 64 5 = 7 \<and> level_time l' 0 72 5 = 0 \<and> level_time l' 0 64 6 = 0"
proof -
  from level_write_refines [OF level_table_ok_new stat_ok_zero, of 0 512 64 5 7 False]
  obtain l' st' where w: "setTimeForAddrAtLevel 512 (int 0) 64 5 7 TYPE_64BIT (LevelTable_new False, MemStat_zero) = Some (l', st')"
    "\<forall>j b w. level_time l' j b w = (if j \<noteq> 0 then level_time (LevelTable_new False) j b w
           else if w \<noteq> 5 then 0
           else if page_offset b = page_offset 64 then 7
           else level_time (LevelTable_new False) 0 b 5)" by auto
  moreover have "page_offset 64 \<noteq> page_offset 72" by (simp add: page_offset_def)
  ultimately show ?thesis by auto
qed

section \<open>Garbage collection\<close>

lemma drop_table_ok:
  assumes "level_table_ok l" "i < 64"
  shows "drop_table i (l, st) = Some (l\<lparr>time_tables := (time_tables l)[i := NULL]\<rparr>,
    case time_tables l ! i of Tab t \<Rightarrow> TimeTable_delete t st | _ \<Rightarrow> st)"
proof -
  have b: "i < length (time_tables l)" using assms by (simp add: level_table_ok_def)
  from assms show ?thesis
  proof (cases rule: level_table_slot)
    case null
    then have "(time_tables l)[i := NULL] = time_tables l" by (metis list_update_id)
    then show ?thesis using null b by (simp add: drop_table_def rd_int)
  qed (use b in \<open>simp add: drop_table_def rd_int wr_int\<close>)
qed

lemma stat_ok_delete [simp]: "stat_ok (TimeTable_delete t st) = stat_ok st"
  by (simp add: TimeTable_delete_def)

text \<open>
  A level table from which tables have been dropped: those that \<open>gone\<close> holds of are null, the others
  are as before.
\<close>

definition pruned :: "(nat \<Rightarrow> bool) \<Rightarrow> LevelTable \<Rightarrow> LevelTable" where
  "pruned gone l = l\<lparr>time_tables := map (\<lambda>i. if gone i then NULL else time_tables l ! i) [0..<length (time_tables l)]\<rparr>"

lemma pruned_ok: "level_table_ok l \<Longrightarrow> level_table_ok (pruned gone l)"
  by (auto simp: level_table_ok_def pruned_def)

lemma pruned_simps [simp]:
  "versions (pruned gone l) = versions l" "compressed (pruned gone l) = compressed l"
  "length (time_tables (pruned gone l)) = length (time_tables l)"
  by (simp_all add: pruned_def)

lemma pruned_nth: "i < length (time_tables l) \<Longrightarrow>
    time_tables (pruned gone l) ! i = (if gone i then NULL else time_tables l ! i)"
  by (simp add: pruned_def)

lemma pruned_none: "pruned (\<lambda>i. False) l = l"
  by (simp add: pruned_def map_nth)

lemma pruned_step:
  assumes "i < length (time_tables l)"
  shows "(pruned gone l)\<lparr>time_tables := (time_tables (pruned gone l))[i := NULL]\<rparr> = pruned (\<lambda>j. gone j \<or> j = i) l"
  using assms by (intro LevelTable.equality) (auto simp: pruned_def nth_list_update intro!: nth_equalityI)

lemma pruned_cong:
  assumes "\<And>i. i < length (time_tables l) \<Longrightarrow> time_tables l ! i \<noteq> NULL \<Longrightarrow> g i = h i"
  shows "pruned g l = pruned h l"
proof -
  have "(if g i then NULL else time_tables l ! i) = (if h i then NULL else time_tables l ! i)"
    if "i < length (time_tables l)" for i
    using assms [OF that] by (cases "time_tables l ! i = NULL") simp_all
  then show ?thesis unfolding pruned_def by (intro arg_cong [where f = "\<lambda>ts. l\<lparr>time_tables := ts\<rparr>"]) simp
qed

lemma pruned_trivial: "(\<And>i. \<not> gone i) \<Longrightarrow> pruned gone l = l"
  by (simp add: pruned_def map_nth)

lemma level_time_pruned:
  "level_table_ok l \<Longrightarrow> i < 64 \<Longrightarrow>
   level_time (pruned gone l) i b w = (if gone i then 0 else level_time l i b w)"
  by (simp add: level_time_def pruned_nth level_table_ok_def)

lemma cleanTimeTablesFromLevel_ok:
  assumes "level_table_ok l" "stat_ok st" "n \<le> 64"
  shows "\<exists>st'. cleanTimeTablesFromLevel n (l, st) = Some (pruned (\<lambda>i. n \<le> i) l, st') \<and> stat_ok st'"
proof -
  let ?I = "\<lambda>j s. fst s = pruned (\<lambda>i. n \<le> i \<and> i < j) l \<and> stat_ok (snd s)"
  have len: "length (time_tables l) = 64" using assms(1) by (simp add: level_table_ok_def)
  have "\<exists>s'. for_range n (64 - n) drop_table (l, st) = Some s' \<and> ?I (n + (64 - n)) s'"
  proof (rule for_range_rule)
    show "?I n (l, st)" using assms(2) by (simp add: pruned_trivial)
  next
    fix j s assume j: "n \<le> j" "j < n + (64 - n)" and I: "?I j s"
    have j': "j < 64" using j by simp
    have e: "pruned (\<lambda>i. (n \<le> i \<and> i < j) \<or> i = j) l = pruned (\<lambda>i. n \<le> i \<and> i < Suc j) l"
      by (rule pruned_cong) (use j in auto)
    have "drop_table j s = Some (pruned (\<lambda>i. n \<le> i \<and> i < Suc j) l,
        case time_tables (fst s) ! j of Tab t \<Rightarrow> TimeTable_delete t (snd s) | _ \<Rightarrow> snd s)"
      using drop_table_ok [OF pruned_ok [OF assms(1)] j', of "\<lambda>i. n \<le> i \<and> i < j" "snd s"] I len j' e
      by (cases s) (simp add: pruned_step del: pruned_simps)
    with I show "\<exists>s'. drop_table j s = Some s' \<and> ?I (Suc j) s'"
      by (auto split: TimeTable_ptr.split)
  qed
  then obtain s' where s': "for_range n (64 - n) drop_table (l, st) = Some s'" "?I (n + (64 - n)) s'" by blast
  have "pruned (\<lambda>i. n \<le> i \<and> i < n + (64 - n)) l = pruned (\<lambda>i. n \<le> i) l"
    by (rule pruned_cong) (use assms(3) len in auto)
  with s' show ?thesis
    unfolding cleanTimeTablesFromLevel_def MAX_LEVEL_def by (cases s') auto
qed

text \<open>A table is out of date when its version is older than the current one of its level.\<close>

definition outdated :: "LevelTable \<Rightarrow> Version list \<Rightarrow> nat \<Rightarrow> bool" where
  "outdated l vs i \<longleftrightarrow> versions l ! i < vs ! i"

lemma collect_level_ok:
  assumes "level_table_ok l" "stat_ok st" "i < 64" "i < length vs"
  shows "\<exists>st'. collect_level vs i (l, st) = Some (pruned (\<lambda>j. j = i \<and> outdated l vs i) l, st') \<and> stat_ok st'"
proof -
  have b: "i < length (versions l)" "i < length (time_tables l)" using assms by (auto simp: level_table_ok_def)
  have e: "l\<lparr>time_tables := (time_tables l)[i := NULL]\<rparr> = pruned (\<lambda>j. j = i) l"
    using pruned_step [OF b(2), of "\<lambda>j. False"] by (simp add: pruned_none)
  show ?thesis
  proof (cases "time_tables l ! i \<noteq> NULL \<and> outdated l vs i")
    case True
    then show ?thesis using b assms drop_table_ok [OF assms(1,3), of st]
      by (auto simp: collect_level_def rd_int outdated_def e split: TimeTable_ptr.splits)
  next
    case False
    have "pruned (\<lambda>j. j = i \<and> outdated l vs i) l = pruned (\<lambda>j. False) l"
      by (rule pruned_cong) (use False in auto)
    then show ?thesis using False b assms
      by (auto simp: collect_level_def rd_int outdated_def pruned_none)
  qed
qed

lemma collectGarbageWithinBounds_pruned:
  assumes "level_table_ok l" "stat_ok st" "n \<le> 64" "n \<le> length vs"
  shows "\<exists>st'. collectGarbageWithinBounds vs n (l, st)
      = Some (pruned (\<lambda>i. n \<le> i \<or> outdated l vs i) l, st') \<and> stat_ok st'"
proof -
  have len: "length (time_tables l) = 64" using assms(1) by (simp add: level_table_ok_def)
  let ?g = "\<lambda>j i. i < j \<and> outdated l vs i"
  let ?I = "\<lambda>j s. fst s = pruned (?g j) l \<and> stat_ok (snd s)"
  have join: "pruned h (pruned g l) = pruned (\<lambda>i. g i \<or> h i) l" for g h
    by (rule LevelTable.equality) (auto simp: pruned_def)
  have "\<exists>s'. for_range 0 n (collect_level vs) (l, st) = Some s' \<and> ?I (0 + n) s'"
  proof (rule for_range_rule)
    show "?I 0 (l, st)" using assms(2) pruned_none [of l] by simp
  next
    fix j s assume j: "j < 0 + n" and I: "?I j s"
    have j': "j < 64" "j < length vs" using j assms by auto
    obtain st' where st': "collect_level vs j (pruned (?g j) l, snd s)
        = Some (pruned (\<lambda>i. i = j \<and> outdated (pruned (?g j) l) vs j) (pruned (?g j) l), st')" "stat_ok st'"
      using collect_level_ok [OF pruned_ok [OF assms(1)], of "snd s" j vs "?g j"] I j' by blast
    have "pruned (\<lambda>i. i = j \<and> outdated (pruned (?g j) l) vs j) (pruned (?g j) l) = pruned (?g (Suc j)) l"
      unfolding join by (rule pruned_cong) (auto simp: outdated_def less_Suc_eq)
    with st' I show "\<exists>s'. collect_level vs j s = Some s' \<and> ?I (Suc j) s'" by (cases s) auto
  qed
  then obtain st1 where st1: "for_range 0 n (collect_level vs) (l, st) = Some (pruned (?g n) l, st1)" "stat_ok st1"
    by auto
  obtain st2 where st2: "cleanTimeTablesFromLevel n (pruned (?g n) l, st1)
      = Some (pruned (\<lambda>i. n \<le> i) (pruned (?g n) l), st2)" "stat_ok st2"
    using cleanTimeTablesFromLevel_ok [OF pruned_ok [OF assms(1)] st1(2) assms(3)] by blast
  have "pruned (\<lambda>i. n \<le> i) (pruned (?g n) l) = pruned (\<lambda>i. n \<le> i \<or> outdated l vs i) l"
    unfolding join by (rule pruned_cong) auto
  with st1 st2 show ?thesis by (simp add: collectGarbageWithinBounds_def)
qed

lemma gc_keeps_current_lemma:
  assumes "level_table_ok l" "stat_ok st" "n \<le> 64" "n \<le> length vs"
  shows "\<exists>l' st'. collectGarbageWithinBounds vs n (l, st) = Some (l', st') \<and> level_table_ok l' \<and> stat_ok st'
    \<and> (\<forall>i < n. \<forall>b. level_time l' i b (vs ! i) = level_time l i b (vs ! i))
    \<and> (\<forall>i < 64. n \<le> i \<or> versions l ! i < vs ! i \<longrightarrow> time_tables l' ! i = NULL)
    \<and> (\<forall>i < 64. \<forall>b w. level_time l' i b w = 0 \<or> level_time l' i b w = level_time l i b w)"
proof -
  obtain st' where st': "collectGarbageWithinBounds vs n (l, st)
      = Some (pruned (\<lambda>i. n \<le> i \<or> outdated l vs i) l, st')" "stat_ok st'"
    using collectGarbageWithinBounds_pruned [OF assms] by blast
  have "level_time (pruned (\<lambda>i. n \<le> i \<or> outdated l vs i) l) i b (vs ! i) = level_time l i b (vs ! i)"
    if "i < n" for i b
  proof -
    have "outdated l vs i \<Longrightarrow> level_time l i b (vs ! i) = 0" by (auto simp: outdated_def level_time_def)
    then show ?thesis using that assms(3) by (simp add: level_time_pruned [OF assms(1)])
  qed
  moreover have "\<forall>i < 64. n \<le> i \<or> versions l ! i < vs ! i \<longrightarrow>
      time_tables (pruned (\<lambda>i. n \<le> i \<or> outdated l vs i) l) ! i = NULL"
    using assms(1) by (auto simp: pruned_nth level_table_ok_def outdated_def)
  moreover have "\<forall>i < 64. \<forall>b w. level_time (pruned (\<lambda>i. n \<le> i \<or> outdated l vs i) l) i b w = 0
      \<or> level_time (pruned (\<lambda>i. n \<le> i \<or> outdated l vs i) l) i b w = level_time l i b w"
    by (simp add: level_time_pruned [OF assms(1)])
  ultimately show ?thesis using st' pruned_ok [OF assms(1)] by blast
qed

text \<open>
  C29. Collecting garbage up to a level keeps every time stored under a current version at the levels
  above it, and leaves no table at or below it and none that is out of date.
\<close>

theorem gc_keeps_current:
  assumes "level_table_ok l" "stat_ok st" "n \<le> 64" "n \<le> length vs"
  shows "\<exists>l' st'. collectGarbageWithinBounds vs n (l, st) = Some (l', st') \<and> level_table_ok l' \<and> stat_ok st'
    \<and> (\<forall>i < n. \<forall>b. level_time l' i b (vs ! i) = level_time l i b (vs ! i))
    \<and> (\<forall>i < 64. n \<le> i \<or> versions l ! i < vs ! i \<longrightarrow> time_tables l' ! i = NULL)"
  using gc_keeps_current_lemma [OF assms] by blast

theorem gc_keeps_current_witness:
  "\<exists>l' st'. collectGarbageWithinBounds [1, 2] 2 (LevelTable_new False, MemStat_zero) = Some (l', st')
    \<and> level_table_ok l' \<and> time_tables l' ! 1 = NULL"
proof -
  from gc_keeps_current [OF level_table_ok_new stat_ok_zero, of 2 "[1, 2]" False]
  obtain l' st' where "collectGarbageWithinBounds [1, 2] 2 (LevelTable_new False, MemStat_zero) = Some (l', st')"
    "level_table_ok l'" and z: "\<forall>i < 64. 2 \<le> i \<or> versions (LevelTable_new False) ! i < [1, 2] ! i
      \<longrightarrow> time_tables l' ! i = NULL" by auto
  moreover have "time_tables l' ! 1 = NULL"
    using z [rule_format, of 1] by (simp add: LevelTable_new_def MAX_LEVEL_def nth_Cons' numeral_2_eq_2)
  ultimately show ?thesis by blast
qed

section \<open>Conversion to 32 bits\<close>

text \<open>
  C35. Writing a 32-bit time to a level that has a 64-bit table leaves the level with a pointer to
  the deleted table: the converted copy is dropped, and reading the level under the version just
  written is undefined. (The memory pool's chunks are taken large enough for the copy here.)
\<close>

theorem write32_dangles:
  assumes "level_table_ok l" "stat_ok st" "i < 64" "1024 \<le> chunk" "time_tables l ! i = Tab t"
  shows "\<exists>l' st'. setTimeForAddrAtLevel chunk (int i) addr ver v TYPE_32BIT (l, st) = Some (l', st')
    \<and> time_tables l' ! i = Freed \<and> getTimeForAddrAtLevel (int i) b ver l' = None"
proof -
  have b: "i < length (versions l)" "i < length (time_tables l)" "i < 128"
    using assms by (auto simp: level_table_ok_def)
  have t: "timetable_ok t" "type t = TYPE_64BIT"
    using level_table_slot [OF assms(1,3)] assms(5) by auto
  obtain st1 where st1: "eventLevelWrite (int i) st = Some st1" "stat_ok st1"
    using eventLevelWrite_ok [OF assms(2) b(3)] by blast
  obtain c st2 where c: "create32BitClone chunk t st1 = Some (c, st2)" "timetable_ok c" "type c = TYPE_32BIT"
    using create32BitClone_ok [OF t assms(4), of st1] by blast
  let ?cur = "versions l ! i = ver"
  obtain c1 where c1: "(if ?cur then Some c else clean c) = Some c1" "timetable_ok c1" "type c1 = TYPE_32BIT"
    using clean_ok [OF c(2)] c by (cases ?cur) auto
  obtain a where a: "tt_array c1 = Times a" "1024 \<le> length a" using c1(2,3) by (auto simp: timetable_ok_def)
  have "getIndex c1 addr < 1024" using getIndex_bound [of c1 addr] c1(3) by simp
  then have "getIndex c1 addr < length a" using a(2) by simp
  then obtain c2 where c2: "setTimeAtAddr c1 addr v TYPE_32BIT = Some c2"
    using a by (simp add: setTimeAtAddr_def wr_int Let_def)
  let ?l = "l\<lparr>time_tables := (time_tables l)[i := Freed], versions := (versions l)[i := ver]\<rparr>"
  have "\<exists>st3. write_converted_table chunk (int i) addr ?cur v TYPE_32BIT t (l, st1)
      = Some (l\<lparr>time_tables := (time_tables l)[i := Freed]\<rparr>, st3)"
    unfolding write_converted_table_def
    using b c(1) c1(1) c2 by (simp add: setTimeTableAtLevel_def wr_int Let_def)
  then have "\<exists>st'. setTimeForAddrAtLevel chunk (int i) addr ver v TYPE_32BIT (l, st) = Some (?l, st')"
    using b st1(1) t(2) assms(5)
    by (auto simp: setTimeForAddrAtLevel_def getTimeTableAtLevel_def getVersionAtLevel_lt_def
        setVersionAtLevel_def rd_int wr_int)
  moreover have "time_tables ?l ! i = Freed" using b by simp
  moreover have "getTimeForAddrAtLevel (int i) b ver ?l = None" for b
    using b by (simp add: getTimeForAddrAtLevel_def getTimeTableAtLevel_def rd_int)
  ultimately show ?thesis by blast
qed

theorem write32_dangles_witness:
  "\<exists>l' st'. setTimeForAddrAtLevel 1024 (int 0) 8 1 5 TYPE_32BIT
      ((LevelTable_new False)\<lparr>time_tables := Tab \<lparr>type = TYPE_64BIT, tt_size = 4096, tt_array = Times (replicate 512 7)\<rparr>
          # replicate 63 NULL\<rparr>, MemStat_zero) = Some (l', st')
    \<and> getTimeForAddrAtLevel (int 0) 8 1 l' = None"
proof -
  let ?l = "(LevelTable_new False)\<lparr>time_tables := Tab \<lparr>type = TYPE_64BIT, tt_size = 4096, tt_array = Times (replicate 512 7)\<rparr>
          # replicate 63 NULL\<rparr>"
  have "level_table_ok ?l"
    by (auto simp: level_table_ok_def LevelTable_new_def MAX_LEVEL_def nth_Cons' timetable_ok_def)
  from write32_dangles [OF this stat_ok_zero, of 0 1024 _ 8 1 5 8] show ?thesis by auto
qed

end
