(* ===== verification/TableCompression.thy ===== *)
theory TableCompression
  imports LevelTableSpec
begin

text \<open>
  Compression of a level table (\<open>LevelTable::compress\<close>, \<open>decompress\<close>, \<open>makeDiff\<close>, \<open>restoreDiff\<close> of
  \<open>runtime/src/LevelTable.cpp\<close>, and \<open>compressData\<close>, \<open>decompressData\<close> of \<open>compression.cpp\<close>). Each
  level is replaced by its difference to the level above, this by the differences of neighbours, and
  this by the output of the LZO library. The library is not modelled: its two functions are the
  parameter \<open>LZO\<close>.
\<close>

section \<open>Bytes\<close>

record LZO =
  lzo1x_1_compress :: "UInt8 list \<Rightarrow> UInt8 list"
  lzo1x_decompress :: "UInt8 list \<Rightarrow> UInt8 list option"

text \<open>An array of times seen as bytes (\<open>(UInt8*)array\<close>), least significant byte first.\<close>

fun word_bytes :: "nat \<Rightarrow> Time \<Rightarrow> UInt8 list" where
  "word_bytes 0 t = []"
| "word_bytes (Suc n) t = ucast t # word_bytes n (drop_bit 8 t)"

definition time_bytes :: "Time \<Rightarrow> UInt8 list" where
  "time_bytes t = word_bytes 8 t"

definition bytes_time :: "UInt8 list \<Rightarrow> Time" where
  "bytes_time bs = foldr (\<lambda>b w. ucast b OR push_bit 8 w) bs 0"

definition as_bytes :: "Time list \<Rightarrow> UInt8 list" where
  "as_bytes ts = concat (map time_bytes ts)"

fun as_times :: "nat \<Rightarrow> UInt8 list \<Rightarrow> Time list" where
  "as_times 0 bs = []"
| "as_times (Suc n) bs = bytes_time (take 8 bs) # as_times n (drop 8 bs)"

lemma word_bytes_length [simp]: "length (word_bytes n t) = n"
  by (induction n t rule: word_bytes.induct) simp_all

lemma bytes_time_word_bytes: "bytes_time (word_bytes n t) = take_bit (8 * n) t"
proof (induction n t rule: word_bytes.induct)
  case (2 n t)
  have "ucast (ucast t :: UInt8) OR push_bit 8 (take_bit (8 * n) (drop_bit 8 t)) = take_bit (8 * Suc n) t"
    by (rule bit_eqI) (auto simp: bit_simps)
  with 2 show ?case by (simp add: bytes_time_def)
qed (simp add: bytes_time_def)

lemma time_bytes_length [simp]: "length (time_bytes t) = 8"
  by (simp add: time_bytes_def)

lemma bytes_time_bytes [simp]: "bytes_time (time_bytes t) = t"
  by (simp add: time_bytes_def bytes_time_word_bytes take_bit_word_eq_self)

lemma as_bytes_length [simp]: "length (as_bytes ts) = 8 * length ts"
  by (induction ts) (simp_all add: as_bytes_def)

lemma as_times_as_bytes: "as_times (length ts) (as_bytes ts) = ts"
  by (induction ts) (simp_all add: as_bytes_def)

section \<open>compressData and decompressData\<close>

text \<open>Counters of \<open>compression.cpp\<close>.\<close>

record CompStat =
  compSrcSize :: UInt64
  compDestSize :: UInt64
  totalAccess :: UInt64
  totalEvict :: UInt64

definition CompStat_zero :: CompStat where
  "CompStat_zero = \<lparr>compSrcSize = 0, compDestSize = 0, totalAccess = 0, totalEvict = 0\<rparr>"

text \<open>The output buffer has the size of the input: longer output overflows it.\<close>

definition compressData :: "LZO \<Rightarrow> UInt8 list \<Rightarrow> CompStat \<Rightarrow> (UInt8 list \<times> CompStat) option" where
  "compressData z decomp_data cs =
     (let comp_data = lzo1x_1_compress z decomp_data
      in if length comp_data \<le> length decomp_data
         then Some (comp_data, cs\<lparr>compSrcSize := compSrcSize cs + of_nat (length decomp_data),
                                  compDestSize := compDestSize cs + of_nat (length comp_data)\<rparr>)
         else None)"

text \<open>
  Decompression into a chunk of \<open>n\<close> times. More bytes overflow the chunk; with fewer, times that
  were never written are read afterwards.
\<close>

definition decompressData :: "LZO \<Rightarrow> nat \<Rightarrow> UInt8 list \<Rightarrow> Time list option" where
  "decompressData z n comp_data = do {
     bs \<leftarrow> lzo1x_decompress z comp_data;
     if length bs = 8 * n then Some (as_times n bs) else None }"

section \<open>Differences of neighbours\<close>

abbreviation TABLE_TIMES :: nat where
  "TABLE_TIMES \<equiv> 512"

definition diff_step :: "nat \<Rightarrow> Time list \<Rightarrow> Time list option" where
  "diff_step i a = do { x \<leftarrow> rd a (int i); y \<leftarrow> rd a (int i - 1); wr a (int i) (x - y) }"

definition makeDiff :: "Time list \<Rightarrow> Time list option" where
  "makeDiff a = for_range 0 (TIMETABLE_SIZE div 2 - 1) (\<lambda>k. diff_step (TIMETABLE_SIZE div 2 - 1 - k)) a"

definition sum_step :: "nat \<Rightarrow> Time list \<Rightarrow> Time list option" where
  "sum_step i a = do { x \<leftarrow> rd a (int i); y \<leftarrow> rd a (int i - 1); wr a (int i) (x + y) }"

definition restoreDiff :: "Time list \<Rightarrow> Time list option" where
  "restoreDiff a = for_range 1 (TIMETABLE_SIZE div 2 - 1) sum_step a"

definition deltas :: "Time list \<Rightarrow> Time list" where
  "deltas a = map (\<lambda>k. if k = 0 then a ! 0 else a ! k - a ! (k - 1)) [0..<length a]"

lemma deltas_length [simp]: "length (deltas a) = length a"
  by (simp add: deltas_def)

lemma deltas_nth: "k < length a \<Longrightarrow> deltas a ! k = (if k = 0 then a ! 0 else a ! k - a ! (k - 1))"
  by (simp add: deltas_def)

lemma diff_step_in: "0 < i \<Longrightarrow> i < length a \<Longrightarrow> diff_step i a = Some (a[i := a ! i - a ! (i - 1)])"
  by (simp add: diff_step_def rd_int wr_int rd_in nat_diff_distrib)

lemma sum_step_in: "0 < i \<Longrightarrow> i < length a \<Longrightarrow> sum_step i a = Some (a[i := a ! i + a ! (i - 1)])"
  by (simp add: sum_step_def rd_int wr_int rd_in nat_diff_distrib)

lemma makeDiff_deltas:
  assumes "length a = TABLE_TIMES"
  shows "makeDiff a = Some (deltas a)"
proof -
  let ?I = "\<lambda>j d. length d = TABLE_TIMES \<and> (\<forall>k < TABLE_TIMES. d ! k = (if 512 - j \<le> k then deltas a ! k else a ! k))"
  have "\<exists>d. for_range 0 511 (\<lambda>k. diff_step (511 - k)) a = Some d \<and> ?I (0 + 511) d"
  proof (rule for_range_rule)
    show "?I 0 a" using assms by simp
  next
    fix j d assume j: "j < 0 + (511 :: nat)" and I: "?I j d"
    let ?i = "511 - j"
    have s: "diff_step ?i d = Some (d[?i := d ! ?i - d ! (?i - 1)])" by (rule diff_step_in) (use j I in auto)
    have "?I (Suc j) (d[?i := d ! ?i - d ! (?i - 1)])"
      using I j assms by (auto simp: nth_list_update deltas_nth)
    with s show "\<exists>s'. diff_step ?i d = Some s' \<and> ?I (Suc j) s'" by blast
  qed
  then obtain d where d: "for_range 0 511 (\<lambda>k. diff_step (511 - k)) a = Some d" "?I 511 d" by auto
  have "d = deltas a" using d(2) assms
    by (intro nth_equalityI) (auto simp: deltas_nth)
  with d show ?thesis by (simp add: makeDiff_def TIMETABLE_SIZE_def)
qed

lemma restoreDiff_deltas:
  assumes "length a = TABLE_TIMES"
  shows "restoreDiff (deltas a) = Some a"
proof -
  let ?I = "\<lambda>j d. length d = TABLE_TIMES \<and> (\<forall>k < TABLE_TIMES. d ! k = (if k < j then a ! k else deltas a ! k))"
  have "\<exists>d. for_range 1 511 sum_step (deltas a) = Some d \<and> ?I (1 + 511) d"
  proof (rule for_range_rule)
    show "?I 1 (deltas a)" using assms by (auto simp: deltas_nth)
  next
    fix j d assume j: "1 \<le> j" "j < 1 + (511 :: nat)" and I: "?I j d"
    have s: "sum_step j d = Some (d[j := d ! j + d ! (j - 1)])" by (rule sum_step_in) (use j I in auto)
    have "?I (Suc j) (d[j := d ! j + d ! (j - 1)])"
      using I j assms by (auto simp: nth_list_update deltas_nth)
    with s show "\<exists>s'. sum_step j d = Some s' \<and> ?I (Suc j) s'" by blast
  qed
  then obtain d where d: "for_range 1 511 sum_step (deltas a) = Some d" "?I 512 d" by auto
  have "d = a" using d(2) assms by (intro nth_equalityI) auto
  with d show ?thesis by (simp add: restoreDiff_def TIMETABLE_SIZE_def)
qed

section \<open>LevelTable::compress and decompress\<close>

definition SRC_LEN :: UInt64 where
  "SRC_LEN = of_nat (8 * TIMETABLE_SIZE div 2)"

text \<open>\<open>diffBuffer[j] = ttPrev->array[j] - tt2->array[j]\<close> for the times of a table.\<close>

definition diff_times :: "Time list \<Rightarrow> Time list \<Rightarrow> Time list option" where
  "diff_times p c = (let n = TIMETABLE_SIZE div 2
     in if n \<le> length p \<and> n \<le> length c then Some (map2 (-) (take n p) (take n c)) else None)"

definition pack_array ::
  "LZO \<Rightarrow> nat \<Rightarrow> TimeTable \<Rightarrow> Time list \<Rightarrow> LevelTable \<Rightarrow> CompStat \<Rightarrow> UInt64 \<Rightarrow>
   (LevelTable \<times> CompStat \<times> UInt64) option" where
  "pack_array z i t buffer l cs savings = do {
     buffer \<leftarrow> makeDiff buffer;
     (compressedData, cs) \<leftarrow> compressData z (as_bytes (take (TIMETABLE_SIZE div 2) buffer)) cs;
     let compLen = of_nat (length compressedData);
     ts \<leftarrow> wr (time_tables l) (int i) (Tab (t\<lparr>tt_size := ucast compLen, tt_array := Bytes compressedData\<rparr>));
     Some (l\<lparr>time_tables := ts\<rparr>, cs, savings + (SRC_LEN - compLen)) }"

definition pack_level ::
  "LZO \<Rightarrow> nat \<Rightarrow> LevelTable \<times> CompStat \<times> UInt64 \<Rightarrow> (LevelTable \<times> CompStat \<times> UInt64) option" where
  "pack_level z i = (\<lambda>(l, cs, savings). do {
     tt2 \<leftarrow> rd (time_tables l) (int i);
     ttPrev \<leftarrow> rd (time_tables l) (int i - 1);
     if tt2 = NULL then Some (l, cs, savings)
     else do {
       t2 \<leftarrow> deref tt2;
       a2 \<leftarrow> times_of (tt_array t2);
       t1 \<leftarrow> deref ttPrev;
       a1 \<leftarrow> times_of (tt_array t1);
       diffBuffer \<leftarrow> diff_times a1 a2;
       pack_array z i t2 diffBuffer l cs savings } })"

definition compress :: "LZO \<Rightarrow> LevelTable \<Rightarrow> CompStat \<Rightarrow> (LevelTable \<times> CompStat \<times> UInt64) option" where
  "compress z l cs = do {
     tt1 \<leftarrow> rd (time_tables l) 0;
     if tt1 = NULL then Some (l\<lparr>compressed := True\<rparr>, cs, 0)
     else do {
       (l, cs, savings) \<leftarrow> for_range 0 (MAX_LEVEL - 1) (\<lambda>k. pack_level z (MAX_LEVEL - 1 - k)) (l, cs, 0);
       t1 \<leftarrow> deref tt1;
       a1 \<leftarrow> times_of (tt_array t1);
       (l, cs, savings) \<leftarrow> pack_array z 0 t1 a1 l cs savings;
       Some (l\<lparr>compressed := True\<rparr>, cs, savings) } }"

definition unpack_array :: "LZO \<Rightarrow> TimeTable \<Rightarrow> Time list option" where
  "unpack_array z t = (case tt_array t of
     Bytes b \<Rightarrow> decompressData z (TIMETABLE_SIZE div 2) b \<bind> restoreDiff
   | Times a \<Rightarrow> None)"

text \<open>The loop over the levels, with the number of levels that are left; it stops at a null table.\<close>

fun unpack_levels ::
  "LZO \<Rightarrow> nat \<Rightarrow> nat \<Rightarrow> LevelTable \<times> UInt64 \<Rightarrow> (LevelTable \<times> UInt64) option" where
  "unpack_levels z i 0 (l, cost) = Some (l, cost)"
| "unpack_levels z i (Suc k) (l, cost) = do {
     tt2 \<leftarrow> rd (time_tables l) (int i);
     ttPrev \<leftarrow> rd (time_tables l) (int i - 1);
     if tt2 = NULL then Some (l, cost)
     else do {
       t2 \<leftarrow> deref tt2;
       diffBuffer \<leftarrow> unpack_array z t2;
       t1 \<leftarrow> deref ttPrev;
       a1 \<leftarrow> times_of (tt_array t1);
       a2 \<leftarrow> diff_times a1 diffBuffer;
       ts \<leftarrow> wr (time_tables l) (int i) (Tab (t2\<lparr>tt_size := ucast SRC_LEN, tt_array := Times a2\<rparr>));
       unpack_levels z (Suc i) k (l\<lparr>time_tables := ts\<rparr>, cost + (SRC_LEN - ucast (tt_size t2))) } }"

definition decompress :: "LZO \<Rightarrow> LevelTable \<Rightarrow> (LevelTable \<times> UInt64) option" where
  "decompress z l = do {
     tt1 \<leftarrow> rd (time_tables l) 0;
     if tt1 = NULL then Some (l\<lparr>compressed := False\<rparr>, 0)
     else do {
       t1 \<leftarrow> deref tt1;
       let compressedSize = tt_size t1;
       a1 \<leftarrow> unpack_array z t1;
       ts \<leftarrow> wr (time_tables l) 0 (Tab (t1\<lparr>tt_size := ucast SRC_LEN, tt_array := Times a1\<rparr>));
       (l, cost) \<leftarrow> unpack_levels z 1 (MAX_LEVEL - 1)
         (l\<lparr>time_tables := ts\<rparr>, SRC_LEN - scast compressedSize);
       Some (l\<lparr>compressed := False\<rparr>, cost) } }"

section \<open>Decompression inverts compression\<close>

text \<open>
  A level table that can be compressed: its tables are uncompressed chunks of 512 times, of the size
  that the constructor sets, and no table lies below a missing one.
\<close>

definition plain_tables :: "LevelTable \<Rightarrow> bool" where
  "plain_tables l \<longleftrightarrow> length (time_tables l) = 64
    \<and> (\<forall>i < 64. case time_tables l ! i of NULL \<Rightarrow> True | Freed \<Rightarrow> False
         | Tab t \<Rightarrow> tt_size t = ucast SRC_LEN \<and> (\<exists>a. tt_array t = Times a \<and> length a = 512))
    \<and> (\<forall>i < 63. time_tables l ! i = NULL \<longrightarrow> time_tables l ! Suc i = NULL)"

fun ptr_times :: "TimeTable_ptr \<Rightarrow> Time list" where
  "ptr_times (Tab t) = (case tt_array t of Times a \<Rightarrow> a | Bytes b \<Rightarrow> [])"
| "ptr_times _ = []"

text \<open>What is compressed of a level, and the table that results.\<close>

definition level_data :: "LevelTable \<Rightarrow> nat \<Rightarrow> Time list" where
  "level_data l i = deltas (if i = 0 then ptr_times (time_tables l ! 0)
     else map2 (-) (ptr_times (time_tables l ! (i - 1))) (ptr_times (time_tables l ! i)))"

definition level_packed :: "LZO \<Rightarrow> LevelTable \<Rightarrow> nat \<Rightarrow> UInt8 list" where
  "level_packed z l i = lzo1x_1_compress z (as_bytes (level_data l i))"

definition packed_slot :: "LZO \<Rightarrow> LevelTable \<Rightarrow> nat \<Rightarrow> TimeTable_ptr" where
  "packed_slot z l i = (case time_tables l ! i of
     Tab t \<Rightarrow> Tab (t\<lparr>tt_size := of_nat (length (level_packed z l i)), tt_array := Bytes (level_packed z l i)\<rparr>)
   | p \<Rightarrow> p)"

definition packed_from :: "LZO \<Rightarrow> nat \<Rightarrow> LevelTable \<Rightarrow> LevelTable" where
  "packed_from z k l = l\<lparr>time_tables := map (\<lambda>i. if k \<le> i then packed_slot z l i else time_tables l ! i) [0..<64]\<rparr>"

text \<open>The library's contract for a table: its output for each level fits, and is turned back.\<close>

definition lzo_good :: "LZO \<Rightarrow> LevelTable \<Rightarrow> bool" where
  "lzo_good z l \<longleftrightarrow> (\<forall>bs. lzo1x_decompress z (lzo1x_1_compress z bs) = Some bs)
     \<and> (\<forall>i < 64. time_tables l ! i \<noteq> NULL \<longrightarrow> length (level_packed z l i) \<le> 4096)"

lemma plain_slot:
  assumes "plain_tables l" "i < 64"
  obtains (null) "time_tables l ! i = NULL"
  | (tab) t a where "time_tables l ! i = Tab t" "tt_array t = Times a" "length a = 512" "tt_size t = ucast SRC_LEN"
proof (cases "time_tables l ! i")
  case (Tab t)
  have "case time_tables l ! i of NULL \<Rightarrow> True | Freed \<Rightarrow> False
     | Tab t \<Rightarrow> tt_size t = ucast SRC_LEN \<and> (\<exists>a. tt_array t = Times a \<and> length a = 512)"
    using assms unfolding plain_tables_def by blast
  with Tab that(2) show ?thesis by auto
next
  case Freed
  have "case time_tables l ! i of NULL \<Rightarrow> True | Freed \<Rightarrow> False
     | Tab t \<Rightarrow> tt_size t = ucast SRC_LEN \<and> (\<exists>a. tt_array t = Times a \<and> length a = 512)"
    using assms unfolding plain_tables_def by blast
  with Freed show ?thesis by simp
qed (rule null)

lemma plain_prev:
  assumes "plain_tables l" "i < 64" "0 < i" "time_tables l ! i \<noteq> NULL"
  obtains t a where "time_tables l ! (i - 1) = Tab t" "tt_array t = Times a" "length a = 512"
proof -
  have "time_tables l ! (i - 1) \<noteq> NULL"
    using assms by (cases i) (auto simp: plain_tables_def)
  with plain_slot [OF assms(1), of "i - 1"] assms(2) that show ?thesis by force
qed

lemma packed_from_simps [simp]:
  "length (time_tables (packed_from z k l)) = 64"
  "i < 64 \<Longrightarrow> time_tables (packed_from z k l) ! i = (if k \<le> i then packed_slot z l i else time_tables l ! i)"
  "compressed (packed_from z k l) = compressed l" "versions (packed_from z k l) = versions l"
  by (simp_all add: packed_from_def)

lemma packed_slot_null [simp]: "packed_slot z l i = NULL \<longleftrightarrow> time_tables l ! i = NULL"
  by (simp add: packed_slot_def split: TimeTable_ptr.split)

lemma packed_from_all: "length (time_tables l) = 64 \<Longrightarrow> packed_from z 64 l = l"
  by (rule LevelTable.equality) (auto simp: packed_from_def intro!: nth_equalityI)

lemma packed_from_step:
  assumes "i < 64"
  shows "(packed_from z (Suc i) l)\<lparr>time_tables := (time_tables (packed_from z (Suc i) l))[i := packed_slot z l i]\<rparr>
    = packed_from z i l"
  using assms by (intro LevelTable.equality) (auto simp: packed_from_def nth_list_update intro!: nth_equalityI)

lemma packed_from_unstep:
  assumes "i < 64"
  shows "(packed_from z i l)\<lparr>time_tables := (time_tables (packed_from z i l))[i := time_tables l ! i]\<rparr>
    = packed_from z (Suc i) l"
  using assms by (intro LevelTable.equality) (auto simp: packed_from_def nth_list_update intro!: nth_equalityI)

text \<open>How many bytes compression saves.\<close>

definition level_gain :: "LZO \<Rightarrow> LevelTable \<Rightarrow> nat \<Rightarrow> UInt64" where
  "level_gain z l i = (if time_tables l ! i = NULL then 0 else SRC_LEN - of_nat (length (level_packed z l i)))"

lemma small_sizes:
  assumes "n \<le> 4096"
  shows "ucast (of_nat n :: UInt64) = (of_nat n :: UInt32)" "ucast (of_nat n :: UInt32) = (of_nat n :: UInt64)"
    "scast (of_nat n :: UInt32) = (of_nat n :: UInt64)"
proof -
  show "ucast (of_nat n :: UInt64) = (of_nat n :: UInt32)" "ucast (of_nat n :: UInt32) = (of_nat n :: UInt64)"
    using assms by (simp_all add: unsigned_of_nat take_bit_nat_eq_self)
  have "unat (of_nat n :: UInt32) = n" using assms by (intro unat_of_nat32) simp
  then have "sint (of_nat n :: UInt32) = int n"
    using to_int_small [of "of_nat n"] assms by simp
  then show "scast (of_nat n :: UInt32) = (of_nat n :: UInt64)"
    by (metis of_int_of_nat_eq of_int_sint)
qed

lemma level_data_length:
  assumes "plain_tables l" "i < 64" "time_tables l ! i \<noteq> NULL"
  shows "length (level_data l i) = 512"
proof -
  obtain t a where t: "time_tables l ! i = Tab t" "tt_array t = Times a" "length a = 512"
    using plain_slot [OF assms(1,2)] assms(3) by metis
  show ?thesis
  proof (cases "i = 0")
    case False
    then obtain u b where "time_tables l ! (i - 1) = Tab u" "tt_array u = Times b" "length b = 512"
      using plain_prev [OF assms(1,2) _ assms(3)] by blast
    with False t show ?thesis by (simp add: level_data_def)
  qed (use t in \<open>simp add: level_data_def\<close>)
qed

lemma pack_array_ok:
  assumes "plain_tables l" "lzo_good z l" "i < 64" "time_tables l ! i = Tab t"
    and "length buffer = 512" "deltas buffer = level_data l i"
  shows "\<exists>cs'. pack_array z i t buffer (packed_from z (Suc i) l) cs s
    = Some (packed_from z i l, cs', s + level_gain z l i)"
proof -
  have fits: "length (level_packed z l i) \<le> 4096" using assms(2-4) by (simp add: lzo_good_def)
  have len: "length (level_data l i) = 512" by (rule level_data_length) (use assms in auto)
  have c: "\<exists>cs'. compressData z (as_bytes (level_data l i)) cs = Some (level_packed z l i, cs')"
    using fits len by (simp add: compressData_def level_packed_def Let_def)
  have slot: "Tab (t\<lparr>tt_size := ucast (of_nat (length (level_packed z l i)) :: UInt64), tt_array := Bytes (level_packed z l i)\<rparr>)
      = packed_slot z l i"
    using assms(4) by (simp add: packed_slot_def small_sizes [OF fits])
  show ?thesis
    using c makeDiff_deltas [OF assms(5)] assms(3,4,6) len slot packed_from_step [OF assms(3), of z l]
    by (auto simp: pack_array_def wr_int TIMETABLE_SIZE_def Let_def level_gain_def)
qed

lemma diff_times_512: "length a = 512 \<Longrightarrow> length b = 512 \<Longrightarrow> diff_times a b = Some (map2 (-) a b)"
  by (simp add: diff_times_def TIMETABLE_SIZE_def)

lemma diff_times_twice:
  fixes a b :: "Time list"
  assumes "length a = 512" "length b = 512"
  shows "diff_times a (map2 (-) a b) = Some b"
proof -
  have "map2 (-) a (map2 (-) a b) = b" using assms by (intro nth_equalityI) auto
  then show ?thesis using assms by (simp add: diff_times_512)
qed

lemma rd_prev: "0 < i \<Longrightarrow> i \<le> length xs \<Longrightarrow> rd xs (int i - 1) = Some (xs ! (i - 1))"
  by (simp add: rd_def nat_diff_distrib)

lemma pack_level_ok:
  assumes "plain_tables l" "lzo_good z l" "0 < i" "i < 64"
  shows "\<exists>cs'. pack_level z i (packed_from z (Suc i) l, cs, s) = Some (packed_from z i l, cs', s + level_gain z l i)"
proof (cases rule: plain_slot [OF assms(1,4), case_names null tab])
  case null
  have "packed_from z (Suc i) l = packed_from z i l"
    using packed_from_step [OF assms(4), of z l] null assms(4)
    by (metis lessI list_update_id not_less packed_from_simps(2) packed_slot_null LevelTable.surjective LevelTable.update_convs(2))
  then show ?thesis using null assms
    by (simp add: pack_level_def rd_int rd_prev level_gain_def)
next
  case (tab t a)
  obtain t1 a1 where t1: "time_tables l ! (i - 1) = Tab t1" "tt_array t1 = Times a1" "length a1 = 512"
    by (rule plain_prev [OF assms(1,4,3)]) (use tab in auto)
  let ?d = "map2 (-) a1 a"
  have d: "deltas ?d = level_data l i" using assms(3) tab t1 by (simp add: level_data_def)
  have "length ?d = 512" using tab t1 by simp
  have n: "\<not> Suc i \<le> i - Suc 0" by simp
  from pack_array_ok [OF assms(1,2,4) tab(1) \<open>length ?d = 512\<close> d]
  show ?thesis using assms(3,4) tab t1 n
    by (simp add: pack_level_def rd_int rd_prev diff_times_512)
qed

lemma null_below:
  assumes "plain_tables l" "time_tables l ! i = NULL" "i \<le> j" "j < 64"
  shows "time_tables l ! j = NULL"
  using assms(3,4)
proof (induction j rule: dec_induct)
  case base
  then show ?case using assms(2) by simp
next
  case (step n)
  then show ?case using assms(1) by (simp add: plain_tables_def)
qed

lemma packed_from_null:
  assumes "plain_tables l" "time_tables l ! i = NULL"
  shows "packed_from z i l = l" "(\<Sum>j\<in>{i..<64}. level_gain z l j) = 0"
proof -
  have n: "time_tables l ! j = NULL" if "i \<le> j" "j < 64" for j using null_below [OF assms that] .
  show "packed_from z i l = l"
    using assms(1) n by (intro LevelTable.equality)
      (auto simp: packed_from_def plain_tables_def packed_slot_def intro!: nth_equalityI)
  show "(\<Sum>j\<in>{i..<64}. level_gain z l j) = 0"
    by (rule sum.neutral) (simp add: level_gain_def n)
qed

lemma compress_ok:
  assumes "plain_tables l" "lzo_good z l"
  shows "\<exists>cs'. compress z l cs
    = Some ((packed_from z 0 l)\<lparr>compressed := True\<rparr>, cs', \<Sum>j\<in>{0..<64}. level_gain z l j)"
proof (cases rule: plain_slot [OF assms(1), of 0, case_names range null tab])
  case null
  then show ?thesis using assms(1) packed_from_null [OF assms(1) null, of z]
    by (simp add: compress_def rd_def plain_tables_def)
next
  case (tab t a)
  have len: "length (time_tables l) = 64" using assms(1) by (simp add: plain_tables_def)
  let ?I = "\<lambda>k (s :: LevelTable \<times> CompStat \<times> UInt64). fst s = packed_from z (64 - k) l \<and> snd (snd s) = (\<Sum>j\<in>{64 - k..<64}. level_gain z l j)"
  have "\<exists>s'. for_range 0 63 (\<lambda>k. pack_level z (63 - k)) (l, cs, 0) = Some s' \<and> ?I (0 + 63) s'"
  proof (rule for_range_rule)
    show "?I 0 (l, cs, 0)" using packed_from_all [OF len] by simp
  next
    fix k s assume k: "k < 0 + (63 :: nat)" and I: "?I k s"
    have e: "Suc (63 - k) = 64 - k" "64 - Suc k = 63 - k" "0 < 63 - k" "63 - k < 64" using k by auto
    obtain cs' where "pack_level z (63 - k) s = Some (packed_from z (63 - k) l, cs', snd (snd s) + level_gain z l (63 - k))"
      using pack_level_ok [OF assms e(3,4), of "fst (snd s)" "snd (snd s)"] I e(1) by (cases s) auto
    moreover have "{63 - k..<64} = insert (63 - k) {64 - k..<64}" using k by auto
    ultimately show "\<exists>s'. pack_level z (63 - k) s = Some s' \<and> ?I (Suc k) s'"
      using I e(2) k by (auto simp: add.commute)
  qed
  then obtain cs1 where loop: "for_range 0 63 (\<lambda>k. pack_level z (63 - k)) (l, cs, 0)
      = Some (packed_from z 1 l, cs1, \<Sum>j\<in>{1..<64}. level_gain z l j)" by auto
  have d: "deltas a = level_data l 0" using tab by (simp add: level_data_def)
  obtain cs2 where p: "pack_array z 0 t a (packed_from z (Suc 0) l) cs1 (\<Sum>j\<in>{1..<64}. level_gain z l j)
      = Some (packed_from z 0 l, cs2, (\<Sum>j\<in>{1..<64}. level_gain z l j) + level_gain z l 0)"
    using pack_array_ok [OF assms _ tab(1,3) d] by (metis zero_less_numeral)
  have "{0..<64} = insert 0 {1..<64 :: nat}" by auto
  then have sum: "(\<Sum>j\<in>{1..<64}. level_gain z l j) + level_gain z l 0 = (\<Sum>j\<in>{0..<64}. level_gain z l j)"
    by (simp add: add.commute)
  show ?thesis using loop p tab len sum
    by (simp add: compress_def rd_def MAX_LEVEL_def)
qed simp

lemma unpack_array_ok:
  assumes "lzo_good z l" "length d = 512" "tt_array t = Bytes (lzo1x_1_compress z (as_bytes (deltas d)))"
  shows "unpack_array z t = Some d"
proof -
  have "as_times 512 (as_bytes (deltas d)) = deltas d"
    using as_times_as_bytes [of "deltas d"] assms(2) by simp
  then show ?thesis
    using assms restoreDiff_deltas [OF assms(2)]
    by (simp add: unpack_array_def decompressData_def TIMETABLE_SIZE_def lzo_good_def)
qed

lemma unpack_levels_ok:
  assumes "plain_tables l" "lzo_good z l"
  shows "0 < i \<Longrightarrow> i + k = 64 \<Longrightarrow>
    unpack_levels z i k (packed_from z i l, cost) = Some (l, cost + (\<Sum>j\<in>{i..<64}. level_gain z l j))"
proof (induction k arbitrary: i cost)
  case 0
  then show ?case using packed_from_all [of l z] assms(1) by (simp add: plain_tables_def)
next
  case (Suc k)
  then have i: "0 < i" "i < 64" by auto
  show ?case
  proof (cases rule: plain_slot [OF assms(1) i(2), case_names null tab])
    case null
    then show ?thesis using i packed_from_null [OF assms(1) null, of z]
      by (simp add: rd_int rd_prev assms(1) [unfolded plain_tables_def])
  next
    case (tab t a)
    obtain t1 a1 where t1: "time_tables l ! (i - 1) = Tab t1" "tt_array t1 = Times a1" "length a1 = 512"
      by (rule plain_prev [OF assms(1) i(2,1)]) (use tab in auto)
    let ?n = "length (level_packed z l i)"
    have fits: "?n \<le> 4096" using assms(2) i tab by (simp add: lzo_good_def)
    have slot: "packed_slot z l i = Tab (t\<lparr>tt_size := of_nat ?n, tt_array := Bytes (level_packed z l i)\<rparr>)"
      using tab by (simp add: packed_slot_def)
    have d: "unpack_array z (t\<lparr>tt_size := of_nat ?n, tt_array := Bytes (level_packed z l i)\<rparr>) = Some (map2 (-) a1 a)"
      by (rule unpack_array_ok [OF assms(2)]) (use tab t1 i in \<open>simp_all add: level_packed_def level_data_def\<close>)
    have orig: "Tab (t\<lparr>tt_size := ucast SRC_LEN, tt_array := Times a\<rparr>) = time_tables l ! i"
      using tab by simp
    have n: "\<not> i \<le> i - Suc 0" using i by simp
    have "{i..<64} = insert i {Suc i..<64}" using i by auto
    then have sum: "(\<Sum>j\<in>{i..<64}. level_gain z l j) = (SRC_LEN - of_nat ?n) + (\<Sum>j\<in>{Suc i..<64}. level_gain z l j)"
      using tab by (simp add: level_gain_def)
    have IH: "unpack_levels z (Suc i) k (packed_from z (Suc i) l, cost + (SRC_LEN - of_nat ?n))
        = Some (l, cost + (SRC_LEN - of_nat ?n) + (\<Sum>j\<in>{Suc i..<64}. level_gain z l j))"
      by (rule Suc.IH) (use Suc.prems in auto)
    show ?thesis
      using i tab t1 n d IH sum slot packed_from_unstep [OF i(2), of z l]
      by (simp add: rd_int rd_prev wr_int diff_times_twice small_sizes [OF fits] orig add.assoc)
  qed
qed

lemma compress_decompress_lemma:
  assumes "plain_tables l" "lzo_good z l"
  shows "\<exists>l' cs' gain. compress z l cs = Some (l', cs', gain) \<and> compressed l'
    \<and> decompress z l' = Some (l\<lparr>compressed := False\<rparr>, gain)"
proof (cases rule: plain_slot [OF assms(1), of 0, case_names range null tab])
  case null
  have "time_tables l \<noteq> []" using assms(1) by (auto simp: plain_tables_def)
  then show ?thesis using null by (simp add: compress_def decompress_def rd_def)
next
  case (tab t a)
  let ?l = "l\<lparr>compressed := True\<rparr>" and ?n = "length (level_packed z l 0)"
  obtain cs' where c: "compress z l cs
      = Some ((packed_from z 0 l)\<lparr>compressed := True\<rparr>, cs', \<Sum>j\<in>{0..<64}. level_gain z l j)"
    using compress_ok [OF assms] by blast
  have same: "level_packed z ?l = level_packed z l" "level_gain z ?l = level_gain z l"
    by (auto simp: level_packed_def level_data_def level_gain_def fun_eq_iff)
  have ps: "packed_slot z ?l i = packed_slot z l i" for i
    by (cases "time_tables l ! i") (simp_all add: packed_slot_def same)
  have e: "(packed_from z k l)\<lparr>compressed := True\<rparr> = packed_from z k ?l" for k
    by (simp add: packed_from_def ps cong: if_cong)
  have ok: "plain_tables ?l" "lzo_good z ?l"
    using assms by (simp_all add: plain_tables_def lzo_good_def same)
  have fits: "?n \<le> 4096" using assms(2) tab by (simp add: lzo_good_def)
  have slot: "packed_slot z ?l 0 = Tab (t\<lparr>tt_size := of_nat ?n, tt_array := Bytes (level_packed z l 0)\<rparr>)"
    using tab by (simp add: packed_slot_def same)
  have d: "unpack_array z (t\<lparr>tt_size := of_nat ?n, tt_array := Bytes (level_packed z l 0)\<rparr>) = Some a"
    by (rule unpack_array_ok [OF assms(2)]) (use tab in \<open>simp_all add: level_packed_def level_data_def\<close>)
  have z0: "(packed_from z 0 ?l)\<lparr>time_tables := (time_tables (packed_from z 0 ?l))[0 := time_tables l ! 0]\<rparr>
      = packed_from z (Suc 0) ?l"
    using packed_from_unstep [of 0 z ?l] by simp
  have u: "unpack_levels z (Suc 0) 63 (packed_from z (Suc 0) ?l, SRC_LEN - of_nat ?n)
      = Some (?l, SRC_LEN - of_nat ?n + (\<Sum>j\<in>{Suc 0..<64}. level_gain z l j))"
    using unpack_levels_ok [OF ok, of "Suc 0" 63] by (simp add: same)
  have "{0..<64} = insert 0 {Suc 0..<64 :: nat}" by auto
  then have sum: "SRC_LEN - of_nat ?n + (\<Sum>j\<in>{Suc 0..<64}. level_gain z l j) = (\<Sum>j\<in>{0..<64}. level_gain z l j)"
    using tab by (simp add: level_gain_def)
  have orig: "Tab (t\<lparr>tt_size := ucast SRC_LEN, tt_array := Times a\<rparr>) = time_tables l ! 0"
    using tab by simp
  have "time_tables (packed_from z 0 ?l) \<noteq> []" by (simp add: packed_from_def)
  then have r: "rd (time_tables (packed_from z 0 ?l)) 0 = Some (packed_slot z ?l 0)"
    "wr (time_tables (packed_from z 0 ?l)) 0 p = Some ((time_tables (packed_from z 0 ?l))[0 := p])" for p
    by (simp_all add: rd_def wr_def)
  have "decompress z (packed_from z 0 ?l) = Some (l\<lparr>compressed := False\<rparr>, \<Sum>j\<in>{0..<64}. level_gain z l j)"
    by (simp add: decompress_def r slot d orig z0 u sum MAX_LEVEL_def small_sizes [OF fits] del: packed_from_simps)
  with c show ?thesis by (simp add: e)
qed simp

text \<open>
  C24. Decompressing a compressed level table gives it back as it was, and costs the bytes that
  compressing it had saved; this holds for every pair of library functions that invert each other
  and whose output fits the buffer.
\<close>

theorem compress_decompress:
  assumes "plain_tables l" "lzo_good z l"
  shows "\<exists>l' cs' gain. compress z l cs = Some (l', cs', gain) \<and> compressed l'
    \<and> decompress z l' = Some (l\<lparr>compressed := False\<rparr>, gain)"
  by (rule compress_decompress_lemma [OF assms])

text \<open>A library that copies its input inverts itself, and its output fits.\<close>

definition copy_lzo :: LZO where
  "copy_lzo = \<lparr>lzo1x_1_compress = (\<lambda>bs. bs), lzo1x_decompress = Some\<rparr>"

definition sample_table :: "Time \<Rightarrow> TimeTable_ptr" where
  "sample_table v = Tab \<lparr>type = TYPE_64BIT, tt_size = 4096, tt_array = Times (replicate 512 v)\<rparr>"

definition sample_levels :: LevelTable where
  "sample_levels = \<lparr>versions = replicate 64 1,
     time_tables = [sample_table 9, sample_table 4] @ replicate 62 NULL, compressed = False, code = 0xDEADBEEF\<rparr>"

lemma sample_levels_nth:
  "i < 64 \<Longrightarrow> time_tables sample_levels ! i = (if i = 0 then sample_table 9 else if i = 1 then sample_table 4 else NULL)"
  by (simp add: sample_levels_def nth_append nth_Cons')

lemma sample_levels_plain: "plain_tables sample_levels"
  using sample_levels_nth
  by (auto simp: plain_tables_def sample_table_def SRC_LEN_def TIMETABLE_SIZE_def) (simp add: sample_levels_def)

lemma sample_levels_lzo: "lzo_good copy_lzo sample_levels"
proof -
  have "length (level_packed copy_lzo sample_levels i) \<le> 4096" if "i < 64" "time_tables sample_levels ! i \<noteq> NULL" for i
    using level_data_length [OF sample_levels_plain that] by (simp add: level_packed_def copy_lzo_def)
  then show ?thesis by (simp add: lzo_good_def copy_lzo_def)
qed

theorem compress_decompress_witness:
  "\<exists>l' cs' gain. compress copy_lzo sample_levels CompStat_zero = Some (l', cs', gain) \<and> compressed l'
    \<and> decompress copy_lzo l' = Some (sample_levels\<lparr>compressed := False\<rparr>, gain)"
  by (rule compress_decompress [OF sample_levels_plain sample_levels_lzo])

end
