(* ===== verification/ActiveSet.thy ===== *)
theory ActiveSet
  imports TableCompression
begin

text \<open>
  The compression buffer (\<open>CBuffer\<close> of \<open>runtime/src/compression.cpp\<close>): the set of level tables that
  are kept uncompressed. It holds a bounded number of them; the table to compress when it is full is
  chosen by the clock algorithm, with one reference bit for each entry.

  \<open>active_set\<close> is a \<open>std::map\<close> from the addresses of level tables to their entries, here the list of
  its pairs in the order of the keys. \<open>clock_hand\<close> is an iterator into it: the key it points to.
  Level tables live in a heap; a pointer to one is its address as a number.
\<close>

section \<open>State\<close>

type_synonym LT_ptr = nat
type_synonym Heap = "LT_ptr \<Rightarrow> LevelTable option"

record CBuffer =
  num_entries :: UInt32
  active_set :: "(LT_ptr \<times> UInt16) list"
  clock_hand :: "LT_ptr option"
  comp_stat :: CompStat

definition CBuffer_new :: CBuffer where
  "CBuffer_new = \<lparr>num_entries = 0, active_set = [], clock_hand = None, comp_stat = CompStat_zero\<rparr>"

text \<open>Without compression, \<open>num_entries\<close> is not set; it is not read either.\<close>

definition CBuffer_init :: "bool \<Rightarrow> UInt32 \<Rightarrow> CBuffer \<Rightarrow> CBuffer" where
  "CBuffer_init compressShadowMem sz b = (if compressShadowMem then b\<lparr>num_entries := sz\<rparr> else b)"

text \<open>\<open>insert\<close>, which keeps an entry that is there, \<open>erase\<close>, and the key after a given one.\<close>

fun map_insert :: "LT_ptr \<Rightarrow> UInt16 \<Rightarrow> (LT_ptr \<times> UInt16) list \<Rightarrow> (LT_ptr \<times> UInt16) list" where
  "map_insert k r [] = [(k, r)]"
| "map_insert k r ((j, q) # xs) =
     (if k < j then (k, r) # (j, q) # xs else if k = j then (j, q) # xs else (j, q) # map_insert k r xs)"

definition map_erase :: "LT_ptr \<Rightarrow> (LT_ptr \<times> UInt16) list \<Rightarrow> (LT_ptr \<times> UInt16) list" where
  "map_erase k xs = filter (\<lambda>(j, q). j \<noteq> k) xs"

definition map_set :: "LT_ptr \<Rightarrow> UInt16 \<Rightarrow> (LT_ptr \<times> UInt16) list \<Rightarrow> (LT_ptr \<times> UInt16) list" where
  "map_set k r xs = map (\<lambda>(j, q). if j = k then (j, r) else (j, q)) xs"

fun key_after :: "LT_ptr \<Rightarrow> (LT_ptr \<times> UInt16) list \<Rightarrow> LT_ptr option" where
  "key_after k [] = None"
| "key_after k ((j, q) # xs) = (if k = j then (case xs of [] \<Rightarrow> None | (i, _) # _ \<Rightarrow> Some i) else key_after k xs)"

definition map_begin :: "(LT_ptr \<times> UInt16) list \<Rightarrow> LT_ptr option" where
  "map_begin xs = (case xs of [] \<Rightarrow> None | (j, _) # _ \<Rightarrow> Some j)"

section \<open>The clock\<close>

definition advanceClockHand :: "LT_ptr \<Rightarrow> CBuffer \<Rightarrow> CBuffer" where
  "advanceClockHand k b = b\<lparr>clock_hand :=
     (case key_after k (active_set b) of None \<Rightarrow> map_begin (active_set b) | Some j \<Rightarrow> Some j)\<rparr>"

text \<open>
  The loop clears reference bits until it finds one that is clear. An iterator that points to no
  entry cannot be read.
\<close>

definition bits_set :: "(LT_ptr \<times> UInt16) list \<Rightarrow> nat" where
  "bits_set xs = length (filter (\<lambda>p. snd p = 1) xs)"

lemma bits_set_simps [simp]:
  "bits_set [] = 0" "bits_set ((j, q) # xs) = (if q = 1 then Suc (bits_set xs) else bits_set xs)"
  by (simp_all add: bits_set_def)

lemma map_set_simps [simp]:
  "map_set k r [] = []" "map_set k r ((j, q) # xs) = (j, if j = k then r else q) # map_set k r xs"
  by (simp_all add: map_set_def)

lemma bits_set_map_set: "bits_set (map_set k 0 xs) \<le> bits_set xs"
  by (induction xs) auto

lemma bits_set_map_set_less: "map_of xs k = Some 1 \<Longrightarrow> bits_set (map_set k 0 xs) < bits_set xs"
proof (induction xs)
  case (Cons p xs)
  then show ?case using bits_set_map_set [of k xs]
    by (cases p) (auto simp: less_Suc_eq_le split: if_splits)
qed simp

function getVictim :: "CBuffer \<Rightarrow> (LT_ptr \<times> CBuffer) option" where
  "getVictim b = (case clock_hand b of None \<Rightarrow> None | Some k \<Rightarrow>
     (case map_of (active_set b) k of None \<Rightarrow> None | Some r \<Rightarrow>
       if r = 1 then getVictim (advanceClockHand k (b\<lparr>active_set := map_set k 0 (active_set b)\<rparr>))
       else Some (k, advanceClockHand k b)))"
  by pat_completeness auto
termination
  by (relation "measure (\<lambda>b. bits_set (active_set b))") (auto simp: advanceClockHand_def bits_set_map_set_less)

declare getVictim.simps [simp del]

section \<open>Operations\<close>

definition addToBuffer :: "LT_ptr \<Rightarrow> CBuffer \<Rightarrow> CBuffer" where
  "addToBuffer l_table b =
     (let b = b\<lparr>active_set := map_insert l_table 1 (active_set b)\<rparr>
      in if length (active_set b) = 1 then b\<lparr>clock_hand := map_begin (active_set b)\<rparr> else b)"

text \<open>The byte counts are returned as \<open>int\<close>.\<close>

definition evictFromBuffer :: "LZO \<Rightarrow> CBuffer \<times> Heap \<Rightarrow> (UInt32 \<times> CBuffer \<times> Heap) option" where
  "evictFromBuffer z = (\<lambda>(b, h). do {
     (victim, b) \<leftarrow> getVictim b;
     lTable \<leftarrow> h victim;
     (lTable, cs, gained) \<leftarrow> compress z lTable (comp_stat b);
     let cs = cs\<lparr>totalEvict := totalEvict cs + 1\<rparr>;
     Some (ucast gained, b\<lparr>active_set := map_erase victim (active_set b), comp_stat := cs\<rparr>, h(victim \<mapsto> lTable)) })"

definition CBuffer_add ::
  "bool \<Rightarrow> LZO \<Rightarrow> LT_ptr \<Rightarrow> CBuffer \<times> Heap \<Rightarrow> (UInt32 \<times> CBuffer \<times> Heap) option" where
  "CBuffer_add compressShadowMem z table = (\<lambda>(b, h).
     if \<not> compressShadowMem then Some (0, b, h)
     else do {
       (gained, b, h) \<leftarrow> (if unat (num_entries b) \<le> length (active_set b) then evictFromBuffer z (b, h)
                           else Some (0, b, h));
       Some (gained, addToBuffer table b, h) })"

definition CBuffer_decompress ::
  "bool \<Rightarrow> LZO \<Rightarrow> LT_ptr \<Rightarrow> CBuffer \<times> Heap \<Rightarrow> (UInt32 \<times> CBuffer \<times> Heap) option" where
  "CBuffer_decompress compressShadowMem z table = (\<lambda>(b, h). do {
     l \<leftarrow> h table;
     (l, cost) \<leftarrow> decompress z l;
     (gain, b, h) \<leftarrow> CBuffer_add compressShadowMem z table (b, h(table \<mapsto> l));
     Some (gain - ucast cost, b, h) })"

definition CBuffer_touch :: "bool \<Rightarrow> LT_ptr \<Rightarrow> CBuffer \<Rightarrow> CBuffer option" where
  "CBuffer_touch compressShadowMem table b =
     (if \<not> compressShadowMem then Some b
      else do {
        r \<leftarrow> map_of (active_set b) table;
        let cs = comp_stat b;
        Some (b\<lparr>active_set := map_set table 1 (active_set b),
                comp_stat := cs\<lparr>totalAccess := totalAccess cs + 1\<rparr>\<rparr>) })"

section \<open>Keys\<close>

abbreviation keys :: "(LT_ptr \<times> UInt16) list \<Rightarrow> LT_ptr set" where
  "keys xs \<equiv> fst ` set xs"

lemma map_of_keys: "map_of xs k = None \<longleftrightarrow> k \<notin> keys xs"
  by (rule map_of_eq_None_iff)

lemma map_set_keys [simp]: "map fst (map_set k r xs) = map fst xs" "keys (map_set k r xs) = keys xs"
  "length (map_set k r xs) = length xs"
proof -
  show m: "map fst (map_set k r xs) = map fst xs" by (auto simp: map_set_def)
  show "keys (map_set k r xs) = keys xs" using m by (metis list.set_map)
qed (simp add: map_set_def)

lemma map_insert_keys [simp]: "keys (map_insert k r xs) = insert k (keys xs)"
  by (induction k r xs rule: map_insert.induct) auto

lemma map_insert_sorted:
  "sorted_wrt (<) (map fst xs) \<Longrightarrow> sorted_wrt (<) (map fst (map_insert k r xs))"
proof (induction k r xs rule: map_insert.induct)
  case (2 k r j q xs)
  have "\<forall>i \<in> keys (map_insert k r xs). i = k \<or> i \<in> keys xs" by auto
  with 2 show ?case by (auto dest: less_trans simp: image_iff)
qed simp

lemma map_erase_keys [simp]: "keys (map_erase k xs) = keys xs - {k}"
  by (auto simp: map_erase_def)

lemma map_fst_erase: "map fst (map_erase k xs) = filter (\<lambda>j. j \<noteq> k) (map fst xs)"
  by (induction xs) (auto simp: map_erase_def)

lemma map_erase_sorted: "sorted_wrt (<) (map fst xs) \<Longrightarrow> sorted_wrt (<) (map fst (map_erase k xs))"
  by (simp add: map_fst_erase sorted_wrt_filter)

lemma map_begin_in: "xs \<noteq> [] \<Longrightarrow> \<exists>k. map_begin xs = Some k \<and> k \<in> keys xs"
  by (cases xs) (auto simp: map_begin_def)

lemma key_after_in: "key_after k xs = Some j \<Longrightarrow> j \<in> keys xs"
  by (induction k xs rule: key_after.induct) (auto split: if_splits list.splits)

lemma key_after_other: "distinct (map fst xs) \<Longrightarrow> key_after k xs = Some j \<Longrightarrow> j \<noteq> k"
  by (induction k xs rule: key_after.induct) (auto split: if_splits list.splits)

lemma key_after_last: "distinct (map fst xs) \<Longrightarrow> key_after k xs = None \<Longrightarrow> k \<in> keys xs \<Longrightarrow>
    \<exists>ys r. xs = ys @ [(k, r)]"
proof (induction k xs rule: key_after.induct)
  case (2 k j q xs)
  show ?case
  proof (cases "k = j")
    case True
    then show ?thesis using 2(3) by (auto split: list.splits)
  next
    case False
    then obtain ys r where "xs = ys @ [(k, r)]" using 2 by auto
    then have "(j, q) # xs = ((j, q) # ys) @ [(k, r)]" by simp
    then show ?thesis by blast
  qed
qed simp

end
