(* ===== verification/ActiveSetSpec.thy ===== *)
theory ActiveSetSpec
  imports ActiveSet
begin

text \<open>
  The clock of the compression buffer finds its victim, and the one that a description of the
  algorithm by the order of the entries names; the buffer keeps its bound, and the tables it drops
  are the ones that are compressed.
\<close>

section \<open>The clock\<close>

text \<open>
  With the entries in the order \<open>ks\<close> in which the hand meets them, the victim is the first whose
  reference bit is clear, and the one at the hand if there is none.
\<close>

definition pick :: "(LT_ptr \<times> UInt16) list \<Rightarrow> LT_ptr list \<Rightarrow> LT_ptr" where
  "pick xs ks = (case find (\<lambda>j. map_of xs j \<noteq> Some 1) ks of Some j \<Rightarrow> j | None \<Rightarrow> hd ks)"

lemma key_after_split:
  "distinct (map fst xs) \<Longrightarrow> map fst xs = as @ k # bs \<Longrightarrow>
   key_after k xs = (case bs of [] \<Rightarrow> None | b # _ \<Rightarrow> Some b)"
proof (induction k xs arbitrary: as rule: key_after.induct)
  case (2 k j q xs)
  show ?case
  proof (cases as)
    case Nil
    then show ?thesis using 2(3) by (cases xs) (auto split: list.split)
  next
    case (Cons a as')
    then have "k \<in> set (map fst xs)" using 2(3) by simp
    then have "k \<noteq> j" using 2(2) by auto
    then show ?thesis using 2 Cons by auto
  qed
qed simp

lemma advance_split:
  assumes "distinct (map fst (active_set b))" "map fst (active_set b) = as @ k # bs"
  shows "clock_hand (advanceClockHand k b) = Some (hd (bs @ as @ [k]))"
proof -
  have "map_begin (active_set b) = Some (hd (as @ [k]))" if "bs = []"
    using assms(2) that by (cases "active_set b"; cases as) (auto simp: map_begin_def)
  then show ?thesis
    using key_after_split [OF assms] by (cases bs) (auto simp: advanceClockHand_def)
qed

lemma advance_simps [simp]:
  "active_set (advanceClockHand k b) = active_set b" "num_entries (advanceClockHand k b) = num_entries b"
  "comp_stat (advanceClockHand k b) = comp_stat b"
  by (simp_all add: advanceClockHand_def)

lemma map_of_map_set:
  "map_of (map_set k r xs) j = (if j = k then map_option (\<lambda>_. r) (map_of xs j) else map_of xs j)"
  by (induction xs) auto

lemma pick_advance:
  assumes "distinct (k # ks)" "map_of xs k = Some 1"
  shows "pick (map_set k 0 xs) (ks @ [k]) = pick xs (k # ks)"
proof -
  have m: "map_of (map_set k 0 xs) j = (if j = k then Some 0 else map_of xs j)" for j
    using assms(2) by (simp add: map_of_map_set)
  have "find (\<lambda>j. map_of (map_set k 0 xs) j \<noteq> Some 1) (js @ [k])
      = (case find (\<lambda>j. map_of xs j \<noteq> Some 1) js of Some j \<Rightarrow> Some j | None \<Rightarrow> Some k)"
    if "k \<notin> set js" for js
    using that by (induction js) (auto simp: m)
  with assms show ?thesis by (auto simp: pick_def split: option.split)
qed

definition victim_result :: "CBuffer \<Rightarrow> LT_ptr \<Rightarrow> CBuffer \<Rightarrow> bool" where
  "victim_result b v b' \<longleftrightarrow> map fst (active_set b') = map fst (active_set b)
     \<and> num_entries b' = num_entries b \<and> comp_stat b' = comp_stat b
     \<and> (\<exists>j \<in> keys (active_set b). clock_hand b' = Some j \<and> (j = v \<longrightarrow> length (active_set b) = 1))"

lemma getVictim_pick:
  assumes "distinct (map fst (active_set b))" "map fst (active_set b) = as @ k # bs" "clock_hand b = Some k"
  shows "\<exists>b'. getVictim b = Some (pick (active_set b) (k # bs @ as), b')
    \<and> victim_result b (pick (active_set b) (k # bs @ as)) b'"
  using assms
proof (induction b arbitrary: as k bs rule: getVictim.induct)
  case (1 b)
  note d = "1.prems"(1) and sp = "1.prems"(2) and hand = "1.prems"(3)
  have "k \<in> set (map fst (active_set b))" using sp by simp
  then obtain r where r: "map_of (active_set b) k = Some r"
    by (metis list.set_map map_of_keys not_None_eq)
  have dk: "distinct (k # bs @ as)" using d sp by auto
  show ?case
  proof (cases "r = 1")
    case True
    let ?b = "advanceClockHand k (b\<lparr>active_set := map_set k 0 (active_set b)\<rparr>)"
    have d': "distinct (map fst (active_set ?b))" using d by simp
    obtain k' ks where ks: "bs @ as @ [k] = k' # ks" by (cases "bs @ as @ [k]") auto
    have hand': "clock_hand ?b = Some k'"
      using advance_split [of "b\<lparr>active_set := map_set k 0 (active_set b)\<rparr>" as k bs] d sp ks by simp
    obtain as' bs' where sp': "map fst (active_set ?b) = as' @ k' # bs'" "bs' @ as' = ks"
    proof (cases bs)
      case Nil
      then show ?thesis using ks sp that [of "[]" ks] by simp
    next
      case (Cons c cs)
      then show ?thesis using ks sp that [of "as @ [k]" cs] by auto
    qed
    have p: "pick (active_set ?b) (k' # ks) = pick (active_set b) (k # bs @ as)"
      using pick_advance [OF dk, of "active_set b"] r True ks by (metis advance_simps(1) append_assoc CBuffer.select_convs(2) CBuffer.update_convs(2) CBuffer.surjective)
    have unf: "getVictim b = getVictim ?b"
      by (subst getVictim.simps) (simp add: hand r True)
    from "1.IH" [OF hand r True d' sp'(1) hand'] p sp'(2) unf
    show ?thesis by (auto simp: victim_result_def)
  next
    case False
    have p: "pick (active_set b) (k # bs @ as) = k" using r False by (simp add: pick_def)
    have g: "getVictim b = Some (k, advanceClockHand k b)"
      by (subst getVictim.simps) (simp add: hand r False)
    let ?j = "hd (bs @ as @ [k])"
    have h: "clock_hand (advanceClockHand k b) = Some ?j" by (rule advance_split [OF d sp])
    have j: "?j \<in> set (map fst (active_set b))" using sp by (cases bs; cases as) auto
    have one: "length (active_set b) = 1" if "?j = k"
    proof -
      have "bs @ as = []" using that dk by (cases bs; cases as) auto
      then have "length (map fst (active_set b)) = 1" using sp by simp
      then show ?thesis by simp
    qed
    from j have "?j \<in> keys (active_set b)" by simp
    with h one p g show ?thesis by (auto simp: victim_result_def intro!: bexI [where x = ?j])
  qed
qed

section \<open>The buffer\<close>

text \<open>A buffer in use: the keys are in order, and the hand points to an entry if there is one.\<close>

definition buffer_ok :: "CBuffer \<Rightarrow> bool" where
  "buffer_ok b \<longleftrightarrow> sorted_wrt (<) (map fst (active_set b))
     \<and> (active_set b \<noteq> [] \<longrightarrow> (\<exists>k \<in> keys (active_set b). clock_hand b = Some k))"

text \<open>The entries in the order in which the hand meets them.\<close>

definition clock_order :: "CBuffer \<Rightarrow> LT_ptr list" where
  "clock_order b = (let ks = map fst (active_set b); at_hand = (\<lambda>j. Some j = clock_hand b)
     in dropWhile (\<lambda>j. \<not> at_hand j) ks @ takeWhile (\<lambda>j. \<not> at_hand j) ks)"

lemma clock_order_split:
  assumes "map fst (active_set b) = as @ k # bs" "k \<notin> set as" "clock_hand b = Some k"
  shows "clock_order b = k # bs @ as"
proof -
  have "takeWhile (\<lambda>j. Some j \<noteq> Some k) (as @ k # bs) = as"
    "dropWhile (\<lambda>j. Some j \<noteq> Some k) (as @ k # bs) = k # bs"
    using assms(2) by (induction as) auto
  then show ?thesis using assms by (simp add: clock_order_def Let_def)
qed

lemma buffer_ok_split:
  assumes "buffer_ok b" "active_set b \<noteq> []"
  obtains as k bs where "map fst (active_set b) = as @ k # bs" "distinct (map fst (active_set b))"
    "k \<notin> set as" "clock_hand b = Some k"
proof -
  from assms obtain k where k: "k \<in> set (map fst (active_set b))" "clock_hand b = Some k"
    by (auto simp: buffer_ok_def)
  have d: "distinct (map fst (active_set b))" using assms(1) by (simp add: buffer_ok_def strict_sorted_iff)
  from k(1) obtain as bs where "map fst (active_set b) = as @ k # bs" "k \<notin> set as"
    using split_list_first by metis
  with that d k(2) show ?thesis by blast
qed

lemma pick_in_keys:
  assumes "map fst (active_set b) = as @ k # bs"
  shows "pick (active_set b) (k # bs @ as) \<in> keys (active_set b)"
proof -
  have f: "find P js = Some j \<Longrightarrow> j \<in> set js" for P and js :: "LT_ptr list" and j
    by (induction js) (auto split: if_splits)
  have "pick (active_set b) (k # bs @ as) \<in> set (k # bs @ as)"
  proof (cases "find (\<lambda>j. map_of (active_set b) j \<noteq> Some 1) (k # bs @ as)")
    case (Some j)
    then show ?thesis using f [OF Some] by (simp add: pick_def del: find.simps)
  qed (simp add: pick_def del: find.simps)
  then have "pick (active_set b) (k # bs @ as) \<in> set (map fst (active_set b))" using assms by auto
  then show ?thesis by simp
qed

text \<open>
  C31. In a valid, non-empty buffer the clock stops, at an entry of the buffer: the first, in the order
  in which the hand meets the entries, whose reference bit is clear, and the one at the hand when all
  bits are set. Afterwards the hand points to an entry, to another one if there is another.
\<close>

theorem clock_second_chance:
  assumes "buffer_ok b" "active_set b \<noteq> []"
  shows "\<exists>v b'. getVictim b = Some (v, b') \<and> v \<in> keys (active_set b)
    \<and> v = (case find (\<lambda>j. map_of (active_set b) j \<noteq> Some 1) (clock_order b) of
             Some j \<Rightarrow> j | None \<Rightarrow> hd (clock_order b))
    \<and> map fst (active_set b') = map fst (active_set b)
    \<and> (\<exists>j \<in> keys (active_set b). clock_hand b' = Some j \<and> (j = v \<longrightarrow> length (active_set b) = 1))"
proof -
  obtain as k bs where s: "map fst (active_set b) = as @ k # bs" "distinct (map fst (active_set b))"
    "k \<notin> set as" "clock_hand b = Some k" by (rule buffer_ok_split [OF assms])
  have o: "clock_order b = k # bs @ as" by (rule clock_order_split [OF s(1,3,4)])
  obtain b' where b': "getVictim b = Some (pick (active_set b) (k # bs @ as), b')"
    "victim_result b (pick (active_set b) (k # bs @ as)) b'"
    using getVictim_pick [OF s(2,1,4)] by blast
  have "pick (active_set b) (k # bs @ as) \<in> keys (active_set b)" by (rule pick_in_keys [OF s(1)])
  with b' show ?thesis unfolding o pick_def victim_result_def by blast
qed

theorem clock_second_chance_witness:
  "\<exists>v b'. getVictim \<lparr>num_entries = 2, active_set = [(16, 1), (32, 0)], clock_hand = Some 16, comp_stat = CompStat_zero\<rparr>
     = Some (v, b') \<and> v = 32"
proof -
  let ?b = "\<lparr>num_entries = 2, active_set = [(16, 1), (32, 0)], clock_hand = Some 16, comp_stat = CompStat_zero\<rparr> :: CBuffer"
  have "buffer_ok ?b" by (simp add: buffer_ok_def)
  from clock_second_chance [OF this] show ?thesis by (auto simp: clock_order_def Let_def)
qed

text \<open>The tables of the buffer can be compressed.\<close>

definition buffer_tables :: "LZO \<Rightarrow> CBuffer \<Rightarrow> Heap \<Rightarrow> bool" where
  "buffer_tables z b h \<longleftrightarrow> (\<forall>k \<in> keys (active_set b). \<exists>l. h k = Some l \<and> plain_tables l \<and> lzo_good z l)"

lemma map_insert_new_length:
  "k \<notin> keys xs \<Longrightarrow> length (map_insert k r xs) = Suc (length xs)"
  by (induction k r xs rule: map_insert.induct) auto

lemma map_erase_length: "distinct (map fst xs) \<Longrightarrow> v \<in> keys xs \<Longrightarrow> length (map_erase v xs) = length xs - 1"
proof -
  assume "distinct (map fst xs)" "v \<in> keys xs"
  then have "length (filter (\<lambda>j. j \<noteq> v) (map fst xs)) = length (map fst xs) - 1"
    using distinct_remove1_removeAll [of "map fst xs" v] length_remove1 [of v "map fst xs"]
    by (simp add: removeAll_filter_not_eq eq_commute)
  then show ?thesis using map_fst_erase [of v xs] by (metis length_map)
qed

lemma evictFromBuffer_ok:
  assumes "buffer_ok b" "active_set b \<noteq> []" "buffer_tables z b h"
  shows "\<exists>gained b' v l l'. evictFromBuffer z (b, h) = Some (gained, b', h(v \<mapsto> l')) \<and> v \<in> keys (active_set b)
    \<and> h v = Some l \<and> compressed l' \<and> decompress z l' \<noteq> None
    \<and> keys (active_set b') = keys (active_set b) - {v} \<and> sorted_wrt (<) (map fst (active_set b'))
    \<and> length (active_set b') = length (active_set b) - 1 \<and> num_entries b' = num_entries b \<and> buffer_ok b'"
proof -
  obtain as k bs where s: "map fst (active_set b) = as @ k # bs" "distinct (map fst (active_set b))"
    "k \<notin> set as" "clock_hand b = Some k" by (rule buffer_ok_split [OF assms(1,2)])
  define v where "v = pick (active_set b) (k # bs @ as)"
  obtain b1 where b1: "getVictim b = Some (v, b1)" "victim_result b v b1"
    using getVictim_pick [OF s(2,1,4)] unfolding v_def by blast
  have v: "v \<in> keys (active_set b)"
    unfolding v_def by (rule pick_in_keys [OF s(1)])
  from assms(3) v obtain l where l: "h v = Some l" "plain_tables l" "lzo_good z l"
    by (auto simp: buffer_tables_def)
  obtain l' cs gain where c: "compress z l (comp_stat b1) = Some (l', cs, gain)" "compressed l'" "decompress z l' \<noteq> None"
    using compress_decompress_lemma [OF l(2,3), of "comp_stat b1"] by auto
  from b1(2) have m: "map fst (active_set b1) = map fst (active_set b)" "num_entries b1 = num_entries b"
    by (auto simp: victim_result_def)
  then have k1: "keys (active_set b1) = keys (active_set b)" by (metis list.set_map)
  have len: "length (active_set b1) = length (active_set b)" using m(1) by (metis length_map)
  let ?b = "b1\<lparr>active_set := map_erase v (active_set b1), comp_stat := cs\<lparr>totalEvict := totalEvict cs + 1\<rparr>\<rparr>"
  have so: "sorted_wrt (<) (map fst (active_set ?b))"
    using assms(1) m(1) by (simp add: map_erase_sorted buffer_ok_def)
  have ln: "length (active_set ?b) = length (active_set b) - 1"
    using map_erase_length [of "active_set b1" v] v k1 s(2) m(1) len by simp
  from b1(2) obtain j where j: "j \<in> keys (active_set b)" "clock_hand b1 = Some j" "j = v \<longrightarrow> length (active_set b) = 1"
    by (auto simp: victim_result_def)
  have "buffer_ok ?b" using so ln j k1 by (cases "j = v") (auto simp: buffer_ok_def)
  then show ?thesis using b1(1) l c v so ln k1 m(2)
    by (intro exI [where x = "ucast gain"] exI [where x = ?b] exI [where x = v] exI [where x = l] exI [where x = l'])
      (simp add: evictFromBuffer_def)
qed

lemma addToBuffer_ok:
  assumes "buffer_ok b" "k \<notin> keys (active_set b)"
  shows "buffer_ok (addToBuffer k b) \<and> keys (active_set (addToBuffer k b)) = insert k (keys (active_set b))
    \<and> length (active_set (addToBuffer k b)) = Suc (length (active_set b)) \<and> num_entries (addToBuffer k b) = num_entries b"
proof -
  let ?xs = "map_insert k 1 (active_set b)"
  have len: "length ?xs = Suc (length (active_set b))" by (rule map_insert_new_length [OF assms(2)])
  have so: "sorted_wrt (<) (map fst ?xs)" using assms(1) by (simp add: buffer_ok_def map_insert_sorted)
  show ?thesis
  proof (cases "active_set b")
    case Nil
    then show ?thesis using so by (simp add: addToBuffer_def buffer_ok_def map_begin_def)
  next
    case (Cons p ps)
    then have "length ?xs \<noteq> 1" using len by simp
    then show ?thesis using so len assms(1) Cons by (auto simp: addToBuffer_def buffer_ok_def Let_def)
  qed
qed

text \<open>
  C30. Adding a level table to a valid buffer of at least one entry returns; the buffer stays valid,
  does not exceed its size and holds the new table. A table that had to leave is compressed in the
  heap, every other table is as it was.
\<close>

theorem buffer_add_bounded:
  assumes "buffer_ok b" "0 < unat (num_entries b)" "length (active_set b) \<le> unat (num_entries b)"
    and "buffer_tables z b h" "table \<notin> keys (active_set b)"
  shows "\<exists>gained b' h'. CBuffer_add True z table (b, h) = Some (gained, b', h') \<and> buffer_ok b'
    \<and> length (active_set b') \<le> unat (num_entries b') \<and> table \<in> keys (active_set b')
    \<and> (\<forall>k \<in> insert table (keys (active_set b)) - keys (active_set b'). \<exists>l. h' k = Some l \<and> compressed l)
    \<and> (\<forall>k. k \<in> keys (active_set b') \<or> k \<notin> insert table (keys (active_set b)) \<longrightarrow> h' k = h k)"
proof (cases "unat (num_entries b) \<le> length (active_set b)")
  case False
  then show ?thesis using addToBuffer_ok [OF assms(1,5)] by (auto simp: CBuffer_add_def)
next
  case True
  then have ne: "active_set b \<noteq> []" using assms(2) by auto
  obtain gained b1 v l l' where e: "evictFromBuffer z (b, h) = Some (gained, b1, h(v \<mapsto> l'))" "v \<in> keys (active_set b)"
    "compressed l'" "keys (active_set b1) = keys (active_set b) - {v}"
    "length (active_set b1) = length (active_set b) - 1" "num_entries b1 = num_entries b" "buffer_ok b1"
    using evictFromBuffer_ok [OF assms(1) ne assms(4)] by (elim exE conjE) (rule that, assumption+)
  have "table \<notin> keys (active_set b1)" unfolding e(4) using assms(5) by blast
  note add = addToBuffer_ok [OF e(7) this]
  have a: "buffer_ok (addToBuffer table b1)" "keys (active_set (addToBuffer table b1)) = insert table (keys (active_set b) - {v})"
    "length (active_set (addToBuffer table b1)) = Suc (length (active_set b) - 1)"
    "num_entries (addToBuffer table b1) = num_entries b"
    using add by (simp_all only: e(4-6))
  let ?b = "addToBuffer table b1" and ?h = "h(v \<mapsto> l')"
  have c: "CBuffer_add True z table (b, h) = Some (gained, ?b, ?h)"
    using True e(1) by (simp add: CBuffer_add_def)
  have le: "length (active_set ?b) \<le> unat (num_entries ?b)"
    using a(3,4) assms(3) ne by (cases "active_set b") auto
  have mem: "table \<in> keys (active_set ?b)" unfolding a(2) by simp
  have left: "\<exists>l. ?h k = Some l \<and> compressed l" if "k \<in> insert table (keys (active_set b)) - keys (active_set ?b)" for k
    using that e(3) unfolding a(2) by auto
  have kept: "?h k = h k" if "k \<in> keys (active_set ?b) \<or> k \<notin> insert table (keys (active_set b))" for k
  proof -
    have "k \<noteq> v" using that e(2) assms(5) unfolding a(2) by blast
    then show ?thesis by simp
  qed
  show ?thesis
    by (rule exI [where x = gained], rule exI [where x = ?b], rule exI [where x = ?h], intro conjI ballI allI impI)
      (rule c a(1) le mem left kept, assumption?)+
qed

theorem buffer_add_bounded_witness:
  "\<exists>gained b' h'. CBuffer_add True copy_lzo 32
       (\<lparr>num_entries = 1, active_set = [(16, 1)], clock_hand = Some 16, comp_stat = CompStat_zero\<rparr>, [16 \<mapsto> sample_levels])
     = Some (gained, b', h') \<and> length (active_set b') \<le> unat (num_entries b') \<and> 32 \<in> keys (active_set b')"
proof -
  let ?b = "\<lparr>num_entries = 1, active_set = [(16, 1)], clock_hand = Some 16, comp_stat = CompStat_zero\<rparr> :: CBuffer"
  have "buffer_ok ?b" "buffer_tables copy_lzo ?b [16 \<mapsto> sample_levels]"
    using sample_levels_plain sample_levels_lzo by (simp_all add: buffer_ok_def buffer_tables_def)
  from buffer_add_bounded [OF this(1) _ _ this(2), of 32] show ?thesis by auto
qed

end
