(* ===== verification/Skadu.thy ===== *)
theory Skadu
  imports ActiveSetSpec ShadowInterface KConfig
begin

text \<open>
  The shadow memory \<open>MShadowSkadu\<close> (\<open>runtime/src/MShadowSkadu.cpp\<close>, \<open>MemorySegment.hpp\<close>): a sparse
  table of up to 32 segments of 4 GB, each with a level table for every page that has been touched,
  behind a cache; the garbage collector; the interface between the memory and its cache
  (\<open>CacheInterface.hpp\<close>), and the cache that does not cache (\<open>MShadowNullCache.cpp\<close>).

  The parameter \<open>Platform\<close> has what is not code of the program: the LZO library, the address at which
  the allocator places the n-th level table (a number: memory is not bounded here), and what the memory there held.
\<close>

section \<open>State\<close>

record Platform =
  plat_lzo :: LZO
  plat_addr :: "nat \<Rightarrow> LT_ptr"
  plat_mem :: "nat \<Rightarrow> bool"

text \<open>
  A memory segment: the entries of its array of level tables that are not null, by index. The array
  has an entry for every value of \<open>GetIndex\<close>.
\<close>

type_synonym MemorySegment = "(nat \<times> LT_ptr) list"

definition GetIndex :: "Addr \<Rightarrow> nat" where
  "GetIndex addr = unat (drop_bit 12 addr AND 0xfffff)"

definition getLevelTableAtIndex :: "nat \<Rightarrow> MemorySegment \<Rightarrow> LT_ptr option" where
  "getLevelTableAtIndex i s = map_of s i"

fun setLevelTableAtIndex :: "LT_ptr \<Rightarrow> nat \<Rightarrow> MemorySegment \<Rightarrow> MemorySegment" where
  "setLevelTableAtIndex p i [] = [(i, p)]"
| "setLevelTableAtIndex p i ((j, q) # s) =
     (if i < j then (i, p) # (j, q) # s else if i = j then (i, p) # s
      else (j, q) # setLevelTableAtIndex p i s)"

record SparseTableElement =
  addrHigh :: UInt32
  elem_segTable :: "MemorySegment option"

definition SPARSE_ENTRIES :: nat where
  "SPARSE_ENTRIES = 32"

record 'c MShadowSkadu =
  sparse_entry :: "SparseTableElement list"
  writePtr :: nat
  next_gc_time :: UInt64
  sk_gc_period :: UInt32
  sk_cache :: 'c
  compression_enabled :: bool
  compression_buffer :: CBuffer
  sk_heap :: Heap
  n_level_tables :: nat
  mem_stat :: MemStat
  cache_stat :: L1Stat

section \<open>SparseTable\<close>

definition SparseTable_init :: "SparseTableElement list" where
  "SparseTable_init = replicate SPARSE_ENTRIES \<lparr>addrHigh = 0, elem_segTable = None\<rparr>"

fun find_entry :: "SparseTableElement list \<Rightarrow> UInt32 \<Rightarrow> nat \<Rightarrow> nat \<Rightarrow> nat option option" where
  "find_entry es high i 0 = Some None"
| "find_entry es high i (Suc k) = do {
     e \<leftarrow> rd es (int i);
     if addrHigh e = high then Some (Some i) else find_entry es high (Suc i) k }"

definition addr_high :: "Addr \<Rightarrow> UInt32" where
  "addr_high addr = ucast (drop_bit 32 addr)"

definition getElement :: "Addr \<Rightarrow> 'c MShadowSkadu \<Rightarrow> (nat \<times> 'c MShadowSkadu) option" where
  "getElement addr m = do {
     let highAddr = addr_high addr;
     found \<leftarrow> find_entry (sparse_entry m) highAddr 0 (writePtr m);
     (case found of
        Some i \<Rightarrow> Some (i, m)
      | None \<Rightarrow> do {
          es \<leftarrow> wr (sparse_entry m) (int (writePtr m)) \<lparr>addrHigh = highAddr, elem_segTable = Some []\<rparr>;
          Some (writePtr m, m\<lparr>sparse_entry := es, mem_stat := eventSegTableAlloc (mem_stat m),
                              writePtr := writePtr m + 1\<rparr>) }) }"

section \<open>Garbage collector\<close>

definition initGarbageCollector :: "UInt32 \<Rightarrow> 'c MShadowSkadu \<Rightarrow> 'c MShadowSkadu" where
  "initGarbageCollector period m = (let m = m\<lparr>next_gc_time := ucast period, sk_gc_period := period\<rparr>
     in if period = 0 then m\<lparr>next_gc_time := 0xFFFFFFFFFFFFFFFF\<rparr> else m)"

definition collect_table ::
  "Version list \<Rightarrow> nat \<Rightarrow> LT_ptr \<Rightarrow> Heap \<times> MemStat \<Rightarrow> (Heap \<times> MemStat) option" where
  "collect_table vs sz p = (\<lambda>(h, st). do {
     l \<leftarrow> h p;
     (l, st) \<leftarrow> collectGarbageWithinBounds vs sz (l, st);
     Some (h(p \<mapsto> l), st) })"

fun collect_segment ::
  "Version list \<Rightarrow> nat \<Rightarrow> MemorySegment \<Rightarrow> Heap \<times> MemStat \<Rightarrow> (Heap \<times> MemStat) option" where
  "collect_segment vs sz [] s = Some s"
| "collect_segment vs sz ((i, p) # seg) s = collect_table vs sz p s \<bind> collect_segment vs sz seg"

fun collect_segments ::
  "Version list \<Rightarrow> nat \<Rightarrow> SparseTableElement list \<Rightarrow> Heap \<times> MemStat \<Rightarrow> (Heap \<times> MemStat) option" where
  "collect_segments vs sz [] s = Some s"
| "collect_segments vs sz (e # es) s =
     (case elem_segTable e of None \<Rightarrow> Some s | Some seg \<Rightarrow> collect_segment vs sz seg s)
       \<bind> collect_segments vs sz es"

definition runGarbageCollector ::
  "Version list \<Rightarrow> nat \<Rightarrow> 'c MShadowSkadu \<Rightarrow> 'c MShadowSkadu option" where
  "runGarbageCollector curr_versions sz m = do {
     let st = eventGC (mem_stat m);
     (h, st) \<leftarrow> collect_segments curr_versions sz (take SPARSE_ENTRIES (sparse_entry m)) (sk_heap m, st);
     Some (m\<lparr>sk_heap := h, mem_stat := st\<rparr>) }"

section \<open>Level tables of addresses\<close>

definition new_level_table :: "Platform \<Rightarrow> nat \<Rightarrow> nat \<Rightarrow> MemorySegment \<Rightarrow> 'c MShadowSkadu \<Rightarrow> (LT_ptr \<times> 'c MShadowSkadu) option" where
  "new_level_table env i segIndex seg m = do {
     let p = plat_addr env (n_level_tables m);
     let h = (sk_heap m)(p \<mapsto> LevelTable_new (plat_mem env (n_level_tables m)));
     (b, h, st) \<leftarrow>
       (if compression_enabled m then do {
          (gain, b, h) \<leftarrow> CBuffer_add True (plat_lzo env) p (compression_buffer m, h);
          Some (b, h, eventCompression gain (mem_stat m)) }
        else Some (compression_buffer m, h, mem_stat m));
     e \<leftarrow> rd (sparse_entry m) (int i);
     es \<leftarrow> wr (sparse_entry m) (int i) (e\<lparr>elem_segTable := Some (setLevelTableAtIndex p segIndex seg)\<rparr>);
     Some (p, m\<lparr>sk_heap := h, compression_buffer := b, mem_stat := eventLevelTableAlloc st,
                 sparse_entry := es, n_level_tables := n_level_tables m + 1\<rparr>) }"

text \<open>A compressed table is cleaned of old levels and decompressed before it is used.\<close>

definition ready_level_table ::
  "Platform \<Rightarrow> Version list \<Rightarrow> LT_ptr \<Rightarrow> 'c MShadowSkadu \<Rightarrow> 'c MShadowSkadu option" where
  "ready_level_table env curr_versions p m = do {
     l \<leftarrow> sk_heap m p;
     if compression_enabled m \<and> compressed l
     then do {
       (l, st) \<leftarrow> collectGarbageUnbounded curr_versions (l, mem_stat m);
       (gain, b, h) \<leftarrow> CBuffer_decompress True (plat_lzo env) p (compression_buffer m, (sk_heap m)(p \<mapsto> l));
       Some (m\<lparr>sk_heap := h, compression_buffer := b, mem_stat := eventCompression gain st\<rparr>) }
     else Some m }"

definition getLevelTable ::
  "Platform \<Rightarrow> Addr \<Rightarrow> Version list \<Rightarrow> 'c MShadowSkadu \<Rightarrow> (LT_ptr \<times> 'c MShadowSkadu) option" where
  "getLevelTable env addr curr_versions m = do {
     (i, m) \<leftarrow> getElement addr m;
     e \<leftarrow> rd (sparse_entry m) (int i);
     segTable \<leftarrow> elem_segTable e;
     let segIndex = GetIndex addr;
     (p, m) \<leftarrow> (case getLevelTableAtIndex segIndex segTable of
         Some p \<Rightarrow> Some (p, m)
       | None \<Rightarrow> new_level_table env i segIndex segTable m);
     m \<leftarrow> ready_level_table env curr_versions p m;
     Some (p, m) }"

definition touch_table :: "LT_ptr \<Rightarrow> 'c MShadowSkadu \<Rightarrow> 'c MShadowSkadu option" where
  "touch_table p m =
     (if compression_enabled m
      then do { b \<leftarrow> CBuffer_touch True p (compression_buffer m); Some (m\<lparr>compression_buffer := b\<rparr>) }
      else Some m)"

text \<open>One level of a table in the heap, read and written; the pool has chunks of 512 times.\<close>

definition read_level :: "LT_ptr \<Rightarrow> Addr \<Rightarrow> Version list \<Rightarrow> nat \<Rightarrow> 'c MShadowSkadu \<Rightarrow> Time option" where
  "read_level p addr vs i m = do {
     l \<leftarrow> sk_heap m p;
     v \<leftarrow> rd vs (int i);
     getTimeForAddrAtLevel (int i) addr v l }"

definition write_level ::
  "LT_ptr \<Rightarrow> Addr \<Rightarrow> Version list \<Rightarrow> Time \<Rightarrow> TableType \<Rightarrow> nat \<Rightarrow> 'c MShadowSkadu \<Rightarrow> 'c MShadowSkadu option" where
  "write_level p addr vs val ty i m = do {
     l \<leftarrow> sk_heap m p;
     v \<leftarrow> rd vs (int i);
     (l, st) \<leftarrow> setTimeForAddrAtLevel (GetNumEntries TYPE_64BIT) (int i) addr v val ty (l, mem_stat m);
     Some (m\<lparr>sk_heap := (sk_heap m)(p \<mapsto> l), mem_stat := st\<rparr>) }"

section \<open>Access from a cache\<close>

fun evict_levels ::
  "LT_ptr \<Rightarrow> Addr \<Rightarrow> Version list \<Rightarrow> Time list \<Rightarrow> TableType \<Rightarrow> nat \<Rightarrow> nat \<Rightarrow> 'c MShadowSkadu \<Rightarrow> 'c MShadowSkadu option" where
  "evict_levels p addr vs ts ty i 0 m = Some m"
| "evict_levels p addr vs ts ty i (Suc k) m = do {
     cs \<leftarrow> eventEvict (int i) (cache_stat m);
     let m = m\<lparr>cache_stat := cs\<rparr>;
     t \<leftarrow> rd ts (int i);
     if t = 0 then Some m
     else do {
       m \<leftarrow> write_level p addr vs t ty i m;
       evict_levels p addr vs ts ty (Suc i) k m } }"

definition evict ::
  "Platform \<Rightarrow> Time list \<Rightarrow> Addr \<Rightarrow> Index \<Rightarrow> Version list \<Rightarrow> TableType \<Rightarrow> 'c MShadowSkadu \<Rightarrow> 'c MShadowSkadu option" where
  "evict env new_timestamps addr sz curr_versions ty m = do {
     (p, m) \<leftarrow> getLevelTable env addr curr_versions m;
     m \<leftarrow> evict_levels p addr curr_versions new_timestamps ty 0 (unat sz) m;
     touch_table p (m\<lparr>cache_stat := eventCacheEvict sz sz (cache_stat m)\<rparr>) }"

definition fetch_level ::
  "LT_ptr \<Rightarrow> Addr \<Rightarrow> Version list \<Rightarrow> 'c MShadowSkadu \<Rightarrow> nat \<Rightarrow> Time list \<Rightarrow> Time list option" where
  "fetch_level p addr vs m i ts = do { t \<leftarrow> read_level p addr vs i m; wr ts (int i) t }"

definition fetch ::
  "Platform \<Rightarrow> Addr \<Rightarrow> Index \<Rightarrow> Version list \<Rightarrow> Time list \<Rightarrow> TableType \<Rightarrow> 'c MShadowSkadu \<Rightarrow>
   (Time list \<times> 'c MShadowSkadu) option" where
  "fetch env addr sz curr_versions timestamps ty m = do {
     (p, m) \<leftarrow> getLevelTable env addr curr_versions m;
     ts \<leftarrow> for_range 0 (unat sz) (fetch_level p addr curr_versions m) timestamps;
     m \<leftarrow> touch_table p m;
     Some (ts, m) }"

section \<open>The cache interface and the operations of the memory\<close>

record 'c CacheInterface =
  cache_get :: "Addr \<Rightarrow> Index \<Rightarrow> Version list \<Rightarrow> TableType \<Rightarrow> 'c MShadowSkadu \<Rightarrow> (Time list \<times> 'c MShadowSkadu) option"
  cache_set :: "Addr \<Rightarrow> Index \<Rightarrow> Version list \<Rightarrow> Time list \<Rightarrow> TableType \<Rightarrow> 'c MShadowSkadu \<Rightarrow> 'c MShadowSkadu option"

definition align8 :: "Addr \<Rightarrow> Addr" where
  "align8 addr = addr AND NOT 0x7"

text \<open>\<open>get\<close> of no level returns a null pointer: there is no time to read.\<close>

definition MShadowSkadu_get ::
  "'c CacheInterface \<Rightarrow> Addr \<Rightarrow> Index \<Rightarrow> Version list \<Rightarrow> UInt32 \<Rightarrow> 'c MShadowSkadu \<Rightarrow> (Time list \<times> 'c MShadowSkadu) option" where
  "MShadowSkadu_get cache addr sz curr_versions width m =
     (if sz < 1 then Some ([], m)
      else cache_get cache (align8 addr) sz curr_versions TYPE_64BIT (m\<lparr>cache_stat := eventRead (cache_stat m)\<rparr>))"

definition MShadowSkadu_set ::
  "'c CacheInterface \<Rightarrow> Addr \<Rightarrow> Index \<Rightarrow> Version list \<Rightarrow> Time list \<Rightarrow> UInt32 \<Rightarrow> 'c MShadowSkadu \<Rightarrow> 'c MShadowSkadu option" where
  "MShadowSkadu_set cache addr sz curr_versions timestamps width m =
     (if sz < 1 then Some m
      else do {
        m \<leftarrow> (if getActiveTimeTableSize (mem_stat m) \<ge> next_gc_time m
              then do {
                m \<leftarrow> runGarbageCollector curr_versions (unat sz) m;
                Some (m\<lparr>next_gc_time := next_gc_time m + ucast (sk_gc_period m)\<rparr>) }
              else Some m);
        cache_set cache (align8 addr) sz curr_versions timestamps TYPE_64BIT
          (m\<lparr>cache_stat := eventWrite (cache_stat m)\<rparr>) })"

definition MShadowSkadu_init :: "KremlinConfiguration \<Rightarrow> 'c \<Rightarrow> 'c MShadowSkadu" where
  "MShadowSkadu_init cfg c = initGarbageCollector (garbage_collection_period cfg)
     \<lparr>sparse_entry = SparseTable_init, writePtr = 0, next_gc_time = 0, sk_gc_period = 0, sk_cache = c,
      compression_enabled = compress_shadow_mem cfg,
      compression_buffer = CBuffer_init (compress_shadow_mem cfg) (num_compression_buffer_entries cfg) CBuffer_new,
      sk_heap = (\<lambda>p. None), n_level_tables = 0, mem_stat = MemStat_zero, cache_stat = L1Stat_zero\<rparr>"

text \<open>
  \<open>deinit\<close> deletes the segments in use, and with them their level tables; the cache and the
  compression buffer have nothing to free.
\<close>

fun delete_segment :: "MemorySegment \<Rightarrow> Heap \<times> MemStat \<Rightarrow> (Heap \<times> MemStat) option" where
  "delete_segment [] s = Some s"
| "delete_segment ((i, p) # seg) (h, st) = do {
     l \<leftarrow> h p;
     st \<leftarrow> LevelTable_delete l st;
     delete_segment seg (h(p := None), st) }"

definition deinit_entry :: "nat \<Rightarrow> 'c MShadowSkadu \<Rightarrow> 'c MShadowSkadu option" where
  "deinit_entry i m = do {
     e \<leftarrow> rd (sparse_entry m) (int i);
     (h, st) \<leftarrow> (case elem_segTable e of None \<Rightarrow> Some (sk_heap m, mem_stat m)
                 | Some seg \<Rightarrow> delete_segment seg (sk_heap m, mem_stat m));
     es \<leftarrow> wr (sparse_entry m) (int i) (e\<lparr>elem_segTable := None\<rparr>);
     Some (m\<lparr>sk_heap := h, mem_stat := eventSegTableFree st, sparse_entry := es\<rparr>) }"

definition MShadowSkadu_deinit :: "'c MShadowSkadu \<Rightarrow> 'c MShadowSkadu option" where
  "MShadowSkadu_deinit m = for_range 0 (writePtr m) deinit_entry m"

section \<open>NullCache\<close>

text \<open>Its state is the buffer that \<open>get\<close> returns a pointer to.\<close>

type_synonym NullCache = "Time list"

definition tempArray_init :: NullCache where
  "tempArray_init = replicate 1000 0"

definition null_get_level ::
  "LT_ptr \<Rightarrow> Addr \<Rightarrow> Version list \<Rightarrow> nat \<Rightarrow> NullCache MShadowSkadu \<Rightarrow> NullCache MShadowSkadu option" where
  "null_get_level p addr vs i m = do {
     t \<leftarrow> read_level p addr vs i m;
     a \<leftarrow> wr (sk_cache m) (int i) t;
     Some (m\<lparr>sk_cache := a\<rparr>) }"

definition NullCache_get ::
  "Platform \<Rightarrow> Addr \<Rightarrow> Index \<Rightarrow> Version list \<Rightarrow> TableType \<Rightarrow> NullCache MShadowSkadu \<Rightarrow>
   (Time list \<times> NullCache MShadowSkadu) option" where
  "NullCache_get env addr sz vArray ty m = do {
     (p, m) \<leftarrow> getLevelTable env addr vArray m;
     m \<leftarrow> for_range 0 (unat sz) (null_get_level p addr vArray) m;
     m \<leftarrow> touch_table p m;
     Some (sk_cache m, m) }"

definition null_set_level ::
  "LT_ptr \<Rightarrow> Addr \<Rightarrow> Version list \<Rightarrow> Time list \<Rightarrow> TableType \<Rightarrow> nat \<Rightarrow> 'c MShadowSkadu \<Rightarrow> 'c MShadowSkadu option" where
  "null_set_level p addr vs ts ty i m = do { t \<leftarrow> rd ts (int i); write_level p addr vs t ty i m }"

definition NullCache_set ::
  "Platform \<Rightarrow> Addr \<Rightarrow> Index \<Rightarrow> Version list \<Rightarrow> Time list \<Rightarrow> TableType \<Rightarrow> NullCache MShadowSkadu \<Rightarrow>
   NullCache MShadowSkadu option" where
  "NullCache_set env addr sz vArray tArray ty m = do {
     (p, m) \<leftarrow> getLevelTable env addr vArray m;
     m \<leftarrow> for_range 0 (unat sz) (null_set_level p addr vArray tArray ty) m;
     touch_table p m }"

definition NullCache_ops :: "Platform \<Rightarrow> NullCache CacheInterface" where
  "NullCache_ops env = \<lparr>cache_get = NullCache_get env, cache_set = NullCache_set env\<rparr>"

definition skadu_null_shadow :: "Platform \<Rightarrow> NullCache MShadowSkadu MShadow" where
  "skadu_null_shadow env = \<lparr>mem_get = MShadowSkadu_get (NullCache_ops env), mem_set = MShadowSkadu_set (NullCache_ops env)\<rparr>"

end
