(* ===== verification/SkaduSpec.thy ===== *)
theory SkaduSpec
  imports Skadu
begin

text \<open>
  \<open>MShadowSkadu\<close> with the cache that does not cache and without compression implements the shadow
  memory contract: what is stored is what is loaded, at the granularity of 8-byte words, across
  garbage collections, as long as the program touches at most 32 segments of 4 GB.
\<close>

section \<open>Addresses\<close>

text \<open>The place of an address: its segment, its page in the segment and its word in the page.\<close>

type_synonym place = "UInt32 \<times> nat \<times> nat"

definition place_of :: "Addr \<Rightarrow> place" where
  "place_of a = (addr_high a, GetIndex a, page_offset a)"

lemma seven: "(7 :: Addr) = mask 3"
  by (simp add: mask_eq_exp_minus_1)

lemma drop_align8: "3 \<le> n \<Longrightarrow> drop_bit n (align8 a) = drop_bit n a"
proof (rule bit_eqI)
  fix i assume n: "3 \<le> n"
  have "bit (7 :: Addr) (n + i) = False" unfolding seven using n by (simp add: bit_mask_iff)
  then show "bit (drop_bit n (align8 a)) i = bit (drop_bit n a) i"
    by (auto simp: align8_def bit_simps dest: bit_imp_le_length)
qed

lemma page_offset_bits: "page_offset a = unat (drop_bit 3 a) mod 512"
proof -
  have "unat (drop_bit 3 a) = unat a div 8" by (simp add: drop_bit_eq_div unat_div)
  moreover have "(unat a div 4) mod 1024 div 2 = unat a div 8 mod 512"
  proof -
    have "x mod 1024 div 2 = x div 2 mod 512" for x :: nat
      using drop_bit_take_bit [of 1 10 x] by (simp add: drop_bit_eq_div take_bit_eq_mod)
    then show ?thesis by (simp add: div_mult2_eq [symmetric])
  qed
  ultimately show ?thesis by (simp add: page_offset_def)
qed

lemma place_align8 [simp]:
  "addr_high (align8 a) = addr_high a" "GetIndex (align8 a) = GetIndex a"
  "page_offset (align8 a) = page_offset a" "place_of (align8 a) = place_of a"
  by (simp_all add: addr_high_def GetIndex_def page_offset_bits drop_align8 place_of_def)

lemma page_offset_less [simp]: "page_offset a < 512"
  by (simp add: page_offset_bits)

lemma page_offset_rep: "off < 512 \<Longrightarrow> page_offset (of_nat (8 * off)) = off"
proof -
  assume off: "off < 512"
  have "unat (of_nat (8 * off) :: Addr) = 8 * off"
    by (subst unsigned_of_nat) (use off in \<open>simp add: take_bit_nat_eq_self\<close>)
  moreover have "8 * off div 4 = 2 * off" by simp
  ultimately show ?thesis using off by (simp only: page_offset_def) simp
qed

lemma GetIndex_div: "GetIndex a = unat a div 4096 mod 1048576"
proof -
  have "(0xfffff :: Addr) = mask 20" by (simp add: mask_eq_exp_minus_1)
  then have "drop_bit 12 a AND 0xfffff = take_bit 20 (drop_bit 12 a)" by (simp add: take_bit_eq_mask)
  then show ?thesis by (simp add: GetIndex_def take_bit_eq_mod unat_mod drop_bit_eq_div unat_div)
qed

lemma addr_high_div: "unat (addr_high a) = unat a div 4294967296"
proof -
  have "unat a < 2 ^ LENGTH(64)" by (rule unsigned_less)
  then have "unat a < 4294967296 * 4294967296" by simp
  then have "unat a div 4294967296 < 4294967296" by (rule less_mult_imp_div_less)
  then show ?thesis
    by (simp add: addr_high_def drop_bit_eq_div unat_div unsigned_ucast_eq take_bit_nat_eq_self)
qed

lemma place_is_word_lemma: "place_of a = place_of b \<longleftrightarrow> align8 a = align8 b"
proof
  assume eq: "place_of a = place_of b"
  let ?x = "unat a" and ?y = "unat b"
  have h: "?x div 4294967296 = ?y div 4294967296"
    using eq by (metis addr_high_div place_of_def prod.inject)
  have g: "?x div 4096 mod 1048576 = ?y div 4096 mod 1048576"
    using eq by (metis GetIndex_div place_of_def prod.inject)
  have p: "?x div 8 mod 512 = ?y div 8 mod 512"
    using eq by (simp add: place_of_def page_offset_bits drop_bit_eq_div unat_div)
  have sx: "z div 8 = z div 4294967296 * 536870912 + z div 4096 mod 1048576 * 512 + z div 8 mod 512" for z :: nat
  proof -
    have "z div 8 = z div 8 div 512 * 512 + z div 8 mod 512" by simp
    moreover have "z div 4096 = z div 4096 div 1048576 * 1048576 + z div 4096 mod 1048576" by simp
    moreover have "z div 8 div 512 = z div 4096" "z div 4096 div 1048576 = z div 4294967296"
      by (simp_all flip: div_mult2_eq)
    ultimately show ?thesis by simp
  qed
  have "?x div 8 = ?y div 8" using h g p sx [of ?x] sx [of ?y] by metis
  then have d: "drop_bit 3 a = drop_bit 3 b"
    by (intro unsigned_word_eqI [where 'a = nat]) (simp add: drop_bit_eq_div unat_div)
  show "align8 a = align8 b"
  proof (rule bit_eqI)
    fix i
    have low: "\<not> bit (align8 c) i" if "i < 3" for c
      unfolding align8_def seven using that by (simp add: bit_simps)
    have high: "bit (align8 c) i = bit (drop_bit 3 c) (i - 3)" if "3 \<le> i" for c
    proof -
      have "bit (align8 c) i = bit (drop_bit 3 (align8 c)) (i - 3)" using that by (simp add: bit_drop_bit_eq)
      then show ?thesis by (simp add: drop_align8)
    qed
    show "bit (align8 a) i = bit (align8 b) i"
    proof (cases "i < 3")
      case True
      then show ?thesis using low by blast
    next
      case False
      then show ?thesis using high [of a] high [of b] d by simp
    qed
  qed
next
  assume "align8 a = align8 b"
  then show "place_of a = place_of b" by (metis place_align8(4))
qed

text \<open>
  Two addresses have the same place in the shadow memory exactly when they belong to the same
  8-byte word of the program: no two words share a time.
\<close>

theorem place_is_word: "place_of a = place_of b \<longleftrightarrow> align8 a = align8 b"
  by (rule place_is_word_lemma)

section \<open>The contents\<close>

text \<open>The level table of a page, and the time of a place at a level under a version.\<close>

definition entry_of :: "SparseTableElement list \<Rightarrow> nat \<Rightarrow> UInt32 \<Rightarrow> nat option" where
  "entry_of es n high = find (\<lambda>i. addrHigh (es ! i) = high) [0..<n]"

definition page_in :: "SparseTableElement list \<Rightarrow> nat \<Rightarrow> UInt32 \<Rightarrow> nat \<Rightarrow> LT_ptr option" where
  "page_in es n high ix = do { i \<leftarrow> entry_of es n high; seg \<leftarrow> elem_segTable (es ! i); map_of seg ix }"

abbreviation page_table :: "'c MShadowSkadu \<Rightarrow> UInt32 \<Rightarrow> nat \<Rightarrow> LT_ptr option" where
  "page_table m \<equiv> page_in (sparse_entry m) (writePtr m)"

definition table_time :: "Heap \<Rightarrow> LT_ptr option \<Rightarrow> nat \<Rightarrow> nat \<Rightarrow> Version \<Rightarrow> Time" where
  "table_time h p off i v = (case p \<bind> h of Some l \<Rightarrow> level_time l i (of_nat (8 * off)) v | None \<Rightarrow> 0)"

definition skadu_view :: "'c MShadowSkadu \<Rightarrow> place \<Rightarrow> nat \<Rightarrow> Version \<Rightarrow> Time" where
  "skadu_view m k i v = (case k of (high, ix, off) \<Rightarrow>
     if off < 512 \<and> i < 64 then table_time (sk_heap m) (page_table m high ix) off i v else 0)"

text \<open>Nothing is stored under a version.\<close>

definition zero_at :: "'c MShadowSkadu \<Rightarrow> Version \<Rightarrow> bool" where
  "zero_at m v \<longleftrightarrow> (\<forall>k i. skadu_view m k i v = 0)"

lemma zero_atD: "zero_at m v \<Longrightarrow> skadu_view m k i v = 0"
  unfolding zero_at_def by blast

lemma zero_atI: "(\<And>k i. skadu_view m k i v = 0) \<Longrightarrow> zero_at m v"
  unfolding zero_at_def by blast

text \<open>
  The invariant, for a program that touches the segments in \<open>H\<close> only. The pointers of the segments
  are those of level tables allocated so far, and no two pages have the same.
\<close>

definition heap_ok :: "Heap \<Rightarrow> bool" where
  "heap_ok h \<longleftrightarrow> (\<forall>p l. h p = Some l \<longrightarrow> level_table_ok l)"

definition entries_ok :: "UInt32 set \<Rightarrow> SparseTableElement list \<Rightarrow> nat \<Rightarrow> bool" where
  "entries_ok H es n \<longleftrightarrow> length es = 32 \<and> n \<le> 32 \<and> card H \<le> 32
     \<and> inj_on (\<lambda>i. addrHigh (es ! i)) {..<n} \<and> (\<forall>i < n. addrHigh (es ! i) \<in> H \<and> elem_segTable (es ! i) \<noteq> None)"

definition segments_in :: "SparseTableElement list \<Rightarrow> Heap \<Rightarrow> bool" where
  "segments_in es h \<longleftrightarrow> (\<forall>e \<in> set es. \<forall>seg. elem_segTable e = Some seg \<longrightarrow> snd ` set seg \<subseteq> dom h)"

lemma segments_inD: "segments_in es h \<Longrightarrow> e \<in> set es \<Longrightarrow> elem_segTable e = Some seg \<Longrightarrow> snd ` set seg \<subseteq> dom h"
  unfolding segments_in_def by blast

lemma segments_in_update:
  assumes "segments_in es h" "dom h \<subseteq> dom h'" "\<And>seg. elem_segTable e = Some seg \<Longrightarrow> snd ` set seg \<subseteq> dom h'"
  shows "segments_in (es[i := e]) h'"
proof -
  have "snd ` set seg \<subseteq> dom h'" if "x \<in> set (es[i := e])" "elem_segTable x = Some seg" for x seg
  proof -
    have "x = e \<or> x \<in> set es" using that(1) set_update_subset_insert [of es i e] by blast
    then show ?thesis
    proof
      assume "x = e"
      then show ?thesis using assms(3) that(2) by blast
    next
      assume "x \<in> set es"
      then show ?thesis using segments_inD [OF assms(1) _ that(2)] assms(2) by blast
    qed
  qed
  then show ?thesis unfolding segments_in_def by blast
qed

definition pointers_ok :: "Platform \<Rightarrow> SparseTableElement list \<Rightarrow> nat \<Rightarrow> Heap \<Rightarrow> bool" where
  "pointers_ok env es k h \<longleftrightarrow> inj (plat_addr env) \<and> dom h \<subseteq> plat_addr env ` {..<k}
     \<and> segments_in es h"

definition pages_distinct :: "SparseTableElement list \<Rightarrow> nat \<Rightarrow> bool" where
  "pages_distinct es n \<longleftrightarrow> (\<forall>a i b j p. page_in es n a i = Some p \<longrightarrow> page_in es n b j = Some p \<longrightarrow> a = b \<and> i = j)"

definition skadu_ok :: "UInt32 set \<Rightarrow> Platform \<Rightarrow> 'c MShadowSkadu \<Rightarrow> bool" where
  "skadu_ok H env m \<longleftrightarrow> \<not> compression_enabled m \<and> stat_ok (mem_stat m) \<and> heap_ok (sk_heap m)
     \<and> entries_ok H (sparse_entry m) (writePtr m)
     \<and> pointers_ok env (sparse_entry m) (n_level_tables m) (sk_heap m)
     \<and> pages_distinct (sparse_entry m) (writePtr m)"

lemma skadu_okD:
  assumes "skadu_ok H env m"
  shows "\<not> compression_enabled m" "stat_ok (mem_stat m)" "heap_ok (sk_heap m)"
    "entries_ok H (sparse_entry m) (writePtr m)"
    "pointers_ok env (sparse_entry m) (n_level_tables m) (sk_heap m)"
    "pages_distinct (sparse_entry m) (writePtr m)"
  using assms by (simp_all add: skadu_ok_def)

section \<open>Finding the segment\<close>

lemma find_entry_find:
  "i + k \<le> length es \<Longrightarrow> find_entry es high i k = Some (find (\<lambda>j. addrHigh (es ! j) = high) [i..<i + k])"
proof (induction k arbitrary: i)
  case (Suc k)
  have "[i..<i + Suc k] = i # [Suc i..<Suc i + k]" by (simp add: upt_conv_Cons)
  with Suc show ?case by (simp add: rd_int)
qed simp

lemma find_entry_of: "n \<le> length es \<Longrightarrow> find_entry es high 0 n = Some (entry_of es n high)"
  by (simp add: find_entry_find entry_of_def)

lemma entry_ofD: "entry_of es n high = Some i \<Longrightarrow> i < n \<and> addrHigh (es ! i) = high"
  by (auto simp: entry_of_def find_Some_iff)

lemma entry_of_None: "entry_of es n high = None \<longleftrightarrow> (\<forall>i < n. addrHigh (es ! i) \<noteq> high)"
  by (auto simp: entry_of_def find_None_iff)

lemma entry_of_inj:
  assumes "inj_on (\<lambda>i. addrHigh (es ! i)) {..<n}" "i < n"
  shows "entry_of es n (addrHigh (es ! i)) = Some i"
proof (cases "entry_of es n (addrHigh (es ! i))")
  case None
  from entry_of_None [THEN iffD1, OF None] show ?thesis using assms(2) by blast
next
  case (Some j)
  then show ?thesis using entry_ofD [OF Some] assms by (auto dest: inj_onD)
qed

text \<open>An entry that is added is found, with no page; the others are found as before.\<close>

lemma entry_of_added:
  assumes "n < length es" "entry_of es n high = None"
  shows "entry_of (es[n := \<lparr>addrHigh = high, elem_segTable = s\<rparr>]) (Suc n) h
    = (if h = high then Some n else entry_of es n h)"
proof -
  let ?es = "es[n := \<lparr>addrHigh = high, elem_segTable = s\<rparr>]"
  have low: "entry_of ?es n h = entry_of es n h" for h
    unfolding entry_of_def by (rule find_cong) auto
  have app: "find P (xs @ ys) = (case find P xs of None \<Rightarrow> find P ys | r \<Rightarrow> r)" for P and xs ys :: "nat list"
    by (induction xs) auto
  have "entry_of ?es (Suc n) h = (case entry_of ?es n h of None \<Rightarrow> if h = high then Some n else None | r \<Rightarrow> r)"
    using assms(1) by (auto simp: entry_of_def app split: option.split)
  with low assms(2) show ?thesis by (auto split: option.split)
qed

lemma page_in_added:
  assumes "n < length es" "entry_of es n high = None"
  shows "page_in (es[n := \<lparr>addrHigh = high, elem_segTable = Some []\<rparr>]) (Suc n) h ix = page_in es n h ix"
proof (cases "h = high")
  case True
  then show ?thesis using assms by (simp add: page_in_def entry_of_added)
next
  case False
  show ?thesis
  proof (cases "entry_of es n h")
    case None
    then show ?thesis using False assms by (simp add: page_in_def entry_of_added)
  next
    case (Some i)
    then have "i \<noteq> n" using entry_ofD [OF Some] by simp
    then show ?thesis using False Some assms by (simp add: page_in_def entry_of_added)
  qed
qed

lemma skadu_view_cong:
  "sk_heap m = sk_heap m' \<Longrightarrow> page_table m = page_table m' \<Longrightarrow> skadu_view m k i v = skadu_view m' k i v"
  by (simp add: skadu_view_def split: prod.split)

lemma getElement_ok:
  assumes "skadu_ok H env m" "addr_high addr \<in> H"
  shows "\<exists>i m'. getElement addr m = Some (i, m') \<and> skadu_ok H env m' \<and> page_table m' = page_table m
    \<and> entry_of (sparse_entry m') (writePtr m') (addr_high addr) = Some i
    \<and> sk_heap m' = sk_heap m \<and> sk_cache m' = sk_cache m"
proof -
  note ok = skadu_okD [OF assms(1)]
  let ?es = "sparse_entry m" and ?n = "writePtr m" and ?h = "addr_high addr"
  have len: "length ?es = 32" "?n \<le> 32" using ok(4) by (simp_all add: entries_ok_def)
  have f: "find_entry ?es ?h 0 ?n = Some (entry_of ?es ?n ?h)" by (rule find_entry_of) (use len in simp)
  show ?thesis
  proof (cases "entry_of ?es ?n ?h")
    case (Some i)
    then show ?thesis using f assms(1) by (simp add: getElement_def Let_def)
  next
    case None
    let ?es' = "?es[?n := \<lparr>addrHigh = ?h, elem_segTable = Some []\<rparr>]"
    have "(\<lambda>i. addrHigh (?es ! i)) ` {..<?n} \<subseteq> H - {?h}"
      using ok(4) None by (auto simp: entries_ok_def entry_of_None)
    then have "card ((\<lambda>i. addrHigh (?es ! i)) ` {..<?n}) \<le> card (H - {?h})" by (intro card_mono) auto
    moreover have "card (H - {?h}) < card H" using assms(2) by (intro psubset_card_mono) auto
    ultimately have n: "?n < 32" using ok(4) by (simp add: entries_ok_def card_image)
    have pg: "page_in ?es' (Suc ?n) = page_in ?es ?n"
      using page_in_added [of ?n ?es ?h] n len None by (intro ext) simp
    let ?m = "m\<lparr>sparse_entry := ?es', mem_stat := eventSegTableAlloc (mem_stat m), writePtr := ?n + 1\<rparr>"
    have "entries_ok H ?es' (Suc ?n)"
    proof -
      have "inj_on (\<lambda>i. addrHigh (?es' ! i)) {..<Suc ?n}"
        using ok(4) None n len by (auto simp: entries_ok_def inj_on_def nth_list_update entry_of_None less_Suc_eq)
      then show ?thesis using ok(4) n len assms(2) by (auto simp: entries_ok_def nth_list_update less_Suc_eq)
    qed
    moreover have "pointers_ok env ?es' (n_level_tables m) (sk_heap m)"
      using ok(5) segments_in_update [of ?es "sk_heap m" "sk_heap m" "\<lparr>addrHigh = ?h, elem_segTable = Some []\<rparr>"]
      by (simp add: pointers_ok_def)
    moreover have "pages_distinct ?es' (Suc ?n)" using ok(6) by (simp add: pages_distinct_def pg)
    ultimately have "skadu_ok H env ?m" using ok by (simp add: skadu_ok_def)
    moreover have "getElement addr m = Some (?n, ?m)"
      using f None n len by (simp add: getElement_def Let_def wr_int)
    moreover have "entry_of ?es' (Suc ?n) ?h = Some ?n" using n len None by (simp add: entry_of_added)
    ultimately show ?thesis using pg by auto
  qed
qed

section \<open>Finding the level table\<close>

lemma map_of_setLevelTable [simp]: "map_of (setLevelTableAtIndex p i s) = (map_of s)(i \<mapsto> p)"
  by (induction p i s rule: setLevelTableAtIndex.induct) (auto simp: fun_eq_iff)

lemma set_setLevelTable: "snd ` set (setLevelTableAtIndex p i s) \<subseteq> insert p (snd ` set s)"
  by (induction p i s rule: setLevelTableAtIndex.induct) auto

definition put_page :: "SparseTableElement list \<Rightarrow> nat \<Rightarrow> LT_ptr \<Rightarrow> nat \<Rightarrow> MemorySegment \<Rightarrow> SparseTableElement list" where
  "put_page es i p ix seg = es[i := (es ! i)\<lparr>elem_segTable := Some (setLevelTableAtIndex p ix seg)\<rparr>]"

lemma put_page_high: "addrHigh (put_page es i p ix seg ! j) = addrHigh (es ! j)"
  by (cases "i < length es"; cases "i = j") (simp_all add: put_page_def list_update_beyond)

lemma entry_of_put_page: "entry_of (put_page es i p ix seg) n h = entry_of es n h"
  by (simp add: entry_of_def put_page_high)

lemma page_in_put_page:
  assumes "entry_of es n high = Some i" "elem_segTable (es ! i) = Some seg" "i < length es"
  shows "page_in (put_page es i p ix seg) n h j = (if h = high \<and> j = ix then Some p else page_in es n h j)"
proof (cases "entry_of es n h")
  case None
  then have "h \<noteq> high" using assms(1) by auto
  then show ?thesis using None by (simp add: page_in_def entry_of_put_page)
next
  case (Some k)
  show ?thesis
  proof (cases "h = high")
    case True
    then have "k = i" using Some assms(1) by simp
    then show ?thesis using True assms by (simp add: page_in_def entry_of_put_page) (simp add: put_page_def)
  next
    case False
    then have "i \<noteq> k" using entry_ofD [OF Some] entry_ofD [OF assms(1)] by blast
    then show ?thesis using False Some by (simp add: page_in_def entry_of_put_page) (simp add: put_page_def)
  qed
qed

lemma page_in_heap:
  assumes "pointers_ok env es k h" "page_in es n high ix = Some p" "n \<le> length es"
  shows "p \<in> dom h"
proof -
  obtain i seg where i: "entry_of es n high = Some i" "elem_segTable (es ! i) = Some seg" "map_of seg ix = Some p"
    using assms(2) by (auto simp: page_in_def bind_eq_Some_conv)
  have "es ! i \<in> set es" using entry_ofD [OF i(1)] assms(3) by simp
  then have "snd ` set seg \<subseteq> dom h" using assms(1) i(2) segments_inD unfolding pointers_ok_def by blast
  then show ?thesis using map_of_SomeD [OF i(3)] by force
qed

lemma table_time_new:
  "off < 512 \<Longrightarrow> i < 64 \<Longrightarrow> table_time (h(p \<mapsto> LevelTable_new c)) (Some p) off i v = 0"
  by (simp add: table_time_def)

lemma new_level_table_ok:
  assumes "skadu_ok H env m" "entry_of (sparse_entry m) (writePtr m) high = Some i"
    and "elem_segTable (sparse_entry m ! i) = Some seg" "map_of seg ix = None"
  shows "\<exists>p m'. new_level_table env i ix seg m = Some (p, m') \<and> skadu_ok H env m'
    \<and> page_table m' high ix = Some p \<and> (\<forall>k j v. skadu_view m' k j v = skadu_view m k j v) \<and> sk_cache m' = sk_cache m"
proof -
  note ok = skadu_okD [OF assms(1)]
  let ?es = "sparse_entry m" and ?n = "writePtr m" and ?k = "n_level_tables m"
  let ?p = "plat_addr env ?k"
  have len: "length ?es = 32" "?n \<le> 32" using ok(4) by (simp_all add: entries_ok_def)
  have i: "i < ?n" "i < length ?es" using entry_ofD [OF assms(2)] len by auto
  let ?es' = "put_page ?es i ?p ix seg"
  let ?h = "(sk_heap m)(?p \<mapsto> LevelTable_new (plat_mem env ?k))"
  let ?m = "m\<lparr>sk_heap := ?h, mem_stat := eventLevelTableAlloc (mem_stat m), sparse_entry := ?es', n_level_tables := ?k + 1\<rparr>"
  have fresh: "?p \<notin> dom (sk_heap m)"
    using ok(5) by (auto simp: pointers_ok_def dest: injD)
  note pg = page_in_put_page [OF assms(2,3) i(2), of ?p ix]
  have old: "page_table m high ix = None" using assms(2-4) by (simp add: page_in_def)
  have nop: "page_table m a j \<noteq> Some ?p" for a j
    using page_in_heap [OF ok(5), of ?n a j ?p] fresh len by auto
  have "new_level_table env i ix seg m = Some (?p, ?m)"
    using ok(1) i by (simp add: new_level_table_def rd_int wr_int put_page_def Let_def)
  moreover have "skadu_ok H env ?m"
  proof -
    have "heap_ok ?h" using ok(3) by (simp add: heap_ok_def)
    moreover have "entries_ok H ?es' ?n"
      using ok(4) i by (auto simp: entries_ok_def put_page_high) (auto simp: put_page_def nth_list_update)
    moreover have "pointers_ok env ?es' (?k + 1) ?h"
    proof -
      have seg: "snd ` set seg \<subseteq> dom (sk_heap m)"
        using ok(5) assms(3) i(2) segments_inD [of ?es "sk_heap m" "?es ! i" seg] by (simp add: pointers_ok_def)
      have "segments_in ?es' ?h"
        unfolding put_page_def
      proof (rule segments_in_update)
        show "segments_in ?es (sk_heap m)" using ok(5) by (simp add: pointers_ok_def)
        show "dom (sk_heap m) \<subseteq> dom ?h" by auto
        fix s assume "elem_segTable ((?es ! i)\<lparr>elem_segTable := Some (setLevelTableAtIndex ?p ix seg)\<rparr>) = Some s"
        then have "snd ` set s \<subseteq> insert ?p (snd ` set seg)" using set_setLevelTable [of ?p ix seg] by simp
        also have "\<dots> \<subseteq> dom ?h" using seg by auto
        finally show "snd ` set s \<subseteq> dom ?h" .
      qed
      moreover have "dom ?h \<subseteq> plat_addr env ` {..<?k + 1}" using ok(5) by (auto simp: pointers_ok_def lessThan_Suc)
      ultimately show ?thesis using ok(5) unfolding pointers_ok_def by blast
    qed
    moreover have "pages_distinct ?es' ?n"
      using ok(6) nop unfolding pages_distinct_def pg by (auto split: if_splits)
    ultimately show ?thesis using ok by (simp add: skadu_ok_def)
  qed
  moreover have "page_table ?m high ix = Some ?p" by (simp add: pg)
  moreover have "skadu_view ?m k j v = skadu_view m k j v" for k j v
  proof (cases k)
    case (fields a b off)
    show ?thesis
    proof (cases "a = high \<and> b = ix")
      case True
      then show ?thesis using fields old by (simp add: skadu_view_def pg table_time_new) (simp add: table_time_def)
    next
      case False
      have "table_time ?h (page_table m a b) off j v = table_time (sk_heap m) (page_table m a b) off j v"
        using nop [of a b] by (cases "page_table m a b") (auto simp: table_time_def)
      moreover have "page_in ?es' ?n a b = page_table m a b" using pg [of a b] False by auto
      ultimately show ?thesis using fields by (simp add: skadu_view_def)
    qed
  qed
  moreover have "sk_cache ?m = sk_cache m" by simp
  ultimately show ?thesis by blast
qed

text \<open>The level table of an address is found or made; nothing stored is lost.\<close>

lemma getLevelTable_ok:
  assumes "skadu_ok H env m" "addr_high addr \<in> H"
  shows "\<exists>p m'. getLevelTable env addr vs m = Some (p, m') \<and> skadu_ok H env m'
    \<and> page_table m' (addr_high addr) (GetIndex addr) = Some p
    \<and> (\<forall>k j v. skadu_view m' k j v = skadu_view m k j v) \<and> sk_cache m' = sk_cache m"
proof -
  obtain i m1 where m1: "getElement addr m = Some (i, m1)" "skadu_ok H env m1" "page_table m1 = page_table m"
    "entry_of (sparse_entry m1) (writePtr m1) (addr_high addr) = Some i"
    "sk_heap m1 = sk_heap m" "sk_cache m1 = sk_cache m"
    using getElement_ok [OF assms] by blast
  note ok = skadu_okD [OF m1(2)]
  have v1: "skadu_view m1 k j v = skadu_view m k j v" for k j v by (rule skadu_view_cong [OF m1(5,3)])
  have len: "length (sparse_entry m1) = 32" "writePtr m1 \<le> 32" using ok(4) by (simp_all add: entries_ok_def)
  have i: "i < writePtr m1" using entry_ofD [OF m1(4)] by simp
  then obtain seg where seg: "elem_segTable (sparse_entry m1 ! i) = Some seg"
    using ok(4) by (auto simp: entries_ok_def)
  have rdi: "rd (sparse_entry m1) (int i) = Some (sparse_entry m1 ! i)" using i len by (simp add: rd_int)
  have ready: "ready_level_table env vs p m' = Some m'"
    if "skadu_ok H env m'" "page_table m' (addr_high addr) (GetIndex addr) = Some p" for p m'
  proof -
    note ok' = skadu_okD [OF that(1)]
    have "p \<in> dom (sk_heap m')" by (rule page_in_heap [OF ok'(5) that(2)]) (use ok'(4) in \<open>simp add: entries_ok_def\<close>)
    then show ?thesis using ok'(1) by (auto simp: ready_level_table_def)
  qed
  show ?thesis
  proof (cases "map_of seg (GetIndex addr)")
    case (Some p)
    have pg: "page_table m1 (addr_high addr) (GetIndex addr) = Some p"
      using m1(4) seg Some by (simp add: page_in_def)
    then show ?thesis using m1 rdi seg Some ready [OF m1(2) pg] v1
      by (simp add: getLevelTable_def getLevelTableAtIndex_def Let_def)
  next
    case None
    from new_level_table_ok [OF m1(2,4) seg None] obtain p m2 where m2:
      "new_level_table env i (GetIndex addr) seg m1 = Some (p, m2)" "skadu_ok H env m2"
      "page_table m2 (addr_high addr) (GetIndex addr) = Some p"
      "\<forall>k j v. skadu_view m2 k j v = skadu_view m1 k j v" "sk_cache m2 = sk_cache m1" by blast
    then show ?thesis using m1(1,6) rdi seg None ready [OF m2(2,3)] v1
      by (simp add: getLevelTable_def getLevelTableAtIndex_def Let_def)
  qed
qed

section \<open>Reading and writing a level\<close>

lemma level_time_offset:
  assumes "level_table_ok l" "i < 64" "page_offset a = page_offset b"
  shows "level_time l i a v = level_time l i b v"
  using assms(1,2)
proof (cases rule: level_table_slot)
  case (tab t)
  have "getTimeAtAddr t a = getTimeAtAddr t b"
    using tab assms(3) by (simp add: getTimeAtAddr_def getIndex_page)
  then show ?thesis using tab by (simp add: level_time_def)
qed (simp add: level_time_def)

lemma page_level_table:
  assumes "skadu_ok H env m" "page_table m high ix = Some p"
  obtains l where "sk_heap m p = Some l" "level_table_ok l"
proof -
  note ok = skadu_okD [OF assms(1)]
  have "p \<in> dom (sk_heap m)" by (rule page_in_heap [OF ok(5) assms(2)]) (use ok(4) in \<open>simp add: entries_ok_def\<close>)
  then obtain l where "sk_heap m p = Some l" by blast
  with ok(3) that show ?thesis by (auto simp: heap_ok_def)
qed

lemma view_of_page:
  assumes "sk_heap m p = Some l" "page_table m (addr_high a) (GetIndex a) = Some p" "level_table_ok l" "i < 64"
  shows "skadu_view m (place_of a) i v = level_time l i a v"
  using assms level_time_offset [OF assms(3,4), of "of_nat (8 * page_offset a)" a]
  by (simp add: skadu_view_def place_of_def table_time_def page_offset_rep del: of_nat_mult)

lemma read_level_ok:
  assumes "skadu_ok H env m" "page_table m (addr_high a) (GetIndex a) = Some p" "i < 64" "i < length vs"
  shows "read_level p a vs i m = Some (skadu_view m (place_of a) i (vs ! i))"
proof -
  obtain l where l: "sk_heap m p = Some l" "level_table_ok l" by (rule page_level_table [OF assms(1,2)])
  show ?thesis
    using l assms(4) getTimeForAddrAtLevel_ok [OF l(2) assms(3)] view_of_page [OF l(1) assms(2) l(2) assms(3)]
    by (simp add: read_level_def rd_int)
qed

lemma heap_ok_upd: "heap_ok h \<Longrightarrow> level_table_ok l \<Longrightarrow> heap_ok (h(p \<mapsto> l))"
  by (simp add: heap_ok_def)

lemma pointers_ok_upd: "pointers_ok env es k h \<Longrightarrow> h p = Some l \<Longrightarrow> pointers_ok env es k (h(p \<mapsto> l'))"
  by (auto simp: pointers_ok_def segments_in_def insert_absorb domI)

lemma write_level_ok:
  assumes "skadu_ok H env m" "page_table m (addr_high a) (GetIndex a) = Some p" "i < 64" "i < length vs"
  shows "\<exists>m'. write_level p a vs val TYPE_64BIT i m = Some m' \<and> skadu_ok H env m'
    \<and> page_table m' = page_table m \<and> sk_cache m' = sk_cache m
    \<and> (\<forall>k j. j < length vs \<longrightarrow> skadu_view m' k j (vs ! j)
        = (if k = place_of a \<and> j = i then val else skadu_view m k j (vs ! j)))
    \<and> (\<forall>v. v \<noteq> vs ! i \<longrightarrow> zero_at m v \<longrightarrow> zero_at m' v)"
proof -
  note ok = skadu_okD [OF assms(1)]
  obtain l where l: "sk_heap m p = Some l" "level_table_ok l" by (rule page_level_table [OF assms(1,2)])
  obtain l' st' where w: "setTimeForAddrAtLevel 512 (int i) a (vs ! i) val TYPE_64BIT (l, mem_stat m) = Some (l', st')"
    "level_table_ok l'" "stat_ok st'"
    "\<forall>j b w. level_time l' j b w = (if j \<noteq> i then level_time l j b w else if w \<noteq> vs ! i then 0
       else if page_offset b = page_offset a then val else level_time l i b (vs ! i))"
    using level_write_refines_lemma [OF l(2) ok(2) assms(3) order_refl] by blast
  let ?m = "m\<lparr>sk_heap := (sk_heap m)(p \<mapsto> l'), mem_stat := st'\<rparr>"
  have "write_level p a vs val TYPE_64BIT i m = Some ?m"
    using l assms(4) w(1) by (simp add: write_level_def rd_int)
  moreover have "skadu_ok H env ?m"
    using ok w(2,3) heap_ok_upd [OF ok(3) w(2)] pointers_ok_upd [OF ok(5) l(1)] by (simp add: skadu_ok_def)
  moreover have "skadu_view ?m k j (vs ! j) = (if k = place_of a \<and> j = i then val else skadu_view m k j (vs ! j))"
    for k j
  proof (cases k)
    case (fields high ix off)
    show ?thesis
    proof (cases "page_table m high ix = Some p \<and> off < 512 \<and> j < 64")
      case False
      have "k \<noteq> place_of a \<or> j \<noteq> i" using False assms(2,3) fields by (auto simp: place_of_def)
      moreover have "table_time ((sk_heap m)(p \<mapsto> l')) (page_table m high ix) off j (vs ! j)
          = table_time (sk_heap m) (page_table m high ix) off j (vs ! j)" if "off < 512" "j < 64"
        using False that by (cases "page_table m high ix") (auto simp: table_time_def)
      ultimately show ?thesis using fields by (auto simp: skadu_view_def)
    next
      case True
      then have hi: "high = addr_high a" "ix = GetIndex a"
        using ok(6) assms(2) unfolding pages_distinct_def by blast+
      have new: "skadu_view ?m k j (vs ! j) = level_time l' j (of_nat (8 * off)) (vs ! j)"
        and old: "skadu_view m k j (vs ! j) = level_time l j (of_nat (8 * off)) (vs ! j)"
        using True fields l(1) by (simp_all add: skadu_view_def table_time_def)
      have "page_offset (of_nat (8 * off)) = off" using True by (intro page_offset_rep) simp
      then show ?thesis unfolding new old using w(4) fields hi by (auto simp: place_of_def simp del: of_nat_mult)
    qed
  qed
  moreover have "zero_at ?m v" if v: "v \<noteq> vs ! i" "zero_at m v" for v
  proof -
    have "skadu_view ?m k j v = 0" for k j
    proof (cases k)
      case (fields high ix off)
      have old: "skadu_view m k j v = 0" by (rule zero_atD [OF v(2)])
      show ?thesis
      proof (cases "page_table m high ix = Some p \<and> off < 512 \<and> j < 64")
        case False
        have "table_time ((sk_heap m)(p \<mapsto> l')) (page_table m high ix) off j v
            = table_time (sk_heap m) (page_table m high ix) off j v" if "off < 512" "j < 64"
          using False that by (cases "page_table m high ix") (auto simp: table_time_def)
        then show ?thesis using old fields by (auto simp: skadu_view_def)
      next
        case True
        then have "skadu_view ?m k j v = level_time l' j (of_nat (8 * off)) v"
          and "skadu_view m k j v = level_time l j (of_nat (8 * off)) v"
          using fields l(1) by (simp_all add: skadu_view_def table_time_def)
        then show ?thesis using w(4) v(1) old by simp
      qed
    qed
    then show ?thesis by (rule zero_atI)
  qed
  ultimately show ?thesis by (intro exI [where x = ?m] conjI allI impI) simp_all
qed

section \<open>Garbage collection\<close>

text \<open>What a collection may do to the heap: every current time is kept.\<close>

definition keeps_current :: "Version list \<Rightarrow> nat \<Rightarrow> Heap \<Rightarrow> Heap \<Rightarrow> bool" where
  "keeps_current vs n h h' \<longleftrightarrow> dom h' = dom h \<and> heap_ok h'
     \<and> (\<forall>p l l'. h p = Some l \<longrightarrow> h' p = Some l' \<longrightarrow>
          (\<forall>i < n. \<forall>b. level_time l' i b (vs ! i) = level_time l i b (vs ! i))
          \<and> (\<forall>i < 64. \<forall>b w. level_time l' i b w = 0 \<or> level_time l' i b w = level_time l i b w))"

lemma keeps_current_refl: "heap_ok h \<Longrightarrow> keeps_current vs n h h"
  by (simp add: keeps_current_def)

lemma keeps_current_trans:
  assumes "keeps_current vs n h1 h2" "keeps_current vs n h2 h3"
  shows "keeps_current vs n h1 h3"
proof -
  have "(\<forall>i < n. \<forall>b. level_time l3 i b (vs ! i) = level_time l1 i b (vs ! i))
      \<and> (\<forall>i < 64. \<forall>b w. level_time l3 i b w = 0 \<or> level_time l3 i b w = level_time l1 i b w)"
    if "h1 p = Some l1" "h3 p = Some l3" for p l1 l3
  proof -
    have "p \<in> dom h2" using that(1) assms(1) by (auto simp: keeps_current_def)
    then obtain l2 where l2: "h2 p = Some l2" by blast
    have 12: "\<forall>i < n. \<forall>b. level_time l2 i b (vs ! i) = level_time l1 i b (vs ! i)"
      "\<forall>i < 64. \<forall>b w. level_time l2 i b w = 0 \<or> level_time l2 i b w = level_time l1 i b w"
      using assms(1) that(1) l2 by (simp_all add: keeps_current_def)
    have 23: "\<forall>i < n. \<forall>b. level_time l3 i b (vs ! i) = level_time l2 i b (vs ! i)"
      "\<forall>i < 64. \<forall>b w. level_time l3 i b w = 0 \<or> level_time l3 i b w = level_time l2 i b w"
      using assms(2) that(2) l2 by (simp_all add: keeps_current_def)
    from 12 23 show ?thesis by metis
  qed
  then show ?thesis using assms by (simp add: keeps_current_def)
qed

lemma collect_table_ok:
  assumes "heap_ok h" "stat_ok st" "n \<le> 64" "n \<le> length vs" "p \<in> dom h"
  shows "\<exists>h' st'. collect_table vs n p (h, st) = Some (h', st') \<and> keeps_current vs n h h' \<and> stat_ok st'"
proof -
  obtain l where l: "h p = Some l" "level_table_ok l" using assms(1,5) by (auto simp: heap_ok_def)
  obtain l' st' where g: "collectGarbageWithinBounds vs n (l, st) = Some (l', st')" "level_table_ok l'" "stat_ok st'"
    "\<forall>i < n. \<forall>b. level_time l' i b (vs ! i) = level_time l i b (vs ! i)"
    "\<forall>i < 64. \<forall>b w. level_time l' i b w = 0 \<or> level_time l' i b w = level_time l i b w"
    using gc_keeps_current_lemma [OF l(2) assms(2-4)] by blast
  have "keeps_current vs n h (h(p \<mapsto> l'))"
    using l(1) g(2,4,5) assms(1) by (auto simp: keeps_current_def heap_ok_upd insert_absorb domI)
  with l(1) g show ?thesis by (simp add: collect_table_def)
qed

lemma collect_segment_ok:
  "heap_ok h \<Longrightarrow> stat_ok st \<Longrightarrow> n \<le> 64 \<Longrightarrow> n \<le> length vs \<Longrightarrow> snd ` set seg \<subseteq> dom h \<Longrightarrow>
   \<exists>h' st'. collect_segment vs n seg (h, st) = Some (h', st') \<and> keeps_current vs n h h' \<and> stat_ok st'"
proof (induction seg arbitrary: h st)
  case Nil
  then show ?case by (simp add: keeps_current_refl)
next
  case (Cons e seg)
  obtain i p where e: "e = (i, p)" by (cases e)
  obtain h1 st1 where 1: "collect_table vs n p (h, st) = Some (h1, st1)" "keeps_current vs n h h1" "stat_ok st1"
    using collect_table_ok [OF Cons.prems(1-4), of p] Cons.prems(5) e by auto
  have ok: "heap_ok h1" and d: "dom h1 = dom h" using 1(2) by (simp_all add: keeps_current_def)
  have "snd ` set seg \<subseteq> dom h1" using Cons.prems(5) d by auto
  from Cons.IH [OF ok 1(3) Cons.prems(3,4) this] obtain h2 st2 where
    2: "collect_segment vs n seg (h1, st1) = Some (h2, st2)" "keeps_current vs n h1 h2" "stat_ok st2" by blast
  show ?case using 1(1) 2 keeps_current_trans [OF 1(2) 2(2)] e by simp
qed

lemma collect_segments_ok:
  "heap_ok h \<Longrightarrow> stat_ok st \<Longrightarrow> n \<le> 64 \<Longrightarrow> n \<le> length vs \<Longrightarrow> segments_in es h \<Longrightarrow>
   \<exists>h' st'. collect_segments vs n es (h, st) = Some (h', st') \<and> keeps_current vs n h h' \<and> stat_ok st'"
proof (induction es arbitrary: h st)
  case Nil
  then show ?case by (simp add: keeps_current_refl)
next
  case (Cons e es)
  have "\<exists>h1 st1. (case elem_segTable e of None \<Rightarrow> Some (h, st) | Some seg \<Rightarrow> collect_segment vs n seg (h, st))
      = Some (h1, st1) \<and> keeps_current vs n h h1 \<and> stat_ok st1"
  proof (cases "elem_segTable e")
    case None
    then show ?thesis using Cons.prems by (simp add: keeps_current_refl)
  next
    case (Some seg)
    have "snd ` set seg \<subseteq> dom h" by (rule segments_inD [OF Cons.prems(5) _ Some]) simp
    then show ?thesis using collect_segment_ok [OF Cons.prems(1-4)] Some by simp
  qed
  then obtain h1 st1 where 1: "(case elem_segTable e of None \<Rightarrow> Some (h, st) | Some seg \<Rightarrow> collect_segment vs n seg (h, st))
      = Some (h1, st1)" "keeps_current vs n h h1" "stat_ok st1" by blast
  have ok: "heap_ok h1" and d: "dom h1 = dom h" using 1(2) by (simp_all add: keeps_current_def)
  have "segments_in es h1" using Cons.prems(5) d by (simp add: segments_in_def)
  from Cons.IH [OF ok 1(3) Cons.prems(3,4) this] obtain h2 st2 where
    2: "collect_segments vs n es (h1, st1) = Some (h2, st2)" "keeps_current vs n h1 h2" "stat_ok st2" by blast
  show ?case using 1(1) 2 keeps_current_trans [OF 1(2) 2(2)] by simp
qed

lemma runGarbageCollector_ok:
  assumes "skadu_ok H env m" "n \<le> 64" "n \<le> length vs"
  shows "\<exists>m'. runGarbageCollector vs n m = Some m' \<and> skadu_ok H env m' \<and> sk_cache m' = sk_cache m
    \<and> (\<forall>k i. i < n \<longrightarrow> skadu_view m' k i (vs ! i) = skadu_view m k i (vs ! i))
    \<and> (\<forall>v. zero_at m v \<longrightarrow> zero_at m' v)"
proof -
  note ok = skadu_okD [OF assms(1)]
  have seg: "segments_in (take 32 (sparse_entry m)) (sk_heap m)"
    using ok(4,5) by (simp add: entries_ok_def pointers_ok_def)
  have st: "stat_ok (eventGC (mem_stat m))" using ok(2) by simp
  obtain h st' where g: "collect_segments vs n (take 32 (sparse_entry m)) (sk_heap m, eventGC (mem_stat m)) = Some (h, st')"
    "keeps_current vs n (sk_heap m) h" "stat_ok st'"
    using collect_segments_ok [OF ok(3) st assms(2,3) seg] by blast
  let ?m = "m\<lparr>sk_heap := h, mem_stat := st'\<rparr>"
  have "runGarbageCollector vs n m = Some ?m"
    using g(1) by (simp add: runGarbageCollector_def SPARSE_ENTRIES_def)
  moreover have "skadu_ok H env ?m"
    using ok g(2,3) by (simp add: skadu_ok_def keeps_current_def pointers_ok_def segments_in_def)
  moreover have "skadu_view ?m k i (vs ! i) = skadu_view m k i (vs ! i)" if "i < n" for k i
  proof (cases k)
    case (fields high ix off)
    have "table_time h (page_table m high ix) off i (vs ! i) = table_time (sk_heap m) (page_table m high ix) off i (vs ! i)"
    proof (cases "page_table m high ix")
      case (Some p)
      have "p \<in> dom (sk_heap m)" by (rule page_in_heap [OF ok(5) Some]) (use ok(4) in \<open>simp add: entries_ok_def\<close>)
      moreover have "dom h = dom (sk_heap m)" using g(2) by (simp add: keeps_current_def)
      ultimately obtain l l' where "sk_heap m p = Some l" "h p = Some l'" by (metis domD)
      then show ?thesis using g(2) that Some by (simp add: table_time_def keeps_current_def)
    qed (simp add: table_time_def)
    then show ?thesis using fields by (simp add: skadu_view_def)
  qed
  moreover have "zero_at ?m v" if v: "zero_at m v" for v
  proof -
    have "skadu_view ?m k i v = 0" for k i
    proof (cases k)
      case (fields high ix off)
      have old: "skadu_view m k i v = 0" by (rule zero_atD [OF v])
      show ?thesis
      proof (cases "off < 512 \<and> i < 64")
        case True
        have "table_time h (page_table m high ix) off i v = 0"
        proof (cases "page_table m high ix")
          case (Some p)
          have "p \<in> dom (sk_heap m)" by (rule page_in_heap [OF ok(5) Some]) (use ok(4) in \<open>simp add: entries_ok_def\<close>)
          moreover have "dom h = dom (sk_heap m)" using g(2) by (simp add: keeps_current_def)
          ultimately obtain l l' where ll: "sk_heap m p = Some l" "h p = Some l'" by (metis domD)
          then have "level_time l i (of_nat (8 * off)) v = 0"
            using old fields True Some by (simp add: skadu_view_def table_time_def)
          moreover have "level_time l' i b w = 0 \<or> level_time l' i b w = level_time l i b w" for b w
            using g(2) ll True by (simp add: keeps_current_def)
          ultimately have "level_time l' i (of_nat (8 * off)) v = 0" by metis
          then show ?thesis using ll Some by (simp add: table_time_def)
        qed (simp add: table_time_def)
        then show ?thesis using fields by (simp add: skadu_view_def)
      qed (use fields in \<open>auto simp: skadu_view_def\<close>)
    qed
    then show ?thesis by (rule zero_atI)
  qed
  ultimately show ?thesis by (intro exI [where x = ?m] conjI allI impI) simp_all
qed

end
