(* ===== verification/SkaduNull.thy ===== *)
theory SkaduNull
  imports SkaduSpec TimestampSpec
begin

text \<open>
  \<open>MShadowSkadu\<close> with \<open>NullCache\<close> is a shadow memory: the interpretation of the contract, and what
  follows for the profiler's stores and loads.
\<close>

section \<open>The cache that does not cache\<close>

definition null_ok :: "UInt32 set \<Rightarrow> Platform \<Rightarrow> NullCache MShadowSkadu \<Rightarrow> bool" where
  "null_ok H env m \<longleftrightarrow> skadu_ok H env m \<and> length (sk_cache m) = 1000"

definition skadu_args :: "UInt32 set \<Rightarrow> Addr \<Rightarrow> Index \<Rightarrow> Version list \<Rightarrow> UInt32 \<Rightarrow> bool" where
  "skadu_args H a n vs sz \<longleftrightarrow> addr_high a \<in> H \<and> unat n \<le> 64 \<and> unat n \<le> length vs"

definition word_place :: "Addr \<Rightarrow> UInt32 \<Rightarrow> place" where
  "word_place a sz = place_of a"

lemma touch_table_off: "\<not> compression_enabled m \<Longrightarrow> touch_table p m = Some m"
  by (simp add: touch_table_def)

lemma skadu_ok_frame [frame_simps]:
  "skadu_ok H env (m\<lparr>sk_cache := c\<rparr>) = skadu_ok H env m"
  "skadu_ok H env (m\<lparr>cache_stat := cs\<rparr>) = skadu_ok H env m"
  "skadu_ok H env (m\<lparr>next_gc_time := t\<rparr>) = skadu_ok H env m"
  "skadu_view (m\<lparr>sk_cache := c\<rparr>) = skadu_view m"
  "skadu_view (m\<lparr>cache_stat := cs\<rparr>) = skadu_view m"
  "skadu_view (m\<lparr>next_gc_time := t\<rparr>) = skadu_view m"
  by (simp_all add: skadu_ok_def) (intro ext skadu_view_cong; simp)+

lemma zero_at_cong: "(\<And>k i. skadu_view m' k i v = skadu_view m k i v) \<Longrightarrow> zero_at m' v = zero_at m v"
  unfolding zero_at_def by simp

lemma null_get_loop:
  assumes "null_ok H env m" "page_table m (addr_high a) (GetIndex a) = Some p" "n \<le> 64" "n \<le> length vs"
  shows "\<exists>c. for_range 0 n (null_get_level p a vs) m = Some (m\<lparr>sk_cache := c\<rparr>) \<and> length c = 1000
    \<and> (\<forall>i < n. c ! i = skadu_view m (place_of a) i (vs ! i))"
proof -
  let ?I = "\<lambda>j s. \<exists>c. s = m\<lparr>sk_cache := c\<rparr> \<and> length c = 1000
    \<and> (\<forall>i < j. c ! i = skadu_view m (place_of a) i (vs ! i))"
  have ok: "skadu_ok H env m" "length (sk_cache m) = 1000" using assms(1) by (simp_all add: null_ok_def)
  have "\<exists>s. for_range 0 n (null_get_level p a vs) m = Some s \<and> ?I (0 + n) s"
  proof (rule for_range_rule)
    show "?I 0 m" using ok(2) by (intro exI [where x = "sk_cache m"]) simp
  next
    fix j s assume j: "j < 0 + n" and "?I j s"
    then obtain c where c: "s = m\<lparr>sk_cache := c\<rparr>" "length c = 1000"
      "\<forall>i < j. c ! i = skadu_view m (place_of a) i (vs ! i)" by blast
    let ?t = "skadu_view m (place_of a) j (vs ! j)"
    have "read_level p a vs j s = Some ?t"
      using read_level_ok [of H env s a p j vs] ok(1) assms j c(1) by (simp add: frame_simps)
    then have "null_get_level p a vs j s = Some (m\<lparr>sk_cache := c[j := ?t]\<rparr>)"
      using c(1,2) j assms(3) by (simp add: null_get_level_def wr_int)
    moreover have "(c[j := ?t]) ! i = skadu_view m (place_of a) i (vs ! i)" if "i < Suc j" for i
      using that c(2,3) j assms(3) by (cases "i = j") auto
    ultimately show "\<exists>s'. null_get_level p a vs j s = Some s' \<and> ?I (Suc j) s'" using c(2) by auto
  qed
  then show ?thesis by auto
qed

lemma null_set_loop:
  assumes "skadu_ok H env m" "page_table m (addr_high a) (GetIndex a) = Some p" "n \<le> 64" "n \<le> length vs" "n \<le> length ts"
  shows "\<exists>m'. for_range 0 n (null_set_level p a vs ts TYPE_64BIT) m = Some m' \<and> skadu_ok H env m'
    \<and> sk_cache m' = sk_cache m
    \<and> (\<forall>k i. i < n \<longrightarrow> skadu_view m' k i (vs ! i) = (if k = place_of a then ts ! i else skadu_view m k i (vs ! i)))
    \<and> (\<forall>v. v \<notin> set (take n vs) \<longrightarrow> zero_at m v \<longrightarrow> zero_at m' v)"
proof -
  let ?I = "\<lambda>j s. skadu_ok H env s \<and> sk_cache s = sk_cache m \<and> page_table s = page_table m
    \<and> (\<forall>k i. i < n \<longrightarrow> skadu_view s k i (vs ! i)
        = (if k = place_of a \<and> i < j then ts ! i else skadu_view m k i (vs ! i)))
    \<and> (\<forall>v. v \<notin> set (take n vs) \<longrightarrow> zero_at m v \<longrightarrow> zero_at s v)"
  have "\<exists>s. for_range 0 n (null_set_level p a vs ts TYPE_64BIT) m = Some s \<and> ?I (0 + n) s"
  proof (rule for_range_rule)
    show "?I 0 m" using assms(1) by simp
  next
    fix j s assume j: "j < 0 + n" and I: "?I j s"
    have pg: "page_table s (addr_high a) (GetIndex a) = Some p" using I assms(2) by simp
    have b: "j < 64" "j < length vs" "j < length ts" using j assms by auto
    obtain s' where s': "write_level p a vs (ts ! j) TYPE_64BIT j s = Some s'" "skadu_ok H env s'"
      "page_table s' = page_table s" "sk_cache s' = sk_cache s"
      "\<forall>k i. i < length vs \<longrightarrow> skadu_view s' k i (vs ! i)
        = (if k = place_of a \<and> i = j then ts ! j else skadu_view s k i (vs ! i))"
      "\<forall>v. v \<noteq> vs ! j \<longrightarrow> zero_at s v \<longrightarrow> zero_at s' v"
      using write_level_ok [OF _ pg b(1,2), of H env "ts ! j"] I by blast
    have "vs ! j \<in> set (take n vs)"
      using j b(2) by (metis add_0 in_set_conv_nth length_take min_less_iff_conj nth_take)
    then have z: "zero_at s' v" if "v \<notin> set (take n vs)" "zero_at m v" for v using s'(6) I that by metis
    have "skadu_view s' k i (vs ! i) = (if k = place_of a \<and> i < Suc j then ts ! i else skadu_view m k i (vs ! i))"
      if "i < n" for k i
    proof -
      have "skadu_view s' k i (vs ! i) = (if k = place_of a \<and> i = j then ts ! j else skadu_view s k i (vs ! i))"
        using s'(5) that assms(4) less_le_trans by blast
      moreover have "skadu_view s k i (vs ! i) = (if k = place_of a \<and> i < j then ts ! i else skadu_view m k i (vs ! i))"
        using I that by blast
      ultimately show ?thesis by (auto simp: less_Suc_eq split: if_splits)
    qed
    with s'(1-4) I b(3) z show "\<exists>s'. null_set_level p a vs ts TYPE_64BIT j s = Some s' \<and> ?I (Suc j) s'"
      by (simp add: null_set_level_def rd_int)
  qed
  then obtain s where s: "for_range 0 n (null_set_level p a vs ts TYPE_64BIT) m = Some s" "?I (0 + n) s" by blast
  have "skadu_view s k i (vs ! i) = (if k = place_of a then ts ! i else skadu_view m k i (vs ! i))" if "i < n" for k i
  proof -
    have "skadu_view s k i (vs ! i) = (if k = place_of a \<and> i < 0 + n then ts ! i else skadu_view m k i (vs ! i))"
      using s(2) that by blast
    then show ?thesis using that by simp
  qed
  with s show ?thesis by blast
qed

lemma NullCache_get_ok:
  assumes "null_ok H env m" "skadu_args H a n vs sz"
  shows "\<exists>ts m'. NullCache_get env (align8 a) n vs TYPE_64BIT m = Some (ts, m') \<and> null_ok H env m' \<and> unat n \<le> length ts
    \<and> (\<forall>i < unat n. ts ! i = skadu_view m (place_of a) i (vs ! i))
    \<and> (\<forall>k i v. skadu_view m' k i v = skadu_view m k i v)"
proof -
  have ok: "skadu_ok H env m" "length (sk_cache m) = 1000" using assms(1) by (simp_all add: null_ok_def)
  have args: "addr_high (align8 a) \<in> H" "unat n \<le> 64" "unat n \<le> length vs" using assms(2) by (simp_all add: skadu_args_def)
  obtain p m1 where m1: "getLevelTable env (align8 a) vs m = Some (p, m1)" "skadu_ok H env m1"
    "page_table m1 (addr_high (align8 a)) (GetIndex (align8 a)) = Some p"
    "\<forall>k j v. skadu_view m1 k j v = skadu_view m k j v" "sk_cache m1 = sk_cache m"
    using getLevelTable_ok [OF ok(1) args(1)] by blast
  have n1: "null_ok H env m1" using m1(2,5) ok(2) by (simp add: null_ok_def)
  obtain c where c: "for_range 0 (unat n) (null_get_level p (align8 a) vs) m1 = Some (m1\<lparr>sk_cache := c\<rparr>)"
    "length c = 1000" "\<forall>i < unat n. c ! i = skadu_view m1 (place_of (align8 a)) i (vs ! i)"
    using null_get_loop [OF n1 m1(3) args(2,3)] by blast
  have "\<not> compression_enabled (m1\<lparr>sk_cache := c\<rparr>)" using m1(2) by (simp add: skadu_ok_def)
  then have "NullCache_get env (align8 a) n vs TYPE_64BIT m = Some (c, m1\<lparr>sk_cache := c\<rparr>)"
    using m1(1) c(1) by (simp add: NullCache_get_def touch_table_off)
  moreover have "null_ok H env (m1\<lparr>sk_cache := c\<rparr>)" using m1(2) c(2) by (simp add: null_ok_def frame_simps)
  ultimately show ?thesis using c(2,3) m1(4) args(2)
    by (intro exI [where x = c] exI [where x = "m1\<lparr>sk_cache := c\<rparr>"]) (simp add: frame_simps)
qed

lemma NullCache_set_ok:
  assumes "null_ok H env m" "skadu_args H a n vs sz" "unat n \<le> length ts"
  shows "\<exists>m'. NullCache_set env (align8 a) n vs ts TYPE_64BIT m = Some m' \<and> null_ok H env m'
    \<and> (\<forall>k i. i < unat n \<longrightarrow> skadu_view m' k i (vs ! i) = (if k = place_of a then ts ! i else skadu_view m k i (vs ! i)))
    \<and> (\<forall>v. v \<notin> set (take (unat n) vs) \<longrightarrow> zero_at m v \<longrightarrow> zero_at m' v)"
proof -
  have ok: "skadu_ok H env m" "length (sk_cache m) = 1000" using assms(1) by (simp_all add: null_ok_def)
  have args: "addr_high (align8 a) \<in> H" "unat n \<le> 64" "unat n \<le> length vs" using assms(2) by (simp_all add: skadu_args_def)
  obtain p m1 where m1: "getLevelTable env (align8 a) vs m = Some (p, m1)" "skadu_ok H env m1"
    "page_table m1 (addr_high (align8 a)) (GetIndex (align8 a)) = Some p"
    "\<forall>k j v. skadu_view m1 k j v = skadu_view m k j v" "sk_cache m1 = sk_cache m"
    using getLevelTable_ok [OF ok(1) args(1)] by blast
  obtain m2 where m2: "for_range 0 (unat n) (null_set_level p (align8 a) vs ts TYPE_64BIT) m1 = Some m2"
    "skadu_ok H env m2" "sk_cache m2 = sk_cache m1"
    "\<forall>k i. i < unat n \<longrightarrow> skadu_view m2 k i (vs ! i)
        = (if k = place_of (align8 a) then ts ! i else skadu_view m1 k i (vs ! i))"
    "\<forall>v. v \<notin> set (take (unat n) vs) \<longrightarrow> zero_at m1 v \<longrightarrow> zero_at m2 v"
    using null_set_loop [OF m1(2,3) args(2,3) assms(3)] by blast
  have "\<not> compression_enabled m2" using m2(2) by (simp add: skadu_ok_def)
  then have "NullCache_set env (align8 a) n vs ts TYPE_64BIT m = Some m2"
    using m1(1) m2(1) by (simp add: NullCache_set_def touch_table_off)
  moreover have "null_ok H env m2" using m2(2,3) m1(5) ok(2) by (simp add: null_ok_def)
  moreover have "zero_at m1 v = zero_at m v" for v by (rule zero_at_cong) (use m1(4) in blast)
  ultimately show ?thesis using m1(4) m2(4,5) by simp
qed

section \<open>The memory\<close>

abbreviation null_get where
  "null_get env \<equiv> MShadowSkadu_get (NullCache_ops env)"

abbreviation null_set where
  "null_set env \<equiv> MShadowSkadu_set (NullCache_ops env)"

lemma word_less_one: "(n :: UInt32) < 1 \<longleftrightarrow> unat n = 0"
  by (simp add: word_less_nat_alt)

lemma null_ok_frame [frame_simps]:
  "null_ok H env (m\<lparr>cache_stat := cs\<rparr>) = null_ok H env m"
  "null_ok H env (m\<lparr>next_gc_time := t\<rparr>) = null_ok H env m"
  by (simp_all add: null_ok_def frame_simps)

lemma skadu_null_get_ok:
  assumes "null_ok H env m" "skadu_args H a n vs sz"
  shows "\<exists>ts m'. null_get env a n vs sz m = Some (ts, m') \<and> null_ok H env m' \<and> unat n \<le> length ts
    \<and> (\<forall>i < unat n. ts ! i = skadu_view m (word_place a sz) i (vs ! i))
    \<and> (\<forall>k i v. skadu_view m' k i v = skadu_view m k i v)"
proof (cases "n < 1")
  case True
  then show ?thesis using assms(1) by (simp add: MShadowSkadu_get_def word_less_one)
next
  case False
  have "null_ok H env (m\<lparr>cache_stat := eventRead (cache_stat m)\<rparr>)" using assms(1) by (simp add: frame_simps)
  from NullCache_get_ok [OF this assms(2)] False show ?thesis
    by (auto simp: MShadowSkadu_get_def NullCache_ops_def frame_simps word_place_def)
qed

text \<open>The garbage collector, when it is due, keeps what the coming call relies on.\<close>

lemma gc_step_ok:
  assumes "null_ok H env m" "skadu_args H a n vs sz"
  shows "\<exists>m'. (if getActiveTimeTableSize (mem_stat m) \<ge> next_gc_time m
       then do {
         m \<leftarrow> runGarbageCollector vs (unat n) m;
         Some (m\<lparr>next_gc_time := next_gc_time m + ucast (sk_gc_period m)\<rparr>) }
       else Some m) = Some m' \<and> null_ok H env m'
    \<and> (\<forall>k i. i < unat n \<longrightarrow> skadu_view m' k i (vs ! i) = skadu_view m k i (vs ! i))
    \<and> (\<forall>v. zero_at m v \<longrightarrow> zero_at m' v)"
proof (cases "getActiveTimeTableSize (mem_stat m) \<ge> next_gc_time m")
  case True
  have ok: "skadu_ok H env m" "length (sk_cache m) = 1000" using assms(1) by (simp_all add: null_ok_def)
  have args: "unat n \<le> 64" "unat n \<le> length vs" using assms(2) by (simp_all add: skadu_args_def)
  obtain m1 where m1: "runGarbageCollector vs (unat n) m = Some m1" "skadu_ok H env m1" "sk_cache m1 = sk_cache m"
    "\<forall>k i. i < unat n \<longrightarrow> skadu_view m1 k i (vs ! i) = skadu_view m k i (vs ! i)"
    "\<forall>v. zero_at m v \<longrightarrow> zero_at m1 v"
    using runGarbageCollector_ok [OF ok(1) args] by blast
  then show ?thesis using True ok(2) by (simp add: frame_simps null_ok_def zero_at_def)
qed (use assms in simp)

lemma skadu_null_set_ok:
  assumes "null_ok H env m" "skadu_args H a n vs sz" "unat n \<le> length ts"
  shows "\<exists>m'. null_set env a n vs ts sz m = Some m' \<and> null_ok H env m'
    \<and> (\<forall>i < unat n. skadu_view m' (word_place a sz) i (vs ! i) = ts ! i)
    \<and> (\<forall>k i. k \<noteq> word_place a sz \<longrightarrow> i < unat n \<longrightarrow> skadu_view m' k i (vs ! i) = skadu_view m k i (vs ! i))
    \<and> (\<forall>v. v \<notin> set (take (unat n) vs) \<longrightarrow> zero_at m v \<longrightarrow> zero_at m' v)"
proof (cases "n < 1")
  case True
  then show ?thesis using assms(1) by (simp add: MShadowSkadu_set_def word_less_one)
next
  case False
  obtain m1 where m1: "(if getActiveTimeTableSize (mem_stat m) \<ge> next_gc_time m
       then do {
         m \<leftarrow> runGarbageCollector vs (unat n) m;
         Some (m\<lparr>next_gc_time := next_gc_time m + ucast (sk_gc_period m)\<rparr>) }
       else Some m) = Some m1" "null_ok H env m1"
    "\<forall>k i. i < unat n \<longrightarrow> skadu_view m1 k i (vs ! i) = skadu_view m k i (vs ! i)"
    "\<forall>v. zero_at m v \<longrightarrow> zero_at m1 v"
    using gc_step_ok [OF assms(1,2)] by blast
  have "null_ok H env (m1\<lparr>cache_stat := eventWrite (cache_stat m1)\<rparr>)" using m1(2) by (simp add: frame_simps)
  from NullCache_set_ok [OF this assms(2,3)] obtain m2 where m2:
    "NullCache_set env (align8 a) n vs ts TYPE_64BIT (m1\<lparr>cache_stat := eventWrite (cache_stat m1)\<rparr>) = Some m2"
    "null_ok H env m2" "\<forall>k i. i < unat n \<longrightarrow> skadu_view m2 k i (vs ! i)
       = (if k = place_of a then ts ! i else skadu_view m1 k i (vs ! i))"
    "\<forall>v. v \<notin> set (take (unat n) vs) \<longrightarrow> zero_at (m1\<lparr>cache_stat := eventWrite (cache_stat m1)\<rparr>) v \<longrightarrow> zero_at m2 v"
    unfolding frame_simps by (elim exE conjE) (rule that, assumption+)
  have "null_set env a n vs ts sz m = Some m2"
    using False m1(1) m2(1) by (simp add: MShadowSkadu_set_def NullCache_ops_def)
  moreover have "skadu_view m2 (word_place a sz) i (vs ! i) = ts ! i" if "i < unat n" for i
    using m2(3) [THEN spec, THEN spec, THEN mp, OF that, of "place_of a"] by (simp add: word_place_def)
  moreover have "skadu_view m2 k i (vs ! i) = skadu_view m k i (vs ! i)" if "k \<noteq> word_place a sz" "i < unat n" for k i
  proof -
    have "skadu_view m2 k i (vs ! i) = (if k = place_of a then ts ! i else skadu_view m1 k i (vs ! i))"
      using m2(3) that(2) by blast
    moreover have "skadu_view m1 k i (vs ! i) = skadu_view m k i (vs ! i)" using m1(3) that(2) by blast
    ultimately show ?thesis using that(1) by (simp add: word_place_def)
  qed
  moreover have "zero_at (m1\<lparr>cache_stat := eventWrite (cache_stat m1)\<rparr>) v = zero_at m1 v" for v
    by (rule zero_at_cong) (simp add: frame_simps)
  ultimately show ?thesis using m1(4) m2(2,4) by blast
qed

interpretation skadu: shadow_memory "null_get env" "null_set env" "null_ok H env" "skadu_args H" "\<lambda>ts. True" word_place skadu_view
  for H env
proof unfold_locales
  fix m a n vs sz
  assume "null_ok H env m" "skadu_args H a n vs sz"
  from skadu_null_get_ok [OF this] show "\<exists>ts m'. null_get env a n vs sz m = Some (ts, m') \<and> null_ok H env m' \<and> unat n \<le> length ts
    \<and> (\<forall>i < unat n. ts ! i = skadu_view m (word_place a sz) i (vs ! i))
    \<and> (\<forall>k i. i < unat n \<longrightarrow> skadu_view m' k i (vs ! i) = skadu_view m k i (vs ! i))" by blast
next
  fix m a n vs sz and ts :: "Time list"
  assume "null_ok H env m" "skadu_args H a n vs sz" "unat n \<le> length ts"
  from skadu_null_set_ok [OF this] show "\<exists>m'. null_set env a n vs ts sz m = Some m' \<and> null_ok H env m'
    \<and> (\<forall>i < unat n. skadu_view m' (word_place a sz) i (vs ! i) = ts ! i)
    \<and> (\<forall>k i. k \<noteq> word_place a sz \<longrightarrow> i < unat n \<longrightarrow> skadu_view m' k i (vs ! i) = skadu_view m k i (vs ! i))" by blast
qed

end
