(* ===== verification/MemoryFlow.thy ===== *)
theory MemoryFlow
  imports SkaduNull
begin

text \<open>
  Stores and loads of the profiled program: what \<open>handleStore\<close> puts into the shadow memory, and what
  a load of the same word finds there. First for every shadow memory that keeps the contract, then
  for \<open>MShadowSkadu\<close>.
\<close>

section \<open>timestampUpdaterStore\<close>

text \<open>The time a store gives to its address at a level.\<close>

definition store_time :: "'m KremlinProfiler \<Rightarrow> Table \<Rightarrow> bool \<Rightarrow> Reg \<Rightarrow> nat \<Rightarrow> Time" where
  "store_time p t store_const src_reg k =
     (if store_const then ctrl_time p k else max (ctrl_time p k) (reg_time t src_reg k)) + STORE_COST"

definition storing :: "'m KremlinProfiler \<Rightarrow> Time list \<Rightarrow> ProgramRegion list \<Rightarrow> 'm KremlinProfiler" where
  "storing p lt rs = p\<lparr>level_times := lt, program_regions := rs\<rparr>"

definition times_set :: "Time list \<Rightarrow> Time list \<Rightarrow> (nat \<Rightarrow> Time) \<Rightarrow> nat \<Rightarrow> bool" where
  "times_set lt lt' f k \<longleftrightarrow> length lt' = length lt \<and> (\<forall>j < length lt. lt' ! j = (if j < k then f j else lt ! j))"

lemma storing_ready:
  assumes "ready p a t" "length lt = length (level_times p)" "length rs = length (program_regions p)"
  shows "ready (storing p lt rs) a t" "depth (storing p lt rs) = depth p"
    "ctrl_time (storing p lt rs) k = ctrl_time p k"
    "getLevelForIndex i (storing p lt rs) = getLevelForIndex i p"
  using assms by (auto simp: storing_def ready_def ctrl_ready_def levels_ready_def regs_ready_def
      ctrl_time_def getLevelForIndex_def)

lemma timestampUpdaterStore_step_ready:
  assumes rdy: "ready p a t" and src: "sc \<or> reg_ok t src" and k: "k < depth p"
    and lt: "times_set (level_times p) lt (store_time p t sc src) k"
    and rs: "cp_updated (program_regions p) rs True (unat (min_level p)) (store_time p t sc src) k"
  shows "\<exists>lt' rs'. timestampUpdaterStore_step sc src k (storing p lt rs) = Some (storing p lt' rs')
    \<and> times_set (level_times p) lt' (store_time p t sc src) (Suc k)
    \<and> cp_updated (program_regions p) rs' True (unat (min_level p)) (store_time p t sc src) (Suc k)"
proof -
  let ?f = "store_time p t sc src" and ?q = "storing p lt rs" and ?mn = "unat (min_level p)"
  have len: "length lt = length (level_times p)" "length rs = length (program_regions p)"
    using lt rs by (simp_all add: times_set_def cp_updated_def)
  note q = storing_ready [OF rdy len]
  have rq: "ctrl_ready ?q (depth p)" "levels_ready ?q (depth p)" "regs_ready ?q (depth p) a t"
    using q(1,2) by (simp_all add: ready_def)
  have small: "k < 2 ^ 31" using ctrl_ready_small [OF rq(1)] k by simp
  have lk: "unat (getLevelForIndex (of_nat k) p) = ?mn + k" "?mn + k < length rs" "k < length lt"
    using getLevelForIndex_ready [of p "depth p" k] rdy k len by (auto simp: ready_def levels_ready_def)
  have reg: "getRegionAtLevel (getLevelForIndex (of_nat k) p) ?q = Some (rs ! (?mn + k))"
    using rd_int [OF lk(2)] by (simp only: getRegionAtLevel_def lk(1)) (simp add: storing_def)
  have ctrl: "getControlDependenceAtIndex (of_nat k) ?q = Some (ctrl_time p k)"
    using getControlDependenceAtIndex_ready [OF rq(1) k] q(3) by simp
  have src': "\<not> sc \<Longrightarrow> getRegisterTimeAtIndex src (of_nat k) ?q = Some (reg_time t src k)"
    using getRegisterTimeAtIndex_ready [OF rq(3) _ k small, of src] src by auto
  have "(if sc then Some (ctrl_time p k + STORE_COST)
        else do { src_time \<leftarrow> getRegisterTimeAtIndex src (of_nat k) ?q;
                  Some ((if ctrl_time p k > src_time then ctrl_time p k else src_time) + STORE_COST) }) = Some (?f k)"
    using src' by (simp add: store_time_def)
  note val = this
  have w: "wr (level_times ?q) (int k) v = Some (lt[k := v])" for v
    using wr_int [OF lk(3)] by (simp add: storing_def)
  have set: "setRegionAtLevel (getLevelForIndex (of_nat k) p) r (?q\<lparr>level_times := lt'\<rparr>)
      = Some (storing p lt' (rs[?mn + k := r]))" for r lt'
    using wr_int [OF lk(2)] by (simp only: setRegionAtLevel_def lk(1)) (simp add: storing_def)
  have "timestampUpdaterStore_step sc src k ?q
      = Some (storing p (lt[k := ?f k]) (rs[?mn + k := updateCriticalPathLength (?f k) (rs ! (?mn + k))]))"
    by (simp only: timestampUpdaterStore_step_def Let_def q(4) reg ctrl bind.bind_lunit val w set)
  moreover have "times_set (level_times p) (lt[k := ?f k]) ?f (Suc k)"
    using lt lk(3) by (auto simp: times_set_def nth_list_update)
  moreover have "cp_updated (program_regions p) (rs[?mn + k := updateCriticalPathLength (?f k) (rs ! (?mn + k))]) True ?mn ?f (Suc k)"
    using cp_updated_Suc [OF rs] lk(2) len(2) by simp
  ultimately show ?thesis by blast
qed

lemma timestampUpdaterStore_loop:
  assumes rdy: "ready p a t" and src: "sc \<or> reg_ok t src"
  shows "\<exists>lt rs. for_range 0 (depth p) (timestampUpdaterStore_step sc src) p = Some (storing p lt rs)
    \<and> times_set (level_times p) lt (store_time p t sc src) (depth p)
    \<and> cp_updated (program_regions p) rs True (unat (min_level p)) (store_time p t sc src) (depth p)"
proof -
  let ?f = "store_time p t sc src"
  let ?I = "\<lambda>k s. \<exists>lt rs. s = storing p lt rs \<and> times_set (level_times p) lt ?f k
    \<and> cp_updated (program_regions p) rs True (unat (min_level p)) ?f k"
  have start: "?I 0 p"
  proof (intro exI conjI)
    show "p = storing p (level_times p) (program_regions p)" by (simp add: storing_def)
    show "times_set (level_times p) (level_times p) ?f 0" by (simp add: times_set_def)
    show "cp_updated (program_regions p) (program_regions p) True (unat (min_level p)) ?f 0" by (auto simp: cp_updated_def)
  qed
  have step: "\<exists>s'. timestampUpdaterStore_step sc src j s = Some s' \<and> ?I (Suc j) s'"
    if j: "0 \<le> j" "j < 0 + depth p" and I: "?I j s" for j s
  proof -
    have k: "j < depth p" using j by simp
    obtain lt rs where s: "s = storing p lt rs" "times_set (level_times p) lt ?f j"
      "cp_updated (program_regions p) rs True (unat (min_level p)) ?f j" using I by (elim exE conjE) (rule that)
    obtain lt' rs' where r: "timestampUpdaterStore_step sc src j (storing p lt rs) = Some (storing p lt' rs')"
      "times_set (level_times p) lt' ?f (Suc j)"
      "cp_updated (program_regions p) rs' True (unat (min_level p)) ?f (Suc j)"
      using timestampUpdaterStore_step_ready [OF rdy src k s(2,3)] by (elim exE conjE) (rule that)
    show ?thesis unfolding s(1)
      by (intro exI [of _ "storing p lt' rs'"] conjI exI [of _ lt'] exI [of _ rs'] refl r)
  qed
  have "\<exists>s. for_range 0 (depth p) (timestampUpdaterStore_step sc src) p = Some s \<and> ?I (0 + depth p) s"
    by (rule for_range_rule [where I = ?I, OF start step])
  then show ?thesis unfolding add_0 by blast
qed

lemma timestampUpdaterStore_step_enabled:
  "timestampUpdaterStore_step sc src k p = Some p' \<Longrightarrow> enabled p' = enabled p"
  by (auto simp: timestampUpdaterStore_step_def setRegionAtLevel_def Let_def bind_eq_Some_conv split: if_splits)

lemma store_enabled:
  assumes "timestampUpdaterStore ms sc addr sz src p = Some p'"
  shows "enabled p' = enabled p"
proof -
  from assms obtain q m where q: "for_range 0 (depth p) (timestampUpdaterStore_step sc src) p = Some q"
    "p' = q\<lparr>shadow_mem := Some m\<rparr>" by (auto simp: timestampUpdaterStore_def Let_def bind_eq_Some_conv)
  have "enabled q = enabled p"
    by (rule for_range_inv [OF q(1), where I = "\<lambda>k s. enabled s = enabled p"])
      (auto dest: timestampUpdaterStore_step_enabled)
  with q(2) show ?thesis by simp
qed

section \<open>Store, then load\<close>

text \<open>The versions that the profiler passes to the shadow memory.\<close>

abbreviation current_versions :: "'m KremlinProfiler \<Rightarrow> Version list" where
  "current_versions p \<equiv> drop (unat (min_level p)) (level_versions p)"

context shadow_memory
begin

text \<open>A store leaves the profiler as it was but for times and regions, and its times in the memory.\<close>

lemma store_ok:
  assumes "ready p a t" "sc \<or> reg_ok t src" "shadow_mem p = Some m" "inv m"
    and "args_ok addr (curr_num_instrumented_levels p) (current_versions p) sz"
    and vals: "vals_ok (map (store_time p t sc src) [0..<depth p])"
  shows "\<exists>lt rs m'. timestampUpdaterStore \<lparr>mem_get = get, mem_set = set\<rparr> sc addr sz src p
      = Some ((storing p lt rs)\<lparr>shadow_mem := Some m'\<rparr>) \<and> inv m'
    \<and> length lt = length (level_times p)
    \<and> cp_updated (program_regions p) rs True (unat (min_level p)) (store_time p t sc src) (depth p)
    \<and> (\<forall>k < depth p. view m' (slot addr sz) k (current_versions p ! k) = store_time p t sc src k)"
proof -
  obtain lt rs where l: "for_range 0 (depth p) (timestampUpdaterStore_step sc src) p = Some (storing p lt rs)"
    "times_set (level_times p) lt (store_time p t sc src) (depth p)"
    "cp_updated (program_regions p) rs True (unat (min_level p)) (store_time p t sc src) (depth p)"
    using timestampUpdaterStore_loop [OF assms(1,2)] by blast
  have d: "depth p \<le> length (level_times p)" using assms(1) by (simp add: ready_def levels_ready_def)
  have len: "length lt = length (level_times p)" using l(2) by (simp add: times_set_def)
  have "depth p \<le> length lt" using d len by simp
  moreover have "take (depth p) lt = map (store_time p t sc src) [0..<depth p]"
    by (rule nth_equalityI) (use l(2) d len in \<open>auto simp: times_set_def\<close>)
  ultimately obtain m' where m': "set addr (curr_num_instrumented_levels p) (current_versions p) lt sz m = Some m'"
    "inv m'" "\<forall>i < depth p. view m' (slot addr sz) i (current_versions p ! i) = lt ! i"
    using set_ok [OF assms(4,5), of lt] vals by auto
  have "timestampUpdaterStore \<lparr>mem_get = get, mem_set = set\<rparr> sc addr sz src p = Some ((storing p lt rs)\<lparr>shadow_mem := Some m'\<rparr>)"
    using l(1) assms(3) m'(1)
    by (simp add: timestampUpdaterStore_def getVersionAtLevel_def getLevelForIndex_def storing_def)
  moreover have "lt ! k = store_time p t sc src k" if "k < depth p" for k
    using l(2) that d by (simp add: times_set_def)
  then have "\<forall>k < depth p. view m' (slot addr sz) k (current_versions p ! k) = store_time p t sc src k"
    using m'(3) by simp
  ultimately show ?thesis using m'(2) len l(3) by blast
qed

lemma store_load:
  assumes rdy: "ready p a t" and src: "reg_ok t src" and dest: "reg_ok t dest"
    and mem: "shadow_mem p = Some m" "inv m"
    and args: "args_ok addr (curr_num_instrumented_levels p) (current_versions p) sz"
    and vals: "vals_ok (map (store_time p t False src) [0..<depth p])"
  shows "\<exists>p1 p2 t2. timestampUpdaterStore \<lparr>mem_get = get, mem_set = set\<rparr> False addr sz src p = Some p1
    \<and> timestampUpdater \<lparr>mem_get = get, mem_set = set\<rparr> True True 0 True dest [] addr sz p1 = Some p2
    \<and> tables p2 a = Some t2
    \<and> dest_updated t t2 dest
        (\<lambda>k. max (ctrl_time p k) (max (ctrl_time p k) (reg_time t src k) + STORE_COST) + LOAD_COST) (depth p)"
proof -
  let ?ms = "\<lparr>mem_get = get, mem_set = set\<rparr>"
  have src': "False \<or> reg_ok t src" using src by simp
  obtain lt rs m1 where s: "timestampUpdaterStore ?ms False addr sz src p = Some ((storing p lt rs)\<lparr>shadow_mem := Some m1\<rparr>)"
    "inv m1" "length lt = length (level_times p)"
    "cp_updated (program_regions p) rs True (unat (min_level p)) (store_time p t False src) (depth p)"
    "\<forall>k < depth p. view m1 (slot addr sz) k (current_versions p ! k) = store_time p t False src k"
    using store_ok [OF rdy src' mem args vals] by blast
  let ?p1 = "(storing p lt rs)\<lparr>shadow_mem := Some m1\<rparr>"
  have lr: "length rs = length (program_regions p)" using s(4) by (simp add: cp_updated_def)
  note q = storing_ready [OF rdy s(3) lr]
  have same: "depth ?p1 = depth p" "curr_num_instrumented_levels ?p1 = curr_num_instrumented_levels p"
    "current_versions ?p1 = current_versions p" "shadow_mem ?p1 = Some m1"
    by (simp_all add: storing_def)
  have rdy1: "ready ?p1 a t" using q(1) by simp
  from get_ok [OF s(2) args] obtain ts m2 where g: "get addr (curr_num_instrumented_levels p) (current_versions p) sz m1 = Some (ts, m2)"
    "depth p \<le> length ts" "\<forall>i < depth p. ts ! i = view m1 (slot addr sz) i (current_versions p ! i)" by blast
  have mg: "mem_get ?ms addr (curr_num_instrumented_levels ?p1) (current_versions ?p1) sz m1 = Some (ts, m2)"
    using g(1) same by simp
  have nosrc: "\<And>j. j < 0 \<Longrightarrow> reg_ok t (fst (src_arg [] j))" by simp
  from timestampUpdater_mem [OF rdy1 dest le0 nosrc same(4) mg, of True True] g(2) same(1) obtain t2 rs2 where u:
    "timestampUpdater ?ms True True 0 True dest [] addr sz ?p1 = Some (at_level (?p1\<lparr>shadow_mem := Some m2\<rparr>) a t2 rs2)"
    "dest_updated t t2 dest (new_time ?p1 t True 0 True [] ts) (depth p)" by auto
  have ct: "ctrl_time ?p1 k = ctrl_time p k" for k using q(3) by (simp add: ctrl_time_def storing_def)
  have "new_time ?p1 t True 0 True [] ts k
      = max (ctrl_time p k) (max (ctrl_time p k) (reg_time t src k) + STORE_COST) + LOAD_COST" if "k < depth p" for k
    using s(5) g(3) that ct q(3) by (simp add: new_time_def dep_times_def store_time_def)
  note new = this
  have "dest_updated t t2 dest (\<lambda>k. max (ctrl_time p k) (max (ctrl_time p k) (reg_time t src k) + STORE_COST) + LOAD_COST) (depth p)"
    by (rule dest_updated_cong [THEN iffD1, OF new u(2)])
  moreover have "tables (at_level (?p1\<lparr>shadow_mem := Some m2\<rparr>) a t2 rs2) a = Some t2" by (simp add: at_level_def)
  ultimately show ?thesis using s(1) u(1) by blast
qed

end

section \<open>MShadowSkadu\<close>

lemma dest_updated_cell:
  "dest_updated t t' d f n \<Longrightarrow> in_table t r (int k) \<Longrightarrow> k < n \<Longrightarrow>
   cell t' r (int k) = (if r = to_int d then f k else cell t r (int k))"
  by (simp add: dest_updated_def)

text \<open>The memory as \<open>init\<close> leaves it, for a program of at most 32 segments, without compression.\<close>

lemma skadu_init_ok:
  assumes "\<not> compress_shadow_mem cfg" "card H \<le> 32" "inj (plat_addr env)"
  shows "null_ok H env (MShadowSkadu_init cfg tempArray_init)"
  using assms
  by (simp add: null_ok_def skadu_ok_def MShadowSkadu_init_def initGarbageCollector_def Let_def heap_ok_def
      entries_ok_def SparseTable_init_def SPARSE_ENTRIES_def pointers_ok_def segments_in_def pages_distinct_def
      page_in_def entry_of_def tempArray_init_def)

lemma skadu_init_view: "skadu_view (MShadowSkadu_init cfg c) k i v = 0"
  by (simp add: skadu_view_def MShadowSkadu_init_def initGarbageCollector_def Let_def page_in_def entry_of_def
      table_time_def split: prod.split)

text \<open>
  C21. A program of stores and loads of any length, run on a fresh \<open>MShadowSkadu\<close> with one array of
  versions, never gets stuck and loads what a map from 8-byte words to times gives it, 0 for a word
  that was not stored; the garbage collector, which may run at every store, does not show. The
  program may touch 32 segments of 4 GB and 64 levels.
\<close>

theorem skadu_refines_map:
  assumes "\<not> compress_shadow_mem cfg" "card H \<le> 32" "inj (plat_addr env)"
    and "list_all (op_ok (skadu_args H) (\<lambda>ts. True) n vs) ops"
  shows "\<exists>m'. run_ops (skadu_null_shadow env) n vs ops (MShadowSkadu_init cfg tempArray_init)
     = Some (spec_ops word_place (unat n) ops (\<lambda>w. replicate (unat n) 0), m')"
proof -
  let ?m = "MShadowSkadu_init cfg tempArray_init"
  have "levels_of skadu_view ?m n vs = (\<lambda>w. replicate (unat n) 0)"
    by (auto simp: levels_of_def skadu_init_view map_replicate_const)
  then show ?thesis
    using skadu.run_refines [OF skadu_init_ok [OF assms(1-3)] assms(4)] by (auto simp: skadu_null_shadow_def)
qed

definition sample_platform :: Platform where
  "sample_platform = \<lparr>plat_lzo = copy_lzo, plat_addr = (\<lambda>k. 4096 + 1024 * k), plat_mem = (\<lambda>k. False)\<rparr>"

text \<open>
  C23. A value stored and then loaded from the same address: at every level, the destination register
  gets the time of the source register (or of the control dependence, if that is later) plus the cost
  of the store and of the load, and no other register changes.
\<close>

theorem skadu_store_then_load:
  assumes "enabled p" "ready p a t" "reg_ok t src" "reg_ok t dest" "shadow_mem p = Some m" "null_ok H env m"
    and "skadu_args H addr (curr_num_instrumented_levels p) (drop (unat (min_level p)) (level_versions p)) sz"
  shows "\<exists>p2 t2. handleStore (skadu_null_shadow env) src addr sz p \<bind> handleLoad0 (skadu_null_shadow env) addr dest sz = Some p2
    \<and> tables p2 a = Some t2
    \<and> (\<forall>r k. in_table t r (int k) \<and> k < unat (curr_num_instrumented_levels p) \<longrightarrow> cell t2 r (int k) =
         (if r = to_int dest
          then max (ctrl_time p k) (max (ctrl_time p k) (reg_time t src k) + STORE_COST) + LOAD_COST
          else cell t r (int k)))"
proof -
  obtain p1 p2 t2 where r: "timestampUpdaterStore (skadu_null_shadow env) False addr sz src p = Some p1"
    "timestampUpdater (skadu_null_shadow env) True True 0 True dest [] addr sz p1 = Some p2" "tables p2 a = Some t2"
    "dest_updated t t2 dest (\<lambda>k. max (ctrl_time p k) (max (ctrl_time p k) (reg_time t src k) + STORE_COST) + LOAD_COST) (depth p)"
    using skadu.store_load [OF assms(2-7) TrueI] unfolding skadu_null_shadow_def by blast
  have "enabled p1" using store_enabled [OF r(1)] assms(1) by simp
  then have "handleStore (skadu_null_shadow env) src addr sz p \<bind> handleLoad0 (skadu_null_shadow env) addr dest sz = Some p2"
    using assms(1) r(1,2) by (simp add: handleStore_def handleLoad0_def when_enabled_def)
  moreover have "cell t2 x (int k) =
      (if x = to_int dest then max (ctrl_time p k) (max (ctrl_time p k) (reg_time t src k) + STORE_COST) + LOAD_COST
       else cell t x (int k))" if "in_table t x (int k)" "k < depth p" for x k
    by (rule dest_updated_cell [OF r(4) that])
  ultimately show ?thesis using r(3) by blast
qed

section \<open>Witnesses\<close>

lemma sample_platform_inj: "inj (plat_addr sample_platform)"
  by (simp add: inj_def sample_platform_def)

theorem skadu_refines_map_witness:
  "\<exists>m'. run_ops (skadu_null_shadow sample_platform) 2 [5, 6]
      [Load 64 8, Store 64 8 [7, 3], Store 72 8 [1, 1], Load 68 4, Load 72 8]
      (MShadowSkadu_init KremlinConfiguration_new tempArray_init)
    = Some ([[0, 0], [7, 3], [1, 1]], m')"
proof -
  let ?ops = "[Load 64 8, Store 64 8 [7, 3], Store 72 8 [1, 1], Load 68 4, Load 72 8]"
  have u: "unat (2 :: Index) = 2" by simp
  have "list_all (op_ok (skadu_args {0}) (\<lambda>ts. True) 2 [5, 6]) ?ops"
    by (simp add: skadu_args_def addr_high_def)
  moreover have "\<not> compress_shadow_mem KremlinConfiguration_new" "card {0 :: UInt32} \<le> 32"
    by (simp_all add: KremlinConfiguration_new_def)
  ultimately obtain m' where r: "run_ops (skadu_null_shadow sample_platform) 2 [5, 6] ?ops
      (MShadowSkadu_init KremlinConfiguration_new tempArray_init)
    = Some (spec_ops word_place (unat (2 :: Index)) ?ops (\<lambda>w. replicate (unat (2 :: Index)) 0), m')"
    using skadu_refines_map [OF _ _ sample_platform_inj] by blast
  have "word_place 68 4 = word_place 64 8" "word_place 72 8 \<noteq> word_place 64 8"
    by (simp_all add: word_place_def place_of_def addr_high_def GetIndex_div page_offset_def)
  then have sp: "spec_ops word_place 2 ?ops (\<lambda>w. replicate 2 0) = [[0, 0], [7, 3], [1, 1]]"
    by (simp add: numeral_2_eq_2)
  from r show ?thesis unfolding u sp by (rule exI)
qed

definition sample_flow :: "NullCache MShadowSkadu KremlinProfiler" where
  "sample_flow = (KremlinProfiler_new 1 0 0 0 0 31)
     \<lparr>enabled := True, curr_level := 0, curr_num_instrumented_levels := 1,
      program_regions := [ProgramRegion_new, ProgramRegion_new], level_versions := [0, 0], level_times := [0, 0],
      control_dependence_table := Some \<lparr>row = 2, col = 2, array = [3, 0, 0, 0]\<rparr>,
      cdt_read_ptr := 0, cdt_current_base := Some 0, tables := [0 \<mapsto> sample_regs],
      next_table := 1, shadow_reg_file := Some 0,
      shadow_mem := Some (MShadowSkadu_init KremlinConfiguration_new tempArray_init)\<rparr>"

theorem skadu_store_then_load_witness:
  "\<exists>p2 t2. handleStore (skadu_null_shadow sample_platform) 7 64 8 sample_flow
      \<bind> handleLoad0 (skadu_null_shadow sample_platform) 64 0 8 = Some p2
    \<and> tables p2 0 = Some t2 \<and> cell t2 0 0 = 12"
proof -
  have "\<exists>p2 t2. handleStore (skadu_null_shadow sample_platform) 7 64 8 sample_flow
      \<bind> handleLoad0 (skadu_null_shadow sample_platform) 64 0 8 = Some p2
    \<and> tables p2 0 = Some t2
    \<and> (\<forall>r k. in_table sample_regs r (int k) \<and> k < unat (curr_num_instrumented_levels sample_flow) \<longrightarrow> cell t2 r (int k) =
         (if r = to_int 0
          then max (ctrl_time sample_flow k) (max (ctrl_time sample_flow k) (reg_time sample_regs 7 k) + STORE_COST) + LOAD_COST
          else cell sample_regs r (int k)))"
  proof (rule skadu_store_then_load)
    show "null_ok {0} sample_platform (MShadowSkadu_init KremlinConfiguration_new tempArray_init)"
      by (rule skadu_init_ok) (simp_all add: sample_platform_inj KremlinConfiguration_new_def)
    show "ready sample_flow 0 sample_regs"
      by (simp add: sample_flow_def sample_regs_def ready_def ctrl_ready_def levels_ready_def
          regs_ready_def table_ok_def KremlinProfiler_new_def getElementAddr_def getOffset_def)
    show "skadu_args {0} 64 (curr_num_instrumented_levels sample_flow)
        (drop (unat (min_level sample_flow)) (level_versions sample_flow)) 8"
      by (simp add: skadu_args_def addr_high_def sample_flow_def KremlinProfiler_new_def)
  qed (simp_all add: sample_flow_def KremlinProfiler_new_def sample_ready)
  moreover have "in_table sample_regs 0 (int 0)" "0 < unat (curr_num_instrumented_levels sample_flow)"
    "max (ctrl_time sample_flow 0) (max (ctrl_time sample_flow 0) (reg_time sample_regs 7 0) + STORE_COST) + LOAD_COST = 12"
    by (simp_all add: in_table_def sample_regs_def sample_flow_def KremlinProfiler_new_def ctrl_time_def cell_def
        STORE_COST_def LOAD_COST_def)
  ultimately show ?thesis by fastforce
qed

end
