(* ===== verification/RegionMemory.thy ===== *)
theory RegionMemory
  imports ShadowInterface
begin

text \<open>
  The contract of a shadow memory over a whole run of the profiled program, in which regions are
  entered and left. Every region that is entered gets a version that was not used before; the array
  of versions keeps the versions of regions that have ended behind the active ones, as
  \<open>level_versions\<close> of the profiler does. A time stored in a region that has ended must not be seen in
  the next region of the same level.
\<close>

section \<open>Runs\<close>

datatype region_op = Enter Version | Leave | Access mem_op

text \<open>A run, with the number of active levels, the array of versions and the memory.\<close>

fun run_regions :: "'m MShadow \<Rightarrow> region_op list \<Rightarrow> nat \<Rightarrow> Version list \<Rightarrow> 'm \<Rightarrow> (Time list list \<times> 'm) option" where
  "run_regions ms [] n vs m = Some ([], m)"
| "run_regions ms (Enter v # es) n vs m = do { vs \<leftarrow> wr vs (int n) v; run_regions ms es (Suc n) vs m }"
| "run_regions ms (Leave # es) n vs m = run_regions ms es (n - 1) vs m"
| "run_regions ms (Access (Load a sz) # es) n vs m = do {
     (ts, m) \<leftarrow> mem_get ms a (of_nat n) vs sz m;
     (tss, m) \<leftarrow> run_regions ms es n vs m;
     Some (take n ts # tss, m) }"
| "run_regions ms (Access (Store a sz ts) # es) n vs m = do {
     m \<leftarrow> mem_set ms a (of_nat n) vs ts sz m;
     run_regions ms es n vs m }"

text \<open>
  What a run loads: every slot has a stack of times, one per active region. A new region sees time 0
  in every slot; the times of a region that ends are gone.
\<close>

fun spec_regions :: "(Addr \<Rightarrow> UInt32 \<Rightarrow> 'k) \<Rightarrow> region_op list \<Rightarrow> nat \<Rightarrow> ('k \<Rightarrow> Time list) \<Rightarrow> Time list list" where
  "spec_regions slot [] n f = []"
| "spec_regions slot (Enter v # es) n f = spec_regions slot es (Suc n) (\<lambda>k. f k @ [0])"
| "spec_regions slot (Leave # es) n f = spec_regions slot es (n - 1) (\<lambda>k. butlast (f k))"
| "spec_regions slot (Access (Load a sz) # es) n f = f (slot a sz) # spec_regions slot es n f"
| "spec_regions slot (Access (Store a sz ts) # es) n f = spec_regions slot es n (f(slot a sz := take n ts))"

text \<open>The runs that occur: versions grow up to a maximum, the nesting stays between 0 and a maximum.\<close>

fun regions_ok :: "(Addr \<Rightarrow> UInt32 \<Rightarrow> bool) \<Rightarrow> (Time list \<Rightarrow> bool) \<Rightarrow> nat \<Rightarrow> nat \<Rightarrow> nat \<Rightarrow> nat \<Rightarrow> region_op list \<Rightarrow> bool" where
  "regions_ok addr_ok vals_ok vmax mx n lim [] = True"
| "regions_ok addr_ok vals_ok vmax mx n lim (Enter v # es) =
     (n < mx \<and> lim \<le> unat v \<and> unat v < vmax \<and> regions_ok addr_ok vals_ok vmax mx (Suc n) (Suc (unat v)) es)"
| "regions_ok addr_ok vals_ok vmax mx n lim (Leave # es) = (0 < n \<and> regions_ok addr_ok vals_ok vmax mx (n - 1) lim es)"
| "regions_ok addr_ok vals_ok vmax mx n lim (Access (Load a sz) # es) = (addr_ok a sz \<and> regions_ok addr_ok vals_ok vmax mx n lim es)"
| "regions_ok addr_ok vals_ok vmax mx n lim (Access (Store a sz ts) # es) =
     (addr_ok a sz \<and> n \<le> length ts \<and> vals_ok (take n ts) \<and> regions_ok addr_ok vals_ok vmax mx n lim es)"

section \<open>The contract\<close>

text \<open>
  \<open>inv lim vs\<close> is the invariant when the regions with versions \<open>vs\<close> are active and all versions used so
  far are below \<open>lim\<close>. The accesses may look at the array of versions behind the active ones. A memory
  may restrict the times it can hold. The first contract is about runs that only enter regions; the
  second adds that regions end.
\<close>

locale nesting_memory =
  fixes get :: "Addr \<Rightarrow> Index \<Rightarrow> Version list \<Rightarrow> UInt32 \<Rightarrow> 'm \<Rightarrow> (Time list \<times> 'm) option"
    and set :: "Addr \<Rightarrow> Index \<Rightarrow> Version list \<Rightarrow> Time list \<Rightarrow> UInt32 \<Rightarrow> 'm \<Rightarrow> 'm option"
    and inv :: "nat \<Rightarrow> Version list \<Rightarrow> 'm \<Rightarrow> bool"
    and addr_ok :: "Addr \<Rightarrow> UInt32 \<Rightarrow> bool"
    and vals_ok :: "Time list \<Rightarrow> bool"
    and max_version :: nat
    and max_depth :: nat
    and slot :: "Addr \<Rightarrow> UInt32 \<Rightarrow> 'k"
    and contents :: "Version list \<Rightarrow> 'm \<Rightarrow> 'k \<Rightarrow> Time list"
  assumes depth_bound: "max_depth < 2 ^ 32"
    and get_ok: "inv lim vs m \<Longrightarrow> addr_ok a sz \<Longrightarrow> length vs \<le> max_depth \<Longrightarrow>
      \<exists>ts m'. get a (of_nat (length vs)) (vs @ old) sz m = Some (ts, m') \<and> inv lim vs m'
        \<and> length vs \<le> length ts \<and> take (length vs) ts = contents vs m (slot a sz)
        \<and> contents vs m' = contents vs m"
    and set_ok: "inv lim vs m \<Longrightarrow> addr_ok a sz \<Longrightarrow> length vs \<le> max_depth \<Longrightarrow> length vs \<le> length ts \<Longrightarrow>
      vals_ok (take (length vs) ts) \<Longrightarrow> \<exists>m'. set a (of_nat (length vs)) (vs @ old) ts sz m = Some m' \<and> inv lim vs m'
        \<and> contents vs m' = (contents vs m)(slot a sz := take (length vs) ts)"
    and enter_ok: "inv lim vs m \<Longrightarrow> length vs < max_depth \<Longrightarrow> lim \<le> unat v \<Longrightarrow>
      unat v < max_version \<Longrightarrow> inv (Suc (unat v)) (vs @ [v]) m \<and> contents (vs @ [v]) m = (\<lambda>k. contents vs m k @ [0])"
begin

text \<open>A run loads what the stacks of times say, if regions end as the second contract says.\<close>

lemma run_refines_leaving:
  assumes "Leave \<in> List.set es \<longrightarrow> (\<forall>lim vs v m. inv lim (vs @ [v]) m \<longrightarrow>
      inv lim vs m \<and> contents vs m = (\<lambda>k. butlast (contents (vs @ [v]) m k)))"
    and "inv lim vs m" "length vs \<le> max_depth" "max_depth \<le> length vs + length old"
    and "regions_ok addr_ok vals_ok max_version max_depth (length vs) lim es"
  shows "\<exists>m'. run_regions \<lparr>mem_get = get, mem_set = set\<rparr> es (length vs) (vs @ old) m
    = Some (spec_regions slot es (length vs) (contents vs m), m')"
  using assms
proof (induction es arbitrary: lim vs old m)
  case (Cons e es)
  have lv: "Leave \<in> List.set es \<longrightarrow> (\<forall>lim vs v m. inv lim (vs @ [v]) m \<longrightarrow>
      inv lim vs m \<and> contents vs m = (\<lambda>k. butlast (contents (vs @ [v]) m k)))"
    using Cons.prems(1) by simp
  note prems = Cons.prems(2-5) and IH = Cons.IH [OF lv]
  show ?case
  proof (cases e)
    case (Enter v)
    then have v: "length vs < max_depth" "lim \<le> unat v" "unat v < max_version"
      "regions_ok addr_ok vals_ok max_version max_depth (length (vs @ [v])) (Suc (unat v)) es" using prems(4) by simp_all
    then obtain u old' where old: "old = u # old'" using prems(3) by (cases old) auto
    have w: "wr (vs @ old) (int (length vs)) v = Some ((vs @ [v]) @ old')"
      by (subst wr_int) (simp_all add: old)
    note e = enter_ok [OF prems(1) v(1-3)]
    have "max_depth \<le> length (vs @ [v]) + length old'" using prems(3) old by simp
    from IH [OF conjunct1 [OF e] _ this v(4)] v(1) show ?thesis using Enter w e by simp
  next
    case Leave
    then obtain us v where vs: "vs = us @ [v]" using prems(4) by (cases vs rule: rev_cases) auto
    have "Leave \<in> List.set (e # es)" using Leave by simp
    then have l: "inv lim us m \<and> contents us m = (\<lambda>k. butlast (contents (us @ [v]) m k))"
      using Cons.prems(1) prems(1) [unfolded vs] by blast
    have "length us \<le> max_depth" "max_depth \<le> length us + length (v # old)"
      "regions_ok addr_ok vals_ok max_version max_depth (length us) lim es" using prems vs Leave by simp_all
    from IH [OF conjunct1 [OF l] this] show ?thesis using Leave l vs by simp
  next
    case (Access x)
    show ?thesis
    proof (cases x)
      case (Load a sz)
      then have ok: "addr_ok a sz" "regions_ok addr_ok vals_ok max_version max_depth (length vs) lim es" using prems(4) Access by simp_all
      from get_ok [OF prems(1) ok(1) prems(2), of old] obtain ts m' where
        g: "get a (of_nat (length vs)) (vs @ old) sz m = Some (ts, m')" "inv lim vs m'"
        "take (length vs) ts = contents vs m (slot a sz)" "contents vs m' = contents vs m" by blast
      from IH [OF g(2) prems(2,3) ok(2)] show ?thesis using Access Load g by auto
    next
      case (Store a sz ts)
      then have ok: "addr_ok a sz" "length vs \<le> length ts" "vals_ok (take (length vs) ts)" "regions_ok addr_ok vals_ok max_version max_depth (length vs) lim es"
        using prems(4) Access by simp_all
      from set_ok [OF prems(1) ok(1) prems(2) ok(2,3), of old] obtain m' where
        s: "set a (of_nat (length vs)) (vs @ old) ts sz m = Some m'" "inv lim vs m'"
        "contents vs m' = (contents vs m)(slot a sz := take (length vs) ts)" by blast
      from IH [OF s(2) prems(2,3) ok(4)] show ?thesis using Access Store s by (auto simp: fun_upd_def)
    qed
  qed
qed simp

text \<open>Runs that only enter regions.\<close>

lemma run_entering_refines:
  assumes "Leave \<notin> List.set es" "inv lim vs m" "length vs \<le> max_depth" "max_depth \<le> length vs + length old"
    and "regions_ok addr_ok vals_ok max_version max_depth (length vs) lim es"
  shows "\<exists>m'. run_regions \<lparr>mem_get = get, mem_set = set\<rparr> es (length vs) (vs @ old) m
    = Some (spec_regions slot es (length vs) (contents vs m), m')"
  by (rule run_refines_leaving [OF _ assms(2-5)]) (use assms(1) in simp)

end

locale region_memory = nesting_memory get set inv addr_ok vals_ok max_version max_depth slot contents
  for get :: "Addr \<Rightarrow> Index \<Rightarrow> Version list \<Rightarrow> UInt32 \<Rightarrow> 'm \<Rightarrow> (Time list \<times> 'm) option"
    and set :: "Addr \<Rightarrow> Index \<Rightarrow> Version list \<Rightarrow> Time list \<Rightarrow> UInt32 \<Rightarrow> 'm \<Rightarrow> 'm option"
    and inv :: "nat \<Rightarrow> Version list \<Rightarrow> 'm \<Rightarrow> bool"
    and addr_ok :: "Addr \<Rightarrow> UInt32 \<Rightarrow> bool"
    and vals_ok :: "Time list \<Rightarrow> bool"
    and max_version :: nat
    and max_depth :: nat
    and slot :: "Addr \<Rightarrow> UInt32 \<Rightarrow> 'k"
    and contents :: "Version list \<Rightarrow> 'm \<Rightarrow> 'k \<Rightarrow> Time list" +
  assumes leave_ok: "inv lim (vs @ [v]) m \<Longrightarrow>
      inv lim vs m \<and> contents vs m = (\<lambda>k. butlast (contents (vs @ [v]) m k))"
begin

text \<open>Every run loads what the stacks of times say.\<close>

lemma run_regions_refines:
  assumes "inv lim vs m" "length vs \<le> max_depth" "max_depth \<le> length vs + length old"
    and "regions_ok addr_ok vals_ok max_version max_depth (length vs) lim es"
  shows "\<exists>m'. run_regions \<lparr>mem_get = get, mem_set = set\<rparr> es (length vs) (vs @ old) m
    = Some (spec_regions slot es (length vs) (contents vs m), m')"
  by (rule run_refines_leaving [OF _ assms]) (use leave_ok in blast)

end

text \<open>Between two region events the memory keeps the contract for one array of versions.\<close>

sublocale nesting_memory \<subseteq> fixed: shadow_memory get set "inv lim vs"
    "\<lambda>a n ws sz. addr_ok a sz \<and> length vs \<le> max_depth \<and> n = of_nat (length vs) \<and> (\<exists>old. ws = vs @ old)"
    vals_ok slot "\<lambda>m k i v. contents vs m k ! i" for lim vs
proof unfold_locales
  fix m :: 'm and a :: Addr and n :: Index and ws :: "Version list" and sz :: UInt32
  assume inv: "inv lim vs m" and "addr_ok a sz \<and> length vs \<le> max_depth \<and> n = of_nat (length vs) \<and> (\<exists>old. ws = vs @ old)"
  then obtain old where a: "addr_ok a sz" "length vs \<le> max_depth" "n = of_nat (length vs)" "ws = vs @ old" by blast
  have n: "unat n = length vs" using a(2,3) depth_bound by (simp add: unat_of_nat32)
  from get_ok [OF inv a(1,2), of old] obtain ts m' where
    g: "get a n ws sz m = Some (ts, m')" "inv lim vs m'" "length vs \<le> length ts"
    "take (length vs) ts = contents vs m (slot a sz)" "contents vs m' = contents vs m" using a(3,4) by blast
  have "ts ! i = contents vs m (slot a sz) ! i" if "i < length vs" for i
    using that by (simp flip: g(4))
  with g n show "\<exists>ts m'. get a n ws sz m = Some (ts, m') \<and> inv lim vs m' \<and> unat n \<le> length ts
      \<and> (\<forall>i < unat n. ts ! i = contents vs m (slot a sz) ! i)
      \<and> (\<forall>k i. i < unat n \<longrightarrow> contents vs m' k ! i = contents vs m k ! i)" by auto
next
  fix m :: 'm and a :: Addr and n :: Index and ws :: "Version list" and sz :: UInt32 and ts :: "Time list"
  assume inv: "inv lim vs m" and "addr_ok a sz \<and> length vs \<le> max_depth \<and> n = of_nat (length vs) \<and> (\<exists>old. ws = vs @ old)"
    and len: "unat n \<le> length ts" and vals: "vals_ok (take (unat n) ts)"
  then obtain old where a: "addr_ok a sz" "length vs \<le> max_depth" "n = of_nat (length vs)" "ws = vs @ old" by blast
  have n: "unat n = length vs" using a(2,3) depth_bound by (simp add: unat_of_nat32)
  from set_ok [OF inv a(1,2), of ts old] obtain m' where
    s: "set a n ws ts sz m = Some m'" "inv lim vs m'"
    "contents vs m' = (contents vs m)(slot a sz := take (length vs) ts)" using a(3,4) n len vals by auto
  with n len show "\<exists>m'. set a n ws ts sz m = Some m' \<and> inv lim vs m'
      \<and> (\<forall>i < unat n. contents vs m' (slot a sz) ! i = ts ! i)
      \<and> (\<forall>k i. k \<noteq> slot a sz \<longrightarrow> i < unat n \<longrightarrow> contents vs m' k ! i = contents vs m k ! i)" by auto
qed

end
