(* ===== verification/SkaduRuns.thy ===== *)
theory SkaduRuns
  imports MemoryFlow RegionMemory
begin

text \<open>
  Whole runs on \<open>MShadowSkadu\<close> with \<open>NullCache\<close>: regions are entered and left between the accesses, and
  the garbage collector runs when it is due.
\<close>

definition null_inv :: "UInt32 set \<Rightarrow> Platform \<Rightarrow> nat \<Rightarrow> Version list \<Rightarrow> NullCache MShadowSkadu \<Rightarrow> bool" where
  "null_inv H env bnd vs m \<longleftrightarrow> null_ok H env m \<and> (\<forall>v \<in> set vs. unat v < bnd) \<and> (\<forall>v. bnd \<le> unat v \<longrightarrow> zero_at m v)"

definition high_in :: "UInt32 set \<Rightarrow> Addr \<Rightarrow> UInt32 \<Rightarrow> bool" where
  "high_in H a sz \<longleftrightarrow> addr_high a \<in> H"

definition skadu_contents :: "Version list \<Rightarrow> 'c MShadowSkadu \<Rightarrow> place \<Rightarrow> Time list" where
  "skadu_contents vs m k = map (\<lambda>i. skadu_view m k i (vs ! i)) [0..<length vs]"

lemma length_index: "length vs \<le> 64 \<Longrightarrow> unat (of_nat (length vs) :: Index) = length vs"
  by (rule unat_of_nat32) simp

lemma skadu_args_old: "high_in H a sz \<Longrightarrow> length vs \<le> 64 \<Longrightarrow> skadu_args H a (of_nat (length vs)) (vs @ old) sz"
  by (simp add: skadu_args_def high_in_def length_index)

lemma null_get_contents:
  assumes inv: "null_inv H env bnd vs m" and a: "high_in H a sz" and n: "length vs \<le> 64"
  shows "\<exists>ts m'. null_get env a (of_nat (length vs)) (vs @ old) sz m = Some (ts, m') \<and> null_inv H env bnd vs m'
    \<and> length vs \<le> length ts \<and> take (length vs) ts = skadu_contents vs m (word_place a sz)
    \<and> skadu_contents vs m' = skadu_contents vs m"
proof -
  have ok: "null_ok H env m" using inv by (simp add: null_inv_def)
  obtain ts m' where g: "null_get env a (of_nat (length vs)) (vs @ old) sz m = Some (ts, m')" "null_ok H env m'"
    "length vs \<le> length ts" "\<forall>i < length vs. ts ! i = skadu_view m (word_place a sz) i ((vs @ old) ! i)"
    "\<forall>k i v. skadu_view m' k i v = skadu_view m k i v"
    using skadu_null_get_ok [OF ok skadu_args_old [OF a n]] unfolding length_index [OF n] by blast
  have "zero_at m' v = zero_at m v" for v by (rule zero_at_cong) (use g(5) in blast)
  then have "null_inv H env bnd vs m'" using inv g(2) by (simp add: null_inv_def)
  moreover have "take (length vs) ts = skadu_contents vs m (word_place a sz)"
    by (rule nth_equalityI) (use g(3,4) in \<open>simp_all add: skadu_contents_def nth_append\<close>)
  moreover have "skadu_contents vs m' = skadu_contents vs m"
    unfolding skadu_contents_def fun_eq_iff using g(5) by simp
  ultimately show ?thesis using g(1,3) by blast
qed

lemma null_set_contents:
  assumes inv: "null_inv H env bnd vs m" and a: "high_in H a sz" and n: "length vs \<le> 64" and ts: "length vs \<le> length ts"
  shows "\<exists>m'. null_set env a (of_nat (length vs)) (vs @ old) ts sz m = Some m' \<and> null_inv H env bnd vs m'
    \<and> skadu_contents vs m' = (skadu_contents vs m)(word_place a sz := take (length vs) ts)"
proof -
  have ok: "null_ok H env m" using inv by (simp add: null_inv_def)
  obtain m' where s: "null_set env a (of_nat (length vs)) (vs @ old) ts sz m = Some m'" "null_ok H env m'"
    "\<forall>i < length vs. skadu_view m' (word_place a sz) i ((vs @ old) ! i) = ts ! i"
    "\<forall>k i. k \<noteq> word_place a sz \<longrightarrow> i < length vs \<longrightarrow> skadu_view m' k i ((vs @ old) ! i) = skadu_view m k i ((vs @ old) ! i)"
    "\<forall>v. v \<notin> set (take (length vs) (vs @ old)) \<longrightarrow> zero_at m v \<longrightarrow> zero_at m' v"
    using skadu_null_set_ok [OF ok skadu_args_old [OF a n], of ts old] ts unfolding length_index [OF n] by blast
  have "zero_at m' v" if "bnd \<le> unat v" for v
  proof -
    have "v \<notin> set vs" using inv that by (fastforce simp: null_inv_def)
    moreover have "zero_at m v" using inv that by (simp add: null_inv_def)
    ultimately show ?thesis using s(5) by simp
  qed
  then have "null_inv H env bnd vs m'" using inv s(2) by (simp add: null_inv_def)
  moreover have "skadu_contents vs m' k = ((skadu_contents vs m)(word_place a sz := take (length vs) ts)) k" for k
  proof (rule nth_equalityI)
    fix i assume "i < length (skadu_contents vs m' k)"
    then have i: "i < length vs" by (simp add: skadu_contents_def)
    show "skadu_contents vs m' k ! i = ((skadu_contents vs m)(word_place a sz := take (length vs) ts)) k ! i"
    proof (cases "k = word_place a sz")
      case True
      then show ?thesis using s(3) i ts by (simp add: skadu_contents_def nth_append)
    next
      case False
      then have "skadu_view m' k i ((vs @ old) ! i) = skadu_view m k i ((vs @ old) ! i)" using s(4) i by blast
      then show ?thesis using False i by (simp add: skadu_contents_def nth_append)
    qed
  qed (use ts in \<open>simp add: skadu_contents_def\<close>)
  ultimately show ?thesis using s(1) by blast
qed

lemma null_enter:
  assumes "null_inv H env bnd vs m" "bnd \<le> unat v"
  shows "null_inv H env (Suc (unat v)) (vs @ [v]) m \<and> skadu_contents (vs @ [v]) m = (\<lambda>k. skadu_contents vs m k @ [0])"
proof
  show "null_inv H env (Suc (unat v)) (vs @ [v]) m" using assms by (fastforce simp: null_inv_def)
  have "zero_at m v" using assms by (simp add: null_inv_def)
  then show "skadu_contents (vs @ [v]) m = (\<lambda>k. skadu_contents vs m k @ [0])"
    unfolding fun_eq_iff skadu_contents_def using zero_atD [of m v] by (simp add: nth_append)
qed

lemma null_leave:
  "null_inv H env bnd (vs @ [v]) m \<Longrightarrow> null_inv H env bnd vs m \<and> skadu_contents vs m = (\<lambda>k. butlast (skadu_contents (vs @ [v]) m k))"
  unfolding fun_eq_iff skadu_contents_def by (simp add: null_inv_def nth_append butlast_append)

interpretation skadu_runs: region_memory "null_get env" "null_set env" "null_inv H env" "high_in H" "\<lambda>ts. True" "2 ^ 64" 64 word_place skadu_contents
  for H env
  by unfold_locales (simp, (rule null_get_contents null_set_contents null_enter null_leave, assumption+)+)

text \<open>
  C25. A run of the profiled program on a fresh \<open>MShadowSkadu\<close>, with regions entered and left, loads and
  stores of any width, and garbage collections whenever they are due: no run gets stuck, and every load
  returns what a stack of times per 8-byte word says. In particular no time survives from one region to
  the next one at the same level. The program may nest 64 levels deep and touch 32 segments of 4 GB.
\<close>

theorem skadu_run_refines:
  assumes "\<not> compress_shadow_mem cfg" "card H \<le> 32" "inj (plat_addr env)" "64 \<le> length arr"
    and "regions_ok (high_in H) (\<lambda>ts. True) (2 ^ 64) 64 0 bnd es"
  shows "\<exists>m'. run_regions (skadu_null_shadow env) es 0 arr (MShadowSkadu_init cfg tempArray_init)
     = Some (spec_regions word_place es 0 (\<lambda>w. []), m')"
proof -
  let ?m = "MShadowSkadu_init cfg tempArray_init"
  have z: "zero_at ?m v" for v by (rule zero_atI) (rule skadu_init_view)
  have "null_inv H env bnd [] ?m" using skadu_init_ok [OF assms(1-3)] z by (simp add: null_inv_def)
  moreover have "skadu_contents [] ?m = (\<lambda>w. [])" unfolding fun_eq_iff skadu_contents_def by simp
  ultimately show ?thesis
    using skadu_runs.run_regions_refines [of H env bnd "[]" ?m arr es] assms(4,5) by (simp add: skadu_null_shadow_def)
qed

theorem skadu_run_refines_witness:
  "\<exists>m'. run_regions (skadu_null_shadow sample_platform)
      [Enter 1, Enter 2, Access (Store 64 4 [7, 3]), Leave, Enter 3, Access (Load 64 4)] 0 (replicate 64 0)
      (MShadowSkadu_init KremlinConfiguration_new tempArray_init) = Some ([[7, 0]], m')"
proof -
  let ?es = "[Enter 1, Enter 2, Access (Store 64 4 [7, 3]), Leave, Enter 3, Access (Load 64 4)]"
  have "regions_ok (high_in {0}) (\<lambda>ts. True) (2 ^ 64) 64 0 1 ?es" by (simp add: high_in_def addr_high_def)
  moreover have "\<not> compress_shadow_mem KremlinConfiguration_new" "card {0 :: UInt32} \<le> 32"
    by (simp_all add: KremlinConfiguration_new_def)
  ultimately show ?thesis
    using skadu_run_refines [OF _ _ sample_platform_inj, of KremlinConfiguration_new "{0}" "replicate 64 0" 1 ?es]
    by auto
qed

end
