(* ===== verification/BlockCopy.thy ===== *)
theory BlockCopy
  imports KPrelude
begin

text \<open>
  Copying and clearing in an array of blocks: block \<open>s\<close> has the \<open>d\<close> elements from \<open>s * d\<close> on. The tables
  of times of \<open>MShadowBase\<close> and \<open>MShadowSTV\<close> and the value table of the cache have a block per address
  or row, with an element per level.
\<close>

lemma block_inj:
  assumes "i < d" "j < (d :: nat)"
  shows "s * d + i = t * d + j \<longleftrightarrow> s = t \<and> i = j"
proof
  assume eq: "s * d + i = t * d + j"
  have "(s * d + i) div d = s" "(t * d + j) div d = t" using assms by simp_all
  with eq have "s = t" by simp
  with eq show "s = t \<and> i = j" by simp
qed simp

lemma block_range:
  assumes "i < d" "a \<le> n" "n \<le> (d :: nat)"
  shows "s * d + a \<le> t * d + i \<and> t * d + i < s * d + n \<longleftrightarrow> t = s \<and> a \<le> i \<and> i < n"
proof
  assume r: "s * d + a \<le> t * d + i \<and> t * d + i < s * d + n"
  let ?j = "t * d + i - s * d"
  have "t * d + i = s * d + ?j" "?j < d" using r assms by linarith+
  then have "t = s" "i = ?j" using block_inj [OF assms(1), of ?j t s] by blast+
  then show "t = s \<and> a \<le> i \<and> i < n" using r by auto
qed auto

lemma block_end: "s < k \<Longrightarrow> n \<le> d \<Longrightarrow> s * d + n \<le> k * (d :: nat)"
proof -
  assume "s < k" "n \<le> d"
  then have "Suc s * d \<le> k * d" by (intro mult_le_mono1) simp
  with \<open>n \<le> d\<close> show ?thesis by simp
qed

lemma memcpy_block:
  assumes "s < k" "n \<le> d" "k * d \<le> length xs" "b + n \<le> length ys"
  shows "\<exists>zs. memcpy xs (int (s * d)) ys (int b) n = Some zs \<and> length zs = length xs
    \<and> (\<forall>t < k. \<forall>i < d. zs ! (t * d + i) = (if t = s \<and> i < n then ys ! (b + i) else xs ! (t * d + i)))"
proof -
  have le: "s * d + n \<le> length xs" using block_end [OF assms(1,2)] assms(3) by simp
  then obtain zs where zs: "memcpy xs (int (s * d)) ys (int b) n = Some zs"
    using assms(4) by (simp add: memcpy_def del: of_nat_mult)
  have "zs ! (t * d + i) = (if t = s \<and> i < n then ys ! (b + i) else xs ! (t * d + i))" if "t < k" "i < d" for t i
  proof -
    have "Suc i \<le> d" using that(2) by simp
    then have "t * d + i < length xs" using block_end [OF that(1), of "Suc i" d] assms(3) by simp
    from memcpy_nth [OF zs this] block_range [OF that(2) le0 assms(2), of s t] show ?thesis
      by (auto simp del: of_nat_mult)
  qed
  with zs memcpy_length [OF zs] show ?thesis by blast
qed

lemma memcpy_block_at:
  assumes "s < k" "a \<le> n" "n \<le> d" "k * d \<le> length xs" "n \<le> length ys"
  shows "\<exists>zs. memcpy xs (int (s * d + a)) ys (int a) (n - a) = Some zs \<and> length zs = length xs
    \<and> (\<forall>t < k. \<forall>i < d. zs ! (t * d + i) = (if t = s \<and> a \<le> i \<and> i < n then ys ! i else xs ! (t * d + i)))"
proof -
  have le: "s * d + n \<le> length xs" using block_end [OF assms(1,3)] assms(4) by simp
  then have "int (s * d + a) + int (n - a) \<le> int (length xs)" "int a + int (n - a) \<le> int (length ys)"
    using assms(2,5) by (simp_all only: flip: of_nat_add)
  then obtain zs where zs: "memcpy xs (int (s * d + a)) ys (int a) (n - a) = Some zs"
    by (simp add: memcpy_def del: of_nat_mult of_nat_add)
  have "zs ! (t * d + i) = (if t = s \<and> a \<le> i \<and> i < n then ys ! i else xs ! (t * d + i))" if "t < k" "i < d" for t i
  proof -
    have "Suc i \<le> d" using that(2) by simp
    then have "t * d + i < length xs" using block_end [OF that(1), of "Suc i" d] assms(4) by simp
    moreover have "s * d + a + (n - a) = s * d + n" using assms(2) by simp
    moreover have "a + (t * d + i - (s * d + a)) = i" if "t = s" "a \<le> i" using that by simp
    ultimately show ?thesis
      using memcpy_nth [OF zs] block_range [OF that(2) assms(2,3), of s t] by (auto simp del: of_nat_add of_nat_mult)
  qed
  with zs memcpy_length [OF zs] show ?thesis by blast
qed

lemma memzero_block:
  fixes xs :: "'a :: zero list"
  assumes "s < k" "a \<le> n" "n \<le> d" "k * d \<le> length xs"
  shows "\<exists>zs. memzero xs (int (s * d + a)) (n - a) = Some zs \<and> length zs = length xs
    \<and> (\<forall>t < k. \<forall>i < d. zs ! (t * d + i) = (if t = s \<and> a \<le> i \<and> i < n then 0 else xs ! (t * d + i)))"
proof -
  have "s * d + n \<le> length xs" using block_end [OF assms(1,3)] assms(4) by simp
  then have "int (s * d + a) + int (n - a) \<le> int (length xs)" using assms(2) by (simp only: flip: of_nat_add)
  then obtain zs where zs: "memzero xs (int (s * d + a)) (n - a) = Some zs"
    using memzero_in [of "int (s * d + a)" "n - a" xs] by auto
  have "zs ! (t * d + i) = (if t = s \<and> a \<le> i \<and> i < n then 0 else xs ! (t * d + i))" if "t < k" "i < d" for t i
  proof -
    have "Suc i \<le> d" using that(2) by simp
    then have "t * d + i < length xs" using block_end [OF that(1), of "Suc i" d] assms(4) by simp
    moreover have "s * d + a + (n - a) = s * d + n" using assms(2) by simp
    ultimately show ?thesis
      using memzero_nth [OF zs] block_range [OF that(2) assms(2,3), of s t] by (simp del: of_nat_add of_nat_mult)
  qed
  with zs memzero_length [OF zs] show ?thesis by blast
qed

end
