(* ===== verification/DirectMemory.thy ===== *)
theory DirectMemory
  imports RegionMemory ShadowStat KConfig BlockCopy
begin

unbundle bit_operations_syntax

text \<open>
  What the shadow memories \<open>MShadowBase\<close> and \<open>MShadowSTV\<close> share: a sparse table of up to 32 segments
  of 4 GB, each with an entry for every chunk of 64 KB, which holds a table of times and one of
  versions. Both files (\<open>runtime/src/MShadowBase.cpp\<close>, \<open>MShadowSTV.cpp\<close>) declare the same types
  and the same functions on them; the references here are to the first.
\<close>

section \<open>State\<close>

text \<open>
  The pointers of an entry are null until its chunk is accessed. The depth is the number of levels
  with a time per address; it is positive and far below \<open>2^17\<close>, so the products of an offset (below
  \<open>2^14\<close>) and the depth stay in \<open>int\<close>.
\<close>

record SegEntry =
  tTable :: "Time list option"
  versions :: "Version list option"
  seg_type :: TableType
  seg_depth :: nat

text \<open>A segment table has an entry for every value of \<open>SegTableGetIndex\<close>.\<close>

type_synonym SegTable = "nat \<Rightarrow> SegEntry"

record SEntry =
  se_high :: UInt32
  se_table :: "SegTable option"

record DirectStat =
  ds_nSTableEntry :: UInt64
  ds_nSegTableAllocated :: UInt64
  ds_nSegTableActive :: UInt64
  ds_nSegTableActiveMax :: UInt64
  ds_nTimeTableAllocated :: "TableType \<Rightarrow> UInt64"
  ds_nTimeTableFreed :: "TableType \<Rightarrow> UInt64"
  ds_nTimeTableActive :: UInt64
  ds_nTimeTableActiveMax :: UInt64
  ds_nTimeTableConverted :: UInt64
  ds_reqRead :: "UInt64 list"
  ds_reqWrite :: "UInt64 list"

text \<open>\<open>n_allocs\<close> counts the blocks that \<open>malloc\<close> has returned.\<close>

record DirectMemory =
  st_entry :: "SEntry list"
  st_writePtr :: nat
  dm_stat :: DirectStat
  n_allocs :: nat

definition STABLE_SIZE :: nat where
  "STABLE_SIZE = 32"

definition L1_SIZE :: nat where
  "L1_SIZE = 65536"

definition L2_SIZE :: nat where
  "L2_SIZE = 16384"

section \<open>Positions in a chunk\<close>

definition getTimeTableEntrySize :: "TableType \<Rightarrow> nat" where
  "getTimeTableEntrySize ty = (if ty = TYPE_64BIT then L2_SIZE div 2 else L2_SIZE)"

definition SegTableEntryOffset :: "Addr \<Rightarrow> TableType \<Rightarrow> nat" where
  "SegTableEntryOffset addr ty =
     (let ret = unat (drop_bit 2 addr AND 0x3fff) in if ty = TYPE_64BIT then ret div 2 else ret)"

definition TimeTableGetIndex :: "Addr \<Rightarrow> nat \<Rightarrow> TableType \<Rightarrow> nat" where
  "TimeTableGetIndex addr d ty = SegTableEntryOffset addr ty * d"

definition SegTableGetIndex :: "Addr \<Rightarrow> nat" where
  "SegTableGetIndex addr = unat (drop_bit 16 addr AND 0xffff)"

section \<open>Segments\<close>

definition eventTableAlloc :: "TableType \<Rightarrow> DirectStat \<Rightarrow> DirectStat" where
  "eventTableAlloc ty st =
     (let st = st\<lparr>ds_nTimeTableAllocated := (ds_nTimeTableAllocated st)(ty := ds_nTimeTableAllocated st ty + 1),
                  ds_nTimeTableActive := ds_nTimeTableActive st + 1\<rparr>
      in if ds_nTimeTableActive st > ds_nTimeTableActiveMax st
         then st\<lparr>ds_nTimeTableActiveMax := ds_nTimeTableActiveMax st + 1\<rparr> else st)"

definition TimeTableFree :: "TableType \<Rightarrow> DirectStat \<Rightarrow> DirectStat" where
  "TimeTableFree ty st = st\<lparr>ds_nTimeTableActive := ds_nTimeTableActive st - 1,
     ds_nTimeTableFreed := (ds_nTimeTableFreed st)(ty := ds_nTimeTableFreed st ty + 1)\<rparr>"

definition SegEntry_new :: "KremlinConfiguration \<Rightarrow> SegEntry" where
  "SegEntry_new cfg = \<lparr>tTable = None, versions = None, seg_type = TYPE_64BIT, seg_depth = unat (getNumProfiledLevels cfg)\<rparr>"

definition SegTableAlloc :: "KremlinConfiguration \<Rightarrow> DirectStat \<Rightarrow> SegTable \<times> DirectStat" where
  "SegTableAlloc cfg st =
     (let st = st\<lparr>ds_nSegTableAllocated := ds_nSegTableAllocated st + 1, ds_nSegTableActive := ds_nSegTableActive st + 1\<rparr>;
          st = (if ds_nSegTableActive st > ds_nSegTableActiveMax st
                then st\<lparr>ds_nSegTableActiveMax := ds_nSegTableActiveMax st + 1\<rparr> else st)
      in ((\<lambda>i. SegEntry_new cfg), st))"

definition free_entry :: "SegTable \<Rightarrow> nat \<Rightarrow> DirectStat \<Rightarrow> DirectStat" where
  "free_entry table i st = (case tTable (table i) of None \<Rightarrow> st | Some t \<Rightarrow> TimeTableFree (seg_type (table i)) st)"

definition SegTableFree :: "SegTable \<Rightarrow> DirectStat \<Rightarrow> DirectStat" where
  "SegTableFree table st =
     (let st = fold (free_entry table) [0..<L1_SIZE] st in st\<lparr>ds_nSegTableActive := ds_nSegTableActive st - 1\<rparr>)"

section \<open>The sparse table\<close>

definition STableInit :: "DirectMemory \<Rightarrow> DirectMemory" where
  "STableInit m = m\<lparr>st_writePtr := 0\<rparr>"

definition deinit_segment :: "nat \<Rightarrow> DirectMemory \<Rightarrow> DirectMemory option" where
  "deinit_segment i m = do {
     e \<leftarrow> rd (st_entry m) (int i);
     table \<leftarrow> se_table e;
     Some (m\<lparr>dm_stat := SegTableFree table (dm_stat m)\<rparr>) }"

definition STableDeinit :: "DirectMemory \<Rightarrow> DirectMemory option" where
  "STableDeinit m = for_range 0 (st_writePtr m) deinit_segment m"

fun find_segment :: "SEntry list \<Rightarrow> UInt32 \<Rightarrow> nat \<Rightarrow> nat \<Rightarrow> nat option option" where
  "find_segment es high i 0 = Some None"
| "find_segment es high i (Suc k) = do {
     e \<leftarrow> rd es (int i);
     if se_high e = high then Some (Some i) else find_segment es high (Suc i) k }"

definition high_addr :: "Addr \<Rightarrow> UInt32" where
  "high_addr addr = ucast (drop_bit 32 addr)"

text \<open>The pointer that \<open>STableGetSegTable\<close> returns is named by the number of the segment.\<close>

definition STableGetSegTable :: "KremlinConfiguration \<Rightarrow> Addr \<Rightarrow> DirectMemory \<Rightarrow> (nat \<times> DirectMemory) option" where
  "STableGetSegTable cfg addr m = do {
     let highAddr = high_addr addr;
     found \<leftarrow> find_segment (st_entry m) highAddr 0 (st_writePtr m);
     (case found of
        Some i \<Rightarrow> Some (i, m)
      | None \<Rightarrow> do {
          let st = (dm_stat m)\<lparr>ds_nSTableEntry := ds_nSTableEntry (dm_stat m) + 1\<rparr>;
          let (ret, st) = SegTableAlloc cfg st;
          es \<leftarrow> wr (st_entry m) (int (st_writePtr m)) \<lparr>se_high = highAddr, se_table = Some ret\<rparr>;
          Some (st_writePtr m, m\<lparr>st_entry := es, dm_stat := st, st_writePtr := st_writePtr m + 1\<rparr>) }) }"

text \<open>
  \<open>SegTableGetEntry\<close> gives a pointer into the segment: reading an entry, and writing it back after it
  has changed.
\<close>

definition SegTableGetEntry :: "nat \<Rightarrow> Addr \<Rightarrow> DirectMemory \<Rightarrow> SegEntry option" where
  "SegTableGetEntry i addr m = do {
     e \<leftarrow> rd (st_entry m) (int i);
     table \<leftarrow> se_table e;
     Some (table (SegTableGetIndex addr)) }"

definition put_entry :: "nat \<Rightarrow> Addr \<Rightarrow> SegEntry \<Rightarrow> DirectMemory \<Rightarrow> DirectMemory option" where
  "put_entry i addr entry m = do {
     e \<leftarrow> rd (st_entry m) (int i);
     table \<leftarrow> se_table e;
     es \<leftarrow> wr (st_entry m) (int i) (e\<lparr>se_table := Some (table(SegTableGetIndex addr := entry))\<rparr>);
     Some (m\<lparr>st_entry := es\<rparr>) }"

text \<open>The type of an access, from its width in bytes.\<close>

definition access_type :: "UInt32 \<Rightarrow> TableType" where
  "access_type width = (if width > 4 then TYPE_64BIT else TYPE_32BIT)"

text \<open>The static variables before \<open>init\<close>.\<close>

definition DirectStat_zero :: DirectStat where
  "DirectStat_zero = \<lparr>ds_nSTableEntry = 0, ds_nSegTableAllocated = 0, ds_nSegTableActive = 0,
     ds_nSegTableActiveMax = 0, ds_nTimeTableAllocated = (\<lambda>ty. 0), ds_nTimeTableFreed = (\<lambda>ty. 0),
     ds_nTimeTableActive = 0, ds_nTimeTableActiveMax = 0, ds_nTimeTableConverted = 0,
     ds_reqRead = replicate 64 0, ds_reqWrite = replicate 64 0\<rparr>"

definition DirectMemory_zero :: DirectMemory where
  "DirectMemory_zero = \<lparr>st_entry = replicate STABLE_SIZE \<lparr>se_high = 0, se_table = None\<rparr>, st_writePtr = 0,
     dm_stat = DirectStat_zero, n_allocs = 0\<rparr>"

section \<open>The entry of a chunk\<close>

text \<open>Seen from outside, every chunk has an entry; in a segment that does not exist it is the new one.\<close>

definition segment_of :: "DirectMemory \<Rightarrow> UInt32 \<Rightarrow> nat option" where
  "segment_of m high = find (\<lambda>i. se_high (st_entry m ! i) = high) [0..<st_writePtr m]"

definition seg_entry :: "KremlinConfiguration \<Rightarrow> DirectMemory \<Rightarrow> UInt32 \<Rightarrow> nat \<Rightarrow> SegEntry" where
  "seg_entry cfg m high ix = (case segment_of m high of None \<Rightarrow> SegEntry_new cfg
     | Some i \<Rightarrow> (case se_table (st_entry m ! i) of None \<Rightarrow> SegEntry_new cfg | Some t \<Rightarrow> t ix))"

definition segments_ok :: "UInt32 set \<Rightarrow> DirectMemory \<Rightarrow> bool" where
  "segments_ok H m \<longleftrightarrow> length (st_entry m) = 32 \<and> st_writePtr m \<le> 32 \<and> card H \<le> 32
     \<and> inj_on (\<lambda>i. se_high (st_entry m ! i)) {..<st_writePtr m}
     \<and> (\<forall>i < st_writePtr m. se_high (st_entry m ! i) \<in> H \<and> se_table (st_entry m ! i) \<noteq> None)"

lemma find_segment_find:
  "i + k \<le> length es \<Longrightarrow> find_segment es high i k = Some (find (\<lambda>j. se_high (es ! j) = high) [i..<i + k])"
proof (induction k arbitrary: i)
  case (Suc k)
  have "[i..<i + Suc k] = i # [Suc i..<Suc i + k]" by (simp add: upt_conv_Cons)
  with Suc show ?case by (simp add: rd_int)
qed simp

lemma segment_ofD: "segment_of m high = Some i \<Longrightarrow> i < st_writePtr m \<and> se_high (st_entry m ! i) = high"
  by (auto simp: segment_of_def find_Some_iff)

lemma segment_of_None: "segment_of m high = None \<longleftrightarrow> (\<forall>i < st_writePtr m. se_high (st_entry m ! i) \<noteq> high)"
  by (auto simp: segment_of_def find_None_iff)

lemma find_upt_Suc:
  "find P [0..<Suc n] = (case find P [0..<n] of None \<Rightarrow> if P n then Some n else None | r \<Rightarrow> r)"
proof -
  have app: "find P (xs @ ys) = (case find P xs of None \<Rightarrow> find P ys | r \<Rightarrow> r)" for xs ys :: "nat list"
    by (induction xs) auto
  show ?thesis by (simp add: app split: option.split)
qed

text \<open>The segment of an address is found or made; no entry changes.\<close>

lemma STableGetSegTable_ok:
  assumes "segments_ok H m" "high_addr addr \<in> H"
  shows "\<exists>i m'. STableGetSegTable cfg addr m = Some (i, m') \<and> segments_ok H m'
    \<and> segment_of m' (high_addr addr) = Some i \<and> seg_entry cfg m' = seg_entry cfg m
    \<and> n_allocs m' = n_allocs m \<and> ds_reqRead (dm_stat m') = ds_reqRead (dm_stat m)
    \<and> ds_reqWrite (dm_stat m') = ds_reqWrite (dm_stat m)"
proof -
  let ?es = "st_entry m" and ?n = "st_writePtr m" and ?h = "high_addr addr"
  have len: "length ?es = 32" "?n \<le> 32" using assms(1) by (simp_all add: segments_ok_def)
  have f: "find_segment ?es ?h 0 ?n = Some (segment_of m ?h)"
    using len by (simp add: find_segment_find segment_of_def)
  show ?thesis
  proof (cases "segment_of m ?h")
    case (Some i)
    then show ?thesis using f assms(1) by (simp add: STableGetSegTable_def Let_def)
  next
    case None
    have "(\<lambda>i. se_high (?es ! i)) ` {..<?n} \<subseteq> H - {?h}"
      using assms(1) None by (auto simp: segments_ok_def segment_of_None)
    then have "card ((\<lambda>i. se_high (?es ! i)) ` {..<?n}) \<le> card (H - {?h})" by (intro card_mono) auto
    moreover have "card (H - {?h}) < card H"
      using assms(2) by (intro psubset_card_mono) auto
    ultimately have n: "?n < 32" using assms(1) by (simp add: segments_ok_def card_image)
    obtain st where st: "SegTableAlloc cfg ((dm_stat m)\<lparr>ds_nSTableEntry := ds_nSTableEntry (dm_stat m) + 1\<rparr>)
        = (\<lambda>i. SegEntry_new cfg, st)" "ds_reqRead st = ds_reqRead (dm_stat m)" "ds_reqWrite st = ds_reqWrite (dm_stat m)"
      by (simp add: SegTableAlloc_def Let_def)
    let ?es' = "?es[?n := \<lparr>se_high = ?h, se_table = Some (\<lambda>i. SegEntry_new cfg)\<rparr>]"
    let ?m = "m\<lparr>st_entry := ?es', dm_stat := st, st_writePtr := ?n + 1\<rparr>"
    have "STableGetSegTable cfg addr m = Some (?n, ?m)"
      using f None st n len by (simp add: STableGetSegTable_def wr_int)
    moreover have "segments_ok H ?m"
      using assms None n len
      by (auto simp: segments_ok_def inj_on_def nth_list_update segment_of_None less_Suc_eq)
    moreover have low: "find (\<lambda>i. se_high (?es' ! i) = h) [0..<?n] = segment_of m h" for h
      unfolding segment_of_def by (rule find_cong) auto
    have seg: "segment_of ?m h = (if h = ?h then Some ?n else segment_of m h)" for h
    proof -
      have "segment_of ?m h = find (\<lambda>i. se_high (?es' ! i) = h) [0..<Suc ?n]" by (simp add: segment_of_def)
      then show ?thesis using None n len by (auto simp: find_upt_Suc low split: option.split simp del: upt_Suc)
    qed
    moreover have "seg_entry cfg ?m = seg_entry cfg m"
    proof (intro ext)
      fix h ix
      show "seg_entry cfg ?m h ix = seg_entry cfg m h ix"
      proof (cases "segment_of m h")
        case None
        then show ?thesis using seg [of h] n len by (simp add: seg_entry_def)
      next
        case (Some i)
        then have "i \<noteq> ?n" "h \<noteq> ?h" using segment_ofD [OF Some] None by auto
        then show ?thesis using seg [of h] Some by (simp add: seg_entry_def)
      qed
    qed
    ultimately show ?thesis using st(2,3) by simp
  qed
qed

lemma SegTableGetEntry_ok:
  assumes "segments_ok H m" "segment_of m high = Some i"
  shows "SegTableGetEntry i addr m = Some (seg_entry cfg m high (SegTableGetIndex addr))"
proof -
  have i: "i < st_writePtr m" using segment_ofD [OF assms(2)] by simp
  then have "i < length (st_entry m)" "se_table (st_entry m ! i) \<noteq> None" using assms(1) by (simp_all add: segments_ok_def)
  then show ?thesis using assms(2) by (auto simp: SegTableGetEntry_def rd_int seg_entry_def)
qed

lemma put_entry_ok:
  assumes "segments_ok H m" "segment_of m high = Some i"
  shows "\<exists>m'. put_entry i addr e m = Some m' \<and> segments_ok H m' \<and> dm_stat m' = dm_stat m \<and> n_allocs m' = n_allocs m
    \<and> (\<forall>h ix. seg_entry cfg m' h ix = (if h = high \<and> ix = SegTableGetIndex addr then e else seg_entry cfg m h ix))"
proof -
  have i: "i < st_writePtr m" "se_high (st_entry m ! i) = high" using segment_ofD [OF assms(2)] by simp_all
  then have len: "i < length (st_entry m)" using assms(1) by (simp add: segments_ok_def)
  obtain t where t: "se_table (st_entry m ! i) = Some t" using assms(1) i(1) by (auto simp: segments_ok_def)
  let ?e = "(st_entry m ! i)\<lparr>se_table := Some (t(SegTableGetIndex addr := e))\<rparr>"
  let ?m = "m\<lparr>st_entry := (st_entry m)[i := ?e]\<rparr>"
  have p: "put_entry i addr e m = Some ?m" using len t by (simp add: put_entry_def rd_int wr_int)
  have hi: "se_high ((st_entry m)[i := ?e] ! j) = se_high (st_entry m ! j)" for j
    using len by (cases "j = i") auto
  have seg: "segment_of ?m h = segment_of m h" for h by (simp add: segment_of_def hi)
  have "se_table ((st_entry m)[i := ?e] ! j) \<noteq> None" if "j < st_writePtr m" for j
    using assms(1) that len by (cases "j = i") (simp_all add: segments_ok_def)
  then have "segments_ok H ?m" using assms(1) by (simp add: segments_ok_def hi)
  moreover have "seg_entry cfg ?m h ix = (if h = high \<and> ix = SegTableGetIndex addr then e else seg_entry cfg m h ix)" for h ix
  proof (cases "segment_of m h")
    case None
    then show ?thesis using seg [of h] assms(2) by (auto simp: seg_entry_def)
  next
    case (Some j)
    then have j: "se_high (st_entry m ! j) = h" using segment_ofD by blast
    show ?thesis
    proof (cases "j = i")
      case True
      then show ?thesis using seg [of h] Some i(2) j t len by (simp add: seg_entry_def)
    next
      case False
      then have "h \<noteq> high" using Some assms(2) by auto
      then show ?thesis using seg [of h] Some False by (simp add: seg_entry_def)
    qed
  qed
  ultimately show ?thesis using p by simp
qed

lemma direct_frame [frame_simps]:
  "segments_ok H (m\<lparr>dm_stat := st\<rparr>) = segments_ok H m" "segments_ok H (m\<lparr>n_allocs := k\<rparr>) = segments_ok H m"
  "segment_of (m\<lparr>dm_stat := st\<rparr>) = segment_of m" "segment_of (m\<lparr>n_allocs := k\<rparr>) = segment_of m"
  "seg_entry cfg (m\<lparr>dm_stat := st\<rparr>) = seg_entry cfg m" "seg_entry cfg (m\<lparr>n_allocs := k\<rparr>) = seg_entry cfg m"
  by (simp_all add: segments_ok_def segment_of_def seg_entry_def fun_eq_iff cong: option.case_cong)

text \<open>An access: the entry of the chunk is found, and what is put back is the only entry that changes.\<close>

lemma chunk_access:
  assumes "segments_ok H m" "high_addr addr \<in> H"
  shows "\<exists>i m1. STableGetSegTable cfg addr m = Some (i, m1)
    \<and> SegTableGetEntry i addr m1 = Some (seg_entry cfg m (high_addr addr) (SegTableGetIndex addr))
    \<and> n_allocs m1 = n_allocs m \<and> ds_reqRead (dm_stat m1) = ds_reqRead (dm_stat m)
    \<and> ds_reqWrite (dm_stat m1) = ds_reqWrite (dm_stat m)
    \<and> (\<forall>e st k. \<exists>m2. put_entry i addr e (m1\<lparr>dm_stat := st, n_allocs := k\<rparr>) = Some m2 \<and> segments_ok H m2
        \<and> dm_stat m2 = st \<and> n_allocs m2 = k \<and> (\<forall>h ix. seg_entry cfg m2 h ix
           = (if h = high_addr addr \<and> ix = SegTableGetIndex addr then e else seg_entry cfg m h ix)))"
proof -
  obtain i m1 where m1: "STableGetSegTable cfg addr m = Some (i, m1)" "segments_ok H m1"
    "segment_of m1 (high_addr addr) = Some i" "seg_entry cfg m1 = seg_entry cfg m"
    "n_allocs m1 = n_allocs m" "ds_reqRead (dm_stat m1) = ds_reqRead (dm_stat m)"
    "ds_reqWrite (dm_stat m1) = ds_reqWrite (dm_stat m)"
    using STableGetSegTable_ok [OF assms] by blast
  have put: "\<exists>m2. put_entry i addr e (m1\<lparr>dm_stat := st, n_allocs := k\<rparr>) = Some m2 \<and> segments_ok H m2
        \<and> dm_stat m2 = st \<and> n_allocs m2 = k \<and> (\<forall>h ix. seg_entry cfg m2 h ix
           = (if h = high_addr addr \<and> ix = SegTableGetIndex addr then e else seg_entry cfg m h ix))" for e st k
  proof -
    have "segments_ok H (m1\<lparr>dm_stat := st, n_allocs := k\<rparr>)"
      "segment_of (m1\<lparr>dm_stat := st, n_allocs := k\<rparr>) (high_addr addr) = Some i"
      using m1(2,3) by (simp_all add: frame_simps)
    from put_entry_ok [OF this, of addr e cfg] obtain m2 where
      "put_entry i addr e (m1\<lparr>dm_stat := st, n_allocs := k\<rparr>) = Some m2" "segments_ok H m2"
      "dm_stat m2 = st" "n_allocs m2 = k"
      "\<forall>h ix. seg_entry cfg m2 h ix = (if h = high_addr addr \<and> ix = SegTableGetIndex addr then e else seg_entry cfg m1 h ix)"
      unfolding direct_frame by auto
    then show ?thesis unfolding m1(4) by blast
  qed
  show ?thesis using m1(1,5-7) SegTableGetEntry_ok [OF m1(2,3), of addr cfg] m1(4) put by simp
qed

section \<open>Places and accesses\<close>

text \<open>The place of an 8-byte access: its segment, its chunk and its offset there.\<close>

lemma entry_size [simp]: "getTimeTableEntrySize TYPE_64BIT = 8192"
  by (simp add: getTimeTableEntrySize_def L2_SIZE_def)

lemma entry_offset [simp]: "SegTableEntryOffset addr TYPE_64BIT < 8192"
proof -
  have "(0x3fff :: Addr) = mask 14" by (simp add: mask_eq_exp_minus_1)
  then have "drop_bit 2 addr AND 0x3fff = take_bit 14 (drop_bit 2 addr)" by (simp add: take_bit_eq_mask)
  then have "unat (drop_bit 2 addr AND 0x3fff) = unat (drop_bit 2 addr) mod 16384" by (simp add: take_bit_eq_mod unat_mod)
  then show ?thesis by (simp add: SegTableEntryOffset_def Let_def)
qed

lemma mul_block: "s < 8192 \<Longrightarrow> i < d \<Longrightarrow> s * d + i < 8192 * (d :: nat)"
  using block_end [of s 8192 "Suc i" d] by simp

lemma half_offset: "SegTableEntryOffset a TYPE_64BIT = SegTableEntryOffset a TYPE_32BIT div 2"
  by (simp add: SegTableEntryOffset_def Let_def)

lemma offset32_less: "SegTableEntryOffset a TYPE_32BIT < 16384"
  using entry_offset [of a] unfolding half_offset by linarith

type_synonym chunk_place = "UInt32 \<times> nat \<times> nat"

definition chunk_place :: "Addr \<Rightarrow> UInt32 \<Rightarrow> chunk_place" where
  "chunk_place a sz = (high_addr a, SegTableGetIndex a, SegTableEntryOffset a TYPE_64BIT)"

definition wide_access :: "UInt32 set \<Rightarrow> Addr \<Rightarrow> UInt32 \<Rightarrow> bool" where
  "wide_access H a sz \<longleftrightarrow> high_addr a \<in> H \<and> 4 < sz"

lemma of_nat_less_one: "n < 2 ^ 32 \<Longrightarrow> (of_nat n :: Index) < 1 \<longleftrightarrow> n = 0"
  by (simp add: word_less_nat_alt unat_of_nat32)

lemma levels_less: "n \<le> unat (getNumProfiledLevels cfg) \<Longrightarrow> n < 2 ^ 32"
proof -
  have "unat (getNumProfiledLevels cfg) < 2 ^ LENGTH(32)" by (rule unsigned_less)
  then show "n \<le> unat (getNumProfiledLevels cfg) \<Longrightarrow> n < 2 ^ 32" by simp
qed

end
