(* ===== verification/ShadowSTV.thy ===== *)
theory ShadowSTV
  imports DirectMemory
begin

text \<open>
  The shadow memory \<open>MShadowSTV\<close> (\<open>runtime/src/MShadowSTV.cpp\<close>): per chunk a table with the times of
  all levels of an address side by side, and one version per address, that of the deepest level of
  the last access. Since versions grow, it tells which of the times still belong to active regions.
\<close>

section \<open>Tables\<close>

definition TimeTableAlloc_stv :: "TableType \<Rightarrow> nat \<Rightarrow> DirectStat \<Rightarrow> Time list \<times> DirectStat" where
  "TimeTableAlloc_stv ty d st = (replicate (getTimeTableEntrySize ty * d) 0, eventTableAlloc ty st)"

definition VersionAlloc_stv :: "TableType \<Rightarrow> Version list" where
  "VersionAlloc_stv ty = replicate (getTimeTableEntrySize ty) 0"

definition TimeTableGetAddr_stv :: "SegEntry \<Rightarrow> Addr \<Rightarrow> nat" where
  "TimeTableGetAddr_stv e addr = TimeTableGetIndex addr (seg_depth e) (seg_type e)"

definition VersionGetAddr_stv :: "SegEntry \<Rightarrow> Addr \<Rightarrow> nat" where
  "VersionGetAddr_stv e addr = SegTableEntryOffset addr (seg_type e)"

text \<open>The loop of \<open>TagValidate\<close>: the deepest level whose version is not newer, plus one.\<close>

fun latest_le :: "Version list \<Rightarrow> Version \<Rightarrow> nat \<Rightarrow> nat option" where
  "latest_le vs old 0 = Some 0"
| "latest_le vs old (Suc i) = do {
     v \<leftarrow> rd vs (int i);
     if v \<le> old then Some (Suc i) else latest_le vs old i }"

definition TagValidate_stv ::
  "Time list \<Rightarrow> nat \<Rightarrow> Version list \<Rightarrow> nat \<Rightarrow> Version list \<Rightarrow> nat \<Rightarrow> Time list option" where
  "TagValidate_stv tt ta vv va vs n = do {
     oldVersion \<leftarrow> rd vv (int va);
     startInvalid \<leftarrow> latest_le vs oldVersion n;
     if startInvalid < n then memzero tt (int (ta + startInvalid)) (n - startInvalid) else Some tt }"

section \<open>Conversions\<close>

definition convert_step_stv ::
  "nat \<Rightarrow> Time list \<Rightarrow> Version list \<Rightarrow> nat \<Rightarrow> Time list \<times> Version list \<Rightarrow> (Time list \<times> Version list) option" where
  "convert_step_stv d oldTime oldVersion i = (\<lambda>(newTime, newVersion). do {
     newTime \<leftarrow> memcpy newTime (int (d * 2 * i)) oldTime (int (d * i)) d;
     newTime \<leftarrow> memcpy newTime (int (d * 2 * i + 1)) oldTime (int (d * i)) d;
     v \<leftarrow> rd oldVersion (int i);
     newVersion \<leftarrow> wr newVersion (int (i * 2)) v;
     newVersion \<leftarrow> wr newVersion (int (i * 2 + 1)) v;
     Some (newTime, newVersion) })"

definition SegEntryConvertTo32bit :: "SegEntry \<Rightarrow> DirectStat \<Rightarrow> (SegEntry \<times> DirectStat) option" where
  "SegEntryConvertTo32bit e st = do {
     let st = st\<lparr>ds_nTimeTableConverted := ds_nTimeTableConverted st + 1\<rparr>;
     oldTime \<leftarrow> tTable e;
     let (newTime, st) = TimeTableAlloc_stv TYPE_32BIT (seg_depth e) st;
     oldVersion \<leftarrow> versions e;
     (newTime, newVersion) \<leftarrow> for_range 0 (getTimeTableEntrySize TYPE_64BIT)
        (convert_step_stv (seg_depth e) oldTime oldVersion) (newTime, VersionAlloc_stv TYPE_32BIT);
     Some (e\<lparr>tTable := Some newTime, versions := Some newVersion, seg_type := TYPE_32BIT\<rparr>,
           TimeTableFree (seg_type e) st) }"

definition expand_step_stv :: "nat \<Rightarrow> nat \<Rightarrow> Time list \<Rightarrow> nat \<Rightarrow> Time list \<Rightarrow> Time list option" where
  "expand_step_stv oldDepth newDepth table i ret =
     memcpy ret (int (newDepth * i)) table (int (oldDepth * i)) oldDepth"

definition SegEntryExpandDepth :: "SegEntry \<Rightarrow> nat \<Rightarrow> DirectStat \<Rightarrow> (SegEntry \<times> DirectStat) option" where
  "SegEntryExpandDepth e newDepth st = do {
     let (ret, st) = TimeTableAlloc_stv (seg_type e) newDepth st;
     table \<leftarrow> tTable e;
     ret \<leftarrow> for_range 0 (getTimeTableEntrySize TYPE_64BIT) (expand_step_stv (seg_depth e) newDepth table) ret;
     Some (e\<lparr>tTable := Some ret, seg_depth := newDepth\<rparr>, TimeTableFree (seg_type e) st) }"

definition SegEntryCheckConversion :: "SegEntry \<Rightarrow> nat \<Rightarrow> TableType \<Rightarrow> DirectStat \<Rightarrow> (SegEntry \<times> DirectStat) option" where
  "SegEntryCheckConversion e n ty st = do {
     (e, st) \<leftarrow> (if ty = TYPE_32BIT \<and> seg_type e = TYPE_64BIT then SegEntryConvertTo32bit e st else Some (e, st));
     if seg_depth e \<le> n then SegEntryExpandDepth e (seg_depth e * 2) st else Some (e, st) }"

text \<open>Both accesses begin with the tables of the chunk: new ones, or those that are there.\<close>

definition ready_entry_stv :: "SegEntry \<Rightarrow> nat \<Rightarrow> TableType \<Rightarrow> DirectStat \<Rightarrow> (SegEntry \<times> DirectStat) option" where
  "ready_entry_stv e n ty st =
     (case tTable e of
        None \<Rightarrow> (let (t, st) = TimeTableAlloc_stv ty (seg_depth e) st
                 in Some (e\<lparr>tTable := Some t, versions := Some (VersionAlloc_stv ty)\<rparr>, st))
      | Some _ \<Rightarrow> SegEntryCheckConversion e n ty st)"

definition SegTableSetTime_stv ::
  "SegEntry \<Rightarrow> Addr \<Rightarrow> nat \<Rightarrow> Version list \<Rightarrow> Time list \<Rightarrow> TableType \<Rightarrow> DirectStat \<Rightarrow> (SegEntry \<times> DirectStat) option" where
  "SegTableSetTime_stv e addr n vs ts ty st = do {
     (e, st) \<leftarrow> ready_entry_stv e n ty st;
     tt \<leftarrow> tTable e;
     vv \<leftarrow> versions e;
     tt \<leftarrow> memcpy tt (int (TimeTableGetAddr_stv e addr)) ts 0 n;
     v \<leftarrow> rd vs (int n - 1);
     vv \<leftarrow> wr vv (int (VersionGetAddr_stv e addr)) v;
     Some (e\<lparr>tTable := Some tt, versions := Some vv\<rparr>, st) }"

definition SegTableGetTime_stv ::
  "SegEntry \<Rightarrow> Addr \<Rightarrow> nat \<Rightarrow> Version list \<Rightarrow> TableType \<Rightarrow> DirectStat \<Rightarrow> (Time list \<times> SegEntry \<times> DirectStat) option" where
  "SegTableGetTime_stv e addr n vs ty st = do {
     (e, st) \<leftarrow> ready_entry_stv e n ty st;
     tt \<leftarrow> tTable e;
     vv \<leftarrow> versions e;
     tt \<leftarrow> TagValidate_stv tt (TimeTableGetAddr_stv e addr) vv (VersionGetAddr_stv e addr) vs n;
     v \<leftarrow> rd vs (int n - 1);
     vv \<leftarrow> wr vv (int (VersionGetAddr_stv e addr)) v;
     Some (drop (TimeTableGetAddr_stv e addr) tt, e\<lparr>tTable := Some tt, versions := Some vv\<rparr>, st) }"

section \<open>The memory\<close>

definition MShadowSTV_get ::
  "KremlinConfiguration \<Rightarrow> Addr \<Rightarrow> Index \<Rightarrow> Version list \<Rightarrow> UInt32 \<Rightarrow> DirectMemory \<Rightarrow> (Time list \<times> DirectMemory) option" where
  "MShadowSTV_get cfg addr sz vs width m =
     (if sz < 1 then Some ([], m)
      else do {
        (i, m) \<leftarrow> STableGetSegTable cfg addr m;
        e \<leftarrow> SegTableGetEntry i addr m;
        (ts, e, st) \<leftarrow> SegTableGetTime_stv e addr (unat sz) vs (access_type width) (dm_stat m);
        m \<leftarrow> put_entry i addr e (m\<lparr>dm_stat := st\<rparr>);
        Some (ts, m) })"

definition MShadowSTV_set ::
  "KremlinConfiguration \<Rightarrow> Addr \<Rightarrow> Index \<Rightarrow> Version list \<Rightarrow> Time list \<Rightarrow> UInt32 \<Rightarrow> DirectMemory \<Rightarrow> DirectMemory option" where
  "MShadowSTV_set cfg addr sz vs ts width m =
     (if sz < 1 then Some m
      else do {
        (i, m) \<leftarrow> STableGetSegTable cfg addr m;
        e \<leftarrow> SegTableGetEntry i addr m;
        (e, st) \<leftarrow> SegTableSetTime_stv e addr (unat sz) vs ts (access_type width) (dm_stat m);
        put_entry i addr e (m\<lparr>dm_stat := st\<rparr>) })"

definition MShadowSTV_init :: "DirectMemory \<Rightarrow> DirectMemory" where
  "MShadowSTV_init m = STableInit m"

definition MShadowSTV_deinit :: "DirectMemory \<Rightarrow> DirectMemory option" where
  "MShadowSTV_deinit m = STableDeinit m"

definition stv_shadow :: "KremlinConfiguration \<Rightarrow> DirectMemory MShadow" where
  "stv_shadow cfg = \<lparr>mem_get = MShadowSTV_get cfg, mem_set = MShadowSTV_set cfg\<rparr>"

end
