(* ===== verification/ShadowSTVSpec.thy ===== *)
theory ShadowSTVSpec
  imports ShadowSTV
begin

unbundle bit_operations_syntax

text \<open>
  \<open>MShadowSTV\<close> keeps the contract \<open>region_memory\<close> over whole runs, for accesses of 8 bytes. For accesses
  of up to 4 bytes it does not: the conversion of a table mixes up the levels.
\<close>

section \<open>One chunk\<close>

definition stv_entry_ok :: "nat \<Rightarrow> nat \<Rightarrow> SegEntry \<Rightarrow> bool" where
  "stv_entry_ok d0 lim e \<longleftrightarrow> seg_type e = TYPE_64BIT \<and> d0 \<le> seg_depth e \<and> 0 < lim
     \<and> (case tTable e of None \<Rightarrow> versions e = None
        | Some tt \<Rightarrow> length tt = 8192 * seg_depth e
            \<and> (\<exists>vv. versions e = Some vv \<and> length vv = 8192 \<and> (\<forall>s < 8192. unat (vv ! s) < lim)))"

text \<open>The time of a level: it counts when the version of the address is not older than that of the level.\<close>

definition stv_time :: "SegEntry \<Rightarrow> nat \<Rightarrow> nat \<Rightarrow> Version \<Rightarrow> Time" where
  "stv_time e s i v = (case (tTable e, versions e) of
     (Some tt, Some vv) \<Rightarrow> if s < 8192 \<and> v \<le> vv ! s then tt ! (s * seg_depth e + i) else 0 | _ \<Rightarrow> 0)"

lemma expand_loop:
  assumes "8192 * d \<le> length tt" "length ret = N * d'" "8192 \<le> N" "d \<le> d'"
  shows "\<exists>r. for_range 0 8192 (expand_step_stv d d' tt) ret = Some r \<and> length r = N * d'
    \<and> (\<forall>s < 8192. \<forall>i < d. r ! (s * d' + i) = tt ! (s * d + i))
    \<and> (\<forall>s < N. 8192 \<le> s \<longrightarrow> (\<forall>i < d'. r ! (s * d' + i) = ret ! (s * d' + i)))"
proof -
  let ?I = "\<lambda>k r. length r = N * d' \<and> (\<forall>s < k. \<forall>i < d. r ! (s * d' + i) = tt ! (s * d + i))
    \<and> (\<forall>s < N. 8192 \<le> s \<longrightarrow> (\<forall>i < d'. r ! (s * d' + i) = ret ! (s * d' + i)))"
  have "\<exists>r. for_range 0 8192 (expand_step_stv d d' tt) ret = Some r \<and> ?I (0 + 8192) r"
  proof (rule for_range_rule)
    fix k r assume k: "k < 0 + (8192 :: nat)" and I: "?I k r"
    have "k * d + d \<le> 8192 * d" by (rule block_end) (use k in simp_all)
    then have "k * d + d \<le> length tt" using assms(1) by linarith
    moreover have "k < N" "N * d' \<le> length r" using k I assms(3) by simp_all
    ultimately obtain r' where r': "memcpy r (int (k * d')) tt (int (k * d)) d = Some r'" "length r' = length r"
      "\<forall>t < N. \<forall>i < d'. r' ! (t * d' + i) = (if t = k \<and> i < d then tt ! (k * d + i) else r ! (t * d' + i))"
      using memcpy_block [of k N d d' r "k * d" tt] assms(4) by blast
    have "r' ! (s * d' + i) = tt ! (s * d + i)" if "s < Suc k" "i < d" for s i
    proof -
      have "s < N" "i < d'" using that k assms(3,4) by simp_all
      then show ?thesis using r'(3) that I by (auto simp: less_Suc_eq)
    qed
    moreover have "r' ! (s * d' + i) = ret ! (s * d' + i)" if "s < N" "8192 \<le> s" "i < d'" for s i
      using r'(3) that I k by auto
    ultimately show "\<exists>r'. expand_step_stv d d' tt k r = Some r' \<and> ?I (Suc k) r'"
      using r'(1,2) I by (intro exI [of _ r']) (simp add: expand_step_stv_def mult.commute)
  qed (use assms(2) in simp)
  then show ?thesis by simp
qed

lemma stv_entry_tables:
  assumes "stv_entry_ok d0 lim e" "tTable e = Some tt"
  obtains vv where "versions e = Some vv" "length vv = 8192" "\<forall>s < 8192. unat (vv ! s) < lim" "length tt = 8192 * seg_depth e"
  using assms by (auto simp: stv_entry_ok_def)

text \<open>The tables are made ready; no time changes.\<close>

lemma ready_entry_ok:
  assumes ok: "stv_entry_ok d0 lim e" and n: "n \<le> d0" "0 < d0"
  shows "\<exists>e' st' tt vv. ready_entry_stv e n TYPE_64BIT st = Some (e', st') \<and> stv_entry_ok d0 lim e'
    \<and> tTable e' = Some tt \<and> versions e' = Some vv \<and> n \<le> seg_depth e'
    \<and> (\<forall>s i v. i < d0 \<longrightarrow> stv_time e' s i v = stv_time e s i v)"
proof (cases "tTable e")
  case None
  let ?e = "e\<lparr>tTable := Some (replicate (8192 * seg_depth e) 0), versions := Some (replicate 8192 0)\<rparr>"
  have "ready_entry_stv e n TYPE_64BIT st = Some (?e, eventTableAlloc TYPE_64BIT st)"
    using None by (simp add: ready_entry_stv_def TimeTableAlloc_stv_def VersionAlloc_stv_def)
  moreover have "stv_entry_ok d0 lim ?e" using ok None by (simp add: stv_entry_ok_def)
  moreover have "stv_time ?e s i v = stv_time e s i v" if "i < d0" for s i v
  proof -
    have "i < seg_depth e" using that ok by (simp add: stv_entry_ok_def)
    then show ?thesis using None mul_block [of s i "seg_depth e"] by (simp add: stv_time_def)
  qed
  moreover have "n \<le> seg_depth ?e" using ok n by (simp add: stv_entry_ok_def)
  ultimately show ?thesis by auto
next
  case (Some tt)
  obtain vv where vv: "versions e = Some vv" "length vv = 8192" "\<forall>s < 8192. unat (vv ! s) < lim"
    "length tt = 8192 * seg_depth e" by (rule stv_entry_tables [OF ok Some])
  have ty: "seg_type e = TYPE_64BIT" "d0 \<le> seg_depth e" using ok by (simp_all add: stv_entry_ok_def)
  show ?thesis
  proof (cases "seg_depth e \<le> n")
    case False
    then have "ready_entry_stv e n TYPE_64BIT st = Some (e, st)"
      using Some by (simp add: ready_entry_stv_def SegEntryCheckConversion_def)
    then show ?thesis using ok Some vv False by auto
  next
    case True
    let ?d = "seg_depth e"
    have tl: "8192 * ?d \<le> length tt" and len: "length (replicate (8192 * (?d * 2)) 0 :: Time list) = 8192 * (?d * 2)"
      using vv(4) by simp_all
    obtain r where r: "for_range 0 8192 (expand_step_stv ?d (?d * 2) tt) (replicate (8192 * (?d * 2)) 0) = Some r"
      "length r = 8192 * (?d * 2)" "\<forall>s < 8192. \<forall>i < ?d. r ! (s * (?d * 2) + i) = tt ! (s * ?d + i)"
      using expand_loop [OF tl len] by auto
    let ?e = "e\<lparr>tTable := Some r, seg_depth := ?d * 2\<rparr>"
    have "ready_entry_stv e n TYPE_64BIT st = Some (?e, TimeTableFree TYPE_64BIT (eventTableAlloc TYPE_64BIT st))"
      using True Some ty r(1)
      by (simp add: ready_entry_stv_def SegEntryCheckConversion_def SegEntryExpandDepth_def TimeTableAlloc_stv_def)
    moreover have "stv_entry_ok d0 lim ?e" using ok r(2) vv by (simp add: stv_entry_ok_def)
    moreover have "stv_time ?e s i v = stv_time e s i v" if "i < d0" for s i v
      using r(3) that ty(2) Some vv(1) by (simp add: stv_time_def)
    moreover have "n \<le> seg_depth ?e" using n ty(2) by simp
    ultimately show ?thesis using vv(1) by auto
  qed
qed

text \<open>The search in an array of growing versions.\<close>

lemma latest_le_ok:
  assumes "sorted_wrt (<) vs" "n \<le> length vs"
  shows "\<exists>k. latest_le (vs @ old) u n = Some k \<and> k \<le> n \<and> (\<forall>i < n. vs ! i \<le> u \<longleftrightarrow> i < k)"
  using assms(2)
proof (induction n)
  case (Suc n)
  have rd: "rd (vs @ old) (int n) = Some (vs ! n)" using Suc.prems by (simp add: rd_int nth_append)
  show ?case
  proof (cases "vs ! n \<le> u")
    case True
    have "vs ! i \<le> u" if "i < Suc n" for i
    proof (cases "i = n")
      case False
      then have "vs ! i < vs ! n" using that Suc.prems by (intro sorted_wrt_nth_less [OF assms(1)]) auto
      with True show ?thesis by simp
    qed (use True in simp)
    with rd True show ?thesis by auto
  next
    case False
    from Suc.IH Suc.prems obtain k where k: "latest_le (vs @ old) u n = Some k" "k \<le> n" "\<forall>i < n. vs ! i \<le> u \<longleftrightarrow> i < k"
      by auto
    have "vs ! i \<le> u \<longleftrightarrow> i < k" if "i < Suc n" for i
      using k False that by (cases "i = n") auto
    with rd False k show ?thesis by auto
  qed
qed simp

lemma sorted_le_last:
  "sorted_wrt (<) (vs :: Version list) \<Longrightarrow> i < length vs \<Longrightarrow> vs ! i \<le> vs ! (length vs - 1)"
proof (cases "i = length vs - 1")
  case False
  assume "sorted_wrt (<) vs" "i < length vs"
  then have "vs ! i < vs ! (length vs - 1)"
    using False by (intro sorted_wrt_nth_less [of "(<)" vs]) auto
  then show ?thesis by simp
qed simp

lemma rd_last: "vs \<noteq> [] \<Longrightarrow> rd (vs @ old) (int (length vs) - 1) = Some (vs ! (length vs - 1))"
proof -
  assume "vs \<noteq> []"
  then have "int (length vs) - 1 = int (length vs - 1)" "length vs - 1 < length (vs @ old)" by (cases vs; simp)+
  then show ?thesis using \<open>vs \<noteq> []\<close> by (simp only: rd_int) (simp add: nth_append)
qed

text \<open>An access validates the times of its address, and gives the address the version of the deepest level.\<close>

lemma SegTableGetTime_ok:
  assumes ok: "stv_entry_ok d0 lim e" and vs: "sorted_wrt (<) vs" "vs \<noteq> []" "length vs \<le> d0" "\<forall>v \<in> set vs. unat v < lim"
  shows "\<exists>ts e' st'. SegTableGetTime_stv e addr (length vs) (vs @ old) TYPE_64BIT st = Some (ts, e', st')
    \<and> stv_entry_ok d0 lim e' \<and> length vs \<le> length ts
    \<and> (\<forall>i < length vs. ts ! i = stv_time e (SegTableEntryOffset addr TYPE_64BIT) i (vs ! i))
    \<and> (\<forall>s. \<forall>i < length vs. stv_time e' s i (vs ! i) = stv_time e s i (vs ! i))"
proof -
  let ?n = "length vs" and ?s = "SegTableEntryOffset addr TYPE_64BIT"
  have d0: "0 < d0" using vs(2,3) by (cases vs) auto
  obtain e1 st1 tt vv where e1: "ready_entry_stv e ?n TYPE_64BIT st = Some (e1, st1)" "stv_entry_ok d0 lim e1"
    "tTable e1 = Some tt" "versions e1 = Some vv" "?n \<le> seg_depth e1"
    "\<forall>s i v. i < d0 \<longrightarrow> stv_time e1 s i v = stv_time e s i v"
    using ready_entry_ok [OF ok vs(3) d0] by blast
  let ?d = "seg_depth e1"
  have ty: "seg_type e1 = TYPE_64BIT" using e1(2) by (simp add: stv_entry_ok_def)
  have tabs: "length vv = 8192" "\<forall>s < 8192. unat (vv ! s) < lim" "length tt = 8192 * ?d"
    using e1(2-4) by (auto simp: stv_entry_ok_def)
  have adr: "TimeTableGetAddr_stv e1 addr = ?s * ?d" "VersionGetAddr_stv e1 addr = ?s"
    by (simp_all add: TimeTableGetAddr_stv_def VersionGetAddr_stv_def TimeTableGetIndex_def ty)
  obtain k where k: "latest_le (vs @ old) (vv ! ?s) ?n = Some k" "k \<le> ?n" "\<forall>i < ?n. vs ! i \<le> vv ! ?s \<longleftrightarrow> i < k"
    using latest_le_ok [OF vs(1) order_refl, of old "vv ! ?s"] by blast
  have "\<exists>tt'. (if k < ?n then memzero tt (int (?s * ?d + k)) (?n - k) else Some tt) = Some tt' \<and> length tt' = length tt
    \<and> (\<forall>t < 8192. \<forall>i < ?d. tt' ! (t * ?d + i) = (if t = ?s \<and> k \<le> i \<and> i < ?n then 0 else tt ! (t * ?d + i)))"
  proof (cases "k < ?n")
    case True
    then show ?thesis using memzero_block [of ?s 8192 k ?n ?d tt] k(2) e1(5) tabs(3) by auto
  qed (use k(2) in auto)
  then obtain tt' where tt': "(if k < ?n then memzero tt (int (?s * ?d + k)) (?n - k) else Some tt) = Some tt'"
    "length tt' = length tt"
    "\<forall>t < 8192. \<forall>i < ?d. tt' ! (t * ?d + i) = (if t = ?s \<and> k \<le> i \<and> i < ?n then 0 else tt ! (t * ?d + i))" by blast
  let ?e = "e1\<lparr>tTable := Some tt', versions := Some (vv[?s := vs ! (?n - 1)])\<rparr>"
  have rdv: "rd vv (int ?s) = Some (vv ! ?s)" and wrv: "wr vv (int ?s) x = Some (vv[?s := x])" for x
    using tabs(1) by (simp_all add: rd_int wr_int)
  have tv: "TagValidate_stv tt (?s * ?d) vv ?s (vs @ old) ?n = Some tt'"
    using k(1) tt'(1) by (simp add: TagValidate_stv_def rdv del: of_nat_add of_nat_mult)
  have g: "SegTableGetTime_stv e addr ?n (vs @ old) TYPE_64BIT st = Some (drop (?s * ?d) tt', ?e, st1)"
    using e1(1,3,4) tv rd_last [OF vs(2), of old] by (simp add: SegTableGetTime_stv_def adr wrv)
  have lt: "unat (vs ! (?n - 1)) < lim" using vs(2,4) by simp
  have "stv_entry_ok d0 lim ?e" using e1(2,3,4) tt'(2) tabs lt by (auto simp: stv_entry_ok_def nth_list_update)
  moreover have "stv_time ?e s i (vs ! i) = stv_time e s i (vs ! i)" if "i < ?n" for s i
  proof -
    have i: "i < d0" "i < ?d" using that vs(3) e1(5) by simp_all
    have "stv_time ?e s i (vs ! i) = stv_time e1 s i (vs ! i)"
    proof (cases "s = ?s")
      case True
      have "vs ! i \<le> vs ! (?n - 1)" by (rule sorted_le_last [OF vs(1) that])
      then show ?thesis using True k(3) that i tt'(3) e1(3,4) tabs(1) by (simp add: stv_time_def)
    next
      case False
      then show ?thesis using i tt'(3) e1(3,4) by (simp add: stv_time_def)
    qed
    then show ?thesis using e1(6) i(1) by simp
  qed
  moreover have "drop (?s * ?d) tt' ! i = stv_time e ?s i (vs ! i)" if "i < ?n" for i
  proof -
    have i: "i < d0" "i < ?d" using that vs(3) e1(5) by simp_all
    have "stv_time e ?s i (vs ! i) = stv_time e1 ?s i (vs ! i)" using e1(6) i(1) by simp
    also have "\<dots> = (if i < k then tt ! (?s * ?d + i) else 0)" using k(3) that e1(3,4) by (simp add: stv_time_def)
    also have "\<dots> = tt' ! (?s * ?d + i)" using tt'(3) i(2) that by simp
    finally show ?thesis using block_end [of ?s 8192 0 ?d] tt'(2) tabs(3) by simp
  qed
  moreover have "?n \<le> length (drop (?s * ?d) tt')"
    using block_end [of ?s 8192 ?n ?d] e1(5) tt'(2) tabs(3) by simp
  ultimately show ?thesis using g by blast
qed

lemma SegTableSetTime_ok:
  assumes ok: "stv_entry_ok d0 lim e" and vs: "sorted_wrt (<) vs" "vs \<noteq> []" "length vs \<le> d0" "\<forall>v \<in> set vs. unat v < lim"
    and ts: "length vs \<le> length ts"
  shows "\<exists>e' st'. SegTableSetTime_stv e addr (length vs) (vs @ old) ts TYPE_64BIT st = Some (e', st')
    \<and> stv_entry_ok d0 lim e'
    \<and> (\<forall>s. \<forall>i < length vs. stv_time e' s i (vs ! i)
        = (if s = SegTableEntryOffset addr TYPE_64BIT then ts ! i else stv_time e s i (vs ! i)))"
proof -
  let ?n = "length vs" and ?s = "SegTableEntryOffset addr TYPE_64BIT"
  have d0: "0 < d0" using vs(2,3) by (cases vs) auto
  obtain e1 st1 tt vv where e1: "ready_entry_stv e ?n TYPE_64BIT st = Some (e1, st1)" "stv_entry_ok d0 lim e1"
    "tTable e1 = Some tt" "versions e1 = Some vv" "?n \<le> seg_depth e1"
    "\<forall>s i v. i < d0 \<longrightarrow> stv_time e1 s i v = stv_time e s i v"
    using ready_entry_ok [OF ok vs(3) d0] by blast
  let ?d = "seg_depth e1"
  have ty: "seg_type e1 = TYPE_64BIT" using e1(2) by (simp add: stv_entry_ok_def)
  have tabs: "length vv = 8192" "\<forall>s < 8192. unat (vv ! s) < lim" "length tt = 8192 * ?d"
    using e1(2-4) by (auto simp: stv_entry_ok_def)
  have adr: "TimeTableGetAddr_stv e1 addr = ?s * ?d" "VersionGetAddr_stv e1 addr = ?s"
    by (simp_all add: TimeTableGetAddr_stv_def VersionGetAddr_stv_def TimeTableGetIndex_def ty)
  obtain tt' where tt': "memcpy tt (int (?s * ?d)) ts 0 ?n = Some tt'" "length tt' = length tt"
    "\<forall>t < 8192. \<forall>i < ?d. tt' ! (t * ?d + i) = (if t = ?s \<and> i < ?n then ts ! i else tt ! (t * ?d + i))"
    using memcpy_block [of ?s 8192 ?n ?d tt 0 ts] e1(5) tabs(3) ts by auto
  let ?e = "e1\<lparr>tTable := Some tt', versions := Some (vv[?s := vs ! (?n - 1)])\<rparr>"
  have wrv: "wr vv (int ?s) x = Some (vv[?s := x])" for x using tabs(1) by (simp add: wr_int)
  have s: "SegTableSetTime_stv e addr ?n (vs @ old) ts TYPE_64BIT st = Some (?e, st1)"
    using e1(1,3,4) tt'(1) rd_last [OF vs(2), of old] by (simp add: SegTableSetTime_stv_def adr wrv)
  have lt: "unat (vs ! (?n - 1)) < lim" using vs(2,4) by simp
  have "stv_entry_ok d0 lim ?e" using e1(2,3,4) tt'(2) tabs lt by (auto simp: stv_entry_ok_def nth_list_update)
  moreover have "stv_time ?e s i (vs ! i) = (if s = ?s then ts ! i else stv_time e s i (vs ! i))" if "i < ?n" for s i
  proof -
    have i: "i < d0" "i < ?d" using that vs(3) e1(5) by simp_all
    have "stv_time ?e s i (vs ! i) = (if s = ?s then ts ! i else stv_time e1 s i (vs ! i))"
    proof (cases "s = ?s")
      case True
      have "vs ! i \<le> vs ! (?n - 1)" by (rule sorted_le_last [OF vs(1) that])
      then show ?thesis using True that i tt'(3) tabs(1) by (simp add: stv_time_def)
    next
      case False
      then show ?thesis using i tt'(3) e1(3,4) by (simp add: stv_time_def)
    qed
    then show ?thesis using e1(6) i(1) by simp
  qed
  ultimately show ?thesis using s by blast
qed

section \<open>The memory\<close>

definition stv_inv :: "UInt32 set \<Rightarrow> KremlinConfiguration \<Rightarrow> nat \<Rightarrow> Version list \<Rightarrow> DirectMemory \<Rightarrow> bool" where
  "stv_inv H cfg lim vs m \<longleftrightarrow> segments_ok H m
     \<and> (\<forall>h ix. stv_entry_ok (unat (getNumProfiledLevels cfg)) lim (seg_entry cfg m h ix))
     \<and> sorted_wrt (<) vs \<and> length vs \<le> unat (getNumProfiledLevels cfg) \<and> (\<forall>v \<in> set vs. unat v < lim)"

definition stv_contents :: "KremlinConfiguration \<Rightarrow> Version list \<Rightarrow> DirectMemory \<Rightarrow> chunk_place \<Rightarrow> Time list" where
  "stv_contents cfg vs m = (\<lambda>(h, ix, s). map (\<lambda>i. stv_time (seg_entry cfg m h ix) s i (vs ! i)) [0..<length vs])"

lemma stv_get_ok:
  assumes inv: "stv_inv H cfg lim vs m" and acc: "wide_access H a sz"
  shows "\<exists>ts m'. MShadowSTV_get cfg a (of_nat (length vs)) (vs @ old) sz m = Some (ts, m') \<and> stv_inv H cfg lim vs m'
    \<and> length vs \<le> length ts \<and> take (length vs) ts = stv_contents cfg vs m (chunk_place a sz)
    \<and> stv_contents cfg vs m' = stv_contents cfg vs m"
proof -
  let ?d0 = "unat (getNumProfiledLevels cfg)" and ?n = "length vs" and ?h = "high_addr a" and ?ix = "SegTableGetIndex a"
  have vs: "sorted_wrt (<) vs" "?n \<le> ?d0" "\<forall>v \<in> set vs. unat v < lim" "segments_ok H m"
    and es: "\<And>h ix. stv_entry_ok ?d0 lim (seg_entry cfg m h ix)" using inv by (simp_all add: stv_inv_def)
  have n32: "?n < 2 ^ 32" by (rule levels_less [OF vs(2)])
  show ?thesis
  proof (cases "vs = []")
    case True
    then show ?thesis using inv by (simp add: MShadowSTV_get_def stv_contents_def split: prod.split)
  next
    case False
    have nz: "\<not> (of_nat ?n :: Index) < 1" using of_nat_less_one [OF n32] False by simp
    have H: "?h \<in> H" and ty: "access_type sz = TYPE_64BIT" using acc by (simp_all add: wide_access_def access_type_def)
    obtain i m1 where m1: "STableGetSegTable cfg a m = Some (i, m1)" "SegTableGetEntry i a m1 = Some (seg_entry cfg m ?h ?ix)"
      and put: "\<forall>e st k. \<exists>m2. put_entry i a e (m1\<lparr>dm_stat := st, n_allocs := k\<rparr>) = Some m2 \<and> segments_ok H m2
        \<and> dm_stat m2 = st \<and> n_allocs m2 = k \<and> (\<forall>h ix. seg_entry cfg m2 h ix
           = (if h = ?h \<and> ix = ?ix then e else seg_entry cfg m h ix))"
      using chunk_access [OF vs(4) H] by blast
    obtain ts e st where g: "SegTableGetTime_stv (seg_entry cfg m ?h ?ix) a ?n (vs @ old) TYPE_64BIT (dm_stat m1) = Some (ts, e, st)"
      "stv_entry_ok ?d0 lim e" "?n \<le> length ts"
      "\<forall>i < ?n. ts ! i = stv_time (seg_entry cfg m ?h ?ix) (SegTableEntryOffset a TYPE_64BIT) i (vs ! i)"
      "\<forall>s. \<forall>i < ?n. stv_time e s i (vs ! i) = stv_time (seg_entry cfg m ?h ?ix) s i (vs ! i)"
      using SegTableGetTime_ok [OF es vs(1) False vs(2,3)] by blast
    obtain m2 where m2: "put_entry i a e (m1\<lparr>dm_stat := st\<rparr>) = Some m2" "segments_ok H m2"
      "\<forall>h ix. seg_entry cfg m2 h ix = (if h = ?h \<and> ix = ?ix then e else seg_entry cfg m h ix)"
      using put [rule_format, of e "n_allocs m1" st] by auto
    have "MShadowSTV_get cfg a (of_nat ?n) (vs @ old) sz m = Some (ts, m2)"
      using m1 g(1) m2(1) n32 nz by (simp add: MShadowSTV_get_def unat_of_nat32 ty)
    moreover have "stv_inv H cfg lim vs m2" using inv m2(2,3) g(2) by (simp add: stv_inv_def)
    moreover have "take ?n ts = stv_contents cfg vs m (chunk_place a sz)"
      by (rule nth_equalityI) (use g(3,4) in \<open>simp_all add: stv_contents_def chunk_place_def\<close>)
    moreover have "stv_contents cfg vs m2 = stv_contents cfg vs m"
      using m2(3) g(5) by (auto simp: stv_contents_def fun_eq_iff)
    ultimately show ?thesis using g(3) by blast
  qed
qed

lemma stv_set_ok:
  assumes inv: "stv_inv H cfg lim vs m" and acc: "wide_access H a sz" and len: "length vs \<le> length ts"
  shows "\<exists>m'. MShadowSTV_set cfg a (of_nat (length vs)) (vs @ old) ts sz m = Some m' \<and> stv_inv H cfg lim vs m'
    \<and> stv_contents cfg vs m' = (stv_contents cfg vs m)(chunk_place a sz := take (length vs) ts)"
proof -
  let ?d0 = "unat (getNumProfiledLevels cfg)" and ?n = "length vs" and ?h = "high_addr a" and ?ix = "SegTableGetIndex a"
  have vs: "sorted_wrt (<) vs" "?n \<le> ?d0" "\<forall>v \<in> set vs. unat v < lim" "segments_ok H m"
    and es: "\<And>h ix. stv_entry_ok ?d0 lim (seg_entry cfg m h ix)" using inv by (simp_all add: stv_inv_def)
  have n32: "?n < 2 ^ 32" by (rule levels_less [OF vs(2)])
  show ?thesis
  proof (cases "vs = []")
    case True
    then show ?thesis using inv by (auto simp: MShadowSTV_set_def stv_contents_def fun_eq_iff)
  next
    case False
    have nz: "\<not> (of_nat ?n :: Index) < 1" using of_nat_less_one [OF n32] False by simp
    have H: "?h \<in> H" and ty: "access_type sz = TYPE_64BIT" using acc by (simp_all add: wide_access_def access_type_def)
    obtain i m1 where m1: "STableGetSegTable cfg a m = Some (i, m1)" "SegTableGetEntry i a m1 = Some (seg_entry cfg m ?h ?ix)"
      and put: "\<forall>e st k. \<exists>m2. put_entry i a e (m1\<lparr>dm_stat := st, n_allocs := k\<rparr>) = Some m2 \<and> segments_ok H m2
        \<and> dm_stat m2 = st \<and> n_allocs m2 = k \<and> (\<forall>h ix. seg_entry cfg m2 h ix
           = (if h = ?h \<and> ix = ?ix then e else seg_entry cfg m h ix))"
      using chunk_access [OF vs(4) H] by blast
    obtain e st where s: "SegTableSetTime_stv (seg_entry cfg m ?h ?ix) a ?n (vs @ old) ts TYPE_64BIT (dm_stat m1) = Some (e, st)"
      "stv_entry_ok ?d0 lim e"
      "\<forall>s. \<forall>i < ?n. stv_time e s i (vs ! i) = (if s = SegTableEntryOffset a TYPE_64BIT then ts ! i
          else stv_time (seg_entry cfg m ?h ?ix) s i (vs ! i))"
      using SegTableSetTime_ok [OF es vs(1) False vs(2,3) len] by blast
    obtain m2 where m2: "put_entry i a e (m1\<lparr>dm_stat := st\<rparr>) = Some m2" "segments_ok H m2"
      "\<forall>h ix. seg_entry cfg m2 h ix = (if h = ?h \<and> ix = ?ix then e else seg_entry cfg m h ix)"
      using put [rule_format, of e "n_allocs m1" st] by auto
    have "MShadowSTV_set cfg a (of_nat ?n) (vs @ old) ts sz m = Some m2"
      using m1 s(1) m2(1) n32 nz by (simp add: MShadowSTV_set_def unat_of_nat32 ty)
    moreover have "stv_inv H cfg lim vs m2" using inv m2(2,3) s(2) by (simp add: stv_inv_def)
    moreover have "stv_contents cfg vs m2 = (stv_contents cfg vs m)(chunk_place a sz := take ?n ts)"
    proof (rule ext)
      fix k :: chunk_place
      obtain h ix s where k: "k = (h, ix, s)" by (cases k)
      show "stv_contents cfg vs m2 k = ((stv_contents cfg vs m)(chunk_place a sz := take ?n ts)) k"
      proof (rule nth_equalityI)
        show "length (stv_contents cfg vs m2 k) = length (((stv_contents cfg vs m)(chunk_place a sz := take ?n ts)) k)"
          using k len by (simp add: stv_contents_def)
      qed (use k m2(3) s(3) len in \<open>auto simp: stv_contents_def chunk_place_def\<close>)
    qed
    ultimately show ?thesis by blast
  qed
qed

lemma stv_time_fresh:
  assumes "stv_entry_ok d0 lim e" "lim \<le> unat v"
  shows "stv_time e s i v = 0"
proof (cases "tTable e")
  case (Some tt)
  obtain vv where vv: "versions e = Some vv" "\<forall>s < 8192. unat (vv ! s) < lim" by (rule stv_entry_tables [OF assms(1) Some])
  have "\<not> v \<le> vv ! s" if "s < 8192" using vv(2) that assms(2) by (fastforce simp: word_le_nat_alt)
  then show ?thesis using Some vv(1) by (cases "s < 8192") (simp_all add: stv_time_def)
qed (simp add: stv_time_def)

lemma stv_entry_mono: "stv_entry_ok d0 lim e \<Longrightarrow> lim \<le> lim' \<Longrightarrow> stv_entry_ok d0 lim' e"
  by (fastforce simp: stv_entry_ok_def split: option.splits)

lemma stv_enter_ok:
  assumes "stv_inv H cfg lim vs m" "length vs < unat (getNumProfiledLevels cfg)" "lim \<le> unat v"
  shows "stv_inv H cfg (Suc (unat v)) (vs @ [v]) m \<and> stv_contents cfg (vs @ [v]) m = (\<lambda>k. stv_contents cfg vs m k @ [0])"
proof
  have es: "stv_entry_ok (unat (getNumProfiledLevels cfg)) lim (seg_entry cfg m h ix)" for h ix
    using assms(1) by (simp add: stv_inv_def)
  have "u < v" if "u \<in> set vs" for u
    using assms(1,3) that by (fastforce simp: stv_inv_def word_less_nat_alt)
  moreover have "unat u < Suc (unat v)" if "u \<in> set vs" for u
    using assms(1,3) that by (fastforce simp: stv_inv_def)
  moreover have "stv_entry_ok (unat (getNumProfiledLevels cfg)) (Suc (unat v)) (seg_entry cfg m h ix)" for h ix
    by (rule stv_entry_mono [OF es]) (use assms(3) in simp)
  ultimately show "stv_inv H cfg (Suc (unat v)) (vs @ [v]) m"
    using assms(1,2) by (auto simp: stv_inv_def sorted_wrt_append)
  show "stv_contents cfg (vs @ [v]) m = (\<lambda>k. stv_contents cfg vs m k @ [0])"
    using stv_time_fresh [OF es assms(3)] by (auto simp: stv_contents_def fun_eq_iff nth_append)
qed

lemma stv_leave_ok:
  assumes "stv_inv H cfg lim (vs @ [v]) m"
  shows "stv_inv H cfg lim vs m \<and> stv_contents cfg vs m = (\<lambda>k. butlast (stv_contents cfg (vs @ [v]) m k))"
  using assms by (auto simp: stv_inv_def sorted_wrt_append stv_contents_def fun_eq_iff nth_append butlast_append)

interpretation stv: region_memory "MShadowSTV_get cfg" "MShadowSTV_set cfg" "stv_inv H cfg" "wide_access H" "\<lambda>ts. True" "2 ^ 64"
    "unat (getNumProfiledLevels cfg)" chunk_place "stv_contents cfg" for H cfg
proof unfold_locales
  show "unat (getNumProfiledLevels cfg) < 2 ^ 32" by (rule levels_less [OF order_refl])
qed (rule stv_get_ok stv_set_ok stv_enter_ok stv_leave_ok, assumption+)+

end
