(* ===== verification/ShadowSTVRuns.thy ===== *)
theory ShadowSTVRuns
  imports ShadowSTVSpec
begin

text \<open>
  Whole runs on \<open>MShadowSTV\<close>: correct for accesses of 8 bytes, and what goes wrong for narrower ones
  and when a table grows.
\<close>

section \<open>Runs of wide accesses\<close>

lemma stv_init_inv:
  assumes "card H \<le> 32"
  shows "stv_inv H cfg 1 [] (MShadowSTV_init DirectMemory_zero)"
  using assms by (simp add: stv_inv_def MShadowSTV_init_def STableInit_def DirectMemory_zero_def segments_ok_def
      seg_entry_def segment_of_def STABLE_SIZE_def stv_entry_ok_def SegEntry_new_def)

text \<open>
  C26. A run of the profiled program on a fresh \<open>MShadowSTV\<close>: regions are entered (each with a version
  never used before) and left, and 8-byte accesses store and load times. No run gets stuck, and every
  load returns what a stack of times per word says: what was stored last in the regions that are still
  active, and 0 in every region entered since. It is about 8-byte accesses: for 4-byte ones it fails
  (\<open>stv_narrow_levels_shift\<close>). A run may use all profiled levels; the first access to a chunk then contradicts the
  assertion \<open>entry->depth > size\<close> (lines 296 and 312 of \<open>MShadowSTV.cpp\<close>), which is compiled out, and the code
  behind it is right all the same.
\<close>

theorem stv_run_refines:
  assumes "card H \<le> 32" "unat (getNumProfiledLevels cfg) \<le> length arr"
    and "regions_ok (wide_access H) (\<lambda>ts. True) (2 ^ 64) (unat (getNumProfiledLevels cfg)) 0 1 es"
  shows "\<exists>m'. run_regions (stv_shadow cfg) es 0 arr (MShadowSTV_init DirectMemory_zero)
     = Some (spec_regions chunk_place es 0 (\<lambda>w. []), m')"
proof -
  have "stv_contents cfg [] (MShadowSTV_init DirectMemory_zero) = (\<lambda>w. [])"
    by (simp add: stv_contents_def fun_eq_iff)
  then show ?thesis
    using stv.run_regions_refines [OF stv_init_inv [OF assms(1)], of cfg arr es] assms(2,3)
    by (simp add: stv_shadow_def)
qed

section \<open>Conversion to 32 bit\<close>

lemma convert_loop:
  assumes "8192 * d \<le> length tt" "8192 \<le> length vv" "0 < d" "length nt = 16384 * d" "length nv = 16384"
  shows "\<exists>r w. for_range 0 8192 (convert_step_stv d tt vv) (nt, nv) = Some (r, w)
    \<and> length r = 16384 * d \<and> length w = 16384
    \<and> (\<forall>s < 8192. r ! (2 * s * d) = tt ! (s * d) \<and> (\<forall>j < d. r ! (2 * s * d + Suc j) = tt ! (s * d + j))
        \<and> w ! (2 * s) = vv ! s \<and> w ! Suc (2 * s) = vv ! s)"
proof -
  let ?I = "\<lambda>k (r, w). length r = 16384 * d \<and> length w = 16384
    \<and> (\<forall>s < k. r ! (2 * s * d) = tt ! (s * d) \<and> (\<forall>j < d. r ! (2 * s * d + Suc j) = tt ! (s * d + j))
        \<and> w ! (2 * s) = vv ! s \<and> w ! Suc (2 * s) = vv ! s)"
  have "\<exists>rw. for_range 0 8192 (convert_step_stv d tt vv) (nt, nv) = Some rw \<and> ?I (0 + 8192) rw"
  proof (rule for_range_rule)
    show "?I 0 (nt, nv)" using assms(4,5) by simp
  next
    fix k rw assume k: "k < 0 + (8192 :: nat)" and "?I k rw"
    then obtain r w where rw: "rw = (r, w)" and I: "?I k (r, w)" by (cases rw) auto
    have "k * d + d \<le> 8192 * d" by (rule block_end) (use k in simp_all)
    then have src: "k * d + d \<le> length tt" using assms(1) by linarith
    have dst: "2 * k * d + d + 1 \<le> length r"
    proof -
      have "2 * k * d + 2 * d \<le> 16384 * d" using k mult_le_mono1 [of "2 * k + 2" 16384 d] by (simp add: algebra_simps)
      moreover have "length r = 16384 * d" using I by simp
      ultimately show ?thesis using assms(3) by linarith
    qed
    obtain r1 where r1: "memcpy r (int (2 * k * d)) tt (int (k * d)) d = Some r1"
      using src dst by (simp add: memcpy_def del: of_nat_mult flip: of_nat_add)
    have l1: "length r1 = length r" by (rule memcpy_length [OF r1])
    obtain r2 where r2: "memcpy r1 (int (2 * k * d + 1)) tt (int (k * d)) d = Some r2"
      using src dst l1 by (simp add: memcpy_def del: of_nat_mult of_nat_Suc flip: of_nat_add)
    have l2: "length r2 = length r" using memcpy_length [OF r2] l1 by simp
    have n1: "r1 ! x = (if 2 * k * d \<le> x \<and> x < 2 * k * d + d then tt ! (k * d + (x - 2 * k * d)) else r ! x)"
      if "x < length r" for x using memcpy_nth [OF r1 that] by (simp del: of_nat_mult)
    have n2: "r2 ! x = (if 2 * k * d + 1 \<le> x \<and> x < 2 * k * d + 1 + d then tt ! (k * d + (x - (2 * k * d + 1))) else r1 ! x)"
      if "x < length r" for x using memcpy_nth [OF r2, of x] that l1 by (simp del: of_nat_mult of_nat_Suc of_nat_add)
    let ?w = "w[2 * k := vv ! k, Suc (2 * k) := vv ! k]"
    have step: "convert_step_stv d tt vv k rw = Some (r2, ?w)"
    proof -
      have e: "d * 2 * k = 2 * k * d" "d * k = k * d" by simp_all
      have "memcpy r (int (d * 2 * k)) tt (int (d * k)) d = Some r1"
        "memcpy r1 (int (d * 2 * k + 1)) tt (int (d * k)) d = Some r2" unfolding e by (rule r1, rule r2)
      moreover have "rd vv (int k) = Some (vv ! k)" "wr w (int (k * 2)) (vv ! k) = Some (w[2 * k := vv ! k])"
        "wr (w[2 * k := vv ! k]) (int (k * 2 + 1)) (vv ! k) = Some ?w"
        using k assms(2) I by (simp_all add: rd_int wr_int mult.commute del: of_nat_mult of_nat_add of_nat_Suc)
      ultimately show ?thesis by (simp add: convert_step_stv_def rw del: of_nat_mult of_nat_add of_nat_Suc)
    qed
    have "?I (Suc k) (r2, ?w)"
    proof -
      have new: "r2 ! (2 * k * d) = tt ! (k * d)" "\<forall>j < d. r2 ! (2 * k * d + Suc j) = tt ! (k * d + j)"
        using n1 [of "2 * k * d"] n2 dst assms(3) by simp_all
      have old: "r2 ! (2 * s * d + x) = r ! (2 * s * d + x)" if "s < k" "x \<le> d" for s x
      proof -
        have "2 * s * d + 2 * d \<le> 2 * k * d"
          using mult_le_mono1 [of "2 * s + 2" "2 * k" d] that(1) by (simp add: algebra_simps)
        then have "2 * s * d + x < 2 * k * d" using that(2) assms(3) by simp
        then show ?thesis using n1 n2 dst by simp
      qed
      have "r2 ! (2 * s * d) = tt ! (s * d) \<and> (\<forall>j < d. r2 ! (2 * s * d + Suc j) = tt ! (s * d + j))
        \<and> ?w ! (2 * s) = vv ! s \<and> ?w ! Suc (2 * s) = vv ! s" if "s < Suc k" for s
      proof (cases "s = k")
        case True
        then show ?thesis using new I k by simp
      next
        case False
        then have "s < k" using that by simp
        moreover have "r2 ! (2 * s * d + 0) = r ! (2 * s * d + 0)" by (rule old) (use \<open>s < k\<close> in simp_all)
        moreover have "r2 ! (2 * s * d + Suc j) = r ! (2 * s * d + Suc j)" if "j < d" for j
          by (rule old) (use \<open>s < k\<close> that in simp_all)
        ultimately show ?thesis using I by simp
      qed
      then show ?thesis using l2 I by simp
    qed
    then show "\<exists>rw'. convert_step_stv d tt vv k rw = Some rw' \<and> ?I (Suc k) rw'" using step by blast
  qed
  then show ?thesis by auto
qed

lemma rd_deepest: "0 < n \<Longrightarrow> n \<le> length vs \<Longrightarrow> rd vs (int n - 1) = Some (vs ! (n - 1))"
proof -
  assume "0 < n" "n \<le> length vs"
  then have "int n - 1 = int (n - 1)" "n - 1 < length vs" by simp_all
  then show ?thesis by (simp only: rd_int)
qed

lemma mul_block32: "s < 16384 \<Longrightarrow> n \<le> d \<Longrightarrow> s * d + n \<le> 16384 * (d :: nat)"
  by (rule block_end)

text \<open>The first narrow access makes tables of the size for 32 bit, but leaves the entry at 64 bit.\<close>

lemma narrow_first_set:
  assumes "tTable e = None" "seg_type e = TYPE_64BIT" "0 < n" "n < seg_depth e" "n \<le> length vs" "n \<le> length ts"
  shows "\<exists>tt vv st'. SegTableSetTime_stv e a n vs ts TYPE_32BIT st
      = Some (e\<lparr>tTable := Some tt, versions := Some vv\<rparr>, st')
    \<and> length tt = 16384 * seg_depth e \<and> length vv = 16384
    \<and> (\<forall>i < n. tt ! (SegTableEntryOffset a TYPE_64BIT * seg_depth e + i) = ts ! i)
    \<and> vv ! SegTableEntryOffset a TYPE_64BIT = vs ! (n - 1)"
proof -
  let ?d = "seg_depth e" and ?s = "SegTableEntryOffset a TYPE_64BIT"
  have size: "getTimeTableEntrySize TYPE_32BIT = 16384" by (simp add: getTimeTableEntrySize_def L2_SIZE_def)
  let ?e = "e\<lparr>tTable := Some (replicate (16384 * ?d) 0), versions := Some (replicate 16384 0)\<rparr>"
  have r: "ready_entry_stv e n TYPE_32BIT st = Some (?e, eventTableAlloc TYPE_32BIT st)"
    using assms(1) by (simp add: ready_entry_stv_def TimeTableAlloc_stv_def VersionAlloc_stv_def size)
  have s: "?s < 16384" by (rule less_trans [OF entry_offset]) simp
  obtain tt where tt: "memcpy (replicate (16384 * ?d) 0) (int (?s * ?d)) ts 0 n = Some tt" "length tt = 16384 * ?d"
    "\<forall>t < 16384. \<forall>i < ?d. tt ! (t * ?d + i) = (if t = ?s \<and> i < n then ts ! i else replicate (16384 * ?d) 0 ! (t * ?d + i))"
    using memcpy_block [OF s, of n ?d "replicate (16384 * ?d) 0" 0 ts] assms by auto
  have "wr (replicate 16384 0) (int ?s) (vs ! (n - 1)) = Some ((replicate 16384 0)[?s := vs ! (n - 1)])"
    using s by (subst wr_int) simp_all
  then have "SegTableSetTime_stv e a n vs ts TYPE_32BIT st
      = Some (e\<lparr>tTable := Some tt, versions := Some ((replicate 16384 0)[?s := vs ! (n - 1)])\<rparr>, eventTableAlloc TYPE_32BIT st)"
    using r tt(1) assms(2) rd_deepest [OF assms(3,5)]
    by (simp add: SegTableSetTime_stv_def TimeTableGetAddr_stv_def VersionGetAddr_stv_def TimeTableGetIndex_def)
  moreover have "tt ! (?s * ?d + i) = ts ! i" if "i < n" for i using tt(3) s that assms(4) by simp
  ultimately show ?thesis using tt(2) s
    by (intro exI [of _ tt] exI [of _ "(replicate 16384 0)[?s := vs ! (n - 1)]"] exI conjI) simp_all
qed

text \<open>The second one converts the tables.\<close>

lemma narrow_second_set:
  assumes "tTable e = Some tt" "versions e = Some vv" "seg_type e = TYPE_64BIT" "0 < n" "n < seg_depth e"
    and "n \<le> length vs" "n \<le> length us" "length tt = 16384 * seg_depth e" "length vv = 16384"
    and "SegTableEntryOffset b TYPE_32BIT \<noteq> 2 * s" "s < 8192"
  shows "\<exists>r w st'. SegTableSetTime_stv e b n vs us TYPE_32BIT st
      = Some (e\<lparr>tTable := Some r, versions := Some w, seg_type := TYPE_32BIT\<rparr>, st')
    \<and> length r = 16384 * seg_depth e \<and> length w = 16384
    \<and> r ! (2 * s * seg_depth e) = tt ! (s * seg_depth e)
    \<and> (\<forall>j. Suc j < seg_depth e \<longrightarrow> r ! (2 * s * seg_depth e + Suc j) = tt ! (s * seg_depth e + j))
    \<and> w ! (2 * s) = vv ! s"
proof -
  let ?d = "seg_depth e" and ?t = "SegTableEntryOffset b TYPE_32BIT"
  have size: "getTimeTableEntrySize TYPE_32BIT = 16384" by (simp add: getTimeTableEntrySize_def L2_SIZE_def)
  obtain r0 w0 where c: "for_range 0 8192 (convert_step_stv ?d tt vv) (replicate (16384 * ?d) 0, replicate 16384 0) = Some (r0, w0)"
    "length r0 = 16384 * ?d" "length w0 = 16384"
    "\<forall>s < 8192. r0 ! (2 * s * ?d) = tt ! (s * ?d) \<and> (\<forall>j < ?d. r0 ! (2 * s * ?d + Suc j) = tt ! (s * ?d + j))
        \<and> w0 ! (2 * s) = vv ! s \<and> w0 ! Suc (2 * s) = vv ! s"
    using convert_loop [of ?d tt vv "replicate (16384 * ?d) 0" "replicate 16384 0"] assms(5,8,9) by auto
  have "\<exists>st'. ready_entry_stv e n TYPE_32BIT st
      = Some (e\<lparr>tTable := Some r0, versions := Some w0, seg_type := TYPE_32BIT\<rparr>, st')"
    using assms(1-3,5) c(1)
    by (simp add: ready_entry_stv_def SegEntryCheckConversion_def SegEntryConvertTo32bit_def TimeTableAlloc_stv_def
        VersionAlloc_stv_def size)
  then obtain st' where r: "ready_entry_stv e n TYPE_32BIT st
      = Some (e\<lparr>tTable := Some r0, versions := Some w0, seg_type := TYPE_32BIT\<rparr>, st')" by blast
  note t = offset32_less [of b]
  obtain r1 where r1: "memcpy r0 (int (?t * ?d)) us 0 n = Some r1" "length r1 = 16384 * ?d"
    "\<forall>t < 16384. \<forall>i < ?d. r1 ! (t * ?d + i) = (if t = ?t \<and> i < n then us ! i else r0 ! (t * ?d + i))"
    using memcpy_block [OF t, of n ?d r0 0 us] assms(5,7) c(2) by auto
  have w1: "wr w0 (int ?t) (vs ! (n - 1)) = Some (w0[?t := vs ! (n - 1)])" using t c(3) by (simp add: wr_int)
  have "SegTableSetTime_stv e b n vs us TYPE_32BIT st
      = Some (e\<lparr>tTable := Some r1, versions := Some (w0[?t := vs ! (n - 1)]), seg_type := TYPE_32BIT\<rparr>, st')"
    using r r1(1) w1 rd_deepest [OF assms(4,6)]
    by (simp add: SegTableSetTime_stv_def TimeTableGetAddr_stv_def VersionGetAddr_stv_def TimeTableGetIndex_def)
  moreover have row: "r1 ! (2 * s * ?d + i) = r0 ! (2 * s * ?d + i)" if "i < ?d" for i
  proof -
    have "2 * s < 16384" using assms(11) by simp
    then have "r1 ! (2 * s * ?d + i) = (if 2 * s = ?t \<and> i < n then us ! i else r0 ! (2 * s * ?d + i))"
      using r1(3) that by blast
    then show ?thesis using assms(10) by simp
  qed
  have "r1 ! (2 * s * ?d) = tt ! (s * ?d)" using row [of 0] c(4) assms(5,11) by simp
  moreover have "r1 ! (2 * s * ?d + Suc j) = tt ! (s * ?d + j)" if "Suc j < ?d" for j
    using row [OF that] c(4) assms(11) that by simp
  moreover have "w0[?t := vs ! (n - 1)] ! (2 * s) = vv ! s" using c(4) assms(10,11) by simp
  ultimately show ?thesis using r1(2) c(3)
    by (intro exI [of _ r1] exI [of _ "w0[?t := vs ! (n - 1)]"] exI [of _ st'] conjI) simp_all
qed

text \<open>A load of the first address then finds its times moved by one level.\<close>

lemma narrow_get:
  assumes "tTable e = Some r" "versions e = Some w" "seg_type e = TYPE_32BIT" "0 < n" "n < seg_depth e"
    and "n \<le> length vs" "length r = 16384 * seg_depth e" "length w = 16384" "SegTableEntryOffset a TYPE_32BIT = o32"
    and "w ! o32 = vs ! (n - 1)"
  shows "\<exists>e' st'. SegTableGetTime_stv e a n vs TYPE_32BIT st = Some (drop (o32 * seg_depth e) r, e', st')"
proof -
  have o: "o32 < 16384" using offset32_less [of a] assms(9) by simp
  have "latest_le vs (w ! o32) n = Some n"
    using assms(4,6,10) by (cases n) (simp_all add: rd_int)
  moreover have "ready_entry_stv e n TYPE_32BIT st = Some (e, st)"
    using assms(1,3,5) by (simp add: ready_entry_stv_def SegEntryCheckConversion_def)
  moreover have "rd w (int o32) = Some (w ! o32)" "wr w (int o32) x = Some (w[o32 := x])" for x
    using o assms(8) by (simp_all add: rd_int wr_int)
  ultimately show ?thesis
    using assms rd_deepest [OF assms(4,6)]
    by (simp add: SegTableGetTime_stv_def TagValidate_stv_def TimeTableGetAddr_stv_def VersionGetAddr_stv_def TimeTableGetIndex_def)
qed

lemma chunk_set_stv:
  assumes "segments_ok H m" "high_addr a \<in> H" "0 < n" "n < 2 ^ 32"
    and "\<And>st. \<exists>e st'. SegTableSetTime_stv (seg_entry cfg m (high_addr a) (SegTableGetIndex a)) a n vs ts (access_type sz) st
      = Some (e, st') \<and> Q e"
  shows "\<exists>m'. MShadowSTV_set cfg a (of_nat n) vs ts sz m = Some m' \<and> segments_ok H m'
    \<and> Q (seg_entry cfg m' (high_addr a) (SegTableGetIndex a))"
proof -
  have nz: "\<not> (of_nat n :: Index) < 1" using of_nat_less_one [OF assms(4)] assms(3) by simp
  obtain i m1 where m1: "STableGetSegTable cfg a m = Some (i, m1)"
    "SegTableGetEntry i a m1 = Some (seg_entry cfg m (high_addr a) (SegTableGetIndex a))"
    and put: "\<forall>e st k. \<exists>m2. put_entry i a e (m1\<lparr>dm_stat := st, n_allocs := k\<rparr>) = Some m2 \<and> segments_ok H m2
      \<and> dm_stat m2 = st \<and> n_allocs m2 = k \<and> (\<forall>h ix. seg_entry cfg m2 h ix
         = (if h = high_addr a \<and> ix = SegTableGetIndex a then e else seg_entry cfg m h ix))"
    using chunk_access [OF assms(1,2)] by blast
  obtain e st where e: "SegTableSetTime_stv (seg_entry cfg m (high_addr a) (SegTableGetIndex a)) a n vs ts (access_type sz) (dm_stat m1)
      = Some (e, st)" "Q e" using assms(5) by blast
  obtain m2 where m2: "put_entry i a e (m1\<lparr>dm_stat := st\<rparr>) = Some m2" "segments_ok H m2"
    "seg_entry cfg m2 (high_addr a) (SegTableGetIndex a) = e"
    using put [rule_format, of e "n_allocs m1" st] by auto
  have "MShadowSTV_set cfg a (of_nat n) vs ts sz m = Some m2"
    using m1 m2(1) nz assms(4) e(1) by (simp add: MShadowSTV_set_def unat_of_nat32)
  with m2(2,3) e(2) show ?thesis by blast
qed

lemma chunk_get_stv:
  assumes "segments_ok H m" "high_addr a \<in> H" "0 < n" "n < 2 ^ 32"
    and "\<And>st. \<exists>e st'. SegTableGetTime_stv (seg_entry cfg m (high_addr a) (SegTableGetIndex a)) a n vs (access_type sz) st
      = Some (ts, e, st')"
  shows "\<exists>m'. MShadowSTV_get cfg a (of_nat n) vs sz m = Some (ts, m')"
proof -
  have nz: "\<not> (of_nat n :: Index) < 1" using of_nat_less_one [OF assms(4)] assms(3) by simp
  obtain i m1 where m1: "STableGetSegTable cfg a m = Some (i, m1)"
    "SegTableGetEntry i a m1 = Some (seg_entry cfg m (high_addr a) (SegTableGetIndex a))"
    and put: "\<forall>e st k. \<exists>m2. put_entry i a e (m1\<lparr>dm_stat := st, n_allocs := k\<rparr>) = Some m2 \<and> segments_ok H m2
      \<and> dm_stat m2 = st \<and> n_allocs m2 = k \<and> (\<forall>h ix. seg_entry cfg m2 h ix
         = (if h = high_addr a \<and> ix = SegTableGetIndex a then e else seg_entry cfg m h ix))"
    using chunk_access [OF assms(1,2)] by blast
  obtain e st where e: "SegTableGetTime_stv (seg_entry cfg m (high_addr a) (SegTableGetIndex a)) a n vs (access_type sz) (dm_stat m1)
      = Some (ts, e, st)" using assms(5) by blast
  obtain m2 where m2: "put_entry i a e (m1\<lparr>dm_stat := st\<rparr>) = Some m2"
    using put [rule_format, of e "n_allocs m1" st] by auto
  show ?thesis using m1 m2 nz assms(4) e by (simp add: MShadowSTV_get_def unat_of_nat32)
qed

text \<open>
  C37. Two stores of 4-byte values in one chunk, the first at an address whose offset is even: the
  second store converts the chunk's tables, and a load of the first address then finds at every
  level but the outermost the time of the level above. The conversion copies the times of a pair of
  addresses one level too far, not one address.
\<close>

theorem stv_narrow_levels_shift:
  assumes "card H \<le> 32" "high_addr a \<in> H" "high_addr b = high_addr a" "SegTableGetIndex b = SegTableGetIndex a"
    and "even (SegTableEntryOffset a TYPE_32BIT)" "SegTableEntryOffset b TYPE_32BIT \<noteq> SegTableEntryOffset a TYPE_32BIT"
    and "0 < n" "n < unat (getNumProfiledLevels cfg)" "n \<le> length vs" "n \<le> length ts" "n \<le> length us"
  shows "\<exists>m1 m2 ts' m3. MShadowSTV_set cfg a (of_nat n) vs ts 4 (MShadowSTV_init DirectMemory_zero) = Some m1
     \<and> MShadowSTV_set cfg b (of_nat n) vs us 4 m1 = Some m2
     \<and> MShadowSTV_get cfg a (of_nat n) vs 4 m2 = Some (ts', m3) \<and> (\<forall>i < n. ts' ! i = ts ! (i - 1))"
proof -
  let ?h = "high_addr a" and ?ix = "SegTableGetIndex a" and ?m = "MShadowSTV_init DirectMemory_zero"
  let ?s = "SegTableEntryOffset a TYPE_64BIT" and ?d = "unat (getNumProfiledLevels cfg)"
  have n32: "n < 2 ^ 32" by (rule levels_less [of _ cfg]) (use assms(8) in simp)
  have ty: "access_type 4 = TYPE_32BIT" by (simp add: access_type_def)
  have o: "SegTableEntryOffset a TYPE_32BIT = 2 * ?s" using assms(5) by (simp add: half_offset)
  have ok0: "segments_ok H ?m" and e0: "seg_entry cfg ?m ?h ?ix = SegEntry_new cfg"
    using stv_init_inv [OF assms(1), of cfg]
    by (simp_all add: stv_inv_def seg_entry_def segment_of_def MShadowSTV_init_def STableInit_def DirectMemory_zero_def)
  let ?e0 = "SegEntry_new cfg"
  have d: "seg_depth ?e0 = ?d" and new: "tTable ?e0 = None" "seg_type ?e0 = TYPE_64BIT"
    by (simp_all add: SegEntry_new_def)
  have nd: "n < seg_depth ?e0" using assms(8) d by simp
  define Q1 where "Q1 e \<longleftrightarrow> (\<exists>tt vv. e = ?e0\<lparr>tTable := Some tt, versions := Some vv\<rparr> \<and> length tt = 16384 * ?d
    \<and> length vv = 16384 \<and> (\<forall>i < n. tt ! (?s * ?d + i) = ts ! i) \<and> vv ! ?s = vs ! (n - 1))" for e
  have "\<exists>e st'. SegTableSetTime_stv ?e0 a n vs ts TYPE_32BIT st = Some (e, st') \<and> Q1 e" for st
    using narrow_first_set [OF new assms(7) nd assms(9,10), of a st] d unfolding Q1_def by (metis (no_types))
  from chunk_set_stv [OF ok0 assms(2,7) n32, where Q = Q1 and cfg = cfg and sz = 4, unfolded e0 ty, OF this]
  obtain m1 where m1: "MShadowSTV_set cfg a (of_nat n) vs ts 4 ?m = Some m1" "segments_ok H m1"
    "Q1 (seg_entry cfg m1 ?h ?ix)" by blast
  then obtain tt vv where e1: "seg_entry cfg m1 ?h ?ix = ?e0\<lparr>tTable := Some tt, versions := Some vv\<rparr>"
    "length tt = 16384 * ?d" "length vv = 16384" "\<forall>i < n. tt ! (?s * ?d + i) = ts ! i" "vv ! ?s = vs ! (n - 1)"
    unfolding Q1_def by blast
  define Q2 where "Q2 e \<longleftrightarrow> (\<exists>r w. e = ?e0\<lparr>tTable := Some r, versions := Some w, seg_type := TYPE_32BIT\<rparr>
    \<and> length r = 16384 * ?d \<and> length w = 16384 \<and> (\<forall>i < n. r ! (2 * ?s * ?d + i) = ts ! (i - 1)) \<and> w ! (2 * ?s) = vs ! (n - 1))" for e
  have "\<exists>e st'. SegTableSetTime_stv (seg_entry cfg m1 ?h ?ix) b n vs us TYPE_32BIT st = Some (e, st') \<and> Q2 e" for st
  proof -
    obtain r w st' where r: "SegTableSetTime_stv (seg_entry cfg m1 ?h ?ix) b n vs us TYPE_32BIT st
        = Some (?e0\<lparr>tTable := Some r, versions := Some w, seg_type := TYPE_32BIT\<rparr>, st')"
      "length r = 16384 * ?d" "length w = 16384" "r ! (2 * ?s * ?d) = tt ! (?s * ?d)"
      "\<forall>j. Suc j < ?d \<longrightarrow> r ! (2 * ?s * ?d + Suc j) = tt ! (?s * ?d + j)" "w ! (2 * ?s) = vv ! ?s"
      using narrow_second_set [of "seg_entry cfg m1 ?h ?ix" tt vv n vs us b ?s st] e1 new assms(6,7,9,11) nd d o by auto
    have "r ! (2 * ?s * ?d + i) = ts ! (i - 1)" if "i < n" for i
    proof (cases i)
      case 0
      then show ?thesis using r(4) e1(4) that by (metis add.right_neutral diff_0_eq_0)
    next
      case (Suc j)
      then show ?thesis using r(5) e1(4) that assms(8) by simp
    qed
    then show ?thesis using r e1(5) unfolding Q2_def by (intro exI [of _ "?e0\<lparr>tTable := Some r, versions := Some w, seg_type := TYPE_32BIT\<rparr>"] exI [of _ st'] exI [of _ r] exI [of _ w] conjI) simp_all
  qed
  from chunk_set_stv [OF m1(2) _ assms(7) n32, where Q = Q2 and a = b and cfg = cfg and sz = 4, unfolded ty assms(3,4), OF assms(2) this]
  obtain m2 where m2: "MShadowSTV_set cfg b (of_nat n) vs us 4 m1 = Some m2" "segments_ok H m2"
    "Q2 (seg_entry cfg m2 ?h ?ix)" by blast
  then obtain r w where e2: "seg_entry cfg m2 ?h ?ix = ?e0\<lparr>tTable := Some r, versions := Some w, seg_type := TYPE_32BIT\<rparr>"
    "length r = 16384 * ?d" "length w = 16384" "\<forall>i < n. r ! (2 * ?s * ?d + i) = ts ! (i - 1)" "w ! (2 * ?s) = vs ! (n - 1)"
    unfolding Q2_def by blast
  have "\<exists>e st'. SegTableGetTime_stv (seg_entry cfg m2 ?h ?ix) a n vs TYPE_32BIT st = Some (drop (2 * ?s * ?d) r, e, st')" for st
    using narrow_get [of "seg_entry cfg m2 ?h ?ix" r w n vs a "2 * ?s" st] e2 assms(7,9) nd d o by simp
  from chunk_get_stv [OF m2(2) assms(2,7) n32, where cfg = cfg and sz = 4, unfolded ty, OF this]
  obtain m3 where m3: "MShadowSTV_get cfg a (of_nat n) vs 4 m2 = Some (drop (2 * ?s * ?d) r, m3)" by blast
  have "2 * ?s * ?d \<le> length r" using block_end [of "2 * ?s" 16384 0 ?d] e2(2) by simp
  then have "\<forall>i < n. drop (2 * ?s * ?d) r ! i = ts ! (i - 1)" using e2(4) by simp
  with m1(1) m2(1) m3 show ?thesis by blast
qed

section \<open>Growing a table\<close>

text \<open>
  When a chunk's table grows to more levels, the loop runs over the 8192 addresses of a 64-bit
  table whatever the type is. For a 32-bit table the upper half of the addresses loses its times: all
  of them become 0, while the versions of these addresses stay as they were.
\<close>

theorem stv_expand_loses_half:
  assumes "tTable e = Some tt" "seg_type e = TYPE_32BIT" "length tt = 16384 * seg_depth e"
  shows "\<exists>r st'. SegEntryExpandDepth e (seg_depth e * 2) st
      = Some (e\<lparr>tTable := Some r, seg_depth := seg_depth e * 2\<rparr>, st')
    \<and> (\<forall>s i. s < 8192 \<and> i < seg_depth e \<longrightarrow> r ! (s * (seg_depth e * 2) + i) = tt ! (s * seg_depth e + i))
    \<and> (\<forall>s i. 8192 \<le> s \<and> s < 16384 \<and> i < seg_depth e * 2 \<longrightarrow> r ! (s * (seg_depth e * 2) + i) = 0)"
proof -
  let ?d = "seg_depth e" and ?ret = "replicate (16384 * (seg_depth e * 2)) 0 :: Time list"
  have size: "getTimeTableEntrySize TYPE_32BIT = 16384" by (simp add: getTimeTableEntrySize_def L2_SIZE_def)
  have le: "8192 * ?d \<le> length tt" and len: "length ?ret = 16384 * (?d * 2)" using assms(3) by simp_all
  obtain r where r: "for_range 0 8192 (expand_step_stv ?d (?d * 2) tt) ?ret = Some r"
    "\<forall>s < 8192. \<forall>i < ?d. r ! (s * (?d * 2) + i) = tt ! (s * ?d + i)"
    "\<forall>s < 16384. 8192 \<le> s \<longrightarrow> (\<forall>i < ?d * 2. r ! (s * (?d * 2) + i) = ?ret ! (s * (?d * 2) + i))"
    using expand_loop [OF le len] by auto
  have "r ! (s * (?d * 2) + i) = 0" if "8192 \<le> s" "s < 16384" "i < ?d * 2" for s i
  proof -
    have "s * (?d * 2) + i < 16384 * (?d * 2)" using block_end [of s 16384 "Suc i" "?d * 2"] that by simp
    moreover have "r ! (s * (?d * 2) + i) = ?ret ! (s * (?d * 2) + i)" using r(3) that by blast
    ultimately show ?thesis by simp
  qed
  moreover have "SegEntryExpandDepth e (?d * 2) st = Some (e\<lparr>tTable := Some r, seg_depth := ?d * 2\<rparr>,
      TimeTableFree TYPE_32BIT (eventTableAlloc TYPE_32BIT st))"
    using r(1) assms(1,2) by (simp add: SegEntryExpandDepth_def TimeTableAlloc_stv_def size)
  ultimately show ?thesis using r(2) by auto
qed

section \<open>Witnesses\<close>

definition sample_config :: KremlinConfiguration where
  "sample_config = KremlinConfiguration_new\<lparr>min_profiled_level := 0, max_profiled_level := 3\<rparr>"

lemma sample_levels4: "unat (getNumProfiledLevels sample_config) = 4"
  by (simp add: sample_config_def getNumProfiledLevels_def KremlinConfiguration_new_def)

theorem stv_run_refines_witness:
  "\<exists>m'. run_regions (stv_shadow sample_config)
      [Enter 1, Enter 2, Access (Store 64 8 [7, 3]), Leave, Enter 3, Access (Load 64 8)] 0 [0, 0, 0, 0]
      (MShadowSTV_init DirectMemory_zero) = Some ([[7, 0]], m')"
proof -
  let ?es = "[Enter 1, Enter 2, Access (Store 64 8 [7, 3]), Leave, Enter 3, Access (Load 64 8)]"
  have "regions_ok (wide_access {0}) (\<lambda>ts. True) (2 ^ 64) (unat (getNumProfiledLevels sample_config)) 0 1 ?es"
    by (simp add: sample_levels4 wide_access_def high_addr_def)
  from stv_run_refines [OF _ _ this, of "[0, 0, 0, 0]"] show ?thesis by (simp add: sample_levels4)
qed

theorem stv_narrow_levels_shift_witness:
  "\<exists>m1 m2 ts' m3. MShadowSTV_set sample_config 64 (of_nat 3) [1, 2, 3] [9, 5, 2] 4 (MShadowSTV_init DirectMemory_zero) = Some m1
     \<and> MShadowSTV_set sample_config 68 (of_nat 3) [1, 2, 3] [1, 1, 1] 4 m1 = Some m2
     \<and> MShadowSTV_get sample_config 64 (of_nat 3) [1, 2, 3] 4 m2 = Some (ts', m3) \<and> ts' ! 0 = 9 \<and> ts' ! 1 = 9 \<and> ts' ! 2 = 5"
proof -
  have o: "high_addr 64 = 0" "high_addr 68 = high_addr 64" "SegTableGetIndex 68 = SegTableGetIndex 64"
    "SegTableEntryOffset 64 TYPE_32BIT = 16" "SegTableEntryOffset 68 TYPE_32BIT = 17"
    by (simp_all add: high_addr_def SegTableGetIndex_def SegTableEntryOffset_def Let_def)
  obtain m1 m2 ts' m3 where r: "MShadowSTV_set sample_config 64 (of_nat 3) [1, 2, 3] [9, 5, 2] 4 (MShadowSTV_init DirectMemory_zero) = Some m1"
    "MShadowSTV_set sample_config 68 (of_nat 3) [1, 2, 3] [1, 1, 1] 4 m1 = Some m2"
    "MShadowSTV_get sample_config 64 (of_nat 3) [1, 2, 3] 4 m2 = Some (ts', m3)"
    "\<forall>i < 3. ts' ! i = [9, 5, 2] ! (i - 1)"
    using stv_narrow_levels_shift [of "{0}" 64 68 3 sample_config "[1, 2, 3]" "[9, 5, 2]" "[1, 1, 1]"] o sample_levels4 by auto
  have "ts' ! 0 = 9" "ts' ! 1 = 9" "ts' ! 2 = 5" using r(4) by (simp_all add: numeral_2_eq_2)
  with r(1-3) show ?thesis by blast
qed

theorem stv_expand_loses_half_witness:
  "\<exists>e r st'. seg_depth e = 1 \<and> tTable e = Some (replicate 16384 5)
     \<and> SegEntryExpandDepth e 2 DirectStat_zero = Some (e\<lparr>tTable := Some r, seg_depth := 2\<rparr>, st')
     \<and> r ! 0 = 5 \<and> r ! (8192 * 2) = 0"
proof -
  let ?e = "\<lparr>tTable = Some (replicate 16384 5), versions = Some (replicate 16384 1), seg_type = TYPE_32BIT, seg_depth = 1\<rparr>"
  obtain r st' where r: "SegEntryExpandDepth ?e 2 DirectStat_zero = Some (?e\<lparr>tTable := Some r, seg_depth := 2\<rparr>, st')"
    "\<forall>s i. s < 8192 \<and> i < 1 \<longrightarrow> r ! (s * 2 + i) = replicate 16384 5 ! (s * 1 + i)"
    "\<forall>s i. 8192 \<le> s \<and> s < 16384 \<and> i < 2 \<longrightarrow> r ! (s * 2 + i) = 0"
    using stv_expand_loses_half [of ?e "replicate 16384 5" DirectStat_zero] by auto
  have "r ! 0 = 5" using r(2) [rule_format, of 0 0] by simp
  moreover have "r ! (8192 * 2) = 0" using r(3) [rule_format, of 8192 0] by simp
  ultimately show ?thesis using r(1) by (intro exI [of _ ?e] exI [of _ r] exI [of _ st']) simp
qed

end
