(* ===== verification/ShadowBase.thy ===== *)
theory ShadowBase
  imports DirectMemory
begin

text \<open>
  The shadow memory \<open>MShadowBase\<close> (\<open>runtime/src/MShadowBase.cpp\<close>): like \<open>MShadowSTV\<close>, with a version
  for every level of every address. Its tables come from \<open>malloc\<close>, so their first contents are what
  the memory held: the parameter \<open>mem\<close> has the words of the n-th block. The blocks allocated so far
  are counted beside the statistics.
\<close>

section \<open>Tables\<close>

definition TimeTableAlloc_base ::
  "(nat \<Rightarrow> nat \<Rightarrow> Time) \<Rightarrow> TableType \<Rightarrow> nat \<Rightarrow> DirectStat \<times> nat \<Rightarrow> Time list \<times> DirectStat \<times> nat" where
  "TimeTableAlloc_base mem ty d = (\<lambda>(st, k).
     (map (mem k) [0..<getTimeTableEntrySize ty * d], eventTableAlloc ty st, Suc k))"

definition VersionTableAlloc_base ::
  "(nat \<Rightarrow> nat \<Rightarrow> Time) \<Rightarrow> TableType \<Rightarrow> nat \<Rightarrow> DirectStat \<times> nat \<Rightarrow> Version list \<times> DirectStat \<times> nat" where
  "VersionTableAlloc_base mem ty d s = TimeTableAlloc_base mem ty d s"

definition TimeTableGetAddr_base :: "SegEntry \<Rightarrow> Addr \<Rightarrow> nat" where
  "TimeTableGetAddr_base e addr = TimeTableGetIndex addr (seg_depth e) (seg_type e)"

definition VersionGetAddr_base :: "SegEntry \<Rightarrow> Addr \<Rightarrow> nat" where
  "VersionGetAddr_base e addr = TimeTableGetIndex addr (seg_depth e) (seg_type e)"

text \<open>The loop of \<open>TagValidate\<close>: the deepest level whose version is the current one, plus one.\<close>

fun latest_match :: "Version list \<Rightarrow> Version list \<Rightarrow> nat \<Rightarrow> nat \<Rightarrow> nat option" where
  "latest_match vs vv va 0 = Some 0"
| "latest_match vs vv va (Suc i) = do {
     v \<leftarrow> rd vs (int i);
     u \<leftarrow> rd vv (int (va + i));
     if v = u then Some (Suc i) else latest_match vs vv va i }"

definition TagValidate_base ::
  "Time list \<Rightarrow> nat \<Rightarrow> Version list \<Rightarrow> nat \<Rightarrow> Version list \<Rightarrow> nat \<Rightarrow> (Time list \<times> Version list) option" where
  "TagValidate_base tt ta vv va vs n = do {
     startInvalid \<leftarrow> latest_match vs vv va n;
     if startInvalid < n
     then do {
       tt \<leftarrow> memzero tt (int (ta + startInvalid)) (n - startInvalid);
       vv \<leftarrow> memcpy vv (int (va + startInvalid)) vs (int startInvalid) (n - startInvalid);
       Some (tt, vv) }
     else Some (tt, vv) }"

section \<open>Conversion\<close>

definition convert_step_base :: "nat \<Rightarrow> 'a list \<Rightarrow> nat \<Rightarrow> 'a list \<Rightarrow> 'a list option" where
  "convert_step_base d table i ret = do {
     ret \<leftarrow> memcpy ret (int (d * 2 * i)) table (int (d * i)) d;
     memcpy ret (int (d * 2 * i + 1)) table (int (d * i)) d }"

definition convertTable ::
  "(nat \<Rightarrow> nat \<Rightarrow> Time) \<Rightarrow> Time list \<Rightarrow> nat \<Rightarrow> DirectStat \<times> nat \<Rightarrow> (Time list \<times> DirectStat \<times> nat) option" where
  "convertTable mem table d = (\<lambda>(st, k). do {
     let st = st\<lparr>ds_nTimeTableConverted := ds_nTimeTableConverted st + 1\<rparr>;
     let (ret, s) = TimeTableAlloc_base mem TYPE_32BIT d (st, k);
     ret \<leftarrow> for_range 0 (getTimeTableEntrySize TYPE_64BIT) (convert_step_base d table) ret;
     Some (ret, s) })"

definition convertVersion ::
  "(nat \<Rightarrow> nat \<Rightarrow> Time) \<Rightarrow> Version list \<Rightarrow> nat \<Rightarrow> DirectStat \<times> nat \<Rightarrow> (Version list \<times> DirectStat \<times> nat) option" where
  "convertVersion mem src d s = do {
     let (ret, s) = VersionTableAlloc_base mem TYPE_32BIT d s;
     ret \<leftarrow> for_range 0 (getTimeTableEntrySize TYPE_64BIT) (convert_step_base d src) ret;
     Some (ret, s) }"

definition checkRefresh ::
  "(nat \<Rightarrow> nat \<Rightarrow> Time) \<Rightarrow> SegEntry \<Rightarrow> TableType \<Rightarrow> DirectStat \<times> nat \<Rightarrow> (SegEntry \<times> DirectStat \<times> nat) option" where
  "checkRefresh mem e ty s =
     (if ty = TYPE_32BIT \<and> seg_type e = TYPE_64BIT
      then do {
        table \<leftarrow> tTable e;
        (converted, st, k) \<leftarrow> convertTable mem table (seg_depth e) s;
        let st = TimeTableFree (seg_type e) st;
        src \<leftarrow> versions e;
        (version, st, k) \<leftarrow> convertVersion mem src (seg_depth e) (st, k);
        let st = TimeTableFree (seg_type e) st;
        Some (e\<lparr>tTable := Some converted, versions := Some version, seg_type := TYPE_32BIT\<rparr>, st, k) }
      else Some (e, s))"

definition ready_entry_base ::
  "(nat \<Rightarrow> nat \<Rightarrow> Time) \<Rightarrow> SegEntry \<Rightarrow> TableType \<Rightarrow> DirectStat \<times> nat \<Rightarrow> (SegEntry \<times> DirectStat \<times> nat) option" where
  "ready_entry_base mem e ty s =
     (case tTable e of
        None \<Rightarrow>
          (let (t, s) = TimeTableAlloc_base mem ty (seg_depth e) s;
               (v, s) = VersionTableAlloc_base mem ty (seg_depth e) s
           in Some (e\<lparr>tTable := Some t, versions := Some v\<rparr>, s))
      | Some _ \<Rightarrow> checkRefresh mem e ty s)"

definition SegTableSetTime_base ::
  "(nat \<Rightarrow> nat \<Rightarrow> Time) \<Rightarrow> SegEntry \<Rightarrow> Addr \<Rightarrow> nat \<Rightarrow> Version list \<Rightarrow> Time list \<Rightarrow> TableType \<Rightarrow> DirectStat \<times> nat \<Rightarrow>
   (SegEntry \<times> DirectStat \<times> nat) option" where
  "SegTableSetTime_base mem e addr n vs ts ty s = do {
     (e, s) \<leftarrow> ready_entry_base mem e ty s;
     tt \<leftarrow> tTable e;
     tt \<leftarrow> memcpy tt (int (TimeTableGetAddr_base e addr)) ts 0 n;
     vv \<leftarrow> versions e;
     vv \<leftarrow> memcpy vv (int (VersionGetAddr_base e addr)) vs 0 n;
     Some (e\<lparr>tTable := Some tt, versions := Some vv\<rparr>, s) }"

definition SegTableGetTime_base ::
  "(nat \<Rightarrow> nat \<Rightarrow> Time) \<Rightarrow> SegEntry \<Rightarrow> Addr \<Rightarrow> nat \<Rightarrow> Version list \<Rightarrow> TableType \<Rightarrow> DirectStat \<times> nat \<Rightarrow>
   (Time list \<times> SegEntry \<times> DirectStat \<times> nat) option" where
  "SegTableGetTime_base mem e addr n vs ty s = do {
     (e, s) \<leftarrow> ready_entry_base mem e ty s;
     tt \<leftarrow> tTable e;
     vv \<leftarrow> versions e;
     (tt, vv) \<leftarrow> TagValidate_base tt (TimeTableGetAddr_base e addr) vv (VersionGetAddr_base e addr) vs n;
     Some (drop (TimeTableGetAddr_base e addr) tt, e\<lparr>tTable := Some tt, versions := Some vv\<rparr>, s) }"

section \<open>The memory\<close>

text \<open>The counters of requests have 64 entries, so an access of 64 levels or more writes past them.\<close>

definition count_read :: "nat \<Rightarrow> DirectStat \<Rightarrow> DirectStat option" where
  "count_read n st = do {
     c \<leftarrow> rd (ds_reqRead st) (int n);
     cs \<leftarrow> wr (ds_reqRead st) (int n) (c + 1);
     Some (st\<lparr>ds_reqRead := cs\<rparr>) }"

definition count_write :: "nat \<Rightarrow> DirectStat \<Rightarrow> DirectStat option" where
  "count_write n st = do {
     c \<leftarrow> rd (ds_reqWrite st) (int n);
     cs \<leftarrow> wr (ds_reqWrite st) (int n) (c + 1);
     Some (st\<lparr>ds_reqWrite := cs\<rparr>) }"

definition MShadowBase_get ::
  "(nat \<Rightarrow> nat \<Rightarrow> Time) \<Rightarrow> KremlinConfiguration \<Rightarrow> Addr \<Rightarrow> Index \<Rightarrow> Version list \<Rightarrow> UInt32 \<Rightarrow> DirectMemory \<Rightarrow>
   (Time list \<times> DirectMemory) option" where
  "MShadowBase_get mem cfg addr sz vs width m =
     (if sz < 1 then Some ([], m)
      else do {
        (i, m) \<leftarrow> STableGetSegTable cfg addr m;
        e \<leftarrow> SegTableGetEntry i addr m;
        st \<leftarrow> count_read (unat sz) (dm_stat m);
        (ts, e, st, k) \<leftarrow> SegTableGetTime_base mem e addr (unat sz) vs
            (access_type width) (st, n_allocs m);
        m \<leftarrow> put_entry i addr e (m\<lparr>dm_stat := st, n_allocs := k\<rparr>);
        Some (ts, m) })"

definition MShadowBase_set ::
  "(nat \<Rightarrow> nat \<Rightarrow> Time) \<Rightarrow> KremlinConfiguration \<Rightarrow> Addr \<Rightarrow> Index \<Rightarrow> Version list \<Rightarrow> Time list \<Rightarrow> UInt32 \<Rightarrow> DirectMemory \<Rightarrow>
   DirectMemory option" where
  "MShadowBase_set mem cfg addr sz vs ts width m =
     (if sz < 1 then Some m
      else do {
        (i, m) \<leftarrow> STableGetSegTable cfg addr m;
        e \<leftarrow> SegTableGetEntry i addr m;
        (e, st, k) \<leftarrow> SegTableSetTime_base mem e addr (unat sz) vs ts
            (access_type width) (dm_stat m, n_allocs m);
        st \<leftarrow> count_write (unat sz) st;
        put_entry i addr e (m\<lparr>dm_stat := st, n_allocs := k\<rparr>) })"

definition MShadowBase_init :: "DirectMemory \<Rightarrow> DirectMemory" where
  "MShadowBase_init m = STableInit m"

definition MShadowBase_deinit :: "DirectMemory \<Rightarrow> DirectMemory option" where
  "MShadowBase_deinit m = STableDeinit m"

definition base_shadow :: "(nat \<Rightarrow> nat \<Rightarrow> Time) \<Rightarrow> KremlinConfiguration \<Rightarrow> DirectMemory MShadow" where
  "base_shadow mem cfg = \<lparr>mem_get = MShadowBase_get mem cfg, mem_set = MShadowBase_set mem cfg\<rparr>"

section \<open>One chunk\<close>

text \<open>
  The recorded versions are below \<open>lim\<close>; where the version of a level is the current one, so are
  those of the levels above.
\<close>

definition base_entry_ok :: "nat \<Rightarrow> nat \<Rightarrow> Version list \<Rightarrow> SegEntry \<Rightarrow> bool" where
  "base_entry_ok d0 lim vs e \<longleftrightarrow> seg_type e = TYPE_64BIT \<and> seg_depth e = d0
     \<and> (case tTable e of None \<Rightarrow> versions e = None
        | Some tt \<Rightarrow> length tt = 8192 * d0
            \<and> (\<exists>vv. versions e = Some vv \<and> length vv = 8192 * d0 \<and> (\<forall>s < 8192. \<forall>i < d0. unat (vv ! (s * d0 + i)) < lim)
                \<and> (\<forall>s < 8192. \<forall>i < length vs. vv ! (s * d0 + i) = vs ! i \<longrightarrow> (\<forall>j < i. vv ! (s * d0 + j) = vs ! j))))"

definition base_time :: "SegEntry \<Rightarrow> nat \<Rightarrow> nat \<Rightarrow> Version \<Rightarrow> Time" where
  "base_time e s i v = (case (tTable e, versions e) of
     (Some tt, Some vv) \<Rightarrow>
       if s < 8192 \<and> vv ! (s * seg_depth e + i) = v then tt ! (s * seg_depth e + i) else 0 | _ \<Rightarrow> 0)"

lemma base_entry_tables:
  assumes "base_entry_ok d0 lim vs e" "tTable e = Some tt"
  obtains vv where "versions e = Some vv" "length vv = 8192 * d0" "\<forall>s < 8192. \<forall>i < d0. unat (vv ! (s * d0 + i)) < lim"
    "\<forall>s < 8192. \<forall>i < length vs. vv ! (s * d0 + i) = vs ! i \<longrightarrow> (\<forall>j < i. vv ! (s * d0 + j) = vs ! j)"
    "length tt = 8192 * d0"
  using assms by (auto simp: base_entry_ok_def)

lemma latest_match_ok:
  assumes "n \<le> length vs" "va + n \<le> length vv" "\<forall>i < n. vv ! (va + i) = vs ! i \<longrightarrow> (\<forall>j < i. vv ! (va + j) = vs ! j)"
  shows "\<exists>k. latest_match (vs @ old) vv va n = Some k \<and> k \<le> n \<and> (\<forall>i < n. vv ! (va + i) = vs ! i \<longleftrightarrow> i < k)"
  using assms
proof (induction n)
  case (Suc n)
  have rd: "rd (vs @ old) (int n) = Some (vs ! n)" "rd vv (int (va + n)) = Some (vv ! (va + n))"
    using Suc.prems(1,2) by (simp_all add: rd_int nth_append del: of_nat_add)
  show ?case
  proof (cases "vs ! n = vv ! (va + n)")
    case True
    have all: "vv ! (va + i) = vs ! i" if "i < Suc n" for i
    proof (cases "i = n")
      case False
      then have "i < n" using that by simp
      then show ?thesis using Suc.prems(3) True by (metis lessI)
    qed (simp add: True)
    have "latest_match (vs @ old) vv va (Suc n) = Some (Suc n)" using rd True by (simp del: of_nat_add)
    then show ?thesis using all by (intro exI [of _ "Suc n"]) simp
  next
    case False
    have pre: "\<forall>i < n. vv ! (va + i) = vs ! i \<longrightarrow> (\<forall>j < i. vv ! (va + j) = vs ! j)"
      using Suc.prems(3) less_SucI by blast
    have le: "n \<le> length vs" "va + n \<le> length vv" using Suc.prems(1,2) by simp_all
    from Suc.IH [OF le pre] obtain k where k: "latest_match (vs @ old) vv va n = Some k" "k \<le> n"
      "\<forall>i < n. vv ! (va + i) = vs ! i \<longleftrightarrow> i < k" by blast
    have "vv ! (va + i) = vs ! i \<longleftrightarrow> i < k" if "i < Suc n" for i
      using k(2,3) False that by (cases "i = n") auto
    moreover have "latest_match (vs @ old) vv va (Suc n) = Some k"
      using rd False k(1) by (simp del: of_nat_add)
    ultimately show ?thesis using k(2) by (intro exI [of _ k]) simp
  qed
qed simp

end
