(* ===== verification/ShadowBaseSpec.thy ===== *)
theory ShadowBaseSpec
  imports ShadowBase
begin

text \<open>
  \<open>MShadowBase\<close> keeps the contract \<open>region_memory\<close> for accesses of 8 bytes at less than 64 levels,
  provided that the blocks \<open>malloc\<close> returns do not happen to hold a version in use.
\<close>

section \<open>Accesses of one chunk\<close>

lemma ready_entry_base_ok:
  assumes ok: "base_entry_ok d0 lim vs e" and mem: "\<forall>k x. unat (mem k x) < lim0" "lim0 \<le> lim"
    and vs: "length vs \<le> d0" "\<forall>v \<in> set vs. lim0 \<le> unat v"
  shows "\<exists>e' st' k' tt vv. ready_entry_base mem e TYPE_64BIT (st, k) = Some (e', st', k') \<and> base_entry_ok d0 lim vs e'
    \<and> tTable e' = Some tt \<and> versions e' = Some vv \<and> ds_reqRead st' = ds_reqRead st \<and> ds_reqWrite st' = ds_reqWrite st
    \<and> (\<forall>s. \<forall>i < length vs. base_time e' s i (vs ! i) = base_time e s i (vs ! i))"
proof (cases "tTable e")
  case (Some tt)
  then have "ready_entry_base mem e TYPE_64BIT (st, k) = Some (e, st, k)"
    by (simp add: ready_entry_base_def checkRefresh_def)
  then show ?thesis using ok Some base_entry_tables [OF ok Some] by metis
next
  case None
  have d: "seg_depth e = d0" "seg_type e = TYPE_64BIT" using ok by (simp_all add: base_entry_ok_def)
  let ?t = "map (mem k) [0..<8192 * d0]" and ?v = "map (mem (Suc k)) [0..<8192 * d0]"
  let ?e = "e\<lparr>tTable := Some ?t, versions := Some ?v\<rparr>"
  let ?st = "eventTableAlloc TYPE_64BIT (eventTableAlloc TYPE_64BIT st)"
  have r: "ready_entry_base mem e TYPE_64BIT (st, k) = Some (?e, ?st, Suc (Suc k))"
    using None by (simp add: ready_entry_base_def VersionTableAlloc_base_def TimeTableAlloc_base_def d)
  have st: "ds_reqRead ?st = ds_reqRead st" "ds_reqWrite ?st = ds_reqWrite st"
    by (simp_all add: eventTableAlloc_def Let_def)
  have val: "?v ! (s * d0 + i) = mem (Suc k) (s * d0 + i)" if "s < 8192" "i < d0" for s i
    using mul_block [OF that] by simp
  have other: "?v ! (s * d0 + i) \<noteq> vs ! i" if "s < 8192" "i < length vs" for s i
  proof -
    have "unat (mem (Suc k) (s * d0 + i)) < unat (vs ! i)"
      using mem(1) vs(2) that(2) by (meson less_le_trans nth_mem)
    then show ?thesis using val [of s i] that vs(1) by auto
  qed
  have small: "unat (?v ! (s * d0 + i)) < lim" if "s < 8192" "i < d0" for s i
    using val [OF that] mem less_le_trans by metis
  have "base_entry_ok d0 lim vs ?e"
    using d small other unfolding base_entry_ok_def by (simp del: upt_Suc)
  moreover have "base_time ?e s i (vs ! i) = base_time e s i (vs ! i)" if "i < length vs" for s i
    using None other [of s i] that by (cases "s < 8192") (simp_all add: base_time_def d)
  ultimately show ?thesis using r st by (intro exI [of _ ?e] exI [of _ ?st] exI [of _ "Suc (Suc k)"] exI [of _ ?t] exI [of _ ?v] conjI) simp_all
qed

text \<open>The versions of an address after an access.\<close>

lemma base_entry_update:
  assumes ok: "base_entry_ok d0 lim vs e" and e: "versions e = Some vv"
    and vs: "length vs \<le> d0" "\<forall>v \<in> set vs. unat v < lim"
    and len: "length tt' = 8192 * d0" "length vv' = 8192 * d0"
    and new: "\<forall>t < 8192. \<forall>i < d0. vv' ! (t * d0 + i) = (if t = s \<and> i < length vs then vs ! i else vv ! (t * d0 + i))"
  shows "base_entry_ok d0 lim vs (e\<lparr>tTable := Some tt', versions := Some vv'\<rparr>)"
proof -
  have d: "seg_depth e = d0" "seg_type e = TYPE_64BIT" using ok by (simp_all add: base_entry_ok_def)
  obtain tt where tt: "tTable e = Some tt" using ok e by (cases "tTable e") (simp_all add: base_entry_ok_def)
  obtain "\<forall>s < 8192. \<forall>i < d0. unat (vv ! (s * d0 + i)) < lim"
    and coh: "\<forall>s < 8192. \<forall>i < length vs. vv ! (s * d0 + i) = vs ! i \<longrightarrow> (\<forall>j < i. vv ! (s * d0 + j) = vs ! j)"
    using base_entry_tables [OF ok tt] e by auto
  then have small: "unat (vv' ! (t * d0 + i)) < lim" if "t < 8192" "i < d0" for t i
    using new that vs(2) by auto
  have "vv' ! (t * d0 + j) = vs ! j" if "t < 8192" "i < length vs" "vv' ! (t * d0 + i) = vs ! i" "j < i" for t i j
  proof (cases "t = s")
    case True
    then show ?thesis using new that vs(1) by simp
  next
    case False
    then have "vv ! (t * d0 + i) = vs ! i" using new that vs(1) by simp
    then have "vv ! (t * d0 + j) = vs ! j" using coh that(1,2,4) by blast
    then show ?thesis using False new that vs(1) by simp
  qed
  then show ?thesis using small len d unfolding base_entry_ok_def by simp
qed

lemma SegTableGetTime_base_ok:
  assumes ok: "base_entry_ok d0 lim vs e" and mem: "\<forall>k x. unat (mem k x) < lim0" "lim0 \<le> lim"
    and vs: "length vs \<le> d0" "\<forall>v \<in> set vs. lim0 \<le> unat v" "\<forall>v \<in> set vs. unat v < lim"
  shows "\<exists>ts e' st' k'. SegTableGetTime_base mem e addr (length vs) (vs @ old) TYPE_64BIT (st, k) = Some (ts, e', st', k')
    \<and> base_entry_ok d0 lim vs e' \<and> length vs \<le> length ts \<and> ds_reqRead st' = ds_reqRead st \<and> ds_reqWrite st' = ds_reqWrite st
    \<and> (\<forall>i < length vs. ts ! i = base_time e (SegTableEntryOffset addr TYPE_64BIT) i (vs ! i))
    \<and> (\<forall>s. \<forall>i < length vs. base_time e' s i (vs ! i) = base_time e s i (vs ! i))"
proof -
  let ?n = "length vs" and ?s = "SegTableEntryOffset addr TYPE_64BIT"
  obtain e1 st1 k1 tt vv where e1: "ready_entry_base mem e TYPE_64BIT (st, k) = Some (e1, st1, k1)" "base_entry_ok d0 lim vs e1"
    "tTable e1 = Some tt" "versions e1 = Some vv" "ds_reqRead st1 = ds_reqRead st" "ds_reqWrite st1 = ds_reqWrite st"
    "\<forall>s. \<forall>i < ?n. base_time e1 s i (vs ! i) = base_time e s i (vs ! i)"
    using ready_entry_base_ok [OF ok mem vs(1,2)] by blast
  have d: "seg_depth e1 = d0" "seg_type e1 = TYPE_64BIT" using e1(2) by (simp_all add: base_entry_ok_def)
  obtain tabs: "length vv = 8192 * d0" "length tt = 8192 * d0"
    and coh: "\<forall>s < 8192. \<forall>i < ?n. vv ! (s * d0 + i) = vs ! i \<longrightarrow> (\<forall>j < i. vv ! (s * d0 + j) = vs ! j)"
    using base_entry_tables [OF e1(2,3)] e1(4) by auto
  have adr: "TimeTableGetAddr_base e1 addr = ?s * d0" "VersionGetAddr_base e1 addr = ?s * d0"
    by (simp_all add: TimeTableGetAddr_base_def VersionGetAddr_base_def TimeTableGetIndex_def d)
  have le: "?s * d0 + ?n \<le> length vv" using block_end [OF entry_offset vs(1), of addr] tabs(1) by simp
  have coh_s: "\<forall>i < ?n. vv ! (?s * d0 + i) = vs ! i \<longrightarrow> (\<forall>j < i. vv ! (?s * d0 + j) = vs ! j)"
    using coh entry_offset by blast
  obtain j where j: "latest_match (vs @ old) vv (?s * d0) ?n = Some j" "j \<le> ?n"
    "\<forall>i < ?n. vv ! (?s * d0 + i) = vs ! i \<longleftrightarrow> i < j"
    using latest_match_ok [OF order_refl le coh_s] by blast
  have "\<exists>tt' vv'. TagValidate_base tt (?s * d0) vv (?s * d0) (vs @ old) ?n = Some (tt', vv')
    \<and> length tt' = length tt \<and> length vv' = length vv
    \<and> (\<forall>t < 8192. \<forall>i < d0. tt' ! (t * d0 + i) = (if t = ?s \<and> j \<le> i \<and> i < ?n then 0 else tt ! (t * d0 + i)))
    \<and> (\<forall>t < 8192. \<forall>i < d0. vv' ! (t * d0 + i) = (if t = ?s \<and> j \<le> i \<and> i < ?n then (vs @ old) ! i else vv ! (t * d0 + i)))"
  proof (cases "j < ?n")
    case True
    obtain tt' where tt': "memzero tt (int (?s * d0 + j)) (?n - j) = Some tt'" "length tt' = length tt"
      "\<forall>t < 8192. \<forall>i < d0. tt' ! (t * d0 + i) = (if t = ?s \<and> j \<le> i \<and> i < ?n then 0 else tt ! (t * d0 + i))"
      using memzero_block [OF entry_offset j(2) vs(1), of tt addr] tabs(2) by auto
    obtain vv' where vv': "memcpy vv (int (?s * d0 + j)) (vs @ old) (int j) (?n - j) = Some vv'" "length vv' = length vv"
      "\<forall>t < 8192. \<forall>i < d0. vv' ! (t * d0 + i) = (if t = ?s \<and> j \<le> i \<and> i < ?n then (vs @ old) ! i else vv ! (t * d0 + i))"
      using memcpy_block_at [OF entry_offset j(2) vs(1), of vv "vs @ old" addr] tabs(1) by auto
    show ?thesis using True j(1) tt' vv' by (simp add: TagValidate_base_def del: of_nat_add of_nat_mult)
  next
    case False
    then show ?thesis using j(1,2)
      by (intro exI [of _ tt] exI [of _ vv]) (auto simp: TagValidate_base_def simp del: of_nat_add of_nat_mult)
  qed
  then obtain tt' vv' where tv: "TagValidate_base tt (?s * d0) vv (?s * d0) (vs @ old) ?n = Some (tt', vv')"
    "length tt' = length tt" "length vv' = length vv"
    "\<forall>t < 8192. \<forall>i < d0. tt' ! (t * d0 + i) = (if t = ?s \<and> j \<le> i \<and> i < ?n then 0 else tt ! (t * d0 + i))"
    "\<forall>t < 8192. \<forall>i < d0. vv' ! (t * d0 + i) = (if t = ?s \<and> j \<le> i \<and> i < ?n then (vs @ old) ! i else vv ! (t * d0 + i))"
    by blast
  let ?e = "e1\<lparr>tTable := Some tt', versions := Some vv'\<rparr>"
  have g: "SegTableGetTime_base mem e addr ?n (vs @ old) TYPE_64BIT (st, k) = Some (drop (?s * d0) tt', ?e, st1, k1)"
    using e1(1,3,4) tv(1) by (simp add: SegTableGetTime_base_def adr)
  have new: "vv' ! (t * d0 + i) = (if t = ?s \<and> i < ?n then vs ! i else vv ! (t * d0 + i))" if "t < 8192" "i < d0" for t i
    using tv(5) j(3) that by (auto simp: nth_append)
  have "base_entry_ok d0 lim vs ?e"
    by (rule base_entry_update [OF e1(2,4) vs(1,3), where s = ?s]) (use tv(2,3) tabs new in simp_all)
  moreover have same: "base_time ?e t i (vs ! i) = base_time e1 t i (vs ! i)" if "i < ?n" for t i
    using that vs(1) new [of t i] tv(4) j(3) e1(3,4) d by (cases "t < 8192") (auto simp: base_time_def)
  moreover have "drop (?s * d0) tt' ! i = base_time e ?s i (vs ! i)" if "i < ?n" for i
  proof -
    have "base_time e ?s i (vs ! i) = base_time ?e ?s i (vs ! i)" using same e1(7) that by simp
    also have "\<dots> = tt' ! (?s * d0 + i)" using new that vs(1) d by (simp add: base_time_def)
    finally show ?thesis using block_end [OF entry_offset, of 0 d0 addr] tv(2) tabs(2) by simp
  qed
  moreover have "?n \<le> length (drop (?s * d0) tt')" using le tv(2) tabs by simp
  ultimately show ?thesis using g e1(5-7) by auto
qed

lemma SegTableSetTime_base_ok:
  assumes ok: "base_entry_ok d0 lim vs e" and mem: "\<forall>k x. unat (mem k x) < lim0" "lim0 \<le> lim"
    and vs: "length vs \<le> d0" "\<forall>v \<in> set vs. lim0 \<le> unat v" "\<forall>v \<in> set vs. unat v < lim" and ts: "length vs \<le> length ts"
  shows "\<exists>e' st' k'. SegTableSetTime_base mem e addr (length vs) (vs @ old) ts TYPE_64BIT (st, k) = Some (e', st', k')
    \<and> base_entry_ok d0 lim vs e' \<and> ds_reqRead st' = ds_reqRead st \<and> ds_reqWrite st' = ds_reqWrite st
    \<and> (\<forall>s. \<forall>i < length vs. base_time e' s i (vs ! i)
        = (if s = SegTableEntryOffset addr TYPE_64BIT then ts ! i else base_time e s i (vs ! i)))"
proof -
  let ?n = "length vs" and ?s = "SegTableEntryOffset addr TYPE_64BIT"
  obtain e1 st1 k1 tt vv where e1: "ready_entry_base mem e TYPE_64BIT (st, k) = Some (e1, st1, k1)" "base_entry_ok d0 lim vs e1"
    "tTable e1 = Some tt" "versions e1 = Some vv" "ds_reqRead st1 = ds_reqRead st" "ds_reqWrite st1 = ds_reqWrite st"
    "\<forall>s. \<forall>i < ?n. base_time e1 s i (vs ! i) = base_time e s i (vs ! i)"
    using ready_entry_base_ok [OF ok mem vs(1,2)] by blast
  have d: "seg_depth e1 = d0" "seg_type e1 = TYPE_64BIT" using e1(2) by (simp_all add: base_entry_ok_def)
  obtain tabs: "length vv = 8192 * d0" "length tt = 8192 * d0"
    using base_entry_tables [OF e1(2,3)] e1(4) by auto
  have adr: "TimeTableGetAddr_base e1 addr = ?s * d0" "VersionGetAddr_base e1 addr = ?s * d0"
    by (simp_all add: TimeTableGetAddr_base_def VersionGetAddr_base_def TimeTableGetIndex_def d)
  obtain tt' where tt': "memcpy tt (int (?s * d0)) ts 0 ?n = Some tt'" "length tt' = length tt"
    "\<forall>t < 8192. \<forall>i < d0. tt' ! (t * d0 + i) = (if t = ?s \<and> i < ?n then ts ! i else tt ! (t * d0 + i))"
    using memcpy_block [OF entry_offset vs(1), of tt 0 ts addr] tabs(2) ts by auto
  obtain vv' where vv': "memcpy vv (int (?s * d0)) (vs @ old) 0 ?n = Some vv'" "length vv' = length vv"
    "\<forall>t < 8192. \<forall>i < d0. vv' ! (t * d0 + i) = (if t = ?s \<and> i < ?n then (vs @ old) ! i else vv ! (t * d0 + i))"
    using memcpy_block [OF entry_offset vs(1), of vv 0 "vs @ old" addr] tabs(1) by auto
  let ?e = "e1\<lparr>tTable := Some tt', versions := Some vv'\<rparr>"
  have s: "SegTableSetTime_base mem e addr ?n (vs @ old) ts TYPE_64BIT (st, k) = Some (?e, st1, k1)"
    using e1(1,3,4) tt'(1) vv'(1) by (simp add: SegTableSetTime_base_def adr)
  have new: "vv' ! (t * d0 + i) = (if t = ?s \<and> i < ?n then vs ! i else vv ! (t * d0 + i))" if "t < 8192" "i < d0" for t i
    using vv'(3) that by (auto simp: nth_append)
  have "base_entry_ok d0 lim vs ?e"
    by (rule base_entry_update [OF e1(2,4) vs(1,3), where s = ?s]) (use tt'(2) vv'(2) tabs new in simp_all)
  moreover have "base_time ?e t i (vs ! i) = (if t = ?s then ts ! i else base_time e t i (vs ! i))" if "i < ?n" for t i
  proof -
    have "base_time ?e t i (vs ! i) = (if t = ?s then ts ! i else base_time e1 t i (vs ! i))"
      using that vs(1) new [of t i] tt'(3) e1(3,4) d by (cases "t < 8192") (auto simp: base_time_def)
    then show ?thesis using e1(7) that by simp
  qed
  ultimately show ?thesis using s e1(5,6) by blast
qed

section \<open>The memory\<close>

definition base_inv ::
  "(nat \<Rightarrow> nat \<Rightarrow> Time) \<Rightarrow> nat \<Rightarrow> UInt32 set \<Rightarrow> KremlinConfiguration \<Rightarrow> nat \<Rightarrow> Version list \<Rightarrow> DirectMemory \<Rightarrow> bool" where
  "base_inv mem lim0 H cfg lim vs m \<longleftrightarrow> segments_ok H m
     \<and> (\<forall>h ix. base_entry_ok (unat (getNumProfiledLevels cfg)) lim vs (seg_entry cfg m h ix))
     \<and> (\<forall>k x. unat (mem k x) < lim0) \<and> lim0 \<le> lim
     \<and> length vs \<le> min 63 (unat (getNumProfiledLevels cfg))
     \<and> (\<forall>v \<in> set vs. lim0 \<le> unat v) \<and> (\<forall>v \<in> set vs. unat v < lim)
     \<and> length (ds_reqRead (dm_stat m)) = 64 \<and> length (ds_reqWrite (dm_stat m)) = 64"

definition base_contents :: "KremlinConfiguration \<Rightarrow> Version list \<Rightarrow> DirectMemory \<Rightarrow> chunk_place \<Rightarrow> Time list" where
  "base_contents cfg vs m = (\<lambda>(h, ix, s). map (\<lambda>i. base_time (seg_entry cfg m h ix) s i (vs ! i)) [0..<length vs])"

lemma base_invD:
  assumes "base_inv mem lim0 H cfg lim vs m"
  shows "segments_ok H m" "\<And>h ix. base_entry_ok (unat (getNumProfiledLevels cfg)) lim vs (seg_entry cfg m h ix)"
    "\<forall>k x. unat (mem k x) < lim0" "lim0 \<le> lim" "length vs \<le> unat (getNumProfiledLevels cfg)"
    "\<forall>v \<in> set vs. lim0 \<le> unat v" "\<forall>v \<in> set vs. unat v < lim" "length vs < 64"
    "length (ds_reqRead (dm_stat m)) = 64" "length (ds_reqWrite (dm_stat m)) = 64" "length vs < 2 ^ 32"
  using assms by (simp_all add: base_inv_def)

lemma base_get_ok:
  assumes inv: "base_inv mem lim0 H cfg lim vs m" and acc: "wide_access H a sz"
  shows "\<exists>ts m'. MShadowBase_get mem cfg a (of_nat (length vs)) (vs @ old) sz m = Some (ts, m')
    \<and> base_inv mem lim0 H cfg lim vs m' \<and> length vs \<le> length ts
    \<and> take (length vs) ts = base_contents cfg vs m (chunk_place a sz) \<and> base_contents cfg vs m' = base_contents cfg vs m"
proof (cases "vs = []")
  case True
  then show ?thesis using inv by (simp add: MShadowBase_get_def base_contents_def split: prod.split)
next
  case False
  let ?n = "length vs" and ?h = "high_addr a" and ?ix = "SegTableGetIndex a"
  note iv = base_invD [OF inv]
  have nz: "\<not> (of_nat ?n :: Index) < 1" using of_nat_less_one [OF iv(11)] False by simp
  have H: "?h \<in> H" and ty: "access_type sz = TYPE_64BIT" using acc by (simp_all add: wide_access_def access_type_def)
  obtain i m1 where m1: "STableGetSegTable cfg a m = Some (i, m1)" "SegTableGetEntry i a m1 = Some (seg_entry cfg m ?h ?ix)"
    "ds_reqRead (dm_stat m1) = ds_reqRead (dm_stat m)" "ds_reqWrite (dm_stat m1) = ds_reqWrite (dm_stat m)"
    and put: "\<forall>e st k. \<exists>m2. put_entry i a e (m1\<lparr>dm_stat := st, n_allocs := k\<rparr>) = Some m2 \<and> segments_ok H m2
      \<and> dm_stat m2 = st \<and> n_allocs m2 = k \<and> (\<forall>h ix. seg_entry cfg m2 h ix
         = (if h = ?h \<and> ix = ?ix then e else seg_entry cfg m h ix))"
    using chunk_access [OF iv(1) H] by blast
  obtain st0 where c: "count_read ?n (dm_stat m1) = Some st0" "length (ds_reqRead st0) = 64" "length (ds_reqWrite st0) = 64"
    using iv(8-10) m1(3,4) by (simp add: count_read_def rd_int wr_int)
  obtain ts e st k where g: "SegTableGetTime_base mem (seg_entry cfg m ?h ?ix) a ?n (vs @ old) TYPE_64BIT (st0, n_allocs m1)
      = Some (ts, e, st, k)" "base_entry_ok (unat (getNumProfiledLevels cfg)) lim vs e" "?n \<le> length ts"
    "ds_reqRead st = ds_reqRead st0" "ds_reqWrite st = ds_reqWrite st0"
    "\<forall>i < ?n. ts ! i = base_time (seg_entry cfg m ?h ?ix) (SegTableEntryOffset a TYPE_64BIT) i (vs ! i)"
    "\<forall>s. \<forall>i < ?n. base_time e s i (vs ! i) = base_time (seg_entry cfg m ?h ?ix) s i (vs ! i)"
    using SegTableGetTime_base_ok [OF iv(2-7)] by blast
  obtain m2 where m2: "put_entry i a e (m1\<lparr>dm_stat := st, n_allocs := k\<rparr>) = Some m2" "segments_ok H m2" "dm_stat m2 = st"
    "\<forall>h ix. seg_entry cfg m2 h ix = (if h = ?h \<and> ix = ?ix then e else seg_entry cfg m h ix)"
    using put [rule_format, of e k st] by auto
  have "MShadowBase_get mem cfg a (of_nat ?n) (vs @ old) sz m = Some (ts, m2)"
    using m1(1,2) c(1) g(1) m2(1) nz iv(11) by (simp add: MShadowBase_get_def unat_of_nat32 ty)
  moreover have "base_inv mem lim0 H cfg lim vs m2" using inv m2(2-4) g(2,4,5) c(2,3) by (simp add: base_inv_def)
  moreover have "take ?n ts = base_contents cfg vs m (chunk_place a sz)"
    by (rule nth_equalityI) (use g(3,6) in \<open>simp_all add: base_contents_def chunk_place_def\<close>)
  moreover have "base_contents cfg vs m2 = base_contents cfg vs m"
    using m2(4) g(7) by (auto simp: base_contents_def fun_eq_iff)
  ultimately show ?thesis using g(3) by blast
qed

lemma base_set_ok:
  assumes inv: "base_inv mem lim0 H cfg lim vs m" and acc: "wide_access H a sz" and len: "length vs \<le> length ts"
  shows "\<exists>m'. MShadowBase_set mem cfg a (of_nat (length vs)) (vs @ old) ts sz m = Some m'
    \<and> base_inv mem lim0 H cfg lim vs m'
    \<and> base_contents cfg vs m' = (base_contents cfg vs m)(chunk_place a sz := take (length vs) ts)"
proof (cases "vs = []")
  case True
  then show ?thesis using inv by (auto simp: MShadowBase_set_def base_contents_def fun_eq_iff)
next
  case False
  let ?n = "length vs" and ?h = "high_addr a" and ?ix = "SegTableGetIndex a"
  note iv = base_invD [OF inv]
  have nz: "\<not> (of_nat ?n :: Index) < 1" using of_nat_less_one [OF iv(11)] False by simp
  have H: "?h \<in> H" and ty: "access_type sz = TYPE_64BIT" using acc by (simp_all add: wide_access_def access_type_def)
  obtain i m1 where m1: "STableGetSegTable cfg a m = Some (i, m1)" "SegTableGetEntry i a m1 = Some (seg_entry cfg m ?h ?ix)"
    "ds_reqRead (dm_stat m1) = ds_reqRead (dm_stat m)" "ds_reqWrite (dm_stat m1) = ds_reqWrite (dm_stat m)"
    and put: "\<forall>e st k. \<exists>m2. put_entry i a e (m1\<lparr>dm_stat := st, n_allocs := k\<rparr>) = Some m2 \<and> segments_ok H m2
      \<and> dm_stat m2 = st \<and> n_allocs m2 = k \<and> (\<forall>h ix. seg_entry cfg m2 h ix
         = (if h = ?h \<and> ix = ?ix then e else seg_entry cfg m h ix))"
    using chunk_access [OF iv(1) H] by blast
  obtain e st k where s: "SegTableSetTime_base mem (seg_entry cfg m ?h ?ix) a ?n (vs @ old) ts TYPE_64BIT (dm_stat m1, n_allocs m1)
      = Some (e, st, k)" "base_entry_ok (unat (getNumProfiledLevels cfg)) lim vs e"
    "ds_reqRead st = ds_reqRead (dm_stat m1)" "ds_reqWrite st = ds_reqWrite (dm_stat m1)"
    "\<forall>s. \<forall>i < ?n. base_time e s i (vs ! i) = (if s = SegTableEntryOffset a TYPE_64BIT then ts ! i
        else base_time (seg_entry cfg m ?h ?ix) s i (vs ! i))"
    using SegTableSetTime_base_ok [OF iv(2-7) len] by blast
  obtain st2 where c: "count_write ?n st = Some st2" "length (ds_reqRead st2) = 64" "length (ds_reqWrite st2) = 64"
    using iv(8-10) m1(3,4) s(3,4) by (simp add: count_write_def rd_int wr_int)
  obtain m2 where m2: "put_entry i a e (m1\<lparr>dm_stat := st2, n_allocs := k\<rparr>) = Some m2" "segments_ok H m2" "dm_stat m2 = st2"
    "\<forall>h ix. seg_entry cfg m2 h ix = (if h = ?h \<and> ix = ?ix then e else seg_entry cfg m h ix)"
    using put [rule_format, of e k st2] by auto
  have "MShadowBase_set mem cfg a (of_nat ?n) (vs @ old) ts sz m = Some m2"
    using m1(1,2) c(1) s(1) m2(1) nz iv(11) by (simp add: MShadowBase_set_def unat_of_nat32 ty)
  moreover have "base_inv mem lim0 H cfg lim vs m2" using inv m2(2-4) s(2) c(2,3) by (simp add: base_inv_def)
  moreover have "base_contents cfg vs m2 = (base_contents cfg vs m)(chunk_place a sz := take ?n ts)"
  proof (rule ext)
    fix p :: chunk_place
    obtain h ix s where p: "p = (h, ix, s)" by (cases p)
    show "base_contents cfg vs m2 p = ((base_contents cfg vs m)(chunk_place a sz := take ?n ts)) p"
    proof (rule nth_equalityI)
      show "length (base_contents cfg vs m2 p) = length (((base_contents cfg vs m)(chunk_place a sz := take ?n ts)) p)"
        using p len by (simp add: base_contents_def)
    qed (use p m2(4) s(5) len in \<open>auto simp: base_contents_def chunk_place_def\<close>)
  qed
  ultimately show ?thesis by blast
qed

lemma base_fresh:
  assumes "base_entry_ok d0 lim vs e" "lim \<le> unat v" "i < d0" "s < 8192" "versions e = Some vv"
  shows "vv ! (s * d0 + i) \<noteq> v"
proof -
  obtain tt where tt: "tTable e = Some tt" using assms(1,5) by (cases "tTable e") (simp_all add: base_entry_ok_def)
  have "\<forall>s < 8192. \<forall>i < d0. unat (vv ! (s * d0 + i)) < lim" using base_entry_tables [OF assms(1) tt] assms(5) by auto
  then show ?thesis using assms(2-4) by fastforce
qed

lemma base_entry_enter:
  assumes ok: "base_entry_ok d0 lim vs e" and v: "lim \<le> unat v" "length vs < d0"
  shows "base_entry_ok d0 (Suc (unat v)) (vs @ [v]) e"
proof (cases "tTable e")
  case None
  then show ?thesis using ok by (simp add: base_entry_ok_def)
next
  case (Some tt)
  obtain vv where vv: "versions e = Some vv" "length vv = 8192 * d0" "\<forall>s < 8192. \<forall>i < d0. unat (vv ! (s * d0 + i)) < lim"
    "\<forall>s < 8192. \<forall>i < length vs. vv ! (s * d0 + i) = vs ! i \<longrightarrow> (\<forall>j < i. vv ! (s * d0 + j) = vs ! j)"
    "length tt = 8192 * d0" by (rule base_entry_tables [OF ok Some])
  have "unat (vv ! (s * d0 + i)) < Suc (unat v)" if "s < 8192" "i < d0" for s i
    using vv(3) that v(1) by fastforce
  moreover have "vv ! (s * d0 + j) = (vs @ [v]) ! j"
    if "s < 8192" "i < length (vs @ [v])" "vv ! (s * d0 + i) = (vs @ [v]) ! i" "j < i" for s i j
  proof -
    have "i \<noteq> length vs" using base_fresh [OF ok v(1) _ that(1) vv(1), of i] v(2) that(3) by auto
    then have i: "i < length vs" using that(2) by simp
    then have "vv ! (s * d0 + i) = vs ! i" using that(3) by (simp add: nth_append)
    then have "vv ! (s * d0 + j) = vs ! j" using vv(4) that(1,4) i by blast
    then show ?thesis using that(4) i by (simp add: nth_append)
  qed
  ultimately show ?thesis using ok Some vv(1,2,5) unfolding base_entry_ok_def by simp
qed

lemma base_enter_ok:
  assumes inv: "base_inv mem lim0 H cfg lim vs m" and v: "length vs < min 63 (unat (getNumProfiledLevels cfg))" "lim \<le> unat v"
  shows "base_inv mem lim0 H cfg (Suc (unat v)) (vs @ [v]) m \<and> base_contents cfg (vs @ [v]) m = (\<lambda>k. base_contents cfg vs m k @ [0])"
proof
  note iv = base_invD [OF inv]
  let ?d0 = "unat (getNumProfiledLevels cfg)"
  have "base_entry_ok ?d0 (Suc (unat v)) (vs @ [v]) (seg_entry cfg m h ix)" for h ix
    by (rule base_entry_enter [OF iv(2) v(2)]) (use v(1) in simp)
  then show "base_inv mem lim0 H cfg (Suc (unat v)) (vs @ [v]) m"
    using inv v by (fastforce simp: base_inv_def)
  have "base_time (seg_entry cfg m h ix) s (length vs) v = 0" for h ix s
  proof -
    have d: "seg_depth (seg_entry cfg m h ix) = ?d0" using iv(2) by (simp add: base_entry_ok_def)
    show ?thesis using base_fresh [OF iv(2) v(2), of "length vs" s] v(1) d
      by (cases "s < 8192") (simp_all add: base_time_def split: option.split)
  qed
  then show "base_contents cfg (vs @ [v]) m = (\<lambda>k. base_contents cfg vs m k @ [0])"
    by (auto simp: base_contents_def fun_eq_iff nth_append)
qed

lemma base_entry_leave: "base_entry_ok d0 lim (vs @ [v]) e \<Longrightarrow> base_entry_ok d0 lim vs e"
proof -
  assume ok: "base_entry_ok d0 lim (vs @ [v]) e"
  show ?thesis
  proof (cases "tTable e")
    case (Some tt)
    obtain vv where vv: "versions e = Some vv" "length vv = 8192 * d0" "\<forall>s < 8192. \<forall>i < d0. unat (vv ! (s * d0 + i)) < lim"
      "\<forall>s < 8192. \<forall>i < length (vs @ [v]). vv ! (s * d0 + i) = (vs @ [v]) ! i \<longrightarrow> (\<forall>j < i. vv ! (s * d0 + j) = (vs @ [v]) ! j)"
      "length tt = 8192 * d0" by (rule base_entry_tables [OF ok Some])
    have "vv ! (s * d0 + j) = vs ! j" if "s < 8192" "i < length vs" "vv ! (s * d0 + i) = vs ! i" "j < i" for s i j
    proof -
      have "vv ! (s * d0 + i) = (vs @ [v]) ! i" "i < length (vs @ [v])" using that(2,3) by (simp_all add: nth_append)
      then have "vv ! (s * d0 + j) = (vs @ [v]) ! j" using vv(4) that(1,4) by blast
      then show ?thesis using that(2,4) by (simp add: nth_append)
    qed
    then show ?thesis using ok Some vv(1-3,5) unfolding base_entry_ok_def by simp
  qed (use ok in \<open>simp add: base_entry_ok_def\<close>)
qed

lemma base_leave_ok:
  assumes "base_inv mem lim0 H cfg lim (vs @ [v]) m"
  shows "base_inv mem lim0 H cfg lim vs m \<and> base_contents cfg vs m = (\<lambda>k. butlast (base_contents cfg (vs @ [v]) m k))"
proof
  note iv = base_invD [OF assms]
  have "base_entry_ok (unat (getNumProfiledLevels cfg)) lim vs (seg_entry cfg m h ix)" for h ix
    by (rule base_entry_leave [OF iv(2)])
  then show "base_inv mem lim0 H cfg lim vs m" using assms by (simp add: base_inv_def)
  show "base_contents cfg vs m = (\<lambda>k. butlast (base_contents cfg (vs @ [v]) m k))"
    by (auto simp: base_contents_def fun_eq_iff nth_append butlast_append)
qed

interpretation base: region_memory "MShadowBase_get mem cfg" "MShadowBase_set mem cfg" "base_inv mem lim0 H cfg"
    "wide_access H" "\<lambda>ts. True" "2 ^ 64" "min 63 (unat (getNumProfiledLevels cfg))" chunk_place "base_contents cfg" for mem lim0 H cfg
  by unfold_locales (simp, (rule base_get_ok base_set_ok base_enter_ok base_leave_ok, assumption+)+)

text \<open>
  A run of the profiled program on a fresh \<open>MShadowBase\<close>, at less than 64 levels and with 8-byte
  accesses: no run gets stuck, and every load returns what a stack of times per word says, whatever
  regions have been entered and left in between. The words that \<open>malloc\<close> returns must be below the
  first version: an uninitialised table that holds a version in use would count as valid.
\<close>

theorem base_run_refines:
  assumes "card H \<le> 32" "min 63 (unat (getNumProfiledLevels cfg)) \<le> length arr" "\<forall>k x. unat (mem k x) < lim0"
    and "regions_ok (wide_access H) (\<lambda>ts. True) (2 ^ 64) (min 63 (unat (getNumProfiledLevels cfg))) 0 lim0 es"
  shows "\<exists>m'. run_regions (base_shadow mem cfg) es 0 arr (MShadowBase_init DirectMemory_zero)
     = Some (spec_regions chunk_place es 0 (\<lambda>w. []), m')"
proof -
  let ?m = "MShadowBase_init DirectMemory_zero"
  have "base_contents cfg [] ?m = (\<lambda>w. [])" by (simp add: base_contents_def fun_eq_iff)
  moreover have "base_inv mem lim0 H cfg lim0 [] ?m"
    using assms(1,3) by (simp add: base_inv_def MShadowBase_init_def STableInit_def DirectMemory_zero_def DirectStat_zero_def
        segments_ok_def seg_entry_def segment_of_def STABLE_SIZE_def base_entry_ok_def SegEntry_new_def)
  ultimately show ?thesis
    using base.run_regions_refines [of mem lim0 H cfg lim0 "[]" ?m arr es] assms(2,4)
    by (simp add: base_shadow_def)
qed

text \<open>
  C27. The tables that \<open>MShadowBase\<close> gets from \<open>malloc\<close> are never cleared, and the versions in them are
  trusted: when the uninitialised version table happens to hold the current version at the deepest level, an
  8-byte load of an address that was never stored returns, at all levels (fewer than 64), the words of the
  uninitialised time table instead of 0.
\<close>

theorem base_uninitialised_load:
  assumes "card H \<le> 32" "wide_access H a sz" "0 < n" "n \<le> length vs" "n \<le> unat (getNumProfiledLevels cfg)" "n < 64"
    and "mem 1 (SegTableEntryOffset a TYPE_64BIT * unat (getNumProfiledLevels cfg) + (n - 1)) = vs ! (n - 1)"
  shows "\<exists>ts m'. MShadowBase_get mem cfg a (of_nat n) vs sz (MShadowBase_init DirectMemory_zero) = Some (ts, m')
     \<and> (\<forall>i < n. ts ! i = mem 0 (SegTableEntryOffset a TYPE_64BIT * unat (getNumProfiledLevels cfg) + i))"
proof -
  let ?d = "unat (getNumProfiledLevels cfg)" and ?s = "SegTableEntryOffset a TYPE_64BIT" and ?m = "MShadowBase_init DirectMemory_zero"
  have n32: "n < 2 ^ 32" using assms(6) by simp
  have nz: "\<not> (of_nat n :: Index) < 1" using of_nat_less_one [OF n32] assms(3) by simp
  have H: "high_addr a \<in> H" and ty: "access_type sz = TYPE_64BIT" using assms(2) by (simp_all add: wide_access_def access_type_def)
  have ok: "segments_ok H ?m" and e0: "seg_entry cfg ?m (high_addr a) (SegTableGetIndex a) = SegEntry_new cfg"
    and na: "n_allocs ?m = 0" "length (ds_reqRead (dm_stat ?m)) = 64"
    using assms(1) by (simp_all add: MShadowBase_init_def STableInit_def DirectMemory_zero_def segments_ok_def seg_entry_def
        segment_of_def STABLE_SIZE_def DirectStat_zero_def)
  obtain i m1 where m1: "STableGetSegTable cfg a ?m = Some (i, m1)" "SegTableGetEntry i a m1 = Some (SegEntry_new cfg)"
    "n_allocs m1 = 0" "ds_reqRead (dm_stat m1) = ds_reqRead (dm_stat ?m)"
    and put: "\<forall>e st k. \<exists>m2. put_entry i a e (m1\<lparr>dm_stat := st, n_allocs := k\<rparr>) = Some m2 \<and> segments_ok H m2
      \<and> dm_stat m2 = st \<and> n_allocs m2 = k \<and> (\<forall>h ix. seg_entry cfg m2 h ix
         = (if h = high_addr a \<and> ix = SegTableGetIndex a then e else seg_entry cfg ?m h ix))"
    using chunk_access [OF ok H, of cfg] unfolding e0 na(1) by (elim exE conjE) (rule that, assumption+)
  obtain st0 where c: "count_read n (dm_stat m1) = Some st0"
    using na(2) m1(4) assms(6) by (simp add: count_read_def rd_int wr_int)
  let ?t = "map (mem 0) [0..<8192 * ?d]" and ?v = "map (mem 1) [0..<8192 * ?d]"
  have idx: "?s * ?d + j < 8192 * ?d" if "j < n" for j using mul_block [OF entry_offset, of j ?d a] that assms(5) by simp
  have "rd ?v (int x) = Some (mem 1 x)" if "x < 8192 * ?d" for x using that by (simp add: rd_int)
  from this [OF idx, of "n - 1"] have "rd ?v (int (?s * ?d + (n - 1))) = Some (vs ! (n - 1))"
    unfolding assms(7) using assms(3) by simp
  moreover have "rd vs (int (n - 1)) = Some (vs ! (n - 1))" by (rule rd_int) (use assms(3,4) in simp)
  ultimately have "latest_match vs ?v (?s * ?d) n = Some n"
    using assms(3) by (cases n) (simp_all del: of_nat_add of_nat_mult)
  then have tv: "TagValidate_base ?t (?s * ?d) ?v (?s * ?d) vs n = Some (?t, ?v)" by (simp add: TagValidate_base_def)
  have "\<exists>e st k. SegTableGetTime_base mem (SegEntry_new cfg) a n vs TYPE_64BIT (st0, 0) = Some (drop (?s * ?d) ?t, e, st, k)"
    using tv by (simp add: SegTableGetTime_base_def ready_entry_base_def TimeTableAlloc_base_def VersionTableAlloc_base_def
        TimeTableGetAddr_base_def VersionGetAddr_base_def TimeTableGetIndex_def SegEntry_new_def)
  then obtain e st k where g: "SegTableGetTime_base mem (SegEntry_new cfg) a n vs TYPE_64BIT (st0, 0) = Some (drop (?s * ?d) ?t, e, st, k)"
    by blast
  obtain m2 where m2: "put_entry i a e (m1\<lparr>dm_stat := st, n_allocs := k\<rparr>) = Some m2"
    using put [rule_format, of e k st] by auto
  have "MShadowBase_get mem cfg a (of_nat n) vs sz ?m = Some (drop (?s * ?d) ?t, m2)"
    using m1(1-3) c g m2 nz n32 by (simp add: MShadowBase_get_def unat_of_nat32 ty)
  moreover have "drop (?s * ?d) ?t ! j = mem 0 (?s * ?d + j)" if "j < n" for j
  proof -
    have "?s * ?d \<le> length ?t" using idx [OF that] unfolding length_map length_upt by linarith
    then have "drop (?s * ?d) ?t ! j = ?t ! (?s * ?d + j)" by (rule nth_drop)
    also have "\<dots> = mem 0 (0 + (?s * ?d + j))" by (rule nth_map_upt) (use idx [OF that] in linarith)
    finally show ?thesis by simp
  qed
  ultimately show ?thesis by blast
qed

section \<open>Witnesses\<close>

definition base_sample_config :: KremlinConfiguration where
  "base_sample_config = KremlinConfiguration_new\<lparr>min_profiled_level := 0, max_profiled_level := 3\<rparr>"

lemma base_sample_levels: "unat (getNumProfiledLevels base_sample_config) = 4"
  by (simp add: base_sample_config_def getNumProfiledLevels_def KremlinConfiguration_new_def)

theorem base_run_refines_witness:
  "\<exists>m'. run_regions (base_shadow (\<lambda>k x. 0) base_sample_config)
      [Enter 1, Enter 2, Access (Store 64 8 [7, 3]), Leave, Enter 3, Access (Load 64 8)] 0 [0, 0, 0, 0]
      (MShadowBase_init DirectMemory_zero) = Some ([[7, 0]], m')"
proof -
  let ?es = "[Enter 1, Enter 2, Access (Store 64 8 [7, 3]), Leave, Enter 3, Access (Load 64 8)]"
  have "regions_ok (wide_access {0}) (\<lambda>ts. True) (2 ^ 64) (min 63 (unat (getNumProfiledLevels base_sample_config))) 0 1 ?es"
    by (simp add: base_sample_levels wide_access_def high_addr_def)
  from base_run_refines [OF _ _ _ this, of "[0, 0, 0, 0]" "\<lambda>k x. 0"] show ?thesis by (simp add: base_sample_levels)
qed

theorem base_uninitialised_load_witness:
  "\<exists>ts m'. MShadowBase_get (\<lambda>k x. if k = 0 then 99 else 5) base_sample_config 64 (of_nat 1) [5] 8 (MShadowBase_init DirectMemory_zero)
     = Some (ts, m') \<and> ts ! 0 = 99"
proof -
  have "wide_access {0} 64 8" by (simp add: wide_access_def high_addr_def)
  from base_uninitialised_load [OF _ this, of 1 "[5]" base_sample_config "\<lambda>k x. if k = 0 then 99 else 5"]
  show ?thesis by (auto simp: base_sample_levels)
qed

end
