(* ===== verification/ShadowDummy.thy ===== *)
theory ShadowDummy
  imports RegionMemory
begin

text \<open>
  The shadow memory \<open>MShadowDummy\<close> (\<open>runtime/src/MShadowDummy.cpp\<close>), which stores nothing: every load
  gets the same static buffer of 128 zeros, which nobody writes.
\<close>

type_synonym DummyMemory = "Time list"

definition dummy_buffer :: DummyMemory where
  "dummy_buffer = replicate 128 0"

definition MShadowDummy_get ::
  "Addr \<Rightarrow> Index \<Rightarrow> Version list \<Rightarrow> UInt32 \<Rightarrow> DummyMemory \<Rightarrow> (Time list \<times> DummyMemory) option" where
  "MShadowDummy_get addr sz vs width m = Some (m, m)"

definition MShadowDummy_set ::
  "Addr \<Rightarrow> Index \<Rightarrow> Version list \<Rightarrow> Time list \<Rightarrow> UInt32 \<Rightarrow> DummyMemory \<Rightarrow> DummyMemory option" where
  "MShadowDummy_set addr sz vs ts width m = Some m"

definition MShadowDummy_init :: DummyMemory where
  "MShadowDummy_init = dummy_buffer"

definition MShadowDummy_deinit :: "DummyMemory \<Rightarrow> DummyMemory" where
  "MShadowDummy_deinit m = m"

definition dummy_shadow :: "DummyMemory MShadow" where
  "dummy_shadow = \<lparr>mem_get = MShadowDummy_get, mem_set = MShadowDummy_set\<rparr>"

text \<open>What a run loads from a memory that holds nothing: as many zeros as levels are active.\<close>

fun zero_loads :: "region_op list \<Rightarrow> nat \<Rightarrow> Time list list" where
  "zero_loads [] n = []"
| "zero_loads (Enter v # es) n = zero_loads es (Suc n)"
| "zero_loads (Leave # es) n = zero_loads es (n - 1)"
| "zero_loads (Access (Load a sz) # es) n = replicate n 0 # zero_loads es n"
| "zero_loads (Access (Store a sz ts) # es) n = zero_loads es n"

text \<open>
  With the dummy memory a run of stores and loads, at up to 128 levels, never gets stuck, and every
  load returns 0 for every active level; the memory does not change.
\<close>

theorem dummy_loads_zero:
  assumes "regions_ok addr_ok (\<lambda>ts. True) (2 ^ 64) 128 n lim es" "n \<le> 128" "128 \<le> length arr"
  shows "run_regions dummy_shadow es n arr dummy_buffer = Some (zero_loads es n, dummy_buffer)"
  using assms
proof (induction es n arbitrary: lim arr rule: zero_loads.induct)
  case (2 v es n)
  then have "n < length arr" by simp
  then show ?case using 2(1) [of "Suc (unat v)" "arr[n := v]"] 2(2-4) by (simp add: wr_int)
next
  case (3 es n)
  then show ?case using 3(1) [of lim arr] 3(2-4) by simp
next
  case (4 a sz es n)
  have "take n dummy_buffer = replicate n 0" using 4(3) by (simp add: dummy_buffer_def)
  then show ?case using 4(1) [of lim arr] 4(2-4) by (simp add: dummy_shadow_def MShadowDummy_get_def)
next
  case (5 a sz ts es n)
  then show ?case using 5(1) [of lim arr] 5(2-4) by (simp add: dummy_shadow_def MShadowDummy_set_def)
qed simp_all

theorem dummy_loads_zero_witness:
  "run_regions dummy_shadow [Enter 1, Access (Store 8 8 [5]), Access (Load 8 8)] 0 (replicate 128 0) dummy_buffer
   = Some ([[0]], dummy_buffer)"
  using dummy_loads_zero [of "\<lambda>a sz. True" 0 0 "[Enter 1, Access (Store 8 8 [5]), Access (Load 8 8)]" "replicate 128 0"]
  by simp

end
