(* ===== verification/DepthFinder.thy ===== *)
theory DepthFinder
  imports KPrelude
begin

text \<open>
  The depth finder (\<open>runtime/src/depth-finder.cpp\<close>): a runtime that can be linked instead of the
  profiler and only measures how deep the regions of a program nest. All its calls but these are empty.
\<close>

record DepthState =
  df_curr_level :: UInt32
  df_max_level :: UInt32

definition df_initProfiler :: "DepthState \<Rightarrow> DepthState" where
  "df_initProfiler s = s\<lparr>df_curr_level := 0, df_max_level := 0\<rparr>"

definition df_logRegionEntry :: "DepthState \<Rightarrow> DepthState" where
  "df_logRegionEntry s =
     (let s = s\<lparr>df_curr_level := df_curr_level s + 1\<rparr>
      in s\<lparr>df_max_level := (if df_curr_level s > df_max_level s then df_curr_level s else df_max_level s)\<rparr>)"

definition df_logRegionExit :: "DepthState \<Rightarrow> DepthState" where
  "df_logRegionExit s = s\<lparr>df_curr_level := df_curr_level s - 1\<rparr>"

text \<open>The number that \<open>deinitProfiler\<close> writes to its file.\<close>

definition df_deinitProfiler :: "DepthState \<Rightarrow> UInt32" where
  "df_deinitProfiler s = df_max_level s"

section \<open>Runs\<close>

datatype depth_event = RegionEntry | RegionExit

fun depth_step :: "depth_event \<Rightarrow> DepthState \<Rightarrow> DepthState" where
  "depth_step RegionEntry s = df_logRegionEntry s"
| "depth_step RegionExit s = df_logRegionExit s"

text \<open>The deepest nesting of a sequence that starts \<open>d\<close> levels deep; a run that leaves more than it entered is none.\<close>

fun nesting :: "nat \<Rightarrow> depth_event list \<Rightarrow> nat option" where
  "nesting d [] = Some d"
| "nesting d (RegionEntry # es) = nesting (Suc d) es"
| "nesting d (RegionExit # es) = (if d = 0 then None else map_option (max d) (nesting (d - 1) es))"

lemma nesting_ge: "nesting d es = Some k \<Longrightarrow> d \<le> k"
proof (induction d es arbitrary: k rule: nesting.induct)
  case (3 d es)
  then show ?case by (auto split: if_splits)
qed fastforce+

lemma depth_run:
  assumes "nesting d es = Some k" "k < 2 ^ 32" "unat (df_curr_level s) = d" "d \<le> unat (df_max_level s)"
  shows "unat (df_max_level (fold depth_step es s)) = max (unat (df_max_level s)) k"
  using assms
proof (induction d es arbitrary: k s rule: nesting.induct)
  case (1 d)
  then show ?case by simp
next
  case (2 d es)
  let ?s = "df_logRegionEntry s"
  have k: "Suc d \<le> k" using nesting_ge [of "Suc d" es k] 2(2) by simp
  have c: "unat (df_curr_level s + 1) = Suc d"
    using unat_add_of_nat32 [of "df_curr_level s" 1] 2(3,4) k by simp
  have s: "unat (df_curr_level ?s) = Suc d" "unat (df_max_level ?s) = max (unat (df_max_level s)) (Suc d)"
    using c by (simp_all add: df_logRegionEntry_def Let_def word_less_nat_alt max_def)
  from 2(1) [of k ?s] 2(2,3) s k show ?case by simp
next
  case (3 d es)
  then obtain j where j: "d \<noteq> 0" "nesting (d - 1) es = Some j" "k = max d j" by (auto split: if_splits)
  let ?s = "df_logRegionExit s"
  have "df_curr_level s \<noteq> 0" using 3(4) j(1) by auto
  then have "unat (df_curr_level s - 1) = d - 1" using 3(4) by (simp add: unat_minus_one)
  then have s: "unat (df_curr_level ?s) = d - 1" "df_max_level ?s = df_max_level s"
    by (simp_all add: df_logRegionExit_def)
  have "j < 2 ^ 32" using 3(3) j(3) by simp
  from 3(1) [OF j(1,2) this, of ?s] 3(5) s j(3) show ?case by auto
qed

text \<open>
  C40. The number the depth finder writes is the deepest nesting of regions that occurred, for every
  program that leaves no region it has not entered and nests less than \<open>2^32\<close> deep.
\<close>

theorem depth_finder_correct:
  assumes "nesting 0 es = Some k" "k < 2 ^ 32"
  shows "unat (df_deinitProfiler (fold depth_step es (df_initProfiler s))) = k"
  using depth_run [OF assms, of "df_initProfiler s"] by (simp add: df_initProfiler_def df_deinitProfiler_def)

theorem depth_finder_correct_witness:
  "unat (df_deinitProfiler (fold depth_step [RegionEntry, RegionEntry, RegionExit, RegionEntry, RegionExit, RegionExit]
     (df_initProfiler \<lparr>df_curr_level = 7, df_max_level = 7\<rparr>))) = 2"
  using depth_finder_correct [of "[RegionEntry, RegionEntry, RegionExit, RegionEntry, RegionExit, RegionExit]" 2] by simp

end
