(* ===== verification/TagVectorCache.thy ===== *)
theory TagVectorCache
  imports Skadu KTable
begin

unbundle bit_operations_syntax

text \<open>
  The storage of the write-back cache (\<open>runtime/src/TagVectorCache.cpp\<close>, \<open>TagVectorCacheLine.cpp\<close>):
  a direct-mapped cache with one line per 8-byte word. A line has an address, and for each of its two
  halves a version and the number of levels it holds; the times of the halves are the rows \<open>2 * index\<close>
  and \<open>2 * index + 1\<close> of a table. A pointer to times is an offset in this table's array.
\<close>

section \<open>Lines\<close>

record TagVectorCacheLine =
  tag :: Addr
  version :: "Version list"
  lastSize :: "int list"
  line_type :: TableType

definition empty_line :: TagVectorCacheLine where
  "empty_line = \<lparr>tag = 0, version = [0, 0], lastSize = [0, 0], line_type = TYPE_64BIT\<rparr>"

definition setVersion :: "int \<Rightarrow> Version \<Rightarrow> TagVectorCacheLine \<Rightarrow> TagVectorCacheLine option" where
  "setVersion offset ver l = do { vs \<leftarrow> wr (version l) offset ver; Some (l\<lparr>version := vs\<rparr>) }"

definition setValidSize :: "int \<Rightarrow> int \<Rightarrow> TagVectorCacheLine \<Rightarrow> TagVectorCacheLine option" where
  "setValidSize offset n l = do { ns \<leftarrow> wr (lastSize l) offset n; Some (l\<lparr>lastSize := ns\<rparr>) }"

definition isHit :: "Addr \<Rightarrow> TagVectorCacheLine \<Rightarrow> bool" where
  "isHit addr l \<longleftrightarrow> drop_bit 3 (tag l XOR addr) = 0"

text \<open>\<open>getStartInvalidLevel\<close> of \<open>MShadowCache.cpp\<close>: the first level whose version is newer than \<open>lastVer\<close>.\<close>

fun invalid_from :: "Version \<Rightarrow> Version list \<Rightarrow> nat \<Rightarrow> nat option" where
  "invalid_from lastVer vs 0 = Some 0"
| "invalid_from lastVer vs (Suc i) = do {
     v \<leftarrow> rd vs (int i);
     if lastVer \<ge> v then Some (Suc i) else invalid_from lastVer vs i }"

definition getStartInvalidLevel :: "Version \<Rightarrow> Version list \<Rightarrow> Index \<Rightarrow> nat option" where
  "getStartInvalidLevel lastVer vs sz =
     (if sz = 0 then Some 0
      else do {
        v \<leftarrow> rd vs (int (unat sz) - 1);
        if lastVer = v then Some (unat sz) else invalid_from lastVer vs (unat sz) })"

definition validateTag :: "Time list \<Rightarrow> int \<Rightarrow> Version list \<Rightarrow> Index \<Rightarrow> TagVectorCacheLine \<Rightarrow> Time list option" where
  "validateTag data destAddr vs sz l = do {
     v \<leftarrow> rd (version l) 0;
     firstInvalid \<leftarrow> getStartInvalidLevel v vs sz;
     if unat sz > firstInvalid then memzero data (destAddr + int firstInvalid) (unat sz - firstInvalid) else Some data }"

section \<open>The cache\<close>

record TagVectorCache =
  size_in_mb :: int
  line_count :: int
  line_shift :: nat
  tvc_depth :: int
  tagTable :: "TagVectorCacheLine list"
  valueTable :: Table

fun first_one :: "int \<Rightarrow> nat \<Rightarrow> nat \<Rightarrow> nat" where
  "first_one x i 0 = 0"
| "first_one x i (Suc k) = (if bit x i then i else first_one x (Suc i) k)"

definition getFirstOnePosition :: "int \<Rightarrow> nat" where
  "getFirstOnePosition input = first_one input 0 32"

definition getTag :: "int \<Rightarrow> TagVectorCache \<Rightarrow> TagVectorCacheLine option" where
  "getTag index c = rd (tagTable c) index"

text \<open>The line a pointer from \<open>getTag\<close> points to, changed.\<close>

definition put_line :: "int \<Rightarrow> TagVectorCacheLine \<Rightarrow> TagVectorCache \<Rightarrow> TagVectorCache option" where
  "put_line index l c = do { ls \<leftarrow> wr (tagTable c) index l; Some (c\<lparr>tagTable := ls\<rparr>) }"

definition getData :: "int \<Rightarrow> int \<Rightarrow> TagVectorCache \<Rightarrow> int" where
  "getData index offset c = getElementAddr (valueTable c) (index * 2 + offset) 0"

text \<open>
  \<open>configure\<close>: \<open>new_size_in_mb * 1024 * 1024 / 8\<close> lines, cleared, and a table with two rows for each.
  An overflow of \<open>int\<close> is undefined.
\<close>

definition configure :: "int \<Rightarrow> int \<Rightarrow> TagVectorCache option" where
  "configure new_size_in_mb new_depth =
     (if 0 \<le> new_size_in_mb \<and> new_size_in_mb * 1024 * 1024 < 2 ^ 31
      then do {
        let new_line_count = new_size_in_mb * 1024 * 1024 div 8;
        table \<leftarrow> Table_new (new_line_count * 2) new_depth;
        Some \<lparr>size_in_mb = new_size_in_mb, line_count = new_line_count,
              line_shift = getFirstOnePosition new_line_count, tvc_depth = new_depth,
              tagTable = replicate (nat new_line_count) empty_line, valueTable = table\<rparr> }
      else None)"

text \<open>The exclusive or of two groups of address bits; \<open>lineMask\<close> is an \<open>int\<close>, extended to 64 bits.\<close>

definition getLineIndex :: "Addr \<Rightarrow> TagVectorCache \<Rightarrow> int" where
  "getLineIndex addr c =
     (let lineMask = word_of_int (line_count c - 1) :: Addr;
          val0 = ucast (drop_bit 3 addr AND lineMask) :: UInt32;
          val1 = ucast (drop_bit (3 + line_shift c) addr AND lineMask) :: UInt32
      in to_int (val0 XOR val1))"

definition half_of :: "Addr \<Rightarrow> int" where
  "half_of addr = uint (drop_bit 2 addr AND 1)"

text \<open>A lookup gives the line's index, the half and where its times are.\<close>

definition lookupRead :: "Addr \<Rightarrow> TableType \<Rightarrow> TagVectorCache \<Rightarrow> (int \<times> int \<times> int) option" where
  "lookupRead addr ty c = do {
     let index = getLineIndex addr c;
     line \<leftarrow> getTag index c;
     offset \<leftarrow>
       (if line_type line = TYPE_32BIT \<and> ty = TYPE_64BIT
        then do {
          option0 \<leftarrow> rd (array (valueTable c)) (getData index 0 c);
          option1 \<leftarrow> rd (array (valueTable c)) (getData index 1 c);
          Some (if option0 > option1 then 0 else 1) }
        else Some (half_of addr));
     Some (index, offset, getData index offset c) }"

text \<open>
  A 32-bit write to a 64-bit line first makes it a 32-bit line, with the data in both halves. The
  second size is assigned to itself.
\<close>

definition split_line :: "int \<Rightarrow> TagVectorCacheLine \<Rightarrow> TagVectorCache \<Rightarrow> TagVectorCache option" where
  "split_line index line c = do {
     v \<leftarrow> rd (version line) 0;
     vs \<leftarrow> wr (version line) 1 v;
     s \<leftarrow> rd (lastSize line) 1;
     ss \<leftarrow> wr (lastSize line) 1 s;
     n \<leftarrow> rd ss 0;
     c \<leftarrow> put_line index (line\<lparr>line_type := TYPE_32BIT, version := vs, lastSize := ss\<rparr>) c;
     a \<leftarrow> memcpy (array (valueTable c)) (getData index 1 c) (array (valueTable c)) (getData index 0 c) (nat n);
     Some (c\<lparr>valueTable := (valueTable c)\<lparr>array := a\<rparr>\<rparr>) }"

definition lookupWrite :: "Addr \<Rightarrow> TableType \<Rightarrow> TagVectorCache \<Rightarrow> (int \<times> int \<times> int \<times> TagVectorCache) option" where
  "lookupWrite addr ty c = do {
     let index = getLineIndex addr c;
     let offset = half_of addr;
     line \<leftarrow> getTag index c;
     c \<leftarrow> (if line_type line = TYPE_64BIT \<and> ty = TYPE_32BIT then split_line index line c else Some c);
     Some (index, offset, getData index offset c, c) }"

end
