(* ===== verification/SkaduCache.thy ===== *)
theory SkaduCache
  imports TagVectorCache
begin

text \<open>
  The write-back cache in front of \<open>MShadowSkadu\<close> (\<open>runtime/src/MShadowCache.cpp\<close>): a load or store
  of a word that has no line evicts the line in its place, which writes back the levels whose version
  is still current.
\<close>

type_synonym SkaduCache = TagVectorCache

abbreviation cache_data :: "SkaduCache MShadowSkadu \<Rightarrow> Time list" where
  "cache_data m \<equiv> array (valueTable (sk_cache m))"

text \<open>With size 0 \<open>init\<close> leaves the cache as \<open>new\<close> returned it; the memory uses \<open>NullCache\<close> then.\<close>

definition SkaduCache_init :: "KremlinConfiguration \<Rightarrow> int \<Rightarrow> SkaduCache \<Rightarrow> SkaduCache option" where
  "SkaduCache_init cfg sz fresh = (if sz = 0 then Some fresh else configure sz (to_int (getNumProfiledLevels cfg)))"

text \<open>A version is converted to \<open>int\<close> and back, which keeps its lower 31 bits and the sign.\<close>

definition version_as_int :: "Version \<Rightarrow> Version" where
  "version_as_int v = scast (ucast v :: UInt32)"

definition evict_half ::
  "Platform \<Rightarrow> int \<Rightarrow> int \<Rightarrow> Addr \<Rightarrow> TableType \<Rightarrow> Version list \<Rightarrow> SkaduCache MShadowSkadu \<Rightarrow>
   SkaduCache MShadowSkadu option" where
  "evict_half env index offset addr ty vArray m = do {
     line \<leftarrow> getTag index (sk_cache m);
     last \<leftarrow> rd (lastSize line) offset;
     ver \<leftarrow> rd (version line) offset;
     evictSize \<leftarrow> getStartInvalidLevel (version_as_int ver) vArray (word_of_int last);
     evict env (drop (nat (getData index offset (sk_cache m))) (cache_data m)) addr (of_nat evictSize) vArray ty m }"

definition SkaduCache_evict ::
  "Platform \<Rightarrow> int \<Rightarrow> Version list \<Rightarrow> SkaduCache MShadowSkadu \<Rightarrow> SkaduCache MShadowSkadu option" where
  "SkaduCache_evict env index vArray m = do {
     line \<leftarrow> getTag index (sk_cache m);
     if tag line = 0 then Some m
     else do {
       m \<leftarrow> evict_half env index 0 (tag line) (line_type line) vArray m;
       if line_type line = TYPE_32BIT then evict_half env index 1 (tag line + 4) TYPE_32BIT vArray m else Some m } }"

definition SkaduCache_flush ::
  "Platform \<Rightarrow> Version list \<Rightarrow> SkaduCache MShadowSkadu \<Rightarrow> SkaduCache MShadowSkadu option" where
  "SkaduCache_flush env vArray m =
     for_range 0 (nat (line_count (sk_cache m))) (\<lambda>i. SkaduCache_evict env (int i) vArray) m"

text \<open>The new size is not used: the depth grows by 10.\<close>

definition SkaduCache_resize ::
  "Platform \<Rightarrow> int \<Rightarrow> Version list \<Rightarrow> SkaduCache MShadowSkadu \<Rightarrow> SkaduCache MShadowSkadu option" where
  "SkaduCache_resize env newSize vArray m = do {
     m \<leftarrow> SkaduCache_flush env vArray m;
     let size = size_in_mb (sk_cache m);
     let newDepth = tvc_depth (sk_cache m) + 10;
     c \<leftarrow> configure size newDepth;
     Some (m\<lparr>sk_cache := c\<rparr>) }"

definition checkResize ::
  "Platform \<Rightarrow> int \<Rightarrow> Version list \<Rightarrow> SkaduCache MShadowSkadu \<Rightarrow> SkaduCache MShadowSkadu option" where
  "checkResize env sz vArray m =
     (if tvc_depth (sk_cache m) < sz then SkaduCache_resize env (tvc_depth (sk_cache m) + 10) vArray m else Some m)"

text \<open>The times from an offset in the table on, written back.\<close>

definition put_data :: "int \<Rightarrow> Time list \<Rightarrow> SkaduCache \<Rightarrow> SkaduCache" where
  "put_data destAddr ts c =
     c\<lparr>valueTable := (valueTable c)\<lparr>array := take (nat destAddr) (array (valueTable c)) @ ts\<rparr>\<rparr>"

definition set_tag ::
  "int \<Rightarrow> int \<Rightarrow> Version list \<Rightarrow> Index \<Rightarrow> TagVectorCacheLine \<Rightarrow> SkaduCache \<Rightarrow> SkaduCache option" where
  "set_tag index offset vArray sz line c = do {
     v \<leftarrow> rd vArray (int (unat sz) - 1);
     line \<leftarrow> setVersion offset v line;
     line \<leftarrow> setValidSize offset (to_int sz) line;
     put_line index line c }"

definition SkaduCache_get ::
  "Platform \<Rightarrow> Addr \<Rightarrow> Index \<Rightarrow> Version list \<Rightarrow> TableType \<Rightarrow> SkaduCache MShadowSkadu \<Rightarrow>
   (Time list \<times> SkaduCache MShadowSkadu) option" where
  "SkaduCache_get env addr sz vArray ty m = do {
     m \<leftarrow> checkResize env (to_int sz) vArray m;
     (index, offset, destAddr) \<leftarrow> lookupRead addr ty (sk_cache m);
     entry \<leftarrow> getTag index (sk_cache m);
     (entry, m) \<leftarrow>
       (if isHit addr entry
        then do {
          let m = m\<lparr>cache_stat := eventReadHit (cache_stat m)\<rparr>;
          ts \<leftarrow> validateTag (cache_data m) destAddr vArray sz entry;
          Some (entry, m\<lparr>sk_cache := (sk_cache m)\<lparr>valueTable := (valueTable (sk_cache m))\<lparr>array := ts\<rparr>\<rparr>\<rparr>) }
        else do {
          let m = m\<lparr>cache_stat := eventReadEvict (cache_stat m)\<rparr>;
          m \<leftarrow> SkaduCache_evict env index vArray m;
          (ts, m) \<leftarrow> fetch env addr sz vArray (drop (nat destAddr) (cache_data m)) ty m;
          Some (entry\<lparr>tag := addr\<rparr>, m\<lparr>sk_cache := put_data destAddr ts (sk_cache m)\<rparr>) });
     c \<leftarrow> set_tag index offset vArray sz entry (sk_cache m);
     Some (drop (nat destAddr) (array (valueTable c)), m\<lparr>sk_cache := c\<rparr>) }"

definition SkaduCache_set ::
  "Platform \<Rightarrow> Addr \<Rightarrow> Index \<Rightarrow> Version list \<Rightarrow> Time list \<Rightarrow> TableType \<Rightarrow> SkaduCache MShadowSkadu \<Rightarrow>
   SkaduCache MShadowSkadu option" where
  "SkaduCache_set env addr sz vArray tArray ty m = do {
     m \<leftarrow> checkResize env (to_int sz) vArray m;
     (index, offset, destAddr, c) \<leftarrow> lookupWrite addr ty (sk_cache m);
     let m = m\<lparr>sk_cache := c\<rparr>;
     entry \<leftarrow> getTag index c;
     m \<leftarrow> (if isHit addr entry then Some (m\<lparr>cache_stat := eventWriteHit (cache_stat m)\<rparr>)
           else SkaduCache_evict env index vArray (m\<lparr>cache_stat := eventWriteEvict (cache_stat m)\<rparr>));
     a \<leftarrow> memcpy (cache_data m) destAddr tArray 0 (unat sz);
     a \<leftarrow> (if line_type entry = TYPE_32BIT \<and> ty = TYPE_64BIT
           then memcpy a (getData index offset (sk_cache m)) tArray 0 (unat sz) else Some a);
     let c = (sk_cache m)\<lparr>valueTable := (valueTable (sk_cache m))\<lparr>array := a\<rparr>\<rparr>;
     c \<leftarrow> set_tag index offset vArray sz (entry\<lparr>line_type := ty, tag := addr\<rparr>) c;
     Some (m\<lparr>sk_cache := c\<rparr>) }"

definition SkaduCache_ops :: "Platform \<Rightarrow> SkaduCache CacheInterface" where
  "SkaduCache_ops env = \<lparr>cache_get = SkaduCache_get env, cache_set = SkaduCache_set env\<rparr>"

definition skadu_cached_shadow :: "Platform \<Rightarrow> SkaduCache MShadowSkadu MShadow" where
  "skadu_cached_shadow env = \<lparr>mem_get = MShadowSkadu_get (SkaduCache_ops env), mem_set = MShadowSkadu_set (SkaduCache_ops env)\<rparr>"

end
