(* ===== verification/SkaduCacheSpec.thy ===== *)
theory SkaduCacheSpec
  imports SkaduCache SkaduRuns
begin

unbundle bit_operations_syntax

text \<open>
  What the write-back cache keeps. As long as no access is less deep than one before it, \<open>MShadowSkadu\<close>
  behind the cache is the same map from words to times as without it (the contract \<open>deepening_memory\<close>).
\<close>

section \<open>Line numbers\<close>

lemma line_index_range:
  assumes "0 < line_count c" "line_count c < 2 ^ 31"
  shows "0 \<le> getLineIndex w c" "getLineIndex w c < line_count c"
proof -
  let ?M = "word_of_int (line_count c - 1) :: Addr"
  let ?a = "drop_bit 3 w" and ?b = "drop_bit (3 + line_shift c) w"
  let ?z = "(?a XOR ?b) AND ?M"
  have "uint (word_of_int x :: Addr) = x" if "0 \<le> x" "x < 2 ^ 31" for x
    using that by (simp add: uint_word_of_int_eq take_bit_int_eq_self)
  from this [of "line_count c - 1"] assms have M: "uint ?M = line_count c - 1" by linarith
  have z: "(ucast (x AND M) :: UInt32) XOR ucast (y AND M) = ucast ((x XOR y) AND M)" for x y M :: Addr
    by (rule bit_eqI) (auto simp: bit_simps)
  have "uint ?z \<le> uint ?M" by (simp add: word_le_def [symmetric] word_and_le1)
  then have le: "uint ?z < line_count c" using M by simp
  have uz: "int (unat ?z) < line_count c" using le by simp
  have "unat (ucast ?z :: UInt32) = unat ?z mod 2 ^ 32" by (simp add: unsigned_ucast_eq take_bit_eq_mod)
  moreover have small: "unat ?z < 2 ^ 31"
  proof -
    have "int (unat ?z) < int (2 ^ 31)" using less_trans [OF uz assms(2)] by simp
    then show ?thesis by (simp only: of_nat_less_iff)
  qed
  ultimately have u: "unat (ucast ?z :: UInt32) = unat ?z" by simp
  have "getLineIndex w c = to_int (ucast ?z :: UInt32)"
    by (simp only: getLineIndex_def Let_def z)
  also have "\<dots> = int (unat ?z)" using to_int_small [of "ucast ?z"] small unfolding u by (simp only:)
  finally show "0 \<le> getLineIndex w c" "getLineIndex w c < line_count c" using uz by simp_all
qed

lemma half_aligned: "align8 w = w \<Longrightarrow> half_of w = 0"
proof -
  assume "align8 w = w"
  have "(7 :: Addr) = mask 3" by (simp add: mask_eq_exp_minus_1)
  then have "\<not> bit (align8 w) 2" by (simp add: align8_def bit_simps)
  then have "\<not> bit w 2" using \<open>align8 w = w\<close> by simp
  then have "drop_bit 2 w AND 1 = 0" by (simp add: and_one_eq odd_iff_mod_2_eq_one bit_iff_odd_drop_bit flip: even_iff_mod_2_eq_zero)
  then show ?thesis by (simp add: half_of_def)
qed

lemma isHit_aligned:
  assumes "align8 w = w" "align8 (tag l) = tag l"
  shows "isHit w l \<longleftrightarrow> tag l = w"
proof
  assume "isHit w l"
  then have d: "drop_bit 3 (tag l) = drop_bit 3 w"
    by (intro bit_eqI) (auto simp: isHit_def bit_simps dest!: arg_cong [where f = "\<lambda>x. bit x _"])
  have "align8 (tag l) = align8 w"
  proof (rule bit_eqI)
    fix i
    have seven: "(7 :: Addr) = mask 3" by (simp add: mask_eq_exp_minus_1)
    show "bit (align8 (tag l)) i = bit (align8 w) i"
    proof (cases "i < 3")
      case False
      have "bit (drop_bit 3 (tag l)) (i - 3) = bit (drop_bit 3 w) (i - 3)" by (simp add: d)
      then show ?thesis using False by (simp add: align8_def seven bit_simps)
    qed (simp add: align8_def seven bit_simps)
  qed
  then show "tag l = w" using assms by simp
qed (simp add: isHit_def)

section \<open>Write-back and fetch\<close>

abbreviation evict_stat :: "'c MShadowSkadu \<Rightarrow> bool" where
  "evict_stat m \<equiv> length (nEvictLevel (cache_stat m)) = 128"

lemma write_level_stat: "write_level p a vs val ty i m = Some m' \<Longrightarrow> cache_stat m' = cache_stat m"
  by (auto simp: write_level_def bind_eq_Some_conv)

lemma getElement_stat: "getElement a m = Some (i, m') \<Longrightarrow> cache_stat m' = cache_stat m"
  by (auto simp: getElement_def Let_def bind_eq_Some_conv split: option.splits)

lemma new_level_table_stat: "new_level_table env i ix seg m = Some (p, m') \<Longrightarrow> cache_stat m' = cache_stat m"
  by (auto simp: new_level_table_def Let_def bind_eq_Some_conv)

lemma ready_level_table_stat: "ready_level_table env vs p m = Some m' \<Longrightarrow> cache_stat m' = cache_stat m"
  by (auto simp: ready_level_table_def Let_def bind_eq_Some_conv split: if_splits)

lemma getLevelTable_stat: "getLevelTable env a vs m = Some (p, m') \<Longrightarrow> cache_stat m' = cache_stat m"
  by (auto simp: getLevelTable_def Let_def bind_eq_Some_conv split: option.splits
      dest!: getElement_stat new_level_table_stat ready_level_table_stat)

lemma eventEvict_ok:
  "length (nEvictLevel st) = 128 \<Longrightarrow> i < 128 \<Longrightarrow>
   \<exists>st'. eventEvict (int i) st = Some st' \<and> length (nEvictLevel st') = 128"
  by (simp add: eventEvict_def rd_int wr_int)

text \<open>The levels up to the first time 0 are written.\<close>

lemma evict_levels_ok:
  assumes "skadu_ok H env m" "page_table m (addr_high a) (GetIndex a) = Some p" "evict_stat m"
    and "i + k \<le> 64" "i + k \<le> length vs" "i + k \<le> length ts"
  shows "\<exists>m'. evict_levels p a vs ts TYPE_64BIT i k m = Some m' \<and> skadu_ok H env m' \<and> sk_cache m' = sk_cache m
    \<and> evict_stat m'
    \<and> (\<forall>q j. j < length vs \<longrightarrow> skadu_view m' q j (vs ! j)
        = (if q = place_of a \<and> i \<le> j \<and> j < i + k \<and> (\<forall>x. i \<le> x \<and> x \<le> j \<longrightarrow> ts ! x \<noteq> 0) then ts ! j
           else skadu_view m q j (vs ! j)))
    \<and> (\<forall>v. v \<notin> set (take (i + k) vs) \<longrightarrow> zero_at m v \<longrightarrow> zero_at m' v)"
  using assms
proof (induction k arbitrary: i m)
  case 0
  then show ?case by (intro exI [of _ m]) auto
next
  case (Suc k)
  have b: "i < 64" "i < length vs" "i < length ts" using Suc.prems(4-6) by simp_all
  obtain st where st: "eventEvict (int i) (cache_stat m) = Some st" "length (nEvictLevel st) = 128"
    using eventEvict_ok [OF Suc.prems(3), of i] b by auto
  let ?m = "m\<lparr>cache_stat := st\<rparr>"
  have ok: "skadu_ok H env ?m" "page_table ?m = page_table m" "skadu_view ?m = skadu_view m"
    using Suc.prems(1) by (simp_all add: frame_simps)
  have z: "zero_at ?m v = zero_at m v" for v by (rule zero_at_cong) (simp add: ok(3))
  have rd: "rd ts (int i) = Some (ts ! i)" using b(3) by (simp add: rd_int)
  show ?case
  proof (cases "ts ! i = 0")
    case True
    then have "evict_levels p a vs ts TYPE_64BIT i (Suc k) m = Some ?m" using st(1) rd by simp
    moreover have "\<not> (\<forall>x. i \<le> x \<and> x \<le> j \<longrightarrow> ts ! x \<noteq> 0)" if "i \<le> j" for j using True that by blast
    ultimately show ?thesis using ok st(2) z by (intro exI [of _ ?m]) auto
  next
    case False
    have pg: "page_table ?m (addr_high a) (GetIndex a) = Some p" using Suc.prems(2) ok(2) by simp
    obtain m1 where m1: "write_level p a vs (ts ! i) TYPE_64BIT i ?m = Some m1" "skadu_ok H env m1"
      "page_table m1 = page_table ?m" "sk_cache m1 = sk_cache ?m"
      "\<forall>q j. j < length vs \<longrightarrow> skadu_view m1 q j (vs ! j)
        = (if q = place_of a \<and> j = i then ts ! i else skadu_view ?m q j (vs ! j))"
      "\<forall>v. v \<noteq> vs ! i \<longrightarrow> zero_at ?m v \<longrightarrow> zero_at m1 v"
      using write_level_ok [OF ok(1) pg b(1,2), of "ts ! i"] by blast
    have s1: "evict_stat m1" using write_level_stat [OF m1(1)] st(2) by simp
    have pg1: "page_table m1 (addr_high a) (GetIndex a) = Some p" using m1(3) pg by simp
    have b1: "Suc i + k \<le> 64" "Suc i + k \<le> length vs" "Suc i + k \<le> length ts" using Suc.prems(4-6) by simp_all
    obtain m2 where m2: "evict_levels p a vs ts TYPE_64BIT (Suc i) k m1 = Some m2" "skadu_ok H env m2"
      "sk_cache m2 = sk_cache m1" "evict_stat m2"
      "\<forall>q j. j < length vs \<longrightarrow> skadu_view m2 q j (vs ! j)
        = (if q = place_of a \<and> Suc i \<le> j \<and> j < Suc i + k \<and> (\<forall>x. Suc i \<le> x \<and> x \<le> j \<longrightarrow> ts ! x \<noteq> 0) then ts ! j
           else skadu_view m1 q j (vs ! j))"
      "\<forall>v. v \<notin> set (take (Suc i + k) vs) \<longrightarrow> zero_at m1 v \<longrightarrow> zero_at m2 v"
      using Suc.IH [OF m1(2) pg1 s1 b1] by blast
    have "evict_levels p a vs ts TYPE_64BIT i (Suc k) m = Some m2" using st(1) rd False m1(1) m2(1) by simp
    moreover have "skadu_view m2 q j (vs ! j)
        = (if q = place_of a \<and> i \<le> j \<and> j < i + Suc k \<and> (\<forall>x. i \<le> x \<and> x \<le> j \<longrightarrow> ts ! x \<noteq> 0) then ts ! j
           else skadu_view m q j (vs ! j))" if j: "j < length vs" for q j
    proof -
      have v2: "skadu_view m2 q j (vs ! j)
        = (if q = place_of a \<and> Suc i \<le> j \<and> j < Suc i + k \<and> (\<forall>x. Suc i \<le> x \<and> x \<le> j \<longrightarrow> ts ! x \<noteq> 0) then ts ! j
           else skadu_view m1 q j (vs ! j))" using m2(5) j by blast
      have v1: "skadu_view m1 q j (vs ! j) = (if q = place_of a \<and> j = i then ts ! i else skadu_view m q j (vs ! j))"
        using m1(5) j unfolding ok(3) by blast
      have e: "(\<forall>x. i \<le> x \<and> x \<le> j \<longrightarrow> ts ! x \<noteq> 0) \<longleftrightarrow> (\<forall>x. Suc i \<le> x \<and> x \<le> j \<longrightarrow> ts ! x \<noteq> 0)" if "i \<le> j"
        using False by (metis Suc_leI le_neq_implies_less Suc_leD)
      show ?thesis
      proof (cases "j = i")
        case True
        then have "\<forall>x. i \<le> x \<and> x \<le> j \<longrightarrow> ts ! x \<noteq> 0" using False by (metis le_antisym)
        then show ?thesis using True v1 v2 by simp
      next
        case neq: False
        show ?thesis
        proof (cases "i \<le> j")
          case True
          have v1': "skadu_view m1 q j (vs ! j) = skadu_view m q j (vs ! j)" using v1 neq by simp
          show ?thesis unfolding v2 v1' e [OF True] using True neq by (intro if_cong) auto
        qed (use neq v1 v2 in simp)
      qed
    qed
    moreover have "zero_at m2 v" if "v \<notin> set (take (i + Suc k) vs)" "zero_at m v" for v
    proof -
      have "vs ! i \<in> set (take (i + Suc k) vs)"
        using b(2) by (simp add: in_set_conv_nth) (metis less_add_Suc1 nth_take)
      then have "v \<noteq> vs ! i" using that(1) by blast
      then have "zero_at m1 v" using m1(6) that(2) z by blast
      then show ?thesis using m2(6) that(1) by simp
    qed
    ultimately show ?thesis using m1(4) m2(2-4) by (intro exI [of _ m2]) simp
  qed
qed

lemma evict_ok:
  assumes "skadu_ok H env m" "addr_high a \<in> H" "evict_stat m"
    and "unat n \<le> 64" "unat n \<le> length vs" "unat n \<le> length ts"
  shows "\<exists>m'. evict env ts a n vs TYPE_64BIT m = Some m' \<and> skadu_ok H env m' \<and> sk_cache m' = sk_cache m
    \<and> evict_stat m'
    \<and> (\<forall>q j. j < length vs \<longrightarrow> skadu_view m' q j (vs ! j)
        = (if q = place_of a \<and> j < unat n \<and> (\<forall>x \<le> j. ts ! x \<noteq> 0) then ts ! j else skadu_view m q j (vs ! j)))
    \<and> (\<forall>v. v \<notin> set (take (unat n) vs) \<longrightarrow> zero_at m v \<longrightarrow> zero_at m' v)"
proof -
  obtain p m1 where m1: "getLevelTable env a vs m = Some (p, m1)" "skadu_ok H env m1"
    "page_table m1 (addr_high a) (GetIndex a) = Some p" "\<forall>k j v. skadu_view m1 k j v = skadu_view m k j v"
    "sk_cache m1 = sk_cache m" using getLevelTable_ok [OF assms(1,2)] by blast
  have s1: "evict_stat m1" using getLevelTable_stat [OF m1(1)] assms(3) by simp
  obtain m2 where m2: "evict_levels p a vs ts TYPE_64BIT 0 (unat n) m1 = Some m2" "skadu_ok H env m2"
    "sk_cache m2 = sk_cache m1" "evict_stat m2"
    "\<forall>q j. j < length vs \<longrightarrow> skadu_view m2 q j (vs ! j)
        = (if q = place_of a \<and> 0 \<le> j \<and> j < 0 + unat n \<and> (\<forall>x. 0 \<le> x \<and> x \<le> j \<longrightarrow> ts ! x \<noteq> 0) then ts ! j
           else skadu_view m1 q j (vs ! j))"
    "\<forall>v. v \<notin> set (take (0 + unat n) vs) \<longrightarrow> zero_at m1 v \<longrightarrow> zero_at m2 v"
    using evict_levels_ok [OF m1(2,3) s1, of 0 "unat n" vs ts] assms(4-6) unfolding add_0 by blast
  let ?m = "m2\<lparr>cache_stat := eventCacheEvict n n (cache_stat m2)\<rparr>"
  have ok: "skadu_ok H env ?m" "skadu_view ?m = skadu_view m2" "sk_cache ?m = sk_cache m2"
    using m2(2) by (simp_all add: frame_simps)
  have "evict env ts a n vs TYPE_64BIT m = Some ?m"
    using m1(1) m2(1) touch_table_off [of ?m p] ok(1) by (simp add: evict_def skadu_ok_def)
  moreover have "evict_stat ?m" using m2(4) by (simp add: eventCacheEvict_def)
  moreover have "skadu_view ?m q j (vs ! j)
      = (if q = place_of a \<and> j < unat n \<and> (\<forall>x \<le> j. ts ! x \<noteq> 0) then ts ! j else skadu_view m q j (vs ! j))"
    if "j < length vs" for q j
  proof -
    have "skadu_view m2 q j (vs ! j)
        = (if q = place_of a \<and> 0 \<le> j \<and> j < 0 + unat n \<and> (\<forall>x. 0 \<le> x \<and> x \<le> j \<longrightarrow> ts ! x \<noteq> 0) then ts ! j
           else skadu_view m1 q j (vs ! j))" using m2(5) that by blast
    moreover have v1: "skadu_view m1 q j (vs ! j) = skadu_view m q j (vs ! j)" using m1(4) by blast
    ultimately show ?thesis unfolding ok(2) v1 by (simp only: le0 simp_thms add_0)
  qed
  moreover have "zero_at ?m v" if "v \<notin> set (take (unat n) vs)" "zero_at m v" for v
  proof -
    have "zero_at m1 v = zero_at m v" by (rule zero_at_cong) (use m1(4) in blast)
    moreover have "zero_at ?m v = zero_at m2 v" by (rule zero_at_cong) (simp add: ok(2))
    ultimately show ?thesis using m2(6) that by simp
  qed
  ultimately show ?thesis using ok(1,3) m1(5) m2(3) by (intro exI [of _ ?m]) simp
qed

lemma fetch_ok:
  assumes "skadu_ok H env m" "addr_high a \<in> H" "unat n \<le> 64" "unat n \<le> length vs" "unat n \<le> length ts"
  shows "\<exists>ts' m'. fetch env a n vs ts ty m = Some (ts', m') \<and> skadu_ok H env m' \<and> sk_cache m' = sk_cache m
    \<and> cache_stat m' = cache_stat m \<and> length ts' = length ts
    \<and> (\<forall>k j v. skadu_view m' k j v = skadu_view m k j v)
    \<and> (\<forall>i < length ts. ts' ! i = (if i < unat n then skadu_view m (place_of a) i (vs ! i) else ts ! i))"
proof -
  obtain p m1 where m1: "getLevelTable env a vs m = Some (p, m1)" "skadu_ok H env m1"
    "page_table m1 (addr_high a) (GetIndex a) = Some p" "\<forall>k j v. skadu_view m1 k j v = skadu_view m k j v"
    "sk_cache m1 = sk_cache m" using getLevelTable_ok [OF assms(1,2)] by blast
  let ?I = "\<lambda>j us. length us = length ts
    \<and> (\<forall>i < length ts. us ! i = (if i < j then skadu_view m (place_of a) i (vs ! i) else ts ! i))"
  have "\<exists>us. for_range 0 (unat n) (fetch_level p a vs m1) ts = Some us \<and> ?I (0 + unat n) us"
  proof (rule for_range_rule)
    fix j us assume j: "j < 0 + unat n" and I: "?I j us"
    have b: "j < 64" "j < length vs" "j < length us" using j assms(3-5) I by simp_all
    have "read_level p a vs j m1 = Some (skadu_view m (place_of a) j (vs ! j))"
      unfolding read_level_ok [OF m1(2,3) b(1,2)] using m1(4) by blast
    then have "fetch_level p a vs m1 j us = Some (us[j := skadu_view m (place_of a) j (vs ! j)])"
      using b(3) by (simp add: fetch_level_def wr_int)
    moreover have "?I (Suc j) (us[j := skadu_view m (place_of a) j (vs ! j)])"
      using I b(3) by (auto simp: nth_list_update less_Suc_eq)
    ultimately show "\<exists>us'. fetch_level p a vs m1 j us = Some us' \<and> ?I (Suc j) us'" by blast
  qed simp
  then obtain us where us: "for_range 0 (unat n) (fetch_level p a vs m1) ts = Some us" "?I (unat n) us" by auto
  have "fetch env a n vs ts ty m = Some (us, m1)"
    using m1(1) us(1) touch_table_off [of m1 p] m1(2) by (simp add: fetch_def skadu_ok_def)
  then show ?thesis using m1(2,4,5) us(2) getLevelTable_stat [OF m1(1)]
    by (intro exI [of _ us] exI [of _ m1] conjI) simp_all
qed

end
