(* ===== verification/DeepMemory.thy ===== *)
theory DeepMemory
  imports RegionMemory
begin

text \<open>
  The contract of a shadow memory that relies on the depth of the accesses: it keeps what was stored
  at some depth only as long as every later access is at least as deep. Regions may be entered and
  left in between. The write-back cache in front of \<open>MShadowSkadu\<close> is such a memory.
\<close>

text \<open>No access is less deep than one before it; \<open>d\<close> is the depth of the last one.\<close>

fun deepening :: "nat \<Rightarrow> nat \<Rightarrow> region_op list \<Rightarrow> bool" where
  "deepening d n [] = True"
| "deepening d n (Enter v # es) = deepening d (Suc n) es"
| "deepening d n (Leave # es) = deepening d (n - 1) es"
| "deepening d n (Access x # es) = (0 < n \<and> d \<le> n \<and> deepening n n es)"

locale deepening_memory =
  fixes get :: "Addr \<Rightarrow> Index \<Rightarrow> Version list \<Rightarrow> UInt32 \<Rightarrow> 'm \<Rightarrow> (Time list \<times> 'm) option"
    and set :: "Addr \<Rightarrow> Index \<Rightarrow> Version list \<Rightarrow> Time list \<Rightarrow> UInt32 \<Rightarrow> 'm \<Rightarrow> 'm option"
    and inv :: "nat \<Rightarrow> nat \<Rightarrow> Version list \<Rightarrow> 'm \<Rightarrow> bool"
    and addr_ok :: "Addr \<Rightarrow> UInt32 \<Rightarrow> bool"
    and vals_ok :: "Time list \<Rightarrow> bool"
    and max_version :: nat
    and max_depth :: nat
    and slot :: "Addr \<Rightarrow> UInt32 \<Rightarrow> 'k"
    and contents :: "Version list \<Rightarrow> 'm \<Rightarrow> 'k \<Rightarrow> Time list"
  assumes depth_bound: "max_depth < 2 ^ 32"
    and get_ok: "inv d lim vs m \<Longrightarrow> addr_ok a sz \<Longrightarrow> 0 < length vs \<Longrightarrow> d \<le> length vs \<Longrightarrow> length vs \<le> max_depth \<Longrightarrow>
      \<exists>ts m'. get a (of_nat (length vs)) (vs @ old) sz m = Some (ts, m') \<and> inv (length vs) lim vs m'
        \<and> length vs \<le> length ts \<and> take (length vs) ts = contents vs m (slot a sz)
        \<and> contents vs m' = contents vs m"
    and set_ok: "inv d lim vs m \<Longrightarrow> addr_ok a sz \<Longrightarrow> 0 < length vs \<Longrightarrow> d \<le> length vs \<Longrightarrow> length vs \<le> max_depth \<Longrightarrow>
      length vs \<le> length ts \<Longrightarrow> vals_ok (take (length vs) ts) \<Longrightarrow>
      \<exists>m'. set a (of_nat (length vs)) (vs @ old) ts sz m = Some m' \<and> inv (length vs) lim vs m'
        \<and> contents vs m' = (contents vs m)(slot a sz := take (length vs) ts)"
    and enter_ok: "inv d lim vs m \<Longrightarrow> length vs < max_depth \<Longrightarrow> lim \<le> unat v \<Longrightarrow>
      unat v < max_version \<Longrightarrow> inv d (Suc (unat v)) (vs @ [v]) m \<and> contents (vs @ [v]) m = (\<lambda>k. contents vs m k @ [0])"
    and leave_ok: "inv d lim (vs @ [v]) m \<Longrightarrow>
      inv d lim vs m \<and> contents vs m = (\<lambda>k. butlast (contents (vs @ [v]) m k))"
begin

text \<open>Every run whose accesses do not get less deep loads what the stacks of times say.\<close>

lemma run_deepening_refines:
  assumes "inv d lim vs m" "length vs \<le> max_depth" "max_depth \<le> length vs + length old"
    and "regions_ok addr_ok vals_ok max_version max_depth (length vs) lim es" "deepening d (length vs) es"
  shows "\<exists>m'. run_regions \<lparr>mem_get = get, mem_set = set\<rparr> es (length vs) (vs @ old) m
    = Some (spec_regions slot es (length vs) (contents vs m), m')"
  using assms
proof (induction es arbitrary: d lim vs old m)
  case (Cons e es)
  note prems = Cons.prems and IH = Cons.IH
  show ?case
  proof (cases e)
    case (Enter v)
    then have v: "length vs < max_depth" "lim \<le> unat v" "unat v < max_version"
      "regions_ok addr_ok vals_ok max_version max_depth (length (vs @ [v])) (Suc (unat v)) es"
      "deepening d (length (vs @ [v])) es" using prems(4,5) by simp_all
    then obtain u old' where old: "old = u # old'" using prems(3) by (cases old) auto
    have w: "wr (vs @ old) (int (length vs)) v = Some ((vs @ [v]) @ old')"
      by (subst wr_int) (simp_all add: old)
    note e = enter_ok [OF prems(1) v(1-3)]
    have "max_depth \<le> length (vs @ [v]) + length old'" using prems(3) old by simp
    from IH [OF conjunct1 [OF e] _ this v(4,5)] v(1) show ?thesis using Enter w e by simp
  next
    case Leave
    then obtain us v where vs: "vs = us @ [v]" using prems(4) by (cases vs rule: rev_cases) auto
    note l = leave_ok [OF prems(1) [unfolded vs]]
    have "length us \<le> max_depth" "max_depth \<le> length us + length (v # old)"
      "regions_ok addr_ok vals_ok max_version max_depth (length us) lim es" "deepening d (length us) es"
      using prems vs Leave by simp_all
    from IH [OF conjunct1 [OF l] this] show ?thesis using Leave l vs by simp
  next
    case (Access x)
    then have deep: "0 < length vs" "d \<le> length vs" "deepening (length vs) (length vs) es" using prems(5) by simp_all
    show ?thesis
    proof (cases x)
      case (Load a sz)
      then have ok: "addr_ok a sz" "regions_ok addr_ok vals_ok max_version max_depth (length vs) lim es"
        using prems(4) Access by simp_all
      from get_ok [OF prems(1) ok(1) deep(1,2) prems(2), of old] obtain ts m' where
        g: "get a (of_nat (length vs)) (vs @ old) sz m = Some (ts, m')" "inv (length vs) lim vs m'"
        "take (length vs) ts = contents vs m (slot a sz)" "contents vs m' = contents vs m" by blast
      from IH [OF g(2) prems(2,3) ok(2) deep(3)] show ?thesis using Access Load g by auto
    next
      case (Store a sz ts)
      then have ok: "addr_ok a sz" "length vs \<le> length ts" "vals_ok (take (length vs) ts)"
        "regions_ok addr_ok vals_ok max_version max_depth (length vs) lim es" using prems(4) Access by simp_all
      from set_ok [OF prems(1) ok(1) deep(1,2) prems(2) ok(2,3), of old] obtain m' where
        s: "set a (of_nat (length vs)) (vs @ old) ts sz m = Some m'" "inv (length vs) lim vs m'"
        "contents vs m' = (contents vs m)(slot a sz := take (length vs) ts)" by blast
      from IH [OF s(2) prems(2,3) ok(4) deep(3)] show ?thesis using Access Store s by (auto simp: fun_upd_def)
    qed
  qed
qed simp

end

end
