(* ===== verification/SkaduCacheInv.thy ===== *)
theory SkaduCacheInv
  imports SkaduCacheSpec BlockCopy DeepMemory
begin

text \<open>
  The invariant of \<open>MShadowSkadu\<close> behind the write-back cache, and what a word holds: a level whose
  version is newer than the version of the word's line holds 0; an older one is in the cache. For a
  word without a line it is in the memory. The memory holds 0 wherever the word does, because a
  write-back stops at the first time 0.
\<close>

section \<open>The first invalid level\<close>

lemma invalid_from_sorted:
  assumes "sorted_wrt (<) (take k vs)" "k \<le> length vs"
  shows "\<exists>j \<le> k. invalid_from v vs k = Some j \<and> (\<forall>l < k. l < j \<longleftrightarrow> vs ! l \<le> v)"
  using assms
proof (induction k)
  case (Suc k)
  have k: "k < length vs" using Suc.prems(2) by simp
  have t: "take (Suc k) vs = take k vs @ [vs ! k]" using k by (rule take_Suc_conv_app_nth)
  have s: "sorted_wrt (<) (take k vs)" and last: "\<forall>x \<in> set (take k vs). x < vs ! k"
    using Suc.prems(1) unfolding t by (simp_all add: sorted_wrt_append)
  have below: "vs ! l < vs ! k" if "l < k" for l
  proof -
    have "take k vs ! l \<in> set (take k vs)" using that k by (intro nth_mem) simp
    then show ?thesis using last that by simp
  qed
  show ?case
  proof (cases "vs ! k \<le> v")
    case True
    then have "vs ! l \<le> v" if "l < Suc k" for l using below [of l] that by (auto simp: less_Suc_eq)
    then show ?thesis using True k by (simp add: rd_int)
  next
    case False
    from Suc.IH [OF s] k obtain j where j: "j \<le> k" "invalid_from v vs k = Some j" "\<forall>l < k. l < j \<longleftrightarrow> vs ! l \<le> v" by auto
    then show ?thesis using False k by (intro exI [of _ j]) (auto simp: rd_int less_Suc_eq)
  qed
qed simp

lemma start_invalid_sorted:
  assumes "sorted_wrt (<) (take (unat n) vs)" "unat n \<le> length vs"
  shows "\<exists>j \<le> unat n. getStartInvalidLevel v vs n = Some j \<and> (\<forall>l < unat n. l < j \<longleftrightarrow> vs ! l \<le> v)"
proof (cases "n = 0")
  case False
  then obtain k where k: "unat n = Suc k" by (cases "unat n") (auto simp: unat_eq_0)
  then have kl: "k < length vs" using assms(2) by simp
  have "vs ! l \<le> vs ! k" if "l < Suc k" for l
  proof (cases "l = k")
    case False
    then have "take (Suc k) vs ! l < take (Suc k) vs ! k"
      using that kl assms(1) unfolding k by (intro sorted_wrt_nth_less [where P = "(<)"]) auto
    then show ?thesis using that by simp
  qed simp
  moreover have "rd vs (int (unat n) - 1) = Some (vs ! k)" using k kl by (simp add: rd_int)
  moreover note invalid_from_sorted [OF assms, of v]
  ultimately show ?thesis using False k unfolding getStartInvalidLevel_def
    by (cases "v = vs ! k") (auto simp del: invalid_from.simps)
qed (simp add: getStartInvalidLevel_def)

section \<open>Lines and words\<close>

definition line_of :: "TagVectorCache \<Rightarrow> Addr \<Rightarrow> nat" where
  "line_of c w = nat (getLineIndex w c)"

definition line_at :: "TagVectorCache \<Rightarrow> nat \<Rightarrow> TagVectorCacheLine" where
  "line_at c i = tagTable c ! i"

text \<open>Only the first half of a line is used: \<open>MShadowSkadu\<close> makes 64-bit accesses.\<close>

definition line_time :: "TagVectorCache \<Rightarrow> nat \<Rightarrow> nat \<Rightarrow> Time" where
  "line_time c i l = array (valueTable c) ! (2 * i * nat (tvc_depth c) + l)"

definition holds :: "TagVectorCache \<Rightarrow> Addr \<Rightarrow> bool" where
  "holds c w \<longleftrightarrow> w \<noteq> 0 \<and> tag (line_at c (line_of c w)) = w"

text \<open>The words are the multiples of 8; other addresses hold nothing.\<close>

definition word_time :: "SkaduCache MShadowSkadu \<Rightarrow> Addr \<Rightarrow> nat \<Rightarrow> Version \<Rightarrow> Time" where
  "word_time m w l v = (let c = sk_cache m; i = line_of c w in
     if align8 w \<noteq> w then 0
     else if holds c w then (if v \<le> version (line_at c i) ! 0 then line_time c i l else 0)
     else skadu_view m (place_of w) l v)"

definition cached_contents :: "Version list \<Rightarrow> SkaduCache MShadowSkadu \<Rightarrow> Addr \<Rightarrow> Time list" where
  "cached_contents vs m w = map (\<lambda>l. word_time m w l (vs ! l)) [0..<length vs]"

section \<open>The invariant\<close>

definition line_shape :: "TagVectorCacheLine \<Rightarrow> bool" where
  "line_shape l \<longleftrightarrow> length (version l) = 2 \<and> length (lastSize l) = 2 \<and> line_type l = TYPE_64BIT"

definition cache_shape :: "nat \<Rightarrow> TagVectorCache \<Rightarrow> bool" where
  "cache_shape D c \<longleftrightarrow> D \<le> 64 \<and> 0 < line_count c \<and> line_count c < 2 ^ 31 \<and> length (tagTable c) = nat (line_count c)
     \<and> tvc_depth c = int D \<and> col (valueTable c) = int D
     \<and> length (array (valueTable c)) = 2 * nat (line_count c) * D
     \<and> (\<forall>l \<in> set (tagTable c). line_shape l)"

text \<open>A line with an address is in the address's place; it was last used at a depth of at most \<open>d\<close>.\<close>

definition line_ok :: "UInt32 set \<Rightarrow> nat \<Rightarrow> nat \<Rightarrow> Version list \<Rightarrow> TagVectorCache \<Rightarrow> nat \<Rightarrow> bool" where
  "line_ok H d bnd vs c i \<longleftrightarrow> (let l = line_at c i; s = lastSize l ! 0 in
     line_of c (tag l) = i \<and> align8 (tag l) = tag l \<and> addr_high (tag l) \<in> H
     \<and> unat (version l ! 0) < bnd \<and> 0 \<le> s \<and> s \<le> int d \<and> s \<le> 64
     \<and> (\<forall>j < length vs. s \<le> int j \<longrightarrow> version l ! 0 < vs ! j))"

definition zeros_last :: "Time list \<Rightarrow> bool" where
  "zeros_last ts \<longleftrightarrow> (\<forall>i j. i \<le> j \<longrightarrow> j < length ts \<longrightarrow> ts ! i = 0 \<longrightarrow> ts ! j = 0)"

definition cache_inv ::
  "UInt32 set \<Rightarrow> Platform \<Rightarrow> nat \<Rightarrow> nat \<Rightarrow> nat \<Rightarrow> Version list \<Rightarrow> SkaduCache MShadowSkadu \<Rightarrow> bool" where
  "cache_inv H env D d bnd vs m \<longleftrightarrow> skadu_ok H env m \<and> evict_stat m \<and> cache_shape D (sk_cache m)
     \<and> sorted_wrt (<) vs \<and> (\<forall>v \<in> set vs. unat v < bnd) \<and> bnd \<le> 2 ^ 31
     \<and> (\<forall>v. bnd \<le> unat v \<longrightarrow> zero_at m v)
     \<and> (\<forall>i < length (tagTable (sk_cache m)). tag (line_at (sk_cache m) i) \<noteq> 0 \<longrightarrow> line_ok H d bnd vs (sk_cache m) i)
     \<and> (\<forall>w l. holds (sk_cache m) w \<longrightarrow> l < length vs \<longrightarrow> word_time m w l (vs ! l) = 0
          \<longrightarrow> skadu_view m (place_of w) l (vs ! l) = 0)
     \<and> (\<forall>w. zeros_last (cached_contents vs m w))"

lemma cache_invD:
  assumes "cache_inv H env D d bnd vs m"
  shows "skadu_ok H env m" "evict_stat m" "cache_shape D (sk_cache m)" "sorted_wrt (<) vs"
    "\<forall>v \<in> set vs. unat v < bnd" "bnd \<le> 2 ^ 31" "\<And>v. bnd \<le> unat v \<Longrightarrow> zero_at m v"
    "\<And>i. i < length (tagTable (sk_cache m)) \<Longrightarrow> tag (line_at (sk_cache m) i) \<noteq> 0 \<Longrightarrow> line_ok H d bnd vs (sk_cache m) i"
    "\<And>w l. holds (sk_cache m) w \<Longrightarrow> l < length vs \<Longrightarrow> word_time m w l (vs ! l) = 0 \<Longrightarrow> skadu_view m (place_of w) l (vs ! l) = 0"
    "\<And>w. zeros_last (cached_contents vs m w)"
  using assms unfolding cache_inv_def by blast+

lemma length_contents [simp]: "length (cached_contents vs m w) = length vs"
  by (simp add: cached_contents_def)

lemma nth_contents: "l < length vs \<Longrightarrow> cached_contents vs m w ! l = word_time m w l (vs ! l)"
  by (simp add: cached_contents_def)

lemma line_of_less: "cache_shape D c \<Longrightarrow> line_of c w < length (tagTable c)"
  using line_index_range [of c w] by (simp add: cache_shape_def line_of_def nat_less_iff)

lemma line_shape_at: "cache_shape D c \<Longrightarrow> i < length (tagTable c) \<Longrightarrow> line_shape (line_at c i)"
  by (simp add: cache_shape_def line_at_def)

lemma line_shape_rd:
  "line_shape l \<Longrightarrow> rd (version l) 0 = Some (version l ! 0)" "line_shape l \<Longrightarrow> rd (lastSize l) 0 = Some (lastSize l ! 0)"
  by (auto simp: rd_def line_shape_def)

lemma version_as_int_small:
  assumes "unat v < 2 ^ 31"
  shows "version_as_int v = v"
proof -
  have "int (unat v) < int (2 ^ 31)" using assms by (simp only: of_nat_less_iff)
  then have u: "uint v < 2 ^ 31" by simp
  then have "uint (ucast v :: UInt32) = uint v"
    by (simp add: unsigned_ucast_eq take_bit_int_eq_self)
  then have "sint (ucast v :: UInt32) = uint v"
    using u signed_take_bit_int_eq_self [of 31 "uint v"] order_trans [of "- (2 ^ 31)" 0 "uint v"] by (simp add: sint_uint)
  then show ?thesis by (simp add: version_as_int_def scast_eq)
qed

section \<open>The write-back of a line\<close>

lemma word_time_held:
  "holds (sk_cache m) w \<Longrightarrow> align8 w = w \<Longrightarrow> word_time m w l v
     = (if v \<le> version (line_at (sk_cache m) (line_of (sk_cache m) w)) ! 0
        then line_time (sk_cache m) (line_of (sk_cache m) w) l else 0)"
  by (simp add: word_time_def Let_def)

lemma word_time_not_held: "\<not> holds (sk_cache m) w \<Longrightarrow> align8 w = w \<Longrightarrow> word_time m w l v = skadu_view m (place_of w) l v"
  by (simp add: word_time_def Let_def)

lemma word_time_cong:
  "sk_cache m' = sk_cache m \<Longrightarrow> skadu_view m' = skadu_view m \<Longrightarrow> word_time m' w l v = word_time m w l v"
  by (simp add: word_time_def Let_def)

lemma place_of_eq: "align8 w = w \<Longrightarrow> align8 w' = w' \<Longrightarrow> place_of w = place_of w' \<Longrightarrow> w = w'"
  using place_is_word_lemma [of w w'] by simp

lemma held_aligned: "cache_inv H env D d bnd vs m \<Longrightarrow> holds (sk_cache m) w \<Longrightarrow> align8 w = w"
  using cache_invD(8) [of H env D d bnd vs m "line_of (sk_cache m) w"] line_of_less [of D "sk_cache m" w] cache_invD(3)
  by (fastforce simp: holds_def line_ok_def Let_def)

text \<open>
  A step that keeps the cache keeps the invariant, if in the memory it changes only words that have a
  line, and none of these where the word holds 0.
\<close>

lemma cache_inv_step:
  assumes inv: "cache_inv H env D d bnd vs m" and ok: "skadu_ok H env m'" "evict_stat m'" and same: "sk_cache m' = sk_cache m"
    and other: "\<And>w l. l < length vs \<Longrightarrow> align8 w = w \<Longrightarrow> \<not> holds (sk_cache m) w \<Longrightarrow>
      skadu_view m' (place_of w) l (vs ! l) = skadu_view m (place_of w) l (vs ! l)"
    and held: "\<And>w l. l < length vs \<Longrightarrow> holds (sk_cache m) w \<Longrightarrow> word_time m w l (vs ! l) = 0 \<Longrightarrow>
      skadu_view m' (place_of w) l (vs ! l) = 0"
    and zero: "\<And>v. bnd \<le> unat v \<Longrightarrow> zero_at m v \<Longrightarrow> zero_at m' v"
  shows "cache_inv H env D d bnd vs m'" "cached_contents vs m' = cached_contents vs m"
proof -
  have w: "word_time m' w l (vs ! l) = word_time m w l (vs ! l)" if "l < length vs" for w l
    using other [OF that] by (simp add: word_time_def Let_def same)
  have c: "cached_contents vs m' w = cached_contents vs m w" for w
    by (rule nth_equalityI) (simp_all add: nth_contents w)
  then show "cached_contents vs m' = cached_contents vs m" by blast
  show "cache_inv H env D d bnd vs m'"
    using cache_invD [OF inv] ok held zero w unfolding cache_inv_def same c by simp
qed

text \<open>The row of a line in the value table.\<close>

lemma line_row:
  assumes "cache_shape D c" "i < length (tagTable c)"
  shows "getData (int i) 0 c = int (2 * i * D)" "2 * i * D + D \<le> length (array (valueTable c))"
proof -
  show "getData (int i) 0 c = int (2 * i * D)"
    using assms by (simp add: getData_def getElementAddr_def getOffset_def cache_shape_def algebra_simps)
  have "2 * i < 2 * nat (line_count c)" using assms by (simp add: cache_shape_def)
  from block_end [OF this order_refl, of D] show "2 * i * D + D \<le> length (array (valueTable c))"
    using assms(1) by (simp add: cache_shape_def)
qed

lemma line_time_row:
  assumes "cache_shape D c" "i < length (tagTable c)"
  shows "drop (nat (getData (int i) 0 c)) (array (valueTable c)) ! l = line_time c i l"
proof -
  have "nat (tvc_depth c) = D" using assms(1) by (simp add: cache_shape_def)
  moreover have "2 * i * D \<le> length (array (valueTable c))" using line_row(2) [OF assms] by simp
  ultimately show ?thesis unfolding line_row(1) [OF assms] nat_int line_time_def by (simp only: nth_drop)
qed

lemma evict_half_ok:
  assumes inv: "cache_inv H env D d bnd vs m" and i: "i < length (tagTable (sk_cache m))"
    and used: "tag (line_at (sk_cache m) i) \<noteq> 0" and n: "d \<le> length vs" "length vs \<le> D" "D \<le> 64"
  defines "w \<equiv> tag (line_at (sk_cache m) i)"
  shows "\<exists>m'. evict_half env (int i) 0 w TYPE_64BIT (vs @ old) m = Some m' \<and> skadu_ok H env m' \<and> evict_stat m'
    \<and> sk_cache m' = sk_cache m
    \<and> (\<forall>q l. l < length vs \<longrightarrow> skadu_view m' q l (vs ! l)
        = (if q = place_of w then word_time m w l (vs ! l) else skadu_view m q l (vs ! l)))
    \<and> (\<forall>v. bnd \<le> unat v \<longrightarrow> zero_at m v \<longrightarrow> zero_at m' v)"
proof -
  let ?c = "sk_cache m" and ?L = "line_at (sk_cache m) i"
  let ?v = "version ?L ! 0" and ?S = "nat (lastSize ?L ! 0)"
  note I = cache_invD [OF inv]
  have lok: "line_ok H d bnd vs ?c i" by (rule I(8) [OF i used])
  then have w: "line_of ?c w = i" "align8 w = w" "addr_high w \<in> H" and v: "unat ?v < bnd"
    and s: "0 \<le> lastSize ?L ! 0" "?S \<le> d" "\<And>l. l < length vs \<Longrightarrow> ?S \<le> l \<Longrightarrow> ?v < vs ! l"
    by (auto simp: line_ok_def Let_def w_def)
  have sh: "line_shape ?L" by (rule line_shape_at [OF I(3) i])
  have h: "holds ?c w" using used w(1) by (simp add: holds_def w_def)
  have row: "getData (int i) 0 ?c = int (2 * i * D)" "2 * i * D + D \<le> length (cache_data m)" by (rule line_row [OF I(3) i])+
  let ?ts = "drop (nat (getData (int i) 0 ?c)) (cache_data m)"
  have ts: "?ts ! l = line_time ?c i l" for l by (rule line_time_row [OF I(3) i])
  have lts: "D \<le> length ?ts" using row(2) unfolding row(1) nat_int length_drop by linarith
  have wt: "word_time m w l (vs ! l) = (if vs ! l \<le> ?v then ?ts ! l else 0)" for l
    using word_time_held [OF h w(2)] w(1) ts by simp
  have Sn: "?S \<le> length vs" using s(2) n(1) by simp
  have uS: "unat (word_of_int (lastSize ?L ! 0) :: Index) = ?S"
    using s(1) Sn n by (simp add: unat_of_nat32 flip: of_nat_nat)
  have srt: "sorted_wrt (<) (take ?S (vs @ old))" using I(4) Sn by (simp add: sorted_wrt_take)
  obtain j where j: "j \<le> ?S" "getStartInvalidLevel ?v (vs @ old) (word_of_int (lastSize ?L ! 0)) = Some j"
    "\<forall>l < ?S. l < j \<longleftrightarrow> (vs @ old) ! l \<le> ?v"
    using start_invalid_sorted [of "word_of_int (lastSize ?L ! 0)" "vs @ old" ?v] srt Sn unfolding uS by auto
  have jl: "l < j \<longleftrightarrow> vs ! l \<le> ?v" if "l < length vs" for l
    using j(1,3) s(3) [OF that] that by (cases "l < ?S") (auto simp: nth_append not_le)
  have uj: "unat (of_nat j :: Index) = j" using j(1) Sn n by (intro unat_of_nat32) simp
  obtain m' where m': "evict env ?ts w (of_nat j) (vs @ old) TYPE_64BIT m = Some m'" "skadu_ok H env m'"
    "sk_cache m' = sk_cache m" "evict_stat m'"
    "\<forall>q l. l < length (vs @ old) \<longrightarrow> skadu_view m' q l ((vs @ old) ! l)
        = (if q = place_of w \<and> l < j \<and> (\<forall>x \<le> l. ?ts ! x \<noteq> 0) then ?ts ! l else skadu_view m q l ((vs @ old) ! l))"
    "\<forall>u. u \<notin> set (take j (vs @ old)) \<longrightarrow> zero_at m u \<longrightarrow> zero_at m' u"
    using evict_ok [OF I(1) w(3) I(2), of "of_nat j" "vs @ old" ?ts] j(1) Sn n lts unfolding uj by auto
  have "unat ?v < 2 ^ 31" using v I(6) by simp
  then have "evict_half env (int i) 0 w TYPE_64BIT (vs @ old) m = Some m'"
    using i m'(1) j(2) line_shape_rd [OF sh] by (simp add: evict_half_def getTag_def rd_int line_at_def version_as_int_small)
  moreover have "skadu_view m' q l (vs ! l) = (if q = place_of w then word_time m w l (vs ! l) else skadu_view m q l (vs ! l))"
    if l: "l < length vs" for q l
  proof -
    have view: "skadu_view m' q l (vs ! l)
        = (if q = place_of w \<and> l < j \<and> (\<forall>x \<le> l. ?ts ! x \<noteq> 0) then ?ts ! l else skadu_view m q l (vs ! l))"
    proof -
      have "(vs @ old) ! l = vs ! l" "l < length (vs @ old)" using l by (simp_all add: nth_append)
      with m'(5) [THEN spec [of _ q], THEN spec [of _ l]] show ?thesis by (simp only: simp_thms)
    qed
    show ?thesis
    proof (cases "q = place_of w \<and> word_time m w l (vs ! l) = 0")
      case True
      then have "skadu_view m q l (vs ! l) = 0" using I(9) [OF h l] by simp
      moreover have "?ts ! l = 0" if "l < j" using True wt [of l] jl [OF l] that by simp
      ultimately show ?thesis using view True by auto
    next
      case False
      have "l < j \<and> (\<forall>x \<le> l. ?ts ! x \<noteq> 0) \<and> word_time m w l (vs ! l) = ?ts ! l" if nz: "word_time m w l (vs ! l) \<noteq> 0"
      proof -
        have lv: "vs ! l \<le> ?v" using nz wt [of l] by (simp split: if_splits)
        have "?ts ! x \<noteq> 0" if x: "x \<le> l" for x
        proof
          assume z: "?ts ! x = 0"
          then have "word_time m w x (vs ! x) = 0" using wt by simp
          then have "cached_contents vs m w ! x = 0" using x l by (simp add: nth_contents)
          then have "cached_contents vs m w ! l = 0" using I(10) [of w] x l unfolding zeros_last_def by simp
          then show False using nz l by (simp add: nth_contents)
        qed
        then show ?thesis using jl [OF l] lv wt by simp
      qed
      then show ?thesis using view False by auto
    qed
  qed
  moreover have "zero_at m' u" if "bnd \<le> unat u" "zero_at m u" for u
  proof -
    have "u \<notin> set vs" using I(5) that(1) by auto
    moreover have "set (take j (vs @ old)) \<subseteq> set vs" using j(1) Sn set_take_subset [of j vs] by simp
    ultimately show ?thesis using m'(6) that(2) by blast
  qed
  ultimately show ?thesis using m'(2-4) by blast
qed

text \<open>A write-back changes nothing that the memory holds, and afterwards the line is not needed any more.\<close>

lemma cache_evict_ok:
  assumes inv: "cache_inv H env D d bnd vs m" and i: "i < length (tagTable (sk_cache m))"
    and n: "d \<le> length vs" "length vs \<le> D" "D \<le> 64"
  defines "w \<equiv> tag (line_at (sk_cache m) i)"
  shows "\<exists>m'. SkaduCache_evict env (int i) (vs @ old) m = Some m' \<and> cache_inv H env D d bnd vs m'
    \<and> sk_cache m' = sk_cache m \<and> cached_contents vs m' = cached_contents vs m
    \<and> (w \<noteq> 0 \<longrightarrow> (\<forall>l < length vs. skadu_view m' (place_of w) l (vs ! l) = word_time m' w l (vs ! l)))"
proof (cases "w = 0")
  case True
  then have "SkaduCache_evict env (int i) (vs @ old) m = Some m"
    using i by (simp add: SkaduCache_evict_def getTag_def rd_int w_def line_at_def)
  then show ?thesis using inv True by blast
next
  case False
  obtain m' where m': "evict_half env (int i) 0 w TYPE_64BIT (vs @ old) m = Some m'" "skadu_ok H env m'" "evict_stat m'"
    "sk_cache m' = sk_cache m"
    "\<forall>q l. l < length vs \<longrightarrow> skadu_view m' q l (vs ! l)
        = (if q = place_of w then word_time m w l (vs ! l) else skadu_view m q l (vs ! l))"
    "\<forall>v. bnd \<le> unat v \<longrightarrow> zero_at m v \<longrightarrow> zero_at m' v"
    using evict_half_ok [OF inv i _ n, of old] False unfolding w_def by blast
  have lok: "line_ok H d bnd vs (sk_cache m) i" using cache_invD(8) [OF inv i] False by (simp add: w_def)
  have w: "align8 w = w" "holds (sk_cache m) w"
    using lok False by (simp_all add: line_ok_def Let_def holds_def w_def)
  have view: "skadu_view m' q l (vs ! l) = (if q = place_of w then word_time m w l (vs ! l) else skadu_view m q l (vs ! l))"
    if "l < length vs" for q l using m'(5) that by blast
  have ev: "SkaduCache_evict env (int i) (vs @ old) m = Some m'"
    using False i m'(1) line_shape_at [OF cache_invD(3) [OF inv] i]
    by (simp add: SkaduCache_evict_def getTag_def rd_int w_def line_at_def line_shape_def)
  have other: "skadu_view m' (place_of u) l (vs ! l) = skadu_view m (place_of u) l (vs ! l)"
    if l: "l < length vs" and u: "align8 u = u" "\<not> holds (sk_cache m) u" for u l
  proof -
    have "place_of u \<noteq> place_of w" using place_of_eq [OF u(1) w(1)] u(2) w(2) by blast
    then show ?thesis using view [OF l] by simp
  qed
  have held: "skadu_view m' (place_of u) l (vs ! l) = 0"
    if u: "l < length vs" "holds (sk_cache m) u" "word_time m u l (vs ! l) = 0" for u l
  proof (cases "place_of u = place_of w")
    case True
    then have "u = w" by (rule place_of_eq [OF held_aligned [OF inv u(2)] w(1)])
    then show ?thesis using view [OF u(1), of "place_of w"] u(3) by simp
  next
    case False
    then show ?thesis using view [OF u(1), of "place_of u"] cache_invD(9) [OF inv u(2,1,3)] by simp
  qed
  have zero: "zero_at m' v" if "bnd \<le> unat v" "zero_at m v" for v using m'(6) that by blast
  have step: "cache_inv H env D d bnd vs m'" "cached_contents vs m' = cached_contents vs m"
    by (rule cache_inv_step [OF inv m'(2-4)], (rule other held zero; assumption)+)+
  have "word_time m' w l (vs ! l) = word_time m w l (vs ! l)" if "l < length vs" for l
    unfolding nth_contents [OF that, symmetric] by (simp only: step(2))
  then have "skadu_view m' (place_of w) l (vs ! l) = word_time m' w l (vs ! l)" if "l < length vs" for l
    using view [OF that, of "place_of w"] that by simp
  then show ?thesis using ev step m'(4) by blast
qed

end
