(* ===== verification/SkaduCacheRuns.thy ===== *)
theory SkaduCacheRuns
  imports SkaduCacheInv
begin

text \<open>
  Loads and stores of \<open>MShadowSkadu\<close> behind the write-back cache, and whole runs: each access ends by
  putting the times of its word into a line whose old content is not needed any more.
\<close>

section \<open>A word moves into a line\<close>

definition new_line :: "nat \<Rightarrow> TagVectorCacheLine \<Rightarrow> Time list \<Rightarrow> TagVectorCache \<Rightarrow> TagVectorCache" where
  "new_line i L a c = c\<lparr>tagTable := (tagTable c)[i := L], valueTable := (valueTable c)\<lparr>array := a\<rparr>\<rparr>"

lemma line_of_new [simp]: "line_of (new_line i L a c) w = line_of c w"
  by (simp add: line_of_def new_line_def getLineIndex_def)

lemma line_at_new: "i < length (tagTable c) \<Longrightarrow> line_at (new_line i L a c) j = (if j = i then L else line_at c j)"
  by (simp add: line_at_def new_line_def)

text \<open>The times of the first \<open>n\<close> levels of row \<open>i\<close> are replaced.\<close>

definition row_set :: "nat \<Rightarrow> nat \<Rightarrow> nat \<Rightarrow> nat \<Rightarrow> Time list \<Rightarrow> Time list \<Rightarrow> Time list \<Rightarrow> bool" where
  "row_set k D r n ts a a' \<longleftrightarrow> length a' = length a
     \<and> (\<forall>t < k. \<forall>l < D. a' ! (t * D + l) = (if t = r \<and> l < n then ts ! l else a ! (t * D + l)))"

lemma line_time_new:
  assumes "cache_shape D c" "row_set (2 * nat (line_count c)) D (2 * i) n ts (array (valueTable c)) a"
    and "j < length (tagTable c)" "l < D"
  shows "line_time (new_line i L a c) j l = (if j = i \<and> l < n then ts ! l else line_time c j l)"
proof -
  have "2 * j < 2 * nat (line_count c)" "nat (tvc_depth c) = D" using assms(1,3) by (simp_all add: cache_shape_def)
  with assms(2) [unfolded row_set_def, THEN conjunct2, THEN spec [of _ "2 * j"]] assms(4)
  show ?thesis by (simp add: line_time_def new_line_def)
qed

lemma cache_shape_new:
  "cache_shape D c \<Longrightarrow> line_shape L \<Longrightarrow> length a = length (array (valueTable c)) \<Longrightarrow> cache_shape D (new_line i L a c)"
  using set_update_subset_insert [of "tagTable c" i L] by (auto simp: cache_shape_def new_line_def)

lemma line_ok_mono:
  "line_ok H d bnd vs c i \<Longrightarrow> d \<le> d' \<Longrightarrow> line_at c' i = line_at c i \<Longrightarrow> line_of c' (tag (line_at c i)) = line_of c (tag (line_at c i)) \<Longrightarrow>
   line_ok H d' bnd vs c' i"
  by (auto simp: line_ok_def Let_def)

lemma install_ok:
  fixes vs :: "Version list"
  defines "n \<equiv> length vs"
  assumes inv: "cache_inv H env D d bnd vs m" and w: "align8 w = w" "w \<noteq> 0" "addr_high w \<in> H"
    and n: "0 < n" "d \<le> n" "n \<le> D" "D \<le> 64" and i: "i = line_of (sk_cache m) w"
    and L: "tag L = w" "line_shape L" "version L ! 0 = vs ! (n - 1)" "lastSize L ! 0 = int n"
    and a: "row_set (2 * nat (line_count (sk_cache m))) D (2 * i) n ts (cache_data m) a"
    and ts: "n \<le> length ts" "zeros_last (take n ts)"
      "\<And>l. l < n \<Longrightarrow> ts ! l = 0 \<Longrightarrow> skadu_view m (place_of w) l (vs ! l) = 0"
    and old: "\<And>u l. u = tag (line_at (sk_cache m) i) \<Longrightarrow> u \<noteq> 0 \<Longrightarrow> u \<noteq> w \<Longrightarrow> l < n \<Longrightarrow>
      skadu_view m (place_of u) l (vs ! l) = word_time m u l (vs ! l)"
  defines "m' \<equiv> m\<lparr>sk_cache := new_line i L a (sk_cache m)\<rparr>"
  shows "cache_inv H env D n bnd vs m'" "cached_contents vs m' = (cached_contents vs m)(w := take n ts)"
proof -
  let ?c = "sk_cache m" and ?c' = "new_line i L a (sk_cache m)"
  note I = cache_invD [OF inv]
  have il: "i < length (tagTable ?c)" unfolding i by (rule line_of_less [OF I(3)])
  note at = line_at_new [OF il, of L a] and tm = line_time_new [OF I(3) a]
  have c': "sk_cache m' = ?c'" and view: "skadu_view m' = skadu_view m" and frame: "skadu_ok H env m'" "evict_stat m'"
    using I(1,2) by (simp_all add: m'_def frame_simps)
  have held: "holds ?c' u \<longleftrightarrow> u = w \<or> holds ?c u \<and> line_of ?c u \<noteq> i" for u
    using w(2) i [symmetric] L(1) by (cases "line_of ?c u = i") (auto simp: holds_def at)
  have sorted: "vs ! l \<le> vs ! (n - 1)" if "l < n" for l
  proof (cases "l = n - 1")
    case False
    then have "l < n - 1" "n - 1 < length vs" using that n(1) by (simp_all add: n_def)
    then show ?thesis using sorted_wrt_nth_less [OF I(4)] by (simp add: less_imp_le)
  qed simp
  have wtw: "word_time m' w l (vs ! l) = ts ! l" if "l < n" for l
  proof -
    have "l < D" using that n(3) by simp
    then have "line_time ?c' i l = ts ! l" using tm [OF il] that by simp
    moreover have "line_of ?c' w = i" "line_at ?c' i = L" by (simp_all only: line_of_new i [symmetric] at refl if_True)
    moreover have "holds (sk_cache m') w" using held unfolding c' by simp
    ultimately show ?thesis using sorted [OF that] by (simp only: word_time_held [OF _ w(1)] c' L(3) if_True)
  qed
  have wtu: "word_time m' u l (vs ! l) = word_time m u l (vs ! l)" if "u \<noteq> w" "l < n" for u l
  proof (cases "holds ?c u \<and> line_of ?c u = i")
    case True
    then have h: "holds ?c u" "line_of ?c u = i" by simp_all
    have nh: "\<not> holds (sk_cache m') u" unfolding c' using held [of u] that(1) h(2) by blast
    have u: "u = tag (line_at ?c i)" "u \<noteq> 0" using h unfolding holds_def by metis+
    have "word_time m' u l (vs ! l) = skadu_view m (place_of u) l (vs ! l)"
      unfolding word_time_not_held [OF nh held_aligned [OF inv h(1)]] view ..
    also have "\<dots> = word_time m u l (vs ! l)" by (rule old [OF u that])
    finally show ?thesis .
  next
    case False
    have "l < D" using that(2) n(3) by simp
    note t = tm [OF line_of_less [OF I(3), of u] this]
    show ?thesis
    proof (cases "holds ?c u")
      case True
      then have j: "line_of ?c u \<noteq> i" using False by blast
      have "line_at ?c' (line_of ?c u) = line_at ?c (line_of ?c u)" using at [of "line_of ?c u"] j by simp
      moreover have "line_time ?c' (line_of ?c u) l = line_time ?c (line_of ?c u) l" using t j by simp
      moreover have "holds ?c' u" using held [of u] True j by blast
      ultimately show ?thesis using True by (simp add: word_time_def Let_def c')
    next
      case False
      then have "\<not> holds ?c' u" using held [of u] that(1) by blast
      then show ?thesis using False by (simp add: word_time_def Let_def c' view)
    qed
  qed
  show con: "cached_contents vs m' = (cached_contents vs m)(w := take n ts)"
  proof
    fix u show "cached_contents vs m' u = ((cached_contents vs m)(w := take n ts)) u"
      by (rule nth_equalityI) (use wtw wtu ts(1) in \<open>auto simp: nth_contents n_def\<close>)
  qed
  have "line_ok H n bnd vs ?c' j" if j: "j < length (tagTable ?c')" "tag (line_at ?c' j) \<noteq> 0" for j
  proof (cases "j = i")
    case True
    have "vs ! (n - 1) \<in> set vs" using n(1) by (simp add: n_def)
    then have "unat (version L ! 0) < bnd" unfolding L(3) using I(5) by blast
    moreover have "line_at ?c' j = L" using at [of j] True by simp
    moreover have "line_of ?c' w = j" using True i by simp
    moreover have "n \<le> 64" "n = length vs" using n by (simp_all add: n_def)
    ultimately show ?thesis using w L(1,4) by (simp add: line_ok_def Let_def)
  next
    case False
    then have "line_ok H d bnd vs ?c j" using I(8) [of j] j by (simp add: at) (simp add: new_line_def)
    then show ?thesis by (rule line_ok_mono [OF _ n(2)]) (simp_all add: at False)
  qed
  moreover have "skadu_view m (place_of u) l (vs ! l) = 0"
    if u: "holds ?c' u" "l < length vs" "word_time m' u l (vs ! l) = 0" for u l
  proof (cases "u = w")
    case True
    then show ?thesis using ts(3) wtw u by (simp add: n_def)
  next
    case False
    then show ?thesis using I(9) [of u l] u wtu by (simp add: held n_def)
  qed
  moreover have "zeros_last (cached_contents vs m' u)" for u unfolding con using I(10) ts(2) by simp
  moreover have "zero_at m' v = zero_at m v" for v by (rule zero_at_cong) (simp add: view)
  ultimately show "cache_inv H env D n bnd vs m'"
    using I(4-7) frame cache_shape_new [OF I(3) L(2)] a unfolding cache_inv_def c' view by (simp add: row_set_def)
qed

section \<open>Before and after an access\<close>

text \<open>
  What holds before \<open>set_tag\<close> ends an access to word \<open>w\<close>: the row has the times \<open>ts\<close>, and the line's
  old word is in the memory.
\<close>

definition row_ready ::
  "UInt32 set \<Rightarrow> Platform \<Rightarrow> nat \<Rightarrow> nat \<Rightarrow> nat \<Rightarrow> Version list \<Rightarrow> Addr \<Rightarrow> Time list \<Rightarrow> SkaduCache MShadowSkadu \<Rightarrow>
   TagVectorCacheLine \<Rightarrow> Time list \<Rightarrow> bool" where
  "row_ready H env D d bnd vs w ts m e a \<longleftrightarrow> (let c = sk_cache m; i = line_of c w; u = tag (line_at c i) in
     cache_inv H env D d bnd vs m \<and> line_shape e \<and> tag e = w
     \<and> row_set (2 * nat (line_count c)) D (2 * i) (length vs) ts (cache_data m) a
     \<and> length vs \<le> length ts \<and> zeros_last (take (length vs) ts)
     \<and> (\<forall>l < length vs. ts ! l = 0 \<longrightarrow> skadu_view m (place_of w) l (vs ! l) = 0)
     \<and> (u \<noteq> 0 \<longrightarrow> u \<noteq> w \<longrightarrow> (\<forall>l < length vs. skadu_view m (place_of u) l (vs ! l) = word_time m u l (vs ! l))))"

lemma set_tag_ok:
  assumes "line_shape e" "0 < length vs" "length vs \<le> 64" "i < length (tagTable c)"
  shows "set_tag (int i) 0 (vs @ old) (of_nat (length vs)) e c
    = Some (c\<lparr>tagTable := (tagTable c)[i := e\<lparr>version := (version e)[0 := vs ! (length vs - 1)],
        lastSize := (lastSize e)[0 := int (length vs)]\<rparr>]\<rparr>)"
proof -
  have u: "unat (of_nat (length vs) :: Index) = length vs" using assms(3) by (intro unat_of_nat32) simp
  have "to_int (of_nat (length vs) :: Index) = int (length vs)"
    using to_int_small [of "of_nat (length vs)"] assms(3) unfolding u by simp
  moreover have "rd (vs @ old) (int (length vs) - 1) = Some (vs ! (length vs - 1))"
  proof -
    obtain k where k: "length vs = Suc k" using assms(2) by (cases "length vs") auto
    have "rd (vs @ old) (int k) = Some (vs ! k)" by (subst rd_int) (simp_all add: nth_append k)
    then show ?thesis by (simp add: k)
  qed
  moreover have "length (version e) = 2" "length (lastSize e) = 2" using assms(1) by (simp_all add: line_shape_def)
  ultimately show ?thesis using assms(4)
    unfolding set_tag_def u by (simp add: setVersion_def setValidSize_def put_line_def wr_int wr_in)
qed

text \<open>The depth and the version at which a word in the cache was last used.\<close>

definition last_used :: "nat \<Rightarrow> Version \<Rightarrow> TagVectorCache \<Rightarrow> Addr \<Rightarrow> bool" where
  "last_used n v c w \<longleftrightarrow> holds c w \<and> version (line_at c (line_of c w)) ! 0 = v \<and> lastSize (line_at c (line_of c w)) ! 0 = int n"

lemma finish_access:
  assumes "row_ready H env D d bnd vs w ts m e a" "align8 w = w" "w \<noteq> 0" "addr_high w \<in> H"
    and n: "0 < length vs" "d \<le> length vs" "length vs \<le> D" "D \<le> 64"
  shows "\<exists>c'. set_tag (int (line_of (sk_cache m) w)) 0 (vs @ old) (of_nat (length vs)) e
        ((sk_cache m)\<lparr>valueTable := (valueTable (sk_cache m))\<lparr>array := a\<rparr>\<rparr>) = Some c'
    \<and> array (valueTable c') = a \<and> cache_inv H env D (length vs) bnd vs (m\<lparr>sk_cache := c'\<rparr>)
    \<and> last_used (length vs) (vs ! (length vs - 1)) c' w
    \<and> cached_contents vs (m\<lparr>sk_cache := c'\<rparr>) = (cached_contents vs m)(w := take (length vs) ts)"
proof -
  let ?i = "line_of (sk_cache m) w"
  let ?L = "e\<lparr>version := (version e)[0 := vs ! (length vs - 1)], lastSize := (lastSize e)[0 := int (length vs)]\<rparr>"
  note R = assms(1) [unfolded row_ready_def Let_def]
  have inv: "cache_inv H env D d bnd vs m" and e: "line_shape e" "tag e = w" using R by blast+
  have i: "?i < length (tagTable (sk_cache m))" by (rule line_of_less [OF cache_invD(3) [OF inv]])
  have L: "tag ?L = w" "line_shape ?L" "version ?L ! 0 = vs ! (length vs - 1)" "lastSize ?L ! 0 = int (length vs)"
    using e by (auto simp: line_shape_def)
  have "set_tag (int ?i) 0 (vs @ old) (of_nat (length vs)) e ((sk_cache m)\<lparr>valueTable := (valueTable (sk_cache m))\<lparr>array := a\<rparr>\<rparr>)
      = Some (new_line ?i ?L a (sk_cache m))"
    using set_tag_ok [OF e(1) n(1), of ?i "(sk_cache m)\<lparr>valueTable := (valueTable (sk_cache m))\<lparr>array := a\<rparr>\<rparr>" old] i n
    by (simp add: new_line_def)
  moreover have "array (valueTable (new_line ?i ?L a (sk_cache m))) = a" by (simp add: new_line_def)
  moreover have "last_used (length vs) (vs ! (length vs - 1)) (new_line ?i ?L a (sk_cache m)) w"
    using line_at_new [OF i, of ?L a ?i] assms(3) L unfolding last_used_def holds_def line_of_new by (simp only: if_True simp_thms)
  moreover note install_ok [OF inv assms(2-4) n refl L, of ts a]
  ultimately show ?thesis using R by blast
qed

text \<open>The position of an access.\<close>

lemma line_index_nat: "cache_shape D c \<Longrightarrow> getLineIndex w c = int (line_of c w)"
  using line_index_range [of c w] by (simp add: cache_shape_def line_of_def)

lemma lookup_ok:
  assumes "cache_shape D c" "align8 w = w"
  shows "lookupRead w TYPE_64BIT c = Some (int (line_of c w), 0, getData (int (line_of c w)) 0 c)"
    "lookupWrite w TYPE_64BIT c = Some (int (line_of c w), 0, getData (int (line_of c w)) 0 c, c)"
    "getTag (int (line_of c w)) c = Some (line_at c (line_of c w))"
proof -
  have i: "line_of c w < length (tagTable c)" by (rule line_of_less [OF assms(1)])
  then show t: "getTag (int (line_of c w)) c = Some (line_at c (line_of c w))"
    by (simp add: getTag_def rd_int line_at_def)
  have "line_type (line_at c (line_of c w)) = TYPE_64BIT" using line_shape_at [OF assms(1) i] by (simp add: line_shape_def)
  then show "lookupRead w TYPE_64BIT c = Some (int (line_of c w), 0, getData (int (line_of c w)) 0 c)"
    "lookupWrite w TYPE_64BIT c = Some (int (line_of c w), 0, getData (int (line_of c w)) 0 c, c)"
    using t by (simp_all add: lookupRead_def lookupWrite_def Let_def line_index_nat [OF assms(1)] half_aligned [OF assms(2)])
qed

lemma no_resize:
  assumes "cache_shape D (sk_cache m)" "n \<le> D" "D \<le> 64"
  shows "checkResize env (to_int (of_nat n :: Index)) vs m = Some m"
proof -
  have u: "unat (of_nat n :: Index) = n" using assms(2,3) by (intro unat_of_nat32) simp
  have "to_int (of_nat n :: Index) = int n"
    using to_int_small [of "of_nat n"] assms(2,3) unfolding u by simp
  then show ?thesis using assms by (simp add: checkResize_def cache_shape_def)
qed

lemma hit_word:
  assumes "cache_inv H env D d bnd vs m" "align8 w = w"
  shows "isHit w (line_at (sk_cache m) (line_of (sk_cache m) w)) \<longleftrightarrow> tag (line_at (sk_cache m) (line_of (sk_cache m) w)) = w"
proof (rule isHit_aligned [OF assms(2)])
  note I = cache_invD [OF assms(1)]
  show "align8 (tag (line_at (sk_cache m) (line_of (sk_cache m) w))) = tag (line_at (sk_cache m) (line_of (sk_cache m) w))"
    using I(8) [OF line_of_less [OF I(3)], of w] by (cases "tag (line_at (sk_cache m) (line_of (sk_cache m) w)) = 0")
      (auto simp: line_ok_def Let_def align8_def)
qed

text \<open>The counters do not matter.\<close>

lemma cache_inv_stat:
  assumes "cache_inv H env D d bnd vs m" "length (nEvictLevel st) = 128"
  shows "cache_inv H env D d bnd vs (m\<lparr>cache_stat := st\<rparr>)"
    "cached_contents vs (m\<lparr>cache_stat := st\<rparr>) = cached_contents vs m"
proof -
  have view: "skadu_view (m\<lparr>cache_stat := st\<rparr>) = skadu_view m" by (simp add: frame_simps)
  have "zero_at (m\<lparr>cache_stat := st\<rparr>) v = zero_at m v" for v by (rule zero_at_cong) (simp add: view)
  moreover have "skadu_ok H env (m\<lparr>cache_stat := st\<rparr>)" using cache_invD(1) [OF assms(1)] by (simp add: frame_simps)
  ultimately show "cache_inv H env D d bnd vs (m\<lparr>cache_stat := st\<rparr>)"
    "cached_contents vs (m\<lparr>cache_stat := st\<rparr>) = cached_contents vs m"
    by (rule_tac cache_inv_step [OF assms(1)]; simp add: assms(2) view cache_invD(9) [OF assms(1)])+
qed

section \<open>Loads and stores\<close>

lemma array_length: "cache_shape D c \<Longrightarrow> 2 * nat (line_count c) * D \<le> length (array (valueTable c))"
  by (simp add: cache_shape_def)

lemma row_less: "cache_shape D c \<Longrightarrow> 2 * line_of c w < 2 * nat (line_count c)"
  using line_of_less [of D c w] by (simp add: cache_shape_def)

text \<open>A hit clears the levels whose version is newer than the line's: the row holds the word.\<close>

lemma validateTag_row:
  assumes inv: "cache_inv H env D d bnd vs m" and h: "holds (sk_cache m) w"
    and n: "length vs \<le> D" "D \<le> 64"
  defines "c \<equiv> sk_cache m" and "i \<equiv> line_of (sk_cache m) w"
  shows "\<exists>a. validateTag (cache_data m) (getData (int i) 0 c) (vs @ old) (of_nat (length vs)) (line_at c i) = Some a
    \<and> row_set (2 * nat (line_count c)) D (2 * i) (length vs) (cached_contents vs m w) (cache_data m) a"
proof -
  note I = cache_invD [OF inv]
  have sh: "cache_shape D c" using I(3) by (simp add: c_def)
  have i: "i < length (tagTable c)" unfolding i_def c_def by (rule line_of_less [OF I(3)])
  note row = line_row [OF sh i]
  have u: "unat (of_nat (length vs) :: Index) = length vs" using n by (intro unat_of_nat32) simp
  let ?v = "version (line_at c i) ! 0"
  have "sorted_wrt (<) (take (unat (of_nat (length vs) :: Index)) (vs @ old))" using I(4) unfolding u by simp
  from start_invalid_sorted [OF this, of ?v] obtain j where j: "j \<le> length vs"
    "getStartInvalidLevel ?v (vs @ old) (of_nat (length vs)) = Some j"
    "\<forall>l < length vs. l < j \<longleftrightarrow> (vs @ old) ! l \<le> ?v" unfolding u by auto
  have T: "cached_contents vs m w ! l = (if l < j then cache_data m ! (2 * i * D + l) else 0)" if "l < length vs" for l
  proof -
    have "nat (tvc_depth c) = D" using sh by (simp add: cache_shape_def)
    then show ?thesis using j(3) that word_time_held [OF h held_aligned [OF inv h], of l "vs ! l"]
      by (simp add: nth_contents nth_append line_time_def c_def i_def)
  qed
  have r: "2 * i < 2 * nat (line_count c)" unfolding i_def c_def by (rule row_less [OF I(3)])
  have len: "2 * nat (line_count c) * D \<le> length (cache_data m)" using array_length [OF sh] by (simp add: c_def)
  obtain a where a: "memzero (cache_data m) (int (2 * i * D + j)) (length vs - j) = Some a" "length a = length (cache_data m)"
    "\<forall>t < 2 * nat (line_count c). \<forall>l < D. a ! (t * D + l)
       = (if t = 2 * i \<and> j \<le> l \<and> l < length vs then 0 else cache_data m ! (t * D + l))"
    using memzero_block [OF r j(1) n(1) len] by blast
  have z: "row_set (2 * nat (line_count c)) D (2 * i) (length vs) (cached_contents vs m w) (cache_data m) a'"
    if "a' = a \<or> a' = cache_data m \<and> j = length vs" for a'
    unfolding row_set_def using a(2,3) T that by auto
  have rd: "rd (version (line_at c i)) 0 = Some ?v" by (rule line_shape_rd [OF line_shape_at [OF sh i]])
  have pos: "getData (int i) 0 c + int j = int (2 * i * D + j)" unfolding row(1) by simp
  show ?thesis
  proof (cases "j < length vs")
    case True
    then show ?thesis using a(1) z [of a] unfolding validateTag_def u rd pos by (simp add: j(2) pos u del: of_nat_add of_nat_mult)
  next
    case False
    then show ?thesis using j(1) z [of "cache_data m"] unfolding validateTag_def u rd by (simp add: j(2) u)
  qed
qed

text \<open>A row replaced from its start on, as \<open>fetch\<close> and \<open>memcpy\<close> do.\<close>

lemma row_set_take:
  assumes "r < k" "n \<le> D" "k * D \<le> length xs" "length ys = length xs - r * D"
    and "\<And>x. x < length ys \<Longrightarrow> ys ! x = (if x < n then ts ! x else xs ! (r * D + x))"
  shows "row_set k D r n ts xs (take (r * D) xs @ ys)"
  unfolding row_set_def
proof (intro conjI allI impI)
  have le: "r * D \<le> length xs" using block_end [OF assms(1) le0, of D] assms(3) by linarith
  then show "length (take (r * D) xs @ ys) = length xs" using assms(4) by simp
  fix t l assume tl: "t < k" "l < D"
  have lt: "t * D + l < length xs" using block_end [OF tl(1), of "Suc l" D] tl(2) assms(3) by simp
  show "(take (r * D) xs @ ys) ! (t * D + l) = (if t = r \<and> l < n then ts ! l else xs ! (t * D + l))"
  proof (cases "t * D + l < r * D")
    case True
    then have "\<not> (t = r \<and> l < n)" by auto
    then show ?thesis using True le by (auto simp: nth_append)
  next
    case False
    then have y: "(take (r * D) xs @ ys) ! (t * D + l) = ys ! (t * D + l - r * D)" using le by (simp add: nth_append)
    have "t * D + l - r * D < length ys" using False lt assms(4) by linarith
    note v = assms(5) [OF this]
    have "t * D + l - r * D < n \<longleftrightarrow> t = r \<and> l < n" using block_range [OF tl(2) le0 assms(2), of r t] False by auto
    moreover have "r * D + (t * D + l - r * D) = t * D + l" using False by linarith
    ultimately show ?thesis unfolding y v by auto
  qed
qed

text \<open>What a word holds may always be moved to its row.\<close>

lemma row_ready_word:
  assumes inv: "cache_inv H env D d bnd vs m" and w: "align8 w = w" and e: "line_shape e" "tag e = w"
    and row: "row_set (2 * nat (line_count (sk_cache m))) D (2 * line_of (sk_cache m) w) (length vs) (cached_contents vs m w) (cache_data m) a"
    and old: "\<And>u l. u = tag (line_at (sk_cache m) (line_of (sk_cache m) w)) \<Longrightarrow> u \<noteq> 0 \<Longrightarrow> u \<noteq> w \<Longrightarrow> l < length vs \<Longrightarrow>
      skadu_view m (place_of u) l (vs ! l) = word_time m u l (vs ! l)"
  shows "row_ready H env D d bnd vs w (cached_contents vs m w) m e a"
proof -
  have "skadu_view m (place_of w) l (vs ! l) = 0" if "l < length vs" "cached_contents vs m w ! l = 0" for l
    using that cache_invD(9) [OF inv, of w l] word_time_not_held [OF _ w, of m l "vs ! l"] by (cases "holds (sk_cache m) w") (auto simp: nth_contents)
  then show ?thesis unfolding row_ready_def Let_def using inv e row old cache_invD(10) [OF inv, of w] by simp
qed

text \<open>The middle of a load: the row has the times of the word, from the line or from the memory.\<close>

lemma load_row:
  assumes inv: "cache_inv H env D d bnd vs m" and w: "align8 w = w" "w \<noteq> 0" "addr_high w \<in> H"
    and n: "0 < length vs" "d \<le> length vs" "length vs \<le> D" "D \<le> 64"
  defines "c \<equiv> sk_cache m" and "i \<equiv> line_of (sk_cache m) w"
  shows "\<exists>e m1 a. (if isHit w (line_at c i)
        then do {
          let m = m\<lparr>cache_stat := eventReadHit (cache_stat m)\<rparr>;
          ts \<leftarrow> validateTag (cache_data m) (getData (int i) 0 c) (vs @ old) (of_nat (length vs)) (line_at c i);
          Some (line_at c i, m\<lparr>sk_cache := (sk_cache m)\<lparr>valueTable := (valueTable (sk_cache m))\<lparr>array := ts\<rparr>\<rparr>\<rparr>) }
        else do {
          let m = m\<lparr>cache_stat := eventReadEvict (cache_stat m)\<rparr>;
          m \<leftarrow> SkaduCache_evict env (int i) (vs @ old) m;
          (ts, m) \<leftarrow> fetch env w (of_nat (length vs)) (vs @ old) (drop (nat (getData (int i) 0 c)) (cache_data m)) TYPE_64BIT m;
          Some ((line_at c i)\<lparr>tag := w\<rparr>, m\<lparr>sk_cache := put_data (getData (int i) 0 c) ts (sk_cache m)\<rparr>) })
      = Some (e, m1\<lparr>sk_cache := c\<lparr>valueTable := (valueTable c)\<lparr>array := a\<rparr>\<rparr>\<rparr>)
    \<and> sk_cache m1 = c \<and> row_ready H env D d bnd vs w (cached_contents vs m w) m1 e a
    \<and> cached_contents vs m1 = cached_contents vs m"
proof (cases "tag (line_at c i) = w")
  case True
  let ?m = "m\<lparr>cache_stat := eventReadHit (cache_stat m)\<rparr>"
  have st: "length (nEvictLevel (eventReadHit (cache_stat m))) = 128"
    using cache_invD(2) [OF inv] by (simp add: eventReadHit_def)
  note m1 = cache_inv_stat [OF inv st]
  have h: "holds (sk_cache ?m) w" using True w(2) by (simp add: holds_def c_def i_def)
  obtain a where a: "validateTag (cache_data m) (getData (int i) 0 c) (vs @ old) (of_nat (length vs)) (line_at c i) = Some a"
    "row_set (2 * nat (line_count c)) D (2 * i) (length vs) (cached_contents vs m w) (cache_data m) a"
    using validateTag_row [OF m1(1) h n(3,4), of old] m1(2) by (auto simp: c_def i_def)
  have "isHit w (line_at c i)" using hit_word [OF inv w(1)] True by (simp add: c_def i_def)
  moreover have "row_ready H env D d bnd vs w (cached_contents vs ?m w) ?m (line_at c i) a"
  proof (rule row_ready_word [OF m1(1) w(1)])
    show "line_shape (line_at c i)" unfolding c_def i_def
      by (rule line_shape_at [OF cache_invD(3) [OF inv] line_of_less [OF cache_invD(3) [OF inv]]])
  qed (use True a(2) m1(2) in \<open>simp_all add: c_def i_def\<close>)
  ultimately show ?thesis using a(1) m1(2)
    by (intro exI [of _ "line_at c i"] exI [of _ ?m] exI [of _ a]) (simp add: c_def)
next
  case False
  let ?m = "m\<lparr>cache_stat := eventReadEvict (cache_stat m)\<rparr>"
  have st: "length (nEvictLevel (eventReadEvict (cache_stat m))) = 128"
    using cache_invD(2) [OF inv] by (simp add: eventReadEvict_def)
  note m0 = cache_inv_stat [OF inv st]
  have sh: "cache_shape D c" using cache_invD(3) [OF inv] by (simp add: c_def)
  have i: "i < length (tagTable c)" unfolding i_def c_def by (rule line_of_less [OF cache_invD(3) [OF inv]])
  note row = line_row [OF sh i]
  have c0: "sk_cache ?m = c" by (simp add: c_def)
  obtain m1 where m1: "SkaduCache_evict env (int i) (vs @ old) ?m = Some m1" "cache_inv H env D d bnd vs m1"
    "sk_cache m1 = c" "cached_contents vs m1 = cached_contents vs m"
    "tag (line_at c i) \<noteq> 0 \<longrightarrow> (\<forall>l < length vs. skadu_view m1 (place_of (tag (line_at c i))) l (vs ! l)
       = word_time m1 (tag (line_at c i)) l (vs ! l))"
    using cache_evict_ok [OF m0(1), of i old] i n(2-4) unfolding c0 m0(2) by blast
  let ?xs = "cache_data m" and ?dest = "2 * i * D"
  have dest: "nat (getData (int i) 0 c) = ?dest" unfolding row(1) by (rule nat_int)
  have xs: "?xs = array (valueTable c)" by (simp add: c_def)
  have u: "unat (of_nat (length vs) :: Index) = length vs" using n by (intro unat_of_nat32) simp
  have len: "length vs \<le> length (drop ?dest ?xs)" using row(2) n(3) unfolding xs length_drop by linarith
  obtain ts m2 where m2: "fetch env w (of_nat (length vs)) (vs @ old) (drop ?dest ?xs) TYPE_64BIT m1 = Some (ts, m2)"
    "skadu_ok H env m2" "sk_cache m2 = sk_cache m1" "cache_stat m2 = cache_stat m1" "length ts = length (drop ?dest ?xs)"
    "\<forall>k j v. skadu_view m2 k j v = skadu_view m1 k j v"
    "\<forall>l < length (drop ?dest ?xs). ts ! l
       = (if l < length vs then skadu_view m1 (place_of w) l ((vs @ old) ! l) else drop ?dest ?xs ! l)"
    using fetch_ok [OF cache_invD(1) [OF m1(2)] w(3), of "of_nat (length vs)" "vs @ old" "drop ?dest ?xs" TYPE_64BIT] n len
    unfolding u by auto
  have view: "skadu_view m2 = skadu_view m1" using m2(6) by (intro ext) blast
  have "zero_at m2 v = zero_at m1 v" for v by (rule zero_at_cong) (simp add: view)
  then have m2i: "cache_inv H env D d bnd vs m2" "cached_contents vs m2 = cached_contents vs m1"
    using cache_invD(2) [OF m1(2)] m2(3,4)
    by (rule_tac [!] cache_inv_step [OF m1(2) m2(2)]; simp add: view cache_invD(9) [OF m1(2)])+
  have c2: "sk_cache m2 = c" using m2(3) m1(3) by simp
  have nh: "\<not> holds (sk_cache m2) w" using False unfolding c2 holds_def by (simp add: c_def i_def)
  let ?e = "(line_at c i)\<lparr>tag := w\<rparr>" and ?a = "take ?dest ?xs @ ts"
  have "row_set (2 * nat (line_count c)) D (2 * i) (length vs) (cached_contents vs m2 w) ?xs ?a"
  proof (rule row_set_take [OF _ n(3)])
    show "2 * i < 2 * nat (line_count c)" unfolding c_def i_def by (rule row_less [OF cache_invD(3) [OF inv]])
    show "2 * nat (line_count c) * D \<le> length ?xs" unfolding xs by (rule array_length [OF sh])
    show "length ts = length ?xs - ?dest" using m2(5) by simp
    fix x assume x: "x < length ts"
    have le: "?dest \<le> length ?xs" using row(2) unfolding xs by linarith
    have "ts ! x = (if x < length vs then skadu_view m1 (place_of w) x ((vs @ old) ! x) else drop ?dest ?xs ! x)"
      using m2(5,7) x by simp
    then show "ts ! x = (if x < length vs then cached_contents vs m2 w ! x else ?xs ! (?dest + x))"
      using word_time_not_held [OF nh w(1)] unfolding nth_drop [OF le] view by (simp add: nth_contents nth_append)
  qed
  then have "row_ready H env D d bnd vs w (cached_contents vs m2 w) m2 ?e ?a"
  proof (rule_tac row_ready_word [OF m2i(1) w(1)])
    show "line_shape ?e" using line_shape_at [OF sh i] by (simp add: line_shape_def)
    fix v l assume "v = tag (line_at (sk_cache m2) (line_of (sk_cache m2) w))" "v \<noteq> 0" "v \<noteq> w" "l < length vs"
    then show "skadu_view m2 (place_of v) l (vs ! l) = word_time m2 v l (vs ! l)"
      using m1(5) word_time_cong [OF m2(3) view, of v l "vs ! l"] unfolding c2 view by (simp add: c_def i_def)
  qed (simp_all add: c2 i_def c_def)
  moreover have "\<not> isHit w (line_at c i)" using hit_word [OF inv w(1)] False by (simp add: c_def i_def)
  moreover have "put_data (getData (int i) 0 c) ts (sk_cache m2) = c\<lparr>valueTable := (valueTable c)\<lparr>array := ?a\<rparr>\<rparr>"
    unfolding c2 put_data_def dest xs ..
  moreover have "cache_data m1 = ?xs" using m1(3) by (simp add: c_def)
  ultimately show ?thesis using m1(1,4) m2(1) m2i(2) c2 dest
    by (intro exI [of _ ?e] exI [of _ m2] exI [of _ ?a]) simp
qed

lemma row_start:
  assumes "cache_shape D c" "row_set (2 * nat (line_count c)) D (2 * line_of c w) n ts (array (valueTable c)) a" "n \<le> D" "n \<le> length ts"
  defines "dest \<equiv> nat (getData (int (line_of c w)) 0 c)"
  shows "n \<le> length (drop dest a)" "take n (drop dest a) = take n ts"
proof -
  note i = line_of_less [OF assms(1), of w]
  have d: "dest = 2 * line_of c w * D" unfolding dest_def line_row(1) [OF assms(1) i] by (rule nat_int)
  have len: "length a = length (array (valueTable c))" using assms(2) by (simp add: row_set_def)
  show le: "n \<le> length (drop dest a)" using line_row(2) [OF assms(1) i] assms(3) unfolding d len length_drop by linarith
  show "take n (drop dest a) = take n ts"
  proof (rule nth_equalityI)
    fix l assume "l < length (take n (drop dest a))"
    then have l: "l < n" by simp
    then have "a ! (2 * line_of c w * D + l) = ts ! l"
      using assms(2,3) row_less [OF assms(1), of w] unfolding row_set_def by auto
    moreover have "dest \<le> length a" using line_row(2) [OF assms(1) i] unfolding d len by linarith
    ultimately show "take n (drop dest a) ! l = take n ts ! l" using l by (simp only: nth_take nth_drop d)
  qed (use le assms(4) in simp)
qed

lemma cache_get_ok:
  assumes inv: "cache_inv H env D d bnd vs m" and w: "align8 w = w" "w \<noteq> 0" "addr_high w \<in> H"
    and n: "0 < length vs" "d \<le> length vs" "length vs \<le> D" "D \<le> 64"
  shows "\<exists>ts m'. SkaduCache_get env w (of_nat (length vs)) (vs @ old) TYPE_64BIT m = Some (ts, m')
    \<and> cache_inv H env D (length vs) bnd vs m' \<and> length vs \<le> length ts
    \<and> take (length vs) ts = cached_contents vs m w \<and> cached_contents vs m' = cached_contents vs m"
proof -
  let ?c = "sk_cache m" and ?i = "line_of (sk_cache m) w"
  note I = cache_invD [OF inv]
  note look = lookup_ok [OF I(3) w(1)]
  from load_row [OF inv w n, of old] obtain e m1 a where mid: "(if isHit w (line_at ?c ?i)
        then do {
          let m = m\<lparr>cache_stat := eventReadHit (cache_stat m)\<rparr>;
          ts \<leftarrow> validateTag (cache_data m) (getData (int ?i) 0 ?c) (vs @ old) (of_nat (length vs)) (line_at ?c ?i);
          Some (line_at ?c ?i, m\<lparr>sk_cache := (sk_cache m)\<lparr>valueTable := (valueTable (sk_cache m))\<lparr>array := ts\<rparr>\<rparr>\<rparr>) }
        else do {
          let m = m\<lparr>cache_stat := eventReadEvict (cache_stat m)\<rparr>;
          m \<leftarrow> SkaduCache_evict env (int ?i) (vs @ old) m;
          (ts, m) \<leftarrow> fetch env w (of_nat (length vs)) (vs @ old) (drop (nat (getData (int ?i) 0 ?c)) (cache_data m)) TYPE_64BIT m;
          Some ((line_at ?c ?i)\<lparr>tag := w\<rparr>, m\<lparr>sk_cache := put_data (getData (int ?i) 0 ?c) ts (sk_cache m)\<rparr>) })
      = Some (e, m1\<lparr>sk_cache := ?c\<lparr>valueTable := (valueTable ?c)\<lparr>array := a\<rparr>\<rparr>\<rparr>)"
    and r: "sk_cache m1 = ?c" "row_ready H env D d bnd vs w (cached_contents vs m w) m1 e a"
    "cached_contents vs m1 = cached_contents vs m" by blast
  from finish_access [OF r(2) w n, of old] obtain c' where c': "set_tag (int ?i) 0 (vs @ old) (of_nat (length vs)) e
        (?c\<lparr>valueTable := (valueTable ?c)\<lparr>array := a\<rparr>\<rparr>) = Some c'" "array (valueTable c') = a"
    "cache_inv H env D (length vs) bnd vs (m1\<lparr>sk_cache := c'\<rparr>)"
    "cached_contents vs (m1\<lparr>sk_cache := c'\<rparr>) = (cached_contents vs m1)(w := take (length vs) (cached_contents vs m w))"
    unfolding r(1) by blast
  have "SkaduCache_get env w (of_nat (length vs)) (vs @ old) TYPE_64BIT m
      = Some (drop (nat (getData (int ?i) 0 ?c)) a, m1\<lparr>sk_cache := c'\<rparr>)"
    unfolding SkaduCache_get_def no_resize [OF I(3) n(3,4)] bind.bind_lunit look prod.case mid by (simp add: c'(1,2))
  moreover have "row_set (2 * nat (line_count ?c)) D (2 * ?i) (length vs) (cached_contents vs m w) (array (valueTable ?c)) a"
    using r(2) unfolding row_ready_def Let_def r(1) by blast
  note row_start [OF I(3) this n(3)]
  ultimately show ?thesis using c'(3,4) r(3) by auto
qed

text \<open>The middle of a store.\<close>

lemma store_row:
  assumes inv: "cache_inv H env D d bnd vs m" and w: "align8 w = w" "w \<noteq> 0"
    and n: "d \<le> length vs" "length vs \<le> D" "D \<le> 64"
  defines "c \<equiv> sk_cache m" and "i \<equiv> line_of (sk_cache m) w"
  shows "\<exists>m1. (if isHit w (line_at c i) then Some (m\<lparr>cache_stat := eventWriteHit (cache_stat m)\<rparr>)
           else SkaduCache_evict env (int i) (vs @ old) (m\<lparr>cache_stat := eventWriteEvict (cache_stat m)\<rparr>)) = Some m1
    \<and> sk_cache m1 = c \<and> cache_inv H env D d bnd vs m1 \<and> cached_contents vs m1 = cached_contents vs m
    \<and> (\<forall>u l. u = tag (line_at c i) \<longrightarrow> u \<noteq> 0 \<longrightarrow> u \<noteq> w \<longrightarrow> l < length vs \<longrightarrow>
         skadu_view m1 (place_of u) l (vs ! l) = word_time m1 u l (vs ! l))"
proof (cases "tag (line_at c i) = w")
  case True
  have st: "length (nEvictLevel (eventWriteHit (cache_stat m))) = 128"
    using cache_invD(2) [OF inv] by (simp add: eventWriteHit_def)
  have "isHit w (line_at c i)" using hit_word [OF inv w(1)] True by (simp add: c_def i_def)
  then show ?thesis using cache_inv_stat [OF inv st] True by (simp add: c_def)
next
  case False
  have st: "length (nEvictLevel (eventWriteEvict (cache_stat m))) = 128"
    using cache_invD(2) [OF inv] by (simp add: eventWriteEvict_def)
  note m0 = cache_inv_stat [OF inv st]
  have i: "i < length (tagTable (sk_cache (m\<lparr>cache_stat := eventWriteEvict (cache_stat m)\<rparr>)))"
    using line_of_less [OF cache_invD(3) [OF inv], of w] by (simp add: i_def)
  have "\<not> isHit w (line_at c i)" using hit_word [OF inv w(1)] False by (simp add: c_def i_def)
  then show ?thesis using cache_evict_ok [OF m0(1) i n, of old] m0(2) by (auto simp: c_def)
qed

lemma cache_set_ok:
  assumes inv: "cache_inv H env D d bnd vs m" and w: "align8 w = w" "w \<noteq> 0" "addr_high w \<in> H"
    and n: "0 < length vs" "d \<le> length vs" "length vs \<le> D" "D \<le> 64"
    and ts: "length vs \<le> length ts" "0 \<notin> set (take (length vs) ts)"
  shows "\<exists>m'. SkaduCache_set env w (of_nat (length vs)) (vs @ old) ts TYPE_64BIT m = Some m'
    \<and> cache_inv H env D (length vs) bnd vs m' \<and> cached_contents vs m' = (cached_contents vs m)(w := take (length vs) ts)
    \<and> last_used (length vs) (vs ! (length vs - 1)) (sk_cache m') w"
proof -
  let ?c = "sk_cache m" and ?i = "line_of (sk_cache m) w"
  note I = cache_invD [OF inv]
  note look = lookup_ok [OF I(3) w(1)] and i = line_of_less [OF I(3), of w]
  from store_row [OF inv w(1,2) n(2-4), of old] obtain m1 where m1:
    "(if isHit w (line_at ?c ?i) then Some (m\<lparr>cache_stat := eventWriteHit (cache_stat m)\<rparr>)
       else SkaduCache_evict env (int ?i) (vs @ old) (m\<lparr>cache_stat := eventWriteEvict (cache_stat m)\<rparr>)) = Some m1"
    "sk_cache m1 = ?c" "cache_inv H env D d bnd vs m1" "cached_contents vs m1 = cached_contents vs m"
    "\<And>u l. u = tag (line_at ?c ?i) \<Longrightarrow> u \<noteq> 0 \<Longrightarrow> u \<noteq> w \<Longrightarrow> l < length vs \<Longrightarrow>
       skadu_view m1 (place_of u) l (vs ! l) = word_time m1 u l (vs ! l)" by blast
  have u: "unat (of_nat (length vs) :: Index) = length vs" using n by (intro unat_of_nat32) simp
  obtain a where a: "memcpy (cache_data m) (int (2 * ?i * D)) ts (int 0) (length vs) = Some a"
    "row_set (2 * nat (line_count ?c)) D (2 * ?i) (length vs) ts (cache_data m) a"
    using memcpy_block [OF row_less [OF I(3), of w] n(3) array_length [OF I(3)], of 0 ts] ts(1)
    unfolding row_set_def by auto
  let ?e = "(line_at ?c ?i)\<lparr>line_type := TYPE_64BIT, tag := w\<rparr>"
  have sh: "line_shape (line_at ?c ?i)" by (rule line_shape_at [OF I(3) i])
  have nz: "ts ! l \<noteq> 0" if "l < length vs" for l
    using ts that by (metis in_set_conv_nth length_take min.absorb2 nth_take)
  have "row_ready H env D d bnd vs w ts m1 ?e a"
    unfolding row_ready_def Let_def m1(2)
    using m1(3,5) sh a(2) ts(1) nz by (auto simp: line_shape_def zeros_last_def)
  from finish_access [OF this w n, of old] obtain c' where c': "set_tag (int ?i) 0 (vs @ old) (of_nat (length vs)) ?e
        (?c\<lparr>valueTable := (valueTable ?c)\<lparr>array := a\<rparr>\<rparr>) = Some c'"
    "cache_inv H env D (length vs) bnd vs (m1\<lparr>sk_cache := c'\<rparr>)"
    "cached_contents vs (m1\<lparr>sk_cache := c'\<rparr>) = (cached_contents vs m1)(w := take (length vs) ts)"
    "last_used (length vs) (vs ! (length vs - 1)) c' w"
    unfolding m1(2) by blast
  have ty: "line_type (line_at ?c ?i) = TYPE_64BIT" using sh by (simp add: line_shape_def)
  have same: "m\<lparr>sk_cache := ?c\<rparr> = m" by simp
  have "SkaduCache_set env w (of_nat (length vs)) (vs @ old) ts TYPE_64BIT m = Some (m1\<lparr>sk_cache := c'\<rparr>)"
    using a(1) c'(1) ty
    unfolding SkaduCache_set_def no_resize [OF I(3) n(3,4)] bind.bind_lunit look prod.case Let_def same m1(1) u line_row(1) [OF I(3) i]
    by (simp add: m1(2) del: of_nat_mult)
  then show ?thesis using c'(2-4) m1(4) by auto
qed

section \<open>The memory behind the cache\<close>

abbreviation cached_get where "cached_get env \<equiv> MShadowSkadu_get (SkaduCache_ops env)"
abbreviation cached_set where "cached_set env \<equiv> MShadowSkadu_set (SkaduCache_ops env)"

text \<open>The accesses: a line without an address has the address 0, which no program accesses.\<close>

definition word_in :: "UInt32 set \<Rightarrow> Addr \<Rightarrow> UInt32 \<Rightarrow> bool" where
  "word_in H a sz \<longleftrightarrow> addr_high a \<in> H \<and> align8 a \<noteq> 0"

definition word_slot :: "Addr \<Rightarrow> UInt32 \<Rightarrow> Addr" where
  "word_slot a sz = align8 a"

text \<open>A time that is stored is not 0: the cost of the store has been added to it.\<close>

definition all_nonzero :: "Time list \<Rightarrow> bool" where
  "all_nonzero ts \<longleftrightarrow> 0 \<notin> set ts"

lemma word_aligned: "align8 (align8 a) = align8 a"
  by (rule bit_eqI) (simp add: align8_def bit_simps)

lemma collect_ok:
  assumes inv: "cache_inv H env D d bnd vs m" and n: "length vs \<le> 64"
  shows "\<exists>m'. (if getActiveTimeTableSize (mem_stat m) \<ge> next_gc_time m
       then do {
         m \<leftarrow> runGarbageCollector (vs @ old) (length vs) m;
         Some (m\<lparr>next_gc_time := next_gc_time m + ucast (sk_gc_period m)\<rparr>) }
       else Some m) = Some m' \<and> cache_inv H env D d bnd vs m' \<and> cached_contents vs m' = cached_contents vs m"
proof (cases "getActiveTimeTableSize (mem_stat m) \<ge> next_gc_time m")
  case True
  obtain m1 where m1: "runGarbageCollector (vs @ old) (length vs) m = Some m1" "skadu_ok H env m1" "sk_cache m1 = sk_cache m"
    "\<forall>k i. i < length vs \<longrightarrow> skadu_view m1 k i ((vs @ old) ! i) = skadu_view m k i ((vs @ old) ! i)"
    "\<forall>v. zero_at m v \<longrightarrow> zero_at m1 v"
    using runGarbageCollector_ok [OF cache_invD(1) [OF inv] n, of "vs @ old"] by auto
  let ?m = "m1\<lparr>next_gc_time := next_gc_time m1 + ucast (sk_gc_period m1)\<rparr>"
  have "cache_stat m1 = cache_stat m"
    using m1(1) by (auto simp: runGarbageCollector_def Let_def bind_eq_Some_conv split: prod.splits)
  then have f: "skadu_ok H env ?m" "evict_stat ?m" "sk_cache ?m = sk_cache m" "skadu_view ?m = skadu_view m1"
    using m1(2,3) cache_invD(2) [OF inv] by (simp_all add: frame_simps)
  have z: "zero_at ?m v = zero_at m1 v" for v by (rule zero_at_cong) (simp add: f(4))
  have v: "skadu_view ?m k l (vs ! l) = skadu_view m k l (vs ! l)" if "l < length vs" for k l
    using m1(4) [THEN spec [of _ k], THEN spec [of _ l]] that unfolding f(4) by (simp add: nth_append)
  have "cache_inv H env D d bnd vs ?m" "cached_contents vs ?m = cached_contents vs m"
    using m1(5) by (rule_tac [!] cache_inv_step [OF inv f(1-3)]; simp add: v z cache_invD(9) [OF inv])+
  then show ?thesis using True m1(1) by simp
qed (use inv in simp)

lemma not_no_level: "0 < length vs \<Longrightarrow> length vs \<le> 64 \<Longrightarrow> \<not> (of_nat (length vs) :: Index) < 1"
  using length_index [of vs] by (auto simp: word_less_nat_alt)

lemma cached_get_contents:
  assumes inv: "cache_inv H env D d bnd vs m" and a: "word_in H a sz" and n: "0 < length vs" "d \<le> length vs" "length vs \<le> min D 64"
  shows "\<exists>ts m'. cached_get env a (of_nat (length vs)) (vs @ old) sz m = Some (ts, m') \<and> cache_inv H env D (length vs) bnd vs m'
    \<and> length vs \<le> length ts \<and> take (length vs) ts = cached_contents vs m (word_slot a sz)
    \<and> cached_contents vs m' = cached_contents vs m"
proof -
  let ?m = "m\<lparr>cache_stat := eventRead (cache_stat m)\<rparr>"
  have st: "length (nEvictLevel (eventRead (cache_stat m))) = 128" using cache_invD(2) [OF inv] by (simp add: eventRead_def)
  have D: "D \<le> 64" "length vs \<le> D" "length vs \<le> 64" using cache_invD(3) [OF inv] n(3) by (simp_all add: cache_shape_def)
  have w: "align8 (align8 a) = align8 a" "align8 a \<noteq> 0" "addr_high (align8 a) \<in> H" using a by (simp_all add: word_in_def word_aligned)
  from cache_get_ok [OF cache_inv_stat(1) [OF inv st] w n(1,2) D(2,1), of old] show ?thesis
    using cache_inv_stat(2) [OF inv st] not_no_level [OF n(1) D(3)]
    by (auto simp: MShadowSkadu_get_def SkaduCache_ops_def word_slot_def)
qed

lemma cached_set_line:
  assumes inv: "cache_inv H env D d bnd vs m" and a: "word_in H a sz" and n: "0 < length vs" "d \<le> length vs" "length vs \<le> min D 64"
    and ts: "length vs \<le> length ts" "all_nonzero (take (length vs) ts)"
  shows "\<exists>m'. cached_set env a (of_nat (length vs)) (vs @ old) ts sz m = Some m' \<and> cache_inv H env D (length vs) bnd vs m'
    \<and> cached_contents vs m' = (cached_contents vs m)(word_slot a sz := take (length vs) ts)
    \<and> last_used (length vs) (vs ! (length vs - 1)) (sk_cache m') (word_slot a sz)"
proof -
  have D: "D \<le> 64" "length vs \<le> D" "length vs \<le> 64" using cache_invD(3) [OF inv] n(3) by (simp_all add: cache_shape_def)
  have w: "align8 (align8 a) = align8 a" "align8 a \<noteq> 0" "addr_high (align8 a) \<in> H" using a by (simp_all add: word_in_def word_aligned)
  obtain m1 where m1: "(if getActiveTimeTableSize (mem_stat m) \<ge> next_gc_time m
       then do {
         m \<leftarrow> runGarbageCollector (vs @ old) (length vs) m;
         Some (m\<lparr>next_gc_time := next_gc_time m + ucast (sk_gc_period m)\<rparr>) }
       else Some m) = Some m1" "cache_inv H env D d bnd vs m1" "cached_contents vs m1 = cached_contents vs m"
    using collect_ok [OF inv D(3), of old] by blast
  have st: "length (nEvictLevel (eventWrite (cache_stat m1))) = 128" using cache_invD(2) [OF m1(2)] by (simp add: eventWrite_def)
  from cache_set_ok [OF cache_inv_stat(1) [OF m1(2) st] w n(1,2) D(2,1) ts(1), of old] ts(2)
  obtain m2 where m2: "SkaduCache_set env (align8 a) (of_nat (length vs)) (vs @ old) ts TYPE_64BIT
      (m1\<lparr>cache_stat := eventWrite (cache_stat m1)\<rparr>) = Some m2" "cache_inv H env D (length vs) bnd vs m2"
    "cached_contents vs m2 = (cached_contents vs m)(align8 a := take (length vs) ts)"
    "last_used (length vs) (vs ! (length vs - 1)) (sk_cache m2) (align8 a)"
    unfolding cache_inv_stat(2) [OF m1(2) st] m1(3) all_nonzero_def by blast
  have "cached_set env a (of_nat (length vs)) (vs @ old) ts sz m = Some m2"
    using not_no_level [OF n(1) D(3)] m1(1) m2(1) unfolding MShadowSkadu_set_def length_index [OF D(3)]
    by (simp add: SkaduCache_ops_def)
  then show ?thesis using m2(2-4) by (simp add: word_slot_def)
qed

lemma cached_set_contents:
  assumes "cache_inv H env D d bnd vs m" "word_in H a sz" "0 < length vs" "d \<le> length vs" "length vs \<le> min D 64"
    and "length vs \<le> length ts" "all_nonzero (take (length vs) ts)"
  shows "\<exists>m'. cached_set env a (of_nat (length vs)) (vs @ old) ts sz m = Some m' \<and> cache_inv H env D (length vs) bnd vs m'
    \<and> cached_contents vs m' = (cached_contents vs m)(word_slot a sz := take (length vs) ts)"
  using cached_set_line [OF assms, of old] by blast

lemma cached_enter:
  assumes inv: "cache_inv H env D d bnd vs m" and v: "bnd \<le> unat v" "unat v < 2 ^ 31"
  shows "cache_inv H env D d (Suc (unat v)) (vs @ [v]) m \<and> cached_contents (vs @ [v]) m = (\<lambda>w. cached_contents vs m w @ [0])"
proof
  note I = cache_invD [OF inv]
  have new: "x < v" if "unat x < bnd" for x using that v(1) by (simp add: word_less_nat_alt)
  have lok: "unat (version (line_at (sk_cache m) (line_of (sk_cache m) w)) ! 0) < bnd" if "holds (sk_cache m) w" for w
    using I(8) [OF line_of_less [OF I(3)], of w] that by (auto simp: holds_def line_ok_def Let_def)
  have z: "word_time m w l v = 0" for w l
  proof (cases "holds (sk_cache m) w")
    case True
    then have "\<not> v \<le> version (line_at (sk_cache m) (line_of (sk_cache m) w)) ! 0"
      using new [OF lok [OF True]] by (simp only: not_le)
    then show ?thesis using word_time_held [OF True held_aligned [OF inv True]] by simp
  next
    case False
    then show ?thesis using zero_atD [OF I(7) [OF v(1)]] by (simp add: word_time_def Let_def)
  qed
  show con: "cached_contents (vs @ [v]) m = (\<lambda>w. cached_contents vs m w @ [0])"
    unfolding fun_eq_iff cached_contents_def using z by (simp add: nth_append)
  have "line_ok H d (Suc (unat v)) (vs @ [v]) (sk_cache m) i"
    if i: "i < length (tagTable (sk_cache m))" "tag (line_at (sk_cache m) i) \<noteq> 0" for i
  proof -
    have "line_ok H d bnd vs (sk_cache m) i" by (rule I(8) [OF i])
    moreover from this have "version (line_at (sk_cache m) i) ! 0 < v" by (intro new) (simp add: line_ok_def Let_def)
    ultimately show ?thesis using v(1) by (auto simp: line_ok_def Let_def nth_append)
  qed
  moreover have "zeros_last (cached_contents (vs @ [v]) m w)" for w
    using I(10) [of w] unfolding con by (auto simp: zeros_last_def nth_append)
  moreover have "skadu_view m (place_of w) l ((vs @ [v]) ! l) = 0"
    if "holds (sk_cache m) w" "l < length (vs @ [v])" "word_time m w l ((vs @ [v]) ! l) = 0" for w l
    using that I(9) [of w l] zero_atD [OF I(7) [OF v(1)]] by (auto simp: nth_append split: if_splits)
  moreover have "sorted_wrt (<) (vs @ [v])" using I(4,5) new by (auto simp: sorted_wrt_append)
  moreover have "\<forall>x \<in> set (vs @ [v]). unat x < Suc (unat v)" using I(5) v(1) by fastforce
  moreover have "zero_at m x" if "Suc (unat v) \<le> unat x" for x using I(7) that v(1) by simp
  ultimately show "cache_inv H env D d (Suc (unat v)) (vs @ [v]) m"
    using I(1-3) v(2) unfolding cache_inv_def by (simp only: simp_thms Suc_leI) blast
qed

lemma cached_leave:
  assumes inv: "cache_inv H env D d bnd (vs @ [v]) m"
  shows "cache_inv H env D d bnd vs m \<and> cached_contents vs m = (\<lambda>w. butlast (cached_contents (vs @ [v]) m w))"
proof
  note I = cache_invD [OF inv]
  show con: "cached_contents vs m = (\<lambda>w. butlast (cached_contents (vs @ [v]) m w))"
    unfolding fun_eq_iff cached_contents_def by (simp add: nth_append butlast_append)
  have nth: "l < length vs \<Longrightarrow> (vs @ [v]) ! l = vs ! l" for l by (simp add: nth_append)
  have "line_ok H d bnd vs (sk_cache m) i"
    if i: "i < length (tagTable (sk_cache m))" "tag (line_at (sk_cache m) i) \<noteq> 0" for i
    using I(8) [OF i] nth by (simp add: line_ok_def Let_def All_less_Suc)
  moreover have "zeros_last (cached_contents vs m w)" for w
    using I(10) [of w] unfolding con by (auto simp: zeros_last_def nth_butlast)
  moreover have "skadu_view m (place_of w) l (vs ! l) = 0"
    if "holds (sk_cache m) w" "l < length vs" "word_time m w l (vs ! l) = 0" for w l
    using that I(9) [of w l] by (simp add: nth)
  ultimately show "cache_inv H env D d bnd vs m"
    using I(1-7) unfolding cache_inv_def by (simp add: sorted_wrt_append)
qed

interpretation cached: deepening_memory "cached_get env" "cached_set env" "cache_inv H env D" "word_in H" all_nonzero
    "2 ^ 31" "min D 64" word_slot cached_contents
  for env H D
  by unfold_locales (simp, (rule cached_get_contents cached_set_contents cached_enter cached_leave, assumption+)+)

end
