(* ===== verification/CachedRuns.thy ===== *)
theory CachedRuns
  imports SkaduCacheRuns
begin

text \<open>
  Runs of the profiled program on \<open>MShadowSkadu\<close> with its write-back cache, the default configuration:
  when they are right, and how a time of a region that has ended comes back when they are not.
\<close>

section \<open>The fresh memory\<close>

lemma configure_shape:
  assumes "SkaduCache_init cfg mb c0 = Some c" "0 < mb" "unat (getNumProfiledLevels cfg) \<le> 64"
  shows "cache_shape (unat (getNumProfiledLevels cfg)) c" "\<And>i. i < length (tagTable c) \<Longrightarrow> line_at c i = empty_line"
proof -
  let ?D = "unat (getNumProfiledLevels cfg)" and ?lc = "mb * 1024 * 1024 div 8"
  have "?D < 2 ^ 31" using assms(3) by simp
  then have D: "to_int (getNumProfiledLevels cfg) = int ?D" by (rule to_int_small)
  from assms obtain t where t: "mb * 1024 * 1024 < 2 ^ 31" "Table_new (?lc * 2) (int ?D) = Some t"
    and c: "c = \<lparr>size_in_mb = mb, line_count = ?lc, line_shift = getFirstOnePosition ?lc, tvc_depth = int ?D,
      tagTable = replicate (nat ?lc) empty_line, valueTable = t\<rparr>"
    by (auto simp: SkaduCache_init_def configure_def Let_def D bind_eq_Some_conv split: if_splits)
  have lc: "0 < ?lc" "?lc < 2 ^ 31" using assms(2) t(1) by simp_all
  have "nat (?lc * 2 * int ?D) = 2 * nat ?lc * ?D" using lc(1) by (simp add: nat_mult_distrib)
  then have "array t = replicate (2 * nat ?lc * ?D) 0" "col t = int ?D"
    using t(2) by (auto simp: Table_new_def split: if_splits)
  moreover have "line_shape empty_line" by (simp add: line_shape_def empty_line_def)
  ultimately show "cache_shape ?D c" using lc assms(3) by (simp add: cache_shape_def c)
  show "line_at c i = empty_line" if "i < length (tagTable c)" for i using that by (simp add: line_at_def c)
qed

lemma cached_init:
  assumes "\<not> compress_shadow_mem cfg" "card H \<le> 32" "inj (plat_addr env)"
    and c: "SkaduCache_init cfg mb c0 = Some c" "0 < mb" "unat (getNumProfiledLevels cfg) \<le> 64"
  shows "cache_inv H env (unat (getNumProfiledLevels cfg)) 0 0 [] (MShadowSkadu_init cfg c)"
proof -
  note cf = configure_shape [OF c]
  have cache: "sk_cache (MShadowSkadu_init cfg c) = c"
    by (simp add: MShadowSkadu_init_def initGarbageCollector_def Let_def)
  have "skadu_ok H env (MShadowSkadu_init cfg c)"
    using assms(1-3) by (simp add: skadu_ok_def MShadowSkadu_init_def initGarbageCollector_def Let_def heap_ok_def
      entries_ok_def SparseTable_init_def SPARSE_ENTRIES_def pointers_ok_def segments_in_def pages_distinct_def
      page_in_def entry_of_def)
  moreover have "evict_stat (MShadowSkadu_init cfg c)"
    by (simp add: MShadowSkadu_init_def initGarbageCollector_def Let_def L1Stat_zero_def)
  moreover have "zero_at (MShadowSkadu_init cfg c) v" for v by (rule zero_atI) (rule skadu_init_view)
  moreover have "tag (line_at c i) = 0" if "i < length (tagTable c)" for i
    using cf(2) [OF that] by (simp add: empty_line_def)
  ultimately show ?thesis using cf(1) unfolding cache_inv_def cache by (simp add: zeros_last_def)
qed

section \<open>Runs\<close>

text \<open>
  C22. A run of the profiled program on a fresh \<open>MShadowSkadu\<close> with a write-back cache of any size:
  regions are entered and left, loads and stores of any width come in between, the cache writes lines
  back and the garbage collector runs whenever they have to. If no access is less deep than one before
  it, the run does not get stuck, and every load returns what a stack of times per 8-byte word says, as
  without the cache. The versions stay below \<open>2^31\<close>, the times stored are not 0, and no access is to the
  word at address 0.
\<close>

theorem cached_run_refines:
  assumes "\<not> compress_shadow_mem cfg" "card H \<le> 32" "inj (plat_addr env)"
    and "SkaduCache_init cfg mb c0 = Some c" "0 < mb" "unat (getNumProfiledLevels cfg) \<le> 64"
    and "unat (getNumProfiledLevels cfg) \<le> length arr"
    and "regions_ok (word_in H) all_nonzero (2 ^ 31) (unat (getNumProfiledLevels cfg)) 0 0 es" "deepening 0 0 es"
  shows "\<exists>m'. run_regions (skadu_cached_shadow env) es 0 arr (MShadowSkadu_init cfg c)
     = Some (spec_regions word_slot es 0 (\<lambda>w. []), m')"
proof -
  have "cached_contents [] (MShadowSkadu_init cfg c) = (\<lambda>w. [])" unfolding fun_eq_iff cached_contents_def by simp
  moreover have "min (unat (getNumProfiledLevels cfg)) 64 = unat (getNumProfiledLevels cfg)" using assms(6) by simp
  ultimately show ?thesis
    using cached.run_deepening_refines [OF cached_init [OF assms(1-6)], of arr es] assms(7-9)
    by (simp add: skadu_cached_shadow_def)
qed

section \<open>A time that comes back\<close>

lemma evict_last_used:
  assumes inv: "cache_inv H env D d bnd vs m" and n: "0 < length vs" "length vs \<le> D" "length vs \<le> length ws"
    and last: "last_used (length vs) v (sk_cache m) w" and v: "ws ! (length vs - 1) = v"
    and cur: "\<And>l. l < length vs \<Longrightarrow> vs ! l \<le> v" and nz: "0 \<notin> set (cached_contents vs m w)"
  shows "\<exists>m'. SkaduCache_evict env (int (line_of (sk_cache m) w)) ws m = Some m' \<and> skadu_ok H env m'
    \<and> (\<forall>l < length vs. skadu_view m' (place_of w) l (ws ! l) = cached_contents vs m w ! l)"
proof -
  let ?c = "sk_cache m" and ?i = "line_of (sk_cache m) w"
  note I = cache_invD [OF inv]
  have D: "D \<le> 64" using I(3) by (simp add: cache_shape_def)
  have h: "holds ?c w" and L: "version (line_at ?c ?i) ! 0 = v" "lastSize (line_at ?c ?i) ! 0 = int (length vs)"
    using last by (simp_all add: last_used_def)
  have w: "tag (line_at ?c ?i) = w" "w \<noteq> 0" using h by (simp_all add: holds_def)
  note i = line_of_less [OF I(3), of w]
  have lok: "line_ok H d bnd vs ?c ?i" by (rule I(8) [OF i]) (simp add: w)
  then have a: "addr_high w \<in> H" "align8 w = w" using w by (simp_all add: line_ok_def Let_def)
  have "unat v < 2 ^ 31" using lok L(1) I(6) by (simp add: line_ok_def Let_def)
  then have vi: "version_as_int v = v" by (rule version_as_int_small)
  have sh: "line_shape (line_at ?c ?i)" by (rule line_shape_at [OF I(3) i])
  have u: "unat (of_nat (length vs) :: Index) = length vs" using n(2) D by (intro unat_of_nat32) simp
  have n64: "length vs \<le> 64" using n(2) D by simp
  let ?ts = "drop (nat (getData (int ?i) 0 ?c)) (cache_data m)"
  have dest: "nat (getData (int ?i) 0 ?c) = 2 * ?i * D" unfolding line_row(1) [OF I(3) i] by (rule nat_int)
  have len: "length vs \<le> length ?ts" using line_row(2) [OF I(3) i] n(2) unfolding dest length_drop by linarith
  have ts: "?ts ! l = cached_contents vs m w ! l" if "l < length vs" for l
    using line_time_row [OF I(3) i] word_time_held [OF h a(2), of l "vs ! l"] cur [OF that] L(1) that by (simp add: nth_contents)
  have nz': "?ts ! l \<noteq> 0" if "l < length vs" for l
    unfolding ts [OF that] using nz that by (metis length_contents nth_mem)
  have "getStartInvalidLevel v ws (of_nat (length vs)) = Some (length vs)"
  proof -
    obtain k where k: "length vs = Suc k" using n(1) by (cases "length vs") auto
    then have "rd ws (int k) = Some v" using n(3) v by (simp add: rd_int)
    moreover have "(of_nat (length vs) :: Index) \<noteq> 0" using u n(1) by (metis neq0_conv unsigned_0)
    ultimately show ?thesis unfolding getStartInvalidLevel_def u by (simp add: k)
  qed
  moreover have "word_of_int (lastSize (line_at ?c ?i) ! 0) = (of_nat (length vs) :: Index)" by (simp add: L(2))
  ultimately have gs: "getStartInvalidLevel v ws (word_of_int (lastSize (line_at ?c ?i) ! 0)) = Some (length vs)" by (simp only:)
  obtain m' where m': "evict env ?ts w (of_nat (length vs)) ws TYPE_64BIT m = Some m'" "skadu_ok H env m'"
    "\<forall>q j. j < length ws \<longrightarrow> skadu_view m' q j (ws ! j)
        = (if q = place_of w \<and> j < length vs \<and> (\<forall>x \<le> j. ?ts ! x \<noteq> 0) then ?ts ! j else skadu_view m q j (ws ! j))"
    using evict_ok [OF I(1) a(1) I(2), of "of_nat (length vs)" ws ?ts, unfolded u, OF n64 n(3) len] by blast
  have view: "skadu_view m' (place_of w) l (ws ! l) = cached_contents vs m w ! l" if "l < length vs" for l
  proof -
    have l: "l < length ws" using that n(3) by simp
    have "place_of w = place_of w \<and> l < length vs \<and> (\<forall>x \<le> l. ?ts ! x \<noteq> 0)" using that nz' by simp
    note trans [OF m'(3) [THEN spec [of _ "place_of w"], THEN spec [of _ l], THEN mp, OF l] if_P [OF this]]
    then show ?thesis using ts [OF that] by (rule trans)
  qed
  have "evict_half env (int ?i) 0 w TYPE_64BIT ws m = Some m'"
    using i m'(1) gs line_shape_rd [OF sh] L(1) vi by (simp add: evict_half_def getTag_def rd_int line_at_def)
  then have "SkaduCache_evict env (int ?i) ws m = Some m'"
    using i w sh by (simp add: SkaduCache_evict_def getTag_def rd_int line_at_def line_shape_def)
  then show ?thesis using m'(2) view by blast
qed

text \<open>
  C36. The limit of the previous property is a bug of the cache. A word is stored at depth \<open>n\<close>; then
  regions end and a new one is entered at an outer level, so that the array of versions \<open>ws\<close> has new
  versions there but still the old one at the word's deepest level, which is no longer active. When the
  word's line is written back now, its times go to the memory under all the versions in \<open>ws\<close>, and the
  next fetch of the word gives them to the new regions, which have never stored it.
\<close>

theorem writeback_revives_times:
  assumes "cache_inv H env D d bnd vs m" "word_in H a sz" "0 < length vs" "d \<le> length vs" "length vs \<le> min D 64"
    and "length vs \<le> length ts" "all_nonzero (take (length vs) ts)"
    and "length vs \<le> length ws" "ws ! (length vs - 1) = vs ! (length vs - 1)" "k \<le> length vs"
  shows "\<exists>m1 m2 ts' m3. cached_set env a (of_nat (length vs)) (vs @ old) ts sz m = Some m1
    \<and> SkaduCache_evict env (getLineIndex (align8 a) (sk_cache m1)) ws m1 = Some m2
    \<and> fetch env (align8 a) (of_nat k) ws (replicate 64 0) TYPE_64BIT m2 = Some (ts', m3) \<and> take k ts' = take k ts"
proof -
  let ?n = "length vs" and ?w = "align8 a"
  obtain m1 where m1: "cached_set env a (of_nat ?n) (vs @ old) ts sz m = Some m1" "cache_inv H env D ?n bnd vs m1"
    "cached_contents vs m1 = (cached_contents vs m)(?w := take ?n ts)" "last_used ?n (vs ! (?n - 1)) (sk_cache m1) ?w"
    using cached_set_line [OF assms(1-7), of old] unfolding word_slot_def by blast
  note I = cache_invD [OF m1(2)]
  have con: "cached_contents vs m1 ?w = take ?n ts" by (simp add: m1(3))
  have "vs ! l \<le> vs ! (?n - 1)" if "l < ?n" for l
    using sorted_wrt_nth_less [OF I(4), of l "?n - 1"] that by (cases "l = ?n - 1") (auto simp: less_imp_le)
  moreover have "?n \<le> D" using assms(5) by simp
  moreover have "0 \<notin> set (cached_contents vs m1 ?w)" unfolding con using assms(7) by (simp add: all_nonzero_def)
  ultimately obtain m2 where m2: "SkaduCache_evict env (int (line_of (sk_cache m1) ?w)) ws m1 = Some m2" "skadu_ok H env m2"
    "\<forall>l < ?n. skadu_view m2 (place_of ?w) l (ws ! l) = cached_contents vs m1 ?w ! l"
    using evict_last_used [OF m1(2) assms(3) _ assms(8) m1(4) assms(9)] by blast
  have k: "k \<le> 64" using assms(5,10) by simp
  then have u: "unat (of_nat k :: Index) = k" by (intro unat_of_nat32) simp
  have a: "addr_high ?w \<in> H" using assms(2) by (simp add: word_in_def)
  obtain ts' m3 where f: "fetch env ?w (of_nat k) ws (replicate 64 0) TYPE_64BIT m2 = Some (ts', m3)" "length ts' = 64"
    "\<forall>l < 64. ts' ! l = (if l < k then skadu_view m2 (place_of ?w) l (ws ! l) else replicate 64 0 ! l)"
    using fetch_ok [OF m2(2) a, of "of_nat k" ws "replicate 64 0" TYPE_64BIT] k assms(8,10) unfolding u by auto
  have "take k ts' = take k ts"
  proof (rule nth_equalityI)
    fix l assume "l < length (take k ts')"
    then have l: "l < k" "l < ?n" "l < 64" using assms(10) k by simp_all
    have "ts' ! l = take ?n ts ! l" using f(3) l m2(3) unfolding con by simp
    then show "take k ts' ! l = take k ts ! l" using l by simp
  qed (use f(2) k assms(6,10) in simp)
  then show ?thesis using m1(1) m2(1) f(1) unfolding line_index_nat [OF I(3), symmetric] by blast
qed

section \<open>Witnesses\<close>

text \<open>The default configuration: 33 levels and a cache of 4 MB.\<close>

lemma default_cache: "\<exists>c. SkaduCache_init KremlinConfiguration_new 4 c0 = Some c"
proof -
  have "to_int (33 :: UInt32) = 33" by (simp add: to_int_small)
  then show ?thesis
    by (simp add: SkaduCache_init_def configure_def Let_def Table_new_def KremlinConfiguration_new_def getNumProfiledLevels_def)
qed

lemma default_levels: "unat (getNumProfiledLevels KremlinConfiguration_new) = 33"
  by (simp add: KremlinConfiguration_new_def getNumProfiledLevels_def)

lemma default_platform: "\<not> compress_shadow_mem KremlinConfiguration_new" "card {0 :: UInt32} \<le> 32" "inj (plat_addr sample_platform)"
  by (simp_all add: KremlinConfiguration_new_def sample_platform_inj)

theorem cached_run_refines_witness:
  "\<exists>c0 c m'. SkaduCache_init KremlinConfiguration_new 4 c0 = Some c
    \<and> run_regions (skadu_cached_shadow sample_platform)
        [Enter 1, Enter 2, Access (Store 64 4 [7, 3]), Leave, Enter 3, Access (Load 68 4)] 0 (replicate 64 0)
        (MShadowSkadu_init KremlinConfiguration_new c) = Some ([[7, 0]], m')"
proof -
  let ?es = "[Enter 1, Enter 2, Access (Store 64 4 [7, 3]), Leave, Enter 3, Access (Load 68 4)]"
  obtain c0 c where c: "SkaduCache_init KremlinConfiguration_new 4 c0 = Some c" using default_cache by blast
  have "regions_ok (word_in {0}) all_nonzero (2 ^ 31) 33 0 0 ?es" "deepening 0 0 ?es"
    by (simp_all add: word_in_def all_nonzero_def addr_high_def align8_def)
  then have "\<exists>m'. run_regions (skadu_cached_shadow sample_platform) ?es 0 (replicate 64 0)
      (MShadowSkadu_init KremlinConfiguration_new c) = Some (spec_regions word_slot ?es 0 (\<lambda>w. []), m')"
    by (intro cached_run_refines [OF default_platform c]) (simp_all only: default_levels, simp_all)
  then show ?thesis using c by (auto simp: word_slot_def align8_def)
qed

theorem writeback_revives_times_witness:
  "\<exists>c0 c m1 m2 ts' m3. SkaduCache_init KremlinConfiguration_new 4 c0 = Some c
    \<and> cached_set sample_platform 64 3 [1, 2, 3] [9, 8, 7] 8 (MShadowSkadu_init KremlinConfiguration_new c) = Some m1
    \<and> SkaduCache_evict sample_platform (getLineIndex 64 (sk_cache m1)) [1, 4, 3] m1 = Some m2
    \<and> fetch sample_platform 64 2 [1, 4, 3] (replicate 64 0) TYPE_64BIT m2 = Some (ts', m3) \<and> take 2 ts' = [9, 8]"
proof -
  obtain c0 c where c: "SkaduCache_init KremlinConfiguration_new 4 c0 = Some c" using default_cache by blast
  let ?m = "MShadowSkadu_init KremlinConfiguration_new c" and ?I = "cache_inv {0} sample_platform 33 0"
  have "?I 0 [] ?m" using cached_init [OF default_platform c] unfolding default_levels by simp
  then have "?I (Suc (unat (1 :: Version))) ([] @ [1]) ?m" by (rule conjunct1 [OF cached_enter]) simp_all
  then have "?I (Suc (unat (2 :: Version))) (([] @ [1]) @ [2]) ?m" by (rule conjunct1 [OF cached_enter]) simp_all
  then have "?I (Suc (unat (3 :: Version))) ((([] @ [1]) @ [2]) @ [3]) ?m" by (rule conjunct1 [OF cached_enter]) simp_all
  from writeback_revives_times [OF this, of 64 8 "[9, 8, 7]" "[1, 4, 3]" 2 "[]"]
  have "\<exists>m1 m2 ts' m3. cached_set sample_platform 64 3 [1, 2, 3] [9, 8, 7] 8 ?m = Some m1
    \<and> SkaduCache_evict sample_platform (getLineIndex 64 (sk_cache m1)) [1, 4, 3] m1 = Some m2
    \<and> fetch sample_platform 64 2 [1, 4, 3] (replicate 64 0) TYPE_64BIT m2 = Some (ts', m3) \<and> take 2 ts' = [9, 8]"
    by (simp add: word_in_def all_nonzero_def addr_high_def align8_def)
  with c show ?thesis by blast
qed

end
