(* ===== verification/LlvmFunction.thy ===== *)
theory LlvmFunction
  imports KPrelude
begin

text \<open>
  What the compiler passes (\<open>instrument/src\<close>) see of a function: LLVM's classes are not part of the
  program, so an object of them is an argument of the model, with the functions the passes call as its
  fields. Pointers to values and basic blocks are numbers; their order is the order of addresses, which
  the sets and maps of the passes use. The documented class hierarchy of LLVM is in \<open>isa_*\<close>.
\<close>

type_synonym Value = nat
type_synonym Block = nat

datatype Opcode =
    OAdd | OFAdd | OSub | OFSub | OMul | OFMul | OUDiv | OSDiv | OURem | OSRem | OFDiv | OFRem
  | OShl | OLShr | OAShr | OAnd | OOr | OXor | OICmp | OFCmp | OStore | OLoad | OAtomicRMW
  | OAlloca | OBitCast | OBr | OCall | OInvoke | OLandingPad | OResume | OFPExt | OFPToSI | OFPToUI
  | OFPTrunc | OGetElementPtr | OIntToPtr | OPHI | OSwitch | OPtrToInt | ORet | OSExt | OSIToFP
  | OSelect | OTrunc | OUIToFP | OUnreachable | OZExt | OExtractValue | OInsertValue
  | OAddrSpaceCast
  | OOther nat

datatype ValueKind = VInstruction Opcode | VArgument | VConstant | VOther

text \<open>
  A loop of \<open>LoopInfo\<close>: its number, header, blocks, subloops, and the phi node of the canonical induction
  variable, if there is one.
\<close>

datatype Loop = Loop (loop_id: nat) (loop_header: Block) (loop_blocks: "Block list") (loop_subloops: "Loop list")
  (loop_civ: "Value option")

datatype ValType = TVoid | TInt nat | TFloat | TDouble | TPointer | TOtherType

datatype Callee = Callee (callee_name: "string option") (callee_intrinsic: bool)

text \<open>
  \<open>val_uses\<close> are the values that the iterator from \<open>use_begin\<close> yields: which they are, the users or the
  value itself, has changed in LLVM. \<open>phi_blocks\<close> are the incoming blocks of a phi, in the order of its
  operands. \<open>br_condition\<close> is the operand of a conditional branch or of a switch that decides.
  \<open>called_function\<close> is the function a call names.
  \<open>cast_function\<close> is the function under the constant cast that a call calls, if it calls one.
  \<open>call_site_id\<close> is the identifier made of the names around the call and its index.
\<close>

record LlvmFunction =
  val_kind :: "Value \<Rightarrow> ValueKind"
  val_operands :: "Value \<Rightarrow> Value list"
  val_uses :: "Value \<Rightarrow> Value list"
  val_block :: "Value \<Rightarrow> Block"
  phi_blocks :: "Value \<Rightarrow> Block list"
  fun_blocks :: "Block list"
  fun_globals :: "Value list"
  bb_insts :: "Block \<Rightarrow> Value list"
  bb_terminator :: "Block \<Rightarrow> Value"
  bb_preds :: "Block \<Rightarrow> Block list"
  bb_succs :: "Block \<Rightarrow> Block list"
  bb_landing_pad :: "Block \<Rightarrow> bool"
  br_condition :: "Value \<Rightarrow> Value option"
  loop_of :: "Block \<Rightarrow> Loop option"
  top_loops :: "Loop list"
  dom_idom :: "Block \<Rightarrow> Block option"
  dominates :: "Block \<Rightarrow> Block \<Rightarrow> bool"
  common_dominator :: "Block \<Rightarrow> Block \<Rightarrow> Block option"
  val_type :: "Value \<Rightarrow> ValType"
  constant_int :: "Value \<Rightarrow> bool"
  fun_name :: "string option"
  fun_args :: "Value list"
  fun_returns :: ValType
  fun_entry :: Block
  called_function :: "Value \<Rightarrow> Callee option"
  call_args :: "Value \<Rightarrow> Value list"
  call_site_id :: "Value \<Rightarrow> UInt64 \<Rightarrow> UInt64"
  cast_function :: "Value \<Rightarrow> Callee option"
  pointee_type :: "Value \<Rightarrow> ValType"

section \<open>Classes of values\<close>

definition opcode_of :: "LlvmFunction \<Rightarrow> Value \<Rightarrow> Opcode option" where
  "opcode_of F v = (case val_kind F v of VInstruction oc \<Rightarrow> Some oc | _ \<Rightarrow> None)"

definition is_instruction :: "LlvmFunction \<Rightarrow> Value \<Rightarrow> bool" where
  "is_instruction F v \<longleftrightarrow> opcode_of F v \<noteq> None"

definition isa_op :: "Opcode list \<Rightarrow> LlvmFunction \<Rightarrow> Value \<Rightarrow> bool" where
  "isa_op os F v \<longleftrightarrow> (case opcode_of F v of Some oc \<Rightarrow> oc \<in> set os | None \<Rightarrow> False)"

definition binary_opcodes :: "Opcode list" where
  "binary_opcodes = [OAdd, OFAdd, OSub, OFSub, OMul, OFMul, OUDiv, OSDiv, OURem, OSRem, OFDiv, OFRem,
     OShl, OLShr, OAShr, OAnd, OOr, OXor]"

definition cast_opcodes :: "Opcode list" where
  "cast_opcodes = [OTrunc, OZExt, OSExt, OFPToUI, OFPToSI, OUIToFP, OSIToFP, OFPTrunc, OFPExt, OPtrToInt, OIntToPtr, OBitCast, OAddrSpaceCast]"

end
