(* ===== verification/PostDominance.thy ===== *)
theory PostDominance
  imports LlvmFunction
begin

text \<open>
  The post-dominance frontier (\<open>instrument/src/PostDominanceFrontier.cpp\<close>) and the controlling block of
  a block (\<open>instrument/src/analysis/ControlDependence.cpp\<close>). The tree of post-dominators is LLVM's, so it
  is an argument; its virtual root has no block.
\<close>

datatype DomTree = DomNode (node_block: "Block option") (node_children: "DomTree list")

fun tree_blocks :: "DomTree \<Rightarrow> Block list" where
  "tree_blocks (DomNode b cs) = (case b of None \<Rightarrow> [] | Some x \<Rightarrow> [x]) @ concat (map tree_blocks cs)"

text \<open>The blocks a node properly dominates, and the blocks whose immediate dominator it is.\<close>

definition blocks_below :: "DomTree \<Rightarrow> Block list" where
  "blocks_below t = concat (map tree_blocks (node_children t))"

definition child_blocks :: "DomTree \<Rightarrow> Block list" where
  "child_blocks t = List.map_filter node_block (node_children t)"

section \<open>The frontier\<close>

type_synonym Frontiers = "Block option \<rightharpoonup> Block list"

text \<open>A set of blocks is a sorted list; predecessors that are not in the tree have no node.\<close>

definition add_local :: "Block list \<Rightarrow> DomTree \<Rightarrow> Block \<Rightarrow> Block list \<Rightarrow> Block list" where
  "add_local nodes t p s = (if p \<in> set nodes \<and> p \<notin> set (child_blocks t) then insort_insert p s else s)"

definition add_up :: "DomTree \<Rightarrow> Block \<Rightarrow> Block list \<Rightarrow> Block list" where
  "add_up t p s = (if p \<notin> set (blocks_below t) then insort_insert p s else s)"

definition local_frontier :: "LlvmFunction \<Rightarrow> Block list \<Rightarrow> DomTree \<Rightarrow> Block list \<Rightarrow> Block list" where
  "local_frontier F nodes t s =
     (case node_block t of None \<Rightarrow> s | Some b \<Rightarrow> fold (add_local nodes t) (bb_preds F b) s)"

fun calculate :: "LlvmFunction \<Rightarrow> Block list \<Rightarrow> DomTree \<Rightarrow> Frontiers \<Rightarrow> Block list \<times> Frontiers"
  and calculate_children :: "LlvmFunction \<Rightarrow> Block list \<Rightarrow> DomTree \<Rightarrow> DomTree list \<Rightarrow> Block list \<Rightarrow> Frontiers \<Rightarrow> Block list \<times> Frontiers" where
  "calculate F nodes (DomNode b cs) fr =
     (let s = local_frontier F nodes (DomNode b cs) (case fr b of None \<Rightarrow> [] | Some s \<Rightarrow> s);
          (s, fr) = calculate_children F nodes (DomNode b cs) cs s (fr(b \<mapsto> s))
      in (s, fr(b \<mapsto> s)))"
| "calculate_children F nodes t [] s fr = (s, fr)"
| "calculate_children F nodes t (c # cs) s fr =
     (let (child, fr) = calculate F nodes c fr in calculate_children F nodes t cs (fold (add_up t) child s) fr)"

text \<open>\<open>runOnFunction\<close>: \<open>roots\<close> and the root node come from the tree; without roots the frontier stays empty.\<close>

definition PostDominanceFrontier_run :: "LlvmFunction \<Rightarrow> Block list \<Rightarrow> DomTree option \<Rightarrow> Frontiers" where
  "PostDominanceFrontier_run F roots root =
     (case root of None \<Rightarrow> Map.empty
      | Some t \<Rightarrow> (if roots = [] then [node_block t \<mapsto> []] else snd (calculate F (tree_blocks t) t Map.empty)))"

section \<open>The controlling block\<close>

definition getControllingBlock :: "LlvmFunction \<Rightarrow> Frontiers \<Rightarrow> Block \<Rightarrow> bool \<Rightarrow> Block option" where
  "getControllingBlock F pdf blk consider_self =
     (case pdf (Some blk) of None \<Rightarrow> None
      | Some s \<Rightarrow>
         (case find (\<lambda>c. (consider_self \<or> c \<noteq> blk) \<and> dominates F c blk) s of
            None \<Rightarrow> None
          | Some c \<Rightarrow> if isa_op [OInvoke] F (bb_terminator F c) then None else Some c))"

text \<open>The condition of a conditional branch or of a switch; \<open>None\<close> is null.\<close>

definition getControllingCondition :: "LlvmFunction \<Rightarrow> Block \<Rightarrow> Value option" where
  "getControllingCondition F bb =
     (let term = bb_terminator F bb in
      if isa_op [OBr] F term \<and> br_condition F term \<noteq> None then br_condition F term
      else if isa_op [OSwitch] F term then br_condition F term else None)"

section \<open>What the frontier is\<close>

lemma set_fold_local: "set (fold (add_local nodes t) ps s)
   = set s \<union> {p \<in> set ps. p \<in> set nodes \<and> p \<notin> set (child_blocks t)}"
  by (induction ps arbitrary: s) (auto simp: add_local_def set_insort_insert)

lemma set_fold_up: "set (fold (add_up t) ps s) = set s \<union> {p \<in> set ps. p \<notin> set (blocks_below t)}"
  by (induction ps arbitrary: s) (auto simp: add_up_def set_insort_insert)

lemma sorted_fold_local: "sorted s \<Longrightarrow> sorted (fold (add_local nodes t) ps s)"
  by (induction ps arbitrary: s) (simp_all add: add_local_def sorted_insort_insert)

lemma sorted_fold_up: "sorted s \<Longrightarrow> sorted (fold (add_up t) ps s)"
  by (induction ps arbitrary: s) (simp_all add: add_up_def sorted_insort_insert)

text \<open>The nodes of a tree, and the blocks below a node by the nodes they are children of.\<close>

fun subtrees :: "DomTree \<Rightarrow> DomTree list" where
  "subtrees (DomNode b cs) = DomNode b cs # concat (map subtrees cs)"

lemma subtrees_node: "subtrees t = t # concat (map subtrees (node_children t))"
  by (cases t) simp

lemma subtrees_self [simp]: "t \<in> set (subtrees t)"
  by (cases t) simp

lemma subtrees_trans: "u \<in> set (subtrees t) \<Longrightarrow> t \<in> set (subtrees r) \<Longrightarrow> u \<in> set (subtrees r)"
  by (induction r rule: subtrees.induct) auto

lemma subtrees_child: "c \<in> set (node_children t) \<Longrightarrow> c \<in> set (subtrees t)"
  unfolding subtrees_node [of t] using subtrees_self [of c] by (simp only: set_simps set_concat set_map) blast

lemma tree_blocks_node: "tree_blocks t = (case node_block t of None \<Rightarrow> [] | Some x \<Rightarrow> [x]) @ blocks_below t"
  by (cases t) (simp add: blocks_below_def)

lemma tree_blocks_subtrees: "x \<in> set (tree_blocks t) \<longleftrightarrow> Some x \<in> node_block ` set (subtrees t)"
proof (induction t rule: tree_blocks.induct)
  case (1 b cs)
  have "x \<in> set (tree_blocks (DomNode b cs)) \<longleftrightarrow> b = Some x \<or> (\<exists>c \<in> set cs. x \<in> set (tree_blocks c))"
    by (cases b) auto
  also have "\<dots> \<longleftrightarrow> b = Some x \<or> (\<exists>c \<in> set cs. Some x \<in> node_block ` set (subtrees c))"
    using "1.IH" by (auto simp del: image_iff)
  finally show ?case by (auto simp: image_iff)
qed

lemma child_blocks_iff: "x \<in> set (child_blocks t) \<longleftrightarrow> (\<exists>c \<in> set (node_children t). node_block c = Some x)"
  by (force simp: child_blocks_def map_filter_def image_iff)

lemma blocks_below_iff: "x \<in> set (blocks_below t) \<longleftrightarrow> (\<exists>c \<in> set (node_children t). x \<in> set (tree_blocks c))"
  by (simp add: blocks_below_def)

lemma child_blocks_below: "set (child_blocks t) \<subseteq> set (blocks_below t)"
proof
  fix x assume "x \<in> set (child_blocks t)"
  then obtain c where "c \<in> set (node_children t)" "node_block c = Some x" unfolding child_blocks_iff by blast
  moreover from this(2) have "x \<in> set (tree_blocks c)" unfolding tree_blocks_node [of c] by simp
  ultimately show "x \<in> set (blocks_below t)" unfolding blocks_below_iff by blast
qed

lemma blocks_below_child: "c \<in> set (node_children t) \<Longrightarrow> set (blocks_below c) \<subseteq> set (blocks_below t)"
proof
  fix x assume c: "c \<in> set (node_children t)" and "x \<in> set (blocks_below c)"
  then have "x \<in> set (tree_blocks c)" unfolding tree_blocks_node [of c] by simp
  with c show "x \<in> set (blocks_below t)" unfolding blocks_below_iff by blast
qed

lemma tree_blocks_parent:
  "x \<in> set (tree_blocks t) \<Longrightarrow> node_block t = Some x \<or> (\<exists>u \<in> set (subtrees t). x \<in> set (child_blocks u))"
proof (induction t rule: tree_blocks.induct)
  case (1 b cs)
  show ?case
  proof (cases "b = Some x")
    case False
    then obtain c where c: "c \<in> set cs" "x \<in> set (tree_blocks c)" using "1.prems" by (cases b) auto
    from "1.IH" [OF c] show ?thesis
    proof
      assume "node_block c = Some x"
      with c have "x \<in> set (child_blocks (DomNode b cs))" by (auto simp: child_blocks_iff)
      then show ?thesis by (meson subtrees_self)
    next
      assume "\<exists>u \<in> set (subtrees c). x \<in> set (child_blocks u)"
      with c show ?thesis by auto
    qed
  qed simp
qed

section \<open>The frontier by its definition\<close>

text \<open>
  The laws of LLVM's tree: no block has two nodes, and the immediate post-dominator of a predecessor of a
  block post-dominates the block.
\<close>

definition post_dominator_tree :: "LlvmFunction \<Rightarrow> DomTree \<Rightarrow> bool" where
  "post_dominator_tree F root \<longleftrightarrow> distinct (map node_block (subtrees root))
     \<and> (\<forall>u \<in> set (subtrees root). \<forall>p \<in> set (child_blocks u). \<forall>b \<in> set (tree_blocks root).
          p \<in> set (bb_preds F b) \<longrightarrow> b \<in> set (tree_blocks u))"

text \<open>The blocks with an edge to a block that the node post-dominates, which it does not properly post-dominate.\<close>

definition frontier :: "LlvmFunction \<Rightarrow> DomTree \<Rightarrow> DomTree \<Rightarrow> Block set" where
  "frontier F root t = {p. p \<in> set (tree_blocks root) \<and> p \<notin> set (blocks_below t)
     \<and> (\<exists>b \<in> set (tree_blocks t). p \<in> set (bb_preds F b))}"

lemma distinct_subtree:
  "distinct (map node_block (subtrees r)) \<Longrightarrow> t \<in> set (subtrees r) \<Longrightarrow> distinct (map node_block (subtrees t))"
proof (induction r rule: subtrees.induct)
  case (1 b cs)
  show ?case
  proof (cases "t = DomNode b cs")
    case False
    then obtain c where c: "c \<in> set cs" "t \<in> set (subtrees c)" using "1.prems" by auto
    have "distinct (concat (map (\<lambda>c. map node_block (subtrees c)) cs))"
      using "1.prems"(1) by (simp add: map_concat comp_def)
    then have "distinct (map node_block (subtrees c))" using c(1) by (induction cs) auto
    then show ?thesis using "1.IH" [OF c(1)] c(2) by blast
  qed (use "1.prems" in simp)
qed

text \<open>A node's own block is not below it.\<close>

lemma own_block_not_below:
  assumes "distinct (map node_block (subtrees t))" "u \<in> set (subtrees c)" "c \<in> set (node_children t)" "node_block t = Some b"
  shows "b \<notin> set (tree_blocks u)"
proof
  assume "b \<in> set (tree_blocks u)"
  then have "Some b \<in> node_block ` set (subtrees u)" by (simp add: tree_blocks_subtrees)
  then have "Some b \<in> node_block ` set (subtrees c)" using subtrees_trans assms(2) by blast
  then show False using assms(1,3,4) by (auto simp: subtrees_node [of t])
qed

text \<open>For a predecessor of the node's own block, not being a child is the same as not being below.\<close>

lemma local_not_child:
  assumes "post_dominator_tree F root" "t \<in> set (subtrees root)" "node_block t = Some b" "p \<in> set (bb_preds F b)"
  shows "p \<in> set (child_blocks t) \<longleftrightarrow> p \<in> set (blocks_below t)"
proof
  assume "p \<in> set (blocks_below t)"
  then obtain c where c: "c \<in> set (node_children t)" "p \<in> set (tree_blocks c)" by (auto simp: blocks_below_iff)
  from tree_blocks_parent [OF c(2)] show "p \<in> set (child_blocks t)"
  proof
    assume "node_block c = Some p"
    with c show ?thesis by (auto simp: child_blocks_iff)
  next
    assume "\<exists>u \<in> set (subtrees c). p \<in> set (child_blocks u)"
    then obtain u where u: "u \<in> set (subtrees c)" "p \<in> set (child_blocks u)" by blast
    have "u \<in> set (subtrees root)" by (meson u(1) c(1) assms(2) subtrees_child subtrees_trans)
    moreover have "b \<in> set (tree_blocks root)" using assms(2,3) by (force simp: tree_blocks_subtrees)
    ultimately have "b \<in> set (tree_blocks u)" using assms(1,4) u(2) unfolding post_dominator_tree_def by blast
    moreover have "distinct (map node_block (subtrees t))"
      using assms(1,2) distinct_subtree unfolding post_dominator_tree_def by blast
    ultimately show ?thesis using own_block_not_below u(1) c(1) assms(3) by blast
  qed
qed (use child_blocks_below in blast)

lemma frontier_step:
  assumes "post_dominator_tree F root" "t \<in> set (subtrees root)"
  shows "frontier F root t = set (local_frontier F (tree_blocks root) t [])
     \<union> (\<Union>c \<in> set (node_children t). {p \<in> frontier F root c. p \<notin> set (blocks_below t)})"
proof -
  have own: "set (local_frontier F (tree_blocks root) t []) =
      {p. p \<in> set (tree_blocks root) \<and> p \<notin> set (blocks_below t) \<and> (\<exists>b. node_block t = Some b \<and> p \<in> set (bb_preds F b))}"
    by (cases "node_block t") (auto simp: local_frontier_def set_fold_local local_not_child [OF assms])
  have down: "{p \<in> frontier F root c. p \<notin> set (blocks_below t)} =
      {p. p \<in> set (tree_blocks root) \<and> p \<notin> set (blocks_below t) \<and> (\<exists>b \<in> set (tree_blocks c). p \<in> set (bb_preds F b))}"
    if "c \<in> set (node_children t)" for c
    using blocks_below_child [OF that] by (auto simp: frontier_def)
  have split: "(\<exists>b \<in> set (tree_blocks t). p \<in> set (bb_preds F b)) \<longleftrightarrow>
      (\<exists>b. node_block t = Some b \<and> p \<in> set (bb_preds F b))
      \<or> (\<exists>c \<in> set (node_children t). \<exists>b \<in> set (tree_blocks c). p \<in> set (bb_preds F b))" for p
  proof -
    have "set (tree_blocks t) = {b. node_block t = Some b} \<union> (\<Union>c \<in> set (node_children t). set (tree_blocks c))"
      unfolding tree_blocks_node [of t] by (cases "node_block t") (auto simp: blocks_below_iff)
    then show ?thesis by blast
  qed
  show ?thesis unfolding own frontier_def [of F root t] split using down by auto
qed

section \<open>The algorithm computes it\<close>

definition recorded :: "LlvmFunction \<Rightarrow> DomTree \<Rightarrow> Frontiers \<Rightarrow> DomTree \<Rightarrow> bool" where
  "recorded F root fr u \<longleftrightarrow> (\<exists>l. fr (node_block u) = Some l \<and> sorted l \<and> set l = frontier F root u)"

definition nodes_of :: "DomTree list \<Rightarrow> DomTree list" where
  "nodes_of cs = concat (map subtrees cs)"

definition calculated :: "LlvmFunction \<Rightarrow> DomTree \<Rightarrow> DomTree list \<Rightarrow> Frontiers \<Rightarrow> Frontiers \<Rightarrow> bool" where
  "calculated F root us fr fr' \<longleftrightarrow> (\<forall>u \<in> set us. recorded F root fr' u)
     \<and> (\<forall>k. k \<notin> node_block ` set us \<longrightarrow> fr' k = fr k)"

definition calculates :: "LlvmFunction \<Rightarrow> DomTree \<Rightarrow> DomTree \<Rightarrow> bool" where
  "calculates F root t \<longleftrightarrow> (\<forall>fr. (\<forall>u \<in> set (subtrees t). fr (node_block u) = None) \<longrightarrow>
     (\<exists>s fr'. calculate F (tree_blocks root) t fr = (s, fr') \<and> set s = frontier F root t \<and> sorted s
        \<and> calculated F root (subtrees t) fr fr'))"

lemma calculated_append:
  assumes "calculated F root us fr fr1" "calculated F root vs fr1 fr2" "distinct (map node_block (us @ vs))"
  shows "calculated F root (us @ vs) fr fr2"
proof -
  have "recorded F root fr2 u" if "u \<in> set us" for u
  proof -
    have "node_block u \<notin> node_block ` set vs" using assms(3) that by auto
    then have "fr2 (node_block u) = fr1 (node_block u)" using assms(2) unfolding calculated_def by blast
    then show ?thesis using assms(1) that unfolding calculated_def recorded_def by simp
  qed
  then show ?thesis using assms(1,2) unfolding calculated_def by (auto simp: image_Un)
qed

lemma calculate_children_frontier:
  assumes "\<forall>c \<in> set cs. calculates F root c" "distinct (map node_block (nodes_of cs))"
    and "\<forall>u \<in> set (nodes_of cs). fr (node_block u) = None" "sorted s"
  shows "\<exists>s' fr'. calculate_children F (tree_blocks root) t cs s fr = (s', fr') \<and> sorted s'
     \<and> set s' = set s \<union> (\<Union>c \<in> set cs. {p \<in> frontier F root c. p \<notin> set (blocks_below t)})
     \<and> calculated F root (nodes_of cs) fr fr'"
  using assms
proof (induction cs arbitrary: s fr)
  case Nil
  then show ?case by (simp add: nodes_of_def calculated_def)
next
  case (Cons c cs)
  have n: "nodes_of (c # cs) = subtrees c @ nodes_of cs" by (simp add: nodes_of_def)
  have "\<forall>u \<in> set (subtrees c). fr (node_block u) = None" using Cons.prems(3) by (simp add: n)
  then obtain l fr1 where l: "calculate F (tree_blocks root) c fr = (l, fr1)" "set l = frontier F root c"
    "calculated F root (subtrees c) fr fr1"
    using Cons.prems(1) unfolding calculates_def by (meson list.set_intros(1))
  have dist: "distinct (map node_block (subtrees c @ nodes_of cs))" using Cons.prems(2) by (simp add: n)
  have fresh: "\<forall>u \<in> set (nodes_of cs). fr1 (node_block u) = None"
  proof
    fix u assume u: "u \<in> set (nodes_of cs)"
    then have "node_block u \<notin> node_block ` set (subtrees c)" using dist by auto
    then have "fr1 (node_block u) = fr (node_block u)" using l(3) unfolding calculated_def by blast
    then show "fr1 (node_block u) = None" using Cons.prems(3) u by (simp add: n)
  qed
  have d2: "distinct (map node_block (nodes_of cs))" using dist by simp
  have "\<forall>c \<in> set cs. calculates F root c" using Cons.prems(1) by simp
  from Cons.IH [OF this d2 fresh sorted_fold_up [OF Cons.prems(4), of t l]]
  obtain s' fr' where s': "calculate_children F (tree_blocks root) t cs (fold (add_up t) l s) fr1 = (s', fr')"
    "sorted s'" "set s' = set (fold (add_up t) l s) \<union> (\<Union>c \<in> set cs. {p \<in> frontier F root c. p \<notin> set (blocks_below t)})"
    "calculated F root (nodes_of cs) fr1 fr'" by blast
  have "calculate_children F (tree_blocks root) t (c # cs) s fr = (s', fr')" by (simp add: l(1) s'(1))
  moreover have "set s' = set s \<union> (\<Union>c \<in> set (c # cs). {p \<in> frontier F root c. p \<notin> set (blocks_below t)})"
    unfolding s'(3) set_fold_up l(2) by auto
  moreover have "calculated F root (nodes_of (c # cs)) fr fr'"
    unfolding n by (rule calculated_append [OF l(3) s'(4) dist])
  ultimately show ?case using s'(2) by blast
qed

lemma calculate_frontier:
  assumes "post_dominator_tree F root" "t \<in> set (subtrees root)"
  shows "calculates F root t"
  using assms(2)
proof (induction t rule: subtrees.induct)
  case (1 b cs)
  let ?t = "DomNode b cs"
  have dist: "distinct (map node_block (subtrees ?t))"
    using assms(1) "1.prems" distinct_subtree unfolding post_dominator_tree_def by blast
  have sub: "subtrees ?t = ?t # nodes_of cs" by (simp add: nodes_of_def)
  have ih: "\<forall>c \<in> set cs. calculates F root c"
  proof
    fix c assume c: "c \<in> set cs"
    then have "c \<in> set (subtrees ?t)" using subtrees_child [of c ?t] by simp
    then show "calculates F root c" using "1.IH" [OF c] subtrees_trans "1.prems" by blast
  qed
  show ?case unfolding calculates_def
  proof (intro allI impI)
    fix fr :: Frontiers
    assume fresh: "\<forall>u \<in> set (subtrees ?t). fr (node_block u) = None"
    let ?s = "local_frontier F (tree_blocks root) ?t []"
    have d: "distinct (map node_block (nodes_of cs))" "b \<notin> node_block ` set (nodes_of cs)"
      using dist unfolding sub by simp_all
    have "\<forall>u \<in> set (nodes_of cs). (fr(b \<mapsto> ?s)) (node_block u) = None"
      using fresh d(2) by (auto simp del: subtrees.simps simp add: sub)
    moreover have "sorted ?s" by (cases b) (simp_all add: local_frontier_def sorted_fold_local)
    ultimately obtain s' fr' where s': "calculate_children F (tree_blocks root) ?t cs ?s (fr(b \<mapsto> ?s)) = (s', fr')"
      "sorted s'" "set s' = set ?s \<union> (\<Union>c \<in> set cs. {p \<in> frontier F root c. p \<notin> set (blocks_below ?t)})"
      "calculated F root (nodes_of cs) (fr(b \<mapsto> ?s)) fr'"
      using calculate_children_frontier [OF ih d(1)] by blast
    have res: "calculate F (tree_blocks root) ?t fr = (s', fr'(b \<mapsto> s'))"
      using fresh s'(1) by (simp add: sub Let_def)
    have set: "set s' = frontier F root ?t"
      using frontier_step [OF assms(1) "1.prems"] s'(3) by simp
    have "recorded F root (fr'(b \<mapsto> s')) u" if "u \<in> set (nodes_of cs)" for u
    proof -
      have "node_block u \<noteq> b" using d(2) that by auto
      then show ?thesis using s'(4) that unfolding calculated_def recorded_def by simp
    qed
    moreover have "recorded F root (fr'(b \<mapsto> s')) ?t" using set s'(2) unfolding recorded_def by simp
    ultimately have "calculated F root (subtrees ?t) fr (fr'(b \<mapsto> s'))"
      using s'(4) unfolding calculated_def sub by auto
    then show "\<exists>s fr'. calculate F (tree_blocks root) ?t fr = (s, fr') \<and> set s = frontier F root ?t \<and> sorted s
        \<and> calculated F root (subtrees ?t) fr fr'"
      using res set s'(2) by blast
  qed
qed

text \<open>
  C12. The pass computes the post-dominance frontier: for every node of LLVM's tree of post-dominators the
  set it stores is the set of the blocks with an edge into the part the node post-dominates, but not
  themselves properly post-dominated by it, whatever the shape of the control flow.
\<close>

theorem frontier_correct:
  assumes "post_dominator_tree F root" "roots \<noteq> []" "t \<in> set (subtrees root)"
  shows "\<exists>s. PostDominanceFrontier_run F roots (Some root) (node_block t) = Some s \<and> sorted s
     \<and> set s = frontier F root t"
proof -
  obtain s fr where "calculate F (tree_blocks root) root Map.empty = (s, fr)"
    "calculated F root (subtrees root) Map.empty fr"
    using calculate_frontier [OF assms(1) subtrees_self, unfolded calculates_def, THEN spec [where x = "\<lambda>_. None"]]
    by auto
  then show ?thesis using assms(2,3)
    by (simp add: PostDominanceFrontier_run_def calculated_def recorded_def)
qed

text \<open>A loop with a conditional body: 1 is the entry, 2 the header, 3 branches to 4 and 5, and 5 goes back to 2; 6 is the exit.\<close>

definition sample_cfg :: LlvmFunction where
  "sample_cfg = \<lparr>val_kind = (\<lambda>v. if v < 10 then VInstruction OICmp else VInstruction OBr), val_operands = (\<lambda>v. []),
     val_uses = (\<lambda>v. []), val_block = (\<lambda>v. v mod 10), phi_blocks = (\<lambda>v. []), fun_blocks = [1, 2, 3, 4, 5, 6],
     fun_globals = [], bb_insts = (\<lambda>b. [b, 10 + b]), bb_terminator = (\<lambda>b. 10 + b),
     bb_preds = (\<lambda>b. if b = 2 then [1, 5] else if b = 3 then [2] else if b = 4 then [3] else if b = 5 then [3, 4]
        else if b = 6 then [2] else []),
     bb_succs = (\<lambda>b. if b = 1 then [2] else if b = 2 then [3, 6] else if b = 3 then [4, 5] else if b = 4 then [5]
        else if b = 5 then [2] else []),
     bb_landing_pad = (\<lambda>b. False), br_condition = (\<lambda>v. if v = 12 then Some 2 else if v = 13 then Some 3 else None),
     loop_of = (\<lambda>b. None), top_loops = [], dom_idom = (\<lambda>b. if b = 1 then None else Some (if b = 6 then 2 else if b = 5 then 3 else b - 1)),
     dominates = (\<lambda>a b. (a, b) \<in> {(1, 2), (1, 3), (1, 4), (1, 5), (1, 6), (2, 3), (2, 4), (2, 5), (2, 6), (3, 4), (3, 5)} \<or> a = b),
     common_dominator = (\<lambda>a b. None),
     val_type = (\<lambda>v. TInt 32), constant_int = (\<lambda>v. False), fun_name = Some ''f'', fun_args = [], fun_returns = TInt 32,
     fun_entry = 1, called_function = (\<lambda>v. None), call_args = (\<lambda>v. []), call_site_id = (\<lambda>v i. i),
     cast_function = (\<lambda>v. None), pointee_type = (\<lambda>v. TInt 8)\<rparr>"

definition sample_tree :: DomTree where
  "sample_tree = DomNode (Some 6) [DomNode (Some 2) [DomNode (Some 1) [], DomNode (Some 5) [DomNode (Some 3) [], DomNode (Some 4) []]]]"

lemma sample_tree_laws: "post_dominator_tree sample_cfg sample_tree"
  by (simp add: post_dominator_tree_def sample_tree_def sample_cfg_def child_blocks_def List.map_filter_simps)

theorem frontier_correct_witness:
  "\<exists>s. PostDominanceFrontier_run sample_cfg [6] (Some sample_tree) (Some 5) = Some s \<and> sorted s
     \<and> set s = frontier sample_cfg sample_tree (DomNode (Some 5) [DomNode (Some 3) [], DomNode (Some 4) []])"
proof -
  have "DomNode (Some 5) [DomNode (Some 3) [], DomNode (Some 4) []] \<in> set (subtrees sample_tree)"
    by (simp add: sample_tree_def)
  from frontier_correct [OF sample_tree_laws _ this, of "[6]"] show ?thesis by simp
qed

section \<open>Control dependence\<close>

lemma controlling_block_in_frontier:
  "getControllingBlock F pdf blk cs = Some c \<Longrightarrow>
     \<exists>s. pdf (Some blk) = Some s \<and> c \<in> set s \<and> dominates F c blk \<and> (cs \<or> c \<noteq> blk)"
  by (auto simp: getControllingBlock_def find_Some_iff in_set_conv_nth split: option.splits if_splits)

end
