(* ===== verification/LoopVariables.thy ===== *)
theory LoopVariables
  imports LlvmFunction
begin

text \<open>
  The induction and reduction variables of a function (\<open>instrument/src/analysis/InductionVariables.cpp\<close>,
  \<open>ReductionVars.cpp\<close>). A set of instructions is a list; the passes only test membership.
\<close>

section \<open>Induction variables\<close>

text \<open>Of the two incoming values of the phi the one that comes from inside the loop.\<close>

definition getCanonicalInductionVariableIncrement :: "LlvmFunction \<Rightarrow> Value \<Rightarrow> Loop \<Rightarrow> Value option" where
  "getCanonicalInductionVariableIncrement F ind_var loop = do {
     b \<leftarrow> rd (phi_blocks F ind_var) 1;
     let p1InLoop = (if b \<in> set (loop_blocks loop) then 1 else 0);
     v \<leftarrow> rd (val_operands F ind_var) p1InLoop;
     if is_instruction F v then Some v else None }"

fun gather :: "LlvmFunction \<Rightarrow> Loop \<Rightarrow> Value list \<times> Value list \<Rightarrow> (Value list \<times> Value list) option"
  and gather_all :: "LlvmFunction \<Rightarrow> Loop list \<Rightarrow> Value list \<times> Value list \<Rightarrow> (Value list \<times> Value list) option" where
  "gather F (Loop i h bs subs civ) s = do {
     (vars, incs) \<leftarrow> gather_all F subs s;
     (case civ of
        None \<Rightarrow> Some (vars, incs)
      | Some phi \<Rightarrow> do {
          inc \<leftarrow> getCanonicalInductionVariableIncrement F phi (Loop i h bs subs civ);
          Some (List.insert phi vars, List.insert inc incs) }) }"
| "gather_all F [] s = Some s"
| "gather_all F (l # ls) s = gather F l s \<bind> gather_all F ls"

definition InductionVariables :: "LlvmFunction \<Rightarrow> (Value list \<times> Value list) option" where
  "InductionVariables F = gather_all F (top_loops F) ([], [])"

section \<open>Reduction variables\<close>

definition isReductionOpType :: "LlvmFunction \<Rightarrow> Value \<Rightarrow> bool" where
  "isReductionOpType = isa_op [OAdd, OFAdd, OMul, OFMul]"

definition hasOneUse :: "LlvmFunction \<Rightarrow> Value \<Rightarrow> bool" where
  "hasOneUse F v \<longleftrightarrow> length (val_uses F v) = 1"

definition getNonPhiUsesInLoop :: "LlvmFunction \<Rightarrow> Loop \<Rightarrow> Value \<Rightarrow> Value list" where
  "getNonPhiUsesInLoop F loop v =
     filter (\<lambda>u. is_instruction F u \<and> \<not> isa_op [OPHI] F u \<and> map_option loop_id (loop_of F (val_block F u)) = Some (loop_id loop))
       (val_uses F v)"

text \<open>
  A variable in memory is reduced if its uses in the loop are a load and a store, the load is only used
  by a reduction operator and that is only stored. \<open>None\<close> is undefined behaviour, \<open>Some None\<close> is null.
\<close>

definition getReductionVarOp :: "LlvmFunction \<Rightarrow> Loop \<Rightarrow> Value \<Rightarrow> Value option option" where
  "getReductionVarOp F loop v =
     (let uses_in_loop = getNonPhiUsesInLoop F loop v in
      if length uses_in_loop = 2 \<and> isa_op [OLoad] F (uses_in_loop ! 1) \<and> isa_op [OStore] F (uses_in_loop ! 0)
         \<and> hasOneUse F (uses_in_loop ! 1)
      then (let load_user = hd (val_uses F (uses_in_loop ! 1)) in
        if \<not> is_instruction F load_user then None
        else if hasOneUse F load_user \<and> uses_in_loop ! 0 = hd (val_uses F load_user) \<and> isReductionOpType F load_user
        then Some (Some load_user) else Some None)
      else Some None)"

text \<open>The pointer operands of the address computations of a block, each with these, in the order of the map's keys.\<close>

fun add_gep :: "Value \<Rightarrow> Value \<Rightarrow> (Value \<times> Value list) list \<Rightarrow> (Value \<times> Value list) list" where
  "add_gep k g [] = [(k, [g])]"
| "add_gep k g ((k', gs) # m) =
     (if k < k' then (k, [g]) # (k', gs) # m else if k = k' then (k', gs @ [g]) # m else (k', gs) # add_gep k g m)"

definition ptr_val_to_geps :: "LlvmFunction \<Rightarrow> Block \<Rightarrow> (Value \<times> Value list) list" where
  "ptr_val_to_geps F bb =
     fold (\<lambda>g m. add_gep (hd (val_operands F g)) g m) (filter (isa_op [OGetElementPtr] F) (bb_insts F bb)) []"

definition add_op :: "Value option \<Rightarrow> Value list \<Rightarrow> Value list" where
  "add_op found ops = (case found of None \<Rightarrow> ops | Some v \<Rightarrow> List.insert v ops)"

fun scan_geps :: "LlvmFunction \<Rightarrow> Loop \<Rightarrow> (Value \<times> Value list) list \<Rightarrow> Value list \<Rightarrow> Value list option" where
  "scan_geps F loop [] ops = Some ops"
| "scan_geps F loop ((k, gs) # m) ops = do {
     found \<leftarrow> (if length gs = 1 then getReductionVarOp F loop (hd gs) else Some None);
     scan_geps F loop m (add_op found ops) }"

fun getArrayReductionVars :: "LlvmFunction \<Rightarrow> Loop \<Rightarrow> Block list \<Rightarrow> Value list \<Rightarrow> Value list option" where
  "getArrayReductionVars F loop [] ops = Some ops"
| "getArrayReductionVars F loop (bb # bbs) ops =
     scan_geps F loop (ptr_val_to_geps F bb) ops \<bind> getArrayReductionVars F loop bbs"

fun scan_globals :: "LlvmFunction \<Rightarrow> Loop \<Rightarrow> Value list \<Rightarrow> Value list \<Rightarrow> Value list option" where
  "scan_globals F loop [] ops = Some ops"
| "scan_globals F loop (g # gs) ops = do { found \<leftarrow> getReductionVarOp F loop g; scan_globals F loop gs (add_op found ops) }"

text \<open>A phi of the header other than the induction variable, used once in the loop, by a reduction operator.\<close>

definition scan_phi :: "LlvmFunction \<Rightarrow> Loop \<Rightarrow> Value \<Rightarrow> Value list \<Rightarrow> Value list" where
  "scan_phi F loop phi ops =
     (if loop_civ loop = Some phi then ops
      else (case getNonPhiUsesInLoop F loop phi of
              [u] \<Rightarrow> if isReductionOpType F u then List.insert u ops else ops
            | _ \<Rightarrow> ops))"

definition header_phis :: "LlvmFunction \<Rightarrow> Block \<Rightarrow> Value list" where
  "header_phis F bb = takeWhile (isa_op [OPHI] F) (bb_insts F bb)"

fun getReductionVars :: "LlvmFunction \<Rightarrow> Loop \<Rightarrow> Value list \<Rightarrow> Value list option"
  and getReductionVars_all :: "LlvmFunction \<Rightarrow> Loop list \<Rightarrow> Value list \<Rightarrow> Value list option" where
  "getReductionVars F (Loop i h bs subs civ) ops = do {
     let loop = Loop i h bs subs civ;
     ops \<leftarrow> getReductionVars_all F subs ops;
     ops \<leftarrow> (if subs = []
            then scan_globals F loop (fun_globals F) ops \<bind> getArrayReductionVars F loop bs
            else Some ops);
     Some (fold (scan_phi F loop) (header_phis F h) ops) }"
| "getReductionVars_all F [] ops = Some ops"
| "getReductionVars_all F (l # ls) ops = getReductionVars F l ops \<bind> getReductionVars_all F ls"

text \<open>The operators found so far are kept from one function to the next; a declaration has no blocks.\<close>

definition ReductionVars_run :: "LlvmFunction \<Rightarrow> Value list \<Rightarrow> Value list option" where
  "ReductionVars_run F ops = (if fun_blocks F = [] then Some ops else getReductionVars_all F (top_loops F) ops)"

end
