(* ===== verification/StaticTimestamps.thy ===== *)
theory StaticTimestamps
  imports PostDominance LoopVariables
begin

text \<open>
  The static part of the critical path (\<open>instrument/src/analysis/timestamp\<close>, \<open>ids/InstIds.cpp\<close>,
  \<open>TimestampPlacer.cpp\<close>, \<open>analysis/WorkAnalysis.cpp\<close>): when a value is available, as a maximum over other
  values' times plus constant offsets, and the calls of the runtime that compute it. \<open>None\<close> is a thrown
  exception, a failed assertion, a dereferenced null or a recursion that does not end.
\<close>

section \<open>Timestamps\<close>

text \<open>
  A timestamp is an ordered set of candidates, which are equal when their bases are: a list, ascending in
  the bases, of bases with their offsets.
\<close>

type_synonym TimestampCandidate = "Value \<times> UInt"
type_synonym StaticTimestamp = "TimestampCandidate list"

fun addCandidate :: "Value \<Rightarrow> UInt \<Rightarrow> StaticTimestamp \<Rightarrow> StaticTimestamp" where
  "addCandidate base_val time_offset [] = [(base_val, time_offset)]"
| "addCandidate base_val time_offset ((b, off) # cs) =
     (if base_val < b then (base_val, time_offset) # (b, off) # cs
      else if base_val = b then (if off \<ge> time_offset then (b, off) # cs else (base_val, time_offset) # cs)
      else (b, off) # addCandidate base_val time_offset cs)"

section \<open>Costs\<close>

record OpCosts =
  int_add_cost :: UInt
  int_sub_cost :: UInt
  int_mul_cost :: UInt
  int_div_cost :: UInt
  int_mod_cost :: UInt
  int_cmp_cost :: UInt
  fp_add_cost :: UInt
  fp_sub_cost :: UInt
  fp_mul_cost :: UInt
  fp_div_cost :: UInt
  fp_mod_cost :: UInt
  fp_cmp_cost :: UInt
  logic_op_cost :: UInt
  mem_load_cost :: UInt
  mem_store_cost :: UInt

definition default_costs :: OpCosts where
  "default_costs = \<lparr>int_add_cost = 1, int_sub_cost = 1, int_mul_cost = 2, int_div_cost = 10, int_mod_cost = 10,
     int_cmp_cost = 1, fp_add_cost = 2, fp_sub_cost = 2, fp_mul_cost = 5, fp_div_cost = 20, fp_mod_cost = 20,
     fp_cmp_cost = 2, logic_op_cost = 1, mem_load_cost = 4, mem_store_cost = 1\<rparr>"

fun opcode_cost :: "OpCosts \<Rightarrow> Opcode \<Rightarrow> UInt option" where
  "opcode_cost c OAdd = Some (int_add_cost c)"
| "opcode_cost c OFAdd = Some (fp_add_cost c)"
| "opcode_cost c OSub = Some (int_sub_cost c)"
| "opcode_cost c OFSub = Some (fp_sub_cost c)"
| "opcode_cost c OMul = Some (int_mul_cost c)"
| "opcode_cost c OFMul = Some (fp_mul_cost c)"
| "opcode_cost c OICmp = Some (int_cmp_cost c)"
| "opcode_cost c OFCmp = Some (fp_cmp_cost c)"
| "opcode_cost c OStore = Some (mem_store_cost c)"
| "opcode_cost c OLoad = Some (mem_load_cost c)"
| "opcode_cost c OAtomicRMW = Some (mem_load_cost c + mem_store_cost c + int_add_cost c)"
| "opcode_cost c (OOther n) = None"
| "opcode_cost c OAddrSpaceCast = None"
| "opcode_cost c oc =
     (if oc \<in> set [OUDiv, OSDiv, OURem, OSRem] then Some (int_div_cost c)
      else if oc \<in> set [OFDiv, OFRem] then Some (fp_div_cost c)
      else if oc \<in> set [OShl, OLShr, OAShr, OAnd, OOr, OXor] then Some (logic_op_cost c)
      else Some 0)"

text \<open>
  One function under instrumentation: LLVM's view of it, the costs, the operators of reductions, the
  induction variables with their increments, and the post-dominance frontiers.
\<close>

record PassEnv =
  fn :: LlvmFunction
  costs :: OpCosts
  reduction_ops :: "Value list"
  ind_vars :: "Value list"
  ind_incs :: "Value list"
  pdf :: Frontiers

definition isReductionVar :: "PassEnv \<Rightarrow> Value \<Rightarrow> bool" where
  "isReductionVar E v \<longleftrightarrow> v \<in> set (reduction_ops E)"

definition isInductionVariable :: "PassEnv \<Rightarrow> Value \<Rightarrow> bool" where
  "isInductionVariable E v \<longleftrightarrow> v \<in> set (ind_vars E)"

definition isInductionIncrement :: "PassEnv \<Rightarrow> Value \<Rightarrow> bool" where
  "isInductionIncrement E v \<longleftrightarrow> v \<in> set (ind_incs E)"

definition is_constant :: "PassEnv \<Rightarrow> Value \<Rightarrow> bool" where
  "is_constant E v \<longleftrightarrow> val_kind (fn E) v = VConstant"

text \<open>Operators on constants and the counting of canonical loops are free.\<close>

definition getWork :: "PassEnv \<Rightarrow> Value \<Rightarrow> UInt option" where
  "getWork E inst =
     (if isa_op binary_opcodes (fn E) inst \<and> is_constant E (val_operands (fn E) inst ! 0) \<and> is_constant E (val_operands (fn E) inst ! 1)
         \<or> isa_op [OPHI] (fn E) inst \<and> isInductionVariable E inst
         \<or> isInductionIncrement E inst
      then Some 0
      else opcode_of (fn E) inst \<bind> opcode_cost (costs E))"

section \<open>Classes of values and live-ins\<close>

text \<open>Two of the classes are never returned and have no handler.\<close>

datatype ValueClass = REDUCTION_VAR | INDUCTION_VAR | CONSTANT | CONSTANT_WORK_OP | LIVE_IN

definition classify :: "PassEnv \<Rightarrow> Value \<Rightarrow> ValueClass" where
  "classify E v =
     (if is_instruction (fn E) v \<and> isReductionVar E v then CONSTANT
      else if isa_op [OAlloca] (fn E) v \<or> val_kind (fn E) v = VArgument \<or> isa_op [OLoad, OPHI, OCall] (fn E) v then LIVE_IN
      else if isa_op (binary_opcodes @ cast_opcodes @ [OICmp, OFCmp, OSelect, OGetElementPtr, ORet, OStore]) (fn E) v
      then CONSTANT_WORK_OP
      else CONSTANT)"

text \<open>The operand comes from before the loop body the block is in; loops are compared by their identity.\<close>

definition same_loop :: "Loop \<Rightarrow> Loop \<Rightarrow> bool" where
  "same_loop l m \<longleftrightarrow> loop_id l = loop_id m"

definition isLiveInRegion :: "PassEnv \<Rightarrow> Block \<Rightarrow> Value \<Rightarrow> bool" where
  "isLiveInRegion E bb incoming =
     (case loop_of (fn E) bb of
        None \<Rightarrow> False
      | Some loop_bb \<Rightarrow>
         if \<not> is_instruction (fn E) incoming then False
         else (let bb_in = val_block (fn E) incoming in
           (case loop_of (fn E) bb_in of
              None \<Rightarrow> True
            | Some loop_in \<Rightarrow>
               if loop_header loop_in = bb_in \<and> same_loop loop_in loop_bb \<and> loop_header loop_bb \<noteq> bb then True
               else \<not> same_loop loop_in loop_bb)))"

section \<open>Identifiers and emitted calls\<close>

text \<open>
  The instructions the pass handles are the function's own and the ones it creates, which are numbered in
  the order of creation. Of an emitted call we keep the function of the runtime and the arguments. The
  \<open>direct_insts\<close> are created straight before an instruction, without the placer.
\<close>

datatype PInst = Orig Value | New nat

datatype KFunction =
    K_Timestamp | K_TimestampN nat | K_Store | K_StoreConst | K_Load | K_LoadN nat
  | K_ReturnConst | K_Return | K_DeqArg | K_EnqArg | K_EnqArgConst | K_LinkReturn | K_PrepCall
  | K_PushCDep | K_PopCDep | K_PrepRTable | K_Work | K_Induction | K_Phi | K_PhiNTo1 nat | K_PhiAddCond
  | K_Malloc | K_Realloc | K_Free

datatype KArg = Num UInt | Num64 UInt64 | OfInst PInst

datatype NewInst =
    KCall KFunction "KArg list"
  | PointerCast Value
  | IdPhi "(UInt \<times> Block) list"

record PassState =
  ts_memo :: "Value \<rightharpoonup> StaticTimestamp"
  placed :: "Value \<rightharpoonup> nat"
  new_insts :: "NewInst list"
  constraints :: "(PInst \<times> PInst) list"
  id_map :: "Value \<rightharpoonup> UInt"
  id_count :: UInt64
  direct_insts :: "(nat \<times> Value) list"

definition PassState_new :: PassState where
  "PassState_new = \<lparr>ts_memo = Map.empty, placed = Map.empty, new_insts = [], constraints = [], id_map = Map.empty, id_count = 1,
     direct_insts = []\<rparr>"

definition getId :: "Value \<Rightarrow> PassState \<Rightarrow> UInt \<times> PassState" where
  "getId v s =
     (case id_map s v of
        Some i \<Rightarrow> (i, s)
      | None \<Rightarrow> (ucast (id_count s), s\<lparr>id_map := (id_map s)(v \<mapsto> ucast (id_count s)), id_count := id_count s + 1\<rparr>))"

definition create :: "NewInst \<Rightarrow> PassState \<Rightarrow> nat \<times> PassState" where
  "create i s = (length (new_insts s), s\<lparr>new_insts := new_insts s @ [i]\<rparr>)"

definition constrainInstPlacement :: "PInst \<Rightarrow> PInst \<Rightarrow> PassState \<Rightarrow> PassState" where
  "constrainInstPlacement inst user s = s\<lparr>constraints := constraints s @ [(inst, user)]\<rparr>"

definition NUM_SPECIALIZED :: nat where
  "NUM_SPECIALIZED = 8"

fun push_candidates :: "StaticTimestamp \<Rightarrow> PassState \<Rightarrow> KArg list \<times> PassState" where
  "push_candidates [] s = ([], s)"
| "push_candidates ((b, off) # cs) s =
     (let (i, s) = getId b s; (args, s) = push_candidates cs s in (Num i # Num off # args, s))"

definition to_log_call :: "Value \<Rightarrow> StaticTimestamp \<Rightarrow> PassState \<Rightarrow> nat \<times> PassState" where
  "to_log_call inst ts s =
     (let (dest, s) = getId inst s;
          (srcs, s) = push_candidates ts s
      in create (if length ts < NUM_SPECIALIZED then KCall (K_TimestampN (length ts)) (Num dest # srcs)
                 else KCall K_Timestamp (Num dest # Num (of_nat (length ts)) # srcs)) s)"

section \<open>The analysis\<close>

text \<open>
  \<open>requireValTimestampBeforeUser\<close> is called by the analysis and calls it, so the analysis is an argument.
\<close>

type_synonym Analysis = "Value \<Rightarrow> PassState \<Rightarrow> (StaticTimestamp \<times> PassState) option"

definition requireVal :: "PassEnv \<Rightarrow> Analysis \<Rightarrow> Value \<Rightarrow> PInst \<Rightarrow> PassState \<Rightarrow> (nat \<times> PassState) option" where
  "requireVal E analysis value user s = do {
     (ci, s) \<leftarrow> (case placed s value of
        Some ci \<Rightarrow> Some (ci, s)
      | None \<Rightarrow> do {
          (ts, s) \<leftarrow> analysis value s;
          let (ci, s) = to_log_call value ts s;
          let s = s\<lparr>placed := (placed s)(value \<mapsto> ci)\<rparr>;
          Some (ci, if is_instruction (fn E) value
            then constrainInstPlacement (New ci) (Orig (bb_terminator (fn E) (val_block (fn E) value))) s else s) });
     Some (ci, constrainInstPlacement (New ci) user s) }"

definition shift_candidates :: "UInt \<Rightarrow> StaticTimestamp \<Rightarrow> StaticTimestamp \<Rightarrow> StaticTimestamp" where
  "shift_candidates work = fold (\<lambda>(b, off). addCandidate b (off + work))"

definition add_source :: "PassEnv \<Rightarrow> Analysis \<Rightarrow> Value \<Rightarrow> UInt \<Rightarrow> Value \<Rightarrow> StaticTimestamp \<times> PassState
    \<Rightarrow> (StaticTimestamp \<times> PassState) option" where
  "add_source E analysis inst work u = (\<lambda>(ts, s).
     if isLiveInRegion E (val_block (fn E) inst) u
     then do { (ci, s) \<leftarrow> requireVal E analysis u (Orig inst) s; Some (addCandidate u work ts, s) }
     else do { (us, s) \<leftarrow> analysis u s; Some (shift_candidates work us ts, s) })"

fun add_sources :: "PassEnv \<Rightarrow> Analysis \<Rightarrow> Value \<Rightarrow> UInt \<Rightarrow> Value list \<Rightarrow> StaticTimestamp \<times> PassState
    \<Rightarrow> (StaticTimestamp \<times> PassState) option" where
  "add_sources E analysis inst work [] st = Some st"
| "add_sources E analysis inst work (u # us) st =
     add_source E analysis inst work u st \<bind> add_sources E analysis inst work us"

text \<open>The condition that controls the instruction's block, if the block has a controller.\<close>

definition controlling_conditions :: "PassEnv \<Rightarrow> Value \<Rightarrow> Value list option" where
  "controlling_conditions E inst =
     (case getControllingBlock (fn E) (pdf E) (val_block (fn E) inst) False of
        None \<Rightarrow> Some []
      | Some cb \<Rightarrow> map_option (\<lambda>c. [c]) (getControllingCondition (fn E) cb))"

definition work_op_getTimestamp :: "PassEnv \<Rightarrow> Analysis \<Rightarrow> Analysis" where
  "work_op_getTimestamp E analysis inst s = do {
     work \<leftarrow> getWork E inst;
     st \<leftarrow> add_sources E analysis inst work (val_operands (fn E) inst) ([], s);
     conds \<leftarrow> controlling_conditions E inst;
     add_sources E analysis inst work conds st }"

fun getTimestamp :: "PassEnv \<Rightarrow> nat \<Rightarrow> Analysis" where
  "getTimestamp E 0 v s = None"
| "getTimestamp E (Suc n) v s =
     (case ts_memo s v of
        Some ts \<Rightarrow> Some (ts, s)
      | None \<Rightarrow> do {
          (ts, s) \<leftarrow> (case classify E v of
             REDUCTION_VAR \<Rightarrow> None
           | INDUCTION_VAR \<Rightarrow> None
           | CONSTANT \<Rightarrow> Some ([], s)
           | LIVE_IN \<Rightarrow> Some (addCandidate v 0 [], s)
           | CONSTANT_WORK_OP \<Rightarrow> work_op_getTimestamp E (getTimestamp E n) v s);
          Some (ts, s\<lparr>ts_memo := (ts_memo s)(v \<mapsto> ts)\<rparr>) })"

definition requireValTimestampBeforeUser :: "PassEnv \<Rightarrow> nat \<Rightarrow> Value \<Rightarrow> PInst \<Rightarrow> PassState \<Rightarrow> (nat \<times> PassState) option" where
  "requireValTimestampBeforeUser E n = requireVal E (getTimestamp E n)"

section \<open>The work of a block\<close>

fun sum_work :: "PassEnv \<Rightarrow> Value list \<Rightarrow> UInt64 option" where
  "sum_work E [] = Some 0"
| "sum_work E (i # is) = do { w \<leftarrow> getWork E i; r \<leftarrow> sum_work E is; Some (ucast w + r) }"

definition block_work :: "PassEnv \<Rightarrow> Block \<Rightarrow> UInt64 option" where
  "block_work E bb = sum_work E (bb_insts (fn E) bb)"

definition ends_in_resume :: "PassEnv \<Rightarrow> Block \<Rightarrow> bool" where
  "ends_in_resume E bb \<longleftrightarrow> isa_op [OResume] (fn E) (bb_terminator (fn E) bb)"

definition skip_block :: "PassEnv \<Rightarrow> Block \<Rightarrow> bool" where
  "skip_block E bb \<longleftrightarrow> bb_landing_pad (fn E) bb \<or> ends_in_resume E bb"

definition getFirstNonPHI :: "PassEnv \<Rightarrow> Block \<Rightarrow> Value option" where
  "getFirstNonPHI E bb = find (\<lambda>v. \<not> isa_op [OPHI] (fn E) v) (bb_insts (fn E) bb)"

definition work_handleBasicBlock :: "PassEnv \<Rightarrow> Block \<Rightarrow> PassState \<Rightarrow> PassState option" where
  "work_handleBasicBlock E bb s =
     (if skip_block E bb then Some s
      else do {
        work_in_bb \<leftarrow> block_work E bb;
        if work_in_bb = 0 then Some s
        else do {
          let (call, s) = create (KCall K_Work [Num (ucast work_in_bb)]) s;
          first \<leftarrow> getFirstNonPHI E bb;
          Some (constrainInstPlacement (New call) (Orig first) s) } })"

end
