(* ===== verification/StaticTimestampSpec.thy ===== *)
theory StaticTimestampSpec
  imports StaticTimestamps
begin

text \<open>
  What the static timestamps mean: the candidates of a value are the live-in values its computation
  depends on, each with the work on the longest path of dependences from it. The memo, the order of the
  recursion and the calls placed on the way do not matter.
\<close>

section \<open>Dependences\<close>

definition sources :: "PassEnv \<Rightarrow> Value \<Rightarrow> Value list" where
  "sources E v = val_operands (fn E) v @ (case controlling_conditions E v of None \<Rightarrow> [] | Some cs \<Rightarrow> cs)"

definition work_of :: "PassEnv \<Rightarrow> Value \<Rightarrow> nat" where
  "work_of E v = (case getWork E v of None \<Rightarrow> 0 | Some w \<Rightarrow> unat w)"

definition live_in_source :: "PassEnv \<Rightarrow> Value \<Rightarrow> Value \<Rightarrow> bool" where
  "live_in_source E v u \<longleftrightarrow> isLiveInRegion E (val_block (fn E) v) u"

text \<open>A path of dependences from a base to the value, with its work; it starts at a value that is not computed from others here, or at one from outside the loop.\<close>

inductive dep_path :: "PassEnv \<Rightarrow> Value \<Rightarrow> Value \<Rightarrow> nat \<Rightarrow> bool" for E where
  live_in: "classify E v = LIVE_IN \<Longrightarrow> dep_path E v v 0"
| from_outside: "classify E v = CONSTANT_WORK_OP \<Longrightarrow> u \<in> set (sources E v) \<Longrightarrow> live_in_source E v u
    \<Longrightarrow> dep_path E v u (work_of E v)"
| through: "classify E v = CONSTANT_WORK_OP \<Longrightarrow> u \<in> set (sources E v) \<Longrightarrow> \<not> live_in_source E v u
    \<Longrightarrow> dep_path E u b w \<Longrightarrow> dep_path E v b (w + work_of E v)"

inductive_simps dep_path_iff: "dep_path E v b w"

definition paths :: "PassEnv \<Rightarrow> Value \<Rightarrow> (Value \<times> nat) set" where
  "paths E v = {(b, w). dep_path E v b w}"

section \<open>Longest paths as candidates\<close>

text \<open>A timestamp covers a set of bases with weights if its entries are in the set and bound the others.\<close>

definition covers :: "StaticTimestamp \<Rightarrow> (Value \<times> nat) set \<Rightarrow> bool" where
  "covers ts P \<longleftrightarrow> sorted_wrt (<) (map fst ts) \<and> (\<forall>(b, off) \<in> set ts. (b, unat off) \<in> P)
     \<and> (\<forall>(b, w) \<in> P. \<exists>off. (b, off) \<in> set ts \<and> w \<le> unat off)"

lemma covers_Nil: "covers [] P \<longleftrightarrow> P = {}"
  by (auto simp: covers_def)

lemma addCandidate_bases: "set (map fst (addCandidate b off ts)) = insert b (set (map fst ts))"
  by (induction b off ts rule: addCandidate.induct) auto

lemma addCandidate_sorted: "sorted_wrt (<) (map fst ts) \<Longrightarrow> sorted_wrt (<) (map fst (addCandidate b off ts))"
proof (induction b off ts rule: addCandidate.induct)
  case (2 b off b' off' cs)
  have "\<forall>x \<in> set (map fst (addCandidate b off cs)). b' < x" if "b' < b"
    unfolding addCandidate_bases using 2(2) that by auto
  then show ?case using 2 by (auto simp: not_less)
qed simp

text \<open>The entry of the base is the greater of the two, the other entries stay.\<close>

lemma addCandidate_mem:
  "sorted_wrt (<) (map fst ts) \<Longrightarrow> (x, y) \<in> set (addCandidate b off ts) \<longleftrightarrow>
     (if x = b then (case map_of ts b of None \<Rightarrow> y = off | Some o' \<Rightarrow> y = max o' off) else (x, y) \<in> set ts)"
proof (induction b off ts rule: addCandidate.induct)
  case (2 b off b' off' cs)
  have gt: "b' < x" if "(x, y) \<in> set cs" for x y using 2(2) that by force
  have none: "map_of cs b = None" if "b \<le> b'"
    using gt that by (metis leD map_of_SomeD option.exhaust)
  consider "b < b'" | "b = b'" | "b' < b" by (rule linorder_cases)
  then show ?case
  proof cases
    case 1
    then show ?thesis using none gt by (auto dest: gt)
  next
    case 2
    then show ?thesis by (auto simp: max_def dest: gt)
  next
    case 3
    then have *: "addCandidate b off ((b', off') # cs) = (b', off') # addCandidate b off cs" by simp
    show ?thesis unfolding * using 3 2(1,2) by auto
  qed
qed auto

lemma distinct_entries: "sorted_wrt (<) (map fst ts) \<Longrightarrow> distinct (map fst (ts :: StaticTimestamp))"
  by (induction ts) auto

lemma sorted_entry: "sorted_wrt (<) (map fst ts) \<Longrightarrow> (b, off) \<in> set (ts :: StaticTimestamp) \<longleftrightarrow> map_of ts b = Some off"
  using map_of_eq_Some_iff [of ts b off] distinct_entries by blast

lemma covers_add:
  assumes "covers ts P"
  shows "covers (addCandidate b off ts) (insert (b, unat off) P)"
proof -
  have s: "sorted_wrt (<) (map fst ts)" using assms by (simp add: covers_def)
  have i: "\<forall>(x, y) \<in> set (addCandidate b off ts). (x, unat y) \<in> insert (b, unat off) P"
  proof (intro ballI, clarify)
    fix x y assume xy: "(x, y) \<in> set (addCandidate b off ts)" and n: "(x, unat y) \<notin> P"
    then show "x = b \<and> unat y = unat off"
      using assms unfolding addCandidate_mem [OF s] covers_def
      by (auto split: if_splits option.splits simp: max_def sorted_entry [OF s])
  qed
  have "\<exists>y. (x, y) \<in> set (addCandidate b off ts) \<and> w \<le> unat y" if "(x, w) \<in> insert (b, unat off) P" for x w
  proof (cases "x = b")
    case True
    then show ?thesis using that assms unfolding covers_def addCandidate_mem [OF s]
      by (cases "map_of ts b") (force simp: sorted_entry [OF s] max_def word_le_nat_alt)+
  next
    case False
    then show ?thesis using that assms unfolding covers_def addCandidate_mem [OF s] by auto
  qed
  with i addCandidate_sorted [OF s] show ?thesis unfolding covers_def by blast
qed

lemma covers_mono:
  assumes "covers ts P" "P \<subseteq> Q" "\<And>b w. (b, w) \<in> Q \<Longrightarrow> \<exists>w'. (b, w') \<in> P \<and> w \<le> w'"
  shows "covers ts Q"
proof -
  have "\<exists>off. (b, off) \<in> set ts \<and> w \<le> unat off" if q: "(b, w) \<in> Q" for b w
  proof -
    from assms(3) [OF q] obtain w' where w': "(b, w') \<in> P" "w \<le> w'" by blast
    then obtain off where "(b, off) \<in> set ts" "w' \<le> unat off" using assms(1) unfolding covers_def by blast
    with w'(2) show ?thesis using order_trans by blast
  qed
  then show ?thesis using assms(1,2) unfolding covers_def by blast
qed

lemma covers_shift_list:
  assumes "covers ts P" "\<forall>(b, off) \<in> set us. unat off + unat work < 2 ^ 32"
  shows "covers (shift_candidates work us ts) (P \<union> {(b, unat off + unat work) | b off. (b, off) \<in> set us})"
  using assms
proof (induction us arbitrary: ts P)
  case Nil
  then show ?case by (simp add: shift_candidates_def)
next
  case (Cons u us)
  obtain b off where u: "u = (b, off)" by (cases u)
  have "unat (off + work) = unat off + unat work" using Cons.prems(2) unat_add_lem [of off work] by (simp add: u)
  then have c: "covers (addCandidate b (off + work) ts) (insert (b, unat off + unat work) P)"
    using covers_add [OF Cons.prems(1), of b "off + work"] by simp
  have "\<forall>(b, off) \<in> set us. unat off + unat work < 2 ^ 32" using Cons.prems(2) by simp
  from Cons.IH [OF c this]
  have "covers (shift_candidates work us (addCandidate b (off + work) ts))
     (insert (b, unat off + unat work) P \<union> {(b, unat off + unat work) | b off. (b, off) \<in> set us})" .
  moreover have "shift_candidates work (u # us) ts = shift_candidates work us (addCandidate b (off + work) ts)"
    by (simp add: shift_candidates_def u)
  moreover have "insert (b, unat off + unat work) P \<union> {(b, unat off + unat work) | b off. (b, off) \<in> set us}
      = P \<union> {(b, unat off + unat work) | b off. (b, off) \<in> set (u # us)}"
    by (auto simp: u)
  ultimately show ?case by simp
qed

definition shifted :: "nat \<Rightarrow> (Value \<times> nat) set \<Rightarrow> (Value \<times> nat) set" where
  "shifted k Q = {(b, w + k) | b w. (b, w) \<in> Q}"

lemma covers_shift:
  assumes "covers ts P" "covers us Q" "\<forall>(b, w) \<in> Q. w + unat work < 2 ^ 32"
  shows "covers (shift_candidates work us ts) (P \<union> shifted (unat work) Q)"
proof (rule covers_mono [OF covers_shift_list [OF assms(1)]])
  have in_Q: "(b, unat off) \<in> Q" if "(b, off) \<in> set us" for b off using assms(2) that unfolding covers_def by blast
  show "\<forall>(b, off) \<in> set us. unat off + unat work < 2 ^ 32" using assms(3) in_Q by blast
  show "P \<union> {(b, unat off + unat work) | b off. (b, off) \<in> set us} \<subseteq> P \<union> shifted (unat work) Q"
    using in_Q unfolding shifted_def by blast
  fix b w assume "(b, w) \<in> P \<union> shifted (unat work) Q"
  then show "\<exists>w'. (b, w') \<in> P \<union> {(b, unat off + unat work) | b off. (b, off) \<in> set us} \<and> w \<le> w'"
  proof
    assume "(b, w) \<in> shifted (unat work) Q"
    then obtain v where v: "(b, v) \<in> Q" "w = v + unat work" unfolding shifted_def by blast
    then obtain off where "(b, off) \<in> set us" "v \<le> unat off" using assms(2) unfolding covers_def by blast
    with v(2) show ?thesis by (intro exI [of _ "unat off + unat work"]) auto
  qed blast
qed

section \<open>States of the pass\<close>

text \<open>The values with identifiers, in the order they got them: the \<open>k\<close>-th has the identifier \<open>k + 1\<close>.\<close>

definition numbered :: "Value list \<Rightarrow> PassState \<Rightarrow> bool" where
  "numbered vs s \<longleftrightarrow> distinct vs \<and> id_count s = of_nat (Suc (length vs)) \<and> dom (id_map s) = set vs
     \<and> (\<forall>k < length vs. id_map s (vs ! k) = Some (of_nat (Suc k)))"

definition num :: "PassState \<Rightarrow> Value \<Rightarrow> UInt" where
  "num s v = the (id_map s v)"

definition flat_ids :: "PassState \<Rightarrow> StaticTimestamp \<Rightarrow> KArg list" where
  "flat_ids s ts = concat (map (\<lambda>(b, off). [Num (num s b), Num off]) ts)"

definition stamp_call :: "PassState \<Rightarrow> Value \<Rightarrow> StaticTimestamp \<Rightarrow> NewInst" where
  "stamp_call s v ts =
     (if length ts < NUM_SPECIALIZED then KCall (K_TimestampN (length ts)) (Num (num s v) # flat_ids s ts)
      else KCall K_Timestamp (Num (num s v) # Num (of_nat (length ts)) # flat_ids s ts))"

text \<open>What an operation of the pass may change: identifiers, instructions and constraints are only added.\<close>

definition extends :: "PassState \<Rightarrow> PassState \<Rightarrow> bool" where
  "extends s s' \<longleftrightarrow> id_map s \<subseteq>\<^sub>m id_map s' \<and> (\<exists>l. new_insts s' = new_insts s @ l) \<and> (\<exists>l. constraints s' = constraints s @ l)"

definition call_ok :: "PassEnv \<Rightarrow> PassState \<Rightarrow> Value \<Rightarrow> nat \<Rightarrow> bool" where
  "call_ok E s v ci \<longleftrightarrow> (\<exists>ts. ci < length (new_insts s) \<and> new_insts s ! ci = stamp_call s v ts
     \<and> covers ts (paths E v) \<and> insert v (fst ` set ts) \<subseteq> dom (id_map s)
     \<and> (is_instruction (fn E) v \<longrightarrow> (New ci, Orig (bb_terminator (fn E) (val_block (fn E) v))) \<in> set (constraints s)))"

definition pass_inv :: "PassEnv \<Rightarrow> PassState \<Rightarrow> bool" where
  "pass_inv E s \<longleftrightarrow> (\<forall>v ts. ts_memo s v = Some ts \<longrightarrow> covers ts (paths E v)) \<and> (\<exists>vs. numbered vs s)
     \<and> (\<forall>v ci. placed s v = Some ci \<longrightarrow> call_ok E s v ci)"

lemma pass_inv_new: "pass_inv E PassState_new"
  by (simp add: pass_inv_def PassState_new_def numbered_def)

lemma extends_refl [simp]: "extends s s"
  by (simp add: extends_def)

lemma extends_trans [trans]: "extends a b \<Longrightarrow> extends b c \<Longrightarrow> extends a c"
  unfolding extends_def by (metis append.assoc map_le_trans)

lemma extends_num: "extends s s' \<Longrightarrow> v \<in> dom (id_map s) \<Longrightarrow> num s' v = num s v"
  by (auto simp: extends_def num_def map_le_def)

lemma extends_dom: "extends s s' \<Longrightarrow> dom (id_map s) \<subseteq> dom (id_map s')"
  unfolding extends_def using map_le_implies_dom_le by blast

lemma flat_ids_cong: "\<forall>b \<in> fst ` set ts. num s' b = num s b \<Longrightarrow> flat_ids s' ts = flat_ids s ts"
  by (induction ts) (auto simp: flat_ids_def)

lemma extends_stamp_call:
  assumes "extends s s'" "insert v (fst ` set ts) \<subseteq> dom (id_map s)"
  shows "stamp_call s' v ts = stamp_call s v ts"
proof -
  have "\<forall>b \<in> insert v (fst ` set ts). num s' b = num s b" using extends_num [OF assms(1)] assms(2) by blast
  then show ?thesis unfolding stamp_call_def using flat_ids_cong [of ts s' s] by simp
qed

lemma extends_call_ok: "extends s s' \<Longrightarrow> call_ok E s v ci \<Longrightarrow> call_ok E s' v ci"
proof -
  assume e: "extends s s'" and "call_ok E s v ci"
  then obtain ts where ts: "ci < length (new_insts s)" "new_insts s ! ci = stamp_call s v ts" "covers ts (paths E v)"
    "insert v (fst ` set ts) \<subseteq> dom (id_map s)"
    "is_instruction (fn E) v \<longrightarrow> (New ci, Orig (bb_terminator (fn E) (val_block (fn E) v))) \<in> set (constraints s)"
    unfolding call_ok_def by blast
  from e obtain l m where l: "new_insts s' = new_insts s @ l" "constraints s' = constraints s @ m"
    unfolding extends_def by blast
  have "new_insts s' ! ci = stamp_call s' v ts"
    unfolding extends_stamp_call [OF e ts(4)] using ts(1,2) l(1) by (simp add: nth_append)
  moreover have "insert v (fst ` set ts) \<subseteq> dom (id_map s')" using ts(4) extends_dom [OF e] by blast
  ultimately show ?thesis unfolding call_ok_def using ts(1,3,5) l by auto
qed

text \<open>Growing a state keeps the invariant if the memo and the placed calls stay.\<close>

lemma pass_inv_extend:
  assumes "pass_inv E s" "extends s s'" "ts_memo s' = ts_memo s" "placed s' = placed s" "\<exists>vs. numbered vs s'"
  shows "pass_inv E s'"
  using assms extends_call_ok [OF assms(2)] unfolding pass_inv_def by auto

text \<open>A step that only hands out identifiers.\<close>

definition only_ids :: "PassState \<Rightarrow> PassState \<Rightarrow> bool" where
  "only_ids s s' \<longleftrightarrow> s' = s\<lparr>id_map := id_map s', id_count := id_count s'\<rparr> \<and> id_map s \<subseteq>\<^sub>m id_map s'
     \<and> ((\<exists>vs. numbered vs s) \<longrightarrow> (\<exists>vs. numbered vs s'))"

lemma only_ids_refl: "only_ids s s"
  by (simp add: only_ids_def)

lemma only_ids_trans: "only_ids a b \<Longrightarrow> only_ids b c \<Longrightarrow> only_ids a c"
proof -
  assume 1: "only_ids a b" and 2: "only_ids b c"
  from 1 have b: "b = a\<lparr>id_map := id_map b, id_count := id_count b\<rparr>" by (simp add: only_ids_def)
  from 2 have "c = b\<lparr>id_map := id_map c, id_count := id_count c\<rparr>" by (simp add: only_ids_def)
  then have "c = a\<lparr>id_map := id_map c, id_count := id_count c\<rparr>" by (subst (asm) b) simp
  with 1 2 map_le_trans show ?thesis unfolding only_ids_def by blast
qed

lemma only_ids_extends: "only_ids s s' \<Longrightarrow> extends s s'"
proof -
  assume *: "only_ids s s'"
  then have "s' = s\<lparr>id_map := id_map s', id_count := id_count s'\<rparr>" by (simp add: only_ids_def)
  then have "new_insts s' = new_insts s" "constraints s' = constraints s"
    by (metis PassState.select_convs(3) PassState.surjective PassState.update_convs(5,6),
        metis PassState.select_convs(4) PassState.surjective PassState.update_convs(5,6))
  with * show ?thesis by (simp add: extends_def only_ids_def)
qed

lemma getId_ok: "getId v s = (i, s') \<Longrightarrow> only_ids s s' \<and> id_map s' v = Some i"
proof (cases "id_map s v")
  case None
  assume "getId v s = (i, s')"
  then have s': "i = ucast (id_count s)" "s' = s\<lparr>id_map := (id_map s)(v \<mapsto> ucast (id_count s)), id_count := id_count s + 1\<rparr>"
    by (auto simp: getId_def None)
  have "numbered (vs @ [v]) s'" if n: "numbered vs s" for vs
  proof -
    have v: "v \<notin> set vs" using n None unfolding numbered_def by blast
    have c: "ucast (id_count s) = (of_nat (Suc (length vs)) :: UInt)"
      using n by (simp add: numbered_def unsigned_of_nat word_of_nat_eq_iff del: of_nat_Suc)
    have "id_map s' ((vs @ [v]) ! k) = Some (of_nat (Suc k))" if "k < Suc (length vs)" for k
    proof (cases "k < length vs")
      case True
      then have "vs ! k \<noteq> v" using v nth_mem by metis
      then show ?thesis using True n by (simp add: s'(2) nth_append numbered_def)
    next
      case False
      with that have "k = length vs" by simp
      then show ?thesis by (simp add: s'(2) c)
    qed
    moreover have "id_count s' = of_nat (Suc (length (vs @ [v])))" "dom (id_map s') = set (vs @ [v])"
      using n by (simp_all add: s'(2) numbered_def)
    ultimately show ?thesis using n v unfolding numbered_def by simp
  qed
  moreover have "id_map s \<subseteq>\<^sub>m id_map s'" using None by (auto simp: s'(2) map_le_def)
  ultimately show ?thesis unfolding only_ids_def using s' by auto
qed (simp add: getId_def only_ids_refl)

lemma push_candidates_ok:
  "push_candidates ts s = (args, s') \<Longrightarrow> only_ids s s' \<and> args = flat_ids s' ts \<and> fst ` set ts \<subseteq> dom (id_map s')"
proof (induction ts arbitrary: s args s')
  case Nil
  then show ?case by (simp add: only_ids_refl flat_ids_def)
next
  case (Cons c cs)
  obtain b off where c: "c = (b, off)" by (cases c)
  obtain i s1 where i: "getId b s = (i, s1)" by (cases "getId b s")
  obtain as s2 where as: "push_candidates cs s1 = (as, s2)" by (cases "push_candidates cs s1")
  have r: "args = Num i # Num off # as" "s' = s2" using Cons.prems by (simp_all add: c i as)
  note g = getId_ok [OF i] and ih = Cons.IH [OF as]
  have e: "extends s1 s2" using ih only_ids_extends by blast
  have "num s2 b = i" using extends_num [OF e, of b] g by (auto simp: num_def)
  moreover have "b \<in> dom (id_map s2)" using extends_dom [OF e] g by blast
  ultimately show ?case using ih g only_ids_trans [of s s1 s2] by (simp add: r c flat_ids_def)
qed

lemma extends_create: "create i s = (k, s') \<Longrightarrow> extends s s' \<and> k = length (new_insts s) \<and> new_insts s' = new_insts s @ [i]
   \<and> s' = s\<lparr>new_insts := new_insts s @ [i]\<rparr>"
  by (auto simp: create_def extends_def)

lemma numbered_cong: "id_map s' = id_map s \<Longrightarrow> id_count s' = id_count s \<Longrightarrow> numbered vs s' = numbered vs s"
  by (simp add: numbered_def)

lemma only_ids_fields:
  "only_ids s s' \<Longrightarrow> ts_memo s' = ts_memo s \<and> placed s' = placed s \<and> new_insts s' = new_insts s \<and> constraints s' = constraints s"
proof -
  assume "only_ids s s'"
  then obtain m k where "s' = s\<lparr>id_map := m, id_count := k\<rparr>" unfolding only_ids_def by blast
  then show ?thesis by simp
qed

lemma to_log_call_ok:
  assumes "to_log_call v ts s = (ci, s')" "\<exists>vs. numbered vs s"
  shows "extends s s' \<and> ts_memo s' = ts_memo s \<and> placed s' = placed s \<and> (\<exists>vs. numbered vs s')
     \<and> ci < length (new_insts s') \<and> new_insts s' ! ci = stamp_call s' v ts \<and> insert v (fst ` set ts) \<subseteq> dom (id_map s')"
proof -
  obtain d s1 where d: "getId v s = (d, s1)" by (cases "getId v s")
  obtain as s2 where as: "push_candidates ts s1 = (as, s2)" by (cases "push_candidates ts s1")
  note g = getId_ok [OF d] and p = push_candidates_ok [OF as]
  have i2: "only_ids s s2" using g p only_ids_trans by blast
  have v: "num s2 v = d" "v \<in> dom (id_map s2)"
    using extends_num [OF only_ids_extends, of s1 s2 v] extends_dom [OF only_ids_extends, of s1 s2] g p
    by (auto simp: num_def)
  have "create (stamp_call s2 v ts) s2 = (ci, s')"
    using assms(1) v(1) p by (simp add: to_log_call_def d as stamp_call_def split: if_splits)
  from extends_create [OF this] have c: "extends s2 s'" "ci = length (new_insts s2)"
    "s' = s2\<lparr>new_insts := new_insts s2 @ [stamp_call s2 v ts]\<rparr>" by blast+
  have ids: "insert v (fst ` set ts) \<subseteq> dom (id_map s2)" using v(2) p by simp
  have "\<exists>vs. numbered vs s2" using i2 assms(2) unfolding only_ids_def by blast
  then have "\<exists>vs. numbered vs s'" using numbered_cong [of s' s2] by (simp add: c(3))
  moreover have "extends s s'" using extends_trans [OF only_ids_extends [OF i2] c(1)] .
  moreover have "new_insts s' ! ci = stamp_call s' v ts" using extends_stamp_call [OF c(1) ids] by (simp add: c(2,3))
  ultimately show ?thesis using only_ids_fields [OF i2] ids by (simp add: c(2,3))
qed

section \<open>The recursion\<close>

definition analysis_ok :: "PassEnv \<Rightarrow> Analysis \<Rightarrow> Value \<Rightarrow> bool" where
  "analysis_ok E A v \<longleftrightarrow> (\<forall>s. pass_inv E s \<longrightarrow> (\<exists>ts s'. A v s = Some (ts, s') \<and> covers ts (paths E v)
     \<and> pass_inv E s' \<and> extends s s'))"

lemma analysis_okE:
  assumes "analysis_ok E A v" "pass_inv E s"
  obtains ts s' where "A v s = Some (ts, s')" "covers ts (paths E v)" "pass_inv E s'" "extends s s'"
  using assms unfolding analysis_ok_def by blast

lemma constrain_extends: "extends s (constrainInstPlacement i u s)"
  by (simp add: extends_def constrainInstPlacement_def)

lemma constrain_inv: "pass_inv E s \<Longrightarrow> pass_inv E (constrainInstPlacement i u s)"
proof -
  assume inv: "pass_inv E s"
  then obtain vs where "numbered vs s" unfolding pass_inv_def by blast
  then have "\<exists>vs. numbered vs (constrainInstPlacement i u s)"
    by (intro exI [of _ vs]) (simp add: constrainInstPlacement_def numbered_def)
  then show ?thesis
    using pass_inv_extend [OF inv constrain_extends] by (simp add: constrainInstPlacement_def)
qed

text \<open>A newly placed call keeps the invariant, together with its constraint to the end of the value's block.\<close>

lemma place_inv:
  assumes "pass_inv E s" "call_ok E s v ci"
  shows "pass_inv E (s\<lparr>placed := (placed s)(v \<mapsto> ci)\<rparr>)"
proof -
  let ?s = "s\<lparr>placed := (placed s)(v \<mapsto> ci)\<rparr>"
  have e: "extends s ?s" by (simp add: extends_def)
  obtain vs where "numbered vs s" using assms(1) unfolding pass_inv_def by blast
  then have "numbered vs ?s" by (simp add: numbered_def)
  moreover have "call_ok E ?s u c" if "placed ?s u = Some c" for u c
  proof (cases "u = v")
    case True
    with that assms(2) show ?thesis using extends_call_ok [OF e] by simp
  next
    case False
    with that have "placed s u = Some c" by simp
    then show ?thesis using assms(1) extends_call_ok [OF e] unfolding pass_inv_def by blast
  qed
  moreover have "\<forall>u ts. ts_memo ?s u = Some ts \<longrightarrow> covers ts (paths E u)" using assms(1) unfolding pass_inv_def by simp
  ultimately show ?thesis unfolding pass_inv_def by blast
qed

lemma constrain_call_ok:
  assumes "is_instruction (fn E) v \<Longrightarrow> (i, u) = (New ci, Orig (bb_terminator (fn E) (val_block (fn E) v)))"
    and "ci < length (new_insts s)" "new_insts s ! ci = stamp_call s v ts" "covers ts (paths E v)"
    "insert v (fst ` set ts) \<subseteq> dom (id_map s)"
  shows "call_ok E (if is_instruction (fn E) v then constrainInstPlacement i u s else s) v ci"
  unfolding call_ok_def
  by (rule exI [of _ ts])
    (use assms extends_stamp_call [OF constrain_extends assms(5), of i u] in
      \<open>auto simp: constrainInstPlacement_def\<close>)

lemma requireVal_ok:
  assumes "analysis_ok E A v" "pass_inv E s"
  shows "\<exists>ci s'. requireVal E A v user s = Some (ci, s') \<and> pass_inv E s' \<and> extends s s' \<and> placed s' v = Some ci
     \<and> (New ci, user) \<in> set (constraints s')"
proof -
  have fin: "pass_inv E s1 \<Longrightarrow> extends s s1 \<Longrightarrow> placed s1 v = Some ci \<Longrightarrow>
     pass_inv E (constrainInstPlacement (New ci) user s1) \<and> extends s (constrainInstPlacement (New ci) user s1)
     \<and> placed (constrainInstPlacement (New ci) user s1) v = Some ci
     \<and> (New ci, user) \<in> set (constraints (constrainInstPlacement (New ci) user s1))" for s1 ci
    using constrain_inv constrain_extends extends_trans by (auto simp: constrainInstPlacement_def)
  show ?thesis
  proof (cases "placed s v")
    case (Some ci)
    then show ?thesis using fin [OF assms(2) extends_refl] by (simp add: requireVal_def)
  next
    case None
    from analysis_okE [OF assms] obtain ts s1 where a: "A v s = Some (ts, s1)" "covers ts (paths E v)" "pass_inv E s1"
      "extends s s1" .
    obtain ci s2 where c: "to_log_call v ts s1 = (ci, s2)" by (cases "to_log_call v ts s1")
    have "\<exists>vs. numbered vs s1" using a(3) unfolding pass_inv_def by blast
    note t = to_log_call_ok [OF c this]
    have inv2: "pass_inv E s2" using pass_inv_extend [OF a(3)] t by blast
    let ?tm = "Orig (bb_terminator (fn E) (val_block (fn E) v))"
    let ?s3 = "s2\<lparr>placed := (placed s2)(v \<mapsto> ci)\<rparr>"
    let ?s4 = "if is_instruction (fn E) v then constrainInstPlacement (New ci) ?tm ?s3 else ?s3"
    let ?t4 = "if is_instruction (fn E) v then constrainInstPlacement (New ci) ?tm s2 else s2"
    have swap: "?s4 = ?t4\<lparr>placed := (placed ?t4)(v \<mapsto> ci)\<rparr>" by (simp add: constrainInstPlacement_def)
    have t4: "pass_inv E ?t4" "extends s2 ?t4" using inv2 constrain_inv constrain_extends by simp_all
    have "call_ok E ?t4 v ci" using t a(2) by (intro constrain_call_ok) auto
    then have inv4: "pass_inv E ?s4" unfolding swap by (rule place_inv [OF t4(1)])
    have "extends ?t4 ?s4" unfolding swap by (simp add: extends_def)
    then have e4: "extends s ?s4" using extends_trans [OF a(4)] extends_trans [OF _ t4(2)] extends_trans t by meson
    have p4: "placed ?s4 v = Some ci" by (simp add: swap)
    have "requireVal E A v user s = Some (ci, constrainInstPlacement (New ci) user ?s4)"
      by (simp add: requireVal_def None a(1) c)
    then show ?thesis using fin [OF inv4 e4 p4] by blast
  qed
qed

text \<open>What one source of an instruction contributes.\<close>

definition contribution :: "PassEnv \<Rightarrow> Value \<Rightarrow> Value \<Rightarrow> (Value \<times> nat) set" where
  "contribution E v u = (if live_in_source E v u then {(u, work_of E v)} else shifted (work_of E v) (paths E u))"

lemma classify_cases:
  obtains (CONSTANT) "classify E v = CONSTANT" | (LIVE_IN) "classify E v = LIVE_IN"
    | (CONSTANT_WORK_OP) "classify E v = CONSTANT_WORK_OP"
proof -
  have "classify E v \<in> {CONSTANT, LIVE_IN, CONSTANT_WORK_OP}" by (simp add: classify_def)
  then show thesis using that by blast
qed

lemma in_paths: "(b, w) \<in> paths E v \<longleftrightarrow> dep_path E v b w"
  by (simp add: paths_def)

lemma in_contribution: "(b, w) \<in> contribution E v u \<longleftrightarrow>
   (if live_in_source E v u then b = u \<and> w = work_of E v else \<exists>k. w = k + work_of E v \<and> dep_path E u b k)"
  by (auto simp: contribution_def shifted_def in_paths)

lemma paths_work_op:
  assumes "classify E v = CONSTANT_WORK_OP"
  shows "paths E v = (\<Union>u \<in> set (sources E v). contribution E v u)"
proof -
  have "(b, w) \<in> paths E v \<longleftrightarrow> (\<exists>u \<in> set (sources E v). (b, w) \<in> contribution E v u)" for b w
    unfolding in_paths dep_path_iff [of E v b w] in_contribution using assms by auto
  then show ?thesis by auto
qed

lemma paths_live_in:
  assumes "classify E v = LIVE_IN"
  shows "paths E v = {(v, 0)}"
proof -
  have "(b, w) \<in> paths E v \<longleftrightarrow> (b, w) = (v, 0)" for b w
    unfolding in_paths dep_path_iff [of E v b w] using assms by auto
  then show ?thesis by auto
qed

lemma paths_constant:
  assumes "classify E v = CONSTANT"
  shows "paths E v = {}"
proof -
  have "(b, w) \<notin> paths E v" for b w
    unfolding in_paths dep_path_iff [of E v b w] using assms by auto
  then show ?thesis by auto
qed

lemma add_source_ok:
  assumes "analysis_ok E A u" "pass_inv E s" "covers ts P" "getWork E v = Some work"
    and "\<forall>(b, w) \<in> contribution E v u. w < 2 ^ 32"
  shows "\<exists>ts' s'. add_source E A v work u (ts, s) = Some (ts', s') \<and> covers ts' (P \<union> contribution E v u)
     \<and> pass_inv E s' \<and> extends s s'"
proof (cases "live_in_source E v u")
  case True
  have w: "work_of E v = unat work" by (simp add: work_of_def assms(4))
  from requireVal_ok [OF assms(1,2), of "Orig v"] obtain ci s' where
    "requireVal E A u (Orig v) s = Some (ci, s')" "pass_inv E s'" "extends s s'" by blast
  moreover have "covers (addCandidate u work ts) (P \<union> contribution E v u)"
    using covers_add [OF assms(3), of u work] True by (simp add: contribution_def w)
  ultimately show ?thesis using True by (simp add: add_source_def live_in_source_def)
next
  case False
  have w: "work_of E v = unat work" by (simp add: work_of_def assms(4))
  from analysis_okE [OF assms(1,2)] obtain us s' where a: "A u s = Some (us, s')" "covers us (paths E u)" "pass_inv E s'"
    "extends s s'" .
  have "\<forall>(b, k) \<in> paths E u. k + unat work < 2 ^ 32"
    using assms(5) False unfolding contribution_def shifted_def w by auto
  from covers_shift [OF assms(3) a(2) this]
  have "covers (shift_candidates work us ts) (P \<union> contribution E v u)" using False by (simp add: contribution_def w)
  then show ?thesis using a False by (simp add: add_source_def live_in_source_def)
qed

lemma add_sources_ok:
  assumes "\<forall>u \<in> set us. analysis_ok E A u" "pass_inv E s" "covers ts P" "getWork E v = Some work"
    and "\<forall>u \<in> set us. \<forall>(b, w) \<in> contribution E v u. w < 2 ^ 32"
  shows "\<exists>ts' s'. add_sources E A v work us (ts, s) = Some (ts', s')
     \<and> covers ts' (P \<union> (\<Union>u \<in> set us. contribution E v u)) \<and> pass_inv E s' \<and> extends s s'"
  using assms
proof (induction us arbitrary: ts s P)
  case Nil
  then show ?case by simp
next
  case (Cons u us)
  have "analysis_ok E A u" "\<forall>(b, w) \<in> contribution E v u. w < 2 ^ 32" using Cons.prems by simp_all
  from add_source_ok [OF this(1) Cons.prems(2-4) this(2)] obtain t1 s1 where
    1: "add_source E A v work u (ts, s) = Some (t1, s1)" "covers t1 (P \<union> contribution E v u)" "pass_inv E s1"
    "extends s s1" by blast
  have "\<forall>u \<in> set us. analysis_ok E A u" "\<forall>u \<in> set us. \<forall>(b, w) \<in> contribution E v u. w < 2 ^ 32"
    using Cons.prems by simp_all
  from Cons.IH [OF this(1) 1(3,2) Cons.prems(4) this(2)] obtain t2 s2 where
    2: "add_sources E A v work us (t1, s1) = Some (t2, s2)"
    "covers t2 (P \<union> contribution E v u \<union> (\<Union>u \<in> set us. contribution E v u))" "pass_inv E s2" "extends s1 s2" by blast
  have "P \<union> contribution E v u \<union> (\<Union>u \<in> set us. contribution E v u) = P \<union> (\<Union>u \<in> set (u # us). contribution E v u)"
    by auto
  with 2 1(1) extends_trans [OF 1(4) 2(4)] show ?case by simp
qed

text \<open>
  The dependences are acyclic, as in SSA form, every instruction on them has a cost and every controlling
  block a condition; and no path is so long that its work overflows.
\<close>

definition static_dag :: "PassEnv \<Rightarrow> (Value \<Rightarrow> nat) \<Rightarrow> bool" where
  "static_dag E rank \<longleftrightarrow> (\<forall>v. classify E v = CONSTANT_WORK_OP \<longrightarrow>
     getWork E v \<noteq> None \<and> controlling_conditions E v \<noteq> None \<and> (\<forall>u \<in> set (sources E v). rank u < rank v))"

definition short_paths :: "PassEnv \<Rightarrow> bool" where
  "short_paths E \<longleftrightarrow> (\<forall>v b w. dep_path E v b w \<longrightarrow> w < 2 ^ 32)"

lemma work_op_ok:
  assumes "static_dag E rank" "short_paths E" "classify E v = CONSTANT_WORK_OP" "pass_inv E s"
    and "\<forall>u \<in> set (sources E v). analysis_ok E A u"
  shows "\<exists>ts s'. work_op_getTimestamp E A v s = Some (ts, s') \<and> covers ts (paths E v) \<and> pass_inv E s' \<and> extends s s'"
proof -
  from assms(1,3) obtain work conds where w: "getWork E v = Some work" "controlling_conditions E v = Some conds"
    unfolding static_dag_def by blast
  have src: "set (sources E v) = set (val_operands (fn E) v) \<union> set conds" by (simp add: sources_def w(2))
  have small: "\<forall>(b, k) \<in> contribution E v u. k < 2 ^ 32" if "u \<in> set (sources E v)" for u
  proof -
    have "contribution E v u \<subseteq> paths E v" using that paths_work_op [OF assms(3)] by blast
    then show ?thesis using assms(2) unfolding short_paths_def paths_def by blast
  qed
  have "\<forall>u \<in> set (val_operands (fn E) v). analysis_ok E A u"
    "\<forall>u \<in> set (val_operands (fn E) v). \<forall>(b, k) \<in> contribution E v u. k < 2 ^ 32"
    using assms(5) small unfolding src by blast+
  from add_sources_ok [OF this(1) assms(4) _ w(1) this(2), of "[]" "{}"] obtain t1 s1 where
    1: "add_sources E A v work (val_operands (fn E) v) ([], s) = Some (t1, s1)"
    "covers t1 (\<Union>u \<in> set (val_operands (fn E) v). contribution E v u)" "pass_inv E s1" "extends s s1"
    by (auto simp: covers_Nil)
  have "\<forall>u \<in> set conds. analysis_ok E A u" "\<forall>u \<in> set conds. \<forall>(b, k) \<in> contribution E v u. k < 2 ^ 32"
    using assms(5) small unfolding src by blast+
  from add_sources_ok [OF this(1) 1(3,2) w(1) this(2)] obtain t2 s2 where
    2: "add_sources E A v work conds (t1, s1) = Some (t2, s2)"
    "covers t2 ((\<Union>u \<in> set (val_operands (fn E) v). contribution E v u) \<union> (\<Union>u \<in> set conds. contribution E v u))"
    "pass_inv E s2" "extends s1 s2" by blast
  have "covers t2 (paths E v)" using 2(2) unfolding paths_work_op [OF assms(3)] src by (simp add: UN_Un)
  moreover have "work_op_getTimestamp E A v s = Some (t2, s2)"
    by (simp add: work_op_getTimestamp_def w 1(1) 2(1))
  ultimately show ?thesis using 2(3) extends_trans [OF 1(4) 2(4)] by blast
qed

lemma memo_inv: "pass_inv E s \<Longrightarrow> covers ts (paths E v) \<Longrightarrow> pass_inv E (s\<lparr>ts_memo := (ts_memo s)(v \<mapsto> ts)\<rparr>)"
proof -
  assume inv: "pass_inv E s" and c: "covers ts (paths E v)"
  let ?s = "s\<lparr>ts_memo := (ts_memo s)(v \<mapsto> ts)\<rparr>"
  have e: "extends s ?s" by (simp add: extends_def)
  obtain vs where "numbered vs s" using inv unfolding pass_inv_def by blast
  then have "numbered vs ?s" by (simp add: numbered_def)
  moreover have "\<forall>u us. ts_memo ?s u = Some us \<longrightarrow> covers us (paths E u)" using inv c unfolding pass_inv_def by auto
  moreover have "\<forall>u ci. placed ?s u = Some ci \<longrightarrow> call_ok E ?s u ci"
    using inv extends_call_ok [OF e] unfolding pass_inv_def by auto
  ultimately show ?thesis unfolding pass_inv_def by blast
qed

lemma getTimestamp_ok:
  assumes "static_dag E rank" "short_paths E"
  shows "rank v < n \<Longrightarrow> analysis_ok E (getTimestamp E n) v"
proof (induction n arbitrary: v)
  case (Suc n)
  show ?case unfolding analysis_ok_def
  proof (intro allI impI)
    fix s assume inv: "pass_inv E s"
    show "\<exists>ts s'. getTimestamp E (Suc n) v s = Some (ts, s') \<and> covers ts (paths E v) \<and> pass_inv E s' \<and> extends s s'"
    proof (cases "ts_memo s v")
      case (Some ts)
      then show ?thesis using inv unfolding pass_inv_def by simp
    next
      case None
      have "\<exists>ts s'. (case classify E v of REDUCTION_VAR \<Rightarrow> None | INDUCTION_VAR \<Rightarrow> None | CONSTANT \<Rightarrow> Some ([], s) | LIVE_IN \<Rightarrow> Some (addCandidate v 0 [], s)
          | CONSTANT_WORK_OP \<Rightarrow> work_op_getTimestamp E (getTimestamp E n) v s) = Some (ts, s')
          \<and> covers ts (paths E v) \<and> pass_inv E s' \<and> extends s s'"
      proof (cases rule: classify_cases [of E v])
        case CONSTANT
        then show ?thesis using inv by (simp add: paths_constant covers_Nil)
      next
        case LIVE_IN
        then show ?thesis using inv by (simp add: paths_live_in covers_def)
      next
        case CONSTANT_WORK_OP
        have "rank u < rank v" if "u \<in> set (sources E v)" for u
          using assms(1) CONSTANT_WORK_OP that unfolding static_dag_def by blast
        then have "\<forall>u \<in> set (sources E v). analysis_ok E (getTimestamp E n) u"
          using Suc.IH Suc.prems by (meson less_Suc_eq_le less_le_trans)
        from work_op_ok [OF assms CONSTANT_WORK_OP inv this] CONSTANT_WORK_OP show ?thesis by simp
      qed
      then obtain ts s' where r: "(case classify E v of REDUCTION_VAR \<Rightarrow> None | INDUCTION_VAR \<Rightarrow> None | CONSTANT \<Rightarrow> Some ([], s) | LIVE_IN \<Rightarrow> Some (addCandidate v 0 [], s)
          | CONSTANT_WORK_OP \<Rightarrow> work_op_getTimestamp E (getTimestamp E n) v s) = Some (ts, s')"
        "covers ts (paths E v)" "pass_inv E s'" "extends s s'" by blast
      let ?s = "s'\<lparr>ts_memo := (ts_memo s')(v \<mapsto> ts)\<rparr>"
      have "getTimestamp E (Suc n) v s = Some (ts, ?s)" by (simp add: None r(1))
      moreover have "extends s ?s" using r(4) by (simp add: extends_def)
      ultimately show ?thesis using r(2) memo_inv [OF r(3,2)] by blast
    qed
  qed
qed simp

lemma covers_longest:
  assumes "covers ts (paths E v)"
  shows "(b, off) \<in> set ts \<longleftrightarrow> dep_path E v b (unat off) \<and> (\<forall>w. dep_path E v b w \<longrightarrow> w \<le> unat off)"
proof -
  have s: "distinct (map fst ts)" using assms distinct_entries unfolding covers_def by blast
  have 1: "\<And>b off. (b, off) \<in> set ts \<Longrightarrow> dep_path E v b (unat off)"
    and 2: "\<And>b w. dep_path E v b w \<Longrightarrow> \<exists>off. (b, off) \<in> set ts \<and> w \<le> unat off"
    using assms unfolding covers_def paths_def by blast+
  show ?thesis
  proof
    assume i: "(b, off) \<in> set ts"
    have "w \<le> unat off" if "dep_path E v b w" for w
      using 2 [OF that] i s by (metis eq_key_imp_eq_value)
    with 1 [OF i] show "dep_path E v b (unat off) \<and> (\<forall>w. dep_path E v b w \<longrightarrow> w \<le> unat off)" by blast
  next
    assume l: "dep_path E v b (unat off) \<and> (\<forall>w. dep_path E v b w \<longrightarrow> w \<le> unat off)"
    then obtain o' where o: "(b, o') \<in> set ts" "unat off \<le> unat o'" using 2 by blast
    moreover have "unat o' \<le> unat off" using 1 [OF o(1)] l by blast
    ultimately have "o' = off" by (simp add: word_unat_eq_iff)
    with o(1) show "(b, off) \<in> set ts" by simp
  qed
qed

text \<open>
  C2. Static timestamps: on acyclic dependences whose works do not overflow, the analysis returns with
  fuel beyond the rank of the value, from every state the pass can be in; the candidates are exactly the
  bases the value depends on, each with the work of the longest path of data and control dependences from
  it, in the order of addresses; and the state it leaves keeps the pass's invariant, that every memoised
  timestamp and every placed call is right.
\<close>

theorem static_timestamp_longest:
  assumes "static_dag E rank" "short_paths E" "rank v < n" "pass_inv E s"
  shows "\<exists>ts s'. getTimestamp E n v s = Some (ts, s') \<and> sorted_wrt (<) (map fst ts)
     \<and> (\<forall>b off. (b, off) \<in> set ts \<longleftrightarrow> dep_path E v b (unat off) \<and> (\<forall>w. dep_path E v b w \<longrightarrow> w \<le> unat off))
     \<and> pass_inv E s' \<and> extends s s'"
proof -
  from analysis_okE [OF getTimestamp_ok [OF assms(1-3)] assms(4)] obtain ts s' where
    *: "getTimestamp E n v s = Some (ts, s')" "covers ts (paths E v)" "pass_inv E s'" "extends s s'" .
  have "sorted_wrt (<) (map fst ts)" using *(2) by (simp add: covers_def)
  with * covers_longest [OF *(2)] show ?thesis by blast
qed

text \<open>Paths are short if the ranks are, for instance the positions in the function.\<close>

lemma path_bound:
  assumes "static_dag E rank" "\<And>v. work_of E v \<le> c"
  shows "dep_path E v b w \<Longrightarrow> w \<le> c * rank v"
proof (induction rule: dep_path.induct)
  case (from_outside v u)
  then have "rank u < rank v" using assms(1) unfolding static_dag_def by blast
  then have "c \<le> c * rank v" by (cases "rank v") simp_all
  with assms(2) [of v] show ?case by (rule le_trans)
next
  case (through v u b w)
  then have "rank u < rank v" using assms(1) unfolding static_dag_def by blast
  then have "c * Suc (rank u) \<le> c * rank v" by (intro mult_le_mono2) simp
  then show ?case using assms(2) [of v] through.IH by simp
qed simp

text \<open>
  A function of two blocks: 6 computes \<open>2 = 1 * 1\<close>, \<open>3 = 0 + 2\<close> and the condition \<open>5\<close>, which decides
  whether 7 runs, with \<open>4 = 3 + 2\<close> in floating point; 0 is an argument and 1 a load.
\<close>

definition sample_fn :: LlvmFunction where
  "sample_fn = sample_cfg\<lparr>
     val_kind := (\<lambda>v. if v = 0 then VArgument else if v = 1 then VInstruction OLoad else if v = 2 then VInstruction OMul
        else if v = 3 then VInstruction OAdd else if v = 4 then VInstruction OFAdd else if v = 5 then VInstruction OICmp
        else if v = 8 then VInstruction OBr else VOther),
     val_operands := (\<lambda>v. if v = 2 then [1, 1] else if v = 3 then [0, 2] else if v = 4 then [3, 2] else if v = 5 then [0, 1] else []),
     val_block := (\<lambda>v. if v = 4 then 7 else 6), dominates := (\<lambda>a b. a = 6), bb_terminator := (\<lambda>b. 8),
     br_condition := (\<lambda>v. Some 5)\<rparr>"

definition sample_env :: PassEnv where
  "sample_env = \<lparr>fn = sample_fn, costs = default_costs, reduction_ops = [], ind_vars = [], ind_incs = [],
     pdf = [Some 6 \<mapsto> [], Some 7 \<mapsto> [6]]\<rparr>"

lemmas sample_eval = sample_env_def sample_fn_def sample_cfg_def classify_def isReductionVar_def is_instruction_def
  opcode_of_def isa_op_def getWork_def isInductionVariable_def isInductionIncrement_def is_constant_def
  controlling_conditions_def getControllingBlock_def getControllingCondition_def sources_def work_of_def
  binary_opcodes_def cast_opcodes_def default_costs_def

lemma sample_facts:
  "classify sample_env 0 = LIVE_IN" "classify sample_env 1 = LIVE_IN" "classify sample_env 2 = CONSTANT_WORK_OP"
  "classify sample_env 3 = CONSTANT_WORK_OP" "classify sample_env 4 = CONSTANT_WORK_OP" "classify sample_env 5 = CONSTANT_WORK_OP"
  "val_operands (fn sample_env) 2 = [1, 1]" "val_operands (fn sample_env) 3 = [0, 2]"
  "val_operands (fn sample_env) 4 = [3, 2]" "val_operands (fn sample_env) 5 = [0, 1]"
  "getWork sample_env 2 = Some 2" "getWork sample_env 3 = Some 1" "getWork sample_env 4 = Some 2" "getWork sample_env 5 = Some 1"
  "controlling_conditions sample_env 2 = Some []" "controlling_conditions sample_env 3 = Some []"
  "controlling_conditions sample_env 4 = Some [5]" "controlling_conditions sample_env 5 = Some []"
  "isLiveInRegion sample_env bb u = False"
  by (simp_all add: sample_eval isLiveInRegion_def)

lemma sample_dag: "static_dag sample_env (\<lambda>v. if v = 5 then 2 else v)"
  by (simp add: static_dag_def sample_eval)

lemma sample_short: "short_paths sample_env"
proof -
  have "work_of sample_env v \<le> 4" for v by (simp add: sample_eval)
  from path_bound [OF sample_dag this] have b: "dep_path sample_env v b w \<Longrightarrow> w \<le> 4 * (if v = 5 then 2 else v)" for v b w .
  have "v \<le> 5" if "dep_path sample_env v b w" for v b w
    using that by (cases rule: dep_path.cases) (auto simp: sample_eval split: if_splits)
  then have "w \<le> 20" if "dep_path sample_env v b w" for v b w
    using b [OF that] that by (fastforce split: if_splits)
  then show ?thesis unfolding short_paths_def by fastforce
qed

lemma getTimestamp_numeral:
  "getTimestamp E (numeral k) v s =
     (case ts_memo s v of
        Some ts \<Rightarrow> Some (ts, s)
      | None \<Rightarrow> do {
          (ts, s) \<leftarrow> (case classify E v of
             REDUCTION_VAR \<Rightarrow> None
           | INDUCTION_VAR \<Rightarrow> None
           | CONSTANT \<Rightarrow> Some ([], s)
           | LIVE_IN \<Rightarrow> Some (addCandidate v 0 [], s)
           | CONSTANT_WORK_OP \<Rightarrow> work_op_getTimestamp E (getTimestamp E (pred_numeral k)) v s);
          Some (ts, s\<lparr>ts_memo := (ts_memo s)(v \<mapsto> ts)\<rparr>) })"
  by (simp only: numeral_eq_Suc getTimestamp.simps)

theorem static_timestamp_longest_witness:
  "\<exists>ts s'. getTimestamp sample_env 5 4 PassState_new = Some (ts, s') \<and> (0, 3) \<in> set ts \<and> (1, 5) \<in> set ts
     \<and> dep_path sample_env 4 1 5 \<and> pass_inv sample_env s'"
proof -
  obtain ts s' where r: "getTimestamp sample_env 5 4 PassState_new = Some (ts, s')"
    "\<forall>b off. (b, off) \<in> set ts \<longleftrightarrow> dep_path sample_env 4 b (unat off) \<and> (\<forall>w. dep_path sample_env 4 b w \<longrightarrow> w \<le> unat off)"
    "pass_inv sample_env s'"
    using static_timestamp_longest [OF sample_dag sample_short _ pass_inv_new, of 4 5] by auto
  have "map_option fst (getTimestamp sample_env 5 4 PassState_new) = Some [(0, 3), (1, 5)]"
    by (simp add: getTimestamp_numeral work_op_getTimestamp_def add_source_def shift_candidates_def
        PassState_new_def sample_facts del: One_nat_def)
  then have ts: "ts = [(0, 3), (1, 5)]" unfolding r(1) by simp
  have m: "(1, 5) \<in> set ts" by (simp add: ts)
  have "dep_path sample_env 4 1 (unat (5 :: UInt))" using iffD1 [OF spec [OF spec [OF r(2), of 1], of 5] m] by blast
  then have "dep_path sample_env 4 1 5" by simp
  moreover have "(0, 3) \<in> set ts" by (simp add: ts)
  ultimately show ?thesis using r(1,3) m by blast
qed

end
