(* ===== verification/StaticDynamic.thy ===== *)
theory StaticDynamic
  imports StaticTimestampSpec KremlinApi TimestampSpec
begin

text \<open>
  The compiler pass and the runtime together: what the calls that the pass emits for a value compute when
  they run.
\<close>

section \<open>Running an emitted call\<close>

text \<open>The function of the runtime an emitted call calls, with its arguments; other calls have no event here.\<close>

fun arg_pairs :: "KArg list \<Rightarrow> src list" where
  "arg_pairs (Num r # Num off # as) = (r, off) # arg_pairs as"
| "arg_pairs as = []"

fun arg_nums :: "KArg list \<Rightarrow> UInt list" where
  "arg_nums (Num i # as) = i # arg_nums as"
| "arg_nums as = []"

fun stamp_n :: "UInt \<Rightarrow> src list \<Rightarrow> timestamp_event option" where
  "stamp_n d [] = Some (KTimestamp0 d)"
| "stamp_n d [a] = Some (KTimestamp1 d a)"
| "stamp_n d [a, b] = Some (KTimestamp2 d a b)"
| "stamp_n d [a, b, c] = Some (KTimestamp3 d a b c)"
| "stamp_n d [a, b, c, e] = Some (KTimestamp4 d a b c e)"
| "stamp_n d [a, b, c, e, f] = Some (KTimestamp5 d a b c e f)"
| "stamp_n d [a, b, c, e, f, g] = Some (KTimestamp6 d a b c e f g)"
| "stamp_n d [a, b, c, e, f, g, h] = Some (KTimestamp7 d a b c e f g h)"
| "stamp_n d ss = None"

fun stamp_event :: "NewInst \<Rightarrow> timestamp_event option" where
  "stamp_event (KCall (K_TimestampN n) (Num d # as)) = (if length (arg_pairs as) = n then stamp_n d (arg_pairs as) else None)"
| "stamp_event (KCall K_Timestamp (Num d # Num n # as)) = Some (KTimestamp d n (arg_nums as))"
| "stamp_event i = None"

definition run_stamp :: "'m MShadow \<Rightarrow> NewInst \<Rightarrow> 'm KremlinProfiler \<Rightarrow> 'm KremlinProfiler option" where
  "run_stamp ms i p = stamp_event i \<bind> (\<lambda>ev. api_stamp ms ev p)"

definition flat_nums :: "src list \<Rightarrow> KArg list" where
  "flat_nums ss = concat (map (\<lambda>(r, off). [Num r, Num off]) ss)"

lemma arg_pairs_flat: "arg_pairs (flat_nums ss) = ss"
  by (induction ss) (auto simp: flat_nums_def)

lemma arg_nums_flat: "arg_nums (flat_nums ss) = flat_args ss"
  by (induction ss) (auto simp: flat_nums_def)

text \<open>The registers and offsets of a timestamp.\<close>

definition stamp_srcs :: "PassState \<Rightarrow> StaticTimestamp \<Rightarrow> src list" where
  "stamp_srcs s ts = map (\<lambda>(b, off). (num s b, off)) ts"

lemma flat_ids_nums: "flat_ids s ts = flat_nums (stamp_srcs s ts)"
  by (induction ts) (auto simp: flat_ids_def flat_nums_def stamp_srcs_def)

text \<open>A list of at most seven sources is updated by one or two passes.\<close>

lemma list_upto7:
  assumes "length xs \<le> 7"
  obtains (up5) "length xs \<le> 5" | (six) a b c d e f where "xs = [a, b, c, d, e, f]"
    | (seven) a b c d e f g where "xs = [a, b, c, d, e, f, g]"
proof (cases "length xs \<le> 5")
  case False
  then have "length xs = 6 \<or> length xs = 7" using assms by linarith
  then show ?thesis
    using six seven by (auto simp: eval_nat_numeral length_Suc_conv)
qed (use up5 in blast)

lemma stamp_n_short:
  assumes "length ss \<le> 5" "enabled p" "ready p a t" "reg_ok t d" "\<forall>(r, off) \<in> set ss. reg_ok t r"
  shows "\<exists>ev. stamp_n d ss = Some ev \<and> updated_to p a t d True (latest p t True ss) (api_stamp ms ev p)"
proof -
  have u: "updated_to p a t d True (latest p t True ss) (timestampUpdater ms True True (length ss) False d ss 0 0 p)"
    by (rule timestampUpdater_latest [OF assms(3,4,1,5) refl])
  show ?thesis
  proof (cases "ss = []")
    case True
    then show ?thesis using u assms(2) by (simp add: handleTimestamp0_def when_enabled_def)
  next
    case False
    from list_upto5 [OF this assms(1)] show ?thesis
      using u assms(2) by cases (simp_all add: when_enabled_def handleTimestamp1_def handleTimestamp2_def
        handleTimestamp3_def handleTimestamp4_def handleTimestamp5_def eval_nat_numeral)
  qed
qed

lemma stamp_n_latest:
  assumes "length ss \<le> 7" "enabled p" "ready p a t" "reg_ok t d" "\<forall>(r, off) \<in> set ss. reg_ok t r"
    and "\<forall>(r, off) \<in> set (drop 5 ss). to_int r \<noteq> to_int d"
  shows "\<exists>ev. stamp_n d ss = Some ev \<and> updated_to p a t d True (latest p t True ss) (api_stamp ms ev p)"
  using assms(1)
proof (cases rule: list_upto7)
  case up5
  then show ?thesis using stamp_n_short [OF _ assms(2-5)] by blast
next
  case (six s1 s2 s3 s4 s5 s6)
  have "updated_to p a t d True (latest p t True ([s1, s2, s3, s4, s5] @ [s6]))
     (do { p \<leftarrow> timestampUpdater ms True False 5 False d [s1, s2, s3, s4, s5] 0 0 p;
           timestampUpdater ms False True 2 False d ((d, 0) # [s6]) 0 0 p })"
    by (rule two_updates [OF assms(3,4)]) (use assms(5,6) six in auto)
  then show ?thesis using assms(2) six by (simp add: handleTimestamp6_def when_enabled_def)
next
  case (seven s1 s2 s3 s4 s5 s6 s7)
  have "updated_to p a t d True (latest p t True ([s1, s2, s3, s4, s5] @ [s6, s7]))
     (do { p \<leftarrow> timestampUpdater ms True False 5 False d [s1, s2, s3, s4, s5] 0 0 p;
           timestampUpdater ms False True 3 False d ((d, 0) # [s6, s7]) 0 0 p })"
    by (rule two_updates [OF assms(3,4)]) (use assms(5,6) seven in auto)
  then show ?thesis using assms(2) seven by (simp add: handleTimestamp7_def when_enabled_def)
qed

lemma run_stamp_few:
  assumes "length ts < NUM_SPECIALIZED" "enabled p" "ready p a t" "\<forall>u \<in> insert v (fst ` set ts). reg_ok t (num s u)"
    and "\<forall>(r, off) \<in> set (drop 5 (stamp_srcs s ts)). to_int r \<noteq> to_int (num s v)"
  shows "updated_to p a t (num s v) True (latest p t True (stamp_srcs s ts)) (run_stamp ms (stamp_call s v ts) p)"
proof -
  have "length (stamp_srcs s ts) \<le> 7" using assms(1) by (simp add: stamp_srcs_def NUM_SPECIALIZED_def)
  moreover have "\<forall>(r, off) \<in> set (stamp_srcs s ts). reg_ok t r" using assms(4) by (auto simp: stamp_srcs_def)
  ultimately obtain ev where "stamp_n (num s v) (stamp_srcs s ts) = Some ev"
    "updated_to p a t (num s v) True (latest p t True (stamp_srcs s ts)) (api_stamp ms ev p)"
    using stamp_n_latest [OF _ assms(2,3) _ _ assms(5)] assms(4) by blast
  then show ?thesis
    using assms(1) by (simp add: run_stamp_def stamp_call_def flat_ids_nums arg_pairs_flat stamp_srcs_def)
qed

section \<open>Registers of values\<close>

lemma num_inj:
  assumes "numbered vs s" "length vs < 2 ^ 31" "u \<in> dom (id_map s)" "v \<in> dom (id_map s)" "num s u = num s v"
  shows "u = v"
proof -
  from assms(1,3,4) obtain i j where ij: "i < length vs" "u = vs ! i" "j < length vs" "v = vs ! j"
    unfolding numbered_def by (metis in_set_conv_nth)
  have "(of_nat (Suc i) :: UInt) = of_nat (Suc j)"
    using assms(1,5) ij by (simp add: numbered_def num_def)
  moreover have "Suc i < 2 ^ 32" "Suc j < 2 ^ 32" using ij assms(2) by simp_all
  ultimately have "Suc i = Suc j" by (metis unat_of_nat32)
  with ij show ?thesis by simp
qed

lemma dep_path_rank:
  assumes "static_dag E rank"
  shows "dep_path E v b w \<Longrightarrow> rank b \<le> rank v \<and> (classify E v = CONSTANT_WORK_OP \<longrightarrow> rank b < rank v)"
proof (induction rule: dep_path.induct)
  case (from_outside v u)
  then show ?case using assms unfolding static_dag_def by (meson less_imp_le)
next
  case (through v u b w)
  then have "rank u < rank v" using assms unfolding static_dag_def by blast
  then show ?case using through.IH by linarith
qed simp

text \<open>A value with more than one candidate is not its own base.\<close>

lemma bases_differ:
  assumes "static_dag E rank" "covers ts (paths E v)" "1 < length ts"
  shows "v \<notin> fst ` set ts"
proof
  assume "v \<in> fst ` set ts"
  then obtain off where "(v, off) \<in> set ts" by force
  then have d: "dep_path E v v (unat off)" using assms(2) unfolding covers_def paths_def by blast
  then have "classify E v \<noteq> CONSTANT_WORK_OP" using dep_path_rank [OF assms(1)] by blast
  moreover have "classify E v \<noteq> CONSTANT" using d paths_constant unfolding paths_def by blast
  ultimately have "paths E v = {(v, 0)}" using paths_live_in by (cases rule: classify_cases [of E v]) auto
  then have all: "\<forall>c \<in> set ts. c = (v, 0)" using assms(2) unfolding covers_def by (auto simp: unat_eq_0)
  obtain c1 c2 r where ts: "ts = c1 # c2 # r" using assms(3) by (cases ts; cases "tl ts") auto
  then have "c1 = c2" using all by simp
  then show False using assms(2) unfolding covers_def ts by simp
qed

lemma stamp_srcs_later:
  assumes "static_dag E rank" "covers ts (paths E v)" "numbered vs s" "length vs < 2 ^ 31"
    and "insert v (fst ` set ts) \<subseteq> dom (id_map s)" "\<forall>u \<in> dom (id_map s). reg_ok t (num s u)"
  shows "\<forall>(r, off) \<in> set (drop (Suc k) (stamp_srcs s ts)). to_int r \<noteq> to_int (num s v)"
proof (intro ballI, clarify)
  fix r off assume i: "(r, off) \<in> set (drop (Suc k) (stamp_srcs s ts))" and e: "to_int r = to_int (num s v)"
  then have "1 < length ts" by (cases ts; cases "tl ts") (auto simp: stamp_srcs_def)
  then have n: "v \<notin> fst ` set ts" by (rule bases_differ [OF assms(1,2)])
  from i have "(r, off) \<in> set (stamp_srcs s ts)" by (rule in_set_dropD)
  then obtain c where c: "c \<in> set ts" "(r, off) = (case c of (b, off) \<Rightarrow> (num s b, off))"
    unfolding stamp_srcs_def set_map by blast
  then have b: "fst c \<in> fst ` set ts" "r = num s (fst c)" by (simp_all add: case_prod_unfold)
  have "num s (fst c) = num s v" using e b(2) by (simp add: signed_word_eqI)
  moreover have "fst c \<in> dom (id_map s)" "v \<in> dom (id_map s)" using assms(5) b(1) by blast+
  ultimately have "fst c = v" by (intro num_inj [OF assms(3,4)])
  with n b(1) show False by simp
qed

section \<open>The emitted call computes the longest paths\<close>

text \<open>The latest of the control dependence's time and of every base's time plus the work on a path from it.\<close>

definition longest_time :: "PassEnv \<Rightarrow> PassState \<Rightarrow> 'm KremlinProfiler \<Rightarrow> Table \<Rightarrow> Value \<Rightarrow> nat \<Rightarrow> Time \<Rightarrow> bool" where
  "longest_time E s p t v k T \<longleftrightarrow> ctrl_time p k \<le> T
     \<and> (\<forall>b w. dep_path E v b w \<longrightarrow> reg_time t (num s b) k + of_nat w \<le> T)
     \<and> (T = ctrl_time p k \<or> (\<exists>b w. dep_path E v b w \<and> T = reg_time t (num s b) k + of_nat w))"

lemma foldl_max_in: "foldl max (b :: 'a::linorder) xs = b \<or> foldl max b xs \<in> set xs"
proof (induction xs arbitrary: b)
  case (Cons x xs)
  from Cons.IH [of "max b x"] show ?case by (auto simp: max_def)
qed simp

lemma add_offset_mono:
  assumes "(x :: Time) < 2 ^ 63" "w \<le> unat (off :: UInt)"
  shows "x + of_nat w \<le> x + ucast off"
proof -
  have "unat off < 2 ^ LENGTH(32)" by (rule unsigned_less)
  then have off: "unat off < 2 ^ 32" by simp
  have o: "unat (ucast off :: Time) = unat off" using off by (simp add: unsigned_ucast_eq take_bit_nat_eq_self)
  have w: "unat (of_nat w :: Time) = w" using assms(2) off by (simp add: unat_of_nat take_bit_nat_eq_self)
  have "unat x < 2 ^ 63" using assms(1) by (simp add: word_less_nat_alt)
  then have "unat x + unat off < 2 ^ 64" using off by simp
  then have "unat (x + of_nat w) = unat x + w" "unat (x + ucast off) = unat x + unat off"
    using assms(2) unat_add_lem [of x "of_nat w"] unat_add_lem [of x "ucast off"] by (simp_all add: o w)
  then show ?thesis using assms(2) by (simp add: word_le_nat_alt)
qed

lemma latest_longest_time:
  assumes "covers ts (paths E v)" "\<forall>u \<in> fst ` set ts. reg_time t (num s u) k < 2 ^ 63"
  shows "longest_time E s p t v k (latest p t True (stamp_srcs s ts) k)"
proof -
  let ?f = "\<lambda>(r, off). reg_time t r k + ucast off"
  let ?L = "latest p t True (stamp_srcs s ts) k"
  have L: "?L = foldl max (ctrl_time p k) (map ?f (stamp_srcs s ts))" by (simp add: latest_def)
  have up: "reg_time t (num s b) k + of_nat w \<le> ?L" if d: "dep_path E v b w" for b w
  proof -
    from d assms(1) obtain off where o: "(b, off) \<in> set ts" "w \<le> unat off" unfolding covers_def paths_def by blast
    have "b \<in> fst ` set ts" using o(1) by force
    with assms(2) have "reg_time t (num s b) k < 2 ^ 63" by blast
    from add_offset_mono [OF this o(2)] have "reg_time t (num s b) k + of_nat w \<le> ?f (num s b, off)" by simp
    moreover have "?f (num s b, off) \<in> set (map ?f (stamp_srcs s ts))"
      unfolding set_map stamp_srcs_def using o(1) by (intro imageI image_eqI [of _ _ "(b, off)"]) simp_all
    then have "?f (num s b, off) \<le> ?L" unfolding L using foldl_max_ge by blast
    ultimately show ?thesis by (rule order_trans)
  qed
  have "?L = ctrl_time p k \<or> (\<exists>b w. dep_path E v b w \<and> ?L = reg_time t (num s b) k + of_nat w)"
  proof (cases "?L = ctrl_time p k")
    case False
    then have "?L \<in> set (map ?f (stamp_srcs s ts))" unfolding L using foldl_max_in by metis
    then obtain b off where b: "(b, off) \<in> set ts" "?L = reg_time t (num s b) k + ucast off"
      by (auto simp: stamp_srcs_def)
    then have "dep_path E v b (unat off)" using assms(1) unfolding covers_def paths_def by blast
    with b(2) show ?thesis by (intro disjI2 exI [of _ b] exI [of _ "unat off"]) simp
  qed simp
  moreover have "ctrl_time p k \<le> ?L" unfolding L using foldl_max_ge by blast
  ultimately show ?thesis unfolding longest_time_def using up by blast
qed

lemma covers_bases:
  assumes "covers ts (paths E v)"
  shows "fst ` set ts = {b. \<exists>w. dep_path E v b w}"
proof
  show "fst ` set ts \<subseteq> {b. \<exists>w. dep_path E v b w}"
  proof
    fix b assume "b \<in> fst ` set ts"
    then obtain off where "(b, off) \<in> set ts" by (metis imageE prod.collapse)
    then show "b \<in> {b. \<exists>w. dep_path E v b w}" using covers_longest [OF assms] by blast
  qed
  show "{b. \<exists>w. dep_path E v b w} \<subseteq> fst ` set ts"
  proof
    fix b assume "b \<in> {b. \<exists>w. dep_path E v b w}"
    then obtain w where "(b, w) \<in> paths E v" by (auto simp: in_paths)
    then obtain off where "(b, off) \<in> set ts" using assms unfolding covers_def by blast
    then show "b \<in> fst ` set ts" by (rule image_eqI [rotated]) simp
  qed
qed

text \<open>The runtime is ready for the values that have identifiers: the table has their registers and no time is near the overflow.\<close>

definition registers_ready :: "PassState \<Rightarrow> 'm KremlinProfiler \<Rightarrow> table_ptr \<Rightarrow> Table \<Rightarrow> bool" where
  "registers_ready s p a t \<longleftrightarrow> enabled p \<and> ready p a t \<and> card (dom (id_map s)) < 2 ^ 31
     \<and> (\<forall>u \<in> dom (id_map s). reg_ok t (num s u) \<and> (\<forall>k < depth p. reg_time t (num s u) k < 2 ^ 63))"

lemma placed_call:
  assumes "static_dag E rank" "short_paths E" "rank v < n" "pass_inv E s0"
    and "requireValTimestampBeforeUser E n v user s0 = Some (ci, s)"
  shows "pass_inv E s \<and> call_ok E s v ci"
proof -
  from requireVal_ok [OF getTimestamp_ok [OF assms(1-3)] assms(4), of user] assms(5)
  have "pass_inv E s" "placed s v = Some ci" unfolding requireValTimestampBeforeUser_def by auto
  then show ?thesis unfolding pass_inv_def by blast
qed

text \<open>
  C7. Requiring a value's timestamp before a user: with enough fuel it returns; the value has a call that
  is constrained to stand before the user and, for an instruction, before the end of its own block, so that
  control dependences are preserved; asking again finds the same call; the invariant of the pass holds.
\<close>

theorem require_places_call:
  assumes "static_dag E rank" "short_paths E" "rank v < n" "pass_inv E s"
  shows "\<exists>ci s'. requireValTimestampBeforeUser E n v user s = Some (ci, s') \<and> placed s' v = Some ci
     \<and> ci < length (new_insts s') \<and> (New ci, user) \<in> set (constraints s')
     \<and> (is_instruction (fn E) v \<longrightarrow> (New ci, Orig (bb_terminator (fn E) (val_block (fn E) v))) \<in> set (constraints s'))
     \<and> (\<forall>user'. map_option fst (requireValTimestampBeforeUser E n v user' s') = Some ci) \<and> pass_inv E s'"
proof -
  from requireVal_ok [OF getTimestamp_ok [OF assms(1-3)] assms(4), of user] obtain ci s' where
    *: "requireValTimestampBeforeUser E n v user s = Some (ci, s')" "pass_inv E s'" "placed s' v = Some ci"
      "(New ci, user) \<in> set (constraints s')"
    unfolding requireValTimestampBeforeUser_def by blast
  then have "call_ok E s' v ci" unfolding pass_inv_def by blast
  moreover have "map_option fst (requireValTimestampBeforeUser E n v user' s') = Some ci" for user'
    by (simp add: requireValTimestampBeforeUser_def requireVal_def *(3))
  ultimately show ?thesis using * unfolding call_ok_def by blast
qed

text \<open>
  C3. Static analysis and runtime together: where a value has fewer than eight bases, the call the pass
  places for it, when it runs, sets the value's register at every level to the latest of the control
  dependence and of every base's time plus the work on the longest path from it, and extends the critical
  path to it; the other registers stay.
\<close>

theorem emitted_stamp_longest:
  assumes "static_dag E rank" "short_paths E" "rank v < n" "pass_inv E s0"
    and "requireValTimestampBeforeUser E n v user s0 = Some (ci, s)"
    and "card {b. \<exists>w. dep_path E v b w} < 8" "registers_ready s p a t"
  shows "\<exists>T. updated_to p a t (num s v) True T (run_stamp ms (new_insts s ! ci) p)
     \<and> (\<forall>k < depth p. longest_time E s p t v k (T k))"
proof -
  from placed_call [OF assms(1-5)] obtain ts where
    ts: "new_insts s ! ci = stamp_call s v ts" "covers ts (paths E v)" "insert v (fst ` set ts) \<subseteq> dom (id_map s)"
    unfolding call_ok_def by blast
  obtain vs where vs: "numbered vs s" using placed_call [OF assms(1-5)] unfolding pass_inv_def by blast
  have bases: "fst ` set ts = {b. \<exists>w. dep_path E v b w}" by (rule covers_bases [OF ts(2)])
  have "distinct (map fst ts)" using ts(2) distinct_entries unfolding covers_def by blast
  then have "card (fst ` set ts) = length ts" using distinct_card [of "map fst ts"] by simp
  then have few: "length ts < NUM_SPECIALIZED" using assms(6) bases by (simp add: NUM_SPECIALIZED_def)
  have rr: "enabled p" "ready p a t" "card (dom (id_map s)) < 2 ^ 31"
    "\<forall>u \<in> dom (id_map s). reg_ok t (num s u)"
    "\<forall>u \<in> dom (id_map s). \<forall>k < depth p. reg_time t (num s u) k < 2 ^ 63"
    using assms(7) unfolding registers_ready_def by blast+
  have "length vs < 2 ^ 31" using rr(3) vs distinct_card [of vs] unfolding numbered_def by simp
  from stamp_srcs_later [OF assms(1) ts(2) vs this ts(3) rr(4), of 4]
  have "\<forall>(r, off) \<in> set (drop 5 (stamp_srcs s ts)). to_int r \<noteq> to_int (num s v)" by simp
  moreover have "\<forall>u \<in> insert v (fst ` set ts). reg_ok t (num s u)" using rr(4) ts(3) by blast
  ultimately have "updated_to p a t (num s v) True (latest p t True (stamp_srcs s ts)) (run_stamp ms (new_insts s ! ci) p)"
    unfolding ts(1) by (intro run_stamp_few [OF few rr(1,2)])
  moreover have "longest_time E s p t v k (latest p t True (stamp_srcs s ts) k)" if "k < depth p" for k
    by (rule latest_longest_time [OF ts(2)]) (use rr(5) ts(3) that in blast)
  ultimately show ?thesis by (intro exI [of _ "latest p t True (stamp_srcs s ts)"] conjI allI impI)
qed

text \<open>
  C4. The variadic call loses sources: for a value with eight to ten bases the pass emits the variadic
  call, which the runtime computes in batches of five that overwrite each other, so the register gets the
  latest of the control dependence and the bases after the fifth (in the order of addresses) only.
\<close>

theorem emitted_stamp_loses:
  assumes "static_dag E rank" "short_paths E" "rank v < n" "pass_inv E s0"
    and "requireValTimestampBeforeUser E n v user s0 = Some (ci, s)"
    and "8 \<le> card {b. \<exists>w. dep_path E v b w}" "card {b. \<exists>w. dep_path E v b w} \<le> 10" "registers_ready s p a t"
  shows "\<exists>ts p' t'. sorted_wrt (<) (map fst ts)
     \<and> (\<forall>b off. (b, off) \<in> set ts \<longleftrightarrow> dep_path E v b (unat off) \<and> (\<forall>w. dep_path E v b w \<longrightarrow> w \<le> unat off))
     \<and> run_stamp ms (new_insts s ! ci) p = Some p' \<and> tables p' a = Some t'
     \<and> dest_updated t t' (num s v) (latest p t True (stamp_srcs s (drop 5 ts))) (depth p)"
proof -
  from placed_call [OF assms(1-5)] obtain ts where
    ts: "new_insts s ! ci = stamp_call s v ts" "covers ts (paths E v)" "insert v (fst ` set ts) \<subseteq> dom (id_map s)"
    unfolding call_ok_def by blast
  obtain vs where vs: "numbered vs s" using placed_call [OF assms(1-5)] unfolding pass_inv_def by blast
  have sorted: "sorted_wrt (<) (map fst ts)" using ts(2) unfolding covers_def by blast
  have "card (fst ` set ts) = length ts" using distinct_card [of "map fst ts"] distinct_entries [OF sorted] by simp
  then have len: "8 \<le> length ts" "length ts \<le> 10" using assms(6,7) covers_bases [OF ts(2)] by simp_all
  have rr: "enabled p" "ready p a t" "card (dom (id_map s)) < 2 ^ 31" "\<forall>u \<in> dom (id_map s). reg_ok t (num s u)"
    using assms(8) unfolding registers_ready_def by blast+
  have "length vs < 2 ^ 31" using rr(3) vs distinct_card [of vs] unfolding numbered_def by simp
  from stamp_srcs_later [OF assms(1) ts(2) vs this ts(3) rr(4), of 4]
  have later: "\<forall>(r, off) \<in> set (drop 5 (stamp_srcs s ts)). to_int r \<noteq> to_int (num s v)" by simp
  let ?xs = "take 5 (stamp_srcs s ts)" and ?ys = "drop 5 (stamp_srcs s ts)"
  have all: "\<forall>(r, off) \<in> set (stamp_srcs s ts). reg_ok t r"
    using rr(4) ts(3) unfolding stamp_srcs_def by force
  have xs: "\<forall>(r, off) \<in> set ?xs. reg_ok t r" using all by (meson in_set_takeD)
  have ys: "\<forall>(r, off) \<in> set ?ys. reg_ok t r \<and> to_int r \<noteq> to_int (num s v)"
    using all later by (fast dest: in_set_dropD)
  have parts: "length ?xs = 5" "?ys \<noteq> []" "length ?ys \<le> 5" using len by (simp_all add: stamp_srcs_def)
  have "reg_ok t (num s v)" using rr(4) ts(3) by blast
  from handleTimestamp_beyond5 [OF rr(1,2) this parts xs ys, of ms]
  obtain p' t' where r: "handleTimestamp ms (num s v) (of_nat (length (?xs @ ?ys))) (flat_args (?xs @ ?ys)) p = Some p'"
    "tables p' a = Some t'" "dest_updated t t' (num s v) (latest p t True ?ys) (depth p)" by blast
  have "run_stamp ms (new_insts s ! ci) p
      = handleTimestamp ms (num s v) (of_nat (length (?xs @ ?ys))) (flat_args (?xs @ ?ys)) p"
    using len by (simp add: ts(1) run_stamp_def stamp_call_def NUM_SPECIALIZED_def flat_ids_nums arg_nums_flat
        stamp_srcs_def)
  moreover have "?ys = stamp_srcs s (drop 5 ts)" by (simp add: stamp_srcs_def drop_map)
  ultimately have "run_stamp ms (new_insts s ! ci) p = Some p'"
    "dest_updated t t' (num s v) (latest p t True (stamp_srcs s (drop 5 ts))) (depth p)" using r by simp_all
  with r(2) sorted covers_longest [OF ts(2)] show ?thesis by blast
qed

section \<open>Witnesses\<close>

lemma sample_instructions: "is_instruction (fn sample_env) 4"
  by (simp add: sample_eval)

lemma sample_works: "work_of sample_env 2 = 2" "work_of sample_env 3 = 1" "work_of sample_env 4 = 2"
  by (simp_all add: work_of_def sample_facts)

lemma sample_required:
  "\<exists>s. requireValTimestampBeforeUser sample_env 5 4 (Orig 8) PassState_new = Some (0, s)
     \<and> id_map s = [4 \<mapsto> 1, 0 \<mapsto> 2, 1 \<mapsto> 3]"
  by (simp add: requireValTimestampBeforeUser_def requireVal_def getTimestamp_numeral work_op_getTimestamp_def
      add_source_def shift_candidates_def PassState_new_def sample_facts to_log_call_def getId_def create_def
      constrainInstPlacement_def NUM_SPECIALIZED_def sample_instructions Let_def del: One_nat_def)

theorem require_places_call_witness:
  "\<exists>s'. requireValTimestampBeforeUser sample_env 5 4 (Orig 8) PassState_new = Some (0, s')
     \<and> (New 0, Orig 8) \<in> set (constraints s') \<and> pass_inv sample_env s'"
proof -
  obtain s where s: "requireValTimestampBeforeUser sample_env 5 4 (Orig 8) PassState_new = Some (0, s)"
    using sample_required by blast
  have "(if (4::nat) = 5 then 2 else 4) < (5::nat)" by simp
  from require_places_call [OF sample_dag sample_short this pass_inv_new, of "Orig 8"] s show ?thesis by auto
qed

lemma sample_bases: "{b. \<exists>w. dep_path sample_env 4 b w} = {0, 1}"
proof -
  have "(if (4::nat) = 5 then 2 else 4) < (5::nat)" by simp
  from analysis_okE [OF getTimestamp_ok [OF sample_dag sample_short this] pass_inv_new] obtain ts s' where
    r: "getTimestamp sample_env 5 4 PassState_new = Some (ts, s')" "covers ts (paths sample_env 4)" .
  have "map_option fst (getTimestamp sample_env 5 4 PassState_new) = Some [(0, 3), (1, 5)]"
    by (simp add: getTimestamp_numeral work_op_getTimestamp_def add_source_def shift_candidates_def
        PassState_new_def sample_facts del: One_nat_def)
  then have "ts = [(0, 3), (1, 5)]" unfolding r(1) by simp
  then show ?thesis using covers_bases [OF r(2)] by simp
qed

lemma sample_registers:
  assumes "id_map s = [4 \<mapsto> 1, 0 \<mapsto> 2, 1 \<mapsto> 3]"
  shows "registers_ready s sample_prof 0 sample_regs" "num s 4 = 1" "num s 0 = 2" "num s 1 = 3"
proof -
  have d: "dom (id_map s) = {4, 0, 1}" by (auto simp: assms)
  show n: "num s 4 = 1" "num s 0 = 2" "num s 1 = 3" by (simp_all add: num_def assms)
  have regs: "reg_ok sample_regs 1" "reg_ok sample_regs 2" "reg_ok sample_regs 3" by (simp_all add: sample_ready(4))
  have times: "reg_time sample_regs 1 0 < 2 ^ 63" "reg_time sample_regs 2 0 < 2 ^ 63" "reg_time sample_regs 3 0 < 2 ^ 63"
    by (simp_all add: cell_def sample_regs_def)
  show "registers_ready s sample_prof 0 sample_regs"
    unfolding registers_ready_def d using n sample_ready(1-3) regs times by simp
qed

theorem emitted_stamp_longest_witness:
  "\<exists>s p' T. requireValTimestampBeforeUser sample_env 5 4 (Orig 8) PassState_new = Some (0, s)
     \<and> run_stamp sample_ms (new_insts s ! 0) sample_prof = Some p' \<and> getRegisterTimeAtIndex 1 0 p' = Some T \<and> 8 \<le> T"
proof -
  obtain s where s: "requireValTimestampBeforeUser sample_env 5 4 (Orig 8) PassState_new = Some (0, s)"
    "id_map s = [4 \<mapsto> 1, 0 \<mapsto> 2, 1 \<mapsto> 3]" using sample_required by blast
  note reg = sample_registers [OF s(2)]
  have "(if (4::nat) = 5 then 2 else 4) < (5::nat)" "card {b. \<exists>w. dep_path sample_env 4 b w} < 8"
    by (simp_all add: sample_bases)
  from emitted_stamp_longest [OF sample_dag sample_short this(1) pass_inv_new s(1) this(2) reg(1), of sample_ms]
  obtain T where T: "updated_to sample_prof 0 sample_regs 1 True T (run_stamp sample_ms (new_insts s ! 0) sample_prof)"
    "longest_time sample_env s sample_prof sample_regs 4 0 (T 0)" by (auto simp: reg sample_ready)
  have "dep_path sample_env 1 1 0" by (rule dep_path.live_in) (simp add: sample_facts del: One_nat_def)
  from dep_path.through [OF _ _ _ this, of 2] have "dep_path sample_env 2 1 (0 + work_of sample_env 2)"
    by (simp add: sample_facts sources_def live_in_source_def del: One_nat_def)
  from dep_path.through [OF _ _ _ this, of 3]
  have "dep_path sample_env 3 1 (0 + work_of sample_env 2 + work_of sample_env 3)"
    by (simp add: sample_facts sources_def live_in_source_def del: One_nat_def)
  from dep_path.through [OF _ _ _ this, of 4]
  have "dep_path sample_env 4 1 (0 + work_of sample_env 2 + work_of sample_env 3 + work_of sample_env 4)"
    by (simp add: sample_facts sources_def live_in_source_def del: One_nat_def)
  moreover have "0 + work_of sample_env 2 + work_of sample_env 3 + work_of sample_env 4 = 5" by (simp add: sample_works)
  ultimately have "dep_path sample_env 4 1 5" by (simp only:)
  then have "reg_time sample_regs (num s 1) 0 + of_nat 5 \<le> T 0" using T(2) unfolding longest_time_def by blast
  then have "8 \<le> T 0" by (simp add: reg(4) cell_def sample_regs_def del: One_nat_def)
  with updated_to_get [OF T(1) sample_ready(2), of 0] s(1) show ?thesis by (auto simp: sample_ready)
qed

text \<open>A value with eight arguments as operands; the first of them has the latest time.\<close>

definition wide_env :: PassEnv where
  "wide_env = sample_env\<lparr>fn := sample_fn\<lparr>
     val_kind := (\<lambda>v. if v < 8 then VArgument else if v = 8 then VInstruction OGetElementPtr else VOther),
     val_operands := (\<lambda>v. if v = 8 then [0, 1, 2, 3, 4, 5, 6, 7] else [])\<rparr>\<rparr>"

definition wide_regs :: Table where
  "wide_regs = \<lparr>row = 10, col = 1, array = [0, 0, 100, 0, 0, 0, 0, 0, 0, 0]\<rparr>"

definition wide_prof :: "unit KremlinProfiler" where
  "wide_prof = sample_prof\<lparr>tables := [0 \<mapsto> wide_regs]\<rparr>"

lemma wide_facts:
  "v < 8 \<Longrightarrow> classify wide_env v = LIVE_IN" "classify wide_env 8 = CONSTANT_WORK_OP" "8 < v \<Longrightarrow> classify wide_env v = CONSTANT"
  "val_operands (fn wide_env) 8 = [0, 1, 2, 3, 4, 5, 6, 7]" "getWork wide_env 8 = Some 0"
  "controlling_conditions wide_env 8 = Some []" "isLiveInRegion wide_env bb u = False" "is_instruction (fn wide_env) 8"
  by (simp_all add: wide_env_def sample_eval isLiveInRegion_def)

lemma wide_class: "classify wide_env v = CONSTANT_WORK_OP \<longleftrightarrow> v = 8" "classify wide_env v = LIVE_IN \<longleftrightarrow> v < 8"
  using wide_facts(1,3) [of v] wide_facts(2) by (cases "v < 8"; cases "v = 8"; force)+

lemma wide_dag: "static_dag wide_env id"
  by (auto simp: static_dag_def wide_class wide_facts sources_def)

lemma wide_paths: "dep_path wide_env v b w \<Longrightarrow> w = 0"
  by (induction rule: dep_path.induct) (auto simp: wide_class work_of_def wide_facts)

lemma wide_short: "short_paths wide_env"
  unfolding short_paths_def using wide_paths by fastforce

lemma wide_live: "u < 8 \<Longrightarrow> dep_path wide_env u b w \<longleftrightarrow> b = u \<and> w = 0"
  using paths_live_in [of wide_env u] in_paths [of b w wide_env u] by (simp add: wide_class)

lemma wide_bases: "{b. \<exists>w. dep_path wide_env 8 b w} = {0, 1, 2, 3, 4, 5, 6, 7}"
proof -
  have "dep_path wide_env 8 b w \<longleftrightarrow> (\<exists>u \<in> {0, 1, 2, 3, 4, 5, 6, 7}. dep_path wide_env u b w)" for b w
    unfolding dep_path_iff [of wide_env 8]
    by (auto simp: wide_class(1) wide_class(2) [of 8] wide_facts sources_def live_in_source_def work_of_def)
  then have "dep_path wide_env 8 b w \<longleftrightarrow> b \<in> {0, 1, 2, 3, 4, 5, 6, 7} \<and> w = 0" for b w
    by (auto simp: wide_live)
  then show ?thesis by auto
qed

lemma wide_required:
  "\<exists>s. requireValTimestampBeforeUser wide_env 9 8 (Orig 8) PassState_new = Some (0, s)
     \<and> id_map s = [8 \<mapsto> 1, 0 \<mapsto> 2, 1 \<mapsto> 3, 2 \<mapsto> 4, 3 \<mapsto> 5, 4 \<mapsto> 6, 5 \<mapsto> 7, 6 \<mapsto> 8, 7 \<mapsto> 9]"
  by (simp add: requireValTimestampBeforeUser_def requireVal_def getTimestamp_numeral work_op_getTimestamp_def
      add_source_def shift_candidates_def PassState_new_def wide_facts to_log_call_def getId_def create_def
      constrainInstPlacement_def NUM_SPECIALIZED_def Let_def del: One_nat_def)

lemma wide_ready: "ready wide_prof 0 wide_regs" "enabled wide_prof" "depth wide_prof = 1"
  "reg_ok wide_regs r \<longleftrightarrow> 0 \<le> to_int r \<and> to_int r < 10"
  by (simp_all add: wide_prof_def sample_prof_def wide_regs_def ready_def ctrl_ready_def levels_ready_def
      regs_ready_def table_ok_def KremlinProfiler_new_def getElementAddr_def getOffset_def reg_ok_def)

theorem emitted_stamp_loses_witness:
  "\<exists>s p' t'. requireValTimestampBeforeUser wide_env 9 8 (Orig 8) PassState_new = Some (0, s)
     \<and> dep_path wide_env 8 0 0 \<and> reg_time wide_regs (num s 0) 0 = 100
     \<and> run_stamp sample_ms (new_insts s ! 0) wide_prof = Some p' \<and> tables p' 0 = Some t' \<and> reg_time t' (num s 8) 0 = 3"
proof -
  obtain s where s: "requireValTimestampBeforeUser wide_env 9 8 (Orig 8) PassState_new = Some (0, s)"
    "id_map s = [8 \<mapsto> 1, 0 \<mapsto> 2, 1 \<mapsto> 3, 2 \<mapsto> 4, 3 \<mapsto> 5, 4 \<mapsto> 6, 5 \<mapsto> 7, 6 \<mapsto> 8, 7 \<mapsto> 9]"
    using wide_required by blast
  have d: "dom (id_map s) = {8, 0, 1, 2, 3, 4, 5, 6, 7}" by (auto simp: s(2))
  have n: "num s 8 = 1" "num s 0 = 2" "num s 1 = 3" "num s 2 = 4" "num s 3 = 5" "num s 4 = 6" "num s 5 = 7"
    "num s 6 = 8" "num s 7 = 9" by (simp_all add: num_def s(2))
  have regs: "\<forall>r \<in> {1, 2, 3, 4, 5, 6, 7, 8, 9}. reg_ok wide_regs r \<and> reg_time wide_regs r 0 < 2 ^ 63"
    by (simp add: wide_ready(4)) (simp add: cell_def wide_regs_def)
  have ready: "registers_ready s wide_prof 0 wide_regs"
    unfolding registers_ready_def d using n wide_ready(1-3) regs by simp
  have b: "id 8 < (9 :: nat)" "8 \<le> card {b. \<exists>w. dep_path wide_env 8 b w}" "card {b. \<exists>w. dep_path wide_env 8 b w} \<le> 10"
    by (simp_all add: wide_bases)
  from emitted_stamp_loses [OF wide_dag wide_short b(1) pass_inv_new s(1) b(2,3) ready, of sample_ms]
  obtain ts p' t' where r: "sorted_wrt (<) (map fst ts)"
    "\<forall>b off. (b, off) \<in> set ts \<longleftrightarrow> dep_path wide_env 8 b (unat off) \<and> (\<forall>w. dep_path wide_env 8 b w \<longrightarrow> w \<le> unat off)"
    "run_stamp sample_ms (new_insts s ! 0) wide_prof = Some p'" "tables p' 0 = Some t'"
    "dest_updated wide_regs t' (num s 8) (latest wide_prof wide_regs True (stamp_srcs s (drop 5 ts))) (depth wide_prof)"
    by blast
  have paths: "dep_path wide_env 8 u w \<longleftrightarrow> u \<in> {0, 1, 2, 3, 4, 5, 6, 7} \<and> w = 0" for u w
    using wide_bases wide_paths by blast
  have "(u, off) \<in> set ts \<longleftrightarrow> u \<in> {0, 1, 2, 3, 4, 5, 6, 7} \<and> off = 0" for u off
    using r(2) paths by (auto simp: unat_eq_0)
  then have set: "set ts = (\<lambda>u. (u, 0)) ` {0, 1, 2, 3, 4, 5, 6, 7}" by auto
  then have "set (map fst ts) = set [0, 1, 2, 3, 4, 5, 6, 7]" by force
  then have "map fst ts = [0, 1, 2, 3, 4, 5, 6, 7]"
    using r(1) by (intro sorted_distinct_set_unique) (auto simp: strict_sorted_iff)
  moreover have "ts = map (\<lambda>u. (u, 0)) (map fst ts)" using set by (auto intro: map_idI [symmetric])
  ultimately have "ts = map (\<lambda>u. (u, 0)) [0, 1, 2, 3, 4, 5, 6, 7]" by simp
  then have srcs: "stamp_srcs s (drop 5 ts) = [(7, 0), (8, 0), (9, 0)]" by (simp add: stamp_srcs_def n)
  have "latest wide_prof wide_regs True [(7, 0), (8, 0), (9, 0)] 0 = 3"
    by (simp add: latest_def ctrl_time_def cell_def wide_prof_def wide_regs_def sample_prof_def KremlinProfiler_new_def)
  moreover have "in_table wide_regs 1 0" by (simp add: in_table_def wide_regs_def)
  ultimately have "reg_time t' (num s 8) 0 = 3" using r(5) by (simp add: srcs n dest_updated_def wide_ready)
  moreover have "reg_time wide_regs (num s 0) 0 = 100" by (simp add: n cell_def wide_regs_def)
  moreover have "dep_path wide_env 8 0 0" by (simp add: paths)
  ultimately show ?thesis using s(1) r(3,4) by blast
qed

end
