(* ===== verification/Placement.thy ===== *)
theory Placement
  imports StaticTimestamps
begin

text \<open>
  The placement of the created instructions (\<open>instrument/src/Placer.cpp\<close>): as late as possible, but before
  all their users. Sets of nodes are lists; their order is that of addresses, so nothing may depend on it.
\<close>

section \<open>The graph of users\<close>

record Placer =
  nodes :: "PInst list"
  users :: "PInst \<Rightarrow> PInst list"
  dependencies :: "PInst \<Rightarrow> PInst list"

definition Placer_new :: Placer where
  "Placer_new = \<lparr>nodes = [], users = (\<lambda>i. []), dependencies = (\<lambda>i. [])\<rparr>"

definition getOrCreateNode :: "PInst \<Rightarrow> Placer \<Rightarrow> Placer" where
  "getOrCreateNode i P = (if i \<in> set (nodes P) then P else P\<lparr>nodes := nodes P @ [i]\<rparr>)"

definition addUser :: "PInst \<Rightarrow> PInst \<Rightarrow> Placer \<Rightarrow> Placer" where
  "addUser i user P = P\<lparr>users := (users P)(i := List.insert user (users P i)),
     dependencies := (dependencies P)(user := List.insert i (dependencies P user))\<rparr>"

definition addInstForPlacement :: "PInst \<Rightarrow> PInst list \<Rightarrow> Placer \<Rightarrow> Placer" where
  "addInstForPlacement call us P = fold (\<lambda>user P. addUser call user (getOrCreateNode user P)) us (getOrCreateNode call P)"

text \<open>The graph of the constraints the pass has collected.\<close>

definition placer_of :: "(PInst \<times> PInst) list \<Rightarrow> Placer" where
  "placer_of cs = fold (\<lambda>(i, user). addInstForPlacement i [user]) cs Placer_new"

section \<open>Instructions in blocks\<close>

record Layout =
  insts :: "Block \<Rightarrow> PInst list"
  parent :: "PInst \<Rightarrow> Block option"

fun insert_before :: "'a \<Rightarrow> 'a \<Rightarrow> 'a list \<Rightarrow> 'a list" where
  "insert_before new at [] = []"
| "insert_before new at (x # xs) = (if x = at then new # x # xs else x # insert_before new at xs)"

definition insertBefore :: "PInst \<Rightarrow> PInst \<Rightarrow> Layout \<Rightarrow> Layout option" where
  "insertBefore new at L = do {
     b \<leftarrow> parent L at;
     Some (L\<lparr>insts := (insts L)(b := insert_before new at (insts L b)), parent := (parent L)(new \<mapsto> b)\<rparr>) }"

section \<open>Placing\<close>

text \<open>The nearest common dominator of the users' blocks.\<close>

fun common_dom :: "LlvmFunction \<Rightarrow> Layout \<Rightarrow> PInst list \<Rightarrow> Block \<Rightarrow> Block option" where
  "common_dom F L [] cd = Some cd"
| "common_dom F L (u # us) cd = do { b \<leftarrow> parent L u; cd \<leftarrow> common_dominator F cd b; common_dom F L us cd }"

definition earliest_user :: "LlvmFunction \<Rightarrow> Layout \<Rightarrow> PInst list \<Rightarrow> Block \<Rightarrow> PInst" where
  "earliest_user F L us b =
     (case find (\<lambda>i. i \<in> set us) (insts L b) of Some i \<Rightarrow> i | None \<Rightarrow> Orig (bb_terminator F b))"

definition place_node :: "LlvmFunction \<Rightarrow> Placer \<Rightarrow> PInst \<Rightarrow> Layout \<Rightarrow> Layout option" where
  "place_node F P i L =
     (if parent L i \<noteq> None then Some L
      else (case users P i of
          [] \<Rightarrow> None
        | u # us \<Rightarrow> do {
            b \<leftarrow> parent L u;
            cd \<leftarrow> common_dom F L (u # us) b;
            insertBefore i (earliest_user F L (u # us) cd) L }))"

text \<open>
  One step of the release of the dependencies; the head of the list is the back of the vector. The loop has
  the number of nodes as fuel.
\<close>

definition release :: "PInst \<Rightarrow> PInst list \<times> (PInst \<Rightarrow> nat) \<Rightarrow> PInst list \<times> (PInst \<Rightarrow> nat)" where
  "release dep = (\<lambda>(st, unplaced).
     let unplaced = unplaced(dep := unplaced dep - 1) in
     (if unplaced dep = 0 then dep # st else st, unplaced))"

fun place_loop :: "LlvmFunction \<Rightarrow> Placer \<Rightarrow> nat \<Rightarrow> PInst list \<times> (PInst \<Rightarrow> nat) \<Rightarrow> Layout \<Rightarrow> Layout option" where
  "place_loop F P n ([], unplaced) L = Some L"
| "place_loop F P 0 (i # st, unplaced) L = None"
| "place_loop F P (Suc n) (i # st, unplaced) L = do {
     L \<leftarrow> place_node F P i L;
     place_loop F P n (fold release (dependencies P i) (st, unplaced)) L }"

definition placeInsts :: "LlvmFunction \<Rightarrow> Placer \<Rightarrow> Layout \<Rightarrow> Layout option" where
  "placeInsts F P L =
     (let unplaced = (\<lambda>i. length (users P i)) in
      place_loop F P (length (nodes P)) (rev (filter (\<lambda>i. unplaced i = 0) (nodes P)), unplaced) L)"

section \<open>The graph is consistent\<close>

definition graph_ok :: "Placer \<Rightarrow> bool" where
  "graph_ok P \<longleftrightarrow> distinct (nodes P) \<and> (\<forall>i. distinct (users P i) \<and> distinct (dependencies P i)
     \<and> set (users P i) \<subseteq> set (nodes P) \<and> set (dependencies P i) \<subseteq> set (nodes P))
     \<and> (\<forall>i u. u \<in> set (users P i) \<longleftrightarrow> i \<in> set (dependencies P u))"

lemma graph_ok_new: "graph_ok Placer_new"
  by (simp add: graph_ok_def Placer_new_def)

lemma graph_ok_node: "graph_ok P \<Longrightarrow> graph_ok (getOrCreateNode i P)"
  unfolding graph_ok_def getOrCreateNode_def by auto

lemma graph_ok_user: "graph_ok P \<Longrightarrow> i \<in> set (nodes P) \<Longrightarrow> u \<in> set (nodes P) \<Longrightarrow> graph_ok (addUser i u P)"
  unfolding graph_ok_def addUser_def by auto

lemma node_created: "i \<in> set (nodes (getOrCreateNode i P)) \<and> set (nodes P) \<subseteq> set (nodes (getOrCreateNode i P))"
  by (auto simp: getOrCreateNode_def)

lemma users_kept: "set (users P i) \<subseteq> set (users (addUser j u P) i)" "users (getOrCreateNode j P) = users P"
  by (auto simp: addUser_def getOrCreateNode_def)

lemma placer_of_snoc: "placer_of (cs @ [(i, u)]) = addUser i u (getOrCreateNode u (getOrCreateNode i (placer_of cs)))"
  by (simp add: placer_of_def addInstForPlacement_def)

text \<open>The users in the graph are those of the constraints.\<close>

lemma placer_of_ok: "graph_ok (placer_of cs) \<and> (\<forall>i u. u \<in> set (users (placer_of cs) i) \<longleftrightarrow> (i, u) \<in> set cs)
   \<and> set (nodes (placer_of cs)) = fst ` set cs \<union> snd ` set cs"
proof (induction cs rule: rev_induct)
  case Nil
  then show ?case by (simp add: placer_of_def graph_ok_new) (simp add: Placer_new_def)
next
  case (snoc c cs)
  obtain i u where c: "c = (i, u)" by (cases c)
  let ?P = "getOrCreateNode u (getOrCreateNode i (placer_of cs))"
  have ok: "graph_ok ?P" by (rule graph_ok_node [OF graph_ok_node [OF conjunct1 [OF snoc.IH]]])
  have mem: "i \<in> set (nodes ?P)" "u \<in> set (nodes ?P)" 
    by (rule subsetD [OF conjunct2 [OF node_created] conjunct1 [OF node_created]], rule conjunct1 [OF node_created])
  have old: "\<And>i u. u \<in> set (users (placer_of cs) i) \<longleftrightarrow> (i, u) \<in> set cs"
    using conjunct1 [OF conjunct2 [OF snoc.IH]] by blast
  have "nodes (addUser i u ?P) = nodes ?P" by (simp add: addUser_def)
  moreover have "set (nodes ?P) = insert u (insert i (set (nodes (placer_of cs))))"
    by (auto simp: getOrCreateNode_def)
  moreover have users: "v \<in> set (users (addUser i u ?P) j) \<longleftrightarrow> (j, v) \<in> set (cs @ [c])" for j v
    by (auto simp: addUser_def users_kept(2) c old)
  ultimately have "set (nodes (addUser i u ?P)) = fst ` set (cs @ [c]) \<union> snd ` set (cs @ [c])"
    using snoc.IH by (simp add: c)
  with users graph_ok_user [OF ok mem] show ?case by (simp add: placer_of_snoc c)
qed

section \<open>Insertion keeps the order\<close>

text \<open>The first comes strictly before the second.\<close>

definition precedes :: "'a \<Rightarrow> 'a \<Rightarrow> 'a list \<Rightarrow> bool" where
  "precedes x y xs \<longleftrightarrow> (\<exists>as bs cs. xs = as @ x # bs @ y # cs)"

lemma insert_before_split: "at \<in> set xs \<Longrightarrow> \<exists>as bs. xs = as @ at # bs \<and> at \<notin> set as \<and> insert_before new at xs = as @ new # at # bs"
proof (induction xs)
  case (Cons x xs)
  show ?case
  proof (cases "x = at")
    case True
    then show ?thesis by (intro exI [of _ "[]"] exI [of _ xs]) simp
  next
    case False
    with Cons obtain as bs where "xs = as @ at # bs" "at \<notin> set as" "insert_before new at xs = as @ new # at # bs" by auto
    with False show ?thesis by (intro exI [of _ "x # as"] exI [of _ bs]) simp
  qed
qed simp

lemma insert_before_id: "at \<notin> set xs \<Longrightarrow> insert_before new at xs = xs"
  by (induction xs) auto

lemma set_insert_before: "at \<in> set xs \<Longrightarrow> set (insert_before new at xs) = insert new (set xs)"
  using insert_before_split [of at xs new] by auto

lemma distinct_insert_before: "at \<in> set xs \<Longrightarrow> distinct xs \<Longrightarrow> new \<notin> set xs \<Longrightarrow> distinct (insert_before new at xs)"
  using insert_before_split [of at xs new] by auto

text \<open>Order by positions: \<open>x\<close> precedes \<open>y\<close> if \<open>y\<close> is in what follows \<open>x\<close>.\<close>

lemma precedes_Cons: "precedes x y (z # xs) \<longleftrightarrow> (z = x \<and> y \<in> set xs) \<or> precedes x y xs"
proof
  assume "precedes x y (z # xs)"
  then obtain as bs cs where *: "z # xs = as @ x # bs @ y # cs" unfolding precedes_def by blast
  show "(z = x \<and> y \<in> set xs) \<or> precedes x y xs"
  proof (cases as)
    case Nil
    with * show ?thesis by auto
  next
    case (Cons a as')
    with * show ?thesis unfolding precedes_def by auto
  qed
next
  assume "(z = x \<and> y \<in> set xs) \<or> precedes x y xs"
  then show "precedes x y (z # xs)"
  proof
    assume "z = x \<and> y \<in> set xs"
    then show ?thesis unfolding precedes_def by (metis append_Nil split_list)
  next
    assume "precedes x y xs"
    then show ?thesis unfolding precedes_def by (metis append_Cons)
  qed
qed

lemma precedes_Nil [simp]: "\<not> precedes x y []"
  by (simp add: precedes_def)

lemma precedes_insert_before: "precedes x y xs \<Longrightarrow> precedes x y (insert_before new at xs)"
proof (induction xs)
  case (Cons z xs)
  have "y \<in> set xs \<Longrightarrow> y \<in> set (insert_before new at xs)"
    by (cases "at \<in> set xs") (simp_all add: set_insert_before, metis insert_before_id)
  then show ?case using Cons by (auto simp: precedes_Cons)
qed simp

section \<open>Placed instructions come before their users\<close>

text \<open>The documented laws of the dominator tree.\<close>

definition dominance_laws :: "LlvmFunction \<Rightarrow> bool" where
  "dominance_laws F \<longleftrightarrow> (\<forall>a. dominates F a a) \<and> (\<forall>a b c. dominates F a b \<longrightarrow> dominates F b c \<longrightarrow> dominates F a c)
     \<and> (\<forall>a b c. common_dominator F a b = Some c \<longrightarrow> dominates F c a \<and> dominates F c b)"

definition layout_ok :: "LlvmFunction \<Rightarrow> Layout \<Rightarrow> bool" where
  "layout_ok F L \<longleftrightarrow> (\<forall>i b. i \<in> set (insts L b) \<longleftrightarrow> parent L i = Some b)
     \<and> (\<forall>b. parent L (Orig (bb_terminator F b)) = Some b)"

text \<open>On every path to the user the instruction comes first: its block dominates the user's, in the same block it stands before.\<close>

definition before :: "LlvmFunction \<Rightarrow> Layout \<Rightarrow> PInst \<Rightarrow> PInst \<Rightarrow> bool" where
  "before F L i u \<longleftrightarrow> (\<exists>b c. parent L i = Some b \<and> parent L u = Some c \<and> dominates F b c
     \<and> (b = c \<longrightarrow> precedes i u (insts L b)))"

definition well_placed :: "LlvmFunction \<Rightarrow> Placer \<Rightarrow> Layout \<Rightarrow> PInst \<Rightarrow> bool" where
  "well_placed F P L i \<longleftrightarrow> (\<forall>u \<in> set (users P i). before F L i u)"

lemma insertBefore_effect:
  assumes "insertBefore new at L = Some L'" "layout_ok F L" "parent L new = None"
  shows "layout_ok F L'" "\<And>i b. parent L i = Some b \<Longrightarrow> parent L' i = Some b" "parent L' new = parent L at"
    "\<And>i u. before F L i u \<Longrightarrow> before F L' i u" "\<And>i. i \<noteq> new \<Longrightarrow> parent L' i = parent L i"
proof -
  obtain b where b: "parent L at = Some b"
    and L': "L' = L\<lparr>insts := (insts L)(b := insert_before new at (insts L b)), parent := (parent L)(new \<mapsto> b)\<rparr>"
    using assms(1) by (auto simp: insertBefore_def split: bind_splits)
  have at: "at \<in> set (insts L b)" using assms(2) b unfolding layout_ok_def by blast
  show old: "parent L' i = Some c" if "parent L i = Some c" for i c
    using that assms(3) by (auto simp: L')
  show other: "parent L' i = parent L i" if "i \<noteq> new" for i using that by (simp add: L')
  show "parent L' new = parent L at" by (simp add: L' b)
  show "layout_ok F L'"
    using assms(2,3) set_insert_before [OF at, of new] unfolding layout_ok_def by (auto simp: L')
  show "before F L' i u" if bf: "before F L i u" for i u
  proof -
    from bf obtain c d where cd: "parent L i = Some c" "parent L u = Some d" "dominates F c d"
      "c = d \<longrightarrow> precedes i u (insts L c)" unfolding before_def by blast
    have "c = d \<longrightarrow> precedes i u (insts L' c)" using cd(4) precedes_insert_before by (auto simp: L')
    with cd(3) old [OF cd(1)] old [OF cd(2)] show ?thesis unfolding before_def by blast
  qed
qed

lemma common_dom_dominates:
  assumes "dominance_laws F"
  shows "common_dom F L us cd = Some d \<Longrightarrow>
     dominates F d cd \<and> (\<forall>u \<in> set us. \<exists>b. parent L u = Some b \<and> dominates F d b)"
proof (induction us arbitrary: cd)
  case Nil
  then show ?case using assms by (simp add: dominance_laws_def)
next
  case (Cons u us)
  from Cons.prems obtain b c where bc: "parent L u = Some b" "common_dominator F cd b = Some c" "common_dom F L us c = Some d"
    by (auto split: bind_splits)
  from Cons.IH [OF bc(3)] have d: "dominates F d c" "\<forall>u \<in> set us. \<exists>b. parent L u = Some b \<and> dominates F d b" by blast+
  have "dominates F c cd" "dominates F c b" using assms bc(2) unfolding dominance_laws_def by blast+
  then have "dominates F d cd" "dominates F d b" using assms d(1) unfolding dominance_laws_def by blast+
  with d(2) bc(1) show ?case by auto
qed

text \<open>The first instruction of the users in a block is before all the others there.\<close>

lemma insert_at_first_user:
  assumes "u \<in> set us" "u \<in> set xs" "find (\<lambda>i. i \<in> set us) xs = Some e"
  shows "precedes new u (insert_before new e xs)"
  using assms(2,3)
proof (induction xs)
  case (Cons x xs)
  show ?case
  proof (cases "x \<in> set us")
    case True
    then have "insert_before new e (x # xs) = new # x # xs" using Cons.prems(2) by simp
    then show ?thesis using Cons.prems(1) by (simp add: precedes_Cons)
  next
    case False
    then have "u \<in> set xs" "find (\<lambda>i. i \<in> set us) xs = Some e" "x \<noteq> e"
      using Cons.prems assms(1) by (auto simp: find_Some_iff)
    then show ?thesis using Cons.IH by (simp add: precedes_Cons)
  qed
qed simp

lemma place_node_ok:
  assumes "dominance_laws F" "layout_ok F L" "place_node F P i L = Some L'"
  shows "layout_ok F L'" "\<And>j b. parent L j = Some b \<Longrightarrow> parent L' j = Some b" "parent L' i \<noteq> None"
    "\<And>j u. before F L j u \<Longrightarrow> before F L' j u" "\<And>j. j \<noteq> i \<Longrightarrow> parent L' j = parent L j"
    "parent L i = None \<Longrightarrow> well_placed F P L' i"
proof -
  have "layout_ok F L' \<and> (\<forall>j b. parent L j = Some b \<longrightarrow> parent L' j = Some b) \<and> parent L' i \<noteq> None
     \<and> (\<forall>j u. before F L j u \<longrightarrow> before F L' j u) \<and> (\<forall>j. j \<noteq> i \<longrightarrow> parent L' j = parent L j)
     \<and> (parent L i = None \<longrightarrow> well_placed F P L' i)"
  proof (cases "parent L i")
    case (Some b)
    then show ?thesis using assms(2,3) by (simp add: place_node_def)
  next
    case None
    from assms(3) None obtain u us b cd where us: "users P i = u # us" "parent L u = Some b"
      "common_dom F L (u # us) b = Some cd" "insertBefore i (earliest_user F L (u # us) cd) L = Some L'"
      by (auto simp: place_node_def simp del: common_dom.simps split: list.splits bind_splits)
    note eff = insertBefore_effect [OF us(4) assms(2) None]
    note dom = common_dom_dominates [OF assms(1) us(3)]
    let ?e = "earliest_user F L (u # us) cd"
    have e: "parent L ?e = Some cd"
    proof (cases "find (\<lambda>i. i \<in> set (u # us)) (insts L cd)")
      case None
      then show ?thesis using assms(2) by (simp add: earliest_user_def layout_ok_def)
    next
      case (Some x)
      then have "x \<in> set (insts L cd)" by (auto simp: find_Some_iff)
      with Some show ?thesis using assms(2) by (simp add: earliest_user_def layout_ok_def)
    qed
    have pi: "parent L' i = Some cd" using eff(3) e by simp
    have "before F L' i v" if v: "v \<in> set (users P i)" for v
    proof -
      from v us(1) dom obtain c where c: "parent L v = Some c" "dominates F cd c" by auto
      have "precedes i v (insts L' cd)" if "cd = c"
      proof -
        have vin: "v \<in> set (insts L cd)" using c(1) that assms(2) unfolding layout_ok_def by blast
        then obtain x where x: "find (\<lambda>i. i \<in> set (u # us)) (insts L cd) = Some x"
          using v us(1) by (cases "find (\<lambda>i. i \<in> set (u # us)) (insts L cd)") (auto simp: find_None_iff)
        have "v \<in> set (u # us)" using v us(1) by simp
        from insert_at_first_user [OF this vin x, of i]
        have "precedes i v (insert_before i ?e (insts L cd))" using x by (simp add: earliest_user_def)
        moreover have "insts L' cd = insert_before i ?e (insts L cd)"
          using us(4) e by (auto simp: insertBefore_def)
        ultimately show ?thesis by simp
      qed
      moreover have "parent L' v = Some c" by (rule eff(2) [OF c(1)])
      ultimately show ?thesis unfolding before_def using pi c(2) by blast
    qed
    then have "well_placed F P L' i" unfolding well_placed_def by blast
    then show ?thesis using eff pi by blast
  qed
  then show "layout_ok F L'" "\<And>j b. parent L j = Some b \<Longrightarrow> parent L' j = Some b" "parent L' i \<noteq> None"
    "\<And>j u. before F L j u \<Longrightarrow> before F L' j u" "\<And>j. j \<noteq> i \<Longrightarrow> parent L' j = parent L j"
    "parent L i = None \<Longrightarrow> well_placed F P L' i" by blast+
qed

text \<open>The loop keeps what is placed well placed, whatever the order.\<close>

definition placement_inv :: "LlvmFunction \<Rightarrow> Placer \<Rightarrow> Layout \<Rightarrow> Layout \<Rightarrow> bool" where
  "placement_inv F P L0 L \<longleftrightarrow> layout_ok F L \<and> (\<forall>j b. parent L0 j = Some b \<longrightarrow> parent L j = Some b)
     \<and> (\<forall>j. parent L0 j = None \<longrightarrow> parent L j \<noteq> None \<longrightarrow> well_placed F P L j)"

lemma place_node_inv:
  assumes "dominance_laws F" "placement_inv F P L0 L" "place_node F P i L = Some L'"
  shows "placement_inv F P L0 L'"
proof -
  have "layout_ok F L" using assms(2) unfolding placement_inv_def by blast
  note eff = place_node_ok [OF assms(1) this assms(3)]
  have "well_placed F P L' j" if j: "parent L0 j = None" "parent L' j \<noteq> None" for j
  proof (cases "parent L j = None")
    case True
    then have "j = i" using eff(5) j(2) by metis
    then show ?thesis using eff(6) True by simp
  next
    case False
    then have "well_placed F P L j" using assms(2) j(1) unfolding placement_inv_def by blast
    then show ?thesis using eff(4) unfolding well_placed_def by blast
  qed
  then show ?thesis using assms(2) eff(1,2) unfolding placement_inv_def by blast
qed

lemma place_loop_inv:
  assumes "dominance_laws F"
  shows "placement_inv F P L0 L \<Longrightarrow> place_loop F P n (st, unplaced) L = Some L' \<Longrightarrow> placement_inv F P L0 L'"
proof (induction n arbitrary: st unplaced L)
  case 0
  then show ?case by (cases st) auto
next
  case (Suc n)
  show ?case
  proof (cases st)
    case Nil
    with Suc.prems show ?thesis by simp
  next
    case (Cons i st')
    with Suc.prems(2) obtain L1 where L1: "place_node F P i L = Some L1"
      "place_loop F P n (fold release (dependencies P i) (st', unplaced)) L1 = Some L'"
      by (auto split: bind_splits)
    obtain st2 un2 where f: "fold release (dependencies P i) (st', unplaced) = (st2, un2)"
      by (cases "fold release (dependencies P i) (st', unplaced)")
    from Suc.IH [OF place_node_inv [OF assms Suc.prems(1) L1(1)]] L1(2) show ?thesis by (simp add: f)
  qed
qed

section \<open>Everything is placed\<close>

text \<open>
  Counting: with a set of nodes done, the count of a node is the number of its users that are not done, and
  the stack holds the nodes that are not done and have none.
\<close>

definition open_users :: "Placer \<Rightarrow> PInst set \<Rightarrow> PInst \<Rightarrow> nat" where
  "open_users P D i = card (set (users P i) - D)"

definition counts_ok :: "Placer \<Rightarrow> PInst set \<Rightarrow> PInst list \<Rightarrow> (PInst \<Rightarrow> nat) \<Rightarrow> bool" where
  "counts_ok P D st unplaced \<longleftrightarrow> distinct st \<and> D \<subseteq> set (nodes P) \<and> (\<forall>d \<in> D. unplaced d = 0)
     \<and> (\<forall>i. unplaced i = open_users P D i) \<and> set st = {i \<in> set (nodes P). i \<notin> D \<and> unplaced i = 0}"

lemma release_fold:
  assumes "distinct ds"
  shows "fold release ds (st, unplaced) =
     (rev (filter (\<lambda>i. unplaced i - 1 = 0) ds) @ st, \<lambda>i. if i \<in> set ds then unplaced i - 1 else unplaced i)"
  using assms
proof (induction ds arbitrary: st unplaced)
  case (Cons d ds)
  have "filter (\<lambda>i. (unplaced(d := unplaced d - 1)) i - 1 = 0) ds = filter (\<lambda>i. unplaced i - 1 = 0) ds"
    using Cons.prems by (intro filter_cong) auto
  moreover have "release d (st, unplaced) =
      (if unplaced d - 1 = 0 then d # st else st, unplaced(d := unplaced d - 1))"
    by (simp add: release_def Let_def)
  ultimately show ?case using Cons by (auto simp: fun_eq_iff)
qed simp

lemma open_users_done:
  assumes "graph_ok P" "x \<notin> D"
  shows "open_users P (insert x D) i = (if i \<in> set (dependencies P x) then open_users P D i - 1 else open_users P D i)"
    and "i \<in> set (dependencies P x) \<Longrightarrow> 0 < open_users P D i"
proof -
  have dep: "i \<in> set (dependencies P x) \<longleftrightarrow> x \<in> set (users P i)" using assms(1) unfolding graph_ok_def by blast
  have "set (users P i) - insert x D = (set (users P i) - D) - {x}" by blast
  then show "open_users P (insert x D) i = (if i \<in> set (dependencies P x) then open_users P D i - 1 else open_users P D i)"
    using assms(2) by (simp add: open_users_def dep card_Diff_singleton_if)
  assume "i \<in> set (dependencies P x)"
  then have "x \<in> set (users P i) - D" using dep assms(2) by blast
  then show "0 < open_users P D i" unfolding open_users_def by (metis List.finite_set card_gt_0_iff empty_iff finite_Diff)
qed

lemma counts_step:
  assumes "graph_ok P" "counts_ok P D (x # st) unplaced"
  shows "\<exists>st' un'. fold release (dependencies P x) (st, unplaced) = (st', un') \<and> counts_ok P (insert x D) st' un'
     \<and> x \<in> set (nodes P) \<and> x \<notin> D \<and> set (users P x) \<subseteq> D"
proof -
  let ?ds = "dependencies P x"
  have ds: "distinct ?ds" "set ?ds \<subseteq> set (nodes P)" using assms(1) unfolding graph_ok_def by blast+
  from assms(2) have st: "distinct (x # st)" "D \<subseteq> set (nodes P)" and un: "\<And>i. unplaced i = open_users P D i"
    and dz: "\<forall>d \<in> D. unplaced d = 0" and set: "set (x # st) = {i \<in> set (nodes P). i \<notin> D \<and> unplaced i = 0}" unfolding counts_ok_def by blast+
  have x: "x \<in> set (nodes P)" "x \<notin> D" "unplaced x = 0" using set by auto
  let ?un = "\<lambda>i. if i \<in> set ?ds then unplaced i - 1 else unplaced i"
  let ?st = "rev (filter (\<lambda>i. unplaced i - 1 = 0) ?ds) @ st"
  have un': "?un i = open_users P (insert x D) i" for i using open_users_done(1) [OF assms(1) x(2), of i] un by simp
  have pos: "0 < unplaced i" if "i \<in> set ?ds" for i using open_users_done(2) [OF assms(1) x(2) that] un by simp
  have disj: "i \<notin> set ?ds" if "i \<in> set (x # st)" for i using pos [of i] set that by auto
  then have "distinct ?st" using st(1) ds(1) by auto
  moreover have "set ?st = {i \<in> set (nodes P). i \<notin> insert x D \<and> ?un i = 0}"
  proof -
    have "set ?st = {i \<in> set ?ds. unplaced i - 1 = 0} \<union> (set (x # st) - {x})" using st(1) by auto
    also have "\<dots> = {i \<in> set (nodes P). i \<notin> insert x D \<and> ?un i = 0}"
    proof -
      have dD: "i \<notin> D" if "i \<in> set ?ds" "unplaced i - 1 = 0" for i
        using pos [OF that(1)] dz by auto
      show ?thesis unfolding set using ds(2) dD disj [of x] by (auto split: if_splits)
    qed
    finally show ?thesis .
  qed
  moreover have "set (users P x) \<subseteq> D"
    using x(3) un [of x] by (simp add: open_users_def)
  moreover have "\<forall>d \<in> insert x D. ?un d = 0" using dz x(3) by simp
  moreover have "insert x D \<subseteq> set (nodes P)" using st(2) x(1) by blast
  ultimately have "counts_ok P (insert x D) ?st ?un" "set (users P x) \<subseteq> D" using un' unfolding counts_ok_def by blast+
  then show ?thesis using release_fold [OF ds(1), of st unplaced] x(1,2) by blast
qed

text \<open>The documented totality of the dominator tree, and a layout in which the function's own instructions stand.\<close>

definition dominators_total :: "LlvmFunction \<Rightarrow> bool" where
  "dominators_total F \<longleftrightarrow> (\<forall>a b. common_dominator F a b \<noteq> None)"

lemma common_dom_total:
  "dominators_total F \<Longrightarrow> \<forall>u \<in> set us. parent L u \<noteq> None \<Longrightarrow> common_dom F L us cd \<noteq> None"
proof (induction us arbitrary: cd)
  case (Cons u us)
  from Cons.prems(2) obtain b where "parent L u = Some b" by auto
  moreover obtain c where "common_dominator F cd b = Some c" using Cons.prems(1) unfolding dominators_total_def by blast
  ultimately show ?case using Cons by simp
qed simp

lemma place_node_total:
  assumes "dominators_total F" "layout_ok F L" "\<forall>u \<in> set (users P i). parent L u \<noteq> None"
    "parent L i = None \<Longrightarrow> users P i \<noteq> []"
  shows "place_node F P i L \<noteq> None"
proof (cases "parent L i")
  case None
  then obtain u us where us: "users P i = u # us" using assms(4) by (cases "users P i") auto
  then obtain b where b: "parent L u = Some b" using assms(3) by auto
  have "common_dom F L (u # us) b \<noteq> None" using common_dom_total [OF assms(1)] assms(3) us by metis
  then obtain cd where cd: "common_dom F L (u # us) b = Some cd" by blast
  have "parent L (earliest_user F L (u # us) cd) \<noteq> None"
  proof (cases "find (\<lambda>i. i \<in> set (u # us)) (insts L cd)")
    case None
    then show ?thesis using assms(2) by (simp add: earliest_user_def layout_ok_def)
  next
    case (Some x)
    then have "x \<in> set (insts L cd)" by (auto simp: find_Some_iff)
    with Some show ?thesis using assms(2) by (simp add: earliest_user_def layout_ok_def)
  qed
  then show ?thesis using None us b cd by (auto simp: place_node_def insertBefore_def simp del: common_dom.simps)
qed (simp add: place_node_def)

lemma place_loop_total:
  assumes "dominance_laws F" "dominators_total F" "graph_ok P"
    and "\<And>i. i \<in> set (nodes P) \<Longrightarrow> parent L0 i = None \<Longrightarrow> users P i \<noteq> []"
  shows "counts_ok P D st unplaced \<Longrightarrow> placement_inv F P L0 L \<Longrightarrow> \<forall>d \<in> D. parent L d \<noteq> None \<Longrightarrow>
     card (set (nodes P) - D) \<le> n \<Longrightarrow>
     \<exists>L' D'. place_loop F P n (st, unplaced) L = Some L' \<and> counts_ok P D' [] (open_users P D') \<and> (\<forall>d \<in> D'. parent L' d \<noteq> None)"
proof (induction n arbitrary: D st unplaced L)
  case 0
  then have "set (nodes P) \<subseteq> D" by (simp add: card_eq_0_iff)
  moreover have "set st = {i \<in> set (nodes P). i \<notin> D \<and> unplaced i = 0}" using "0.prems"(1) unfolding counts_ok_def by blast
  ultimately have "set st = {}" by auto
  then have "st = []" by simp
  moreover have "counts_ok P D [] (open_users P D)"
  proof -
    have "unplaced = open_users P D" using "0.prems"(1) unfolding counts_ok_def by blast
    then show ?thesis using "0.prems"(1) \<open>st = []\<close> by simp
  qed
  ultimately show ?case using "0.prems"(3) by auto
next
  case (Suc n)
  have un: "unplaced = open_users P D" using Suc.prems(1) unfolding counts_ok_def by blast
  show ?case
  proof (cases st)
    case Nil
    then show ?thesis using Suc.prems(1,3) un by auto
  next
    case (Cons x st')
    from counts_step [OF assms(3) Suc.prems(1) [unfolded Cons]] obtain st2 un2 where
      step: "fold release (dependencies P x) (st', unplaced) = (st2, un2)" "counts_ok P (insert x D) st2 un2"
      "x \<in> set (nodes P)" "x \<notin> D" "set (users P x) \<subseteq> D" by blast
    have lay: "layout_ok F L" using Suc.prems(2) unfolding placement_inv_def by blast
    have "users P x \<noteq> []" if "parent L x = None"
    proof -
      have "parent L0 x = None" using that Suc.prems(2) unfolding placement_inv_def by (metis option.exhaust)
      then show ?thesis using assms(4) step(3) by blast
    qed
    then have "place_node F P x L \<noteq> None"
      using Suc.prems(3) step(5) by (intro place_node_total [OF assms(2) lay]) blast+
    then obtain L1 where L1: "place_node F P x L = Some L1" by blast
    note eff = place_node_ok [OF assms(1) lay L1]
    have par: "\<forall>d \<in> insert x D. parent L1 d \<noteq> None"
    proof
      fix d assume "d \<in> insert x D"
      then show "parent L1 d \<noteq> None" using eff(3,5) Suc.prems(3) by (cases "d = x") auto
    qed
    have "card (set (nodes P) - insert x D) \<le> n"
    proof -
      have "set (nodes P) - insert x D = (set (nodes P) - D) - {x}" by blast
      moreover have "card ((set (nodes P) - D) - {x}) < card (set (nodes P) - D)"
        using step(3,4) by (intro card_Diff1_less) auto
      ultimately show ?thesis using Suc.prems(4) by simp
    qed
    from Suc.IH [OF step(2) place_node_inv [OF assms(1) Suc.prems(2) L1] par this] show ?thesis
      by (simp add: Cons L1 step(1))
  qed
qed

text \<open>With an acyclic graph, only the empty set of open nodes has every member's users open.\<close>

lemma all_done:
  assumes "graph_ok P" "\<And>i u. u \<in> set (users P i) \<Longrightarrow> rank u < (rank i :: nat)" "counts_ok P D [] (open_users P D)"
  shows "set (nodes P) \<subseteq> D"
proof
  fix i
  show "i \<in> set (nodes P) \<Longrightarrow> i \<in> D"
  proof (induction "rank i" arbitrary: i rule: less_induct)
    case less
    show ?case
    proof (rule ccontr)
      assume "i \<notin> D"
      then have "open_users P D i \<noteq> 0" using assms(3) less.prems unfolding counts_ok_def by auto
      then obtain u where u: "u \<in> set (users P i)" "u \<notin> D" unfolding open_users_def by (metis Diff_eq_empty_iff card.empty subsetI)
      have "u \<in> set (nodes P)" using assms(1) u(1) unfolding graph_ok_def by blast
      with less.hyps assms(2) u show False by blast
    qed
  qed
qed

text \<open>
  C5. The placer: on an acyclic graph of constraints, whose created instructions all have a user, placing
  returns and every created instruction gets a place.
\<close>

theorem placer_places_all:
  assumes "dominance_laws F" "dominators_total F" "layout_ok F L"
    and "\<And>i u. (i, u) \<in> set cs \<Longrightarrow> rank u < (rank i :: nat)"
    and "\<And>i. i \<in> snd ` set cs \<Longrightarrow> parent L i = None \<Longrightarrow> i \<in> fst ` set cs"
  shows "\<exists>L'. placeInsts F (placer_of cs) L = Some L' \<and> (\<forall>(i, u) \<in> set cs. parent L' i \<noteq> None \<and> parent L' u \<noteq> None)"
proof -
  let ?P = "placer_of cs"
  note ok = placer_of_ok [of cs]
  have graph: "graph_ok ?P" and us: "\<And>i u. u \<in> set (users ?P i) \<longleftrightarrow> (i, u) \<in> set cs"
    and ns: "set (nodes ?P) = fst ` set cs \<union> snd ` set cs" using ok by blast+
  let ?un = "\<lambda>i. length (users ?P i)"
  let ?st = "rev (filter (\<lambda>i. ?un i = 0) (nodes ?P))"
  have len: "?un i = open_users ?P {} i" for i
    using graph unfolding graph_ok_def open_users_def by (simp add: distinct_card)
  have "distinct (nodes ?P)" using graph unfolding graph_ok_def by blast
  then have counts: "counts_ok ?P {} ?st ?un" unfolding counts_ok_def using len by auto
  have inv: "placement_inv F ?P L L" using assms(3) unfolding placement_inv_def by simp
  have has_user: "users ?P i \<noteq> []" if "i \<in> set (nodes ?P)" "parent L i = None" for i
  proof -
    have "i \<in> fst ` set cs" using that assms(5) ns by blast
    then obtain u where "(i, u) \<in> set cs" by force
    then have "u \<in> set (users ?P i)" using us by blast
    then show ?thesis by auto
  qed
  have "card (set (nodes ?P) - {}) \<le> length (nodes ?P)" by (simp add: card_length)
  from place_loop_total [OF assms(1,2) graph has_user counts inv _ this]
  obtain L' D where L': "place_loop F ?P (length (nodes ?P)) (?st, ?un) L = Some L'"
    "counts_ok ?P D [] (open_users ?P D)" "\<forall>d \<in> D. parent L' d \<noteq> None" by blast
  have "rank u < rank i" if "u \<in> set (users ?P i)" for i u using that us assms(4) by blast
  from all_done [OF graph this L'(2)] have "set (nodes ?P) \<subseteq> D" .
  then have "\<forall>(i, u) \<in> set cs. parent L' i \<noteq> None \<and> parent L' u \<noteq> None" using L'(3) ns by force
  then show ?thesis using L'(1) by (auto simp: placeInsts_def)
qed

text \<open>
  C6. Nothing runs too late: whenever placing returns, every created instruction that it has placed comes
  before each of its users: its block dominates the user's block, and in the same block it stands in front.
  The function's own instructions stay where they are.
\<close>

theorem placed_before_users:
  assumes "dominance_laws F" "layout_ok F L" "placeInsts F (placer_of cs) L = Some L'"
    and "(i, u) \<in> set cs" "parent L i = None" "parent L' i \<noteq> None"
  shows "before F L' i u \<and> (\<forall>j b. parent L j = Some b \<longrightarrow> parent L' j = Some b)"
proof -
  have "placement_inv F (placer_of cs) L L" using assms(2) unfolding placement_inv_def by simp
  from place_loop_inv [OF assms(1) this] assms(3) have inv: "placement_inv F (placer_of cs) L L'"
    by (simp add: placeInsts_def Let_def)
  have "u \<in> set (users (placer_of cs) i)" using placer_of_ok [of cs] assms(4) by blast
  with inv assms(5,6) show ?thesis unfolding placement_inv_def well_placed_def by blast
qed

section \<open>Witnesses\<close>

text \<open>Blocks dominate the later ones; block 1 holds an instruction and every block its terminator; one created instruction uses the other.\<close>

definition line_fn :: LlvmFunction where
  "line_fn = sample_cfg\<lparr>dominates := (\<le>), common_dominator := (\<lambda>a b. Some (min a b)), bb_terminator := (\<lambda>b. 100 + b)\<rparr>"

definition line_layout :: Layout where
  "line_layout = \<lparr>insts = (\<lambda>b. if b = 1 then [Orig 1, Orig 101] else [Orig (100 + b)]),
     parent = (\<lambda>i. case i of Orig v \<Rightarrow> if 100 \<le> v then Some (v - 100) else if v = 1 then Some 1 else None | New k \<Rightarrow> None)\<rparr>"

definition line_constraints :: "(PInst \<times> PInst) list" where
  "line_constraints = [(New 0, Orig 1), (New 0, Orig 102), (New 1, New 0)]"

lemma line_laws: "dominance_laws line_fn" "dominators_total line_fn" "layout_ok line_fn line_layout"
proof -
  show "dominance_laws line_fn" "dominators_total line_fn"
    by (auto simp: dominance_laws_def dominators_total_def line_fn_def)
  have "i \<in> set (insts line_layout b) \<longleftrightarrow> parent line_layout i = Some b" for i b
    by (cases i) (auto simp: line_layout_def)
  then show "layout_ok line_fn line_layout" by (simp add: layout_ok_def) (simp add: line_layout_def line_fn_def)
qed

lemma line_placed: "\<exists>L'. placeInsts line_fn (placer_of line_constraints) line_layout = Some L'
   \<and> insts L' 1 = [New 1, New 0, Orig 1, Orig 101] \<and> parent L' (New 0) = Some 1"
  by (simp add: placeInsts_def Let_def placer_of_def line_constraints_def addInstForPlacement_def addUser_def
      getOrCreateNode_def Placer_new_def place_node_def line_layout_def line_fn_def release_def insertBefore_def
      earliest_user_def)

theorem placer_places_all_witness:
  "\<exists>L'. placeInsts line_fn (placer_of line_constraints) line_layout = Some L' \<and> parent L' (New 1) \<noteq> None"
proof -
  let ?rank = "\<lambda>i. case i of Orig v \<Rightarrow> 0 | New k \<Rightarrow> Suc k"
  have "?rank u < ?rank i" if "(i, u) \<in> set line_constraints" for i u
    using that by (auto simp: line_constraints_def)
  moreover have "i \<in> fst ` set line_constraints" if "i \<in> snd ` set line_constraints" "parent line_layout i = None" for i
    using that by (auto simp: line_constraints_def line_layout_def)
  ultimately obtain L' where "placeInsts line_fn (placer_of line_constraints) line_layout = Some L'"
    "\<forall>(i, u) \<in> set line_constraints. parent L' i \<noteq> None \<and> parent L' u \<noteq> None"
    using placer_places_all [OF line_laws, of line_constraints ?rank] by blast
  then show ?thesis by (auto simp: line_constraints_def)
qed

theorem placed_before_users_witness:
  "\<exists>L'. placeInsts line_fn (placer_of line_constraints) line_layout = Some L' \<and> before line_fn L' (New 0) (Orig 102)"
proof -
  obtain L' where L': "placeInsts line_fn (placer_of line_constraints) line_layout = Some L'" "parent L' (New 0) = Some 1"
    using line_placed by blast
  have "(New 0, Orig 102) \<in> set line_constraints" "parent line_layout (New 0) = None"
    by (simp_all add: line_constraints_def line_layout_def)
  from placed_before_users [OF line_laws(1,3) L'(1) this] L' show ?thesis by simp
qed

end
