(* ===== verification/PassHandlers.thy ===== *)
theory PassHandlers
  imports StaticTimestamps
begin

text \<open>
  The handlers that put the calls of the runtime around the instructions of a function: \<open>LoadHandler.cpp\<close>,
  \<open>StoreInstHandler.cpp\<close>, \<open>ReturnHandler.cpp\<close>, \<open>CallableHandler.tcc\<close>, \<open>FunctionArgsHandler.cpp\<close>,
  \<open>DynamicMemoryHandler.cpp\<close>, \<open>LocalTableHandler.cpp\<close>, \<open>ControlDependencePlacer.cpp\<close> (all \<open>instrument/src\<close>). They create calls,
  constrain where they stand, and require the timestamps the calls use. The number is the fuel of the
  static analysis.
\<close>

section \<open>Sizes\<close>

definition getTypeSizeInBytes :: "PassEnv \<Rightarrow> Value \<Rightarrow> UInt" where
  "getTypeSizeInBytes E v =
     (case val_type (fn E) v of
        TInt bitwidth \<Rightarrow> (if bitwidth mod 8 \<noteq> 0 then of_nat (bitwidth div 8) + 1 else of_nat (bitwidth div 8))
      | TFloat \<Rightarrow> 4
      | TDouble \<Rightarrow> 8
      | TPointer \<Rightarrow> 8
      | _ \<Rightarrow> 4)"

definition returns_real_type :: "ValType \<Rightarrow> bool" where
  "returns_real_type t \<longleftrightarrow> t \<noteq> TVoid \<and> t \<noteq> TPointer"

section \<open>Loads\<close>

text \<open>
  The indices of an address computation that are no constant and no counter of a loop: the identifiers of
  all of them become arguments.
\<close>

definition is_load_dependence :: "PassEnv \<Rightarrow> Value \<Rightarrow> bool" where
  "is_load_dependence E v \<longleftrightarrow> \<not> constant_int (fn E) v \<and> \<not> (isa_op [OPHI] (fn E) v \<and> isInductionVariable E v)
     \<and> \<not> (is_instruction (fn E) v \<and> isInductionIncrement E v)"

fun push_ids :: "Value list \<Rightarrow> PassState \<Rightarrow> KArg list \<times> PassState" where
  "push_ids [] s = ([], s)"
| "push_ids (v # vs) s = (let (i, s) = getId v s; (args, s) = push_ids vs s in (Num i # args, s))"

definition MAX_SPECIALIZED :: nat where
  "MAX_SPECIALIZED = 5"

text \<open>The place for the number of conditions is one past the arguments so far.\<close>

definition load_call :: "KArg \<Rightarrow> UInt \<Rightarrow> KArg list \<Rightarrow> UInt \<Rightarrow> NewInst" where
  "load_call ptr dest conds sz =
     (let num_conds_idx = length [ptr, Num dest] + 1;
          args = [ptr, Num dest] @ conds @ [Num sz] in
      if length conds < MAX_SPECIALIZED then KCall (K_LoadN (length conds)) args
      else KCall K_Load (take num_conds_idx args @ [Num (of_nat (length conds))] @ drop num_conds_idx args))"

definition load_handle :: "PassEnv \<Rightarrow> Value \<Rightarrow> PassState \<Rightarrow> PassState option" where
  "load_handle E load s = do {
     ptr \<leftarrow> rd (val_operands (fn E) load) 0;
     let (cast, s) = create (PointerCast ptr) s;
     let (dest, s) = getId load s;
     let idxs = (if isa_op [OGetElementPtr] (fn E) ptr then tl (val_operands (fn E) ptr) else []);
     let (conds, s) = push_ids (filter (is_load_dependence E) idxs) s;
     let (ci, s) = create (load_call (OfInst (New cast)) dest conds (getTypeSizeInBytes E load)) s;
     let s = constrainInstPlacement (New ci) (Orig load) s;
     Some (constrainInstPlacement (New cast) (New ci) s) }"

section \<open>Stores and returns\<close>

definition store_handle :: "PassEnv \<Rightarrow> nat \<Rightarrow> Value \<Rightarrow> PassState \<Rightarrow> PassState option" where
  "store_handle E n inst s = do {
     src \<leftarrow> rd (val_operands (fn E) inst) 0;
     ptr \<leftarrow> rd (val_operands (fn E) inst) 1;
     let const = is_constant E src;
     let (ids, s) = (if const then ([], s) else push_ids [src] s);
     let (cast, s) = create (PointerCast ptr) s;
     let args = ids @ [OfInst (New cast), Num (getTypeSizeInBytes E src)];
     let (ci, s) = create (KCall (if const then K_StoreConst else K_Store) args) s;
     let s = constrainInstPlacement (New cast) (New ci) s;
     let s = constrainInstPlacement (New ci) (Orig inst) s;
     if const then Some s else map_option snd (requireValTimestampBeforeUser E n src (New ci) s) }"

definition return_handle :: "PassEnv \<Rightarrow> nat \<Rightarrow> Value \<Rightarrow> PassState \<Rightarrow> PassState option" where
  "return_handle E n ri s =
     (case val_operands (fn E) ri of
        [] \<Rightarrow> Some s
      | ret_val # _ \<Rightarrow>
         if \<not> returns_real_type (fun_returns (fn E)) then Some s
         else (let const = is_constant E ret_val;
                   (ids, s) = (if const then ([], s) else push_ids [ret_val] s);
                   (ci, s) = create (KCall (if const then K_ReturnConst else K_Return) ids) s;
                   s = constrainInstPlacement (New ci) (Orig ri) s
               in if const then Some s else map_option snd (requireValTimestampBeforeUser E n ret_val (New ci) s)))"

section \<open>Calls and arguments\<close>

definition ignored_funcs :: "string list" where
  "ignored_funcs = [''printf'', ''fprintf'', ''puts'', ''scanf'', ''fscanf'', ''gets'', ''fopen'', ''fclose'', ''exit'', ''atoi'',
     ''rand'', ''malloc'', ''calloc'', ''realloc'', ''free'', ''__cxa_allocate_exception'', ''__cxa_throw'',
     ''__cxa_begin_catch'', ''__cxa_end_catch'', ''__gxx_personality_v0'']"

definition shouldHandle :: "Callee \<Rightarrow> bool" where
  "shouldHandle f =
     (if callee_intrinsic f then False
      else (case callee_name f of None \<Rightarrow> False | Some nm \<Rightarrow> nm \<notin> set ignored_funcs))"

text \<open>
  The calls are created in the reverse of the order in which they run: every one is constrained before the
  last one created. Pointers have no argument link.
\<close>

definition link_arg :: "PassEnv \<Rightarrow> nat \<Rightarrow> Value \<Rightarrow> PInst \<times> PassState \<Rightarrow> (PInst \<times> PassState) option" where
  "link_arg E n call_arg = (\<lambda>(last_call, s).
     if val_type (fn E) call_arg = TPointer then Some (last_call, s)
     else do {
       (link, s) \<leftarrow> (if is_constant E call_arg then Some (create (KCall K_EnqArgConst []) s)
          else do {
            let (i, s) = getId call_arg s;
            let (link, s) = create (KCall K_EnqArg [Num i]) s;
            (_, s) \<leftarrow> requireValTimestampBeforeUser E n call_arg (New link) s;
            Some (link, s) });
       Some (New link, constrainInstPlacement (New link) last_call s) })"

fun link_args :: "PassEnv \<Rightarrow> nat \<Rightarrow> Value list \<Rightarrow> PInst \<times> PassState \<Rightarrow> (PInst \<times> PassState) option" where
  "link_args E n [] st = Some st"
| "link_args E n (a # as) st = link_arg E n a st \<bind> link_args E n as"

text \<open>The counter of call sites is the handler's; it is passed along with the state.\<close>

definition call_handle :: "PassEnv \<Rightarrow> nat \<Rightarrow> Value \<Rightarrow> UInt64 \<times> PassState \<Rightarrow> (UInt64 \<times> PassState) option" where
  "call_handle E n inst = (\<lambda>(counter, s).
     if (case called_function (fn E) inst of None \<Rightarrow> False | Some f \<Rightarrow> \<not> shouldHandle f) then Some (counter, s)
     else do {
       let (last_call, s) =
         (if returns_real_type (val_type (fn E) inst)
          then let (i, s) = getId inst s;
                   (link, s) = create (KCall K_LinkReturn [Num i]) s
               in (New link, constrainInstPlacement (New link) (Orig inst) s)
          else (Orig inst, s));
       (last_call, s) \<leftarrow> link_args E n (call_args (fn E) inst) (last_call, s);
       let (prep, s) = create (KCall K_PrepCall [Num64 (call_site_id (fn E) inst counter), Num64 0]) s;
       Some (counter + 1, constrainInstPlacement (New prep) last_call s) })"

text \<open>The arguments of the function itself, in the constructor of the handler; \<open>main\<close> has none to dequeue.\<close>

fun deq_args :: "PassEnv \<Rightarrow> Value list \<Rightarrow> PInst \<times> PassState \<Rightarrow> PInst \<times> PassState" where
  "deq_args E [] st = st"
| "deq_args E (a # as) (last_inst, s) =
     (if val_type (fn E) a = TPointer then deq_args E as (last_inst, s)
      else let (i, s) = getId a s;
               (ci, s) = create (KCall K_DeqArg [Num i]) s
           in deq_args E as (New ci, constrainInstPlacement (New ci) last_inst s))"

definition FunctionArgsHandler :: "PassEnv \<Rightarrow> PassState \<Rightarrow> PassState option" where
  "FunctionArgsHandler E s =
     (if fun_name (fn E) = Some ''main'' then Some s
      else do {
        first \<leftarrow> getFirstNonPHI E (fun_entry (fn E));
        Some (snd (deq_args E (fun_args (fn E)) (Orig first, s))) })"

text \<open>
  From here on an earlier round may have put calls in front of the first instruction of a block that is no
  phi, so what \<open>getFirstNonPHI\<close> returns then is an argument.
\<close>

type_synonym Firsts = "Block \<Rightarrow> PInst"

definition LocalTableHandler :: "PassEnv \<Rightarrow> Firsts \<Rightarrow> PassState \<Rightarrow> PassState" where
  "LocalTableHandler E first s =
     (let (ci, s) = create (KCall K_PrepRTable [Num (ucast (id_count s)), Num 0]) s
      in constrainInstPlacement (New ci) (first (fun_entry (fn E))) s)"

section \<open>Allocations\<close>

definition untangleCall :: "LlvmFunction \<Rightarrow> Value \<Rightarrow> Callee option" where
  "untangleCall F inst = (case called_function F inst of Some f \<Rightarrow> Some f | None \<Rightarrow> cast_function F inst)"

fun next_in :: "Value \<Rightarrow> Value list \<Rightarrow> Value option" where
  "next_in v (x # y # ys) = (if x = v then Some y else next_in v (y # ys))"
| "next_in v xs = None"

definition getNextInst :: "PassEnv \<Rightarrow> Value \<Rightarrow> Value option" where
  "getNextInst E inst = next_in inst (bb_insts (fn E) (val_block (fn E) inst))"

definition isNBitIntPointer :: "PassEnv \<Rightarrow> Value \<Rightarrow> nat \<Rightarrow> bool option" where
  "isNBitIntPointer E v n = (if val_type (fn E) v = TPointer then Some (pointee_type (fn E) v = TInt n) else None)"

definition address_arg :: "PassEnv \<Rightarrow> Value \<Rightarrow> Value \<Rightarrow> PassState \<Rightarrow> (KArg \<times> PassState) option" where
  "address_arg E inst v s = do {
     is_i8 \<leftarrow> isNBitIntPointer E v 8;
     Some (if is_i8 then (OfInst (Orig v), s)
       else let (k, s) = create (PointerCast v) s
            in (OfInst (New k), s\<lparr>direct_insts := direct_insts s @ [(k, inst)]\<rparr>)) }"

definition memory_handle :: "PassEnv \<Rightarrow> Value \<Rightarrow> PassState \<Rightarrow> PassState option" where
  "memory_handle E inst s =
     (case untangleCall (fn E) inst of
        None \<Rightarrow> Some s
      | Some f \<Rightarrow>
         if callee_intrinsic f then Some s
         else if callee_name f = Some ''malloc'' \<or> callee_name f = Some ''calloc'' then do {
           sizeOperand \<leftarrow> rd (call_args (fn E) inst) 0;
           let (i, s) = getId inst s;
           let (ci, s) = create (KCall K_Malloc [OfInst (Orig inst), OfInst (Orig sizeOperand), Num i]) s;
           nxt \<leftarrow> getNextInst E inst;
           Some (constrainInstPlacement (New ci) (Orig nxt) s) }
         else if callee_name f = Some ''free'' then do {
           p \<leftarrow> rd (call_args (fn E) inst) 0;
           (a, s) \<leftarrow> address_arg E inst p s;
           let (ci, s) = create (KCall K_Free [a]) s;
           nxt \<leftarrow> getNextInst E inst;
           Some (constrainInstPlacement (New ci) (Orig nxt) s) }
         else if callee_name f = Some ''realloc'' then do {
           p \<leftarrow> rd (call_args (fn E) inst) 0;
           (a, s) \<leftarrow> address_arg E inst p s;
           sz \<leftarrow> rd (call_args (fn E) inst) 1;
           let (i, s) = getId inst s;
           let (ci, s) = create (KCall K_Realloc [a, OfInst (Orig inst), OfInst (Orig sz), Num i]) s;
           nxt \<leftarrow> getNextInst E inst;
           Some (constrainInstPlacement (New ci) (Orig nxt) s) }
         else Some s)"

section \<open>Control dependences\<close>

definition push_controller :: "PassEnv \<Rightarrow> nat \<Rightarrow> Firsts \<Rightarrow> Block \<Rightarrow> Block \<Rightarrow> PassState \<Rightarrow> PassState option" where
  "push_controller E n first bb controller s = do {
     ctrl_dep \<leftarrow> getControllingCondition (fn E) controller;
     let (remove, s) = create (KCall K_PopCDep []) s;
     let s = constrainInstPlacement (New remove) (Orig (bb_terminator (fn E) bb)) s;
     let (i, s) = getId ctrl_dep s;
     let (add, s) = create (KCall K_PushCDep [Num i]) s;
     let s = constrainInstPlacement (New add) (New remove) (constrainInstPlacement (New add) (first bb) s);
     map_option snd (requireValTimestampBeforeUser E n ctrl_dep (New add) s) }"

definition control_handleBasicBlock :: "PassEnv \<Rightarrow> nat \<Rightarrow> Firsts \<Rightarrow> Block \<Rightarrow> PassState \<Rightarrow> PassState option" where
  "control_handleBasicBlock E n first bb s =
     (if skip_block E bb then Some s
      else do {
        s \<leftarrow> (case getControllingBlock (fn E) (pdf E) bb False of
           None \<Rightarrow> Some s
         | Some controller \<Rightarrow> push_controller E n first bb controller s);
        (case getControllingCondition (fn E) bb of
           None \<Rightarrow> Some s
         | Some v \<Rightarrow>
            if is_constant E v then Some s
            else map_option snd (requireValTimestampBeforeUser E n v (Orig (bb_terminator (fn E) bb)) s)) })"

section \<open>A round of instrumentation\<close>

text \<open>
  The first round: the arguments, then for every block that is not part of the exception handling its work
  and its loads, stores, calls and returns, in order; calls go to two handlers. Invokes have a handler and a counter of their own.
\<close>

type_synonym RoundState = "(UInt64 \<times> UInt64) \<times> PassState"

definition handle_inst :: "PassEnv \<Rightarrow> nat \<Rightarrow> Value \<Rightarrow> RoundState \<Rightarrow> RoundState option" where
  "handle_inst E n inst = (\<lambda>((calls, invokes), s).
     if isa_op [OLoad] (fn E) inst then map_option (Pair (calls, invokes)) (load_handle E inst s)
     else if isa_op [OStore] (fn E) inst then map_option (Pair (calls, invokes)) (store_handle E n inst s)
     else if isa_op [ORet] (fn E) inst then map_option (Pair (calls, invokes)) (return_handle E n inst s)
     else if isa_op [OCall] (fn E) inst then do {
       (calls, s) \<leftarrow> call_handle E n inst (calls, s);
       s \<leftarrow> memory_handle E inst s;
       Some ((calls, invokes), s) }
     else if isa_op [OInvoke] (fn E) inst then map_option (\<lambda>(invokes, s). ((calls, invokes), s)) (call_handle E n inst (invokes, s))
     else Some ((calls, invokes), s))"

fun handle_insts :: "PassEnv \<Rightarrow> nat \<Rightarrow> Value list \<Rightarrow> RoundState \<Rightarrow> RoundState option" where
  "handle_insts E n [] st = Some st"
| "handle_insts E n (i # is) st = handle_inst E n i st \<bind> handle_insts E n is"

fun insertInstrumentation :: "PassEnv \<Rightarrow> nat \<Rightarrow> Block list \<Rightarrow> RoundState \<Rightarrow> RoundState option" where
  "insertInstrumentation E n [] st = Some st"
| "insertInstrumentation E n (bb # bbs) (counters, s) =
     (if skip_block E bb then insertInstrumentation E n bbs (counters, s)
      else do {
        s \<leftarrow> work_handleBasicBlock E bb s;
        st \<leftarrow> handle_insts E n (bb_insts (fn E) bb) (counters, s);
        insertInstrumentation E n bbs st })"

definition first_round :: "PassEnv \<Rightarrow> nat \<Rightarrow> PassState option" where
  "first_round E n = do {
     s \<leftarrow> FunctionArgsHandler E PassState_new;
     (_, s) \<leftarrow> insertInstrumentation E n (fun_blocks (fn E)) ((0, 0), s);
     Some s }"

text \<open>The third round: the control dependences of every block.\<close>

fun control_round :: "PassEnv \<Rightarrow> nat \<Rightarrow> Firsts \<Rightarrow> Block list \<Rightarrow> PassState \<Rightarrow> PassState option" where
  "control_round E n first [] s = Some s"
| "control_round E n first (bb # bbs) s =
     (if skip_block E bb then control_round E n first bbs s
      else control_handleBasicBlock E n first bb s \<bind> control_round E n first bbs)"

end
