(* ===== verification/ControlDeps.thy ===== *)
theory ControlDeps
  imports PostDominance
begin

text \<open>
  The blocks that control the incoming values of a phi (\<open>instrument/src/analysis/ControlDependence.cpp\<close>), and
  the two searches of the control flow graph: \<open>IsSuccessor\<close> (same file) and \<open>IsPredecessor\<close>
  (\<open>instrument/src/PhiHandler.cpp\<close>). The recursions mark the blocks they have seen, so their fuel is the
  number of blocks and one; \<open>None\<close> is a failed assertion, or a recursion that does not end.
\<close>

section \<open>Searches\<close>

text \<open>Only branches and switches are followed.\<close>

definition branch_targets :: "LlvmFunction \<Rightarrow> Block \<Rightarrow> Block list" where
  "branch_targets F b = (if isa_op [OBr, OSwitch] F (bb_terminator F b) then bb_succs F b else [])"

fun addSuccessors :: "LlvmFunction \<Rightarrow> nat \<Rightarrow> Block \<Rightarrow> Block set \<Rightarrow> Block set option"
  and scan_successors :: "LlvmFunction \<Rightarrow> nat \<Rightarrow> Block list \<Rightarrow> Block set \<Rightarrow> Block set option" where
  "addSuccessors F 0 target successors = None"
| "addSuccessors F (Suc n) target successors = scan_successors F n (branch_targets F target) successors"
| "scan_successors F n [] successors = Some successors"
| "scan_successors F n (b # bs) successors = do {
     successors \<leftarrow> (if b \<notin> successors then addSuccessors F n b (insert b successors) else Some successors);
     scan_successors F n bs successors }"

definition IsSuccessor :: "LlvmFunction \<Rightarrow> Block \<Rightarrow> Block set option" where
  "IsSuccessor F target = addSuccessors F (Suc (length (fun_blocks F))) target {}"

fun getClosestPredecessors :: "LlvmFunction \<Rightarrow> nat \<Rightarrow> Block \<Rightarrow> Block \<Rightarrow> Block set \<times> Block set \<Rightarrow> (Block set \<times> Block set) option"
  and scan_predecessor :: "LlvmFunction \<Rightarrow> nat \<Rightarrow> Block \<Rightarrow> Block \<Rightarrow> Block list \<Rightarrow> Block set \<times> Block set \<Rightarrow> (Block set \<times> Block set) option" where
  "getClosestPredecessors F 0 target predecessor st = None"
| "getClosestPredecessors F (Suc n) target predecessor (results, searched) =
     (if predecessor \<in> searched then Some (results, searched)
      else scan_predecessor F n target predecessor (branch_targets F predecessor) (results, insert predecessor searched))"
| "scan_predecessor F n target predecessor [] st = Some st"
| "scan_predecessor F n target predecessor (b # bs) (results, searched) = do {
     let results = (if b = target then insert predecessor results else results);
     (results, searched) \<leftarrow> getClosestPredecessors F n target b (results, searched);
     scan_predecessor F n target predecessor bs (if b \<in> results then insert predecessor results else results, searched) }"

definition IsPredecessor :: "LlvmFunction \<Rightarrow> Block \<Rightarrow> Block set option" where
  "IsPredecessor F target =
     map_option fst (getClosestPredecessors F (Suc (length (fun_blocks F))) target (fun_entry F) ({}, {}))"

section \<open>The controllers of a phi\<close>

text \<open>The map from the incoming values to the sets of their blocks, both in ascending order.\<close>

fun add_incoming :: "Value \<Rightarrow> Block \<Rightarrow> (Value \<times> Block list) list \<Rightarrow> (Value \<times> Block list) list" where
  "add_incoming v b [] = [(v, [b])]"
| "add_incoming v b ((w, bs) # m) =
     (if v < w then (v, [b]) # (w, bs) # m
      else if v = w then (w, insort_insert b bs) # m
      else (w, bs) # add_incoming v b m)"

definition equivelent_values :: "LlvmFunction \<Rightarrow> Value \<Rightarrow> (Value \<times> Block list) list" where
  "equivelent_values F phi = fold (\<lambda>(v, b). add_incoming v b) (zip (val_operands F phi) (phi_blocks F phi)) []"

fun fold_dominators :: "LlvmFunction \<Rightarrow> Block list \<Rightarrow> Block \<Rightarrow> Block option" where
  "fold_dominators F [] d = Some d"
| "fold_dominators F (b # bs) d = common_dominator F d b \<bind> fold_dominators F bs"

definition findNearestCommonDominator :: "LlvmFunction \<Rightarrow> Block list \<Rightarrow> Block option" where
  "findNearestCommonDominator F blocks = (case blocks of [] \<Rightarrow> None | b # _ \<Rightarrow> fold_dominators F blocks b)"

fun incoming_dominators :: "LlvmFunction \<Rightarrow> (Value \<times> Block list) list \<Rightarrow> Block list option" where
  "incoming_dominators F [] = Some []"
| "incoming_dominators F ((v, bs) # m) = do {
     d \<leftarrow> findNearestCommonDominator F bs;
     ds \<leftarrow> incoming_dominators F m;
     Some (insort_insert d ds) }"

fun controllers_from :: "LlvmFunction \<Rightarrow> Frontiers \<Rightarrow> Block option \<Rightarrow> nat \<Rightarrow> Block \<Rightarrow> Block list \<Rightarrow> Block list option" where
  "controllers_from F pdf limit 0 target result = None"
| "controllers_from F pdf limit (Suc n) target result =
     (case limit of
        None \<Rightarrow> Some result
      | Some l \<Rightarrow>
         if \<not> dominates F l target then Some result
         else do {
           is_successor \<leftarrow> IsSuccessor F target;
           (case getControllingBlock F pdf target (target \<in> is_successor) of
              None \<Rightarrow> Some result
            | Some controlling_block \<Rightarrow>
               if controlling_block \<notin> set result
               then controllers_from F pdf limit n controlling_block (insort_insert controlling_block result)
               else Some result) })"

fun controllers_of_all :: "LlvmFunction \<Rightarrow> Frontiers \<Rightarrow> Block option \<Rightarrow> Block list \<Rightarrow> Block list \<Rightarrow> Block list option" where
  "controllers_of_all F pdf limit [] result = Some result"
| "controllers_of_all F pdf limit (bb # bbs) result =
     controllers_from F pdf limit (Suc (length (fun_blocks F))) bb result \<bind> controllers_of_all F pdf limit bbs"

definition getPhiControllingBlocks :: "LlvmFunction \<Rightarrow> Frontiers \<Rightarrow> Value \<Rightarrow> Block list option" where
  "getPhiControllingBlocks F pdf phi = do {
     incoming_blocks \<leftarrow> incoming_dominators F (equivelent_values F phi);
     controllers_of_all F pdf (dom_idom F (val_block F phi)) incoming_blocks [] }"

section \<open>The searches end and find the paths\<close>

definition edges :: "LlvmFunction \<Rightarrow> (Block \<times> Block) set" where
  "edges F = {(a, b). b \<in> set (branch_targets F a)}"

definition closed_cfg :: "LlvmFunction \<Rightarrow> bool" where
  "closed_cfg F \<longleftrightarrow> (\<forall>b \<in> set (fun_blocks F). set (branch_targets F b) \<subseteq> set (fun_blocks F))"

lemma successors_found:
  shows "addSuccessors F n t s = Some s' \<Longrightarrow>
      s \<subseteq> s' \<and> s' \<subseteq> s \<union> (edges F)\<^sup>+ `` {t} \<and> set (branch_targets F t) \<subseteq> s' \<and> (\<forall>x \<in> s' - s. set (branch_targets F x) \<subseteq> s')"
    and "scan_successors F n bs s = Some s' \<Longrightarrow>
      s \<subseteq> s' \<and> s' \<subseteq> s \<union> (edges F)\<^sup>* `` set bs \<and> set bs \<subseteq> s' \<and> (\<forall>x \<in> s' - s. set (branch_targets F x) \<subseteq> s')"
proof (induction F n t s and F n bs s arbitrary: s' and s' rule: addSuccessors_scan_successors.induct)
  case (2 F n t s)
  have "(edges F)\<^sup>* `` set (branch_targets F t) \<subseteq> (edges F)\<^sup>+ `` {t}"
    by (auto simp: edges_def intro: rtrancl_into_trancl2)
  moreover have "scan_successors F n (branch_targets F t) s = Some s'" using 2(2) by simp
  note 2(1) [OF this]
  ultimately show ?case by blast
next
  case (4 F n b bs s)
  obtain s1 where s1: "(if b \<notin> s then addSuccessors F n b (insert b s) else Some s) = Some s1" "scan_successors F n bs s1 = Some s'"
    using 4(3) by (auto split: bind_splits)
  note rest = 4(2) [OF s1]
  show ?case
  proof (cases "b \<in> s")
    case True
    then have "s1 = s" using s1(1) by simp
    with rest True show ?thesis by auto
  next
    case False
    then have a: "addSuccessors F n b (insert b s) = Some s1" using s1(1) by simp
    note here = 4(1) [OF False a]
    let ?C = "(edges F)\<^sup>* `` set (b # bs)"
    have c: "(edges F)\<^sup>+ `` {b} \<subseteq> ?C" "b \<in> ?C" "(edges F)\<^sup>* `` set bs \<subseteq> ?C" by (auto dest: trancl_into_rtrancl)
    have h: "insert b s \<subseteq> s1" "s1 \<subseteq> insert b s \<union> (edges F)\<^sup>+ `` {b}" "set (branch_targets F b) \<subseteq> s1"
      "\<forall>x \<in> s1 - insert b s. set (branch_targets F x) \<subseteq> s1" by (insert here, elim conjE, assumption)+
    have r: "s1 \<subseteq> s'" "s' \<subseteq> s1 \<union> (edges F)\<^sup>* `` set bs" "set bs \<subseteq> s'"
      "\<forall>x \<in> s' - s1. set (branch_targets F x) \<subseteq> s'" by (insert rest, elim conjE, assumption)+
    have "s1 \<subseteq> s \<union> ?C" using h(2) c(1,2) by blast
    then have sub: "s' \<subseteq> s \<union> ?C" using r(2) c(3) by blast
    have closed: "set (branch_targets F x) \<subseteq> s'" if x: "x \<in> s'" "x \<notin> s" for x
    proof (cases "x \<in> s1")
      case True
      have "set (branch_targets F x) \<subseteq> s1" using h(3,4) True x(2) by (cases "x = b") simp_all
      then show ?thesis using r(1) by (rule subset_trans)
    next
      case False
      then show ?thesis using r(4) x(1) by simp
    qed
    have "s \<subseteq> s'" "set (b # bs) \<subseteq> s'" using h(1) r(1,3) by auto
    with sub closed show ?thesis by simp
  qed
qed simp_all

lemma successors_end:
  assumes "finite S" "\<And>b. b \<in> S \<Longrightarrow> set (branch_targets F b) \<subseteq> S"
  shows "t \<in> S \<Longrightarrow> card (S - s) < n \<Longrightarrow> \<exists>s'. addSuccessors F n t s = Some s'"
    and "set bs \<subseteq> S \<Longrightarrow> card (S - s) \<le> n \<Longrightarrow> \<exists>s'. scan_successors F n bs s = Some s'"
  using assms
proof (induction F n t s and F n bs s rule: addSuccessors_scan_successors.induct)
  case (4 F n b bs s)
  have "\<exists>s1. (if b \<notin> s then addSuccessors F n b (insert b s) else Some s) = Some s1 \<and> s \<subseteq> s1"
  proof (cases "b \<in> s")
    case False
    have "card (S - insert b s) < card (S - s)"
      using 4(3,5) False by (intro psubset_card_mono) auto
    then obtain s1 where "addSuccessors F n b (insert b s) = Some s1" using 4(1) [OF False] 4(3-6) by auto
    then show ?thesis using False successors_found(1) by force
  qed simp
  then obtain s1 where s1: "(if b \<notin> s then addSuccessors F n b (insert b s) else Some s) = Some s1" "s \<subseteq> s1" by blast
  have "card (S - s1) \<le> card (S - s)" using s1(2) 4(5) by (intro card_mono) auto
  then obtain s2 where "scan_successors F n bs s1 = Some s2" using 4(2) [OF s1(1)] 4(3-6) by auto
  then show ?case using s1(1) by simp
qed simp_all

lemma IsSuccessor_paths:
  assumes "closed_cfg F" "t \<in> set (fun_blocks F)"
  shows "IsSuccessor F t = Some {b. (t, b) \<in> (edges F)\<^sup>+}"
proof -
  have "card (set (fun_blocks F) - {}) < Suc (length (fun_blocks F))" by (simp add: card_length le_imp_less_Suc)
  then obtain s where s: "addSuccessors F (Suc (length (fun_blocks F))) t {} = Some s"
    using successors_end(1) [OF _ _ assms(2)] assms(1) unfolding closed_cfg_def by blast
  note f = successors_found(1) [OF s]
  have "b \<in> s" if "(t, b) \<in> (edges F)\<^sup>+" for b
    using that
  proof (induction rule: trancl_induct)
    case (base b)
    then show ?case using f by (auto simp: edges_def)
  next
    case (step b c)
    then show ?case using f by (auto simp: edges_def)
  qed
  then have "s = {b. (t, b) \<in> (edges F)\<^sup>+}" using f by blast
  then show ?thesis using s by (simp add: IsSuccessor_def)
qed

lemma predecessors_lead:
  shows "getClosestPredecessors F n t p (rs, se) = Some st \<Longrightarrow> rs \<subseteq> {q. (q, t) \<in> (edges F)\<^sup>+} \<Longrightarrow>
      fst st \<subseteq> {q. (q, t) \<in> (edges F)\<^sup>+}"
    and "scan_predecessor F n t p bs (rs, se) = Some st \<Longrightarrow> set bs \<subseteq> set (branch_targets F p) \<Longrightarrow>
      rs \<subseteq> {q. (q, t) \<in> (edges F)\<^sup>+} \<Longrightarrow> fst st \<subseteq> {q. (q, t) \<in> (edges F)\<^sup>+}"
proof (induction F n t p "(rs, se)" and F n t p bs "(rs, se)" arbitrary: rs se st and rs se st
    rule: getClosestPredecessors_scan_predecessor.induct)
  case (4 F n t p b bs rs se)
  have pb: "(p, b) \<in> edges F" using 4(4) by (simp add: edges_def)
  let ?rs = "if b = t then insert p rs else rs"
  obtain r1 s1 where g: "getClosestPredecessors F n t b (?rs, se) = Some (r1, s1)"
    "scan_predecessor F n t p bs (if b \<in> r1 then insert p r1 else r1, s1) = Some st"
    using 4(3) by (auto simp: Let_def split: bind_splits)
  have "?rs \<subseteq> {q. (q, t) \<in> (edges F)\<^sup>+}" using 4(5) pb by auto
  then have r1: "r1 \<subseteq> {q. (q, t) \<in> (edges F)\<^sup>+}" using 4(1) [OF refl g(1)] by simp
  then have "(if b \<in> r1 then insert p r1 else r1) \<subseteq> {q. (q, t) \<in> (edges F)\<^sup>+}"
    using pb by (auto intro: trancl_into_trancl2)
  then show ?case using 4(2) [OF refl g(1) refl g(2)] 4(4) by simp
qed (auto split: if_splits)

section \<open>The controllers\<close>

text \<open>The controller of a block: the block counts itself when it is on a cycle.\<close>

definition controller_of :: "LlvmFunction \<Rightarrow> Frontiers \<Rightarrow> Block \<Rightarrow> Block option" where
  "controller_of F pdf t = getControllingBlock F pdf t ((t, t) \<in> (edges F)\<^sup>+)"

inductive controls :: "LlvmFunction \<Rightarrow> Frontiers \<Rightarrow> Block \<Rightarrow> Block set \<Rightarrow> Block \<Rightarrow> bool"
  for F pdf l starts where
  first: "d \<in> starts \<Longrightarrow> dominates F l d \<Longrightarrow> controller_of F pdf d = Some c \<Longrightarrow> controls F pdf l starts c"
| further: "controls F pdf l starts b \<Longrightarrow> dominates F l b \<Longrightarrow> controller_of F pdf b = Some c \<Longrightarrow> controls F pdf l starts c"

definition frontiers_in :: "LlvmFunction \<Rightarrow> Frontiers \<Rightarrow> bool" where
  "frontiers_in F pdf \<longleftrightarrow> (\<forall>b s. pdf b = Some s \<longrightarrow> set s \<subseteq> set (fun_blocks F))"

lemma controller_in: "frontiers_in F pdf \<Longrightarrow> controller_of F pdf t = Some c \<Longrightarrow> c \<in> set (fun_blocks F)"
  unfolding frontiers_in_def controller_of_def
  by (drule controlling_block_in_frontier) blast

text \<open>Every block of the result but one has its controller in the result.\<close>

definition closed_but :: "LlvmFunction \<Rightarrow> Frontiers \<Rightarrow> Block \<Rightarrow> Block set \<Rightarrow> Block set \<Rightarrow> bool" where
  "closed_but F pdf l T R \<longleftrightarrow> (\<forall>x \<in> R - T. dominates F l x \<longrightarrow> (\<forall>c. controller_of F pdf x = Some c \<longrightarrow> c \<in> R))"

lemma closed_but_target:
  assumes "closed_but F pdf l {t} R" "dominates F l t \<Longrightarrow> \<forall>c. controller_of F pdf t = Some c \<longrightarrow> c \<in> R"
  shows "closed_but F pdf l {} R"
  unfolding closed_but_def
proof (intro ballI impI)
  fix x assume x: "x \<in> R - {}" "dominates F l x"
  show "\<forall>c. controller_of F pdf x = Some c \<longrightarrow> c \<in> R"
  proof (cases "x = t")
    case True
    then show ?thesis using assms(2) x(2) by simp
  next
    case False
    then have "x \<in> R - {t}" using x(1) by simp
    then show ?thesis using bspec [OF assms(1) [unfolded closed_but_def]] x(2) by blast
  qed
qed

lemma closed_but_insert:
  assumes "closed_but F pdf l {t} R" "controller_of F pdf t = Some c"
  shows "closed_but F pdf l {c} (insert c R)"
  unfolding closed_but_def
proof (intro ballI impI allI)
  fix x c' assume x: "x \<in> insert c R - {c}" "dominates F l x" "controller_of F pdf x = Some c'"
  show "c' \<in> insert c R"
  proof (cases "x = t")
    case True
    then show ?thesis using assms(2) x(3) by simp
  next
    case False
    then have "x \<in> R - {t}" using x(1) by simp
    then show ?thesis using bspec [OF assms(1) [unfolded closed_but_def]] x(2,3) by blast
  qed
qed

lemma controllers_from_closed:
  assumes "closed_cfg F" "frontiers_in F pdf"
  shows "t \<in> set (fun_blocks F) \<Longrightarrow> card (set (fun_blocks F) - set r) < n \<Longrightarrow> sorted r \<Longrightarrow> distinct r \<Longrightarrow>
    closed_but F pdf l {t} (set r) \<Longrightarrow> (\<forall>x \<in> set r. controls F pdf l starts x) \<Longrightarrow> t \<in> starts \<union> set r \<Longrightarrow>
    \<exists>r'. controllers_from F pdf (Some l) n t r = Some r' \<and> sorted r' \<and> distinct r' \<and> set r \<subseteq> set r'
      \<and> closed_but F pdf l {} (set r') \<and> (\<forall>x \<in> set r'. controls F pdf l starts x)
      \<and> (dominates F l t \<longrightarrow> (\<forall>c. controller_of F pdf t = Some c \<longrightarrow> c \<in> set r'))"
proof (induction n arbitrary: t r)
  case (Suc n)
  note succ = IsSuccessor_paths [OF assms(1) Suc.prems(1)]
  have ctrl: "getControllingBlock F pdf t ((t, t) \<in> (edges F)\<^sup>+) = controller_of F pdf t"
    by (simp add: controller_of_def)
  consider "\<not> dominates F l t \<or> controller_of F pdf t = None"
    | c where "dominates F l t" "controller_of F pdf t = Some c" "c \<in> set r"
    | c where "dominates F l t" "controller_of F pdf t = Some c" "c \<notin> set r" by (cases "controller_of F pdf t") auto
  then show ?case
  proof cases
    case 1
    then have "closed_but F pdf l {} (set r)" by (intro closed_but_target [OF Suc.prems(5)]) simp_all
    moreover have "controllers_from F pdf (Some l) (Suc n) t r = Some r" using 1 by (auto simp: succ ctrl)
    ultimately show ?thesis using 1 Suc.prems(3,4,6) by (intro exI [of _ r]) auto
  next
    case 2
    then have "closed_but F pdf l {} (set r)" by (intro closed_but_target [OF Suc.prems(5)]) simp_all
    moreover have "controllers_from F pdf (Some l) (Suc n) t r = Some r" using 2 by (simp add: succ ctrl)
    ultimately show ?thesis using 2 Suc.prems(3,4,6) by (intro exI [of _ r]) simp
  next
    case 3
    have cin: "c \<in> set (fun_blocks F)" by (rule controller_in [OF assms(2) 3(2)])
    let ?r = "insort_insert c r"
    have set_r: "set ?r = insert c (set r)" by (simp add: set_insort_insert)
    have "set (fun_blocks F) - set ?r \<subset> set (fun_blocks F) - set r" using cin 3(3) set_r by blast
    then have "card (set (fun_blocks F) - set ?r) < card (set (fun_blocks F) - set r)" by (intro psubset_card_mono) simp_all
    then have card: "card (set (fun_blocks F) - set ?r) < n" using Suc.prems(2) by linarith
    have closed: "closed_but F pdf l {c} (set ?r)"
      unfolding set_r by (rule closed_but_insert [OF Suc.prems(5) 3(2)])
    have "controls F pdf l starts c"
    proof (cases "t \<in> starts")
      case True
      then show ?thesis using 3 controls.first by blast
    next
      case False
      then have "controls F pdf l starts t" using Suc.prems(6,7) by blast
      then show ?thesis using 3 controls.further by blast
    qed
    then have all: "\<forall>x \<in> set ?r. controls F pdf l starts x" using Suc.prems(6) set_r by auto
    have "sorted ?r" "distinct ?r" using Suc.prems(3,4) by (simp_all add: sorted_insort_insert distinct_insort_insert)
    from Suc.IH [OF cin card this closed all] set_r obtain r' where r':
      "controllers_from F pdf (Some l) n c ?r = Some r'" "sorted r'" "distinct r'" "insert c (set r) \<subseteq> set r'"
      "closed_but F pdf l {} (set r')" "\<forall>x \<in> set r'. controls F pdf l starts x" by auto
    have "controllers_from F pdf (Some l) (Suc n) t r = Some r'" using 3 r'(1) by (simp add: succ ctrl)
    then show ?thesis using r'(2-6) 3(2) by auto
  qed
qed simp

lemma controllers_of_all_closed:
  assumes "closed_cfg F" "frontiers_in F pdf"
  shows "set ds \<subseteq> set (fun_blocks F) \<Longrightarrow> set ds \<subseteq> starts \<Longrightarrow> sorted r \<Longrightarrow> distinct r \<Longrightarrow>
    closed_but F pdf l {} (set r) \<Longrightarrow> (\<forall>x \<in> set r. controls F pdf l starts x) \<Longrightarrow>
    \<exists>r'. controllers_of_all F pdf (Some l) ds r = Some r' \<and> sorted r' \<and> distinct r' \<and> set r \<subseteq> set r'
      \<and> closed_but F pdf l {} (set r') \<and> (\<forall>x \<in> set r'. controls F pdf l starts x)
      \<and> (\<forall>d \<in> set ds. dominates F l d \<longrightarrow> (\<forall>c. controller_of F pdf d = Some c \<longrightarrow> c \<in> set r'))"
proof (induction ds arbitrary: r)
  case (Cons d ds)
  have card: "card (set (fun_blocks F) - set r) < Suc (length (fun_blocks F))"
    using card_mono [of "set (fun_blocks F)" "set (fun_blocks F) - set r"] card_length [of "fun_blocks F"] by simp
  have "closed_but F pdf l {d} (set r)" using Cons.prems(5) unfolding closed_but_def by blast
  then obtain r1 where r1: "controllers_from F pdf (Some l) (Suc (length (fun_blocks F))) d r = Some r1"
    "sorted r1" "distinct r1" "set r \<subseteq> set r1" "closed_but F pdf l {} (set r1)" "\<forall>x \<in> set r1. controls F pdf l starts x"
    "dominates F l d \<longrightarrow> (\<forall>c. controller_of F pdf d = Some c \<longrightarrow> c \<in> set r1)"
    using controllers_from_closed [OF assms _ card Cons.prems(3,4) _ Cons.prems(6)] Cons.prems(1,2) by (metis UnI1 list.set_intros(1) subsetD)
  obtain r2 where "controllers_of_all F pdf (Some l) ds r1 = Some r2" "sorted r2" "distinct r2" "set r1 \<subseteq> set r2"
    "closed_but F pdf l {} (set r2)" "\<forall>x \<in> set r2. controls F pdf l starts x"
    "\<forall>d \<in> set ds. dominates F l d \<longrightarrow> (\<forall>c. controller_of F pdf d = Some c \<longrightarrow> c \<in> set r2)"
    using Cons.IH [OF _ _ r1(2,3,5,6)] Cons.prems(1,2) by auto
  then show ?case using r1 by (auto simp del: controllers_from.simps)
qed simp

section \<open>Where the search starts\<close>

lemma keys_add_incoming: "set (map fst (add_incoming v b m)) = insert v (set (map fst m))"
  by (induction v b m rule: add_incoming.induct) auto

lemma sorted_add_incoming: "sorted_wrt (<) (map fst m) \<Longrightarrow> sorted_wrt (<) (map fst (add_incoming v b m))"
proof (induction v b m rule: add_incoming.induct)
  case (2 v b w bs m)
  then show ?case using keys_add_incoming [of v b m] by (auto simp del: set_map)
qed simp

lemma map_of_add_incoming:
  "sorted_wrt (<) (map fst m) \<Longrightarrow>
     map_of (add_incoming v b m) = (map_of m)(v \<mapsto> insort_insert b (case map_of m v of None \<Rightarrow> [] | Some bs \<Rightarrow> bs))"
proof (induction v b m rule: add_incoming.induct)
  case (1 v b)
  then show ?case by (simp add: insort_insert_triv insort_insert_key_def)
next
  case (2 v b w bs m)
  have "map_of m v = None" if "v < w" using 2(2) that by (fastforce simp: map_of_eq_None_iff)
  moreover have "map_of (add_incoming v b m) = (map_of m)(v \<mapsto> insort_insert b (case map_of m v of None \<Rightarrow> [] | Some bs \<Rightarrow> bs))"
    if "w < v"
  proof -
    have "sorted_wrt (<) (map fst m)" using 2(2) by simp
    then show ?thesis using 2(1) that by auto
  qed
  ultimately show ?case by (cases v w rule: linorder_cases) (auto simp: fun_eq_iff insort_insert_key_def)
qed

definition blocks_of :: "(Value \<times> Block) list \<Rightarrow> Value \<Rightarrow> Block list" where
  "blocks_of zs v = sorted_list_of_set {b. (v, b) \<in> set zs}"

lemma finite_blocks_of [simp]: "finite {b. (v, b) \<in> set zs}"
  by (rule finite_subset [of _ "snd ` set zs"]) force+

lemma fold_add_incoming:
  "sorted_wrt (<) (map fst (fold (\<lambda>(v, b). add_incoming v b) zs []))
     \<and> map_of (fold (\<lambda>(v, b). add_incoming v b) zs []) = (\<lambda>v. if v \<in> fst ` set zs then Some (blocks_of zs v) else None)"
proof (induction zs rule: rev_induct)
  case (snoc z zs)
  obtain w b where z: "z = (w, b)" by (cases z)
  let ?m = "fold (\<lambda>(v, b). add_incoming v b) zs []"
  have here: "insort_insert b (blocks_of zs w) = blocks_of (zs @ [z]) w"
    unfolding blocks_of_def
    by (rule sorted_distinct_set_unique)
      (simp_all add: sorted_insort_insert distinct_insort_insert set_insort_insert z, auto)
  have other: "blocks_of (zs @ [z]) v = blocks_of zs v" if "v \<noteq> w" for v
    using that by (simp add: blocks_of_def z)
  have "blocks_of zs w = []" if "w \<notin> fst ` set zs" using that by (force simp: blocks_of_def)
  then have "insort_insert b (case map_of ?m w of None \<Rightarrow> [] | Some bs \<Rightarrow> bs) = blocks_of (zs @ [z]) w"
    using snoc here by auto
  then have "map_of (add_incoming w b ?m) = (map_of ?m)(w \<mapsto> blocks_of (zs @ [z]) w)"
    using map_of_add_incoming [OF conjunct1 [OF snoc]] by simp
  also have "\<dots> = (\<lambda>v. if v \<in> fst ` set (zs @ [z]) then Some (blocks_of (zs @ [z]) v) else None)"
    using conjunct2 [OF snoc] other z by (intro ext) auto
  finally show ?case using sorted_add_incoming [OF conjunct1 [OF snoc]] by (simp add: z)
qed simp

text \<open>The nearest common dominators of the blocks from which each value comes.\<close>

definition incoming_starts :: "LlvmFunction \<Rightarrow> Value \<Rightarrow> Block set" where
  "incoming_starts F phi =
     (let zs = zip (val_operands F phi) (phi_blocks F phi) in
      {d. \<exists>v \<in> fst ` set zs. findNearestCommonDominator F (blocks_of zs v) = Some d})"

definition dominators_in :: "LlvmFunction \<Rightarrow> bool" where
  "dominators_in F \<longleftrightarrow> (\<forall>a \<in> set (fun_blocks F). \<forall>b \<in> set (fun_blocks F).
     \<exists>d \<in> set (fun_blocks F). common_dominator F a b = Some d)"

lemma fold_dominators_in:
  "dominators_in F \<Longrightarrow> set bs \<subseteq> set (fun_blocks F) \<Longrightarrow> d \<in> set (fun_blocks F) \<Longrightarrow>
     \<exists>e \<in> set (fun_blocks F). fold_dominators F bs d = Some e"
proof (induction bs arbitrary: d)
  case (Cons b bs)
  then obtain e where "e \<in> set (fun_blocks F)" "common_dominator F d b = Some e" unfolding dominators_in_def by force
  then show ?case using Cons by simp
qed simp

lemma incoming_dominators_in:
  assumes "dominators_in F"
  shows "(\<forall>(v, bs) \<in> set m. bs \<noteq> [] \<and> set bs \<subseteq> set (fun_blocks F)) \<Longrightarrow>
    \<exists>ds. incoming_dominators F m = Some ds \<and> set ds \<subseteq> set (fun_blocks F)
      \<and> set ds = {d. \<exists>(v, bs) \<in> set m. findNearestCommonDominator F bs = Some d}"
proof (induction m)
  case (Cons p m)
  obtain v bs where p: "p = (v, bs)" by (cases p)
  then obtain b bs' where bs: "bs = b # bs'" "set bs \<subseteq> set (fun_blocks F)" using Cons.prems by (cases bs) auto
  then obtain e where e: "e \<in> set (fun_blocks F)" "findNearestCommonDominator F bs = Some e"
    using fold_dominators_in [OF assms bs(2), of b] by (auto simp: findNearestCommonDominator_def simp del: fold_dominators.simps)
  obtain ds where "incoming_dominators F m = Some ds" "set ds \<subseteq> set (fun_blocks F)"
    "set ds = {d. \<exists>(v, bs) \<in> set m. findNearestCommonDominator F bs = Some d}" using Cons by auto
  then show ?case using e by (auto simp: p set_insort_insert)
qed simp

lemma equivelent_values_blocks:
  "(v, bs) \<in> set (equivelent_values F phi) \<longleftrightarrow>
     (let zs = zip (val_operands F phi) (phi_blocks F phi) in v \<in> fst ` set zs \<and> bs = blocks_of zs v)"
proof -
  let ?zs = "zip (val_operands F phi) (phi_blocks F phi)"
  have f: "sorted_wrt (<) (map fst (equivelent_values F phi))"
    "map_of (equivelent_values F phi) = (\<lambda>v. if v \<in> fst ` set ?zs then Some (blocks_of ?zs v) else None)"
    using fold_add_incoming [of ?zs] by (simp_all add: equivelent_values_def)
  have "distinct (map fst (equivelent_values F phi))" using f(1) strict_sorted_iff by blast
  then have "(v, bs) \<in> set (equivelent_values F phi) \<longleftrightarrow> map_of (equivelent_values F phi) v = Some bs"
    by simp
  then show ?thesis unfolding f(2) by (auto simp: Let_def)
qed

lemma phi_starts:
  assumes "dominators_in F" "set (phi_blocks F phi) \<subseteq> set (fun_blocks F)"
  shows "\<exists>ds. incoming_dominators F (equivelent_values F phi) = Some ds \<and> set ds \<subseteq> set (fun_blocks F)
    \<and> set ds = incoming_starts F phi"
proof -
  let ?zs = "zip (val_operands F phi) (phi_blocks F phi)"
  have "bs \<noteq> [] \<and> set bs \<subseteq> set (fun_blocks F)" if "(v, bs) \<in> set (equivelent_values F phi)" for v bs
  proof -
    from that have v: "v \<in> fst ` set ?zs" "bs = blocks_of ?zs v" by (simp_all add: equivelent_values_blocks Let_def)
    then have "set bs = {b. (v, b) \<in> set ?zs}" by (simp add: blocks_of_def)
    then show ?thesis using v(1) assms(2) by (auto dest: set_zip_rightD)
  qed
  then obtain ds where ds: "incoming_dominators F (equivelent_values F phi) = Some ds" "set ds \<subseteq> set (fun_blocks F)"
    "set ds = {d. \<exists>(v, bs) \<in> set (equivelent_values F phi). findNearestCommonDominator F bs = Some d}"
    using incoming_dominators_in [OF assms(1), of "equivelent_values F phi"] by blast
  have "set ds = incoming_starts F phi"
    unfolding ds(3) incoming_starts_def Let_def by (force simp: equivelent_values_blocks Let_def)
  then show ?thesis using ds by blast
qed

lemma phi_controllers_end:
  assumes "closed_cfg F" "dominators_in F" "frontiers_in F pdf" "set (phi_blocks F phi) \<subseteq> set (fun_blocks F)"
    "dom_idom F (val_block F phi) = Some l"
  shows "\<exists>r. getPhiControllingBlocks F pdf phi = Some r \<and> sorted r \<and> distinct r
    \<and> set r = {c. controls F pdf l (incoming_starts F phi) c}"
proof -
  obtain ds where ds: "incoming_dominators F (equivelent_values F phi) = Some ds" "set ds \<subseteq> set (fun_blocks F)"
    "set ds = incoming_starts F phi" using phi_starts [OF assms(2,4)] by blast
  have start: "closed_but F pdf l {} (set [])" "\<forall>x \<in> set []. controls F pdf l (set ds) x" by (simp_all add: closed_but_def)
  obtain r where r: "controllers_of_all F pdf (Some l) ds [] = Some r" "sorted r" "distinct r" "closed_but F pdf l {} (set r)"
    "\<forall>x \<in> set r. controls F pdf l (set ds) x" "\<forall>d \<in> set ds. dominates F l d \<longrightarrow> (\<forall>c. controller_of F pdf d = Some c \<longrightarrow> c \<in> set r)"
    using controllers_of_all_closed [OF assms(1,3) ds(2) subset_refl _ _ start] by (metis distinct.simps(1) sorted_simps(1))
  have "c \<in> set r" if "controls F pdf l (set ds) c" for c
    using that
  proof induction
    case (first d c)
    then show ?case using r(6) by blast
  next
    case (further b c)
    then show ?case using r(4) unfolding closed_but_def by blast
  qed
  then have "set r = {c. controls F pdf l (set ds) c}" using r(5) by blast
  then show ?thesis using r(1-3) ds(1,3) assms(5) by (simp add: getPhiControllingBlocks_def)
qed

text \<open>
  C11. Computing the controllers of a phi ends, whatever loops the function has, and gives, in ascending
  order, exactly the controllers met on the chains of controllers that start at the nearest common
  dominators of the blocks each value comes from and go on as long as the immediate dominator of the phi
  dominates.
\<close>

theorem phi_controllers_exact:
  assumes "closed_cfg F" "dominators_in F" "frontiers_in F pdf" "set (phi_blocks F phi) \<subseteq> set (fun_blocks F)"
    "dom_idom F (val_block F phi) = Some l"
  shows "\<exists>r. getPhiControllingBlocks F pdf phi = Some r \<and> sorted r \<and> distinct r
    \<and> set r = {c. controls F pdf l (incoming_starts F phi) c}"
  using assms by (rule phi_controllers_end)

text \<open>
  The loop with the conditional body again, with a phi in 5 for the two ways through the body; its immediate
  dominator is 3.
\<close>

definition phi_cfg :: LlvmFunction where
  "phi_cfg = sample_cfg\<lparr>val_operands := (\<lambda>v. if v = 5 then [20, 21] else []), phi_blocks := (\<lambda>v. if v = 5 then [3, 4] else []),
     common_dominator := (\<lambda>a b. Some (if a = b then a else if a \<in> {3, 4, 5} \<and> b \<in> {3, 4, 5} then 3
        else if a = 1 \<or> b = 1 then 1 else 2))\<rparr>"

definition phi_pdf :: Frontiers where
  "phi_pdf = [Some 1 \<mapsto> [], Some 2 \<mapsto> [2], Some 3 \<mapsto> [2], Some 4 \<mapsto> [3], Some 5 \<mapsto> [2], Some 6 \<mapsto> []]"

lemma phi_cfg_laws: "closed_cfg phi_cfg" "dominators_in phi_cfg" "frontiers_in phi_cfg phi_pdf"
  "set (phi_blocks phi_cfg 5) \<subseteq> set (fun_blocks phi_cfg)" "dom_idom phi_cfg (val_block phi_cfg 5) = Some 3"
  "dominates phi_cfg 3 3" "\<not> dominates phi_cfg 3 2" "controller_of phi_cfg phi_pdf 3 = Some 2"
  by (simp_all add: closed_cfg_def branch_targets_def phi_cfg_def sample_cfg_def dominators_in_def frontiers_in_def phi_pdf_def
      controller_of_def getControllingBlock_def isa_op_def opcode_of_def)

lemma phi_cfg_start: "3 \<in> incoming_starts phi_cfg 5"
proof -
  have z: "zip (val_operands phi_cfg 5) (phi_blocks phi_cfg 5) = [(20, 3), (21, 4)]" "common_dominator phi_cfg 3 3 = Some 3"
    by (simp_all add: phi_cfg_def sample_cfg_def)
  have "blocks_of [(20, 3), (21, 4)] 20 = [3]" by (simp add: blocks_of_def)
  then have "findNearestCommonDominator phi_cfg (blocks_of [(20, 3), (21, 4)] 20) = Some 3"
    using z(2) by (simp add: findNearestCommonDominator_def)
  then show ?thesis unfolding incoming_starts_def z(1) Let_def by force
qed

theorem phi_controllers_exact_witness:
  "\<exists>r. getPhiControllingBlocks phi_cfg phi_pdf 5 = Some r \<and> sorted r
     \<and> set r = {c. controls phi_cfg phi_pdf 3 (incoming_starts phi_cfg 5) c}"
  using phi_controllers_exact [OF phi_cfg_laws(1-5)] by blast

text \<open>
  When a value comes from the limit itself (an if without an else), the block that controls the limit becomes
  a controller; the limit need not dominate it (it does not in the example below).
\<close>

theorem controllers_pass_limit:
  assumes "closed_cfg F" "dominators_in F" "frontiers_in F pdf" "set (phi_blocks F phi) \<subseteq> set (fun_blocks F)"
    "dom_idom F (val_block F phi) = Some l" "l \<in> incoming_starts F phi" "dominates F l l" "controller_of F pdf l = Some c"
    "getPhiControllingBlocks F pdf phi = Some r"
  shows "c \<in> set r"
proof -
  have "set r = {c. controls F pdf l (incoming_starts F phi) c}" using phi_controllers_end [OF assms(1-5)] assms(9) by auto
  then show ?thesis using controls.first [of l "incoming_starts F phi" F l pdf c] assms(6-8) by simp
qed

theorem controllers_pass_limit_witness:
  "\<exists>r. getPhiControllingBlocks phi_cfg phi_pdf 5 = Some r \<and> 2 \<in> set r \<and> \<not> dominates phi_cfg 3 2"
proof -
  obtain r where r: "getPhiControllingBlocks phi_cfg phi_pdf 5 = Some r" using phi_controllers_end [OF phi_cfg_laws(1-5)] by blast
  have "2 \<in> set r"
    by (rule controllers_pass_limit [OF phi_cfg_laws(1-5) phi_cfg_start phi_cfg_laws(6,8) r])
  then show ?thesis using r phi_cfg_laws(7) by blast
qed

end
