(* ===== verification/PhiHandlers.thy ===== *)
theory PhiHandlers
  imports PassHandlers ControlDeps
begin

text \<open>
  The handler of phi nodes (\<open>instrument/src/PhiHandler.cpp\<close>), which runs in the second round, and the four
  rounds over one function (\<open>instrument/src/CriticalPath.cpp\<close>). \<open>None\<close> is a failed assertion or a
  dereferenced null.
\<close>

section \<open>Counters of loops\<close>

definition handleIndVar :: "PassEnv \<Rightarrow> Value \<Rightarrow> PassState \<Rightarrow> PassState option" where
  "handleIndVar E phi s =
     (case filter (\<lambda>(v, b). constant_int (fn E) v) (zip (val_operands (fn E) phi) (phi_blocks (fn E) phi)) of
        [(v, bb_assoc_with_const)] \<Rightarrow>
          (let (i, s) = getId phi s;
               (ci, s) = create (KCall K_Induction [Num i]) s
           in Some (constrainInstPlacement (New ci) (Orig (bb_terminator (fn E) bb_assoc_with_const)) s))
      | _ \<Rightarrow> None)"

section \<open>Incoming values and conditions\<close>

text \<open>The identifier of a constant is 0.\<close>

fun incoming_ids :: "PassEnv \<Rightarrow> nat \<Rightarrow> (Value \<times> Block) list \<Rightarrow> PassState \<Rightarrow> ((UInt \<times> Block) list \<times> PassState) option" where
  "incoming_ids E n [] s = Some ([], s)"
| "incoming_ids E n ((incoming_val, incoming_block) # rest) s = do {
     (i, s) \<leftarrow> (if is_constant E incoming_val then Some (0, s)
       else do {
         let (i, s) = getId incoming_val s;
         (_, s) \<leftarrow> requireValTimestampBeforeUser E n incoming_val (Orig (bb_terminator (fn E) incoming_block)) s;
         Some (i, s) });
     (ids, s) \<leftarrow> incoming_ids E n rest s;
     Some ((i, incoming_block) # ids, s) }"

definition identifyIncomingValueId :: "PassEnv \<Rightarrow> nat \<Rightarrow> Value \<Rightarrow> PassState \<Rightarrow> (nat \<times> PassState) option" where
  "identifyIncomingValueId E n phi s = do {
     (ids, s) \<leftarrow> incoming_ids E n (zip (val_operands (fn E) phi) (phi_blocks (fn E) phi)) s;
     Some (create (IdPhi ids) s) }"

definition getConditionIdOfBlock :: "PassEnv \<Rightarrow> nat \<Rightarrow> Block \<Rightarrow> PassState \<Rightarrow> (UInt \<times> PassState) option" where
  "getConditionIdOfBlock E n bb s = do {
     controlling_cond \<leftarrow> getControllingCondition (fn E) bb;
     (_, s) \<leftarrow> requireValTimestampBeforeUser E n controlling_cond (Orig (bb_terminator (fn E) bb)) s;
     Some (getId controlling_cond s) }"

fun condition_ids :: "PassEnv \<Rightarrow> nat \<Rightarrow> Block \<Rightarrow> Block list \<Rightarrow> PassState \<Rightarrow> ((UInt \<times> Block) list \<times> PassState) option" where
  "condition_ids E n controller [] s = Some ([], s)"
| "condition_ids E n controller (b # bs) s = do {
     (i, s) \<leftarrow> (if dominates (fn E) controller b then getConditionIdOfBlock E n controller s else Some (0, s));
     (ids, s) \<leftarrow> condition_ids E n controller bs s;
     Some ((i, b) # ids, s) }"

text \<open>A controller that dominates none of the incoming blocks is left out.\<close>

fun conditions_of :: "PassEnv \<Rightarrow> nat \<Rightarrow> Block list \<Rightarrow> Block list \<Rightarrow> PassState \<Rightarrow> (nat list \<times> PassState) option" where
  "conditions_of E n blocks [] s = Some ([], s)"
| "conditions_of E n blocks (controller # cs) s = do {
     (ids, s) \<leftarrow> condition_ids E n controller blocks s;
     if \<exists>b \<in> set blocks. dominates (fn E) controller b
     then do {
       let (k, s) = create (IdPhi ids) s;
       (ks, s) \<leftarrow> conditions_of E n blocks cs s;
       Some (k # ks, s) }
     else conditions_of E n blocks cs s }"

definition getConditions :: "PassEnv \<Rightarrow> nat \<Rightarrow> Value \<Rightarrow> PassState \<Rightarrow> (nat list \<times> PassState) option" where
  "getConditions E n phi s = do {
     controllers \<leftarrow> getPhiControllingBlocks (fn E) (pdf E) phi;
     conditions_of E n (take (length (val_operands (fn E) phi)) (phi_blocks (fn E) phi)) controllers s }"

section \<open>Conditions of loops\<close>

definition isLoopHeader :: "LlvmFunction \<Rightarrow> Block \<Rightarrow> bool" where
  "isLoopHeader F bb \<longleftrightarrow> (case loop_of F bb of None \<Rightarrow> False | Some l \<Rightarrow> loop_header l = bb)"

definition add_condition :: "PassEnv \<Rightarrow> nat \<Rightarrow> Block \<Rightarrow> Value \<Rightarrow> KArg list \<Rightarrow> PassState \<Rightarrow> PassState option" where
  "add_condition E n phi_bb controlling_cond args s = do {
     let (ci, s) = create (KCall K_PhiAddCond args) s;
     let s = constrainInstPlacement (New ci) (Orig (bb_terminator (fn E) phi_bb)) s;
     map_option snd (requireValTimestampBeforeUser E n controlling_cond (New ci) s) }"

fun add_conditions :: "PassEnv \<Rightarrow> nat \<Rightarrow> Block \<Rightarrow> Value \<Rightarrow> KArg list \<Rightarrow> Block list \<Rightarrow> PassState \<Rightarrow> PassState option" where
  "add_conditions E n phi_bb controlling_cond args [] s = Some s"
| "add_conditions E n phi_bb controlling_cond args (b # bs) s =
     add_condition E n phi_bb controlling_cond args s \<bind> add_conditions E n phi_bb controlling_cond args bs"

definition is_do_loop :: "LlvmFunction \<Rightarrow> Loop \<Rightarrow> Block \<Rightarrow> bool" where
  "is_do_loop F l phi_bb \<longleftrightarrow> set (bb_succs F phi_bb) \<subseteq> set (loop_blocks l) \<or> phi_bb \<in> set (bb_succs F phi_bb)"

definition handleLoops :: "PassEnv \<Rightarrow> nat \<Rightarrow> Value \<Rightarrow> PassState \<Rightarrow> PassState option" where
  "handleLoops E n phi s =
     (let phi_bb = val_block (fn E) phi; br = bb_terminator (fn E) phi_bb in
      if \<not> isLoopHeader (fn E) phi_bb then Some s
      else if \<not> (isa_op [OBr] (fn E) br \<and> br_condition (fn E) br \<noteq> None) then Some s
      else do {
        controlling_cond \<leftarrow> getControllingCondition (fn E) phi_bb;
        if is_constant E controlling_cond then Some s
        else do {
          associated_loop \<leftarrow> loop_of (fn E) phi_bb;
          let (dest, s) = getId phi s;
          let (c, s) = getId controlling_cond s;
          if is_do_loop (fn E) associated_loop phi_bb
          then do {
            predecessors \<leftarrow> IsPredecessor (fn E) phi_bb;
            add_conditions E n phi_bb controlling_cond [Num dest, Num c]
              (filter (\<lambda>b. b \<notin> predecessors \<and> b \<noteq> phi_bb) (bb_succs (fn E) phi_bb)) s }
          else add_condition E n phi_bb controlling_cond [Num dest, Num c] s } })"

section \<open>Phi nodes\<close>

fun constrain_all :: "nat list \<Rightarrow> PInst \<Rightarrow> PassState \<Rightarrow> PassState" where
  "constrain_all [] user s = s"
| "constrain_all (k # ks) user s = constrain_all ks user (constrainInstPlacement (New k) user s)"

definition phi_call :: "UInt \<Rightarrow> nat \<Rightarrow> nat list \<Rightarrow> NewInst" where
  "phi_call dest incoming ctrl_deps =
     (let deps = map (\<lambda>k. OfInst (New k)) ctrl_deps in
      if 1 \<le> length ctrl_deps \<and> length ctrl_deps < MAX_SPECIALIZED
      then KCall (K_PhiNTo1 (length ctrl_deps)) (Num dest # OfInst (New incoming) # deps)
      else KCall K_Phi (Num dest # OfInst (New incoming) # Num (of_nat (length ctrl_deps)) # deps))"

definition phi_handle :: "PassEnv \<Rightarrow> nat \<Rightarrow> Firsts \<Rightarrow> Value \<Rightarrow> PassState \<Rightarrow> PassState option" where
  "phi_handle E n first phi s =
     (if isInductionVariable E phi then handleIndVar E phi s
      else if isReductionVar E phi then Some s
      else do {
        let (dest, s) = getId phi s;
        (incoming_val_id, s) \<leftarrow> identifyIncomingValueId E n phi s;
        let s = constrainInstPlacement (New incoming_val_id) (Orig phi) s;
        (ctrl_deps, s) \<leftarrow> getConditions E n phi s;
        let s = constrain_all ctrl_deps (Orig phi) s;
        let (ci, s) = create (phi_call dest incoming_val_id ctrl_deps) s;
        let s = constrainInstPlacement (New ci) (first (val_block (fn E) phi)) s;
        handleLoops E n phi s })"

section \<open>The rounds\<close>

fun phi_insts :: "PassEnv \<Rightarrow> nat \<Rightarrow> Firsts \<Rightarrow> Value list \<Rightarrow> PassState \<Rightarrow> PassState option" where
  "phi_insts E n first [] s = Some s"
| "phi_insts E n first (i # is) s = do {
     s \<leftarrow> (if isa_op [OPHI] (fn E) i then phi_handle E n first i s else Some s);
     phi_insts E n first is s }"

fun phi_round :: "PassEnv \<Rightarrow> nat \<Rightarrow> Firsts \<Rightarrow> Block list \<Rightarrow> PassState \<Rightarrow> PassState option" where
  "phi_round E n first [] s = Some s"
| "phi_round E n first (bb # bbs) s =
     (if skip_block E bb then phi_round E n first bbs s
      else phi_insts E n first (bb_insts (fn E) bb) s \<bind> phi_round E n first bbs)"

text \<open>The calls for one function; the placer runs after each round.\<close>

definition instrument_function :: "PassEnv \<Rightarrow> nat \<Rightarrow> Firsts \<Rightarrow> Firsts \<Rightarrow> Firsts \<Rightarrow> PassState option" where
  "instrument_function E n first2 first3 first4 = do {
     s \<leftarrow> first_round E n;
     s \<leftarrow> phi_round E n first2 (fun_blocks (fn E)) s;
     s \<leftarrow> control_round E n first3 (fun_blocks (fn E)) s;
     Some (LocalTableHandler E first4 s) }"

end
