(* ===== verification/PassTypes.thy ===== *)
theory PassTypes
  imports PhiHandlers StaticTimestampSpec
begin

text \<open>
  The calls the pass emits fit the types with which the handlers declare the functions of the runtime.
\<close>

section \<open>The declared types\<close>

datatype ArgType = I32 | I64 | PI8

text \<open>The fixed parameters, and whether more may follow.\<close>

fun signature :: "KFunction \<Rightarrow> ArgType list \<times> bool" where
  "signature K_Timestamp = ([I32, I32], True)"
| "signature (K_TimestampN n) = (I32 # replicate (2 * n) I32, False)"
| "signature K_Store = ([I32, PI8, I32], False)"
| "signature K_StoreConst = ([PI8, I32], False)"
| "signature K_Load = ([PI8, I32, I32, I32], True)"
| "signature (K_LoadN n) = ([PI8, I32, I32] @ replicate n I32, False)"
| "signature K_ReturnConst = ([], False)"
| "signature K_Return = ([I32], False)"
| "signature K_DeqArg = ([I32], False)"
| "signature K_EnqArg = ([I32], False)"
| "signature K_EnqArgConst = ([], False)"
| "signature K_LinkReturn = ([I32], False)"
| "signature K_PrepCall = ([I64, I64], False)"
| "signature K_PushCDep = ([I32], False)"
| "signature K_PopCDep = ([], False)"
| "signature K_PrepRTable = ([I32, I32], False)"
| "signature K_Work = ([I32], False)"
| "signature K_Induction = ([I32], False)"
| "signature K_Phi = ([I32, I32, I32], True)"
| "signature (K_PhiNTo1 n) = ([I32, I32] @ replicate n I32, False)"
| "signature K_PhiAddCond = ([I32, I32], False)"
| "signature K_Malloc = ([PI8, I64, I32], False)"
| "signature K_Realloc = ([PI8, PI8, I64, I32], False)"
| "signature K_Free = ([PI8], False)"

text \<open>The functions that are declared: the specialised ones have bounds.\<close>

fun declared :: "KFunction \<Rightarrow> bool" where
  "declared (K_TimestampN n) = (n < NUM_SPECIALIZED)"
| "declared (K_LoadN n) = (n < MAX_SPECIALIZED)"
| "declared (K_PhiNTo1 n) = (1 \<le> n \<and> n < MAX_SPECIALIZED)"
| "declared f = True"

definition value_type :: "LlvmFunction \<Rightarrow> Value \<Rightarrow> ArgType option" where
  "value_type F v =
     (case val_type F v of
        TInt w \<Rightarrow> (if w = 32 then Some I32 else if w = 64 then Some I64 else None)
      | TPointer \<Rightarrow> (if pointee_type F v = TInt 8 then Some PI8 else None)
      | _ \<Rightarrow> None)"

definition arg_type :: "LlvmFunction \<Rightarrow> NewInst list \<Rightarrow> KArg \<Rightarrow> ArgType option" where
  "arg_type F is a =
     (case a of
        Num i \<Rightarrow> Some I32
      | Num64 i \<Rightarrow> Some I64
      | OfInst (Orig v) \<Rightarrow> value_type F v
      | OfInst (New k) \<Rightarrow>
         if k < length is then (case is ! k of PointerCast v \<Rightarrow> Some PI8 | IdPhi es \<Rightarrow> Some I32 | KCall f as \<Rightarrow> None) else None)"

text \<open>What a variadic function gets beyond its parameters are 32-bit integers.\<close>

definition call_typed :: "LlvmFunction \<Rightarrow> NewInst list \<Rightarrow> KFunction \<Rightarrow> KArg list \<Rightarrow> bool" where
  "call_typed F is f as \<longleftrightarrow> declared f \<and> (let (ts, more) = signature f in
     length ts \<le> length as \<and> (\<not> more \<longrightarrow> length as = length ts)
     \<and> map (arg_type F is) as = map Some (ts @ replicate (length as - length ts) I32))"

definition inst_typed :: "LlvmFunction \<Rightarrow> NewInst list \<Rightarrow> NewInst \<Rightarrow> bool" where
  "inst_typed F is i = (case i of KCall f as \<Rightarrow> call_typed F is f as | PointerCast v \<Rightarrow> True | IdPhi es \<Rightarrow> True)"

definition typed :: "LlvmFunction \<Rightarrow> PassState \<Rightarrow> bool" where
  "typed F s \<longleftrightarrow> (\<forall>i \<in> set (new_insts s). inst_typed F (new_insts s) i)"

lemma typed_new [simp]: "typed F PassState_new"
  by (simp add: typed_def PassState_new_def)

lemma typed_cong: "new_insts s' = new_insts s \<Longrightarrow> typed F s' = typed F s"
  by (simp add: typed_def)

lemma arg_type_append: "arg_type F is a = Some t \<Longrightarrow> arg_type F (is @ js) a = Some t"
  by (auto simp: arg_type_def nth_append split: KArg.splits PInst.splits if_splits)

lemma call_typed_append: "call_typed F is f as \<Longrightarrow> call_typed F (is @ js) f as"
proof -
  assume c: "call_typed F is f as"
  obtain ts more where s: "signature f = (ts, more)" by (cases "signature f")
  let ?us = "ts @ replicate (length as - length ts) I32"
  from c s have m: "map (arg_type F is) as = map Some ?us" "length ts \<le> length as" "\<not> more \<longrightarrow> length as = length ts" "declared f"
    by (simp_all add: call_typed_def)
  have len: "length as = length ?us" using m(2) by simp
  have "map (arg_type F (is @ js)) as = map Some ?us"
  proof (rule nth_equalityI)
    fix k assume k: "k < length (map (arg_type F (is @ js)) as)"
    then have "arg_type F is (as ! k) = Some (?us ! k)" using m(1) len by (metis length_map nth_map)
    then have "arg_type F (is @ js) (as ! k) = Some (?us ! k)" by (rule arg_type_append)
    moreover have "k < length as" "k < length ?us" using k len by simp_all
    ultimately show "map (arg_type F (is @ js)) as ! k = map Some ?us ! k" by (simp only: nth_map)
  qed (use len in simp)
  then show ?thesis using m s by (simp add: call_typed_def)
qed

lemma inst_typed_append: "inst_typed F is i \<Longrightarrow> inst_typed F (is @ js) i"
  by (auto simp: inst_typed_def call_typed_append split: NewInst.splits)

lemma typed_create:
  assumes "typed F s" "create i s = (k, s')" "inst_typed F (new_insts s) i"
  shows "typed F s' \<and> k = length (new_insts s) \<and> new_insts s' = new_insts s @ [i]"
  using assms inst_typed_append by (auto simp: create_def typed_def)

section \<open>Every step keeps the types\<close>

lemma getId_insts: "getId v s = (i, s') \<Longrightarrow> new_insts s' = new_insts s"
  by (auto simp: getId_def split: option.splits)

lemma push_ids_insts: "push_ids vs s = (as, s') \<Longrightarrow> new_insts s' = new_insts s \<and> (\<exists>is. as = map Num is \<and> length is = length vs)"
proof (induction vs arbitrary: s as s')
  case (Cons v vs)
  obtain i s1 where i: "getId v s = (i, s1)" by (cases "getId v s")
  obtain bs s2 where b: "push_ids vs s1 = (bs, s2)" by (cases "push_ids vs s1")
  from Cons.IH [OF b] obtain js where "bs = map Num js" "length js = length vs" "new_insts s2 = new_insts s1" by blast
  then show ?case using Cons.prems getId_insts [OF i] by (auto simp: i b intro: exI [of _ "i # js"])
qed simp

lemma push_candidates_insts:
  "push_candidates ts s = (as, s') \<Longrightarrow> new_insts s' = new_insts s \<and> (\<exists>is. as = map Num is \<and> length is = 2 * length ts)"
proof (induction ts arbitrary: s as s')
  case (Cons c ts)
  obtain b off where c: "c = (b, off)" by (cases c)
  obtain i s1 where i: "getId b s = (i, s1)" by (cases "getId b s")
  obtain bs s2 where b: "push_candidates ts s1 = (bs, s2)" by (cases "push_candidates ts s1")
  from Cons.IH [OF b] obtain js where "bs = map Num js" "length js = 2 * length ts" "new_insts s2 = new_insts s1" by blast
  then show ?case using Cons.prems getId_insts [OF i] by (auto simp: c i b intro: exI [of _ "i # off # js"])
qed simp

lemma arg_type_num [simp]: "arg_type F is (Num i) = Some I32" "arg_type F is (Num64 j) = Some I64"
  by (simp_all add: arg_type_def)

lemma map_arg_type_nums [simp]: "map (arg_type F is \<circ> Num) js = replicate (length js) (Some I32)"
  by (induction js) simp_all

lemma typed_constrain [simp]: "typed F (constrainInstPlacement i u s) = typed F s"
  by (simp add: typed_def constrainInstPlacement_def)

text \<open>A step that keeps the types and leaves the instructions, the constraints and the identifiers there are.\<close>

definition grows :: "LlvmFunction \<Rightarrow> PassState \<Rightarrow> PassState \<Rightarrow> bool" where
  "grows F s s' \<longleftrightarrow> (typed F s \<longrightarrow> typed F s') \<and> (\<exists>is. new_insts s' = new_insts s @ is)
     \<and> (\<exists>cs. constraints s' = constraints s @ cs) \<and> id_map s \<subseteq>\<^sub>m id_map s'"

lemma grows_refl [simp]: "grows F s s"
  by (simp add: grows_def)

lemma grows_trans: "grows F s s1 \<Longrightarrow> grows F s1 s2 \<Longrightarrow> grows F s s2"
  unfolding grows_def by (auto intro: map_le_trans)

lemma grows_same:
  "new_insts s' = new_insts s \<Longrightarrow> constraints s' = constraints s \<Longrightarrow> id_map s \<subseteq>\<^sub>m id_map s' \<Longrightarrow> grows F s s'"
  by (simp add: grows_def typed_def)

lemma grows_typed: "grows F s s' \<Longrightarrow> typed F s \<Longrightarrow> typed F s'"
  by (simp add: grows_def)

lemma grows_arg: "grows F s s' \<Longrightarrow> arg_type F (new_insts s) a = Some t \<Longrightarrow> arg_type F (new_insts s') a = Some t"
  by (auto simp: grows_def arg_type_append)

lemma grows_create: "create i s = (k, s') \<Longrightarrow> inst_typed F (new_insts s) i \<Longrightarrow> grows F s s'"
  using typed_create [of F s i k s'] by (auto simp: grows_def create_def)

lemma grows_constrain: "grows F s s' \<Longrightarrow> grows F s (constrainInstPlacement i u s')"
  by (auto simp: grows_def) (auto simp: constrainInstPlacement_def)

lemma grows_getId: "getId v s = (i, s') \<Longrightarrow> grows F s s'"
  by (rule grows_same) (auto simp: getId_def map_le_def dom_def split: option.splits)

lemma grows_push_candidates: "push_candidates ts s = (as, s') \<Longrightarrow> grows F s s'"
proof (induction ts arbitrary: s as s')
  case (Cons c ts)
  obtain b off where c: "c = (b, off)" by (cases c)
  obtain i s1 where i: "getId b s = (i, s1)" by (cases "getId b s")
  obtain bs s2 where b: "push_candidates ts s1 = (bs, s2)" by (cases "push_candidates ts s1")
  then show ?case using Cons grows_trans [OF grows_getId [OF i] Cons.IH [OF b]] by (simp add: c i)
qed simp

lemma grows_to_log_call:
  assumes "to_log_call v ts s = (ci, s')"
  shows "grows F s s'"
proof -
  obtain d s1 where d: "getId v s = (d, s1)" by (cases "getId v s")
  obtain as s2 where as: "push_candidates ts s1 = (as, s2)" by (cases "push_candidates ts s1")
  from push_candidates_insts [OF as] getId_insts [OF d] obtain js where
    js: "as = map Num js" "length js = 2 * length ts" "new_insts s2 = new_insts s" by auto
  let ?i = "if length ts < NUM_SPECIALIZED then KCall (K_TimestampN (length ts)) (Num d # as)
      else KCall K_Timestamp (Num d # Num (of_nat (length ts)) # as)"
  have "inst_typed F (new_insts s2) ?i"
    by (simp add: inst_typed_def call_typed_def js(1,2))
  moreover have "create ?i s2 = (ci, s')" using assms by (simp add: to_log_call_def d as)
  ultimately show ?thesis using grows_create grows_trans [OF grows_trans [OF grows_getId [OF d] grows_push_candidates [OF as]]] by blast
qed

definition keeps_typed :: "LlvmFunction \<Rightarrow> Analysis \<Rightarrow> bool" where
  "keeps_typed F A \<longleftrightarrow> (\<forall>v s ts s'. A v s = Some (ts, s') \<longrightarrow> grows F s s')"

lemma grows_requireVal:
  assumes "keeps_typed F A" "requireVal E A v user s = Some (ci, s')"
  shows "grows F s s'"
proof (cases "placed s v")
  case (Some k)
  then show ?thesis using assms(2) by (auto simp: requireVal_def intro: grows_constrain)
next
  case None
  then obtain ts s1 where a: "A v s = Some (ts, s1)" using assms(2) by (auto simp: requireVal_def split: bind_splits)
  obtain k s2 where k: "to_log_call v ts s1 = (k, s2)" by (cases "to_log_call v ts s1")
  have "grows F s s1" using assms(1) a unfolding keeps_typed_def by blast
  then have "grows F s s2" using grows_to_log_call [OF k] grows_trans by blast
  moreover have "grows F s2 (s2\<lparr>placed := (placed s2)(v \<mapsto> k)\<rparr>)" by (rule grows_same) simp_all
  ultimately have "grows F s (s2\<lparr>placed := (placed s2)(v \<mapsto> k)\<rparr>)" by (rule grows_trans)
  then show ?thesis using assms(2) by (auto simp: requireVal_def None a k Let_def split: if_splits intro!: grows_constrain)
qed

lemma grows_add_source: "keeps_typed F A \<Longrightarrow> add_source E A v w u (ts, s) = Some (ts', s') \<Longrightarrow> grows F s s'"
  unfolding keeps_typed_def add_source_def
  by (auto split: if_splits bind_splits intro: grows_requireVal [unfolded keeps_typed_def])

lemma grows_add_sources: "keeps_typed F A \<Longrightarrow> add_sources E A v w us (ts, s) = Some (ts', s') \<Longrightarrow> grows F s s'"
proof (induction us arbitrary: ts s)
  case (Cons u us)
  then obtain t1 s1 where "add_source E A v w u (ts, s) = Some (t1, s1)" "add_sources E A v w us (t1, s1) = Some (ts', s')"
    by (auto split: bind_splits)
  then show ?case using Cons grows_add_source grows_trans by blast
qed simp

lemma keeps_typed_getTimestamp: "keeps_typed F (getTimestamp E n)"
proof (induction n)
  case (Suc n)
  have step: "grows F s s'" if "work_op_getTimestamp E (getTimestamp E n) v s = Some (ts, s')" for v s ts s'
  proof -
    from that obtain w t1 s1 cs where
      "add_sources E (getTimestamp E n) v w (val_operands (fn E) v) ([], s) = Some (t1, s1)"
      "add_sources E (getTimestamp E n) v w cs (t1, s1) = Some (ts, s')"
      unfolding work_op_getTimestamp_def by (auto split: bind_splits)
    then show ?thesis using grows_add_sources [OF Suc] grows_trans by blast
  qed
  have memo: "grows F s (s'\<lparr>ts_memo := m\<rparr>) = grows F s s'" for s s' m by (simp add: grows_def typed_def)
  show ?case unfolding keeps_typed_def
    by (auto split: option.splits bind_splits ValueClass.splits simp: memo dest: step)
qed (simp add: keeps_typed_def)

lemma grows_require: "requireValTimestampBeforeUser E n v user s = Some (ci, s') \<Longrightarrow> grows F s s'"
  unfolding requireValTimestampBeforeUser_def by (rule grows_requireVal [OF keeps_typed_getTimestamp])

lemma typed_require:
  "typed F s \<Longrightarrow> requireValTimestampBeforeUser E n v user s = Some (ci, s') \<Longrightarrow> typed F s'"
  using grows_require grows_typed by blast

text \<open>The handlers.\<close>

lemma arg_type_cast: "is ! k = PointerCast v \<Longrightarrow> k < length is \<Longrightarrow> arg_type F is (OfInst (New k)) = Some PI8"
  by (simp add: arg_type_def)

lemma typed_load:
  assumes "typed F s" "load_handle E load s = Some s'"
  shows "typed F s'"
proof -
  from assms(2) obtain ptr where p: "rd (val_operands (fn E) load) 0 = Some ptr" by (auto simp: load_handle_def split: bind_splits)
  obtain c s1 where c: "create (PointerCast ptr) s = (c, s1)" by (cases "create (PointerCast ptr) s")
  obtain d s2 where d: "getId load s1 = (d, s2)" by (cases "getId load s1")
  let ?vs = "filter (is_load_dependence E) (if isa_op [OGetElementPtr] (fn E) ptr then tl (val_operands (fn E) ptr) else [])"
  obtain cs s3 where cs: "push_ids ?vs s2 = (cs, s3)" by (cases "push_ids ?vs s2")
  let ?i = "load_call (OfInst (New c)) d cs (getTypeSizeInBytes E load)"
  obtain k s4 where k: "create ?i s3 = (k, s4)" by (cases "create ?i s3")
  have t1: "typed F s1" "c = length (new_insts s)" "new_insts s1 = new_insts s @ [PointerCast ptr]"
    using typed_create [OF assms(1) c] by (simp_all add: inst_typed_def)
  from push_ids_insts [OF cs] getId_insts [OF d] t1 obtain js where
    js: "cs = map Num js" and i3: "new_insts s3 = new_insts s @ [PointerCast ptr]" by auto
  have t3: "typed F s3" using t1(1,3) i3 typed_cong [of s3 s1] by simp
  have cast: "arg_type F (new_insts s3) (OfInst (New c)) = Some PI8" by (rule arg_type_cast) (simp_all add: i3 t1(2))
  have "inst_typed F (new_insts s3) ?i"
  proof (cases "length cs < MAX_SPECIALIZED")
    case True
    then show ?thesis by (simp add: load_call_def inst_typed_def call_typed_def cast js replicate_append_same)
  next
    case False
    then obtain j js' where "js = j # js'" by (cases js) (auto simp: js MAX_SPECIALIZED_def)
    with False show ?thesis
      by (simp add: load_call_def Let_def inst_typed_def call_typed_def cast js replicate_append_same)
  qed
  then have "typed F s4" using typed_create [OF t3 k] by blast
  then show ?thesis using assms(2) by (auto simp: load_handle_def p c d cs k Let_def)
qed

lemma typed_store:
  assumes "typed F s" "store_handle E n inst s = Some s'"
  shows "typed F s'"
proof -
  from assms(2) obtain src ptr where p: "rd (val_operands (fn E) inst) 0 = Some src" "rd (val_operands (fn E) inst) 1 = Some ptr"
    by (auto simp: store_handle_def split: bind_splits)
  let ?const = "is_constant E src"
  obtain ids s1 where ids: "(if ?const then ([], s) else push_ids [src] s) = (ids, s1)" by (metis surj_pair)
  obtain c s2 where c: "create (PointerCast ptr) s1 = (c, s2)" by (cases "create (PointerCast ptr) s1")
  let ?i = "KCall (if ?const then K_StoreConst else K_Store) (ids @ [OfInst (New c), Num (getTypeSizeInBytes E src)])"
  obtain k s3 where k: "create ?i s2 = (k, s3)" by (cases "create ?i s2")
  have i1: "new_insts s1 = new_insts s" "\<exists>is. ids = map Num is \<and> length is = (if ?const then 0 else 1)"
    using ids push_ids_insts [of "[src]" s ids s1] by (auto split: if_splits)
  have t1: "typed F s1" using assms(1) typed_cong [OF i1(1)] by simp
  have t2: "typed F s2" "arg_type F (new_insts s2) (OfInst (New c)) = Some PI8"
    using typed_create [OF t1 c] by (simp_all add: inst_typed_def arg_type_def)
  obtain js where "ids = map Num js" "length js = (if ?const then 0 else 1)" using i1(2) by blast
  then have "inst_typed F (new_insts s2) ?i"
    using t2(2) by (cases js) (auto simp: inst_typed_def call_typed_def split: if_splits)
  then have t3: "typed F s3" using typed_create [OF t2(1) k] by blast
  show ?thesis
    using assms(2) t3 typed_require [of F "constrainInstPlacement (New k) (Orig inst) (constrainInstPlacement (New c) (New k) s3)"]
    by (auto simp: store_handle_def p ids c k Let_def split: if_splits)
qed

lemma typed_return:
  assumes "typed F s" "return_handle E n ri s = Some s'"
  shows "typed F s'"
proof (cases "val_operands (fn E) ri")
  case Nil
  then show ?thesis using assms by (simp add: return_handle_def)
next
  case (Cons v vs)
  show ?thesis
  proof (cases "returns_real_type (fun_returns (fn E))")
    case False
    then show ?thesis using assms Cons by (simp add: return_handle_def)
  next
    case True
    let ?const = "is_constant E v"
    obtain ids s1 where ids: "(if ?const then ([], s) else push_ids [v] s) = (ids, s1)" by (metis surj_pair)
    let ?i = "KCall (if ?const then K_ReturnConst else K_Return) ids"
    obtain k s2 where k: "create ?i s1 = (k, s2)" by (cases "create ?i s1")
    have i1: "new_insts s1 = new_insts s" "\<exists>is. ids = map Num is \<and> length is = (if ?const then 0 else 1)"
      using ids push_ids_insts [of "[v]" s ids s1] by (auto split: if_splits)
    have t1: "typed F s1" using assms(1) typed_cong [OF i1(1)] by simp
    obtain js where "ids = map Num js" "length js = (if ?const then 0 else 1)" using i1(2) by blast
    then have "inst_typed F (new_insts s1) ?i"
      by (cases js) (auto simp: inst_typed_def call_typed_def split: if_splits)
    then have t2: "typed F s2" using typed_create [OF t1 k] by blast
    show ?thesis
      using assms(2) t2 typed_require [of F "constrainInstPlacement (New k) (Orig ri) s2"]
      by (auto simp: return_handle_def Cons True ids k Let_def split: if_splits)
  qed
qed

lemma typed_simple:
  assumes "typed F s" "create (KCall f (map Num is)) s = (k, s')" "signature f = (replicate (length is) I32, False)" "declared f"
  shows "typed F s'"
proof -
  have "inst_typed F (new_insts s) (KCall f (map Num is))" using assms(3,4) by (simp add: inst_typed_def call_typed_def)
  then show ?thesis using typed_create [OF assms(1,2)] by blast
qed

lemma typed_getId: "typed F s \<Longrightarrow> getId v s = (i, s') \<Longrightarrow> typed F s'"
  using getId_insts typed_cong by blast

lemma typed_link_arg:
  assumes "typed F s" "link_arg E n a (l, s) = Some (l', s')"
  shows "typed F s'"
proof -
  consider "val_type (fn E) a = TPointer" | "val_type (fn E) a \<noteq> TPointer" "is_constant E a"
    | "val_type (fn E) a \<noteq> TPointer" "\<not> is_constant E a" by blast
  then show ?thesis
  proof cases
    case 1
    then show ?thesis using assms by (simp add: link_arg_def)
  next
    case 2
    obtain k s1 where k: "create (KCall K_EnqArgConst (map Num [])) s = (k, s1)" by (metis surj_pair)
    have "typed F s1" by (rule typed_simple [OF assms(1) k]) simp_all
    then show ?thesis using assms(2) 2 k by (simp add: link_arg_def) (metis typed_constrain)
  next
    case 3
    obtain i s1 where i: "getId a s = (i, s1)" by (cases "getId a s")
    obtain k s2 where k: "create (KCall K_EnqArg (map Num [i])) s1 = (k, s2)" by (metis surj_pair)
    have "typed F s2" by (rule typed_simple [OF typed_getId [OF assms(1) i] k]) simp_all
    then show ?thesis using assms(2) 3 k typed_require [of F s2] by (auto simp: link_arg_def i split: bind_splits)
  qed
qed

lemma typed_link_args: "typed F s \<Longrightarrow> link_args E n as (l, s) = Some (l', s') \<Longrightarrow> typed F s'"
proof (induction as arbitrary: l s)
  case (Cons a as)
  then obtain l1 s1 where "link_arg E n a (l, s) = Some (l1, s1)" "link_args E n as (l1, s1) = Some (l', s')"
    by (auto split: bind_splits)
  then show ?case using Cons typed_link_arg by blast
qed simp

lemma typed_call:
  assumes "typed F s" "call_handle E n inst (c, s) = Some (c', s')"
  shows "typed F s'"
proof (cases "case called_function (fn E) inst of None \<Rightarrow> False | Some f \<Rightarrow> \<not> shouldHandle f")
  case True
  then show ?thesis using assms by (simp add: call_handle_def)
next
  case False
  obtain i s1 where i: "getId inst s = (i, s1)" by (cases "getId inst s")
  obtain k s2 where k: "create (KCall K_LinkReturn (map Num [i])) s1 = (k, s2)" by (metis surj_pair)
  have t2: "typed F s2" by (rule typed_simple [OF typed_getId [OF assms(1) i] k]) simp_all
  obtain l s3 where l: "(if returns_real_type (val_type (fn E) inst) then (New k, constrainInstPlacement (New k) (Orig inst) s2)
      else (Orig inst, s)) = (l, s3)" by (metis surj_pair)
  have t3: "typed F s3" using l t2 assms(1) by (auto split: if_splits)
  have "(if returns_real_type (val_type (fn E) inst)
          then let (i, s) = getId inst s; (link, s) = create (KCall K_LinkReturn [Num i]) s
               in (New link, constrainInstPlacement (New link) (Orig inst) s)
          else (Orig inst, s)) = (l, s3)" using l k by (auto simp: i split: if_splits)
  then obtain l4 s4 where l4: "link_args E n (call_args (fn E) inst) (l, s3) = Some (l4, s4)"
    using assms(2) False by (auto simp: call_handle_def split: bind_splits)
  have t4: "typed F s4" by (rule typed_link_args [OF t3 l4])
  let ?p = "KCall K_PrepCall [Num64 (call_site_id (fn E) inst c), Num64 0]"
  obtain q s5 where q: "create ?p s4 = (q, s5)" by (cases "create ?p s4")
  have "inst_typed F (new_insts s4) ?p" by (simp add: inst_typed_def call_typed_def)
  then have "typed F s5" using typed_create [OF t4 q] by blast
  then show ?thesis
    using assms(2) False l k l4 q by (auto simp: call_handle_def i split: if_splits)
qed

lemma typed_deq_args: "typed F s \<Longrightarrow> deq_args E as (l, s) = (l', s') \<Longrightarrow> typed F s'"
proof (induction as arbitrary: l s)
  case (Cons a as)
  obtain i s1 where i: "getId a s = (i, s1)" by (cases "getId a s")
  obtain k s2 where k: "create (KCall K_DeqArg (map Num [i])) s1 = (k, s2)" by (metis surj_pair)
  have "typed F s2" by (rule typed_simple [OF typed_getId [OF Cons.prems(1) i] k]) simp_all
  then have t: "typed F (constrainInstPlacement (New k) l s2)" by simp
  show ?case
  proof (cases "val_type (fn E) a = TPointer")
    case True
    then show ?thesis using Cons by auto
  next
    case False
    then have "deq_args E as (New k, constrainInstPlacement (New k) l s2) = (l', s')"
      using Cons.prems(2) i k by simp
    then show ?thesis by (rule Cons.IH [OF t])
  qed
qed simp

lemma typed_FunctionArgs: "typed F s \<Longrightarrow> FunctionArgsHandler E s = Some s' \<Longrightarrow> typed F s'"
  using typed_deq_args [of F s E "fun_args (fn E)" _ "fst (deq_args E (fun_args (fn E)) _)"]
  by (auto simp: FunctionArgsHandler_def split: if_splits bind_splits) (metis prod.collapse typed_deq_args)

lemma typed_LocalTable:
  assumes "typed F s"
  shows "typed F (LocalTableHandler E first s)"
proof -
  obtain k s1 where k: "create (KCall K_PrepRTable (map Num [ucast (id_count s), 0])) s = (k, s1)" by (metis surj_pair)
  have "typed F s1" by (rule typed_simple [OF assms k]) simp_all
  then show ?thesis using k by (simp add: LocalTableHandler_def)
qed

lemma typed_work:
  assumes "typed F s" "work_handleBasicBlock E bb s = Some s'"
  shows "typed F s'"
proof (cases "work_handleBasicBlock E bb s = Some s")
  case False
  then obtain w where w: "block_work E bb = Some w" using assms(2)
    by (auto simp: work_handleBasicBlock_def split: if_splits bind_splits)
  obtain k s1 where k: "create (KCall K_Work (map Num [ucast w])) s = (k, s1)" by (metis surj_pair)
  have "typed F s1" by (rule typed_simple [OF assms(1) k]) simp_all
  then show ?thesis using assms(2) False k by (auto simp: work_handleBasicBlock_def w split: if_splits bind_splits)
qed (use assms in simp)

section \<open>Allocations\<close>

text \<open>The program calls the allocation functions with their own types.\<close>

definition libc_prototypes :: "LlvmFunction \<Rightarrow> bool" where
  "libc_prototypes F \<longleftrightarrow> (\<forall>inst f. untangleCall F inst = Some f \<longrightarrow>
     (callee_name f \<in> {Some ''malloc'', Some ''calloc'', Some ''realloc''} \<longrightarrow> value_type F inst = Some PI8)
     \<and> (callee_name f \<in> {Some ''malloc'', Some ''calloc''} \<longrightarrow> (\<forall>z. rd (call_args F inst) 0 = Some z \<longrightarrow> value_type F z = Some I64))
     \<and> (callee_name f = Some ''realloc'' \<longrightarrow> (\<forall>z. rd (call_args F inst) 1 = Some z \<longrightarrow> value_type F z = Some I64)))"

lemma arg_type_value [simp]: "arg_type F is (OfInst (Orig v)) = value_type F v"
  by (simp add: arg_type_def)

lemma typed_address:
  assumes "typed (fn E) s" "address_arg E inst v s = Some (a, s')"
  shows "typed (fn E) s' \<and> arg_type (fn E) (new_insts s') a = Some PI8"
proof -
  from assms(2) have p: "val_type (fn E) v = TPointer" by (auto simp: address_arg_def isNBitIntPointer_def split: if_splits bind_splits)
  show ?thesis
  proof (cases "pointee_type (fn E) v = TInt 8")
    case True
    then show ?thesis using assms p by (auto simp: address_arg_def isNBitIntPointer_def value_type_def)
  next
    case False
    obtain k s1 where k: "create (PointerCast v) s = (k, s1)" by (cases "create (PointerCast v) s")
    have "typed (fn E) s1" "arg_type (fn E) (new_insts s1) (OfInst (New k)) = Some PI8"
      using typed_create [OF assms(1) k] by (simp_all add: inst_typed_def arg_type_def)
    then show ?thesis using assms(2) p False k by (auto simp: address_arg_def isNBitIntPointer_def typed_def)
  qed
qed

lemma typed_memory:
  assumes "typed (fn E) s" "memory_handle E inst s = Some s'" "libc_prototypes (fn E)"
  shows "typed (fn E) s'"
proof (cases "untangleCall (fn E) inst")
  case None
  then show ?thesis using assms by (simp add: memory_handle_def)
next
  case (Some f)
  consider (other) "callee_intrinsic f \<or> callee_name f \<notin> {Some ''malloc'', Some ''calloc'', Some ''free'', Some ''realloc''}"
    | (alloc) "callee_name f = Some ''malloc'' \<or> callee_name f = Some ''calloc''" "\<not> callee_intrinsic f"
    | (free) "callee_name f = Some ''free''" "\<not> callee_intrinsic f"
    | (realloc) "callee_name f = Some ''realloc''" "\<not> callee_intrinsic f"
    by blast
  then show ?thesis
  proof cases
    case other
    then show ?thesis using assms(1,2) by (cases "callee_intrinsic f") (auto simp: memory_handle_def Some)
  next
    case alloc
    obtain z where z: "rd (call_args (fn E) inst) 0 = Some z"
      using assms(2) alloc by (auto simp: memory_handle_def Some split: bind_splits)
    have t: "value_type (fn E) inst = Some PI8" "value_type (fn E) z = Some I64"
      using assms(3) Some alloc(1) z unfolding libc_prototypes_def by auto
    obtain i s1 where i: "getId inst s = (i, s1)" by (cases "getId inst s")
    let ?i = "KCall K_Malloc [OfInst (Orig inst), OfInst (Orig z), Num i]"
    obtain k s2 where k: "create ?i s1 = (k, s2)" by (cases "create ?i s1")
    have "inst_typed (fn E) (new_insts s1) ?i" by (simp add: inst_typed_def call_typed_def t)
    then have "typed (fn E) s2" using typed_create [OF typed_getId [OF assms(1) i] k] by blast
    then show ?thesis using assms(2) alloc z i k by (auto simp: memory_handle_def Some split: bind_splits)
  next
    case free
    obtain p a s1 where p: "rd (call_args (fn E) inst) 0 = Some p" "address_arg E inst p s = Some (a, s1)"
      using assms(2) free by (auto simp: memory_handle_def Some split: bind_splits)
    note t = typed_address [OF assms(1) p(2)]
    obtain k s2 where k: "create (KCall K_Free [a]) s1 = (k, s2)" by (cases "create (KCall K_Free [a]) s1")
    have "inst_typed (fn E) (new_insts s1) (KCall K_Free [a])" using t by (simp add: inst_typed_def call_typed_def)
    then have "typed (fn E) s2" using typed_create [OF conjunct1 [OF t] k] by blast
    then show ?thesis using assms(2) free p k by (auto simp: memory_handle_def Some split: bind_splits)
  next
    case realloc
    obtain p a s1 z where p: "rd (call_args (fn E) inst) 0 = Some p" "address_arg E inst p s = Some (a, s1)"
      "rd (call_args (fn E) inst) 1 = Some z"
      using assms(2) realloc by (auto simp: memory_handle_def Some split: bind_splits)
    note t = typed_address [OF assms(1) p(2)]
    have v: "value_type (fn E) inst = Some PI8" "value_type (fn E) z = Some I64"
      using assms(3) Some realloc(1) p(3) unfolding libc_prototypes_def by auto
    obtain i s2 where i: "getId inst s1 = (i, s2)" by (cases "getId inst s1")
    let ?i = "KCall K_Realloc [a, OfInst (Orig inst), OfInst (Orig z), Num i]"
    obtain k s3 where k: "create ?i s2 = (k, s3)" by (cases "create ?i s2")
    have "inst_typed (fn E) (new_insts s2) ?i" using t getId_insts [OF i] by (simp add: inst_typed_def call_typed_def v)
    then have "typed (fn E) s3" using typed_create [OF typed_getId [OF conjunct1 [OF t] i] k] by blast
    then show ?thesis using assms(2) realloc p i k by (auto simp: memory_handle_def Some split: bind_splits)
  qed
qed

section \<open>Control dependences and phi nodes\<close>

lemma typed_push_controller:
  assumes "typed F s" "push_controller E n first bb c s = Some s'"
  shows "typed F s'"
proof -
  obtain v where v: "getControllingCondition (fn E) c = Some v" using assms(2) by (auto simp: push_controller_def split: bind_splits)
  obtain r s1 where r: "create (KCall K_PopCDep (map Num [])) s = (r, s1)" by (metis surj_pair)
  have t1: "typed F s1" by (rule typed_simple [OF assms(1) r]) simp_all
  let ?s1 = "constrainInstPlacement (New r) (Orig (bb_terminator (fn E) bb)) s1"
  obtain i s2 where i: "getId v ?s1 = (i, s2)" by (cases "getId v ?s1")
  obtain k s3 where k: "create (KCall K_PushCDep (map Num [i])) s2 = (k, s3)" by (metis surj_pair)
  have "typed F s3" using t1 by (intro typed_simple [OF typed_getId [OF _ i] k]) simp_all
  then show ?thesis using assms(2) r i k v
    typed_require [of F "constrainInstPlacement (New k) (New r) (constrainInstPlacement (New k) (first bb) s3)"]
    by (auto simp: push_controller_def)
qed

lemma typed_control:
  assumes "typed F s" "control_handleBasicBlock E n first bb s = Some s'"
  shows "typed F s'"
proof (cases "skip_block E bb")
  case True
  then show ?thesis using assms by (simp add: control_handleBasicBlock_def)
next
  case False
  then obtain s1 where s1: "(case getControllingBlock (fn E) (pdf E) bb False of None \<Rightarrow> Some s
      | Some controller \<Rightarrow> push_controller E n first bb controller s) = Some s1"
    using assms(2) by (auto simp: control_handleBasicBlock_def split: bind_splits)
  then have t1: "typed F s1" using assms(1) typed_push_controller by (auto split: option.splits)
  then show ?thesis using assms(2) False s1 typed_require
    by (auto simp: control_handleBasicBlock_def split: option.splits if_splits)
qed

lemma typed_control_round: "typed F s \<Longrightarrow> control_round E n first bbs s = Some s' \<Longrightarrow> typed F s'"
proof (induction bbs arbitrary: s)
  case (Cons bb bbs)
  show ?case
  proof (cases "skip_block E bb")
    case False
    then obtain s1 where "control_handleBasicBlock E n first bb s = Some s1" "control_round E n first bbs s1 = Some s'"
      using Cons.prems(2) by (auto split: bind_splits)
    then show ?thesis using Cons.IH typed_control [OF Cons.prems(1)] by blast
  qed (use Cons in simp)
qed simp

lemma typed_indvar:
  assumes "typed F s" "handleIndVar E phi s = Some s'"
  shows "typed F s'"
proof -
  obtain v bb where f: "filter (\<lambda>(v, b). constant_int (fn E) v) (zip (val_operands (fn E) phi) (phi_blocks (fn E) phi)) = [(v, bb)]"
    using assms(2) by (auto simp: handleIndVar_def split: list.splits)
  obtain i s1 where i: "getId phi s = (i, s1)" by (cases "getId phi s")
  obtain k s2 where k: "create (KCall K_Induction (map Num [i])) s1 = (k, s2)" by (metis surj_pair)
  have "typed F s2" by (rule typed_simple [OF typed_getId [OF assms(1) i] k]) simp_all
  then show ?thesis using assms(2) i k by (auto simp: handleIndVar_def f)
qed

lemma grows_incoming_ids: "incoming_ids E n zs s = Some (ids, s') \<Longrightarrow> grows F s s'"
proof (induction zs arbitrary: s ids)
  case (Cons z zs)
  obtain v b where z: "z = (v, b)" by (cases z)
  obtain i s1 where i: "getId v s = (i, s1)" by (cases "getId v s")
  have step: "grows F s s2" if "(if is_constant E v then Some (0, s)
      else do { (_, s) \<leftarrow> requireValTimestampBeforeUser E n v (Orig (bb_terminator (fn E) b)) s1; Some (i, s) }) = Some (j, s2)" for j s2
    using that grows_trans [OF grows_getId [OF i] grows_require] by (auto split: if_splits bind_splits)
  show ?case using Cons grows_trans [OF step] by (auto simp: z i split: bind_splits if_splits)
qed simp

lemma created_phi:
  assumes "create (IdPhi ids) s = (k, s')"
  shows "grows F s s' \<and> arg_type F (new_insts s') (OfInst (New k)) = Some I32"
proof -
  have "inst_typed F (new_insts s) (IdPhi ids)" by (simp add: inst_typed_def)
  then show ?thesis using grows_create [OF assms] assms by (auto simp: create_def arg_type_def)
qed

lemma grows_identify:
  "identifyIncomingValueId E n phi s = Some (k, s') \<Longrightarrow> grows F s s' \<and> arg_type F (new_insts s') (OfInst (New k)) = Some I32"
  unfolding identifyIncomingValueId_def
  by (auto split: bind_splits dest!: created_phi dest: grows_incoming_ids intro: grows_trans)

lemma grows_condition_id: "getConditionIdOfBlock E n bb s = Some (i, s') \<Longrightarrow> grows F s s'"
proof -
  assume a: "getConditionIdOfBlock E n bb s = Some (i, s')"
  then obtain v ci s1 where "requireValTimestampBeforeUser E n v (Orig (bb_terminator (fn E) bb)) s = Some (ci, s1)"
    "getId v s1 = (i, s')" by (auto simp: getConditionIdOfBlock_def split: bind_splits)
  then show ?thesis using grows_trans [OF grows_require grows_getId] by blast
qed

lemma grows_condition_ids: "condition_ids E n c bs s = Some (ids, s') \<Longrightarrow> grows F s s'"
proof (induction bs arbitrary: s ids)
  case (Cons b bs)
  then obtain i s1 ids1 where "(if dominates (fn E) c b then getConditionIdOfBlock E n c s else Some (0, s)) = Some (i, s1)"
    "condition_ids E n c bs s1 = Some (ids1, s')" by (auto split: bind_splits)
  then have "grows F s s1" "grows F s1 s'" using Cons.IH grows_condition_id by (auto split: if_splits)
  then show ?case by (rule grows_trans)
qed simp

lemma grows_conditions:
  "conditions_of E n blocks cs s = Some (ks, s') \<Longrightarrow>
     grows F s s' \<and> (\<forall>k \<in> set ks. arg_type F (new_insts s') (OfInst (New k)) = Some I32)"
proof (induction cs arbitrary: s ks)
  case (Cons c cs)
  from Cons.prems obtain ids s1 where c: "condition_ids E n c blocks s = Some (ids, s1)" by (auto split: bind_splits)
  show ?case
  proof (cases "\<exists>b \<in> set blocks. dominates (fn E) c b")
    case True
    obtain k s2 where k: "create (IdPhi ids) s1 = (k, s2)" by (cases "create (IdPhi ids) s1")
    obtain ks' where ks: "conditions_of E n blocks cs s2 = Some (ks', s')" "ks = k # ks'"
      using Cons.prems True by (auto simp: c k split: bind_splits)
    have g: "grows F s1 s2" "arg_type F (new_insts s2) (OfInst (New k)) = Some I32" using created_phi [OF k] by blast+
    have r: "grows F s2 s'" "\<forall>k \<in> set ks'. arg_type F (new_insts s') (OfInst (New k)) = Some I32" using Cons.IH [OF ks(1)] by blast+
    have "grows F s s'" by (rule grows_trans [OF grows_trans [OF grows_condition_ids [OF c] g(1)] r(1)])
    then show ?thesis using grows_arg [OF r(1) g(2)] r(2) by (simp add: ks(2))
  next
    case False
    then have "conditions_of E n blocks cs s1 = Some (ks, s')" using Cons.prems by (simp add: c)
    from Cons.IH [OF this] show ?thesis using grows_trans [OF grows_condition_ids [OF c]] by blast
  qed
qed simp

lemma typed_constrain_all [simp]: "new_insts (constrain_all ks u s) = new_insts s"
  by (induction ks arbitrary: s) (simp_all add: constrainInstPlacement_def)

lemma phi_args: "\<forall>k \<in> set ks. arg_type F is (OfInst (New k)) = Some I32 \<Longrightarrow>
    map (arg_type F is \<circ> (\<lambda>k. OfInst (New k))) ks = replicate (length ks) (Some I32)"
  by (induction ks) simp_all

lemma phi_call_typed:
  assumes "arg_type F is (OfInst (New c)) = Some I32" "\<forall>k \<in> set ks. arg_type F is (OfInst (New k)) = Some I32"
  shows "inst_typed F is (phi_call d c ks)"
  by (simp add: phi_call_def Let_def inst_typed_def call_typed_def assms(1) phi_args [OF assms(2)] del: One_nat_def)

lemma typed_add_condition:
  assumes "typed F s" "add_condition E n bb v (map Num [d, c]) s = Some s'"
  shows "typed F s'"
proof -
  obtain k s1 where k: "create (KCall K_PhiAddCond (map Num [d, c])) s = (k, s1)" by (metis surj_pair)
  have "typed F s1" by (rule typed_simple [OF assms(1) k]) simp_all
  then show ?thesis using assms(2) k
    typed_require [of F "constrainInstPlacement (New k) (Orig (bb_terminator (fn E) bb)) s1"]
    by (auto simp: add_condition_def)
qed

lemma typed_add_conditions:
  "typed F s \<Longrightarrow> add_conditions E n bb v (map Num [d, c]) bs s = Some s' \<Longrightarrow> typed F s'"
proof (induction bs arbitrary: s)
  case (Cons b bs)
  then obtain s1 where "add_condition E n bb v (map Num [d, c]) s = Some s1" "add_conditions E n bb v (map Num [d, c]) bs s1 = Some s'"
    by (auto split: bind_splits)
  then show ?case using Cons.IH typed_add_condition [OF Cons.prems(1)] by blast
qed simp

lemma typed_loops:
  assumes "typed F s" "handleLoops E n phi s = Some s'"
  shows "typed F s'"
proof (cases "handleLoops E n phi s = Some s")
  case False
  let ?bb = "val_block (fn E) phi"
  obtain v where v: "getControllingCondition (fn E) ?bb = Some v" "\<not> is_constant E v"
    using assms(2) False by (auto simp: handleLoops_def Let_def split: if_splits bind_splits)
  obtain d s1 where d: "getId phi s = (d, s1)" by (cases "getId phi s")
  obtain c s2 where c: "getId v s1 = (c, s2)" by (cases "getId v s1")
  have t: "typed F s2" using typed_getId [OF typed_getId [OF assms(1) d] c] .
  obtain bs where "add_condition E n ?bb v (map Num [d, c]) s2 = Some s' \<or> add_conditions E n ?bb v (map Num [d, c]) bs s2 = Some s'"
    using assms(2) False v d c by (auto simp: handleLoops_def Let_def split: if_splits bind_splits)
  then show ?thesis using typed_add_condition [OF t] typed_add_conditions [OF t] by blast
qed (use assms in simp)

lemma typed_phi:
  assumes "typed F s" "phi_handle E n first phi s = Some s'"
  shows "typed F s'"
proof -
  consider "isInductionVariable E phi" | "\<not> isInductionVariable E phi" "isReductionVar E phi"
    | (general) "\<not> isInductionVariable E phi" "\<not> isReductionVar E phi" by blast
  then show ?thesis
  proof cases
    case general
    obtain d s1 where d: "getId phi s = (d, s1)" by (cases "getId phi s")
    obtain c s2 where c: "identifyIncomingValueId E n phi s1 = Some (c, s2)"
      using assms(2) general by (auto simp: phi_handle_def d split: bind_splits)
    let ?s2 = "constrainInstPlacement (New c) (Orig phi) s2"
    obtain ks s3 where ks: "getConditions E n phi ?s2 = Some (ks, s3)"
      using assms(2) general by (auto simp: phi_handle_def d c split: bind_splits)
    let ?s3 = "constrain_all ks (Orig phi) s3"
    obtain k s4 where k: "create (phi_call d c ks) ?s3 = (k, s4)" by (cases "create (phi_call d c ks) ?s3")
    have g2: "grows F s1 ?s2" "arg_type F (new_insts ?s2) (OfInst (New c)) = Some I32"
      using grows_identify [OF c, of F] grows_constrain by (blast, simp add: constrainInstPlacement_def)
    have g3: "grows F ?s2 s3" "\<forall>k \<in> set ks. arg_type F (new_insts s3) (OfInst (New k)) = Some I32"
      using ks grows_conditions unfolding getConditions_def by (auto split: bind_splits)
    have "typed F s3" by (rule grows_typed [OF g3(1) grows_typed [OF g2(1) typed_getId [OF assms(1) d]]])
    then have t3: "typed F ?s3" by (simp add: typed_def)
    have "inst_typed F (new_insts ?s3) (phi_call d c ks)"
      using phi_call_typed [OF grows_arg [OF g3(1) g2(2)] g3(2)] by simp
    then have "typed F (constrainInstPlacement (New k) (first (val_block (fn E) phi)) s4)"
      using typed_create [OF t3 k] by simp
    moreover have "handleLoops E n phi (constrainInstPlacement (New k) (first (val_block (fn E) phi)) s4) = Some s'"
      using assms(2) general by (simp add: phi_handle_def d c ks k)
    ultimately show ?thesis by (rule typed_loops)
  qed (use assms typed_indvar in \<open>auto simp: phi_handle_def\<close>)
qed

lemma typed_phi_insts: "typed F s \<Longrightarrow> phi_insts E n first is s = Some s' \<Longrightarrow> typed F s'"
proof (induction "is" arbitrary: s)
  case (Cons i "is")
  then obtain s1 where "(if isa_op [OPHI] (fn E) i then phi_handle E n first i s else Some s) = Some s1"
    "phi_insts E n first is s1 = Some s'" by (auto split: bind_splits)
  then show ?case using Cons.IH typed_phi [OF Cons.prems(1)] Cons.prems(1) by (metis option.inject)
qed simp

lemma typed_phi_round: "typed F s \<Longrightarrow> phi_round E n first bbs s = Some s' \<Longrightarrow> typed F s'"
proof (induction bbs arbitrary: s)
  case (Cons bb bbs)
  show ?case
  proof (cases "skip_block E bb")
    case False
    then obtain s1 where "phi_insts E n first (bb_insts (fn E) bb) s = Some s1" "phi_round E n first bbs s1 = Some s'"
      using Cons.prems(2) by (auto split: bind_splits)
    then show ?thesis using Cons.IH typed_phi_insts [OF Cons.prems(1)] by blast
  qed (use Cons in simp)
qed simp

section \<open>The rounds\<close>

lemma typed_handle_inst:
  assumes "typed (fn E) s" "handle_inst E n i (cs, s) = Some (cs', s')" "libc_prototypes (fn E)"
  shows "typed (fn E) s'"
proof -
  obtain calls invokes where cs: "cs = (calls, invokes)" by (cases cs)
  consider (load) "load_handle E i s = Some s'" | (store) "store_handle E n i s = Some s'" | (ret) "return_handle E n i s = Some s'"
    | (call) c s1 where "call_handle E n i (calls, s) = Some (c, s1)" "memory_handle E i s1 = Some s'"
    | (invoke) c where "call_handle E n i (invokes, s) = Some (c, s')" | (other) "s' = s"
    using assms(2) by (auto simp: handle_inst_def cs split: if_splits bind_splits)
  then show ?thesis
  proof cases
    case load then show ?thesis by (rule typed_load [OF assms(1)])
  next
    case store then show ?thesis by (rule typed_store [OF assms(1)])
  next
    case ret then show ?thesis by (rule typed_return [OF assms(1)])
  next
    case call
    then show ?thesis using typed_memory [OF typed_call [OF assms(1)] _ assms(3)] by blast
  next
    case invoke then show ?thesis by (rule typed_call [OF assms(1)])
  qed (use assms in simp)
qed

lemma typed_handle_insts:
  "typed (fn E) s \<Longrightarrow> handle_insts E n is (cs, s) = Some (cs', s') \<Longrightarrow> libc_prototypes (fn E) \<Longrightarrow> typed (fn E) s'"
proof (induction "is" arbitrary: cs s)
  case (Cons i "is")
  then obtain c1 s1 where "handle_inst E n i (cs, s) = Some (c1, s1)" "handle_insts E n is (c1, s1) = Some (cs', s')"
    by (auto split: bind_splits)
  then show ?case using Cons.IH typed_handle_inst [OF Cons.prems(1)] Cons.prems(3) by blast
qed simp

lemma typed_insert:
  "typed (fn E) s \<Longrightarrow> insertInstrumentation E n bbs (cs, s) = Some (cs', s') \<Longrightarrow> libc_prototypes (fn E) \<Longrightarrow> typed (fn E) s'"
proof (induction bbs arbitrary: cs s)
  case (Cons bb bbs)
  show ?case
  proof (cases "skip_block E bb")
    case False
    then obtain s1 c2 s2 where s1: "work_handleBasicBlock E bb s = Some s1"
      "handle_insts E n (bb_insts (fn E) bb) (cs, s1) = Some (c2, s2)" "insertInstrumentation E n bbs (c2, s2) = Some (cs', s')"
      using Cons.prems(2) by (auto split: bind_splits)
    have "typed (fn E) s2" by (rule typed_handle_insts [OF typed_work [OF Cons.prems(1) s1(1)] s1(2) Cons.prems(3)])
    then show ?thesis using Cons.IH s1(3) Cons.prems(3) by blast
  qed (use Cons in simp)
qed simp

text \<open>
  C8. Every call the pass puts into a function, in all four rounds, is a call of a declared function of the
  runtime and fits its parameters in number and type, when the program calls the allocation functions with
  their own types.
\<close>

theorem emitted_calls_typed:
  assumes "instrument_function E n first2 first3 first4 = Some s" "libc_prototypes (fn E)" "KCall f as \<in> set (new_insts s)"
  shows "call_typed (fn E) (new_insts s) f as"
proof -
  obtain s0 cs s1 s2 s3 where r: "FunctionArgsHandler E PassState_new = Some s0"
    "insertInstrumentation E n (fun_blocks (fn E)) ((0, 0), s0) = Some (cs, s1)"
    "phi_round E n first2 (fun_blocks (fn E)) s1 = Some s2" "control_round E n first3 (fun_blocks (fn E)) s2 = Some s3"
    "s = LocalTableHandler E first4 s3"
    using assms(1) by (auto simp: instrument_function_def first_round_def split: bind_splits)
  have "typed (fn E) s1" by (rule typed_insert [OF typed_FunctionArgs [OF typed_new r(1)] r(2) assms(2)])
  from typed_control_round [OF typed_phi_round [OF this r(3)] r(4)] have "typed (fn E) s"
    unfolding r(5) by (rule typed_LocalTable)
  then show ?thesis using assms(3) unfolding typed_def inst_typed_def by fastforce
qed

text \<open>
  A function of one block: 10 allocates 2 bytes, 11 squares the argument 1, 12 stores it there and 13 returns it.
\<close>

definition alloc_fn :: LlvmFunction where
  "alloc_fn = sample_cfg\<lparr>
     val_kind := (\<lambda>v. if v = 1 then VArgument else if v = 2 then VConstant else if v = 10 then VInstruction OCall
        else if v = 11 then VInstruction OMul else if v = 12 then VInstruction OStore
        else if v = 13 then VInstruction ORet else VOther),
     val_operands := (\<lambda>v. if v = 11 then [1, 1] else if v = 12 then [11, 10] else if v = 13 then [11] else []),
     val_block := (\<lambda>v. 0), fun_blocks := [0], bb_insts := (\<lambda>b. [10, 11, 12, 13]), bb_terminator := (\<lambda>b. 13),
     val_type := (\<lambda>v. if v = 10 then TPointer else if v = 2 then TInt 64 else TInt 32), fun_args := [1], fun_entry := 0,
     called_function := (\<lambda>v. if v = 10 then Some (Callee (Some ''malloc'') False) else None),
     call_args := (\<lambda>v. if v = 10 then [2] else [])\<rparr>"

definition alloc_env :: PassEnv where
  "alloc_env = \<lparr>fn = alloc_fn, costs = default_costs, reduction_ops = [], ind_vars = [], ind_incs = [], pdf = [Some 0 \<mapsto> []]\<rparr>"

lemma alloc_prototypes: "libc_prototypes (fn alloc_env)"
  by (auto simp: libc_prototypes_def untangleCall_def alloc_env_def alloc_fn_def sample_cfg_def value_type_def rd_def split: if_splits)

lemma alloc_facts:
  "fun_name (fn alloc_env) = Some ''f''" "fun_args (fn alloc_env) = [1]" "fun_blocks (fn alloc_env) = [0]" "fun_entry (fn alloc_env) = 0"
  "bb_insts (fn alloc_env) b = [10, 11, 12, 13]" "bb_terminator (fn alloc_env) b = 13" "val_block (fn alloc_env) v = 0"
  "val_type (fn alloc_env) 1 = TInt 32" "val_type (fn alloc_env) 11 = TInt 32" "val_type (fn alloc_env) 10 = TPointer"
  "val_operands (fn alloc_env) 11 = [1, 1]" "val_operands (fn alloc_env) 12 = [11, 10]" "val_operands (fn alloc_env) 13 = [11]"
  "classify alloc_env 1 = LIVE_IN" "classify alloc_env 11 = CONSTANT_WORK_OP" "getWork alloc_env 11 = Some 2"
  "getWork alloc_env 10 = Some 0" "getWork alloc_env 12 = Some 1" "getWork alloc_env 13 = Some 0"
  "skip_block alloc_env b = False" "getFirstNonPHI alloc_env b = Some 10" "fun_returns (fn alloc_env) = TInt 32"
  "is_constant alloc_env 1 = False" "is_constant alloc_env 11 = False" "isLiveInRegion alloc_env b v = False"
  "controlling_conditions alloc_env v = Some []" "getControllingBlock (fn alloc_env) (pdf alloc_env) 0 False = None"
  "getControllingCondition (fn alloc_env) b = None" "is_instruction (fn alloc_env) 11" "is_instruction (fn alloc_env) 1 = False"
  "isa_op [OLoad] (fn alloc_env) v = False" "isa_op [OPHI] (fn alloc_env) v = False" "isa_op [OInvoke] (fn alloc_env) v = False"
  "isa_op [OStore] (fn alloc_env) v = (v = 12)" "isa_op [ORet] (fn alloc_env) v = (v = 13)" "isa_op [OCall] (fn alloc_env) v = (v = 10)"
  "called_function (fn alloc_env) 10 = Some (Callee (Some ''malloc'') False)" "call_args (fn alloc_env) 10 = [2]"
  by (simp_all add: alloc_env_def alloc_fn_def sample_eval isLiveInRegion_def skip_block_def ends_in_resume_def getFirstNonPHI_def
      del: One_nat_def)

lemma alloc_run:
  "\<exists>s. instrument_function alloc_env 3 first2 first3 first4 = Some s \<and> KCall K_Store [Num 3, OfInst (New 3), Num 4] \<in> set (new_insts s)"
  by (simp add: instrument_function_def first_round_def FunctionArgsHandler_def alloc_facts getId_def create_def PassState_new_def
      constrainInstPlacement_def work_handleBasicBlock_def block_work_def handle_inst_def call_handle_def shouldHandle_def
      ignored_funcs_def memory_handle_def untangleCall_def getNextInst_def store_handle_def return_handle_def
      requireValTimestampBeforeUser_def requireVal_def getTimestamp_numeral work_op_getTimestamp_def add_source_def
      shift_candidates_def to_log_call_def NUM_SPECIALIZED_def control_handleBasicBlock_def LocalTableHandler_def
      getTypeSizeInBytes_def returns_real_type_def Let_def rd_def del: One_nat_def)

theorem emitted_calls_typed_witness:
  "\<exists>s. instrument_function alloc_env 3 (\<lambda>b. Orig 10) (\<lambda>b. Orig 10) (\<lambda>b. Orig 10) = Some s
     \<and> call_typed (fn alloc_env) (new_insts s) K_Store [Num 3, OfInst (New 3), Num 4]"
  using alloc_run [of "\<lambda>b. Orig 10" "\<lambda>b. Orig 10" "\<lambda>b. Orig 10"] emitted_calls_typed [OF _ alloc_prototypes] by blast

end
