(* ===== verification/CallsDynamic.thy ===== *)
theory CallsDynamic
  imports PassTypes StaticDynamic
begin

text \<open>
  Loads, and the arguments of calls: what the calls that the pass emits pass to the runtime when they run.
\<close>

section \<open>Loads\<close>

text \<open>The function of the runtime takes its parameters by position; \<open>addr\<close> is the value of the pointer.\<close>

fun load_n :: "Addr \<Rightarrow> UInt \<Rightarrow> UInt list \<Rightarrow> memory_event option" where
  "load_n addr d [sz] = Some (KLoad0 addr d sz)"
| "load_n addr d [r1, sz] = Some (KLoad1 addr d r1 sz)"
| "load_n addr d [r1, r2, sz] = Some (KLoad2 addr d r1 r2 sz)"
| "load_n addr d [r1, r2, r3, sz] = Some (KLoad3 addr d r1 r2 r3 sz)"
| "load_n addr d [r1, r2, r3, r4, sz] = Some (KLoad4 addr d r1 r2 r3 r4 sz)"
| "load_n addr d as = None"

fun load_event :: "Addr \<Rightarrow> NewInst \<Rightarrow> memory_event option" where
  "load_event addr (KCall (K_LoadN n) (ptr # Num d # as)) =
     (if length as = Suc n then load_n addr d (arg_nums as) else None)"
| "load_event addr (KCall K_Load (ptr # Num d # Num sz # Num num_srcs # as)) = Some (KLoad addr d sz num_srcs (arg_nums as))"
| "load_event addr i = None"

lemma arg_nums_map [simp]: "arg_nums (map Num is @ map Num js) = is @ js" "arg_nums (map Num is) = is"
  by (induction "is", induction js) auto

text \<open>
  C10. A load whose address depends on five values or more is a call of the variadic function with the number
  of values after the first of them and the size at the end. The runtime takes the register of the first value
  for the size of the access and the size for a register: unless the two are equal it is not the call that
  was meant.
\<close>

theorem load_arguments_misplaced:
  assumes "MAX_SPECIALIZED \<le> length ids" "hd ids \<noteq> sz"
  shows "load_event addr (load_call ptr dest (map Num ids) sz)
      = Some (KLoad addr dest (hd ids) (of_nat (length ids)) (tl ids @ [sz]))
    \<and> KLoad addr dest (hd ids) (of_nat (length ids)) (tl ids @ [sz]) \<noteq> KLoad addr dest sz (of_nat (length ids)) ids"
proof -
  obtain c cs where c: "ids = c # cs" using assms(1) by (cases ids) (simp_all add: MAX_SPECIALIZED_def)
  have "arg_nums (map Num cs @ [Num sz]) = cs @ [sz]" using arg_nums_map(1) [of cs "[sz]"] by simp
  then show ?thesis using assms by (simp add: load_call_def c Let_def)
qed

theorem load_arguments_misplaced_witness:
  "load_event 64 (load_call (OfInst (New 0)) 9 (map Num [10, 11, 12, 13, 14]) 4) = Some (KLoad 64 9 10 5 [11, 12, 13, 14, 4])"
  using load_arguments_misplaced [of "[10, 11, 12, 13, 14]" 4 64 "OfInst (New 0)" 9] by (simp add: MAX_SPECIALIZED_def)

section \<open>Arguments\<close>

text \<open>Calls constrained one before the other: each created call stands before the last one.\<close>

fun chained :: "(PInst \<times> PInst) list \<Rightarrow> nat list \<Rightarrow> PInst \<Rightarrow> PInst \<Rightarrow> bool" where
  "chained cs [] l l' \<longleftrightarrow> l' = l"
| "chained cs (k # ks) l l' \<longleftrightarrow> (New k, l) \<in> set cs \<and> chained cs ks (New k) l'"

lemma chained_more: "chained cs ks l l' \<Longrightarrow> chained (cs @ ds) ks l l'"
  by (induction ks arbitrary: l) auto

text \<open>The arguments that are handed over are no pointers; a constant has no register.\<close>

definition passed :: "PassEnv \<Rightarrow> Value list \<Rightarrow> Value list" where
  "passed E as = filter (\<lambda>a. val_type (fn E) a \<noteq> TPointer) as"

definition enq_call :: "PassEnv \<Rightarrow> PassState \<Rightarrow> Value \<Rightarrow> NewInst" where
  "enq_call E s a = (if is_constant E a then KCall K_EnqArgConst [] else KCall K_EnqArg [Num (num s a)])"

definition enqueues :: "PassEnv \<Rightarrow> PassState \<Rightarrow> nat \<Rightarrow> Value \<Rightarrow> bool" where
  "enqueues E s k a \<longleftrightarrow> k < length (new_insts s) \<and> new_insts s ! k = enq_call E s a \<and> (is_constant E a \<or> a \<in> dom (id_map s))"

definition dequeues :: "PassState \<Rightarrow> nat \<Rightarrow> Value \<Rightarrow> bool" where
  "dequeues s k a \<longleftrightarrow> k < length (new_insts s) \<and> new_insts s ! k = KCall K_DeqArg [Num (num s a)] \<and> a \<in> dom (id_map s)"

lemma grows_num: "grows F s s' \<Longrightarrow> a \<in> dom (id_map s) \<Longrightarrow> num s' a = num s a \<and> a \<in> dom (id_map s')"
  by (auto simp: grows_def num_def map_le_def dom_def)

lemma grows_inst: "grows F s s' \<Longrightarrow> k < length (new_insts s) \<Longrightarrow> new_insts s' ! k = new_insts s ! k \<and> k < length (new_insts s')"
  by (auto simp: grows_def nth_append)

lemma enqueues_grows: "grows F s s' \<Longrightarrow> enqueues E s k a \<Longrightarrow> enqueues E s' k a"
  using grows_num grows_inst unfolding enqueues_def enq_call_def by metis

lemma dequeues_grows: "grows F s s' \<Longrightarrow> dequeues s k a \<Longrightarrow> dequeues s' k a"
  using grows_num grows_inst unfolding dequeues_def by metis

lemma chained_grows: "grows F s s' \<Longrightarrow> chained (constraints s) ks l l' \<Longrightarrow> chained (constraints s') ks l l'"
  unfolding grows_def using chained_more by metis

lemma getId_num: "getId v s = (i, s') \<Longrightarrow> i = num s' v \<and> v \<in> dom (id_map s')"
  by (auto simp: getId_def num_def split: option.splits)

lemma constrained: "(i, u) \<in> set (constraints (constrainInstPlacement i u s))"
  by (simp add: constrainInstPlacement_def)

lemma create_last: "create i s = (k, s') \<Longrightarrow> k < length (new_insts s') \<and> new_insts s' ! k = i \<and> id_map s' = id_map s"
  by (auto simp: create_def)

lemma link_arg_step:
  assumes "link_arg E n a (l, s) = Some (l1, s1)"
  shows "grows F s s1 \<and> (if val_type (fn E) a = TPointer then l1 = l
    else \<exists>k. l1 = New k \<and> (New k, l) \<in> set (constraints s1) \<and> enqueues E s1 k a)"
proof -
  consider "val_type (fn E) a = TPointer" | (const) "val_type (fn E) a \<noteq> TPointer" "is_constant E a"
    | (val) "val_type (fn E) a \<noteq> TPointer" "\<not> is_constant E a" by blast
  then show ?thesis
  proof cases
    case const
    obtain k s2 where k: "create (KCall K_EnqArgConst []) s = (k, s2)" by (cases "create (KCall K_EnqArgConst []) s")
    have g: "grows F s s2" by (rule grows_create [OF k]) (simp add: inst_typed_def call_typed_def)
    have s1: "l1 = New k" "s1 = constrainInstPlacement (New k) l s2" using assms const k by (auto simp: link_arg_def)
    have "enqueues E s1 k a"
      using create_last [OF k] const(2) unfolding enqueues_def enq_call_def s1(2) by (simp add: constrainInstPlacement_def)
    then show ?thesis using const(1) constrained grows_constrain [OF g] s1 by simp
  next
    case val
    obtain i s2 where i: "getId a s = (i, s2)" by (cases "getId a s")
    obtain k s3 where k: "create (KCall K_EnqArg [Num i]) s2 = (k, s3)" by (cases "create (KCall K_EnqArg [Num i]) s2")
    obtain ci s4 where r: "requireValTimestampBeforeUser E n a (New k) s3 = Some (ci, s4)"
      using assms val i k by (auto simp: link_arg_def split: bind_splits)
    have s1: "l1 = New k" "s1 = constrainInstPlacement (New k) l s4" using assms val i k r by (auto simp: link_arg_def)
    have g3: "grows F s2 s3" by (rule grows_create [OF k]) (simp add: inst_typed_def call_typed_def)
    have g4: "grows F s3 s1" unfolding s1(2) by (rule grows_constrain [OF grows_require [OF r]])
    have "enqueues E s3 k a"
      using create_last [OF k] getId_num [OF i] val(2) unfolding enqueues_def enq_call_def by (simp add: num_def)
    then have "enqueues E s1 k a" by (rule enqueues_grows [OF g4])
    then show ?thesis using val(1) constrained grows_trans [OF grows_trans [OF grows_getId [OF i] g3] g4] s1 by simp
  qed (use assms in \<open>simp add: link_arg_def\<close>)
qed

lemma link_args_chain:
  "link_args E n as (l, s) = Some (l', s') \<Longrightarrow>
     grows F s s' \<and> (\<exists>ks. chained (constraints s') ks l l' \<and> list_all2 (enqueues E s') ks (passed E as))"
proof (induction as arbitrary: l s)
  case Nil
  then show ?case by (intro conjI exI [of _ "[]"]) (simp_all add: passed_def)
next
  case (Cons a as)
  then obtain l1 s1 where a: "link_arg E n a (l, s) = Some (l1, s1)" "link_args E n as (l1, s1) = Some (l', s')"
    by (auto split: bind_splits)
  from Cons.IH [OF a(2)] obtain ks where ks: "grows F s1 s'" "chained (constraints s') ks l1 l'"
    "list_all2 (enqueues E s') ks (passed E as)" by blast
  note st = link_arg_step [OF a(1), of F]
  then have g: "grows F s s'" using ks(1) grows_trans by blast
  show ?case
  proof (cases "val_type (fn E) a = TPointer")
    case True
    then show ?thesis using g ks st by (auto simp: passed_def)
  next
    case False
    then obtain k where k: "l1 = New k" "(New k, l) \<in> set (constraints s1)" "enqueues E s1 k a" using st by auto
    have "(New k, l) \<in> set (constraints s')" using k(2) ks(1) by (auto simp: grows_def)
    then have "chained (constraints s') (k # ks) l l'" using ks(2) k(1) by simp
    moreover have "list_all2 (enqueues E s') (k # ks) (passed E (a # as))"
      using ks(3) enqueues_grows [OF ks(1) k(3)] False by (simp add: passed_def)
    ultimately show ?thesis using g by blast
  qed
qed

lemma deq_args_chain:
  "deq_args E ps (l, s) = (l', s') \<Longrightarrow>
     grows F s s' \<and> (\<exists>ks. chained (constraints s') ks l l' \<and> list_all2 (dequeues s') ks (passed E ps))"
proof (induction ps arbitrary: l s)
  case Nil
  then show ?case by (intro conjI exI [of _ "[]"]) (simp_all add: passed_def)
next
  case (Cons a as)
  show ?case
  proof (cases "val_type (fn E) a = TPointer")
    case True
    then show ?thesis using Cons by (simp add: passed_def)
  next
    case False
    obtain i s1 where i: "getId a s = (i, s1)" by (cases "getId a s")
    obtain k s2 where k: "create (KCall K_DeqArg [Num i]) s1 = (k, s2)" by (cases "create (KCall K_DeqArg [Num i]) s1")
    let ?s2 = "constrainInstPlacement (New k) l s2"
    have d: "deq_args E as (New k, ?s2) = (l', s')" using Cons.prems False i k by simp
    from Cons.IH [OF d] obtain ks where ks: "grows F ?s2 s'" "chained (constraints s') ks (New k) l'"
      "list_all2 (dequeues s') ks (passed E as)" by blast
    have "grows F s1 s2" by (rule grows_create [OF k]) (simp add: inst_typed_def call_typed_def)
    then have g: "grows F s s'"
      using grows_trans [OF grows_constrain [OF grows_trans [OF grows_getId [OF i]]] ks(1)] by blast
    have "dequeues ?s2 k a" using create_last [OF k] getId_num [OF i] unfolding dequeues_def
      by (simp add: num_def constrainInstPlacement_def)
    then have "list_all2 (dequeues s') (k # ks) (passed E (a # as))"
      using ks(3) dequeues_grows [OF ks(1)] False by (simp add: passed_def)
    moreover have "(New k, l) \<in> set (constraints s')" using ks(1) constrained [of "New k" l s2] by (auto simp: grows_def)
    ultimately show ?thesis using g ks(2) by (metis chained.simps(2))
  qed
qed

text \<open>Running the calls that enqueue.\<close>

fun arg_event :: "NewInst \<Rightarrow> call_event option" where
  "arg_event (KCall K_EnqArg [Num r]) = Some (KEnqArg r)"
| "arg_event (KCall K_EnqArgConst []) = Some KEnqArgConst"
| "arg_event i = None"

fun run_args :: "NewInst list \<Rightarrow> 'm KremlinProfiler \<Rightarrow> 'm KremlinProfiler option" where
  "run_args [] p = Some p"
| "run_args (i # is) p = do { ev \<leftarrow> arg_event i; p \<leftarrow> api_call ev p; run_args is p }"

definition arg_reg :: "PassEnv \<Rightarrow> PassState \<Rightarrow> Value \<Rightarrow> Reg" where
  "arg_reg E s a = (if is_constant E a then DUMMY_ARG else num s a)"

lemma run_args_push:
  fixes p :: "'m KremlinProfiler"
  shows "run_args (map (enq_call E s) as) p = push_args (map (arg_reg E s) as) p"
proof (induction as arbitrary: p)
  case (Cons a as)
  have "arg_event (enq_call E s a) \<bind> (\<lambda>ev. api_call ev p) = handleEnqueueArgument (arg_reg E s a) p"
    by (simp add: enq_call_def arg_reg_def handleEnqueueArgument_def handleEnqueueConstArgument_def)
  moreover have "run_args (map (enq_call E s) as) = (push_args (map (arg_reg E s) as) :: 'm KremlinProfiler \<Rightarrow> _)" by (rule ext) (rule Cons.IH)
  ultimately show ?case by (cases "is_constant E a") (simp_all add: enq_call_def [of E s a])
qed simp

text \<open>
  C9. The caller and the callee agree on the order of the arguments: the pass puts both chains of calls in the
  reverse of the order of the parameters, so when the calls of the call site run and then the callee's, the
  parameter at each place gets the register of the argument at the same place, or none if that is a constant.
  It holds for calls that pass fewer than 64 arguments, for which the assertion of \<open>functionArgQueuePushBack\<close>
  (the write index stays below the size of the queue) is also met; the 64th push breaks that assertion.
\<close>

theorem arguments_line_up:
  fixes p :: "'m KremlinProfiler"
  assumes "link_args E n as (l, s) = Some (l', s')" "deq_args E' ps (m, t) = (m', t')"
    and "map (\<lambda>a. val_type (fn E) a = TPointer) as = map (\<lambda>a. val_type (fn E') a = TPointer) ps"
    and "enabled p" "length (function_arg_queue p) = FUNC_ARG_QUEUE_SIZE" "length (passed E as) < FUNC_ARG_QUEUE_SIZE"
  shows "\<exists>ks ds p1 p2 p3 q. chained (constraints s') ks l l' \<and> chained (constraints t') ds m m'
    \<and> handlePrepCall cs callee p = Some p1 \<and> run_args (map ((!) (new_insts s')) (rev ks)) p1 = Some p2
    \<and> pop_args (length ds) p2 = Some (q, p3) \<and> length ds = length (passed E as)
    \<and> unat (arg_queue_write_index p2) < length (function_arg_queue p2)
    \<and> (\<forall>j < length ds. new_insts t' ! (ds ! j) = KCall K_DeqArg [Num (num t' (passed E' ps ! j))]
         \<and> rev q ! j = arg_reg E s' (passed E as ! j))"
proof -
  obtain ks where ks: "chained (constraints s') ks l l'" "list_all2 (enqueues E s') ks (passed E as)"
    using link_args_chain [OF assms(1)] by blast
  obtain ds where ds: "chained (constraints t') ds m m'" "list_all2 (dequeues t') ds (passed E' ps)"
    using deq_args_chain [OF assms(2)] by blast
  have "length (passed E as) = length (passed E' ps)"
    using assms(3) unfolding passed_def
    by (induction as arbitrary: ps) (auto simp: Cons_eq_map_conv)
  then have len: "length ds = length (passed E as)" using ds(2) by (simp add: list_all2_lengthD)
  let ?q = "map (arg_reg E s') (rev (passed E as))"
  obtain p1 p2 p3 where p: "handlePrepCall cs callee p = Some p1" "push_args ?q p1 = Some p2" "pop_args (length ?q) p2 = Some (?q, p3)"
    "unat (arg_queue_write_index p2) < length (function_arg_queue p2)"
    using argument_queue_fifo [OF assms(4,5), of ?q cs callee] assms(6) by auto
  have "map ((!) (new_insts s')) ks = map (enq_call E s') (passed E as)"
    using ks(2) by (induction rule: list_all2_induct) (simp_all add: enqueues_def)
  then have "map ((!) (new_insts s')) (rev ks) = map (enq_call E s') (rev (passed E as))" by (simp flip: rev_map)
  then have "run_args (map ((!) (new_insts s')) (rev ks)) p1 = Some p2" using p(2) by (simp add: run_args_push)
  moreover have "\<forall>j < length ds. new_insts t' ! (ds ! j) = KCall K_DeqArg [Num (num t' (passed E' ps ! j))]
      \<and> rev ?q ! j = arg_reg E s' (passed E as ! j)"
    using ds(2) len by (auto simp: list_all2_conv_all_nth dequeues_def rev_map)
  ultimately show ?thesis using ks(1) ds(1) p(1,3,4) len by fastforce
qed

lemma alloc_link:
  "\<exists>l' s'. link_args alloc_env 3 [11, 2] (Orig 10, PassState_new) = Some (l', s')"
  "is_constant alloc_env 2" "passed alloc_env [11, 2] = [11, 2]"
  "map (\<lambda>a. val_type (fn alloc_env) a = TPointer) [11, 2] = map (\<lambda>a. val_type (fn alloc_env) a = TPointer) [1, 3]"
proof -
  show c: "is_constant alloc_env 2" "passed alloc_env [11, 2] = [11, 2]"
    "map (\<lambda>a. val_type (fn alloc_env) a = TPointer) [11, 2] = map (\<lambda>a. val_type (fn alloc_env) a = TPointer) [1, 3]"
    by (simp_all add: is_constant_def passed_def alloc_env_def alloc_fn_def sample_cfg_def del: One_nat_def)
  have "val_type (fn alloc_env) 2 = TInt 64" by (simp add: alloc_env_def alloc_fn_def)
  then show "\<exists>l' s'. link_args alloc_env 3 [11, 2] (Orig 10, PassState_new) = Some (l', s')"
    by (simp add: link_arg_def c(1) alloc_facts getId_def create_def PassState_new_def constrainInstPlacement_def
        requireValTimestampBeforeUser_def requireVal_def getTimestamp_numeral work_op_getTimestamp_def add_source_def
        shift_candidates_def to_log_call_def NUM_SPECIALIZED_def del: One_nat_def)
qed

theorem arguments_line_up_witness:
  "\<exists>l' s' ks p (p1 :: unit KremlinProfiler) p2 p3 q. link_args alloc_env 3 [11, 2] (Orig 10, PassState_new) = Some (l', s')
     \<and> handlePrepCall 9 0 p = Some p1 \<and> run_args (map ((!) (new_insts s')) (rev ks)) p1 = Some p2
     \<and> pop_args 2 p2 = Some (q, p3) \<and> rev q ! 0 = num s' 11 \<and> rev q ! 1 = DUMMY_ARG"
proof -
  obtain l' s' where l: "link_args alloc_env 3 [11, 2] (Orig 10, PassState_new) = Some (l', s')" using alloc_link(1) by blast
  obtain m' t' where d: "deq_args alloc_env [1, 3] (Orig 10, PassState_new) = (m', t')" by (metis surj_pair)
  obtain p :: "unit KremlinProfiler" where p: "enabled p" "length (function_arg_queue p) = FUNC_ARG_QUEUE_SIZE"
    using sample_started by blast
  have "length (passed alloc_env [11, 2]) < FUNC_ARG_QUEUE_SIZE" by (simp add: alloc_link(3) FUNC_ARG_QUEUE_SIZE_def)
  from arguments_line_up [OF l d alloc_link(4) p this, of 9 0] obtain ks ds p1 p2 p3 q where r:
    "handlePrepCall 9 0 p = Some p1" "run_args (map ((!) (new_insts s')) (rev ks)) p1 = Some p2"
    "pop_args (length ds) p2 = Some (q, p3)" "length ds = length (passed alloc_env [11, 2])"
    "\<forall>j < length ds. new_insts t' ! (ds ! j) = KCall K_DeqArg [Num (num t' (passed alloc_env [1, 3] ! j))]
       \<and> rev q ! j = arg_reg alloc_env s' (passed alloc_env [11, 2] ! j)"
    by (elim exE conjE) metis
  have n: "length ds = 2" using r(4) by (simp add: alloc_link(3))
  have "rev q ! 0 = num s' 11" "rev q ! 1 = DUMMY_ARG"
    using r(5) unfolding n by (simp_all add: alloc_link(2,3) arg_reg_def alloc_facts)
  then show ?thesis using l r(1-3) unfolding n by blast
qed

end
