(* ===== verification/RegionPass.thy ===== *)
theory RegionPass
  imports LlvmFunction KremlinApi
begin

text \<open>
  The pass that puts the calls for regions into a function (\<open>instrument/src/RegionInstrument.cpp\<close>). It
  rewrites the control flow graph, so the graph is a value: of a block the model keeps the successors, the
  instruction at its end, its phi nodes and, in order, the calls of the runtime for regions. The loops are
  those LLVM found before the pass; blocks that are created later are in none. \<open>None\<close> is a failed
  assertion or a dereferenced null.
\<close>

section \<open>The graph\<close>

type_synonym PhiNode = "Value \<times> (Value \<times> Block) list"

record RegionCfg =
  rg_blocks :: "Block list"
  rg_succs :: "Block \<Rightarrow> Block list"
  rg_term :: "Block \<Rightarrow> Opcode"
  rg_calls :: "Block \<Rightarrow> api_event list"
  rg_phis :: "Block \<Rightarrow> PhiNode list"
  rg_next_block :: Block
  rg_next_value :: Value

definition in_loop :: "Loop \<Rightarrow> Block \<Rightarrow> bool" where
  "in_loop l b \<longleftrightarrow> b \<in> set (loop_blocks l)"

text \<open>A block that ends with a branch.\<close>

definition create_block :: "Block list \<Rightarrow> api_event list \<Rightarrow> RegionCfg \<Rightarrow> Block \<times> RegionCfg" where
  "create_block ss calls G =
     (let b = rg_next_block G in
      (b, G\<lparr>rg_blocks := rg_blocks G @ [b], rg_succs := (rg_succs G)(b := ss), rg_term := (rg_term G)(b := OBr),
            rg_calls := (rg_calls G)(b := calls), rg_phis := (rg_phis G)(b := []), rg_next_block := b + 1\<rparr>))"

definition redirect :: "Block \<Rightarrow> Block \<Rightarrow> Block \<Rightarrow> RegionCfg \<Rightarrow> RegionCfg" where
  "redirect a old_dest new_dest G =
     G\<lparr>rg_succs := (rg_succs G)(a := map (\<lambda>b. if b = old_dest then new_dest else b) (rg_succs G a))\<rparr>"

fun redirect_all :: "Block list \<Rightarrow> Block \<Rightarrow> Block \<Rightarrow> RegionCfg \<Rightarrow> RegionCfg option" where
  "redirect_all [] old_dest new_dest G = Some G"
| "redirect_all (pred # preds) old_dest new_dest G =
     (if rg_term G pred \<in> {OBr, OSwitch, OInvoke} then redirect_all preds old_dest new_dest (redirect pred old_dest new_dest G)
      else None)"

definition replaceAllJumps :: "Block \<Rightarrow> Block \<Rightarrow> Loop \<Rightarrow> bool \<Rightarrow> RegionCfg \<Rightarrow> RegionCfg option" where
  "replaceAllJumps old_dest new_dest l preds_in_loop G =
     redirect_all (filter (\<lambda>a. old_dest \<in> set (rg_succs G a) \<and> in_loop l a = preds_in_loop) (rg_blocks G)) old_dest new_dest G"

definition isPredecessor :: "RegionCfg \<Rightarrow> Block \<Rightarrow> Block \<Rightarrow> bool" where
  "isPredecessor G bb possible_pred \<longleftrightarrow> possible_pred \<in> set (rg_blocks G) \<and> bb \<in> set (rg_succs G possible_pred)"

text \<open>
  The values that come from blocks that are no predecessors any more move to a phi of the other block, or
  come from it directly if there is only one; the first phi without such a value ends the loop.
\<close>

fun promote_phis :: "(Block \<Rightarrow> bool) \<Rightarrow> Block \<Rightarrow> Value \<Rightarrow> PhiNode list \<Rightarrow> PhiNode list \<times> PhiNode list \<times> Value" where
  "promote_phis is_pred dest_bb v [] = ([], [], v)"
| "promote_phis is_pred dest_bb v ((phi, inc) # ps) =
     (let moved = filter (\<lambda>(x, b). \<not> is_pred b) inc; kept = filter (\<lambda>(x, b). is_pred b) inc in
      case moved of
        [] \<Rightarrow> ((phi, inc) # ps, [], v)
      | [(x, b)] \<Rightarrow>
          (let (ps, promoted, v) = promote_phis is_pred dest_bb v ps in ((phi, kept @ [(x, dest_bb)]) # ps, promoted, v))
      | _ \<Rightarrow>
          (let (ps, promoted, w) = promote_phis is_pred dest_bb (v + 1) ps
           in ((phi, kept @ [(v, dest_bb)]) # ps, (v, moved) # promoted, w)))"

definition promotePHIsToOtherBlock :: "Block \<Rightarrow> Block \<Rightarrow> RegionCfg \<Rightarrow> RegionCfg" where
  "promotePHIsToOtherBlock src_bb dest_bb G =
     (let (ps, promoted, v) = promote_phis (isPredecessor G src_bb) dest_bb (rg_next_value G) (rg_phis G src_bb)
      in G\<lparr>rg_phis := (rg_phis G)(src_bb := ps, dest_bb := rg_phis G dest_bb @ promoted), rg_next_value := v\<rparr>)"

section \<open>Loops\<close>

definition put_first :: "Block \<Rightarrow> api_event \<Rightarrow> RegionCfg \<Rightarrow> RegionCfg" where
  "put_first b ev G = G\<lparr>rg_calls := (rg_calls G)(b := ev # rg_calls G b)\<rparr>"

definition put_last :: "Block \<Rightarrow> api_event \<Rightarrow> RegionCfg \<Rightarrow> RegionCfg" where
  "put_last b ev G = G\<lparr>rg_calls := (rg_calls G)(b := rg_calls G b @ [ev])\<rparr>"

fun is_enter :: "api_event \<Rightarrow> bool" where
  "is_enter (Region (KEnterRegion r t)) = True"
| "is_enter ev = False"

text \<open>The block in front of the header; calls that enter regions move there from the header.\<close>

definition add_preheader :: "Loop \<Rightarrow> SID \<Rightarrow> RegionCfg \<Rightarrow> RegionCfg option" where
  "add_preheader l region_id G = do {
     let h = loop_header l;
     let (p, G) = create_block [] [] G;
     G \<leftarrow> replaceAllJumps h p l False G;
     let G = promotePHIsToOtherBlock h p (G\<lparr>rg_succs := (rg_succs G)(p := [h])\<rparr>);
     let to_move = filter is_enter (rg_calls G h);
     Some (G\<lparr>rg_calls := (rg_calls G)(h := filter (Not \<circ> is_enter) (rg_calls G h),
             p := to_move @ [Region (KEnterRegion region_id RegionLoop)])\<rparr>) }"

definition add_pre_exit :: "bool \<Rightarrow> (Block \<Rightarrow> bool) \<Rightarrow> Loop \<Rightarrow> SID \<Rightarrow> SID \<Rightarrow> Block \<Rightarrow> Block \<Rightarrow> RegionCfg \<Rightarrow> RegionCfg" where
  "add_pre_exit loopBodyRegions is_landing_pad l region_id body_region_id exiting_bb tgt G =
     (if is_landing_pad tgt then G
      else let body_exit = (if loopBodyRegions \<and> (exiting_bb \<noteq> loop_header l \<or> rg_term G (loop_header l) = OSwitch)
                 then [Region (KExitRegion body_region_id RegionLoopBody)] else []);
               (q, G) = create_block [tgt] (body_exit @ [Region (KExitRegion region_id RegionLoop)]) G
           in promotePHIsToOtherBlock tgt q (redirect exiting_bb tgt q G))"

definition exit_targets :: "Loop \<Rightarrow> Block \<Rightarrow> RegionCfg \<Rightarrow> Block list" where
  "exit_targets l b G = sort (remdups (filter (\<lambda>s. \<not> in_loop l s) (rg_succs G b)))"

definition exiting_blocks :: "Loop \<Rightarrow> RegionCfg \<Rightarrow> Block list" where
  "exiting_blocks l G = filter (\<lambda>b. exit_targets l b G \<noteq> []) (loop_blocks l)"

definition add_pre_exits :: "bool \<Rightarrow> (Block \<Rightarrow> bool) \<Rightarrow> Loop \<Rightarrow> SID \<Rightarrow> SID \<Rightarrow> Block \<Rightarrow> RegionCfg \<Rightarrow> RegionCfg" where
  "add_pre_exits loopBodyRegions is_landing_pad l region_id body_region_id exiting_bb G =
     fold (add_pre_exit loopBodyRegions is_landing_pad l region_id body_region_id exiting_bb) (exit_targets l exiting_bb G) G"

text \<open>Where the body is entered: the header, or the block after it if the header can leave the loop.\<close>

definition body_entry :: "Loop \<Rightarrow> RegionCfg \<Rightarrow> Block option" where
  "body_entry l G =
     (let h = loop_header l; ss = rg_succs G h; inside = filter (in_loop l) ss in
      if rg_term G h \<noteq> OBr \<or> length (loop_blocks l) = 1 then Some h
      else if \<forall>s \<in> set ss. in_loop l s then Some h
      else if inside = [] then None else Some (last inside))"

definition add_body :: "Loop \<Rightarrow> SID \<Rightarrow> RegionCfg \<Rightarrow> RegionCfg option" where
  "add_body l body_region_id G = do {
     let h = loop_header l;
     f \<leftarrow> body_entry l G;
     let G = put_first f (Region (KEnterRegion body_region_id RegionLoopBody)) G;
     let exit = Region (KExitRegion body_region_id RegionLoopBody);
     if length (loop_blocks l) = 1 then Some (put_last h exit G)
     else do {
       let (c, G) = create_block [h] [exit] G;
       G \<leftarrow> replaceAllJumps h c l True G;
       Some (promotePHIsToOtherBlock h c G) } }"

definition landing_call :: "bool \<Rightarrow> SID \<Rightarrow> SID \<Rightarrow> api_event" where
  "landing_call loopBodyRegions region_id body_region_id =
     Region (if loopBodyRegions then KLandingPad body_region_id RegionLoopBody else KLandingPad region_id RegionLoop)"

record RegionOptions =
  noMultiExitLoops :: bool
  loopBodyRegions :: bool

definition exit_blocks :: "Loop \<Rightarrow> RegionCfg \<Rightarrow> Block list" where
  "exit_blocks l G = remdups (filter (\<lambda>s. \<not> in_loop l s) (concat (map (rg_succs G) (loop_blocks l))))"

definition instrumentLoop ::
    "RegionOptions \<Rightarrow> (Block \<Rightarrow> bool) \<Rightarrow> Loop \<Rightarrow> SID \<Rightarrow> SID \<Rightarrow> Block list \<Rightarrow> RegionCfg \<Rightarrow> RegionCfg option" where
  "instrumentLoop opt is_landing_pad l region_id body_region_id landing_pads G =
     (if noMultiExitLoops opt \<and> length (exit_blocks l G) > 1 then Some G
      else do {
        G \<leftarrow> add_preheader l region_id G;
        let G = fold (add_pre_exits (loopBodyRegions opt) is_landing_pad l region_id body_region_id) (exiting_blocks l G) G;
        G \<leftarrow> (if loopBodyRegions opt then add_body l body_region_id G else Some G);
        Some (fold (\<lambda>b. put_first b (landing_call (loopBodyRegions opt) region_id body_region_id)) landing_pads G) })"

section \<open>Functions\<close>

text \<open>All loops, outer ones before inner ones, and the depth of the nest.\<close>

fun harvestSubLoops :: "Loop \<Rightarrow> nat \<Rightarrow> nat \<Rightarrow> Loop list \<times> nat"
  and harvest_list :: "Loop list \<Rightarrow> nat \<Rightarrow> nat \<Rightarrow> Loop list \<times> nat" where
  "harvestSubLoops (Loop i h bs subs civ) curr_depth max_depth =
     (let (ls, max_depth) = harvest_list subs (curr_depth + 1) (if curr_depth > max_depth then curr_depth else max_depth)
      in (Loop i h bs subs civ # ls, max_depth))"
| "harvest_list [] curr_depth max_depth = ([], max_depth)"
| "harvest_list (l # ls) curr_depth max_depth =
     (let (xs, max_depth) = harvestSubLoops l curr_depth max_depth;
          (ys, max_depth) = harvest_list ls curr_depth max_depth
      in (xs @ ys, max_depth))"

definition harvestLoops :: "Loop list \<Rightarrow> Loop list \<times> nat" where
  "harvestLoops li = (let (ls, max_depth) = harvest_list li 1 0 in (ls, max_depth * 2))"

text \<open>
  What the pass reads of a function besides the graph. \<open>non_returning\<close> is the first call in a block that does
  not return, with the name of the called function, if it has one.
\<close>

record RegionInfo =
  ri_entry :: Block
  ri_name :: string
  ri_top_loops :: "Loop list"
  ri_landing_pad :: "Block \<Rightarrow> bool"
  ri_loop_of :: "Block \<Rightarrow> Loop option"
  non_returning :: "Block \<Rightarrow> string option option"
  func_id :: SID
  loop_region_id :: "Loop \<Rightarrow> SID"
  loop_body_id :: "Loop \<Rightarrow> SID"

definition isCppThrowFunc :: "string \<Rightarrow> bool" where
  "isCppThrowFunc nm \<longleftrightarrow> nm = ''__cxa_throw'' \<or> nm = ''_Unwind_Resume_or_Rethrow''"

definition is_main :: "RegionInfo \<Rightarrow> bool" where
  "is_main R \<longleftrightarrow> ri_name R = ''main'' \<or> ri_name R = ''MAIN__''"

text \<open>The calls at the end of a block without successors.\<close>

definition end_calls :: "RegionInfo \<Rightarrow> RegionCfg \<Rightarrow> Block \<Rightarrow> api_event list" where
  "end_calls R G b =
     (let nr = (if rg_term G b = OUnreachable then non_returning R b else None);
          throws = (case nr of Some (Some nm) \<Rightarrow> isCppThrowFunc nm | _ \<Rightarrow> False);
          is_exit_point = (nr = Some (Some ''exit'')) in
      Region (KExitRegion (func_id R) RegionFunc)
        # (if \<not> throws \<and> (is_main R \<or> is_exit_point) then [Noop KDeinit] else []))"

definition add_function_exit :: "RegionInfo \<Rightarrow> Block \<Rightarrow> RegionCfg \<Rightarrow> RegionCfg" where
  "add_function_exit R b G =
     (if rg_succs G b = [] then fold (put_last b) (end_calls R G b) G else G)"

definition add_function_pad :: "RegionInfo \<Rightarrow> Block \<Rightarrow> RegionCfg \<Rightarrow> RegionCfg" where
  "add_function_pad R b G =
     (if ri_landing_pad R b \<and> ri_loop_of R b = None then put_first b (Region (KLandingPad (func_id R) RegionFunc)) G else G)"

definition loop_pads :: "RegionInfo \<Rightarrow> RegionCfg \<Rightarrow> Loop \<Rightarrow> Block list" where
  "loop_pads R G l =
     filter (\<lambda>b. ri_landing_pad R b \<and> (case ri_loop_of R b of None \<Rightarrow> False | Some m \<Rightarrow> loop_id m = loop_id l)) (rg_blocks G)"

fun instrument_loops :: "RegionOptions \<Rightarrow> RegionInfo \<Rightarrow> (Loop \<Rightarrow> Block list) \<Rightarrow> Loop list \<Rightarrow> RegionCfg \<Rightarrow> RegionCfg option" where
  "instrument_loops opt R pads [] G = Some G"
| "instrument_loops opt R pads (l # ls) G =
     instrumentLoop opt (ri_landing_pad R) l (loop_region_id R l) (loop_body_id R l) (pads l) G
       \<bind> instrument_loops opt R pads ls"

definition instrument_region_function :: "RegionOptions \<Rightarrow> RegionInfo \<Rightarrow> RegionCfg \<Rightarrow> (RegionCfg \<times> nat) option" where
  "instrument_region_function opt R G = do {
     let (function_loops, max_depth) = harvestLoops (ri_top_loops R);
     let pads = loop_pads R G;
     let G = fold (add_function_exit R) (rg_blocks G) (fold (add_function_pad R) (rg_blocks G) G);
     G \<leftarrow> instrument_loops opt R pads function_loops G;
     let G = put_first (ri_entry R) (Region (KEnterRegion (func_id R) RegionFunc)) G;
     Some (if is_main R then put_first (ri_entry R) (Noop KInit) G else G, max_depth) }"

end
