(* ===== verification/RegionPassSpec.thy ===== *)
theory RegionPassSpec
  imports RegionPass
begin

text \<open>
  The region pass keeps the regions nested: on every path through an instrumented function each call that
  leaves a region leaves the one entered last.
\<close>

section \<open>Stacks of regions\<close>

type_synonym RegionStack = "(SID \<times> RegionType) list"

text \<open>What a call does to the regions that are open, the innermost first.\<close>

fun region_step :: "api_event \<Rightarrow> RegionStack \<Rightarrow> RegionStack option" where
  "region_step (Region (KEnterRegion r t)) s = Some ((r, t) # s)"
| "region_step (Region (KExitRegion r t)) s = (case s of x # xs \<Rightarrow> if x = (r, t) then Some xs else None | [] \<Rightarrow> None)"
| "region_step (Region (KLandingPad r t)) s = (if (r, t) \<in> set s then Some (dropWhile (\<lambda>x. x \<noteq> (r, t)) s) else None)"
| "region_step ev s = Some s"

fun run_regions :: "api_event list \<Rightarrow> RegionStack \<Rightarrow> RegionStack option" where
  "run_regions [] s = Some s"
| "run_regions (ev # evs) s = region_step ev s \<bind> run_regions evs"

lemma run_regions_append: "run_regions (xs @ ys) s = run_regions xs s \<bind> run_regions ys"
  by (induction xs arbitrary: s) (auto split: bind_splits)

text \<open>
  An assignment of stacks to the beginning and the end of every block that fits the calls and the edges. The
  calls in the header of a loop that is still to be instrumented will move in front of the loop, so the edges
  back to it count as after them.
\<close>

definition back_edge :: "Loop list \<Rightarrow> Block \<Rightarrow> Block \<Rightarrow> bool" where
  "back_edge P a b \<longleftrightarrow> (\<exists>l \<in> set P. loop_header l = b \<and> in_loop l a)"

definition edge_fits :: "Loop list \<Rightarrow> (Block \<Rightarrow> RegionStack) \<Rightarrow> (Block \<Rightarrow> RegionStack) \<Rightarrow> Block \<Rightarrow> Block \<Rightarrow> bool" where
  "edge_fits P ti to a b \<longleftrightarrow> to a = (if back_edge P a b then to b else ti b)"

definition block_fits :: "(Block \<Rightarrow> RegionStack) \<Rightarrow> (Block \<Rightarrow> RegionStack) \<Rightarrow> RegionCfg \<Rightarrow> Block \<Rightarrow> bool" where
  "block_fits ti to G b \<longleftrightarrow> run_regions (rg_calls G b) (ti b) = Some (to b)"

definition edges_fit :: "Loop list \<Rightarrow> (Block \<Rightarrow> RegionStack) \<Rightarrow> (Block \<Rightarrow> RegionStack) \<Rightarrow> (Block \<Rightarrow> Block \<Rightarrow> bool) \<Rightarrow> RegionCfg \<Rightarrow> bool" where
  "edges_fit P ti to Bad G \<longleftrightarrow>
     (\<forall>a \<in> set (rg_blocks G). \<forall>b \<in> set (rg_succs G a). \<not> Bad a b \<longrightarrow> edge_fits P ti to a b)"

section \<open>Subdivision of edges\<close>

text \<open>One new block \<open>n\<close> on edges to \<open>d\<close>.\<close>

definition subdivides :: "(Block \<Rightarrow> bool) \<Rightarrow> Block \<Rightarrow> Block \<Rightarrow> api_event list \<Rightarrow> RegionCfg \<Rightarrow> RegionCfg \<Rightarrow> bool" where
  "subdivides A n d calls G G' \<longleftrightarrow> n = rg_next_block G \<and> rg_next_block G' = n + 1 \<and> rg_blocks G' = rg_blocks G @ [n]
     \<and> rg_succs G' n = [d] \<and> rg_term G' n = OBr \<and> rg_calls G' n = calls
     \<and> (\<forall>a. a \<noteq> n \<longrightarrow> rg_term G' a = rg_term G a \<and> rg_calls G' a = rg_calls G a
          \<and> rg_succs G' a = (if A a then map (\<lambda>b. if b = d then n else b) (rg_succs G a) else rg_succs G a))"

definition well_numbered :: "RegionCfg \<Rightarrow> bool" where
  "well_numbered G \<longleftrightarrow> (\<forall>b \<in> set (rg_blocks G). b < rg_next_block G \<and> set (rg_succs G b) \<subseteq> set (rg_blocks G)
     \<and> (rg_succs G b \<noteq> [] \<longrightarrow> rg_term G b \<in> {OBr, OSwitch, OInvoke}) \<and> (rg_term G b = OBr \<longrightarrow> length (rg_succs G b) \<le> 2))"

lemma subdivided_edges:
  assumes "subdivides A n d calls G G'" "well_numbered G" "a \<in> set (rg_blocks G')" "b \<in> set (rg_succs G' a)"
  shows "a = n \<and> b = d \<or> a \<in> set (rg_blocks G) \<and> a \<noteq> n \<and> (A a \<and> b = n \<and> d \<in> set (rg_succs G a)
    \<or> b \<in> set (rg_succs G a) \<and> b \<noteq> n \<and> \<not> (A a \<and> b = d))"
proof (cases "a = n")
  case True
  then show ?thesis using assms by (auto simp: subdivides_def)
next
  case False
  then have a: "a \<in> set (rg_blocks G)" using assms(1,3) by (auto simp: subdivides_def)
  then have "n \<notin> set (rg_succs G a)" using assms(1,2) unfolding well_numbered_def subdivides_def by blast
  then show ?thesis using assms(1,4) a False by (auto simp: subdivides_def split: if_splits)
qed

lemma subdivided_numbers:
  assumes "subdivides A n d calls G G'" "well_numbered G" "d \<in> set (rg_blocks G)"
  shows "well_numbered G'"
  unfolding well_numbered_def
proof (intro ballI)
  fix b assume b: "b \<in> set (rg_blocks G')"
  show "b < rg_next_block G' \<and> set (rg_succs G' b) \<subseteq> set (rg_blocks G')
     \<and> (rg_succs G' b \<noteq> [] \<longrightarrow> rg_term G' b \<in> {OBr, OSwitch, OInvoke}) \<and> (rg_term G' b = OBr \<longrightarrow> length (rg_succs G' b) \<le> 2)"
  proof (cases "b = n")
    case True
    then show ?thesis using assms(1,3) by (auto simp: subdivides_def)
  next
    case False
    then have bG: "b \<in> set (rg_blocks G)" using b assms(1) by (auto simp: subdivides_def)
    from False assms(1) have e: "rg_succs G' b = (if A b then map (\<lambda>x. if x = d then n else x) (rg_succs G b) else rg_succs G b)"
      "rg_term G' b = rg_term G b" "set (rg_blocks G') = insert n (set (rg_blocks G))" "rg_next_block G' = Suc (rg_next_block G)"
      unfolding subdivides_def by simp_all
    have old: "b < rg_next_block G" "set (rg_succs G b) \<subseteq> set (rg_blocks G)"
      "rg_succs G b \<noteq> [] \<longrightarrow> rg_term G b \<in> {OBr, OSwitch, OInvoke}" "rg_term G b = OBr \<longrightarrow> length (rg_succs G b) \<le> 2"
      using assms(2) bG unfolding well_numbered_def by blast+
    have "set (rg_succs G' b) \<subseteq> set (rg_blocks G')" using old(2) by (auto simp: e)
    moreover have "rg_succs G' b \<noteq> [] \<longrightarrow> rg_term G' b \<in> {OBr, OSwitch, OInvoke}" using old(3) by (simp add: e)
    moreover have "rg_term G' b = OBr \<longrightarrow> length (rg_succs G' b) \<le> 2" using old(4) by (simp add: e)
    ultimately show ?thesis using old(1) by (simp add: e(4))
  qed
qed

lemma subdivided_fit:
  assumes "subdivides A n d calls G G'" "well_numbered G" "edges_fit P ti to Bad G"
    and "d \<in> set (rg_blocks G)" "\<not> back_edge P n d" "so = ti d" "\<And>a. \<not> back_edge P a n"
    and "\<And>a. a \<in> set (rg_blocks G) \<Longrightarrow> A a \<Longrightarrow> d \<in> set (rg_succs G a) \<Longrightarrow> to a = si"
    and "\<And>a b. Bad a b \<Longrightarrow> a \<in> set (rg_blocks G) \<Longrightarrow> b \<in> set (rg_succs G a) \<Longrightarrow> Bad' a b \<or> A a \<and> b = d"
  shows "edges_fit P (ti(n := si)) (to(n := so)) Bad' G'"
  unfolding edges_fit_def
proof (intro ballI impI)
  fix a b assume a: "a \<in> set (rg_blocks G')" "b \<in> set (rg_succs G' a)" "\<not> Bad' a b"
  have n: "n \<notin> set (rg_blocks G)" using assms(1,2) by (auto simp: well_numbered_def subdivides_def)
  from subdivided_edges [OF assms(1,2) a(1,2)] consider (new) "a = n" "b = d"
    | (into) "a \<in> set (rg_blocks G)" "a \<noteq> n" "A a" "b = n" "d \<in> set (rg_succs G a)"
    | (old) "a \<in> set (rg_blocks G)" "a \<noteq> n" "b \<in> set (rg_succs G a)" "b \<noteq> n" "\<not> (A a \<and> b = d)" by blast
  then show "edge_fits P (ti(n := si)) (to(n := so)) a b"
  proof cases
    case new
    then show ?thesis using n assms(4-6) by (auto simp: edge_fits_def)
  next
    case into
    then show ?thesis using assms(7,8) by (simp add: edge_fits_def)
  next
    case old
    then have "\<not> Bad a b" using assms(9) a(3) by blast
    then have "edge_fits P ti to a b" using assms(3) old unfolding edges_fit_def by blast
    then show ?thesis using old by (simp add: edge_fits_def)
  qed
qed

section \<open>Loops\<close>

text \<open>
  The loops to be instrumented: an outer loop comes before the ones in it. A loop is entered at its header
  only; a header that can leave the loop ends with a branch whose other successor is in the body, or with a
  switch; and the first block of such a body has no other predecessors, unless it is a header itself.
\<close>

definition nested_loops :: "Loop list \<Rightarrow> bool" where
  "nested_loops P \<longleftrightarrow> sorted_wrt (\<lambda>l m. (\<forall>b. in_loop l b \<longrightarrow> \<not> in_loop m b)
     \<or> (\<forall>b. in_loop m b \<longrightarrow> in_loop l b) \<and> \<not> in_loop m (loop_header l)) P"

definition header_exits :: "Loop \<Rightarrow> RegionCfg \<Rightarrow> bool" where
  "header_exits l G \<longleftrightarrow> (\<exists>s \<in> set (rg_succs G (loop_header l)). \<not> in_loop l s)"

definition single_entry :: "Loop \<Rightarrow> RegionCfg \<Rightarrow> bool" where
  "single_entry l G \<longleftrightarrow> (\<forall>a \<in> set (rg_blocks G). \<forall>b \<in> set (rg_succs G a). in_loop l b \<and> \<not> in_loop l a \<longrightarrow> b = loop_header l)"

definition header_leaves_well :: "Loop \<Rightarrow> RegionCfg \<Rightarrow> bool" where
  "header_leaves_well l G \<longleftrightarrow> (header_exits l G \<longrightarrow>
     rg_term G (loop_header l) = OBr
       \<and> (length (loop_blocks l) = 1 \<or> (\<exists>s \<in> set (rg_succs G (loop_header l)). in_loop l s \<and> s \<noteq> loop_header l))
     \<or> rg_term G (loop_header l) = OSwitch \<and> length (loop_blocks l) \<noteq> 1)"

definition body_begins_well :: "Loop list \<Rightarrow> Loop \<Rightarrow> RegionCfg \<Rightarrow> bool" where
  "body_begins_well P l G \<longleftrightarrow> (header_exits l G \<and> rg_term G (loop_header l) = OBr \<and> length (loop_blocks l) \<noteq> 1 \<longrightarrow>
     (\<forall>f \<in> set (rg_succs G (loop_header l)). in_loop l f \<longrightarrow>
        (\<forall>a \<in> set (rg_blocks G). f \<in> set (rg_succs G a) \<longrightarrow> a = loop_header l \<or> back_edge P a f)))"

definition loop_shape :: "Loop list \<Rightarrow> Loop \<Rightarrow> RegionCfg \<Rightarrow> bool" where
  "loop_shape P l G \<longleftrightarrow> distinct (loop_blocks l) \<and> in_loop l (loop_header l) \<and> set (loop_blocks l) \<subseteq> set (rg_blocks G)
     \<and> single_entry l G \<and> header_leaves_well l G \<and> body_begins_well P l G"

definition loops_shape :: "Loop list \<Rightarrow> RegionCfg \<Rightarrow> bool" where
  "loops_shape P G \<longleftrightarrow> well_numbered G \<and> nested_loops P \<and> (\<forall>l \<in> set P. loop_shape P l G)"

lemma inner_loop:
  assumes "nested_loops (l # P)" "m \<in> set P" "in_loop l b" "in_loop m b"
  shows "(in_loop m x \<longrightarrow> in_loop l x) \<and> \<not> in_loop m (loop_header l)"
  using assms by (auto simp: nested_loops_def)

lemma shape_tail:
  assumes "loops_shape (l # P) G"
  shows "loops_shape P G"
proof -
  have nl: "nested_loops (l # P)" "nested_loops P" using assms by (auto simp: loops_shape_def nested_loops_def)
  have "body_begins_well P m G" if m: "m \<in> set P" for m
  proof -
    have b: "body_begins_well (l # P) m G" using assms m by (simp add: loops_shape_def loop_shape_def)
    have "back_edge P a f" if "back_edge (l # P) a f" "in_loop m f" for a f
    proof -
      have "\<not> (loop_header l = f \<and> in_loop l a)"
      proof
        assume h: "loop_header l = f \<and> in_loop l a"
        have "in_loop l (loop_header l)" using assms by (simp add: loops_shape_def loop_shape_def)
        then show False using inner_loop [OF nl(1) m, of f] h that(2) by blast
      qed
      then show ?thesis using that(1) by (auto simp: back_edge_def)
    qed
    then show ?thesis using b unfolding body_begins_well_def by blast
  qed
  then show ?thesis using assms nl(2) by (auto simp: loops_shape_def loop_shape_def)
qed

lemma subdivided_shape:
  assumes sub: "subdivides A n d calls G G'" and shape: "loops_shape P G" and d: "d \<in> set (rg_blocks G)"
    and into: "\<And>l a. l \<in> set P \<Longrightarrow> in_loop l d \<Longrightarrow> d = loop_header l \<and> (a \<in> set (rg_blocks G) \<and> A a \<and> d \<in> set (rg_succs G a) \<longrightarrow> \<not> in_loop l a)"
  shows "loops_shape P G'"
proof -
  have wn: "well_numbered G" using shape by (simp add: loops_shape_def)
  have n: "n \<notin> set (rg_blocks G)" using sub wn by (auto simp: well_numbered_def subdivides_def)
  have "loop_shape P l G'" if l: "l \<in> set P" for l
  proof -
    let ?h = "loop_header l"
    have ls: "loop_shape P l G" using shape l by (simp add: loops_shape_def)
    then have lb: "set (loop_blocks l) \<subseteq> set (rg_blocks G)" "in_loop l ?h" by (simp_all add: loop_shape_def)
    have nl: "\<not> in_loop l n" using lb(1) n by (auto simp: in_loop_def)
    have old: "a \<in> set (rg_blocks G)" if "in_loop l a" for a using lb(1) that by (auto simp: in_loop_def)
    note hb = old [OF lb(2)]
    have hn: "?h \<noteq> n" using hb n by blast
    have same: "in_loop l b \<and> b \<in> set (rg_succs G' a) \<longleftrightarrow> in_loop l b \<and> b \<in> set (rg_succs G a)" if "in_loop l a" for a b
    proof -
      have a: "a \<in> set (rg_blocks G)" "a \<noteq> n" using old [OF that] n by blast+
      have "\<not> (in_loop l d \<and> A a \<and> d \<in> set (rg_succs G a))" using into [OF l, of a] a(1) that by blast
      then show ?thesis using sub a(2) nl by (auto simp: subdivides_def split: if_splits)
    qed
    have ex: "header_exits l G' = header_exits l G"
    proof -
      have "\<not> (in_loop l d \<and> A ?h \<and> d \<in> set (rg_succs G ?h))" using into [OF l, of ?h] hb lb(2) by blast
      then show ?thesis using sub hn nl unfolding header_exits_def by (auto simp: subdivides_def split: if_splits)
    qed
    have tm: "rg_term G' ?h = rg_term G ?h" using sub hn by (simp add: subdivides_def)
    have edges: "b \<in> set (rg_succs G a) \<and> a \<in> set (rg_blocks G) \<or> a = n \<and> b = d"
      if "a \<in> set (rg_blocks G')" "b \<in> set (rg_succs G' a)" "in_loop l b" for a b
      using subdivided_edges [OF sub wn that(1,2)] that(3) nl by blast
    have se: "single_entry l G'"
      unfolding single_entry_def
    proof (intro ballI impI)
      fix a b assume a: "a \<in> set (rg_blocks G')" "b \<in> set (rg_succs G' a)" "in_loop l b \<and> \<not> in_loop l a"
      from edges [OF a(1,2)] a(3) consider "b \<in> set (rg_succs G a)" "a \<in> set (rg_blocks G)" | "b = d" by blast
      then show "b = ?h"
      proof cases
        case 1
        then show ?thesis using ls a(3) unfolding loop_shape_def single_entry_def by blast
      next
        case 2
        then show ?thesis using into [OF l] a(3) by blast
      qed
    qed
    have hl: "header_leaves_well l G'"
    proof -
      have "(\<exists>s \<in> set (rg_succs G' ?h). in_loop l s \<and> s \<noteq> ?h) = (\<exists>s \<in> set (rg_succs G ?h). in_loop l s \<and> s \<noteq> ?h)"
        using same [OF lb(2)] by blast
      then show ?thesis using ls unfolding loop_shape_def header_leaves_well_def ex tm by simp
    qed
    have bw: "body_begins_well P l G'"
      unfolding body_begins_well_def ex tm
    proof (intro impI ballI)
      fix f a assume pre: "header_exits l G \<and> rg_term G ?h = OBr \<and> length (loop_blocks l) \<noteq> 1"
        and f: "f \<in> set (rg_succs G' ?h)" "in_loop l f" and a: "a \<in> set (rg_blocks G')" "f \<in> set (rg_succs G' a)"
      have f0: "f \<in> set (rg_succs G ?h)" using same [OF lb(2)] f by blast
      have bb: "\<forall>f \<in> set (rg_succs G ?h). in_loop l f \<longrightarrow>
          (\<forall>a \<in> set (rg_blocks G). f \<in> set (rg_succs G a) \<longrightarrow> a = ?h \<or> back_edge P a f)"
        using ls pre unfolding loop_shape_def body_begins_well_def by blast
      show "a = ?h \<or> back_edge P a f"
      proof (cases "f \<in> set (rg_succs G a) \<and> a \<in> set (rg_blocks G)")
        case True
        then show ?thesis using bb f0 f(2) by blast
      next
        case False
        then have "f = d" "a = n" using edges [OF a f(2)] by blast+
        then have fh: "f = ?h" using into [OF l] f(2) by blast
        have ff: "?h \<in> set (rg_succs G ?h)" using f0 fh by simp
        obtain s where s: "s \<in> set (rg_succs G ?h)" "in_loop l s" "s \<noteq> ?h"
          using ls pre unfolding loop_shape_def header_leaves_well_def by auto
        obtain x where x: "x \<in> set (rg_succs G ?h)" "\<not> in_loop l x" using pre by (auto simp: header_exits_def)
        have "card {?h, s, x} \<le> card (set (rg_succs G ?h))" using ff s x by (intro card_mono) auto
        moreover have "length (rg_succs G ?h) \<le> 2" using wn hb pre unfolding well_numbered_def by blast
        moreover have "card {?h, s, x} = 3" using s x lb(2) by (auto simp: card_insert_if)
        ultimately show ?thesis using card_length [of "rg_succs G ?h"] by linarith
      qed
    qed
    have "set (loop_blocks l) \<subseteq> set (rg_blocks G')" using lb(1) sub by (auto simp: subdivides_def)
    then show ?thesis using ls se hl bw by (simp add: loop_shape_def)
  qed
  then show ?thesis using subdivided_numbers [OF sub wn d] shape by (simp add: loops_shape_def)
qed

section \<open>The operations subdivide edges\<close>

lemma promote_keeps [simp]:
  "rg_succs (promotePHIsToOtherBlock a b G) = rg_succs G" "rg_calls (promotePHIsToOtherBlock a b G) = rg_calls G"
  "rg_blocks (promotePHIsToOtherBlock a b G) = rg_blocks G" "rg_term (promotePHIsToOtherBlock a b G) = rg_term G"
  "rg_next_block (promotePHIsToOtherBlock a b G) = rg_next_block G"
  by (simp_all add: promotePHIsToOtherBlock_def split: prod.split)

lemma redirect_all_succs:
  assumes "n \<noteq> d"
  shows "\<forall>a \<in> set as. rg_term G a \<in> {OBr, OSwitch, OInvoke} \<Longrightarrow>
    redirect_all as d n G = Some (G\<lparr>rg_succs := (\<lambda>a. if a \<in> set as then map (\<lambda>b. if b = d then n else b) (rg_succs G a) else rg_succs G a)\<rparr>)"
proof (induction as arbitrary: G)
  case Nil
  then show ?case by simp
next
  case (Cons a as)
  let ?G = "redirect a d n G"
  have "redirect_all as d n ?G = Some (?G\<lparr>rg_succs := (\<lambda>x. if x \<in> set as then map (\<lambda>b. if b = d then n else b) (rg_succs ?G x) else rg_succs ?G x)\<rparr>)"
    using Cons.prems by (intro Cons.IH) (simp add: redirect_def)
  then show ?case using Cons.prems assms by (auto simp: redirect_def fun_eq_iff)
qed

lemma replace_subdivides:
  assumes wn: "well_numbered G" and d: "d \<in> set (rg_blocks G)"
    and c: "create_block ss calls G = (n, G1)" and ss: "ss = [] \<or> preds_in \<and> \<not> in_loop l n"
  shows "\<exists>G2. replaceAllJumps d n l preds_in G1 = Some G2
    \<and> subdivides (\<lambda>a. a \<in> set (rg_blocks G) \<and> in_loop l a = preds_in) n d calls G (G2\<lparr>rg_succs := (rg_succs G2)(n := [d])\<rparr>)
    \<and> rg_succs G2 n = ss \<and> rg_calls G2 = rg_calls G1"
proof -
  have n: "n = rg_next_block G" "n \<notin> set (rg_blocks G)" "G1 = snd (create_block ss calls G)"
    using c wn by (auto simp: create_block_def well_numbered_def Let_def)
  let ?as = "filter (\<lambda>a. d \<in> set (rg_succs G1 a) \<and> in_loop l a = preds_in) (rg_blocks G1)"
  have as: "set ?as = {a \<in> set (rg_blocks G). d \<in> set (rg_succs G a) \<and> in_loop l a = preds_in}"
    using n ss by (auto simp: create_block_def Let_def)
  have "\<forall>a \<in> set ?as. rg_term G1 a \<in> {OBr, OSwitch, OInvoke}"
  proof
    fix a assume "a \<in> set ?as"
    then have a: "a \<in> set (rg_blocks G)" "rg_succs G a \<noteq> []" unfolding as by auto
    then have "rg_term G a \<in> {OBr, OSwitch, OInvoke}" using wn unfolding well_numbered_def by blast
    moreover have "rg_term G1 a = rg_term G a" using a n by (auto simp: create_block_def Let_def)
    ultimately show "rg_term G1 a \<in> {OBr, OSwitch, OInvoke}" by simp
  qed
  moreover have nd: "n \<noteq> d" using n(2) d by blast
  ultimately obtain G2 where G2: "replaceAllJumps d n l preds_in G1 = Some G2"
    "G2 = G1\<lparr>rg_succs := (\<lambda>a. if a \<in> set ?as then map (\<lambda>b. if b = d then n else b) (rg_succs G1 a) else rg_succs G1 a)\<rparr>"
    unfolding replaceAllJumps_def using redirect_all_succs by blast
  have nas: "n \<notin> set ?as" using n(2) as by blast
  have "map (\<lambda>b. if b = d then n else b) (rg_succs G a) = rg_succs G a" if "d \<notin> set (rg_succs G a)" for a
    using that by (induction "rg_succs G a") (auto intro!: map_idI)
  then have "subdivides (\<lambda>a. a \<in> set (rg_blocks G) \<and> in_loop l a = preds_in) n d calls G (G2\<lparr>rg_succs := (rg_succs G2)(n := [d])\<rparr>)"
    unfolding subdivides_def G2(2) as using n by (auto simp: create_block_def Let_def)
  moreover have "rg_succs G2 n = ss" "rg_calls G2 = rg_calls G1"
    unfolding G2(2) using nas n by (simp_all add: create_block_def Let_def)
  ultimately show ?thesis using G2(1) by blast
qed

lemma subdivides_phis:
  "rg_succs G' = rg_succs H \<Longrightarrow> rg_calls G' = rg_calls H \<Longrightarrow> rg_blocks G' = rg_blocks H \<Longrightarrow> rg_term G' = rg_term H \<Longrightarrow>
     rg_next_block G' = rg_next_block H \<Longrightarrow> subdivides A n d calls G G' = subdivides A n d calls G H"
  by (simp add: subdivides_def)

lemma pre_exit_subdivides:
  assumes "well_numbered G" "t \<in> set (rg_blocks G)" "e \<in> set (rg_blocks G)"
    and "calls = (if lbr \<and> (e \<noteq> loop_header l \<or> rg_term G (loop_header l) = OSwitch) then [Region (KExitRegion bd RegionLoopBody)] else [])
      @ [Region (KExitRegion r RegionLoop)]"
  shows "subdivides (\<lambda>a. a = e) (rg_next_block G) t calls G (add_pre_exit lbr (\<lambda>_. False) l r bd e t G)"
proof -
  have n: "rg_next_block G \<noteq> e" "rg_next_block G \<noteq> t" using assms(1-3) by (auto simp: well_numbered_def)
  show ?thesis unfolding subdivides_def add_pre_exit_def create_block_def redirect_def assms(4) using n by (auto simp: Let_def)
qed

lemma preheader_subdivides:
  assumes wn: "well_numbered G" and h: "loop_header l \<in> set (rg_blocks G)" and e: "list_all is_enter (rg_calls G (loop_header l))"
  shows "\<exists>Gp p. add_preheader l r G = Some (Gp\<lparr>rg_calls := (rg_calls Gp)(loop_header l := [],
        p := rg_calls G (loop_header l) @ [Region (KEnterRegion r RegionLoop)])\<rparr>)
    \<and> subdivides (\<lambda>a. a \<in> set (rg_blocks G) \<and> \<not> in_loop l a) p (loop_header l) [] G Gp"
proof -
  let ?h = "loop_header l"
  obtain p G1 where c: "create_block [] [] G = (p, G1)" by (cases "create_block [] [] G")
  from replace_subdivides [OF wn h c] obtain G2 where G2: "replaceAllJumps ?h p l False G1 = Some G2"
    "subdivides (\<lambda>a. a \<in> set (rg_blocks G) \<and> in_loop l a = False) p ?h [] G (G2\<lparr>rg_succs := (rg_succs G2)(p := [?h])\<rparr>)"
    "rg_calls G2 = rg_calls G1" by blast
  let ?Gp = "promotePHIsToOtherBlock ?h p (G2\<lparr>rg_succs := (rg_succs G2)(p := [?h])\<rparr>)"
  have sub: "subdivides (\<lambda>a. a \<in> set (rg_blocks G) \<and> \<not> in_loop l a) p ?h [] G ?Gp"
    using G2(2) by (subst subdivides_phis [where H = "G2\<lparr>rg_succs := (rg_succs G2)(p := [?h])\<rparr>"]) simp_all
  have hp: "?h \<noteq> p" using c h wn by (auto simp: create_block_def well_numbered_def Let_def)
  then have "rg_calls G2 ?h = rg_calls G ?h" using c by (auto simp: G2(3) create_block_def Let_def)
  moreover have "filter is_enter (rg_calls G ?h) = rg_calls G ?h" "filter (Not \<circ> is_enter) (rg_calls G ?h) = []"
    using e by (simp_all add: list_all_iff filter_id_conv filter_empty_conv)
  ultimately have "add_preheader l r G = Some (?Gp\<lparr>rg_calls := (rg_calls ?Gp)(?h := [], p := rg_calls G ?h @ [Region (KEnterRegion r RegionLoop)])\<rparr>)"
    by (simp add: add_preheader_def c G2(1) Let_def)
  then show ?thesis using sub by blast
qed

section \<open>One loop\<close>

definition pending_calls :: "Loop list \<Rightarrow> RegionCfg \<Rightarrow> bool" where
  "pending_calls P G \<longleftrightarrow> (\<forall>l \<in> set P. (\<forall>b. in_loop l b \<and> b \<noteq> loop_header l \<longrightarrow> rg_calls G b = [])
     \<and> list_all is_enter (rg_calls G (loop_header l)))"

definition pending_stacks :: "Loop list \<Rightarrow> (Block \<Rightarrow> RegionStack) \<Rightarrow> (Block \<Rightarrow> RegionStack) \<Rightarrow> bool" where
  "pending_stacks P ti to \<longleftrightarrow> (\<forall>l \<in> set P. \<forall>b. in_loop l b \<and> b \<noteq> loop_header l \<longrightarrow> ti b = to (loop_header l))"

definition regions_fit :: "Loop list \<Rightarrow> (Block \<Rightarrow> RegionStack) \<Rightarrow> (Block \<Rightarrow> RegionStack) \<Rightarrow> RegionCfg \<Rightarrow> bool" where
  "regions_fit P ti to G \<longleftrightarrow> loops_shape P G \<and> pending_calls P G \<and> pending_stacks P ti to
     \<and> edges_fit P ti to (\<lambda>a b. False) G \<and> (\<forall>b \<in> set (rg_blocks G). block_fits ti to G b)"

text \<open>The stacks after the loop has been instrumented; the body is entered at \<open>f\<close>.\<close>

definition loop_in :: "Loop \<Rightarrow> SID \<Rightarrow> SID \<Rightarrow> Block \<Rightarrow> (Block \<Rightarrow> RegionStack) \<Rightarrow> (Block \<Rightarrow> RegionStack) \<Rightarrow> Block \<Rightarrow> RegionStack" where
  "loop_in l r bd f ti to b =
     (let w = (r, RegionLoop) # to (loop_header l) in
      if \<not> in_loop l b then ti b else if b = loop_header l \<or> b = f then w else (bd, RegionLoopBody) # w)"

definition loop_out :: "Loop \<Rightarrow> SID \<Rightarrow> SID \<Rightarrow> Block \<Rightarrow> (Block \<Rightarrow> RegionStack) \<Rightarrow> Block \<Rightarrow> RegionStack" where
  "loop_out l r bd f to b =
     (let w = (r, RegionLoop) # to (loop_header l) in
      if \<not> in_loop l b then to b
      else if b = loop_header l \<and> (f \<noteq> loop_header l \<or> length (loop_blocks l) = 1) then w else (bd, RegionLoopBody) # w)"

lemma body_entry_some:
  assumes "well_numbered G" "loop_shape P l G"
  shows "\<exists>f. body_entry l G = Some f \<and> in_loop l f \<and> (f = loop_header l \<or>
    f \<noteq> loop_header l \<and> header_exits l G \<and> rg_term G (loop_header l) = OBr \<and> length (loop_blocks l) \<noteq> 1
      \<and> f \<in> set (rg_succs G (loop_header l)) \<and> (\<forall>b \<in> set (rg_succs G (loop_header l)). in_loop l b \<longrightarrow> b = f))
    \<and> (header_exits l G \<and> rg_term G (loop_header l) = OBr \<and> length (loop_blocks l) \<noteq> 1 \<longrightarrow> f \<noteq> loop_header l)"
proof -
  let ?h = "loop_header l" and ?ss = "rg_succs G (loop_header l)"
  have h: "in_loop l ?h" "?h \<in> set (rg_blocks G)" using assms(2) by (auto simp: loop_shape_def in_loop_def)
  consider "rg_term G ?h \<noteq> OBr \<or> length (loop_blocks l) = 1" | "\<forall>s \<in> set ?ss. in_loop l s"
    | (out) "rg_term G ?h = OBr" "length (loop_blocks l) \<noteq> 1" "header_exits l G" by (auto simp: header_exits_def)
  then show ?thesis
  proof cases
    case out
    obtain x where x: "x \<in> set ?ss" "\<not> in_loop l x" using out(3) by (auto simp: header_exits_def)
    obtain s where s: "s \<in> set ?ss" "in_loop l s" "s \<noteq> ?h" using assms(2) out unfolding loop_shape_def header_leaves_well_def by auto
    have two: "length ?ss \<le> 2" using assms(1) h(2) out(1) unfolding well_numbered_def by blast
    have only: "b = s" if "b \<in> set ?ss" "in_loop l b" for b
    proof (rule ccontr)
      assume "b \<noteq> s"
      then have "card {b, s, x} = 3" using that s x by (auto simp: card_insert_if)
      moreover have "card {b, s, x} \<le> card (set ?ss)" using that s x by (intro card_mono) auto
      ultimately show False using two card_length [of ?ss] by linarith
    qed
    let ?in = "filter (in_loop l) ?ss"
    have ne: "?in \<noteq> []" using s by (auto simp: filter_empty_conv)
    have "last ?in \<in> set ?in" using ne by (rule last_in_set)
    then have "last ?in = s" using only by simp
    then have "body_entry l G = Some s" using out x ne by (auto simp: body_entry_def Let_def)
    then show ?thesis using s only out by blast
  next
    case 2
    then have "\<not> header_exits l G" by (auto simp: header_exits_def)
    then show ?thesis using h 2 by (auto simp: body_entry_def Let_def)
  qed (use h in \<open>auto simp: body_entry_def Let_def\<close>)
qed

lemma back_edge_inside:
  assumes "loops_shape (l # P) G" "back_edge P a b" "in_loop l a \<or> in_loop l b"
  shows "in_loop l a \<and> in_loop l b \<and> a \<noteq> loop_header l \<and> b \<noteq> loop_header l"
proof -
  obtain m where m: "m \<in> set P" "loop_header m = b" "in_loop m a" using assms(2) by (auto simp: back_edge_def)
  have nl: "nested_loops (l # P)" using assms(1) by (simp add: loops_shape_def)
  have mb: "in_loop m b" using assms(1) m(1,2) by (auto simp: loops_shape_def loop_shape_def)
  obtain x where "in_loop l x" "in_loop m x" using assms(3) m(3) mb by blast
  from inner_loop [OF nl m(1) this] show ?thesis using m(3) mb by blast
qed

lemma loop_edges_fit:
  assumes shape: "loops_shape (l # P) G" and ps: "pending_stacks (l # P) ti to"
    and fit: "edges_fit (l # P) ti to (\<lambda>a b. False) G" and f: "body_entry l G = Some f"
  shows "edges_fit P (loop_in l r bd f ti to) (loop_out l r bd f to)
    (\<lambda>a b. b = loop_header l \<and> (\<not> in_loop l a \<or> length (loop_blocks l) \<noteq> 1) \<or> in_loop l a \<and> \<not> in_loop l b) G"
  unfolding edges_fit_def
proof (intro ballI impI)
  fix a b
  let ?h = "loop_header l" and ?ti = "loop_in l r bd f ti to" and ?to = "loop_out l r bd f to"
  let ?W = "(r, RegionLoop) # to ?h"
  let ?V = "(bd, RegionLoopBody) # ?W"
  assume a: "a \<in> set (rg_blocks G)" "b \<in> set (rg_succs G a)"
    and nb: "\<not> (b = ?h \<and> (\<not> in_loop l a \<or> length (loop_blocks l) \<noteq> 1) \<or> in_loop l a \<and> \<not> in_loop l b)"
  have ls: "loop_shape (l # P) l G" "well_numbered G" using shape by (simp_all add: loops_shape_def)
  have h: "in_loop l ?h" using ls by (simp add: loop_shape_def)
  have old: "edge_fits (l # P) ti to a b" using fit a unfolding edges_fit_def by blast
  from body_entry_some [OF ls(2,1)] f have fs: "in_loop l f" "f = ?h \<or> f \<noteq> ?h \<and> header_exits l G \<and> rg_term G ?h = OBr
      \<and> length (loop_blocks l) \<noteq> 1 \<and> f \<in> set (rg_succs G ?h) \<and> (\<forall>b \<in> set (rg_succs G ?h). in_loop l b \<longrightarrow> b = f)" by auto
  show "edge_fits P ?ti ?to a b"
  proof (cases "in_loop l a")
    case False
    then have bh: "b \<noteq> ?h" using nb by blast
    have bl: "\<not> in_loop l b"
    proof
      assume "in_loop l b"
      then show False using ls(1) a False bh unfolding loop_shape_def single_entry_def by blast
    qed
    have "back_edge (l # P) a b = back_edge P a b" using False by (auto simp: back_edge_def)
    then show ?thesis using old False bl by (simp add: edge_fits_def loop_in_def loop_out_def)
  next
    case True
    then have bl: "in_loop l b" using nb by blast
    show ?thesis
    proof (cases "length (loop_blocks l) = 1")
      case True
      then have "set (loop_blocks l) = {?h}" using h by (auto simp: in_loop_def length_Suc_conv)
      then have e: "a = ?h" "b = ?h" using \<open>in_loop l a\<close> bl by (auto simp: in_loop_def)
      then have "\<not> back_edge P a b" using back_edge_inside [OF shape, of a b] h by blast
      then show ?thesis using h True e by (simp add: edge_fits_def loop_in_def loop_out_def)
    next
      case many: False
      then have bh: "b \<noteq> ?h" using nb by blast
      then have ob: "?to b = ?V" using bl by (simp add: loop_out_def)
      show ?thesis
      proof (cases "a = ?h")
        case True
        have nback: "\<not> back_edge P a b" using back_edge_inside [OF shape, of a b] True \<open>in_loop l a\<close> by blast
        show ?thesis
        proof (cases "f = ?h")
          case fh: True
          then show ?thesis using True h many bl bh nback by (simp add: edge_fits_def loop_in_def loop_out_def)
        next
          case fh: False
          then have "b = f" using fs a(2) True bl by blast
          then show ?thesis using True h fh nback bl by (simp add: edge_fits_def loop_in_def loop_out_def)
        qed
      next
        case ah: False
        then have oa: "?to a = ?V" using \<open>in_loop l a\<close> by (simp add: loop_out_def)
        show ?thesis
        proof (cases "b = f")
          case True
          then have fx: "f \<noteq> ?h" "header_exits l G" "rg_term G ?h = OBr" "f \<in> set (rg_succs G ?h)" using fs bh by blast+
          then have "back_edge (l # P) a f"
            using ls(1) many a True fs(1) ah unfolding loop_shape_def body_begins_well_def by blast
          then have "back_edge P a b" using True bh by (auto simp: back_edge_def)
          then show ?thesis using oa ob by (simp add: edge_fits_def)
        next
          case False
          then have "?ti b = ?V" using bl bh by (simp add: loop_in_def)
          then show ?thesis using oa ob by (simp add: edge_fits_def)
        qed
      qed
    qed
  qed
qed

lemma body_entry_subdivides:
  assumes "subdivides A n d calls G G'" "loop_header l \<noteq> n" "\<not> in_loop l n"
    and "A (loop_header l) \<Longrightarrow> d \<in> set (rg_succs G (loop_header l)) \<Longrightarrow> \<not> in_loop l d"
  shows "body_entry l G' = body_entry l G \<and> header_exits l G' = header_exits l G"
proof -
  let ?h = "loop_header l"
  let ?m = "\<lambda>b. if b = d then n else b"
  have "filter (in_loop l) (map ?m ss) = filter (in_loop l) ss \<and> ((\<forall>s \<in> set (map ?m ss). in_loop l s) = (\<forall>s \<in> set ss. in_loop l s))"
    if "d \<in> set ss \<longrightarrow> \<not> in_loop l d" for ss
    using that assms(3) by (induction ss) auto
  from this [of "rg_succs G ?h"] assms show ?thesis
    by (auto simp: body_entry_def header_exits_def subdivides_def Let_def)
qed

lemma loops_shape_calls [simp]: "loops_shape P (G\<lparr>rg_calls := c\<rparr>) = loops_shape P G"
  by (simp add: loops_shape_def loop_shape_def well_numbered_def single_entry_def header_leaves_well_def body_begins_well_def header_exits_def)

lemma edges_fit_calls [simp]: "edges_fit P ti to Bad (G\<lparr>rg_calls := c\<rparr>) = edges_fit P ti to Bad G"
  by (simp add: edges_fit_def)

lemma body_entry_calls [simp]: "body_entry l (G\<lparr>rg_calls := c\<rparr>) = body_entry l G" "header_exits l (G\<lparr>rg_calls := c\<rparr>) = header_exits l G"
  by (simp_all add: body_entry_def header_exits_def)

lemma exit_calls_run:
  assumes "well_numbered G" "loop_shape P l G" "body_entry l G = Some f" "in_loop l e" "e = loop_header l \<Longrightarrow> header_exits l G"
  shows "run_regions ((if e \<noteq> loop_header l \<or> rg_term G (loop_header l) = OSwitch then [Region (KExitRegion bd RegionLoopBody)] else [])
      @ [Region (KExitRegion r RegionLoop)]) (loop_out l r bd f to e) = Some (to (loop_header l))"
proof (cases "e = loop_header l")
  case False
  then show ?thesis using assms(4) by (simp add: loop_out_def)
next
  case True
  note b = body_entry_some [OF assms(1,2)]
  have "rg_term G (loop_header l) = OBr \<or> rg_term G (loop_header l) = OSwitch \<and> length (loop_blocks l) \<noteq> 1"
    using assms(2,5) True unfolding loop_shape_def header_leaves_well_def by blast
  then show ?thesis
  proof
    assume br: "rg_term G (loop_header l) = OBr"
    then have "f \<noteq> loop_header l \<or> length (loop_blocks l) = 1" using b assms(3,5) True by auto
    then show ?thesis using True br assms(4) by (simp add: loop_out_def)
  next
    assume sw: "rg_term G (loop_header l) = OSwitch \<and> length (loop_blocks l) \<noteq> 1"
    then have "f = loop_header l" using b assms(3) by auto
    then show ?thesis using True sw assms(4) by (simp add: loop_out_def)
  qed
qed

text \<open>The edges that do not fit yet: back to the header, and out of the loop to one of the blocks \<open>B\<close>.\<close>

definition unfinished :: "Loop \<Rightarrow> Block set \<Rightarrow> Block \<Rightarrow> Block \<Rightarrow> bool" where
  "unfinished l B a b \<longleftrightarrow> in_loop l a \<and> (b = loop_header l \<and> length (loop_blocks l) \<noteq> 1 \<or> \<not> in_loop l b \<and> b \<in> B)"

lemma preheader_stage:
  assumes fit: "regions_fit (l # P) ti to G" and f: "body_entry l G = Some f"
  shows "\<exists>p G1. add_preheader l r G = Some G1 \<and> p \<notin> set (rg_blocks G) \<and> rg_blocks G1 = rg_blocks G @ [p]
    \<and> loops_shape (l # P) G1 \<and> body_entry l G1 = Some f
    \<and> edges_fit P ((loop_in l r bd f ti to)(p := ti (loop_header l)))
        ((loop_out l r bd f to)(p := (r, RegionLoop) # to (loop_header l))) (unfinished l (set (rg_blocks G1))) G1
    \<and> rg_calls G1 p = rg_calls G (loop_header l) @ [Region (KEnterRegion r RegionLoop)]
    \<and> rg_calls G1 (loop_header l) = [] \<and> (\<forall>b \<in> set (rg_blocks G) - {loop_header l}. rg_calls G1 b = rg_calls G b)
    \<and> rg_succs G1 p = [loop_header l]
    \<and> (\<forall>a \<in> set (rg_blocks G). (rg_succs G1 a = []) = (rg_succs G a = []) \<and> rg_term G1 a = rg_term G a
         \<and> set (rg_succs G1 a) \<subseteq> insert p (set (rg_succs G a)) \<and> (in_loop l a \<longrightarrow> rg_succs G1 a = rg_succs G a))"
proof -
  let ?h = "loop_header l" and ?ti = "loop_in l r bd f ti to" and ?to = "loop_out l r bd f to"
  have shape: "loops_shape (l # P) G" and wn: "well_numbered G" and ps: "pending_stacks (l # P) ti to"
    and e: "edges_fit (l # P) ti to (\<lambda>a b. False) G" using fit by (simp_all add: regions_fit_def loops_shape_def)
  have ls: "loop_shape (l # P) l G" using shape by (simp add: loops_shape_def)
  then have h: "in_loop l ?h" "?h \<in> set (rg_blocks G)" by (auto simp: loop_shape_def in_loop_def)
  have "list_all is_enter (rg_calls G ?h)" using fit by (simp add: regions_fit_def pending_calls_def)
  from preheader_subdivides [OF wn h(2) this, of r] obtain Gp p where
    G1: "add_preheader l r G = Some (Gp\<lparr>rg_calls := (rg_calls Gp)(?h := [], p := rg_calls G ?h @ [Region (KEnterRegion r RegionLoop)])\<rparr>)"
    and sub: "subdivides (\<lambda>a. a \<in> set (rg_blocks G) \<and> \<not> in_loop l a) p ?h [] G Gp" by blast
  let ?G1 = "Gp\<lparr>rg_calls := (rg_calls Gp)(?h := [], p := rg_calls G ?h @ [Region (KEnterRegion r RegionLoop)])\<rparr>"
  have p: "p \<notin> set (rg_blocks G)" "rg_blocks Gp = rg_blocks G @ [p]" using sub wn by (auto simp: subdivides_def well_numbered_def)
  have ploop: "\<not> in_loop m p" if "m \<in> set (l # P)" for m
    using shape that p(1) by (auto simp: loops_shape_def loop_shape_def in_loop_def)
  have hp: "?h \<noteq> p" using h p by blast
  have nback: "\<not> back_edge P a ?h" for a
  proof
    assume b: "back_edge P a ?h"
    then show False using back_edge_inside [OF shape b] h by blast
  qed
  have shape1: "loops_shape (l # P) Gp"
  proof (rule subdivided_shape [OF sub shape h(2)])
    fix m a assume m: "m \<in> set (l # P)" "in_loop m ?h"
    have "m = l"
    proof (rule ccontr)
      assume "m \<noteq> l"
      then have "m \<in> set P" using m(1) by simp
      then show False using inner_loop [of l P m ?h] shape h(1) m(2) by (auto simp: loops_shape_def)
    qed
    then show "?h = loop_header m \<and> (a \<in> set (rg_blocks G) \<and> (a \<in> set (rg_blocks G) \<and> \<not> in_loop l a) \<and> ?h \<in> set (rg_succs G a) \<longrightarrow> \<not> in_loop m a)"
      by simp
  qed
  have fit0: "edges_fit P ?ti ?to (\<lambda>a b. b = ?h \<and> (\<not> in_loop l a \<or> length (loop_blocks l) \<noteq> 1) \<or> in_loop l a \<and> \<not> in_loop l b) G"
    by (rule loop_edges_fit [OF shape ps e f])
  have fit1: "edges_fit P (?ti(p := ti ?h)) (?to(p := (r, RegionLoop) # to ?h)) (unfinished l (set (rg_blocks Gp))) Gp"
  proof (rule subdivided_fit [OF sub wn fit0 h(2)])
    show "\<not> back_edge P p ?h" by (rule nback)
    show "(r, RegionLoop) # to ?h = ?ti ?h" using h(1) by (simp add: loop_in_def)
    show "\<not> back_edge P a p" for a
    proof
      assume "back_edge P a p"
      then obtain m where m: "m \<in> set P" "loop_header m = p" by (auto simp: back_edge_def)
      have "in_loop m (loop_header m)" using shape m(1) by (simp add: loops_shape_def loop_shape_def)
      then show False using ploop m by simp
    qed
    show "?to a = ti ?h" if "a \<in> set (rg_blocks G)" "a \<in> set (rg_blocks G) \<and> \<not> in_loop l a" "?h \<in> set (rg_succs G a)" for a
    proof -
      have "edge_fits (l # P) ti to a ?h" using e that unfolding edges_fit_def by blast
      moreover have "\<not> back_edge (l # P) a ?h" using nback [of a] that(2) by (auto simp: back_edge_def)
      ultimately show ?thesis using that(2) by (simp add: edge_fits_def loop_out_def)
    qed
    show "unfinished l (set (rg_blocks Gp)) a b \<or> (a \<in> set (rg_blocks G) \<and> \<not> in_loop l a) \<and> b = ?h"
      if "b = ?h \<and> (\<not> in_loop l a \<or> length (loop_blocks l) \<noteq> 1) \<or> in_loop l a \<and> \<not> in_loop l b"
        "a \<in> set (rg_blocks G)" "b \<in> set (rg_succs G a)" for a b
    proof -
      have "b \<in> set (rg_blocks Gp)" using that(2,3) wn p(2) unfolding well_numbered_def by auto
      then show ?thesis using that(1,2) by (auto simp: unfinished_def)
    qed
  qed
  have be: "body_entry l Gp = Some f"
    using body_entry_subdivides [OF sub hp ploop [of l]] f h(1) by simp
  have calls: "rg_calls Gp b = rg_calls G b" if "b \<in> set (rg_blocks G)" for b
  proof -
    have "b \<noteq> p" using that p(1) by blast
    then show ?thesis using sub unfolding subdivides_def by simp
  qed
  have succs: "rg_succs Gp a = (if \<not> in_loop l a then map (\<lambda>b. if b = ?h then p else b) (rg_succs G a) else rg_succs G a)"
    "rg_term Gp a = rg_term G a" if "a \<in> set (rg_blocks G)" for a
  proof -
    have "a \<noteq> p" using that p(1) by blast
    then show "rg_succs Gp a = (if \<not> in_loop l a then map (\<lambda>b. if b = ?h then p else b) (rg_succs G a) else rg_succs G a)"
      "rg_term Gp a = rg_term G a" using sub that unfolding subdivides_def by simp_all
  qed
  have "\<forall>a \<in> set (rg_blocks G). (rg_succs ?G1 a = []) = (rg_succs G a = []) \<and> rg_term ?G1 a = rg_term G a
         \<and> set (rg_succs ?G1 a) \<subseteq> insert p (set (rg_succs G a)) \<and> (in_loop l a \<longrightarrow> rg_succs ?G1 a = rg_succs G a)"
    using succs by auto
  moreover have "\<forall>b \<in> set (rg_blocks G) - {?h}. rg_calls ?G1 b = rg_calls G b" using calls p(1) by auto
  moreover have "rg_succs Gp p = [?h]" using sub unfolding subdivides_def by (elim conjE)
  then have "rg_succs ?G1 p = [?h]" by simp
  moreover have "edges_fit P (?ti(p := ti ?h)) (?to(p := (r, RegionLoop) # to ?h)) (unfinished l (set (rg_blocks ?G1))) ?G1"
    using fit1 by simp
  moreover have "rg_calls ?G1 p = rg_calls G ?h @ [Region (KEnterRegion r RegionLoop)]" "rg_calls ?G1 ?h = []" using hp by simp_all
  moreover have "rg_blocks ?G1 = rg_blocks G @ [p]" "loops_shape (l # P) ?G1" "body_entry l ?G1 = Some f" using p(2) shape1 be by simp_all
  ultimately show ?thesis using G1 p(1) by blast
qed

text \<open>
  While the exits are made: \<open>U\<close> are the blocks whose edges may have changed, \<open>D\<close> the ones that are done.
\<close>

definition exits_stage :: "Loop \<Rightarrow> Loop list \<Rightarrow> Block \<Rightarrow> RegionCfg \<Rightarrow> (Block \<Rightarrow> RegionStack) \<Rightarrow> (Block \<Rightarrow> RegionStack)
    \<Rightarrow> Block set \<Rightarrow> Block set \<Rightarrow> (Block \<Rightarrow> RegionStack) \<Rightarrow> (Block \<Rightarrow> RegionStack) \<Rightarrow> RegionCfg \<Rightarrow> bool" where
  "exits_stage l P f G1 ti1 to1 U D ti to G \<longleftrightarrow> (let B = set (rg_blocks G1) in
     loops_shape (l # P) G \<and> edges_fit P ti to (unfinished l B) G \<and> B \<subseteq> set (rg_blocks G)
     \<and> (\<forall>b \<in> B. ti b = ti1 b \<and> to b = to1 b \<and> rg_calls G b = rg_calls G1 b \<and> rg_term G b = rg_term G1 b
          \<and> (rg_succs G b = []) = (rg_succs G1 b = []) \<and> set (rg_succs G b) \<inter> B \<subseteq> set (rg_succs G1 b)
          \<and> filter (in_loop l) (rg_succs G b) = filter (in_loop l) (rg_succs G1 b))
     \<and> (\<forall>n \<in> set (rg_blocks G) - B. block_fits ti to G n \<and> rg_succs G n \<noteq> []
          \<and> set (rg_succs G n) \<subseteq> B \<and> (\<forall>b \<in> set (rg_succs G n). \<exists>a \<in> B. b \<in> set (rg_succs G1 a)))
     \<and> (\<forall>a \<in> B - U. rg_succs G a = rg_succs G1 a)
     \<and> (\<forall>a \<in> D. a \<in> B \<and> set (rg_succs G a) \<inter> B \<subseteq> {b. in_loop l b})
     \<and> body_entry l G = Some f)"

lemma exit_step:
  assumes st: "exits_stage l P f G1 ti1 to1 (insert e D) D ti to G"
    and e: "in_loop l e" "e \<in> set (rg_blocks G1)" "e \<notin> D" and t: "t \<in> set (rg_succs G e)" "t \<in> set (rg_blocks G1)" "\<not> in_loop l t"
    and tt: "ti1 t = s1" and te: "to1 e = loop_out l r bd f (\<lambda>b. s1) e"
  shows "\<exists>q ti' to'. exits_stage l P f G1 ti1 to1 (insert e D) D ti' to' (add_pre_exit True (\<lambda>_. False) l r bd e t G)
    \<and> q \<notin> set (rg_blocks G)
    \<and> rg_succs (add_pre_exit True (\<lambda>_. False) l r bd e t G) e = map (\<lambda>b. if b = t then q else b) (rg_succs G e)"
proof -
  let ?B = "set (rg_blocks G1)" and ?h = "loop_header l" and ?q = "rg_next_block G" and ?G' = "add_pre_exit True (\<lambda>_. False) l r bd e t G"
  have shape: "loops_shape (l # P) G" and fit: "edges_fit P ti to (unfinished l ?B) G" and sub0: "?B \<subseteq> set (rg_blocks G)"
    and be: "body_entry l G = Some f" using st by (simp_all add: exits_stage_def Let_def)
  have old: "ti b = ti1 b \<and> to b = to1 b \<and> rg_calls G b = rg_calls G1 b \<and> rg_term G b = rg_term G1 b
      \<and> (rg_succs G b = []) = (rg_succs G1 b = []) \<and> set (rg_succs G b) \<inter> ?B \<subseteq> set (rg_succs G1 b)
      \<and> filter (in_loop l) (rg_succs G b) = filter (in_loop l) (rg_succs G1 b)" if "b \<in> ?B" for b
    using st that by (simp add: exits_stage_def Let_def)
  have new: "block_fits ti to G n \<and> rg_succs G n \<noteq> [] \<and> set (rg_succs G n) \<subseteq> ?B
      \<and> (\<forall>b \<in> set (rg_succs G n). \<exists>a \<in> ?B. b \<in> set (rg_succs G1 a))" if "n \<in> set (rg_blocks G)" "n \<notin> ?B" for n
    using st that by (simp add: exits_stage_def Let_def)
  have wn: "well_numbered G" and ls: "loop_shape (l # P) l G" using shape by (simp_all add: loops_shape_def)
  have blocks: "t \<in> set (rg_blocks G)" "e \<in> set (rg_blocks G)" using e(2) t(2) sub0 by blast+
  have q: "?q \<notin> set (rg_blocks G)" using wn by (auto simp: well_numbered_def)
  let ?calls = "(if True \<and> (e \<noteq> ?h \<or> rg_term G ?h = OSwitch) then [Region (KExitRegion bd RegionLoopBody)] else [])
      @ [Region (KExitRegion r RegionLoop)]"
  have sub: "subdivides (\<lambda>a. a = e) ?q t ?calls G ?G'" by (rule pre_exit_subdivides [OF wn blocks]) simp
  have loops: "in_loop m (loop_header m)" "\<not> in_loop m ?q" if "m \<in> set (l # P)" for m
    using shape that q by (auto simp: loops_shape_def loop_shape_def in_loop_def)
  have lP: "nested_loops (l # P)" using shape by (simp add: loops_shape_def)
  have inner: "\<not> (in_loop m e \<and> in_loop m t)" if m: "m \<in> set P" for m
    using inner_loop [OF lP m e(1), of t] t(3) by blast
  have shape': "loops_shape (l # P) ?G'"
  proof (rule subdivided_shape [OF sub shape blocks(1)])
    fix m a assume m: "m \<in> set (l # P)" "in_loop m t"
    then have mP: "m \<in> set P" using t(3) by auto
    have "\<not> in_loop m e" using inner [OF mP] m(2) by blast
    moreover have "loop_shape (l # P) m G" using shape m(1) unfolding loops_shape_def by blast
    then have "single_entry m G" by (simp add: loop_shape_def)
    then have "t = loop_header m" using blocks(2) t(1) m(2) calculation unfolding single_entry_def by blast
    ultimately show "t = loop_header m \<and> (a \<in> set (rg_blocks G) \<and> a = e \<and> t \<in> set (rg_succs G a) \<longrightarrow> \<not> in_loop m a)" by blast
  qed
  have nb: "\<not> back_edge P ?q t" "\<not> back_edge P a ?q" for a
    using loops by (force simp: back_edge_def)+
  let ?ti = "ti(?q := to e)" and ?to = "to(?q := s1)"
  have fit': "edges_fit P ?ti ?to (unfinished l ?B) ?G'"
    by (rule subdivided_fit [OF sub wn fit blocks(1) nb(1) _ nb(2)]) (use old [OF t(2)] tt in auto)
  have hx: "header_exits l G" if "e = ?h" using t(1,3) that by (auto simp: header_exits_def)
  have run: "run_regions ?calls (to e) = Some s1"
    using exit_calls_run [OF wn ls be e(1) hx, of bd r "\<lambda>b. s1"] old [OF e(2)] te by simp
  have G': "rg_blocks ?G' = rg_blocks G @ [?q]" "rg_succs ?G' ?q = [t]" "rg_calls ?G' ?q = ?calls"
    "rg_succs ?G' e = map (\<lambda>b. if b = t then ?q else b) (rg_succs G e)"
  proof -
    have "e \<noteq> ?q" using blocks(2) q by blast
    moreover have "\<forall>a. a \<noteq> ?q \<longrightarrow> rg_succs ?G' a = (if a = e then map (\<lambda>b. if b = t then ?q else b) (rg_succs G a) else rg_succs G a)"
      using sub unfolding subdivides_def by blast
    ultimately show "rg_succs ?G' e = map (\<lambda>b. if b = t then ?q else b) (rg_succs G e)" by simp
  qed (use sub in \<open>simp_all add: subdivides_def\<close>)
  have same: "rg_calls ?G' a = rg_calls G a" "rg_term ?G' a = rg_term G a" "a \<noteq> e \<longrightarrow> rg_succs ?G' a = rg_succs G a"
    if "a \<in> set (rg_blocks G)" for a
  proof -
    have "a \<noteq> ?q" using that q by blast
    then show "rg_calls ?G' a = rg_calls G a" "rg_term ?G' a = rg_term G a" "a \<noteq> e \<longrightarrow> rg_succs ?G' a = rg_succs G a"
      using sub unfolding subdivides_def by simp_all
  qed
  have filt: "filter (in_loop l) (map (\<lambda>b. if b = t then ?q else b) ss) = filter (in_loop l) ss" for ss
    using t(3) loops(2) [of l] by (induction ss) auto
  have qB: "?q \<notin> ?B" using q sub0 by blast
  have old': "?ti b = ti1 b \<and> ?to b = to1 b \<and> rg_calls ?G' b = rg_calls G1 b \<and> rg_term ?G' b = rg_term G1 b
      \<and> (rg_succs ?G' b = []) = (rg_succs G1 b = []) \<and> set (rg_succs ?G' b) \<inter> ?B \<subseteq> set (rg_succs G1 b)
      \<and> filter (in_loop l) (rg_succs ?G' b) = filter (in_loop l) (rg_succs G1 b)" if b: "b \<in> ?B" for b
  proof -
    have bG: "b \<in> set (rg_blocks G)" using b sub0 by blast
    have s: "(rg_succs ?G' b = []) = (rg_succs G b = [])" "set (rg_succs ?G' b) \<inter> ?B \<subseteq> set (rg_succs G b) \<inter> ?B"
        "filter (in_loop l) (rg_succs ?G' b) = filter (in_loop l) (rg_succs G b)"
      using same(3) [OF bG] G'(4) qB filt by (cases "b = e"; auto)+
    have "?ti b = ti b" "?to b = to b" using b qB by auto
    then show ?thesis using old [OF b] same(1,2) [OF bG] s by (intro conjI) (simp_all, blast)
  qed
  have new': "block_fits ?ti ?to ?G' n \<and> rg_succs ?G' n \<noteq> [] \<and> set (rg_succs ?G' n) \<subseteq> ?B
      \<and> (\<forall>b \<in> set (rg_succs ?G' n). \<exists>a \<in> ?B. b \<in> set (rg_succs G1 a))" if n: "n \<in> set (rg_blocks ?G')" "n \<notin> ?B" for n
  proof (cases "n = ?q")
    case True
    have "\<exists>a \<in> ?B. t \<in> set (rg_succs G1 a)" using old [OF e(2)] t(1,2) e(2) by blast
    then show ?thesis using True run t(2) by (simp add: block_fits_def G'(2,3))
  next
    case False
    then have nG: "n \<in> set (rg_blocks G)" using n(1) G'(1) by auto
    have "n \<noteq> e" using n(2) e(2) by blast
    then show ?thesis using new [OF nG n(2)] same [OF nG] False by (simp add: block_fits_def)
  qed
  have s1: "\<forall>a \<in> ?B - insert e D. rg_succs ?G' a = rg_succs G1 a"
  proof
    fix a assume a: "a \<in> ?B - insert e D"
    have "rg_succs G a = rg_succs G1 a" using st a by (simp add: exits_stage_def Let_def)
    moreover have "a \<in> set (rg_blocks G)" "a \<noteq> e" using a sub0 by blast+
    ultimately show "rg_succs ?G' a = rg_succs G1 a" using same(3) [of a] by simp
  qed
  have s2: "\<forall>a \<in> D. a \<in> ?B \<and> set (rg_succs ?G' a) \<inter> ?B \<subseteq> {b. in_loop l b}"
  proof
    fix a assume a: "a \<in> D"
    have d: "a \<in> ?B" "set (rg_succs G a) \<inter> ?B \<subseteq> {b. in_loop l b}" using st a by (simp_all add: exits_stage_def Let_def)
    then have "a \<in> set (rg_blocks G)" "a \<noteq> e" using sub0 a e(3) by blast+
    then show "a \<in> ?B \<and> set (rg_succs ?G' a) \<inter> ?B \<subseteq> {b. in_loop l b}" using d same(3) [of a] by simp
  qed
  have s3: "body_entry l ?G' = Some f"
  proof -
    have "in_loop l ?h" "\<not> in_loop l ?q" using loops [of l] by simp_all
    then have "?h \<noteq> ?q" by metis
    then show ?thesis using body_entry_subdivides [OF sub, of l] loops [of l] be t(3) by simp
  qed
  have s4: "?B \<subseteq> set (rg_blocks ?G')" using sub0 G'(1) by auto
  have "exits_stage l P f G1 ti1 to1 (insert e D) D ?ti ?to ?G'"
    unfolding exits_stage_def Let_def
    by (intro conjI shape' fit' s1 s2 s3 s4; rule ballI) (use old' in \<open>assumption | blast\<close>, rule new', simp_all)
  then show ?thesis using q G'(4) by blast
qed

lemma pre_exits_step:
  assumes "exits_stage l P f G1 ti1 to1 (insert e D) D ti to G"
    and e: "in_loop l e" "e \<in> set (rg_blocks G1)" "e \<notin> D" and te: "to1 e = loop_out l r bd f (\<lambda>b. s1) e"
    and "distinct ts" "\<And>t. t \<in> set ts \<Longrightarrow> t \<in> set (rg_succs G e) \<and> t \<in> set (rg_blocks G1) \<and> \<not> in_loop l t \<and> ti1 t = s1"
    and "set (rg_succs G e) \<inter> set (rg_blocks G1) \<subseteq> {b. in_loop l b} \<union> set ts"
  shows "\<exists>ti' to'. exits_stage l P f G1 ti1 to1 (insert e D) (insert e D) ti' to' (fold (add_pre_exit True (\<lambda>_. False) l r bd e) ts G)"
  using assms(1,6-)
proof (induction ts arbitrary: ti to G)
  case Nil
  then have "exits_stage l P f G1 ti1 to1 (insert e D) (insert e D) ti to G" using e(2) by (auto simp: exits_stage_def Let_def)
  then show ?case by auto
next
  case (Cons t ts)
  let ?G' = "add_pre_exit True (\<lambda>_. False) l r bd e t G"
  have t: "t \<in> set (rg_succs G e)" "t \<in> set (rg_blocks G1)" "\<not> in_loop l t" "ti1 t = s1" using Cons.prems(3) [of t] by simp_all
  obtain q ti' to' where st: "exits_stage l P f G1 ti1 to1 (insert e D) D ti' to' ?G'" and q: "q \<notin> set (rg_blocks G)"
    and succs: "rg_succs ?G' e = map (\<lambda>b. if b = t then q else b) (rg_succs G e)"
    using exit_step [OF Cons.prems(1) e t(1-4) te] by blast
  have "set (rg_blocks G1) \<subseteq> set (rg_blocks G)" using Cons.prems(1) by (simp add: exits_stage_def Let_def)
  then have qB: "q \<notin> set (rg_blocks G1)" using q by blast
  have "\<exists>ti' to'. exits_stage l P f G1 ti1 to1 (insert e D) (insert e D) ti' to' (fold (add_pre_exit True (\<lambda>_. False) l r bd e) ts ?G')"
  proof (rule Cons.IH [OF st])
    show "distinct ts" using Cons.prems(2) by simp
    show "x \<in> set (rg_succs ?G' e) \<and> x \<in> set (rg_blocks G1) \<and> \<not> in_loop l x \<and> ti1 x = s1" if x: "x \<in> set ts" for x
    proof -
      have "x \<noteq> t" using Cons.prems(2) x by auto
      then show ?thesis using Cons.prems(3) [of x] x succs by auto
    qed
    show "set (rg_succs ?G' e) \<inter> set (rg_blocks G1) \<subseteq> {b. in_loop l b} \<union> set ts"
    proof
      fix x assume x: "x \<in> set (rg_succs ?G' e) \<inter> set (rg_blocks G1)"
      then have "x \<in> set (rg_succs G e)" "x \<noteq> t" using succs qB t by (auto split: if_splits)
      then show "x \<in> {b. in_loop l b} \<union> set ts" using Cons.prems(4) x by auto
    qed
  qed
  then show ?case by simp
qed

lemma exits_step:
  assumes "exits_stage l P f G1 ti1 to1 D D ti to G" and wn: "well_numbered G1"
    and "distinct es" "\<And>e. e \<in> set es \<Longrightarrow> in_loop l e \<and> e \<in> set (rg_blocks G1) \<and> e \<notin> D \<and> to1 e = loop_out l r bd f (\<lambda>b. s1) e
        \<and> (\<forall>t \<in> set (rg_succs G1 e). \<not> in_loop l t \<longrightarrow> ti1 t = s1)"
  shows "\<exists>ti' to'. exits_stage l P f G1 ti1 to1 (D \<union> set es) (D \<union> set es) ti' to' (fold (add_pre_exits True (\<lambda>_. False) l r bd) es G)"
  using assms(1,3-)
proof (induction es arbitrary: D ti to G)
  case Nil
  then show ?case by auto
next
  case (Cons e es)
  have e: "in_loop l e" "e \<in> set (rg_blocks G1)" "e \<notin> D" "to1 e = loop_out l r bd f (\<lambda>b. s1) e"
    "\<forall>t \<in> set (rg_succs G1 e). \<not> in_loop l t \<longrightarrow> ti1 t = s1" using Cons.prems(3) [of e] by simp_all
  let ?ts = "exit_targets l e G" and ?G' = "add_pre_exits True (\<lambda>_. False) l r bd e G"
  have st: "exits_stage l P f G1 ti1 to1 (insert e D) D ti to G" using Cons.prems(1) by (simp add: exits_stage_def Let_def)
  have succs: "rg_succs G e = rg_succs G1 e" using Cons.prems(1) e(2,3) by (simp add: exits_stage_def Let_def)
  have "set (rg_succs G1 e) \<subseteq> set (rg_blocks G1)" using wn e(2) by (auto simp: well_numbered_def)
  then have ts: "t \<in> set (rg_succs G e) \<and> t \<in> set (rg_blocks G1) \<and> \<not> in_loop l t \<and> ti1 t = s1" if "t \<in> set ?ts" for t
    using that e(5) by (auto simp: exit_targets_def succs)
  have "set (rg_succs G e) \<inter> set (rg_blocks G1) \<subseteq> {b. in_loop l b} \<union> set ?ts" by (auto simp: exit_targets_def)
  from pre_exits_step [OF st e(1-4) _ ts this] obtain ti' to' where
    st': "exits_stage l P f G1 ti1 to1 (insert e D) (insert e D) ti' to' ?G'"
    by (auto simp: exit_targets_def add_pre_exits_def)
  have "\<exists>ti' to'. exits_stage l P f G1 ti1 to1 (insert e D \<union> set es) (insert e D \<union> set es) ti' to' (fold (add_pre_exits True (\<lambda>_. False) l r bd) es ?G')"
  proof (rule Cons.IH [OF st'])
    show "distinct es" using Cons.prems(2) by simp
    show "in_loop l x \<and> x \<in> set (rg_blocks G1) \<and> x \<notin> insert e D \<and> to1 x = loop_out l r bd f (\<lambda>b. s1) x
        \<and> (\<forall>t \<in> set (rg_succs G1 x). \<not> in_loop l t \<longrightarrow> ti1 t = s1)" if "x \<in> set es" for x
      using Cons.prems(2,3) that by auto
  qed
  then show ?case by simp
qed

end
