(* ===== verification/RegionNesting.thy ===== *)
theory RegionNesting
  imports RegionPassSpec
begin

text \<open>
  One loop after the other is instrumented; the stacks that fit are carried along, and at the end every path
  through the function is properly nested.
\<close>

section \<open>The regions of a loop\<close>

text \<open>Inside a loop that is still to be instrumented nothing changes the stack but the calls that wait in its header.\<close>

lemma pending_stack:
  assumes fit: "regions_fit (l # P) ti to G" and e: "in_loop l e"
  shows "to e = to (loop_header l)"
proof (cases "e = loop_header l")
  case False
  have "e \<in> set (rg_blocks G)" using fit e by (auto simp: regions_fit_def loops_shape_def loop_shape_def in_loop_def)
  then have "run_regions (rg_calls G e) (ti e) = Some (to e)" using fit by (simp add: regions_fit_def block_fits_def)
  moreover have "rg_calls G e = []" using fit e False by (simp add: regions_fit_def pending_calls_def)
  moreover have "ti e = to (loop_header l)" using fit e False by (simp add: regions_fit_def pending_stacks_def)
  ultimately show ?thesis by simp
qed simp

lemma pending_target:
  assumes fit: "regions_fit (l # P) ti to G" and e: "in_loop l e" and t: "t \<in> set (rg_succs G e)" "\<not> in_loop l t"
  shows "ti t = to (loop_header l)"
proof -
  have shape: "loops_shape (l # P) G" and ed: "edges_fit (l # P) ti to (\<lambda>a b. False) G" using fit by (simp_all add: regions_fit_def)
  have h: "in_loop l (loop_header l)" using shape by (simp add: loops_shape_def loop_shape_def)
  have "e \<in> set (rg_blocks G)" using shape e by (auto simp: loops_shape_def loop_shape_def in_loop_def)
  then have "edge_fits (l # P) ti to e t" using ed t(1) unfolding edges_fit_def by blast
  moreover have "\<not> back_edge (l # P) e t"
  proof
    assume "back_edge (l # P) e t"
    then have "back_edge P e t" using t(2) h by (auto simp: back_edge_def)
    then show False using back_edge_inside [OF shape, of e t] e t(2) by blast
  qed
  ultimately show ?thesis using pending_stack [OF fit e] by (simp add: edge_fits_def)
qed

lemma exiting_block_distinct:
  "distinct (loop_blocks l) \<Longrightarrow> distinct (exiting_blocks l G)"
  by (simp add: exiting_blocks_def)

lemma loop_exits:
  assumes fit: "regions_fit (l # P) ti to G" and f: "body_entry l G = Some f"
  shows "\<exists>G1 G2 ti2 to2. add_preheader l r G = Some G1 \<and> G2 = fold (add_pre_exits True (\<lambda>_. False) l r bd) (exiting_blocks l G1) G1
    \<and> loops_shape (l # P) G2 \<and> body_entry l G2 = Some f
    \<and> edges_fit P ti2 to2 (\<lambda>a b. in_loop l a \<and> b = loop_header l \<and> length (loop_blocks l) \<noteq> 1) G2
    \<and> set (rg_blocks G) \<subseteq> set (rg_blocks G2)
    \<and> (\<forall>b \<in> set (rg_blocks G). ti2 b = loop_in l r bd f ti to b \<and> to2 b = loop_out l r bd f to b
         \<and> rg_calls G2 b = (if b = loop_header l then [] else rg_calls G b) \<and> (rg_succs G2 b = []) = (rg_succs G b = []))
    \<and> (\<forall>n \<in> set (rg_blocks G2) - set (rg_blocks G). block_fits ti2 to2 G2 n \<and> rg_succs G2 n \<noteq> [])
    \<and> (\<forall>a \<in> set (rg_blocks G2). \<forall>b \<in> set (rg_succs G2 a) \<inter> set (rg_blocks G).
         in_loop l b \<or> (\<exists>a \<in> set (rg_blocks G). b \<in> set (rg_succs G a)))"
proof -
  let ?h = "loop_header l" and ?to = "loop_out l r bd f to" and ?w = "(r, RegionLoop) # to (loop_header l)"
  have shape: "loops_shape (l # P) G" using fit by (simp add: regions_fit_def)
  then have ls: "loop_shape (l # P) l G" and wn: "well_numbered G" by (simp_all add: loops_shape_def)
  from ls have lb: "distinct (loop_blocks l)" "in_loop l ?h" "set (loop_blocks l) \<subseteq> set (rg_blocks G)" by (simp_all add: loop_shape_def)
  have inG: "b \<in> set (rg_blocks G)" if "in_loop l b" for b using that lb(3) by (auto simp: in_loop_def)
  obtain p G1 where pre: "add_preheader l r G = Some G1" and p: "p \<notin> set (rg_blocks G)" and bl1: "rg_blocks G1 = rg_blocks G @ [p]"
    and shape1: "loops_shape (l # P) G1" and be1: "body_entry l G1 = Some f"
    and fit1: "edges_fit P ((loop_in l r bd f ti to)(p := ti ?h)) (?to(p := ?w)) (unfinished l (set (rg_blocks G1))) G1"
    and cp: "rg_calls G1 p = rg_calls G ?h @ [Region (KEnterRegion r RegionLoop)]"
    and ch: "rg_calls G1 ?h = []" and cb: "\<forall>b \<in> set (rg_blocks G) - {?h}. rg_calls G1 b = rg_calls G b"
    and sp: "rg_succs G1 p = [?h]"
    and old1: "\<forall>a \<in> set (rg_blocks G). (rg_succs G1 a = []) = (rg_succs G a = []) \<and> rg_term G1 a = rg_term G a
         \<and> set (rg_succs G1 a) \<subseteq> insert p (set (rg_succs G a)) \<and> (in_loop l a \<longrightarrow> rg_succs G1 a = rg_succs G a)"
    using preheader_stage [OF fit f, of r bd] by blast
  let ?ti1 = "(loop_in l r bd f ti to)(p := ti ?h)" and ?to1 = "?to(p := ?w)" and ?B = "set (rg_blocks G1)"
  have B: "?B = insert p (set (rg_blocks G))" using bl1 by auto
  have wn1: "well_numbered G1" using shape1 by (simp add: loops_shape_def)
  have st: "exits_stage l P f G1 ?ti1 ?to1 {} {} ?ti1 ?to1 G1"
    unfolding exits_stage_def Let_def using shape1 fit1 be1 by simp
  let ?es = "exiting_blocks l G1" and ?G2 = "fold (add_pre_exits True (\<lambda>_. False) l r bd) (exiting_blocks l G1) G1"
  have es: "in_loop l e \<and> e \<in> ?B \<and> e \<notin> {} \<and> ?to1 e = loop_out l r bd f (\<lambda>b. to ?h) e
      \<and> (\<forall>t \<in> set (rg_succs G1 e). \<not> in_loop l t \<longrightarrow> ?ti1 t = to ?h)" if "e \<in> set ?es" for e
  proof -
    have e: "in_loop l e" using that by (auto simp: exiting_blocks_def in_loop_def)
    have eG: "e \<in> set (rg_blocks G)" by (rule inG [OF e])
    have ep: "e \<noteq> p" using eG p by blast
    have "?to1 e = loop_out l r bd f (\<lambda>b. to ?h) e" using e ep by (simp add: loop_out_def)
    moreover have "?ti1 t = to ?h" if t: "t \<in> set (rg_succs G1 e)" "\<not> in_loop l t" for t
    proof -
      have tG: "t \<in> set (rg_succs G e)" using old1 eG e t(1) by auto
      then have "t \<in> set (rg_blocks G)" using wn eG unfolding well_numbered_def by blast
      then have "t \<noteq> p" using p by blast
      then show ?thesis using pending_target [OF fit e tG t(2)] t(2) by (simp add: loop_in_def)
    qed
    ultimately show ?thesis using e eG B by auto
  qed
  have "\<exists>ti2 to2. exits_stage l P f G1 ?ti1 ?to1 ({} \<union> set ?es) ({} \<union> set ?es) ti2 to2 ?G2"
    by (rule exits_step [OF st wn1 exiting_block_distinct [OF lb(1)] es])
  then obtain ti2 to2 where st2: "exits_stage l P f G1 ?ti1 ?to1 (set ?es) (set ?es) ti2 to2 ?G2" by auto
  have shape2: "loops_shape (l # P) ?G2" and be2: "body_entry l ?G2 = Some f"
    and fit2: "edges_fit P ti2 to2 (unfinished l ?B) ?G2" and sub2: "?B \<subseteq> set (rg_blocks ?G2)"
    using st2 by (simp_all add: exits_stage_def Let_def)
  have old2: "ti2 b = ?ti1 b \<and> to2 b = ?to1 b \<and> rg_calls ?G2 b = rg_calls G1 b \<and> (rg_succs ?G2 b = []) = (rg_succs G1 b = [])
      \<and> set (rg_succs ?G2 b) \<inter> ?B \<subseteq> set (rg_succs G1 b)" if "b \<in> ?B" for b
    using st2 that by (simp add: exits_stage_def Let_def)
  have new2: "block_fits ti2 to2 ?G2 n \<and> rg_succs ?G2 n \<noteq> [] \<and> (\<forall>b \<in> set (rg_succs ?G2 n). \<exists>a \<in> ?B. b \<in> set (rg_succs G1 a))"
    if "n \<in> set (rg_blocks ?G2)" "n \<notin> ?B" for n
    using st2 that by (simp add: exits_stage_def Let_def)
  have inside: "in_loop l b" if a: "in_loop l a" "b \<in> set (rg_succs ?G2 a)" "b \<in> ?B" for a b
  proof (cases "a \<in> set ?es")
    case True
    then have "set (rg_succs ?G2 a) \<inter> ?B \<subseteq> {b. in_loop l b}" using st2 by (simp add: exits_stage_def Let_def)
    then show ?thesis using a by blast
  next
    case False
    have aB: "a \<in> ?B" using inG [OF a(1)] B by blast
    then have "rg_succs ?G2 a = rg_succs G1 a" using st2 False by (simp add: exits_stage_def Let_def)
    moreover have "exit_targets l a G1 = []" using False a(1) by (auto simp: exiting_blocks_def in_loop_def)
    then have "set (exit_targets l a G1) = {}" by simp
    ultimately show ?thesis using a(2) by (auto simp: exit_targets_def)
  qed
  have fit3: "edges_fit P ti2 to2 (\<lambda>a b. in_loop l a \<and> b = ?h \<and> length (loop_blocks l) \<noteq> 1) ?G2"
    unfolding edges_fit_def
  proof (intro ballI impI)
    fix a b assume a: "a \<in> set (rg_blocks ?G2)" "b \<in> set (rg_succs ?G2 a)" and nb: "\<not> (in_loop l a \<and> b = ?h \<and> length (loop_blocks l) \<noteq> 1)"
    have "\<not> unfinished l ?B a b" using nb inside [of a b] a(2) by (auto simp: unfinished_def)
    then show "edge_fits P ti2 to2 a b" using fit2 a unfolding edges_fit_def by blast
  qed
  have o: "ti2 b = loop_in l r bd f ti to b \<and> to2 b = ?to b \<and> rg_calls ?G2 b = (if b = ?h then [] else rg_calls G b)
      \<and> (rg_succs ?G2 b = []) = (rg_succs G b = [])" if b: "b \<in> set (rg_blocks G)" for b
  proof -
    have "b \<noteq> p" "b \<in> ?B" using b p B by blast+
    then show ?thesis using old2 [of b] ch cb old1 b by auto
  qed
  have n: "block_fits ti2 to2 ?G2 n \<and> rg_succs ?G2 n \<noteq> []" if n: "n \<in> set (rg_blocks ?G2)" "n \<notin> set (rg_blocks G)" for n
  proof (cases "n = p")
    case True
    have hb: "block_fits ti to G ?h" using fit inG [OF lb(2)] by (simp add: regions_fit_def)
    have pB: "p \<in> ?B" using B by blast
    have "block_fits ti2 to2 ?G2 p" using old2 [OF pB] hb by (simp add: block_fits_def cp run_regions_append)
    then show ?thesis using True old2 [OF pB] sp by simp
  next
    case False
    then show ?thesis using new2 [of n] n B by blast
  qed
  have step: "in_loop l b \<or> (\<exists>a \<in> set (rg_blocks G). b \<in> set (rg_succs G a))"
    if a: "a \<in> ?B" "b \<in> set (rg_succs G1 a)" "b \<in> set (rg_blocks G)" for a b
  proof (cases "a = p")
    case True
    then show ?thesis using a(2) sp lb(2) by simp
  next
    case False
    then have aG: "a \<in> set (rg_blocks G)" using a(1) B by blast
    then have "b \<in> insert p (set (rg_succs G a))" using old1 a(2) by blast
    then show ?thesis using aG p a(3) by blast
  qed
  have t: "in_loop l b \<or> (\<exists>a \<in> set (rg_blocks G). b \<in> set (rg_succs G a))"
    if a: "a \<in> set (rg_blocks ?G2)" "b \<in> set (rg_succs ?G2 a)" "b \<in> set (rg_blocks G)" for a b
  proof (cases "a \<in> ?B")
    case True
    then have "b \<in> set (rg_succs G1 a)" using old2 [OF True] a B by blast
    then show ?thesis using step [OF True] a(3) by blast
  next
    case False
    then show ?thesis using new2 [OF a(1) False] a(2,3) step by blast
  qed
  have "set (rg_blocks G) \<subseteq> set (rg_blocks ?G2)" using sub2 B by blast
  then show ?thesis using pre shape2 be2 fit3 o n t by (intro exI [of _ G1] exI [of _ ?G2] exI [of _ ti2] exI [of _ to2] conjI) simp_all
qed


text \<open>The calls in the blocks of \<open>G\<close> after the loop has been instrumented, its body entered at \<open>f\<close>.\<close>

definition final_calls :: "Loop \<Rightarrow> SID \<Rightarrow> Block \<Rightarrow> RegionCfg \<Rightarrow> Block \<Rightarrow> api_event list" where
  "final_calls l bd f G b = (if b = f then [Region (KEnterRegion bd RegionLoopBody)] else [])
     @ (if b = loop_header l then [] else rg_calls G b)
     @ (if b = loop_header l \<and> length (loop_blocks l) = 1 then [Region (KExitRegion bd RegionLoopBody)] else [])"

lemma first_of_body:
  assumes shape: "loops_shape (l # P) G" and f: "body_entry l G = Some f"
  shows "in_loop l f" "length (loop_blocks l) = 1 \<Longrightarrow> f = loop_header l"
    "m \<in> set P \<Longrightarrow> in_loop m f \<Longrightarrow> f = loop_header m"
proof -
  have ls: "loop_shape (l # P) l G" "well_numbered G" using shape by (simp_all add: loops_shape_def)
  note be = body_entry_some [OF ls(2,1)]
  show fl: "in_loop l f" "length (loop_blocks l) = 1 \<Longrightarrow> f = loop_header l" using be f by auto
  assume m: "m \<in> set P" "in_loop m f"
  have "\<not> in_loop m (loop_header l)" using inner_loop [of l P m f] shape m fl(1) by (simp add: loops_shape_def)
  then have "f \<in> set (rg_succs G (loop_header l))" using be f m(2) by auto
  moreover have "loop_header l \<in> set (rg_blocks G)" using ls(1) by (auto simp: loop_shape_def in_loop_def)
  moreover have "loop_shape (l # P) m G" using shape m(1) by (simp add: loops_shape_def)
  then have "single_entry m G" by (simp add: loop_shape_def)
  ultimately show "f = loop_header m" using m(2) \<open>\<not> in_loop m (loop_header l)\<close> unfolding single_entry_def by blast
qed

lemma final_calls_run:
  assumes fit: "regions_fit (l # P) ti to G" and f: "body_entry l G = Some f" and b: "b \<in> set (rg_blocks G)"
  shows "run_regions (final_calls l bd f G b) (loop_in l r bd f ti to b) = Some (loop_out l r bd f to b)"
proof -
  have shape: "loops_shape (l # P) G" using fit by (simp add: regions_fit_def)
  have h: "in_loop l (loop_header l)" using shape by (simp add: loops_shape_def loop_shape_def)
  note ff = first_of_body [OF shape f]
  have c: "rg_calls G b = []" if "in_loop l b" "b \<noteq> loop_header l" using fit that by (simp add: regions_fit_def pending_calls_def)
  show ?thesis
  proof (cases "in_loop l b")
    case False
    then have "b \<noteq> f" "b \<noteq> loop_header l" using ff(1) h by blast+
    then have "final_calls l bd f G b = rg_calls G b" by (simp add: final_calls_def)
    moreover have "run_regions (rg_calls G b) (ti b) = Some (to b)" using fit b by (simp add: regions_fit_def block_fits_def)
    ultimately show ?thesis using False by (simp add: loop_in_def loop_out_def)
  next
    case True
    show ?thesis
    proof (cases "b = loop_header l")
      case True
      then show ?thesis using h ff(2) by (auto simp: final_calls_def loop_in_def loop_out_def)
    next
      case False
      then show ?thesis using True c ff(2) by (auto simp: final_calls_def loop_in_def loop_out_def)
    qed
  qed
qed

lemma pending_kept:
  assumes fit: "regions_fit (l # P) ti to G" and f: "body_entry l G = Some f"
    and G': "\<And>b. b \<in> set (rg_blocks G) \<Longrightarrow> rg_calls G' b = final_calls l bd f G b"
    and tis: "\<And>b. b \<in> set (rg_blocks G) \<Longrightarrow> ti' b = loop_in l r bd f ti to b \<and> to' b = loop_out l r bd f to b"
  shows "pending_calls P G' \<and> pending_stacks P ti' to'"
proof -
  have shape: "loops_shape (l # P) G" using fit by (simp add: regions_fit_def)
  then have nl: "nested_loops (l # P)" and h: "in_loop l (loop_header l)" by (simp_all add: loops_shape_def loop_shape_def)
  have "((\<forall>b. in_loop m b \<and> b \<noteq> loop_header m \<longrightarrow> rg_calls G' b = []) \<and> list_all is_enter (rg_calls G' (loop_header m)))
      \<and> (\<forall>b. in_loop m b \<and> b \<noteq> loop_header m \<longrightarrow> ti' b = to' (loop_header m))" if m: "m \<in> set P" for m
  proof -
    let ?k = "loop_header m"
    have "loop_shape (l # P) m G" using shape m by (simp add: loops_shape_def)
    then have k: "in_loop m ?k" and mG: "\<And>b. in_loop m b \<Longrightarrow> b \<in> set (rg_blocks G)" by (auto simp: loop_shape_def in_loop_def)
    have nh: "\<not> in_loop m (loop_header l)" using inner_loop [OF nl m, of "loop_header l"] h by blast
    have pc: "rg_calls G b = []" if "in_loop m b" "b \<noteq> ?k" for b using fit m that by (simp add: regions_fit_def pending_calls_def)
    have pk: "list_all is_enter (rg_calls G ?k)" using fit m by (simp add: regions_fit_def pending_calls_def)
    have bh: "b \<noteq> loop_header l" if "in_loop m b" for b using that nh by blast
    have bf: "b \<noteq> f" if "in_loop m b" "b \<noteq> ?k" for b using first_of_body(3) [OF shape f m] that by blast
    have "rg_calls G' b = []" if "in_loop m b" "b \<noteq> ?k" for b
      using G' [OF mG [OF that(1)]] bh [OF that(1)] bf [OF that] pc [OF that] by (simp add: final_calls_def)
    moreover have "list_all is_enter (rg_calls G' ?k)"
      using G' [OF mG [OF k]] bh [OF k] pk by (simp add: final_calls_def)
    moreover have "ti' b = to' ?k" if b: "in_loop m b" "b \<noteq> ?k" for b
    proof (cases "in_loop l ?k")
      case True
      then have "in_loop l b" using inner_loop [OF nl m True k] b(1) by blast
      then show ?thesis using tis [OF mG [OF b(1)]] tis [OF mG [OF k]] bh [OF b(1)] bh [OF k] bf [OF b] True
        by (simp add: loop_in_def loop_out_def)
    next
      case False
      then have "\<not> in_loop l b" using inner_loop [OF nl m, of b] b(1) k by blast
      moreover have "ti b = to ?k" using fit m b by (simp add: regions_fit_def pending_stacks_def)
      ultimately show ?thesis using tis [OF mG [OF b(1)]] tis [OF mG [OF k]] False by (simp add: loop_in_def loop_out_def)
    qed
    ultimately show ?thesis by blast
  qed
  then show ?thesis unfolding pending_calls_def pending_stacks_def by blast
qed

text \<open>What happens to a block outside the loop.\<close>

definition untouched :: "(Block \<Rightarrow> RegionStack) \<Rightarrow> (Block \<Rightarrow> RegionStack) \<Rightarrow> RegionCfg
    \<Rightarrow> (Block \<Rightarrow> RegionStack) \<Rightarrow> (Block \<Rightarrow> RegionStack) \<Rightarrow> RegionCfg \<Rightarrow> Block \<Rightarrow> bool" where
  "untouched ti to G ti' to' G' x \<longleftrightarrow> x \<in> set (rg_blocks G') \<and> ti' x = ti x \<and> to' x = to x \<and> rg_calls G' x = rg_calls G x
     \<and> (rg_succs G' x = []) = (rg_succs G x = [])
     \<and> ((\<forall>a \<in> set (rg_blocks G). x \<notin> set (rg_succs G a)) \<longrightarrow> (\<forall>a \<in> set (rg_blocks G'). x \<notin> set (rg_succs G' a)))"

definition same_ends :: "RegionCfg \<Rightarrow> RegionCfg \<Rightarrow> bool" where
  "same_ends G G' \<longleftrightarrow> (\<forall>b \<in> set (rg_blocks G'). rg_succs G' b = [] \<longrightarrow> b \<in> set (rg_blocks G) \<and> rg_succs G b = [])"


lemma cont_subdivides:
  assumes wn: "well_numbered G" and h: "loop_header l \<in> set (rg_blocks G)" and f: "body_entry l G = Some f"
    and many: "length (loop_blocks l) \<noteq> 1" and nl: "\<not> in_loop l (rg_next_block G)"
  shows "\<exists>c G'. add_body l bd G = Some G' \<and> subdivides (\<lambda>a. a \<in> set (rg_blocks G) \<and> in_loop l a) c (loop_header l)
    [Region (KExitRegion bd RegionLoopBody)] (put_first f (Region (KEnterRegion bd RegionLoopBody)) G) G'"
proof -
  let ?h = "loop_header l" and ?x = "[Region (KExitRegion bd RegionLoopBody)]"
  let ?G = "put_first f (Region (KEnterRegion bd RegionLoopBody)) G"
  have wn1: "well_numbered ?G" and h1: "?h \<in> set (rg_blocks ?G)" using wn h by (simp_all add: put_first_def well_numbered_def)
  obtain c G1 where c: "create_block [?h] ?x ?G = (c, G1)" by (cases "create_block [?h] ?x ?G")
  then have cn: "c = rg_next_block G" by (simp add: create_block_def put_first_def Let_def)
  have "[?h] = [] \<or> True \<and> \<not> in_loop l c" using nl cn by simp
  from replace_subdivides [OF wn1 h1 c this] obtain G2 where G2: "replaceAllJumps ?h c l True G1 = Some G2"
    "subdivides (\<lambda>a. a \<in> set (rg_blocks ?G) \<and> in_loop l a = True) c ?h ?x ?G (G2\<lparr>rg_succs := (rg_succs G2)(c := [?h])\<rparr>)"
    "rg_succs G2 c = [?h]" by blast
  have "G2\<lparr>rg_succs := (rg_succs G2)(c := [?h])\<rparr> = G2" using G2(3) by (simp add: fun_upd_idem)
  then have "subdivides (\<lambda>a. a \<in> set (rg_blocks G) \<and> in_loop l a) c ?h ?x ?G (promotePHIsToOtherBlock ?h c G2)"
    using G2(2) by (subst subdivides_phis [where H = G2]) (simp_all add: put_first_def)
  moreover have "add_body l bd G = Some (promotePHIsToOtherBlock ?h c G2)"
    using f many c G2(1) by (simp add: add_body_def Let_def)
  ultimately show ?thesis by blast
qed

lemma body_stage:
  assumes fit: "regions_fit (l # P) ti to G" and f: "body_entry l G = Some f"
    and shape2: "loops_shape (l # P) G2" and be2: "body_entry l G2 = Some f"
    and fit2: "edges_fit P ti2 to2 (\<lambda>a b. in_loop l a \<and> b = loop_header l \<and> length (loop_blocks l) \<noteq> 1) G2"
    and sub2: "set (rg_blocks G) \<subseteq> set (rg_blocks G2)"
    and old: "\<And>b. b \<in> set (rg_blocks G) \<Longrightarrow> ti2 b = loop_in l r bd f ti to b \<and> to2 b = loop_out l r bd f to b
         \<and> rg_calls G2 b = (if b = loop_header l then [] else rg_calls G b) \<and> (rg_succs G2 b = []) = (rg_succs G b = [])"
    and new: "\<And>n. n \<in> set (rg_blocks G2) \<Longrightarrow> n \<notin> set (rg_blocks G) \<Longrightarrow> block_fits ti2 to2 G2 n \<and> rg_succs G2 n \<noteq> []"
  shows "\<exists>G3 ti3 to3. add_body l bd G2 = Some G3 \<and> loops_shape P G3 \<and> edges_fit P ti3 to3 (\<lambda>a b. False) G3
    \<and> set (rg_blocks G2) \<subseteq> set (rg_blocks G3)
    \<and> (\<forall>b \<in> set (rg_blocks G). ti3 b = ti2 b \<and> to3 b = to2 b \<and> rg_calls G3 b = final_calls l bd f G b)
    \<and> (\<forall>b \<in> set (rg_blocks G2). (rg_succs G3 b = []) = (rg_succs G2 b = []))
    \<and> (\<forall>n \<in> set (rg_blocks G3) - set (rg_blocks G). block_fits ti3 to3 G3 n)
    \<and> (\<forall>n \<in> set (rg_blocks G3) - set (rg_blocks G2). rg_succs G3 n \<noteq> [])
    \<and> (\<forall>a \<in> set (rg_blocks G3). \<forall>b \<in> set (rg_succs G3 a) \<inter> set (rg_blocks G2). in_loop l b \<or> (\<exists>a \<in> set (rg_blocks G2). b \<in> set (rg_succs G2 a)))"
proof -
  let ?h = "loop_header l" and ?Gf = "put_first f (Region (KEnterRegion bd RegionLoopBody)) G2"
  have shape: "loops_shape (l # P) G" using fit by (simp add: regions_fit_def)
  have h: "in_loop l ?h" and lG: "\<And>b. in_loop l b \<Longrightarrow> b \<in> set (rg_blocks G)"
    using shape by (auto simp: loops_shape_def loop_shape_def in_loop_def)
  note fl = first_of_body [OF shape f]
  have wn2: "well_numbered G2" and ls2: "loop_shape (l # P) l G2" using shape2 by (simp_all add: loops_shape_def)
  have Gf: "rg_blocks ?Gf = rg_blocks G2" "rg_succs ?Gf = rg_succs G2" "rg_term ?Gf = rg_term G2" "rg_next_block ?Gf = rg_next_block G2"
    "loops_shape X ?Gf = loops_shape X G2" "edges_fit X t u Bad ?Gf = edges_fit X t u Bad G2" for X t u Bad
    by (simp_all add: put_first_def)
  have fG: "f \<in> set (rg_blocks G)" by (rule lG [OF fl(1)])
  have callsf: "rg_calls ?Gf b = (if b = f then [Region (KEnterRegion bd RegionLoopBody)] else []) @ (if b = ?h then [] else rg_calls G b)"
    if "b \<in> set (rg_blocks G)" for b
    using old [OF that] by (cases "b = f"; cases "b = ?h") (simp_all add: put_first_def)
  have newf: "block_fits ti2 to2 ?Gf n" if "n \<in> set (rg_blocks G2)" "n \<notin> set (rg_blocks G)" for n
  proof -
    have "n \<noteq> f" using fG that(2) by blast
    then show ?thesis using new [OF that] by (simp add: block_fits_def put_first_def)
  qed
  show ?thesis
  proof (cases "length (loop_blocks l) = 1")
    case one: True
    let ?G3 = "put_last ?h (Region (KExitRegion bd RegionLoopBody)) ?Gf"
    have b: "add_body l bd G2 = Some ?G3" using be2 one by (simp add: add_body_def Let_def)
    have "loops_shape P ?G3" using shape_tail [OF shape2] by (simp add: put_last_def put_first_def)
    moreover have "edges_fit P ti2 to2 (\<lambda>a b. False) ?G3" using fit2 one by (simp add: put_last_def put_first_def)
    moreover have "\<forall>b \<in> set (rg_blocks G). rg_calls ?G3 b = final_calls l bd f G b"
      using callsf one by (simp add: put_last_def final_calls_def)
    moreover have "\<forall>n \<in> set (rg_blocks ?G3) - set (rg_blocks G). block_fits ti2 to2 ?G3 n"
    proof
      fix n assume n: "n \<in> set (rg_blocks ?G3) - set (rg_blocks G)"
      then have "n \<noteq> ?h" using lG [OF h] by blast
      then show "block_fits ti2 to2 ?G3 n" using newf [of n] n by (simp add: block_fits_def put_last_def Gf)
    qed
    moreover have "rg_blocks ?G3 = rg_blocks G2" "rg_succs ?G3 = rg_succs G2" by (simp_all add: put_last_def Gf)
    ultimately show ?thesis using b by (intro exI [of _ ?G3] exI [of _ ti2] exI [of _ to2] conjI) auto
  next
    case many: False
    have hG2: "?h \<in> set (rg_blocks G2)" using lG [OF h] sub2 by blast
    have nn: "\<not> in_loop l (rg_next_block G2)" using wn2 lG sub2 by (auto simp: well_numbered_def)
    obtain c G3 where b: "add_body l bd G2 = Some G3" and sub: "subdivides (\<lambda>a. a \<in> set (rg_blocks G2) \<and> in_loop l a) c ?h
      [Region (KExitRegion bd RegionLoopBody)] ?Gf G3" using cont_subdivides [OF wn2 hG2 be2 many nn] by blast
    have wnf: "well_numbered ?Gf" using wn2 by (simp add: put_first_def well_numbered_def)
    have c: "c \<notin> set (rg_blocks G2)" "rg_blocks G3 = rg_blocks G2 @ [c]"
      using sub wn2 by (auto simp: subdivides_def well_numbered_def Gf)
    have nl: "nested_loops (l # P)" using shape by (simp add: loops_shape_def)
    have mh: "\<not> in_loop m ?h" if "m \<in> set P" for m using inner_loop [OF nl that, of ?h] h by blast
    have shapeP: "loops_shape P ?Gf" using shape_tail [OF shape2] by (simp add: Gf)
    have hf: "?h \<in> set (rg_blocks ?Gf)" using hG2 by (simp add: Gf)
    have shape3: "loops_shape P G3" by (rule subdivided_shape [OF sub shapeP hf]) (use mh in blast)
    have mc: "\<not> in_loop m c" "in_loop m (loop_header m)" if "m \<in> set P" for m
      using shapeP that c(1) by (auto simp: loops_shape_def loop_shape_def in_loop_def Gf)
    have nb: "\<not> back_edge P x ?h" "\<not> back_edge P x c" for x using mc mh by (force simp: back_edge_def)+
    let ?w = "(r, RegionLoop) # to ?h"
    let ?ti = "ti2(c := (bd, RegionLoopBody) # ?w)" and ?to = "to2(c := ?w)"
    have tih: "?w = ti2 ?h" using old [OF lG [OF h]] h by (simp add: loop_in_def)
    have backs: "to2 a = (bd, RegionLoopBody) # ?w" if a: "in_loop l a" "?h \<in> set (rg_succs G2 a)" for a
    proof -
      have "\<not> (a = ?h \<and> f \<noteq> ?h)"
      proof
        assume ah: "a = ?h \<and> f \<noteq> ?h"
        then have "\<forall>b \<in> set (rg_succs G2 ?h). in_loop l b \<longrightarrow> b = f" using body_entry_some [OF wn2 ls2] be2 by auto
        then show False using ah a(2) h by blast
      qed
      then show ?thesis using old [OF lG [OF a(1)]] a(1) many by (auto simp: loop_out_def)
    qed
    have fit3: "edges_fit P ?ti ?to (\<lambda>a b. False) G3"
    proof (rule subdivided_fit [OF sub wnf _ hf])
      show "edges_fit P ti2 to2 (\<lambda>a b. in_loop l a \<and> b = ?h \<and> length (loop_blocks l) \<noteq> 1) ?Gf" using fit2 by (simp add: Gf)
      show "to2 a = (bd, RegionLoopBody) # ?w" if "a \<in> set (rg_blocks ?Gf)" "a \<in> set (rg_blocks G2) \<and> in_loop l a" "?h \<in> set (rg_succs ?Gf a)" for a
        using backs [of a] that by (simp add: Gf)
    qed (use nb tih in \<open>auto simp: Gf\<close>)
    have same: "rg_calls G3 a = rg_calls ?Gf a" "rg_succs G3 a = [] \<longleftrightarrow> rg_succs G2 a = []"
      "set (rg_succs G3 a) \<subseteq> insert c (set (rg_succs G2 a))" if "a \<in> set (rg_blocks G2)" for a
    proof -
      have ac: "a \<noteq> c" using that c(1) by blast
      then show "rg_calls G3 a = rg_calls ?Gf a" using sub unfolding subdivides_def by blast
      have "rg_succs G3 a = (if a \<in> set (rg_blocks G2) \<and> in_loop l a then map (\<lambda>b. if b = ?h then c else b) (rg_succs G2 a) else rg_succs G2 a)"
        using sub ac by (auto simp: subdivides_def Gf(2))
      then show "rg_succs G3 a = [] \<longleftrightarrow> rg_succs G2 a = []" "set (rg_succs G3 a) \<subseteq> insert c (set (rg_succs G2 a))" by auto
    qed
    have Gc: "rg_calls G3 c = [Region (KExitRegion bd RegionLoopBody)]" "rg_succs G3 c = [?h]" using sub unfolding subdivides_def by blast+
    have o: "?ti b = ti2 b \<and> ?to b = to2 b \<and> rg_calls G3 b = final_calls l bd f G b" if "b \<in> set (rg_blocks G)" for b
    proof -
      have "b \<noteq> c" "b \<in> set (rg_blocks G2)" using that sub2 c(1) by blast+
      then show ?thesis using same(1) [of b] callsf [OF that] many by (simp add: final_calls_def)
    qed
    have n: "block_fits ?ti ?to G3 n" if "n \<in> set (rg_blocks G3)" "n \<notin> set (rg_blocks G)" for n
    proof (cases "n = c")
      case True
      then show ?thesis by (simp add: block_fits_def Gc)
    next
      case False
      then have "n \<in> set (rg_blocks G2)" using that(1) c(2) by auto
      then show ?thesis using newf [OF _ that(2)] same(1) [of n] False by (simp add: block_fits_def)
    qed
    have t: "in_loop l b \<or> (\<exists>a \<in> set (rg_blocks G2). b \<in> set (rg_succs G2 a))"
      if "a \<in> set (rg_blocks G3)" "b \<in> set (rg_succs G3 a)" "b \<in> set (rg_blocks G2)" for a b
    proof (cases "a = c")
      case True
      then show ?thesis using that(2) h Gc(2) by simp
    next
      case False
      then have aG: "a \<in> set (rg_blocks G2)" using that(1) c(2) by auto
      then have "b \<in> insert c (set (rg_succs G2 a))" using same(3) [OF aG] that(2) by blast
      then show ?thesis using that(3) c(1) aG by blast
    qed
    have e: "rg_succs G3 n \<noteq> []" if "n \<in> set (rg_blocks G3)" "n \<notin> set (rg_blocks G2)" for n
      using that c(2) Gc(2) by auto
    show ?thesis using b shape3 fit3 c(2) o n t e same(2)
      by (intro exI [of _ G3] exI [of _ ?ti] exI [of _ ?to] conjI) auto
  qed
qed


text \<open>The loops whose regions are open, the innermost first.\<close>

definition open_loops :: "RegionStack \<Rightarrow> SID list" where
  "open_loops s = map fst (filter (\<lambda>(r, t). t = RegionLoop) s)"

abbreviation body_options :: RegionOptions where
  "body_options \<equiv> \<lparr>noMultiExitLoops = False, loopBodyRegions = True\<rparr>"

lemma loop_step:
  assumes fit: "regions_fit (l # P) ti to G"
  shows "\<exists>G' ti' to'. instrumentLoop body_options (\<lambda>_. False) l r bd [] G = Some G' \<and> regions_fit P ti' to' G' \<and> same_ends G G'
    \<and> (\<forall>x \<in> set (rg_blocks G). \<not> in_loop l x \<longrightarrow> untouched ti to G ti' to' G' x)
    \<and> (\<forall>b. in_loop l b \<longrightarrow> open_loops (to' b) = r # open_loops (to b)) \<and> set (rg_blocks G) \<subseteq> set (rg_blocks G')"
proof -
  have shape: "loops_shape (l # P) G" using fit by (simp add: regions_fit_def)
  then have wn: "well_numbered G" "loop_shape (l # P) l G" and h: "in_loop l (loop_header l)" by (simp_all add: loops_shape_def loop_shape_def)
  obtain f where f: "body_entry l G = Some f" using body_entry_some [OF wn] by blast
  obtain G1 G2 ti2 to2 where pre: "add_preheader l r G = Some G1"
    and G2: "G2 = fold (add_pre_exits True (\<lambda>_. False) l r bd) (exiting_blocks l G1) G1"
    and shape2: "loops_shape (l # P) G2" and be2: "body_entry l G2 = Some f"
    and fit2: "edges_fit P ti2 to2 (\<lambda>a b. in_loop l a \<and> b = loop_header l \<and> length (loop_blocks l) \<noteq> 1) G2"
    and sub2: "set (rg_blocks G) \<subseteq> set (rg_blocks G2)"
    and old2: "\<forall>b \<in> set (rg_blocks G). ti2 b = loop_in l r bd f ti to b \<and> to2 b = loop_out l r bd f to b
         \<and> rg_calls G2 b = (if b = loop_header l then [] else rg_calls G b) \<and> (rg_succs G2 b = []) = (rg_succs G b = [])"
    and new2: "\<forall>n \<in> set (rg_blocks G2) - set (rg_blocks G). block_fits ti2 to2 G2 n \<and> rg_succs G2 n \<noteq> []"
    and into2: "\<forall>a \<in> set (rg_blocks G2). \<forall>b \<in> set (rg_succs G2 a) \<inter> set (rg_blocks G).
         in_loop l b \<or> (\<exists>a \<in> set (rg_blocks G). b \<in> set (rg_succs G a))"
    using loop_exits [OF fit f, of r bd] by blast
  have o: "ti2 b = loop_in l r bd f ti to b \<and> to2 b = loop_out l r bd f to b
         \<and> rg_calls G2 b = (if b = loop_header l then [] else rg_calls G b) \<and> (rg_succs G2 b = []) = (rg_succs G b = [])"
    if "b \<in> set (rg_blocks G)" for b using old2 that by blast
  have n: "block_fits ti2 to2 G2 x \<and> rg_succs G2 x \<noteq> []" if "x \<in> set (rg_blocks G2)" "x \<notin> set (rg_blocks G)" for x
    using new2 that by blast
  from body_stage [OF fit f shape2 be2 fit2 sub2 o n] obtain G3 ti3 to3 where body: "add_body l bd G2 = Some G3"
    and shape3: "loops_shape P G3" and fit3: "edges_fit P ti3 to3 (\<lambda>a b. False) G3"
    and sub3: "set (rg_blocks G2) \<subseteq> set (rg_blocks G3)"
    and old3: "\<forall>b \<in> set (rg_blocks G). ti3 b = ti2 b \<and> to3 b = to2 b \<and> rg_calls G3 b = final_calls l bd f G b"
    and ends3: "\<forall>b \<in> set (rg_blocks G2). (rg_succs G3 b = []) = (rg_succs G2 b = [])"
    and new3: "\<forall>n \<in> set (rg_blocks G3) - set (rg_blocks G). block_fits ti3 to3 G3 n"
    and some3: "\<forall>n \<in> set (rg_blocks G3) - set (rg_blocks G2). rg_succs G3 n \<noteq> []"
    and into3: "\<forall>a \<in> set (rg_blocks G3). \<forall>b \<in> set (rg_succs G3 a) \<inter> set (rg_blocks G2).
         in_loop l b \<or> (\<exists>a \<in> set (rg_blocks G2). b \<in> set (rg_succs G2 a))" by blast
  have tis: "ti3 b = loop_in l r bd f ti to b \<and> to3 b = loop_out l r bd f to b" if "b \<in> set (rg_blocks G)" for b
    using old3 o that by simp
  have calls: "rg_calls G3 b = final_calls l bd f G b" if "b \<in> set (rg_blocks G)" for b using old3 that by blast
  have "block_fits ti3 to3 G3 b" if b: "b \<in> set (rg_blocks G3)" for b
  proof (cases "b \<in> set (rg_blocks G)")
    case True
    then show ?thesis using tis calls final_calls_run [OF fit f True] by (simp add: block_fits_def)
  next
    case False
    then show ?thesis using new3 b by blast
  qed
  then have fits: "regions_fit P ti3 to3 G3"
    using shape3 fit3 pending_kept [OF fit f calls tis] by (simp add: regions_fit_def)
  have "same_ends G G3"
    unfolding same_ends_def
  proof (intro ballI impI)
    fix b assume b: "b \<in> set (rg_blocks G3)" "rg_succs G3 b = []"
    then have b2: "b \<in> set (rg_blocks G2)" using some3 by blast
    then have "rg_succs G2 b = []" using ends3 b(2) by blast
    moreover from this have "b \<in> set (rg_blocks G)" using n b2 by blast
    ultimately show "b \<in> set (rg_blocks G) \<and> rg_succs G b = []" using o by blast
  qed
  moreover have "untouched ti to G ti3 to3 G3 x" if x: "x \<in> set (rg_blocks G)" "\<not> in_loop l x" for x
  proof -
    have x2: "x \<in> set (rg_blocks G2)" "x \<in> set (rg_blocks G3)" using x(1) sub2 sub3 by blast+
    have "x \<noteq> loop_header l" "x \<noteq> f" using x(2) h first_of_body(1) [OF shape f] by blast+
    then have "rg_calls G3 x = rg_calls G x" using calls [OF x(1)] by (simp add: final_calls_def)
    moreover have "(rg_succs G3 x = []) = (rg_succs G x = [])" using ends3 x2(1) o [OF x(1)] by blast
    moreover have "\<forall>a \<in> set (rg_blocks G3). x \<notin> set (rg_succs G3 a)" if no: "\<forall>a \<in> set (rg_blocks G). x \<notin> set (rg_succs G a)"
    proof
      fix a assume a: "a \<in> set (rg_blocks G3)"
      show "x \<notin> set (rg_succs G3 a)"
      proof
        assume "x \<in> set (rg_succs G3 a)"
        then obtain c where "c \<in> set (rg_blocks G2)" "x \<in> set (rg_succs G2 c)" using into3 a x2(1) x(2) by blast
        then show False using into2 x no by blast
      qed
    qed
    ultimately show ?thesis using tis [OF x(1)] x(2) x2(2) by (simp add: untouched_def loop_in_def loop_out_def)
  qed
  moreover have "open_loops (to3 b) = r # open_loops (to b)" if b: "in_loop l b" for b
  proof -
    have "b \<in> set (rg_blocks G)" using wn(2) b by (auto simp: loop_shape_def in_loop_def)
    then have "to3 b = loop_out l r bd f to b" using tis by blast
    then show ?thesis using b pending_stack [OF fit b] by (simp add: loop_out_def open_loops_def Let_def)
  qed
  moreover have "instrumentLoop body_options (\<lambda>_. False) l r bd [] G = Some G3"
    using pre body by (simp add: instrumentLoop_def G2)
  moreover have "set (rg_blocks G) \<subseteq> set (rg_blocks G3)" using sub2 sub3 by blast
  ultimately show ?thesis using fits by (intro exI [of _ G3] exI [of _ ti3] exI [of _ to3] conjI) blast+
qed

lemma untouched_trans:
  "untouched ti to G ti1 to1 G1 x \<Longrightarrow> untouched ti1 to1 G1 ti2 to2 G2 x \<Longrightarrow> untouched ti to G ti2 to2 G2 x"
  by (simp add: untouched_def)

lemma loops_step:
  "regions_fit ls ti to G \<Longrightarrow> ri_landing_pad R = (\<lambda>_. False) \<Longrightarrow>
    \<exists>G' ti' to'. instrument_loops body_options R (\<lambda>_. []) ls G = Some G' \<and> regions_fit [] ti' to' G' \<and> same_ends G G'
      \<and> (\<forall>x \<in> set (rg_blocks G). (\<forall>l \<in> set ls. \<not> in_loop l x) \<longrightarrow> untouched ti to G ti' to' G' x)
      \<and> (\<forall>b \<in> set (rg_blocks G). open_loops (to' b) = rev (map (loop_region_id R) (filter (\<lambda>l. in_loop l b) ls)) @ open_loops (to b))
      \<and> set (rg_blocks G) \<subseteq> set (rg_blocks G')"
proof (induction ls arbitrary: ti to G)
  case Nil
  have "same_ends G G" "\<forall>x \<in> set (rg_blocks G). untouched ti to G ti to G x" by (simp_all add: same_ends_def untouched_def)
  then show ?case using Nil.prems(1) by (intro exI [of _ G] exI [of _ ti] exI [of _ to]) simp
next
  case (Cons l ls)
  obtain G1 ti1 to1 where one: "instrumentLoop body_options (\<lambda>_. False) l (loop_region_id R l) (loop_body_id R l) [] G = Some G1"
    "regions_fit ls ti1 to1 G1" "same_ends G G1" "\<forall>x \<in> set (rg_blocks G). \<not> in_loop l x \<longrightarrow> untouched ti to G ti1 to1 G1 x"
    "\<forall>b. in_loop l b \<longrightarrow> open_loops (to1 b) = loop_region_id R l # open_loops (to b)" "set (rg_blocks G) \<subseteq> set (rg_blocks G1)"
    using loop_step [OF Cons.prems(1)] by blast
  from Cons.IH [OF one(2) Cons.prems(2)] obtain G2 ti2 to2 where rest: "instrument_loops body_options R (\<lambda>_. []) ls G1 = Some G2"
    "regions_fit [] ti2 to2 G2" "same_ends G1 G2"
    "\<forall>x \<in> set (rg_blocks G1). (\<forall>l \<in> set ls. \<not> in_loop l x) \<longrightarrow> untouched ti1 to1 G1 ti2 to2 G2 x"
    "\<forall>b \<in> set (rg_blocks G1). open_loops (to2 b) = rev (map (loop_region_id R) (filter (\<lambda>l. in_loop l b) ls)) @ open_loops (to1 b)"
    "set (rg_blocks G1) \<subseteq> set (rg_blocks G2)" by blast
  have "untouched ti to G ti2 to2 G2 x" if x: "x \<in> set (rg_blocks G)" "\<forall>m \<in> set (l # ls). \<not> in_loop m x" for x
  proof -
    have u: "untouched ti to G ti1 to1 G1 x" using one(4) x by simp
    then have "x \<in> set (rg_blocks G1)" by (simp add: untouched_def)
    then show ?thesis using untouched_trans [OF u] rest(4) x(2) by simp
  qed
  moreover have "open_loops (to2 b) = rev (map (loop_region_id R) (filter (\<lambda>m. in_loop m b) (l # ls))) @ open_loops (to b)"
    if b: "b \<in> set (rg_blocks G)" for b
  proof -
    have "open_loops (to1 b) = (if in_loop l b then loop_region_id R l # open_loops (to b) else open_loops (to b))"
      using one(4,5) b by (auto simp: untouched_def)
    moreover have "b \<in> set (rg_blocks G1)" using one(6) b by blast
    ultimately show ?thesis using rest(5) by simp
  qed
  moreover have "same_ends G G2" using one(3) rest(3) unfolding same_ends_def by blast
  moreover have "instrument_loops body_options R (\<lambda>_. []) (l # ls) G = Some G2" using one(1) rest(1) Cons.prems(2) by simp
  moreover have "set (rg_blocks G) \<subseteq> set (rg_blocks G2)" using one(6) rest(6) by blast
  ultimately show ?case using rest(2) by (intro exI [of _ G2] exI [of _ ti2] exI [of _ to2] conjI) blast+
qed

end
