(* ===== verification/RegionFunction.thy ===== *)
theory RegionFunction
  imports RegionNesting
begin

text \<open>
  The whole function: the calls the region pass puts into it are properly nested on every path.
\<close>

section \<open>The loops of a function\<close>

text \<open>LLVM's loops are a forest: a loop contains the loops in it without its header, others are disjoint.\<close>

fun loop_ok :: "Loop \<Rightarrow> bool" and loop_list_ok :: "Loop list \<Rightarrow> bool" where
  "loop_ok (Loop i h bs subs civ) \<longleftrightarrow> loop_list_ok subs \<and> (\<forall>m \<in> set subs. set (loop_blocks m) \<subseteq> set bs - {h})"
| "loop_list_ok [] \<longleftrightarrow> True"
| "loop_list_ok (l # ls) \<longleftrightarrow> loop_ok l \<and> loop_list_ok ls \<and> (\<forall>m \<in> set ls. set (loop_blocks l) \<inter> set (loop_blocks m) = {})"

lemma nested_append:
  "nested_loops xs \<Longrightarrow> nested_loops ys \<Longrightarrow> \<forall>l \<in> set xs. \<forall>m \<in> set ys. set (loop_blocks l) \<inter> set (loop_blocks m) = {} \<Longrightarrow> nested_loops (xs @ ys)"
  unfolding nested_loops_def by (auto simp: sorted_wrt_append in_loop_def)

lemma harvested:
  "loop_ok l \<Longrightarrow> nested_loops (fst (harvestSubLoops l d k)) \<and> (\<forall>m \<in> set (fst (harvestSubLoops l d k)). set (loop_blocks m) \<subseteq> set (loop_blocks l))"
  "loop_list_ok ls \<Longrightarrow> nested_loops (fst (harvest_list ls d k))
     \<and> (\<forall>m \<in> set (fst (harvest_list ls d k)). \<exists>l \<in> set ls. set (loop_blocks m) \<subseteq> set (loop_blocks l))"
proof (induction l d k and ls d k rule: harvestSubLoops_harvest_list.induct)
  case (1 i h bs subs civ d k)
  let ?k = "if d > k then d else k"
  let ?r = "harvest_list subs (d + 1) ?k"
  have r: "fst (harvestSubLoops (Loop i h bs subs civ) d k) = Loop i h bs subs civ # fst ?r" by (simp split: prod.split)
  have ih: "nested_loops (fst ?r)" "\<forall>m \<in> set (fst ?r). \<exists>l \<in> set subs. set (loop_blocks m) \<subseteq> set (loop_blocks l)"
    using 1 by simp_all
  have sub: "set (loop_blocks m) \<subseteq> set bs - {h}" if "m \<in> set (fst ?r)" for m using ih(2) that "1.prems" by fastforce
  then have "nested_loops (Loop i h bs subs civ # fst ?r)" using ih(1) by (auto simp: nested_loops_def in_loop_def)
  then show ?case using r sub by auto
next
  case (3 l ls d k)
  obtain xs k1 ys k2 where x: "harvestSubLoops l d k = (xs, k1)" "harvest_list ls d k1 = (ys, k2)" by (metis surj_pair)
  have ih: "nested_loops xs" "\<forall>m \<in> set xs. set (loop_blocks m) \<subseteq> set (loop_blocks l)"
    "nested_loops ys" "\<forall>m \<in> set ys. \<exists>l \<in> set ls. set (loop_blocks m) \<subseteq> set (loop_blocks l)"
    using "3.IH"(1) "3.IH"(2) [OF x(1) [symmetric] refl] "3.prems" x by simp_all
  have "set (loop_blocks a) \<inter> set (loop_blocks b) = {}" if a: "a \<in> set xs" "b \<in> set ys" for a b
  proof -
    obtain m where m: "m \<in> set ls" "set (loop_blocks b) \<subseteq> set (loop_blocks m)" using ih(4) a(2) by blast
    have "set (loop_blocks l) \<inter> set (loop_blocks m) = {}" using "3.prems" m(1) by simp
    then show ?thesis using ih(2) a(1) m(2) by blast
  qed
  then have "nested_loops (xs @ ys)" using ih(1,3) nested_append by blast
  then show ?case using x ih(2,4) by auto
qed (simp add: nested_loops_def)

definition function_loops :: "RegionInfo \<Rightarrow> Loop list" where
  "function_loops R = fst (harvestLoops (ri_top_loops R))"

lemma function_loops_nested: "loop_list_ok (ri_top_loops R) \<Longrightarrow> nested_loops (function_loops R)"
  using harvested(2) [of "ri_top_loops R" 1 0] by (simp add: function_loops_def harvestLoops_def case_prod_beta)

section \<open>Paths\<close>

text \<open>A path through the graph, and the calls on it.\<close>

fun walk :: "RegionCfg \<Rightarrow> Block list \<Rightarrow> bool" where
  "walk G [] = True"
| "walk G [b] = True"
| "walk G (a # b # bs) \<longleftrightarrow> b \<in> set (rg_succs G a) \<and> walk G (b # bs)"

definition path_calls :: "RegionCfg \<Rightarrow> Block list \<Rightarrow> api_event list" where
  "path_calls G bs = concat (map (rg_calls G) bs)"

lemma walk_runs:
  assumes "\<And>a b. a \<in> set (rg_blocks G) \<Longrightarrow> b \<in> set (rg_succs G a) \<Longrightarrow> b \<in> set (rg_blocks G) \<and> to a = ti b"
    and "\<And>b. b \<in> set (rg_blocks G) \<Longrightarrow> block_fits ti to G b"
  shows "b \<in> set (rg_blocks G) \<Longrightarrow> walk G (b # bs) \<Longrightarrow>
    last (b # bs) \<in> set (rg_blocks G) \<and> run_regions (path_calls G (b # bs)) (ti b) = Some (to (last (b # bs)))"
proof (induction bs arbitrary: b)
  case Nil
  then show ?case using assms(2) [of b] by (simp add: path_calls_def block_fits_def)
next
  case (Cons c bs)
  have c: "c \<in> set (rg_blocks G)" "to b = ti c" using Cons.prems assms(1) [of b c] by simp_all
  have "run_regions (rg_calls G b) (ti b) = Some (ti c)" using assms(2) [OF Cons.prems(1)] c(2) by (simp add: block_fits_def)
  then show ?case using Cons.IH [OF c(1)] Cons.prems(2) by (simp add: path_calls_def run_regions_append)
qed

section \<open>The function\<close>

text \<open>
  A function as LLVM and the passes before this one deliver it: nothing leads to the entry, no block of a loop
  ends the function, no calls of the runtime for regions yet. Without exceptions.
\<close>

definition region_function_ok :: "RegionInfo \<Rightarrow> RegionCfg \<Rightarrow> bool" where
  "region_function_ok R G \<longleftrightarrow> well_numbered G \<and> distinct (rg_blocks G) \<and> loop_list_ok (ri_top_loops R)
     \<and> (\<forall>l \<in> set (function_loops R). loop_shape (function_loops R) l G \<and> \<not> in_loop l (ri_entry R)
          \<and> (\<forall>b. in_loop l b \<longrightarrow> rg_succs G b \<noteq> []))
     \<and> ri_entry R \<in> set (rg_blocks G) \<and> (\<forall>a \<in> set (rg_blocks G). ri_entry R \<notin> set (rg_succs G a))
     \<and> (\<forall>b \<in> set (rg_blocks G). rg_calls G b = []) \<and> ri_landing_pad R = (\<lambda>_. False)"

lemma function_exits:
  "distinct bs \<Longrightarrow> fold (add_function_exit R) bs G
     = G\<lparr>rg_calls := \<lambda>b. if b \<in> set bs \<and> rg_succs G b = [] then rg_calls G b @ end_calls R G b else rg_calls G b\<rparr>"
proof (induction bs arbitrary: G)
  case (Cons b bs)
  have put: "fold (put_last b) evs G = G\<lparr>rg_calls := (rg_calls G)(b := rg_calls G b @ evs)\<rparr>" for evs and G :: RegionCfg
    by (induction evs arbitrary: G) (simp_all add: put_last_def)
  have e: "end_calls R (G\<lparr>rg_calls := c\<rparr>) = end_calls R G" for c by (simp add: end_calls_def fun_eq_iff)
  show ?case
  proof (cases "rg_succs G b = []")
    case True
    have "fold (add_function_exit R) (b # bs) G = fold (add_function_exit R) bs (G\<lparr>rg_calls := (rg_calls G)(b := rg_calls G b @ end_calls R G b)\<rparr>)"
      using True by (simp add: add_function_exit_def put)
    also have "\<dots> = G\<lparr>rg_calls := \<lambda>x. if x \<in> set (b # bs) \<and> rg_succs G x = [] then rg_calls G x @ end_calls R G x else rg_calls G x\<rparr>"
      using Cons True by (auto simp: e fun_eq_iff)
    finally show ?thesis .
  next
    case False
    then have "fold (add_function_exit R) (b # bs) G = fold (add_function_exit R) bs G" by (simp add: add_function_exit_def)
    then show ?thesis using Cons False by (auto simp: fun_eq_iff)
  qed
qed simp

lemma end_calls_run: "run_regions (end_calls R G b) [(func_id R, RegionFunc)] = Some []"
  by (simp add: end_calls_def Let_def)

lemma function_start:
  assumes ok: "region_function_ok R G"
  defines "G1 \<equiv> fold (add_function_exit R) (rg_blocks G) G" and "s \<equiv> [(func_id R, RegionFunc)]"
  shows "regions_fit (function_loops R) (\<lambda>_. s) (\<lambda>b. if rg_succs G b = [] then [] else s) G1"
    "rg_blocks G1 = rg_blocks G" "rg_succs G1 = rg_succs G"
proof -
  let ?to = "\<lambda>b. if rg_succs G b = [] then [] else s" and ?P = "function_loops R"
  have wn: "well_numbered G" and dist: "distinct (rg_blocks G)" and lok: "loop_list_ok (ri_top_loops R)"
    and none: "\<And>b. b \<in> set (rg_blocks G) \<Longrightarrow> rg_calls G b = []"
    and ls: "\<And>l. l \<in> set ?P \<Longrightarrow> loop_shape ?P l G \<and> (\<forall>b. in_loop l b \<longrightarrow> rg_succs G b \<noteq> [])"
    using ok by (simp_all add: region_function_ok_def)
  have G1: "G1 = G\<lparr>rg_calls := \<lambda>b. if b \<in> set (rg_blocks G) \<and> rg_succs G b = [] then rg_calls G b @ end_calls R G b else rg_calls G b\<rparr>"
    unfolding G1_def by (rule function_exits [OF dist])
  show "rg_blocks G1 = rg_blocks G" "rg_succs G1 = rg_succs G" by (simp_all add: G1)
  have "loops_shape ?P G" using wn ls function_loops_nested [OF lok] by (simp add: loops_shape_def)
  then have shape: "loops_shape ?P G1" by (simp add: G1)
  have loop: "b \<in> set (rg_blocks G) \<and> rg_succs G b \<noteq> []" if "l \<in> set ?P" "in_loop l b" for l b
    using ls [OF that(1)] that(2) by (auto simp: loop_shape_def in_loop_def)
  have "rg_calls G1 b = []" if "l \<in> set ?P" "in_loop l b" for l b using loop [OF that] none by (simp add: G1)
  moreover have hd: "in_loop l (loop_header l)" if "l \<in> set ?P" for l using ls [OF that] by (simp add: loop_shape_def)
  ultimately have pc: "pending_calls ?P G1" by (simp add: pending_calls_def)
  have ps: "pending_stacks ?P (\<lambda>_. s) ?to"
    unfolding pending_stacks_def using loop hd by auto
  have "edge_fits ?P (\<lambda>_. s) ?to a b" if "a \<in> set (rg_blocks G)" "b \<in> set (rg_succs G a)" for a b
  proof -
    have "rg_succs G b \<noteq> []" if bk: "back_edge ?P a b"
    proof -
      obtain l where l: "l \<in> set ?P" "loop_header l = b" using bk by (auto simp: back_edge_def)
      then show ?thesis using loop [OF l(1) hd [OF l(1)]] by simp
    qed
    then show ?thesis using that by (auto simp: edge_fits_def)
  qed
  then have ef: "edges_fit ?P (\<lambda>_. s) ?to (\<lambda>a b. False) G1" by (simp add: edges_fit_def G1)
  have "block_fits (\<lambda>_. s) ?to G1 b" if "b \<in> set (rg_blocks G)" for b
    using none [OF that] that end_calls_run by (simp add: block_fits_def G1 s_def)
  then show "regions_fit ?P (\<lambda>_. s) ?to G1" using shape pc ps ef by (simp add: regions_fit_def G1)
qed

lemma function_pads_none: "ri_landing_pad R = (\<lambda>_. False) \<Longrightarrow> fold (add_function_pad R) bs G = G \<and> loop_pads R G' = (\<lambda>_. [])"
  by (induction bs) (simp_all add: add_function_pad_def loop_pads_def fun_eq_iff)


text \<open>
  C38. On every path through an instrumented function the calls for regions are properly nested: none leaves a
  region that is not the innermost open one, nothing is open before the entry or after an end of the function,
  and at the end of a block of the original function the loops whose regions are open are the loops that block
  is in, from the inside out. The function has no landing pads, its loops are natural (entered at their headers
  only), a header that can leave its loop ends with a branch, or with a switch in a loop of several blocks (the
  other cases go wrong, \<open>header_exit_mismatched\<close>), and the first block of a body that begins behind the header is
  reached from the header or by a back edge only.
\<close>

theorem instrumented_regions_nested:
  assumes "region_function_ok R G"
  shows "\<exists>G' d. instrument_region_function body_options R G = Some (G', d) \<and> set (rg_blocks G) \<subseteq> set (rg_blocks G')
    \<and> (\<forall>bs. walk G' (ri_entry R # bs) \<longrightarrow> (\<exists>s. run_regions (path_calls G' (ri_entry R # bs)) [] = Some s
         \<and> (rg_succs G' (last (ri_entry R # bs)) = [] \<longrightarrow> s = [])
         \<and> (last (ri_entry R # bs) \<in> set (rg_blocks G) \<longrightarrow>
              open_loops s = rev (map (loop_region_id R) (filter (\<lambda>l. in_loop l (last (ri_entry R # bs))) (function_loops R))))))"
proof -
  let ?P = "function_loops R" and ?e = "ri_entry R" and ?s = "[(func_id R, RegionFunc)]"
  let ?to = "\<lambda>b. if rg_succs G b = [] then [] else ?s" and ?G1 = "fold (add_function_exit R) (rg_blocks G) G"
  note st = function_start [OF assms]
  have pad: "ri_landing_pad R = (\<lambda>_. False)" and entry: "?e \<in> set (rg_blocks G)" "\<forall>a \<in> set (rg_blocks G). ?e \<notin> set (rg_succs G a)"
    and outside: "\<forall>l \<in> set ?P. \<not> in_loop l ?e" and goes: "\<And>l b. l \<in> set ?P \<Longrightarrow> in_loop l b \<Longrightarrow> rg_succs G b \<noteq> []"
    using assms by (simp_all add: region_function_ok_def)
  obtain G2 ti2 to2 where run: "instrument_loops body_options R (\<lambda>_. []) ?P ?G1 = Some G2"
    and fit: "regions_fit [] ti2 to2 G2" and ends: "same_ends ?G1 G2"
    and unt: "\<forall>x \<in> set (rg_blocks G). (\<forall>l \<in> set ?P. \<not> in_loop l x) \<longrightarrow> untouched (\<lambda>_. ?s) ?to ?G1 ti2 to2 G2 x"
    and opn: "\<forall>b \<in> set (rg_blocks G). open_loops (to2 b) = rev (map (loop_region_id R) (filter (\<lambda>l. in_loop l b) ?P)) @ open_loops (?to b)"
    and sub: "set (rg_blocks G) \<subseteq> set (rg_blocks G2)"
    using loops_step [OF st(1) pad] unfolding st(2) by blast
  have ue: "untouched (\<lambda>_. ?s) ?to ?G1 ti2 to2 G2 ?e" using unt entry(1) outside by blast
  have nopred: "?e \<notin> set (rg_succs G2 a)" if "a \<in> set (rg_blocks G2)" for a
    using ue entry(2) that by (simp add: untouched_def st)
  let ?G3 = "put_first ?e (Region (KEnterRegion (func_id R) RegionFunc)) G2"
  let ?G4 = "if is_main R then put_first ?e (Noop KInit) ?G3 else ?G3"
  have whole: "instrument_region_function body_options R G = Some (?G4, snd (harvestLoops (ri_top_loops R)))"
    using run function_pads_none [OF pad]
    by (simp add: instrument_region_function_def function_loops_def case_prod_beta)
  let ?ti = "ti2(?e := [])"
  have G4: "rg_blocks ?G4 = rg_blocks G2" "rg_succs ?G4 = rg_succs G2" "\<And>b. b \<noteq> ?e \<Longrightarrow> rg_calls ?G4 b = rg_calls G2 b"
    "run_regions (rg_calls ?G4 ?e) [] = run_regions (rg_calls G2 ?e) ?s"
    by (simp_all add: put_first_def)
  have wn2: "well_numbered G2" using fit by (simp add: regions_fit_def loops_shape_def)
  have edge: "b \<in> set (rg_blocks ?G4) \<and> to2 a = ?ti b" if a: "a \<in> set (rg_blocks ?G4)" "b \<in> set (rg_succs ?G4 a)" for a b
  proof -
    have "b \<in> set (rg_blocks G2)" using wn2 a unfolding G4 well_numbered_def by blast
    moreover have "edge_fits [] ti2 to2 a b" using fit a unfolding G4 regions_fit_def edges_fit_def by blast
    moreover have "b \<noteq> ?e" using nopred a unfolding G4 by blast
    ultimately show ?thesis by (simp add: G4(1) edge_fits_def back_edge_def)
  qed
  have blk: "block_fits ?ti to2 ?G4 b" if "b \<in> set (rg_blocks ?G4)" for b
  proof -
    have "run_regions (rg_calls G2 b) (ti2 b) = Some (to2 b)" using fit that unfolding G4 by (simp add: regions_fit_def block_fits_def)
    moreover have "ti2 ?e = ?s" using ue by (simp add: untouched_def)
    ultimately show ?thesis using G4(3,4) by (cases "b = ?e") (simp_all add: block_fits_def)
  qed
  have e4: "?e \<in> set (rg_blocks ?G4)" using entry(1) sub G4(1) by auto
  have "\<exists>s. run_regions (path_calls ?G4 (?e # bs)) [] = Some s \<and> (rg_succs ?G4 (last (?e # bs)) = [] \<longrightarrow> s = [])
      \<and> (last (?e # bs) \<in> set (rg_blocks G) \<longrightarrow> open_loops s = rev (map (loop_region_id R) (filter (\<lambda>l. in_loop l (last (?e # bs))) ?P)))"
    if w: "walk ?G4 (?e # bs)" for bs
  proof -
    let ?b = "last (?e # bs)"
    have r: "?b \<in> set (rg_blocks ?G4)" "run_regions (path_calls ?G4 (?e # bs)) [] = Some (to2 ?b)"
      using walk_runs [OF edge blk e4 w] by simp_all
    have "to2 ?b = []" if fin: "rg_succs ?G4 ?b = []"
    proof -
      have b: "?b \<in> set (rg_blocks G)" "rg_succs G ?b = []"
        using ends r(1) fin unfolding same_ends_def G4 st by blast+
      then have "\<forall>l \<in> set ?P. \<not> in_loop l ?b" using goes by blast
      then have "untouched (\<lambda>_. ?s) ?to ?G1 ti2 to2 G2 ?b" using unt b(1) by blast
      then show ?thesis using b(2) by (simp add: untouched_def)
    qed
    moreover have "open_loops (?to b) = []" for b by (simp add: open_loops_def)
    ultimately show ?thesis using r(2) opn by simp
  qed
  then show ?thesis using whole sub G4(1) by (intro exI [of _ ?G4] exI [of _ "snd (harvestLoops (ri_top_loops R))"] conjI) auto
qed

text \<open>A loop in a loop: the outer header can leave its loop, the inner loop is one block.\<close>

definition nest_info :: RegionInfo where
  "nest_info = \<lparr>ri_entry = 0, ri_name = ''main'', ri_top_loops = [Loop 0 1 [1, 2, 3] [Loop 1 2 [2] [] None] None],
     ri_landing_pad = (\<lambda>_. False), ri_loop_of = (\<lambda>_. None), non_returning = (\<lambda>_. None),
     func_id = 100, loop_region_id = (\<lambda>l. if loop_header l = 1 then 10 else 20), loop_body_id = (\<lambda>l. if loop_header l = 1 then 11 else 21)\<rparr>"

definition nest_cfg :: RegionCfg where
  "nest_cfg = \<lparr>rg_blocks = [0, 1, 2, 3, 4],
     rg_succs = (\<lambda>b. if b = 0 then [1] else if b = 1 then [2, 4] else if b = 2 then [2, 3] else if b = 3 then [1] else []),
     rg_term = (\<lambda>b. if b = 4 then ORet else OBr), rg_calls = (\<lambda>_. []), rg_phis = (\<lambda>_. []), rg_next_block = 5, rg_next_value = 0\<rparr>"


lemma nest_loops: "function_loops nest_info = [Loop 0 1 [1, 2, 3] [Loop 1 2 [2] [] None] None, Loop 1 2 [2] [] None]"
  by (simp add: function_loops_def harvestLoops_def nest_info_def)

lemma nest_ok: "region_function_ok nest_info nest_cfg"
proof -
  let ?P = "[Loop 0 1 [1, 2, 3] [Loop 1 2 [2] [] None] None, Loop 1 2 [2] [] None]"
  have "loop_shape ?P (Loop 0 1 [1, 2, 3] [Loop 1 2 [2] [] None] None) nest_cfg" "loop_shape ?P (Loop 1 2 [2] [] None) nest_cfg"
    by (auto simp: loop_shape_def in_loop_def single_entry_def header_leaves_well_def body_begins_well_def header_exits_def
        back_edge_def nest_cfg_def)
  then show ?thesis
    unfolding region_function_ok_def nest_loops
    by (auto simp: well_numbered_def in_loop_def nest_info_def nest_cfg_def)
qed

lemma nest_walk: "case instrument_region_function body_options nest_info nest_cfg of None \<Rightarrow> False
  | Some (G, d) \<Rightarrow> walk G [0, 5, 1, 8, 2, 2, 9, 3, 7, 1, 6, 4] \<and> rg_succs G 4 = [] \<and> walk G [0, 5, 1, 8, 2]"
  by code_simp

theorem instrumented_regions_nested_witness:
  "\<exists>G d s. instrument_region_function body_options nest_info nest_cfg = Some (G, d)
     \<and> walk G [0, 5, 1, 8, 2, 2, 9, 3, 7, 1, 6, 4] \<and> run_regions (path_calls G [0, 5, 1, 8, 2, 2, 9, 3, 7, 1, 6, 4]) [] = Some []
     \<and> run_regions (path_calls G [0, 5, 1, 8, 2]) [] = Some s \<and> open_loops s = [20, 10]"
proof -
  obtain G d where G: "instrument_region_function body_options nest_info nest_cfg = Some (G, d)"
    "\<forall>bs. walk G (0 # bs) \<longrightarrow> (\<exists>s. run_regions (path_calls G (0 # bs)) [] = Some s
         \<and> (rg_succs G (last (0 # bs)) = [] \<longrightarrow> s = [])
         \<and> (last (0 # bs) \<in> set (rg_blocks nest_cfg) \<longrightarrow>
              open_loops s = rev (map (loop_region_id nest_info) (filter (\<lambda>l. in_loop l (last (0 # bs))) (function_loops nest_info)))))"
    using instrumented_regions_nested [OF nest_ok] by (auto simp: nest_info_def simp del: walk.simps last.simps)
  have w: "walk G [0, 5, 1, 8, 2, 2, 9, 3, 7, 1, 6, 4]" "rg_succs G 4 = []" "walk G [0, 5, 1, 8, 2]"
    using nest_walk by (simp_all add: G(1))
  have l: "rev (map (loop_region_id nest_info) (filter (\<lambda>l. in_loop l 2) (function_loops nest_info))) = [20, 10]"
    by (simp add: nest_loops in_loop_def) (simp add: nest_info_def)
  obtain s where s: "run_regions (path_calls G [0, 5, 1, 8, 2]) [] = Some s" "open_loops s = [20, 10]"
    using G(2) [rule_format, OF w(3)] l by (auto simp: nest_cfg_def)
  have "run_regions (path_calls G [0, 5, 1, 8, 2, 2, 9, 3, 7, 1, 6, 4]) [] = Some []"
    using G(2) [rule_format, OF w(1)] w(2) by auto
  then show ?thesis using G(1) w(1) s by blast
qed
end
