(* ===== verification/RegionDefects.thy ===== *)
theory RegionDefects
  imports RegionFunction
begin

text \<open>
  Loops the region pass gets wrong: the pass takes a header that does not end with a branch for a part of the
  body, but puts the call that leaves the body in front of the exits of a header only if that ends with a switch;
  and if the loop is one block, the call is also at the end of that block.
\<close>

section \<open>Exits of the header\<close>






















end
