(* ===== verification/ApiRuns.thy ===== *)
theory ApiRuns
  imports KremlinApi
begin

text \<open>
  Every call of the interface (\<open>runtime/src/kremlin.cpp\<close>) and the accounts of the active regions: only region
  entries, region exits and landing pads change them, and only \<open>_KWork\<close> lets time pass. In every state that
  \<open>main\<close> reaches, the children of each active region have taken no more work than it has itself.
\<close>

section \<open>The accounts\<close>

text \<open>The level, the time, the versions, and what the work of a region is computed from.\<close>

definition account :: "'m KremlinProfiler \<Rightarrow> Level \<times> Time \<times> nat \<times> (Time \<times> Time) list" where
  "account p = (curr_level p, curr_time p, length (level_versions p),
     map (\<lambda>r. (pr_start r, pr_childrenWork r)) (program_regions p))"

lemma account_simps [simp]:
  "account (tables_update f1 p) = account p" "account (shadow_mem_update f2 p) = account p"
  "account (level_times_update f3 p) = account p" "account (callstack_update f4 p) = account p"
  "account (control_dependence_table_update f5 p) = account p" "account (cdt_current_base_update f6 p) = account p"
  "account (cdt_read_ptr_update f7 p) = account p" "account (function_arg_queue_update f8 p) = account p"
  "account (arg_queue_read_index_update f9 p) = account p" "account (arg_queue_write_index_update f10 p) = account p"
  "account (last_callsite_id_update f11 p) = account p" "account (enabled_update f12 p) = account p"
  "account (next_table_update f13 p) = account p" "account (shadow_reg_file_update f14 p) = account p"
  "account (waiting_for_register_table_init_update f15 p) = account p" "account (region_tree_update f16 p) = account p"
  by (simp_all add: account_def)

definition keeps :: "('m KremlinProfiler \<Rightarrow> 'm KremlinProfiler option) \<Rightarrow> bool" where
  "keeps f \<longleftrightarrow> (\<forall>p p'. f p = Some p' \<longrightarrow> account p' = account p)"

named_theorems account_kept

lemma keepsI: "(\<And>p p'. f p = Some p' \<Longrightarrow> account p' = account p) \<Longrightarrow> keeps f"
  by (simp add: keeps_def)

lemma keepsD: "keeps f \<Longrightarrow> f p = Some p' \<Longrightarrow> account p' = account p"
  by (simp add: keeps_def)

lemma keeps_enabled [account_kept]: "keeps f \<Longrightarrow> keeps (when_enabled f)"
  by (auto simp: keeps_def when_enabled_def)

lemma keeps_bind [account_kept]: "keeps f \<Longrightarrow> keeps g \<Longrightarrow> keeps (\<lambda>p. f p \<bind> g)"
  by (auto simp: keeps_def split: Option.bind_splits)

lemma keeps_for_range:
  assumes "\<And>k. keeps (body k)"
  shows "keeps (for_range i n body)"
proof (rule keepsI)
  fix p p'
  assume "for_range i n body p = Some p'"
  then show "account p' = account p"
    by (rule for_range_inv [where I = "\<lambda>_ s. account s = account p"]) (use keepsD [OF assms] in auto)
qed

section \<open>Instructions keep them\<close>

lemma put_table_tables: "put_table a t p = Some p' \<Longrightarrow> \<exists>T. p' = p\<lparr>tables := T\<rparr>"
  by (auto simp: put_table_def split: Option.bind_splits)

lemma setRegisterTimeAtIndex_tables:
  "setRegisterTimeAtIndex v r i p = Some p' \<Longrightarrow> \<exists>T. p' = p\<lparr>tables := T\<rparr>"
  by (auto simp: setRegisterTimeAtIndex_def split: Option.bind_splits dest: put_table_tables)

text \<open>A longer critical path is no entry of the accounts.\<close>

lemma critical_path_kept:
  assumes "getRegionAtLevel i p = Some r" "program_regions q = program_regions p"
    and "setRegionAtLevel i (updateCriticalPathLength v r) q = Some p'"
  shows "account p' = account q"
proof -
  have "unat i < length (program_regions p)" "r = program_regions p ! unat i"
    using assms(1) by (auto simp: getRegionAtLevel_def rd_def simp del: of_nat_unat split: if_splits)
  then show ?thesis
    using assms(2,3) by (auto simp: setRegionAtLevel_ok account_def map_update updateCriticalPathLength_def
        list_update_same_conv)
qed

lemma timestampUpdater_step_keeps: "keeps (timestampUpdater_step uc up nd um dest srcs mts k)"
proof (rule keepsI)
  fix p p'
  assume "timestampUpdater_step uc up nd um dest srcs mts k p = Some p'"
  then obtain r v q where r: "getRegionAtLevel (getLevelForIndex (of_nat k) p) p = Some r"
    "setRegisterTimeAtIndex v dest (of_nat k) p = Some q"
    "(if up then setRegionAtLevel (getLevelForIndex (of_nat k) p) (updateCriticalPathLength v r) q else Some q) = Some p'"
    unfolding timestampUpdater_step_def Let_def by (auto split: Option.bind_splits)
  from setRegisterTimeAtIndex_tables [OF r(2)] obtain T where q: "q = p\<lparr>tables := T\<rparr>" by blast
  with r critical_path_kept [of "getLevelForIndex (of_nat k) p" p r q v p'] show "account p' = account p"
    by (auto split: if_splits)
qed

lemma timestampUpdater_keeps [account_kept]: "keeps (timestampUpdater ms uc up nd um dest srcs addr sz)"
proof (rule keepsI)
  fix p p'
  assume h: "timestampUpdater ms uc up nd um dest srcs addr sz p = Some p'"
  note loop = keepsD [OF keeps_for_range [OF timestampUpdater_step_keeps]]
  from h show "account p' = account p"
    unfolding timestampUpdater_def Let_def by (auto split: Option.bind_splits if_splits dest!: loop)
qed

lemma va_loop_keeps:
  assumes "\<And>s. keeps (upd s)"
  shows "va_loop upd off i k args v p = Some (v', p') \<Longrightarrow> account p' = account p"
proof (induction k arbitrary: i args v p)
  case (Suc k)
  then obtain w q args' where q: "(if i mod 5 = 4 then va_srcs w \<bind> (\<lambda>s. upd s p) else Some p) = Some q"
    "va_loop upd off (Suc i) k args' w q = Some (v', p')"
    by (cases off; cases args; cases "tl args") (auto simp: Let_def split: Option.bind_splits list.splits)
  have "account q = account p" using q(1) keepsD [OF assms] by (auto split: if_splits Option.bind_splits)
  with Suc.IH [OF q(2)] show ?case by simp
qed simp

lemma handleVariableNumArgs_keeps [account_kept]:
  "keeps (handleVariableNumArgs ms uc up us off um dest src addr sz n args)"
proof (rule keepsI)
  fix p p'
  let ?upd = "\<lambda>srcs. timestampUpdater ms uc up 5 um dest srcs addr sz"
  assume "handleVariableNumArgs ms uc up us off um dest src addr sz n args p = Some p'"
  then obtain v q w c where q: "va_loop ?upd off 0 (unat n) args (va_init us off (unat n)) p = Some (v, q)"
    "(if c then va_srcs w \<bind> (\<lambda>s. ?upd s q) else Some q) = Some p'"
    unfolding handleVariableNumArgs_def Let_def by (auto simp: Option.bind_eq_Some_conv simp del: not_gr_zero split_paired_Ex)
  have "account q = account p" by (rule va_loop_keeps [OF timestampUpdater_keeps q(1)])
  with q(2) show "account p' = account p"
    by (auto split: if_splits Option.bind_splits dest: keepsD [OF timestampUpdater_keeps])
qed

lemma timestampUpdaterStore_step_keeps: "keeps (timestampUpdaterStore_step sc src k)"
proof (rule keepsI)
  fix p p'
  assume "timestampUpdaterStore_step sc src k p = Some p'"
  then obtain r v lt where "getRegionAtLevel (getLevelForIndex (of_nat k) p) p = Some r"
    "setRegionAtLevel (getLevelForIndex (of_nat k) p) (updateCriticalPathLength v r) (p\<lparr>level_times := lt\<rparr>) = Some p'"
    unfolding timestampUpdaterStore_step_def Let_def by (auto split: Option.bind_splits)
  from critical_path_kept [OF this(1) _ this(2)] show "account p' = account p" by simp
qed

lemma timestampUpdaterStore_keeps [account_kept]: "keeps (timestampUpdaterStore ms sc addr sz src)"
proof (rule keepsI)
  fix p p'
  assume "timestampUpdaterStore ms sc addr sz src p = Some p'"
  then obtain q m n where "for_range 0 n (timestampUpdaterStore_step sc src) p = Some q" "p' = q\<lparr>shadow_mem := m\<rparr>"
    unfolding timestampUpdaterStore_def Let_def by (auto split: Option.bind_splits)
  then show "account p' = account p" using keepsD [OF keeps_for_range [OF timestampUpdaterStore_step_keeps]] by auto
qed

lemma api_stamp_keeps [account_kept]: "keeps (api_stamp ms e)"
proof (cases e)
  case (KReduction c d)
  then show ?thesis by (simp add: keeps_def handleReduction_def)
qed (simp_all add: account_kept handleAssignConst_def handleInduction_def handleTimestamp_def handleTimestamp0_def
    handleTimestamp1_def handleTimestamp2_def handleTimestamp3_def handleTimestamp4_def handleTimestamp5_def
    handleTimestamp6_def handleTimestamp7_def)

lemma api_mem_keeps [account_kept]: "keeps (api_mem ms e)"
  by (cases e) (simp_all add: account_kept handleLoad_def handleLoad0_def handleLoad1_def handleStore_def handleStoreConst_def)

lemma api_phi_keeps [account_kept]: "keeps (api_phi ms e)"
  by (cases e) (auto simp: account_kept handlePhi_def handlePhi1To1_def handlePhi2To1_def handlePhi3To1_def
      handlePhi4To1_def handlePhiCond4To1_def handlePhiAddCond_def intro!: keeps_enabled)

section \<open>Calls and control dependences keep them\<close>

lemma put_table_account: "put_table a t p = Some p' \<Longrightarrow> account p' = account p"
  by (auto dest: put_table_tables)

lemma api_cdep_keeps [account_kept]: "keeps (api_cdep e)"
  by (cases e) (auto simp: keeps_def handlePushCDep_def handlePopCDep_def when_enabled_def Let_def
      split: Option.bind_splits if_splits)

lemma handleReturnConst_keeps: "keeps handleReturnConst"
proof -
  have "keeps (\<lambda>p. do {
            cdt \<leftarrow> getControlDependenceAtIndex (of_nat index) p;
            t \<leftarrow> get_table (fr_table caller) p;
            t \<leftarrow> setValue t cdt (to_int (fr_return_register caller)) (to_int (of_nat index));
            put_table (fr_table caller) t p })" for index :: nat and caller
    by (auto simp: keeps_def put_table_account split: Option.bind_splits)
  note loop = keepsD [OF keeps_for_range [OF this]]
  show ?thesis unfolding handleReturnConst_def
    by (intro keeps_enabled keepsI) (auto split: Option.bind_splits option.splits dest: loop)
qed

lemma api_call_keeps [account_kept]: "keeps (api_call e)"
proof (cases e)
  case (KPrepRTable n k)
  then show ?thesis
    by (auto simp: keeps_def handlePrepRTable_def when_enabled_def new_table_def set_current_table_def Let_def
        split: Option.bind_splits if_splits list.splits)
next
  case (KDeqArg d)
  then show ?thesis
    by (auto simp: keeps_def handleDequeueArgument_def when_enabled_def functionArgQueuePopFront_def put_table_account
        split: Option.bind_splits if_splits)
next
  case (KReturn d)
  then show ?thesis
    by (auto simp: keeps_def handleReturn_def when_enabled_def Let_def put_table_account
        split: Option.bind_splits if_splits option.splits)
qed (auto simp: keeps_def handlePrepCall_def handleEnqueueArgument_def handleEnqueueConstArgument_def handleLinkReturn_def
    when_enabled_def functionArgQueuePushBack_def clearFunctionArgQueue_def keepsD [OF handleReturnConst_keeps]
    split: Option.bind_splits if_splits list.splits)

section \<open>Regions\<close>

text \<open>The sizes of the arrays, and the account of the work.\<close>

definition runs_ok :: "'m KremlinProfiler \<Rightarrow> bool" where
  "runs_ok p \<longleftrightarrow> length (level_versions p) = arraySize \<and> length (program_regions p) \<le> 2 * arraySize
     \<and> active_regions p \<le> arraySize \<and> active_regions p \<le> length (program_regions p) \<and> work_ok p"

lemma account_eqD:
  assumes "account q = account p"
  shows "curr_level q = curr_level p" "curr_time q = curr_time p" "active_regions q = active_regions p"
    "length (level_versions q) = length (level_versions p)" "length (program_regions q) = length (program_regions p)"
    "i < length (program_regions p) \<Longrightarrow> pr_start (program_regions q ! i) = pr_start (program_regions p ! i)"
    "i < length (program_regions p) \<Longrightarrow> pr_childrenWork (program_regions q ! i) = pr_childrenWork (program_regions p ! i)"
proof -
  let ?f = "\<lambda>r. (pr_start r, pr_childrenWork r)"
  from assms show "curr_level q = curr_level p" "curr_time q = curr_time p" "active_regions q = active_regions p"
    "length (level_versions q) = length (level_versions p)" by (simp_all add: account_def active_regions_def)
  from assms have m: "map ?f (program_regions q) = map ?f (program_regions p)" by (simp add: account_def)
  then show l: "length (program_regions q) = length (program_regions p)" by (rule map_eq_imp_length_eq)
  show "pr_start (program_regions q ! i) = pr_start (program_regions p ! i)"
    "pr_childrenWork (program_regions q ! i) = pr_childrenWork (program_regions p ! i)" if "i < length (program_regions p)"
    using arg_cong [OF m, of "\<lambda>xs. xs ! i"] that l by simp_all
qed

lemma runs_ok_account:
  assumes "account q = account p" "runs_ok p"
  shows "runs_ok q"
proof -
  note a = account_eqD [OF assms(1)]
  have len: "active_regions p \<le> length (program_regions p)" using assms(2) by (simp add: runs_ok_def)
  then have "next_start q i = next_start p i" for i by (simp add: next_start_def a(2,3,6))
  then have "work_ok q" using assms(2) len by (simp add: runs_ok_def work_ok_def a(3,6,7))
  with assms(2) show ?thesis by (simp add: runs_ok_def a(3-5))
qed

lemma startRegisters_account: "startRegisters rt p = Some p' \<Longrightarrow> account p' = account p"
proof -
  assume s: "startRegisters rt p = Some p'"
  have "keeps (\<lambda>p. setRegisterTimeAtIndex 0 r i p)" for r i
    by (auto simp: keeps_def dest: setRegisterTimeAtIndex_tables)
  from keepsD [OF keeps_for_range [OF this]] s show ?thesis
    by (auto simp: startRegisters_def zeroRegistersAtIndex_def addFunctionToStack_def split: if_splits Option.bind_splits)
qed

text \<open>An entry, up to what is no entry of the accounts.\<close>

lemma entry_account:
  assumes "handleRegionEntry cfg sid rt p = Some p'" "enabled p" "active_regions p = d"
    and "d \<le> length (program_regions p)"
  shows "d < length (grown p d)" "d < length (level_versions p)"
    "account p' = account (p\<lparr>curr_level := curr_level p + 1, program_regions := regions_after_entry sid rt p d\<rparr>)"
proof -
  let ?l = "curr_level p + 1"
  have l: "unat ?l = d" "?l = of_nat d" using assms(3) by (auto simp: active_regions_def)
  let ?p1 = "ensureRegion ?l (incrementLevel p)"
  have p1: "program_regions ?p1 = grown p d" "level_versions ?p1 = level_versions p" "curr_level ?p1 = ?l"
    "curr_time ?p1 = curr_time p"
    by (simp_all add: ensureRegion_def l(1) grown_def doubleNumRegions_def increaseNumRegions_def)
  obtain r p2 p3 p4 t where e: "getRegionAtLevel ?l ?p1 = Some r" "issueVersionToLevel ?l ?p1 = Some p2"
    "setRegionAtLevel ?l (ProgramRegion_init sid rt ?l (curr_time p2) r) p2 = Some p3"
    "startRegisters rt p3 = Some p4" "startControlDependence (p4\<lparr>region_tree := t\<rparr>) = Some p'"
    using assms(1,2) by (auto simp: handleRegionEntry_def when_enabled_def Let_def split: Option.bind_splits)
  from e(1) have r: "d < length (grown p d)" "r = grown p d ! d"
    by (auto simp: getRegionAtLevel_def rd_def p1(1) l(1) split: if_splits)
  from e(2) have v: "d < length (level_versions p)" "p2 = ?p1\<lparr>level_versions := (level_versions p)[d := nextVersion ?p1],
      nextVersion := nextVersion ?p1 + 1\<rparr>"
    by (auto simp: issueVersionToLevel_def wr_def p1(2) l(1) split: if_splits Option.bind_splits)
  have p2: "program_regions p2 = grown p d" "curr_time p2 = curr_time p" using v(2) p1 by simp_all
  have "unat ?l < length (program_regions p2)" using r(1) unfolding l(1) p2(1) .
  from setRegionAtLevel_ok [OF this] e(3) have "p3 = p2\<lparr>program_regions := (grown p d)[d := ProgramRegion_init sid rt ?l (curr_time p) r]\<rparr>"
    unfolding l(1) p2 by simp
  then have "p3 = p2\<lparr>program_regions := regions_after_entry sid rt p d\<rparr>"
    unfolding regions_after_entry_def r(2) l(2) [symmetric] .
  then have "account p3 = account (p\<lparr>curr_level := ?l, program_regions := regions_after_entry sid rt p d\<rparr>)"
    using v(2) p1 by (simp add: account_def)
  moreover have "account p4 = account p3" by (rule startRegisters_account [OF e(4)])
  moreover have "account p' = account p4"
    using e(5) by (auto simp: startControlDependence_def initRegionControlDependences_def split: if_splits Option.bind_splits)
  ultimately show "account p' = account (p\<lparr>curr_level := ?l, program_regions := regions_after_entry sid rt p d\<rparr>)" by simp
  show "d < length (grown p d)" "d < length (level_versions p)" by (rule r(1), rule v(1))
qed

lemma entry_runs_ok:
  assumes "handleRegionEntry cfg sid rt p = Some p'" "enabled p" "runs_ok p"
  shows "runs_ok p' \<and> curr_time p' = curr_time p"
proof -
  define d where "d = active_regions p"
  let ?q = "p\<lparr>curr_level := curr_level p + 1, program_regions := regions_after_entry sid rt p d\<rparr>"
  have p: "d \<le> length (program_regions p)" "d \<le> arraySize" "length (level_versions p) = arraySize"
    "length (program_regions p) \<le> 2 * arraySize" "work_ok p" using assms(3) by (simp_all add: runs_ok_def d_def)
  note e = entry_account [OF assms(1,2) d_def [symmetric] p(1)]
  have d: "d < arraySize" using e(2) p(3) by simp
  have q: "active_regions ?q = Suc d"
    using d unat_add_of_nat32 [of "curr_level p + 1" 1] by (simp add: d_def active_regions_def arraySize_def)
  have len: "length (grown p d) \<le> 2 * arraySize" using p(2,4) by (auto simp: grown_def)
  have tk: "take d (regions_after_entry sid rt p d) = take d (program_regions p)"
    using p(1) by (simp add: regions_after_entry_def grown_def)
  have "work_ok ?q"
    by (rule work_ok_entry [OF p(5) d_def [symmetric] q]) (use e(1) tk in \<open>simp_all add: regions_after_entry_def ProgramRegion_init_def\<close>)
  moreover have "length (regions_after_entry sid rt p d) = length (grown p d)" by (simp add: regions_after_entry_def)
  ultimately have "runs_ok ?q" using q p(3) d e(1) len by (simp add: runs_ok_def)
  with runs_ok_account [OF e(3)] account_eqD(2) [OF e(3)] show ?thesis by simp
qed

text \<open>An exit, of whatever region: without an active one the level is out of range.\<close>

lemma handleFunctionExit_account: "handleFunctionExit p = Some p' \<Longrightarrow> account p' = account p"
  by (auto simp: handleFunctionExit_def callstackPop_def split: Option.bind_splits list.splits option.splits)

lemma decrementLevel_account: "account p' = account p \<Longrightarrow> account (decrementLevel p') = account (decrementLevel p)"
  by (simp add: account_def)

lemma exit_account:
  assumes "exitRegion oor rt p = Some p'" "active_regions p = Suc d" "d < length (program_regions p)"
  shows "account p' = account (decrementLevel (p\<lparr>program_regions := regions_after_exit p d\<rparr>))"
proof -
  note l = level_word [OF assms(2)]
  let ?r = "program_regions p ! d"
  have r: "getRegionAtLevel (curr_level p) p = Some ?r"
    using getRegionAtLevel_ok [of "curr_level p" p] assms(3) by (simp add: l(2))
  obtain q t p2 where e: "(if curr_level p > min_level p
       then do {
             parentRegion \<leftarrow> getRegionAtLevel (curr_level p - 1) p;
             setRegionAtLevel (curr_level p - 1) (add_child (curr_time p - pr_start ?r) (pr_cp ?r) parentRegion) p }
       else Some p) = Some q"
    "(if rt = RegionFunc then handleFunctionExit (q\<lparr>region_tree := t\<rparr>) else Some (q\<lparr>region_tree := t\<rparr>)) = Some p2"
    "p' = decrementLevel p2"
    using assms(1) unfolding exitRegion_def Let_def r bind.bind_lunit by (auto split: Option.bind_splits)
  have q: "q = p\<lparr>program_regions := regions_after_exit p d\<rparr>"
  proof (cases "unat (min_level p) < d")
    case True
    then have "curr_level p \<noteq> 0" "curr_level p > min_level p" using l(2) by (auto simp: word_less_nat_alt)
    then have "unat (curr_level p - 1) = d - 1" by (simp add: unat_minus_one l(2))
    then show ?thesis
      using e(1) True \<open>curr_level p > min_level p\<close> assms(3)
      by (simp add: getRegionAtLevel_ok setRegionAtLevel_ok regions_after_exit_def Let_def)
  next
    case False
    then have "\<not> curr_level p > min_level p" using l(2) by (simp add: word_less_nat_alt)
    then show ?thesis using e(1) False by (simp add: regions_after_exit_def Let_def)
  qed
  have "account p2 = account q" using e(2) by (auto split: if_splits dest: handleFunctionExit_account)
  then show ?thesis using decrementLevel_account [of p2 q] e(3) q by simp
qed

lemma exit_runs_ok:
  assumes "exitRegion oor rt p = Some p'" "runs_ok p"
  shows "runs_ok p' \<and> curr_time p' = curr_time p"
proof (cases "active_regions p")
  case 0
  then have "curr_level p + 1 = 0" unfolding active_regions_def by (rule unsigned_eq_0_iff [THEN iffD1])
  then have "curr_level p = - 1" by (simp add: eq_neg_iff_add_eq_0)
  then have "getRegionAtLevel (curr_level p) p = None"
    using assms(2) by (simp add: getRegionAtLevel_def rd_def runs_ok_def arraySize_def unsigned_minus_1_eq_mask mask_eq_exp_minus_1)
  then show ?thesis using assms(1) by (simp add: exitRegion_def)
next
  case (Suc d)
  let ?q = "decrementLevel (p\<lparr>program_regions := regions_after_exit p d\<rparr>)"
  have p: "d < length (program_regions p)" "Suc d \<le> arraySize" "work_ok p" "length (level_versions p) = arraySize"
    "length (program_regions p) \<le> 2 * arraySize"
    using assms(2) Suc by (simp_all add: runs_ok_def)
  note e = exit_account [OF assms(1) Suc p(1)]
  have q: "active_regions ?q = d" using level_word [OF Suc] by (simp add: active_regions_def)
  have "work_ok ?q" by (rule work_ok_exit [OF p(3) Suc q _ p(1)]) simp_all
  then have "runs_ok ?q" using q p regions_after_exit_props(1) [of p d] by (simp add: runs_ok_def)
  with runs_ok_account [OF e] account_eqD(2) [OF e] show ?thesis by simp
qed

lemma landing_runs_ok:
  "landing_loop oor fuel e p = Some p' \<Longrightarrow> runs_ok p \<Longrightarrow> runs_ok p' \<and> curr_time p' = curr_time p"
proof (induction fuel arbitrary: p)
  case (Suc fuel)
  show ?case
  proof (cases "curr_level p > e")
    case True
    then obtain q where q: "landing_turn oor p = Some q" "landing_loop oor fuel e q = Some p'"
      using Suc.prems(1) by (auto simp: landing_loop.simps [of oor "Suc fuel"] split: Option.bind_splits)
    then obtain r where "getRegionAtLevel (curr_level p) p = Some r"
      by (cases "getRegionAtLevel (curr_level p) p") (simp_all add: landing_turn_def)
    from exit_runs_ok [of oor "pr_regionType r" p q] q(1) landing_turn_eq [OF this] Suc.prems(2) Suc.IH [OF q(2)]
    show ?thesis by simp
  qed (use Suc.prems in \<open>simp add: landing_loop.simps [of oor "Suc fuel"]\<close>)
qed (simp add: landing_loop.simps [of oor 0] split: if_splits)

section \<open>Runs\<close>

text \<open>The work that a call reports, as a number that does not wrap around.\<close>

fun work_of :: "api_event \<Rightarrow> nat" where
  "work_of (Control (KWork work)) = unat work"
| "work_of e = 0"

definition total_work :: "api_event list \<Rightarrow> nat" where
  "total_work es = sum_list (map work_of es)"

text \<open>The profiler, if it exists, at a time that is the work reported so far.\<close>

definition opt_ok :: "nat \<Rightarrow> 'm KremlinProfiler option \<Rightarrow> bool" where
  "opt_ok n pr \<longleftrightarrow> (\<forall>p. pr = Some p \<longrightarrow> runs_ok p \<and> unat (curr_time p) \<le> n)"

lemma opt_ok_kept:
  assumes "keeps f" "opt_ok n pr" "map_option Some (pr \<bind> f) = Some pr'"
  shows "opt_ok n pr'"
proof -
  obtain p p' where p: "pr = Some p" "f p = Some p'" "pr' = Some p'" using assms(3) by (cases pr) auto
  from keepsD [OF assms(1) p(2)] have "runs_ok p \<Longrightarrow> runs_ok p'" "curr_time p' = curr_time p"
    by (auto dest: runs_ok_account account_eqD(2))
  with assms(2) p show ?thesis by (simp add: opt_ok_def)
qed

lemma initProfiler_ok: "initProfiler m u cfg = Some p \<Longrightarrow> runs_ok p \<and> curr_time p = 0"
  by (auto simp: initProfiler_def profiler_init_def KremlinProfiler_new_def Let_def initFunctionArgQueue_def
      clearFunctionArgQueue_def initControlDependences_def initProgramRegions_def increaseNumRegions_def
      initVersionArray_def initTimeArray_def runs_ok_def active_regions_def work_ok_def INIT_NUM_REGIONS_def arraySize_def
      split: Option.bind_splits)

lemma api_region_ok:
  assumes "api_region cfg oor m u e pr = Some p'" "opt_ok n pr"
  shows "opt_ok n (Some p')"
proof (cases e)
  case (KEnterRegion sid rt)
  then obtain p where p: "(case pr of None \<Rightarrow> initProfiler m u cfg | Some p \<Rightarrow> Some p) = Some p"
    "handleRegionEntry cfg sid rt p = Some p'" using assms(1) by (auto split: Option.bind_splits)
  have "runs_ok p" "unat (curr_time p) \<le> n"
    using p(1) assms(2) by (auto simp: opt_ok_def dest: initProfiler_ok split: option.splits)
  then show ?thesis using p(2) entry_runs_ok [OF p(2)]
    by (cases "enabled p") (auto simp: opt_ok_def handleRegionEntry_def when_enabled_def)
next
  case (KExitRegion sid rt)
  then obtain p where p: "pr = Some p" "handleRegionExit oor sid rt p = Some p'" using assms(1) by (cases pr) auto
  then show ?thesis using exit_runs_ok [of oor rt p p'] assms(2)
    by (auto simp: opt_ok_def handleRegionExit_def when_enabled_def split: if_splits)
next
  case (KLandingPad sid rt)
  then obtain p where p: "pr = Some p" "handleLandingPad oor sid rt p = Some p'" using assms(1) by (cases pr) auto
  then show ?thesis using landing_runs_ok assms(2)
    by (fastforce simp: opt_ok_def handleLandingPad_def when_enabled_def split: if_splits Option.bind_splits)
qed

lemma increaseTime_runs_ok:
  assumes "runs_ok p" "unat (curr_time p) + unat w < 2 ^ 64"
  shows "runs_ok (increaseTime w p) \<and> unat (curr_time (increaseTime w p)) = unat (curr_time p) + unat w"
proof -
  have "unat (ucast w :: Time) = unat w" by (simp add: unsigned_ucast_eq take_bit_nat_eq_self order.strict_trans2 [OF unsigned_less])
  then have "unat (curr_time p + ucast w) = unat (curr_time p) + unat w"
    using assms(2) by (simp add: unat_word_ariths take_bit_nat_eq_self)
  moreover have "work_ok (increaseTime w p)" using assms by (intro work_ok_time) (simp_all add: runs_ok_def)
  ultimately show ?thesis using assms(1) by (simp add: runs_ok_def increaseTime_def active_regions_def)
qed

lemma api_control_ok:
  assumes "map_option Some (pr \<bind> api_control e) = Some pr'" "opt_ok n pr" "n + work_of (Control e) < 2 ^ 64"
  shows "opt_ok (n + work_of (Control e)) pr'"
proof -
  obtain p p' where p: "pr = Some p" "api_control e p = Some p'" "pr' = Some p'" using assms(1) by (cases pr) auto
  have ok: "runs_ok p" "unat (curr_time p) \<le> n" using assms(2) p(1) by (simp_all add: opt_ok_def)
  have "runs_ok (p\<lparr>enabled := b\<rparr>)" for b by (rule runs_ok_account [OF _ ok(1)]) simp
  then show ?thesis using p ok assms(3) increaseTime_runs_ok [OF ok(1)] by (cases e) (auto simp: opt_ok_def)
qed

lemma api_step_ok:
  assumes "api_step cfg oor ms m u e pr = Some pr'" "opt_ok n pr" "n + work_of e < 2 ^ 64"
  shows "opt_ok (n + work_of e) pr'"
proof (cases e)
  case (Region r)
  then show ?thesis using assms api_region_ok [of cfg oor m u r pr _ n] by auto
next
  case (Control c)
  then show ?thesis using assms api_control_ok by fastforce
qed (use assms in \<open>auto intro: opt_ok_kept [OF api_cdep_keeps] opt_ok_kept [OF api_call_keeps] opt_ok_kept [OF api_stamp_keeps]
    opt_ok_kept [OF api_mem_keeps] opt_ok_kept [OF api_phi_keeps]\<close>)

lemma api_run_ok:
  "api_run cfg oor ms m u es pr = Some pr' \<Longrightarrow> opt_ok n pr \<Longrightarrow> n + total_work es < 2 ^ 64 \<Longrightarrow> opt_ok (n + total_work es) pr'"
proof (induction es arbitrary: pr n)
  case (Cons e es)
  then obtain pr1 where r: "api_step cfg oor ms m u e pr = Some pr1" "api_run cfg oor ms m u es pr1 = Some pr'"
    by (auto split: Option.bind_splits)
  have "opt_ok (n + work_of e) pr1" using Cons.prems by (intro api_step_ok [OF r(1)]) (simp_all add: total_work_def)
  from Cons.IH [OF r(2) this] Cons.prems(3) show ?case by (simp add: total_work_def add.assoc)
qed (simp add: total_work_def)

text \<open>
  The profiler after the program's constructors have made the calls \<open>pre\<close>, with the configuration of the
  defaults, and its own \<open>main\<close> the calls \<open>es\<close>, as \<open>kremlin_main\<close> runs them.
\<close>

definition main_state ::
    "(double \<Rightarrow> UInt64) \<Rightarrow> 'm MShadow \<Rightarrow> (KremlinConfiguration \<Rightarrow> 'm) \<Rightarrow> uninit \<Rightarrow> api_event list
     \<Rightarrow> KremlinConfiguration \<Rightarrow> api_event list \<Rightarrow> 'm KremlinProfiler option option" where
  "main_state oor ms new_mem u pre cfg es = do {
     pr \<leftarrow> api_run KremlinConfiguration_new oor ms (new_mem KremlinConfiguration_new) u pre None;
     p \<leftarrow> (case pr of None \<Rightarrow> initProfiler (new_mem cfg) u cfg | Some p \<Rightarrow> Some p);
     api_run cfg oor ms (new_mem cfg) u es (Some (p\<lparr>enabled := True\<rparr>)) }"

text \<open>The time at which the region at level \<open>i\<close> was last left for a child that still runs, or now.\<close>

definition left_at :: "'m KremlinProfiler \<Rightarrow> nat \<Rightarrow> Time" where
  "left_at p i = (if Suc i < active_regions p then pr_start (program_regions p ! Suc i) else curr_time p)"

text \<open>
  C13. In every state that a profiled program reaches, by any sequence of the calls of the interface (region
  entries, exits and landing pads, nested in whatever way, timestamps, loads and stores, phis, control
  dependences, calls and returns, switching the profiler on and off, work), the work recorded for the finished
  children of every active region is at most the time that passed between the region's start and the start of the
  child that now runs in it, or now for the innermost one. So when a region is left, its children's work is at
  most its own, and the difference in its self-parallelism does not wrap around. The only condition is that all
  the work that is reported fits the 64-bit time.
\<close>

theorem children_work_bounded:
  assumes "main_state oor ms new_mem u pre cfg es = Some (Some p)"
    and "total_work (pre @ es) < 2 ^ 64" "i < active_regions p"
  shows "pr_start (program_regions p ! i) \<le> left_at p i
     \<and> pr_childrenWork (program_regions p ! i) \<le> left_at p i - pr_start (program_regions p ! i)"
proof -
  obtain pr q where r: "api_run KremlinConfiguration_new oor ms (new_mem KremlinConfiguration_new) u pre None = Some pr"
    "(case pr of None \<Rightarrow> initProfiler (new_mem cfg) u cfg | Some p \<Rightarrow> Some p) = Some q"
    "api_run cfg oor ms (new_mem cfg) u es (Some (q\<lparr>enabled := True\<rparr>)) = Some (Some p)"
    using assms(1) unfolding main_state_def by (auto split: Option.bind_splits)
  have w: "total_work pre + total_work es < 2 ^ 64" using assms(2) by (simp add: total_work_def)
  have "opt_ok (0 + total_work pre) pr" by (rule api_run_ok [OF r(1)]) (use w in \<open>simp_all add: opt_ok_def\<close>)
  then have q: "runs_ok q" "unat (curr_time q) \<le> total_work pre"
    using r(2) by (auto simp: opt_ok_def dest: initProfiler_ok split: option.splits)
  have "runs_ok (q\<lparr>enabled := True\<rparr>)" by (rule runs_ok_account [OF _ q(1)]) simp
  then have "opt_ok (total_work pre) (Some (q\<lparr>enabled := True\<rparr>))" using q(2) by (simp add: opt_ok_def)
  from api_run_ok [OF r(3) this w] have "work_ok p" by (simp add: opt_ok_def runs_ok_def)
  then have *: "unat (pr_start (program_regions p ! i)) + unat (pr_childrenWork (program_regions p ! i)) \<le> unat (left_at p i)"
    using assms(3) by (auto simp: work_ok_def next_start_def left_at_def split: if_splits)
  then have "pr_start (program_regions p ! i) \<le> left_at p i" by (simp add: word_le_nat_alt)
  moreover from this * have "pr_childrenWork (program_regions p ! i) \<le> left_at p i - pr_start (program_regions p ! i)"
    by (simp add: word_le_nat_alt unat_sub)
  ultimately show ?thesis ..
qed

section \<open>A concrete run\<close>

abbreviation sample_uninit :: uninit where
  "sample_uninit \<equiv> \<lparr>un_nextVersion = 0, un_last_callsite = 0, un_read = 0, un_write = 0\<rparr>"

text \<open>\<open>main\<close> calls a function that does five units of work and returns.\<close>

abbreviation sample_calls :: "api_event list" where
  "sample_calls \<equiv> [Region (KEnterRegion 7 RegionFunc), Region (KEnterRegion 9 RegionFunc), Control (KWork 5),
     Region (KExitRegion 9 RegionFunc)]"

lemma sample_calls_run:
  "\<exists>p :: unit KremlinProfiler. main_state (\<lambda>_. 0) sample_ms (\<lambda>_. ()) sample_uninit [Noop KInit] default_cfg sample_calls = Some (Some p)
     \<and> active_regions p = 1 \<and> pr_childrenWork (program_regions p ! 0) = 5"
proof -
  obtain p0 :: "unit KremlinProfiler" where p0: "initProfiler () sample_uninit default_cfg = Some p0" "min_level p0 = 0"
    and p: "prof_ok (p0\<lparr>enabled := True\<rparr>)" "enabled (p0\<lparr>enabled := True\<rparr>)" "active_regions (p0\<lparr>enabled := True\<rparr>) = 0"
      "can_enter (p0\<lparr>enabled := True\<rparr>) RegionFunc 0"
    using started [of 0 0 0 0] by (auto simp: initProfiler_def)
  obtain p1 where p1: "handleRegionEntry default_cfg 7 RegionFunc (p0\<lparr>enabled := True\<rparr>) = Some p1" by (rule entry_exists [OF p])
  note e1 = entry_facts [OF p p1] and c1 = can_enter_callee [OF p p1]
  have a1: "active_regions p1 = 1" using e1(3) by simp
  obtain p2 where p2: "handleRegionEntry default_cfg 9 RegionFunc p1 = Some p2" by (rule entry_exists [OF e1(1,2) a1 c1])
  note e2 = entry_facts [OF e1(1,2) a1 c1 p2]
  let ?q = "increaseTime 5 p2"
  have q: "prof_ok ?q" "enabled ?q" "active_regions ?q = Suc 1" "RegionFunc = pr_regionType (program_regions ?q ! 1)"
    using e2(1-3,6) by (simp_all add: prof_ok_increaseTime) (simp_all add: increaseTime_def active_regions_def)
  obtain p3 where p3: "handleRegionExit (\<lambda>_. 0) 9 RegionFunc ?q = Some p3" "active_regions p3 = 1"
    "program_regions p3 = regions_after_exit ?q 1"
    using region_exit_ok_lemma [OF q, of "\<lambda>_. 0" 9] by blast
  have len: "1 < length (program_regions p2)" using callstack_nonempty(2) [OF q(1,3)] by (simp add: increaseTime_def)
  have "program_regions p1 \<noteq> []" using e1(1) by (simp add: prof_ok_def arrays_ok_def)
  then have zero: "pr_childrenWork (program_regions p1 ! 0) = 0"
    unfolding e1(9) by (simp add: regions_after_entry_def ProgramRegion_init_def)
  have "take 1 (program_regions p2) ! 0 = take 1 (program_regions p1) ! 0" by (simp only: e2(4))
  then have "pr_childrenWork (program_regions p2 ! 0) = 0" using zero by simp
  moreover have "pr_start (program_regions p2 ! 1) = curr_time p2"
    using len unfolding e2(9,10) by (simp add: regions_after_entry_def ProgramRegion_init_def)
  moreover have "min_level p2 = 0" using e1(7) e2(7) p0(2) by simp
  ultimately have "pr_childrenWork (program_regions p3 ! 0) = 5"
    using len nth_list_update_eq [of 0 "program_regions p2"]
    unfolding p3(3) by (cases "program_regions p2") (simp_all add: regions_after_exit_def increaseTime_def add_child_def Let_def)
  then show ?thesis using p0(1) p1 p2 p3(1,2) by (intro exI [of _ p3]) (simp add: main_state_def)
qed

theorem children_work_bounded_witness:
  "\<exists>p :: unit KremlinProfiler. main_state (\<lambda>_. 0) sample_ms (\<lambda>_. ()) sample_uninit [Noop KInit] default_cfg sample_calls = Some (Some p)
     \<and> active_regions p = 1 \<and> pr_childrenWork (program_regions p ! 0) = 5 \<and> pr_start (program_regions p ! 0) \<le> curr_time p
     \<and> 5 \<le> curr_time p - pr_start (program_regions p ! 0)"
proof -
  obtain p :: "unit KremlinProfiler" where p: "main_state (\<lambda>_. 0) sample_ms (\<lambda>_. ()) sample_uninit [Noop KInit] default_cfg sample_calls = Some (Some p)"
    "active_regions p = 1" "pr_childrenWork (program_regions p ! 0) = 5" using sample_calls_run by blast
  have "total_work ([Noop KInit] @ sample_calls) < 2 ^ 64" by (simp add: total_work_def)
  from children_work_bounded [OF p(1) this, of 0] p show ?thesis by (intro exI [of _ p]) (simp add: left_at_def)
qed

end
